(* ===== verification/FS_Prelude.thy ===== *)
theory FS_Prelude
  imports Main "HOL-Library.AList"
begin

text \<open>
  Shared vocabulary of the development.

  \<^item> \<open>gomap\<close>: a Go \<^verbatim>\<open>map[K]V\<close> as an association list. Iteration order is not
    specified in Go; a walk over the list is one of the orders, and every result that is
    proved about a walk is stated through \<open>map_of\<close> or through sets.
  \<^item> \<open>gtime\<close>, \<open>dur\<close>: \<^verbatim>\<open>time.Time\<close> as nanoseconds since Go's zero time and
    \<^verbatim>\<open>time.Duration\<close> as nanoseconds. \<open>t_sub\<close> saturates as \<^verbatim>\<open>Time.Sub\<close> does.
  \<^item> \<open>clock\<close>: the successive readings of \<^verbatim>\<open>time.Now\<close> that one call of an operation
    takes. Reading number \<open>i\<close> is \<open>ck i\<close>, so an operation that reads the clock twice may
    see two different instants.
  \<^item> the locale \<open>bounded_machine\<close>: a table with a capacity, a step function over its
    operations and an invariant; the client lemma is that no sequence of operations (hence no
    interleaving of the mutex-protected operations of several goroutines) breaks the bound.
\<close>

named_theorems fs_simps "rewrite rules for the Go containers"
named_theorems fs_inv "preservation of container well-formedness"

lemma find_SomeD: "find p xs = Some x \<Longrightarrow> x \<in> set xs \<and> p x"
  by (induction xs) (auto split: if_splits)

lemma find_append: "find p (xs @ ys) = (case find p xs of Some x \<Rightarrow> Some x | None \<Rightarrow> find p ys)"
  by (induction xs) auto

section \<open>Go maps\<close>

type_synonym ('k, 'v) gomap = "('k \<times> 'v) list"

definition wf_map :: "('k, 'v) gomap \<Rightarrow> bool" where
  "wf_map m \<longleftrightarrow> distinct (map fst m)"

abbreviation keys :: "('k, 'v) gomap \<Rightarrow> 'k set" where
  "keys m \<equiv> fst ` set m"

abbreviation m_get :: "('k, 'v) gomap \<Rightarrow> 'k \<Rightarrow> 'v option" where
  "m_get m k \<equiv> map_of m k"

abbreviation m_set :: "'k \<Rightarrow> 'v \<Rightarrow> ('k, 'v) gomap \<Rightarrow> ('k, 'v) gomap" where
  "m_set \<equiv> AList.update"

abbreviation m_del :: "'k \<Rightarrow> ('k, 'v) gomap \<Rightarrow> ('k, 'v) gomap" where
  "m_del \<equiv> AList.delete"

text \<open>\<^verbatim>\<open>m[k]\<close> on a missing key is the element type's zero value.\<close>

definition m_get0 :: "'v \<Rightarrow> ('k, 'v) gomap \<Rightarrow> 'k \<Rightarrow> 'v" where
  "m_get0 z m k = (case m_get m k of None \<Rightarrow> z | Some v \<Rightarrow> v)"

text \<open>\<^verbatim>\<open>for k, v := range m { if p(v) { delete(m, k) } }\<close>\<close>

definition m_drop_if :: "('v \<Rightarrow> bool) \<Rightarrow> ('k, 'v) gomap \<Rightarrow> ('k, 'v) gomap" where
  "m_drop_if p m = filter (\<lambda>(k, v). \<not> p v) m"

lemma wf_map_Nil [simp, fs_inv]: "wf_map []"
  by (simp add: wf_map_def)

lemma wf_map_set [simp, fs_inv]: "wf_map m \<Longrightarrow> wf_map (m_set k v m)"
  by (simp add: wf_map_def distinct_update)

lemma wf_map_del [simp, fs_inv]: "wf_map m \<Longrightarrow> wf_map (m_del k m)"
  by (simp add: wf_map_def distinct_delete)

lemma wf_map_filter [simp, fs_inv]: "wf_map m \<Longrightarrow> wf_map (filter p m)"
  by (simp add: wf_map_def distinct_map_filter)

lemma wf_map_drop_if [simp, fs_inv]: "wf_map m \<Longrightarrow> wf_map (m_drop_if p m)"
  by (simp add: m_drop_if_def)

lemma m_get_set [simp, fs_simps]: "m_get (m_set k v m) = (m_get m)(k \<mapsto> v)"
  by (rule update_conv')

lemma m_get_del [simp, fs_simps]: "m_get (m_del k m) = (m_get m)(k := None)"
  by (rule delete_conv')

lemma keys_set [simp, fs_simps]: "keys (m_set k v m) = insert k (keys m)"
  by (simp add: dom_update)

lemma keys_del [simp, fs_simps]: "keys (m_del k m) = keys m - {k}"
  by (simp add: delete_keys image_image[symmetric]) (force simp: AList.delete_eq)

lemma length_set [fs_simps]: "length (m_set k v m) = (if k \<in> keys m then length m else Suc (length m))"
  by (induction m) auto

lemma length_del [fs_simps]: "length (m_del k m) \<le> length m"
  by (simp add: AList.delete_eq)

lemma wf_map_card: "wf_map m \<Longrightarrow> card (keys m) = length m"
  by (metis distinct_card length_map list.set_map wf_map_def)

lemma m_get_None: "m_get m k = None \<longleftrightarrow> k \<notin> keys m"
  by (simp add: map_of_eq_None_iff)

lemma m_get_keys: "m_get m k = Some v \<Longrightarrow> k \<in> keys m"
  by (metis m_get_None option.distinct(1))

lemma m_get_filter:
  "wf_map m \<Longrightarrow> m_get (filter (\<lambda>(k, v). p k v) m) k =
     (case m_get m k of None \<Rightarrow> None | Some v \<Rightarrow> if p k v then Some v else None)"
proof (induction m)
  case Nil
  then show ?case by simp
next
  case (Cons e m)
  obtain a b where e: "e = (a, b)" by force
  have wf: "wf_map m" and notin: "a \<notin> keys m"
    using Cons.prems by (auto simp: wf_map_def e)
  have miss: "m_get m a = None" "m_get (filter (\<lambda>(k, v). p k v) m) a = None"
    using notin by (auto simp: m_get_None)
  show ?case
    using Cons.IH[OF wf] miss by (auto simp: e split: option.splits)
qed

lemma m_get_drop_if:
  "wf_map m \<Longrightarrow> m_get (m_drop_if p m) k =
     (case m_get m k of None \<Rightarrow> None | Some v \<Rightarrow> if p v then None else Some v)"
  unfolding m_drop_if_def by (subst m_get_filter) (auto split: option.splits dest: m_get_keys)

lemma length_drop_if [fs_simps]: "length (m_drop_if p m) \<le> length m"
  by (simp add: m_drop_if_def)

lemma length_del_Suc:
  assumes "wf_map m" "m_get m k \<noteq> None"
  shows "length (m_del k m) + 1 = length m"
proof -
  obtain v where "m_get m k = Some v" using assms(2) by blast
  then have k: "k \<in> keys m" by (rule m_get_keys)
  have "length (m_del k m) = card (keys (m_del k m))" "length m = card (keys m)"
    using assms(1) by (simp_all only: wf_map_card wf_map_del)
  moreover have "card (keys m - {k}) + 1 = card (keys m)"
    using card.remove [of "keys m" k] k by simp
  ultimately show ?thesis by (simp only: keys_del)
qed

lemma keys_drop_if: "keys (m_drop_if p m) \<subseteq> keys m"
  by (auto simp: m_drop_if_def)

section \<open>Time\<close>

type_synonym gtime = int
type_synonym dur = int
type_synonym clock = "nat \<Rightarrow> gtime"

definition t_zero :: gtime where
  "t_zero = 0"

definition max_dur :: dur where
  "max_dur = 2 ^ 63 - 1"

definition min_dur :: dur where
  "min_dur = - (2 ^ 63)"

definition t_before :: "gtime \<Rightarrow> gtime \<Rightarrow> bool" where
  "t_before a b \<longleftrightarrow> a < b"

definition t_after :: "gtime \<Rightarrow> gtime \<Rightarrow> bool" where
  "t_after a b \<longleftrightarrow> b < a"

definition t_add :: "gtime \<Rightarrow> dur \<Rightarrow> gtime" where
  "t_add t d = t + d"

definition t_sub :: "gtime \<Rightarrow> gtime \<Rightarrow> dur" where
  "t_sub a b = max min_dur (min max_dur (a - b))"

definition t_is_zero :: "gtime \<Rightarrow> bool" where
  "t_is_zero t \<longleftrightarrow> t = t_zero"

definition nanosecond :: dur where
  "nanosecond = 1"

definition second :: dur where
  "second = 1000000000"

definition minute :: dur where
  "minute = 60 * second"

definition hour :: dur where
  "hour = 60 * minute"

lemmas time_defs = t_zero_def max_dur_def min_dur_def t_before_def t_after_def t_add_def
  t_sub_def t_is_zero_def nanosecond_def second_def minute_def hour_def

lemma t_sub_ge: "0 \<le> d \<Longrightarrow> d \<le> max_dur \<Longrightarrow> d \<le> t_sub a b \<longleftrightarrow> d \<le> a - b"
  by (auto simp: time_defs)

lemma t_sub_less: "0 < d \<Longrightarrow> d \<le> max_dur \<Longrightarrow> t_sub a b < d \<longleftrightarrow> a - b < d"
  by (auto simp: time_defs)

lemma t_sub_self [simp]: "t_sub a a = 0"
  by (simp add: time_defs)

section \<open>Go integer division\<close>

text \<open>\<^verbatim>\<open>/\<close> and \<^verbatim>\<open>%\<close> truncate towards zero.\<close>

definition go_quot :: "int \<Rightarrow> int \<Rightarrow> int" where
  "go_quot a b = sgn a * sgn b * (\<bar>a\<bar> div \<bar>b\<bar>)"

definition go_rem :: "int \<Rightarrow> int \<Rightarrow> int" where
  "go_rem a b = a - b * go_quot a b"

lemma go_quot_nonneg: "0 \<le> a \<Longrightarrow> 0 < b \<Longrightarrow> go_quot a b = a div b"
  by (cases "a = 0") (auto simp: go_quot_def)

lemma go_rem_nonneg: "0 \<le> a \<Longrightarrow> 0 < b \<Longrightarrow> go_rem a b = a mod b"
  by (simp add: go_rem_def go_quot_nonneg minus_mult_div_eq_mod)

section \<open>Tables with a capacity\<close>

text \<open>
  A component guarded by one mutex is a step function over its operations. The locale
  carries the generic consequences: the invariant holds after every sequence of
  operations, so the size never passes the capacity.
\<close>

fun run_ops :: "('op \<Rightarrow> 's \<Rightarrow> 's) \<Rightarrow> 'op list \<Rightarrow> 's \<Rightarrow> 's" where
  "run_ops step [] s = s"
| "run_ops step (x # xs) s = run_ops step xs (step x s)"

lemma run_ops_append: "run_ops step (xs @ ys) s = run_ops step ys (run_ops step xs s)"
  by (induction xs arbitrary: s) auto

locale bounded_machine =
  fixes step :: "'op \<Rightarrow> 's \<Rightarrow> 's"
    and init :: "'s"
    and inv :: "'s \<Rightarrow> bool"
    and size_of :: "'s \<Rightarrow> nat"
    and cap :: nat
  assumes inv_init: "inv init"
    and inv_step: "inv s \<Longrightarrow> inv (step x s)"
    and inv_size: "inv s \<Longrightarrow> size_of s \<le> cap"
begin

lemma run_inv: "inv s \<Longrightarrow> inv (run_ops step xs s)"
  by (induction xs arbitrary: s) (auto intro: inv_step)

lemma reach_inv: "inv (run_ops step xs init)"
  by (rule run_inv [OF inv_init])

lemma reach_bound: "size_of (run_ops step xs init) \<le> cap"
  by (rule inv_size [OF reach_inv])

end

section \<open>Recency lists\<close>

text \<open>
  The shield's and the edge's tables pair a map with a \<^verbatim>\<open>container/list\<close> of the
  same entries, most recently used first. Each list element carries its key, so the list is
  modelled by the keys in order and the entries by the map; keeping the two in step is the
  code's job and the invariant \<open>lru_ok\<close>.
\<close>

record ('k, 'v) lru =
  entries :: "('k, 'v) gomap"
  order :: "'k list"

definition lru_empty :: "('k, 'v) lru" where
  "lru_empty = \<lparr>entries = [], order = []\<rparr>"

definition lru_get :: "('k, 'v) lru \<Rightarrow> 'k \<Rightarrow> 'v option" where
  "lru_get t k = m_get (entries t) k"

text \<open>\<^verbatim>\<open>lru.MoveToFront(el)\<close>\<close>

definition lru_front :: "'k \<Rightarrow> ('k, 'v) lru \<Rightarrow> ('k, 'v) lru" where
  "lru_front k t = t\<lparr>order := k # remove1 k (order t)\<rparr>"

text \<open>\<^verbatim>\<open>entries[key] = lru.PushFront(v)\<close>\<close>

definition lru_push :: "'k \<Rightarrow> 'v \<Rightarrow> ('k, 'v) lru \<Rightarrow> ('k, 'v) lru" where
  "lru_push k v t = t\<lparr>entries := m_set k v (entries t), order := k # order t\<rparr>"

text \<open>\<^verbatim>\<open>delete(entries, key); lru.Remove(el)\<close>\<close>

definition lru_remove :: "'k \<Rightarrow> ('k, 'v) lru \<Rightarrow> ('k, 'v) lru" where
  "lru_remove k t = t\<lparr>entries := m_del k (entries t), order := remove1 k (order t)\<rparr>"

text \<open>A write through the element's pointer.\<close>

definition lru_write :: "'k \<Rightarrow> 'v \<Rightarrow> ('k, 'v) lru \<Rightarrow> ('k, 'v) lru" where
  "lru_write k v t = t\<lparr>entries := m_set k v (entries t)\<rparr>"

text \<open>
  \<^verbatim>\<open>oldest := lru.Back()\<close>, dropped from both. The code calls it only at
  \<^verbatim>\<open>lru.Len() >= max\<close> with a positive maximum, where the back element exists.
\<close>

definition lru_evict_back :: "('k, 'v) lru \<Rightarrow> ('k, 'v) lru" where
  "lru_evict_back t = (case order t of [] \<Rightarrow> t | _ \<Rightarrow> lru_remove (last (order t)) t)"

text \<open>\<^verbatim>\<open>if lru.Len() >= max { evict the back }\<close>, before an insertion.\<close>

definition lru_make_room :: "nat \<Rightarrow> ('k, 'v) lru \<Rightarrow> ('k, 'v) lru" where
  "lru_make_room cap t = (if length (order t) \<ge> cap then lru_evict_back t else t)"

text \<open>A walk that removes every element whose value satisfies \<open>p\<close>.\<close>

definition lru_drop_if :: "('v \<Rightarrow> bool) \<Rightarrow> ('k, 'v) lru \<Rightarrow> ('k, 'v) lru" where
  "lru_drop_if p t =
     \<lparr>entries = m_drop_if p (entries t),
      order = filter (\<lambda>k. case m_get (entries t) k of None \<Rightarrow> True | Some v \<Rightarrow> \<not> p v) (order t)\<rparr>"

definition lru_ok :: "nat \<Rightarrow> ('k, 'v) lru \<Rightarrow> bool" where
  "lru_ok cap t \<longleftrightarrow> wf_map (entries t) \<and> distinct (order t) \<and>
     set (order t) = keys (entries t) \<and> length (order t) \<le> cap"

lemmas lru_defs = lru_get_def lru_front_def lru_push_def lru_remove_def lru_write_def

lemma lru_ok_size: "lru_ok cap t \<Longrightarrow> length (entries t) = length (order t)"
  by (metis distinct_card lru_ok_def wf_map_card)

lemma lru_ok_empty [simp, fs_inv]: "lru_ok cap lru_empty"
  by (simp add: lru_ok_def lru_empty_def)

lemma lru_ok_front [fs_inv]: "lru_ok cap t \<Longrightarrow> lru_get t k = Some v \<Longrightarrow> lru_ok cap (lru_front k t)"
  by (auto simp: lru_ok_def lru_defs length_remove1 dest: m_get_keys)
    (metis Suc_pred length_pos_if_in_set list.set_map image_set m_get_keys)

lemma lru_ok_push [fs_inv]:
  "lru_ok cap t \<Longrightarrow> lru_get t k = None \<Longrightarrow> length (order t) < cap \<Longrightarrow> lru_ok cap (lru_push k v t)"
  by (auto simp: lru_ok_def lru_defs m_get_None)

lemma lru_ok_remove [fs_inv]: "lru_ok cap t \<Longrightarrow> lru_ok cap (lru_remove k t)"
  by (auto simp: lru_ok_def lru_defs length_remove1)

lemma lru_ok_write [fs_inv]: "lru_ok cap t \<Longrightarrow> lru_get t k = Some u \<Longrightarrow> lru_ok cap (lru_write k v t)"
  by (auto simp: lru_ok_def lru_defs dest: m_get_keys)

lemma lru_ok_evict_back [fs_inv]: "lru_ok cap t \<Longrightarrow> lru_ok cap (lru_evict_back t)"
  by (auto simp: lru_evict_back_def fs_inv split: list.splits)

lemma lru_evict_back_length:
  "0 < length (order t) \<Longrightarrow> length (order (lru_evict_back t)) = length (order t) - 1"
  by (cases "order t") (auto simp: lru_evict_back_def lru_remove_def length_remove1)

lemma lru_get_evict_back:
  "lru_get t k = None \<Longrightarrow> lru_get (lru_evict_back t) k = None"
  by (auto simp: lru_evict_back_def lru_defs split: list.splits)

lemma lru_ok_drop_if [fs_inv]:
  assumes "lru_ok cap t"
  shows "lru_ok cap (lru_drop_if p t)"
proof -
  have wf: "wf_map (entries t)" and d: "distinct (order t)"
    and s: "set (order t) = keys (entries t)" and l: "length (order t) \<le> cap"
    using assms by (auto simp: lru_ok_def)
  have "k \<in> keys (m_drop_if p (entries t)) \<longleftrightarrow>
      k \<in> keys (entries t) \<and> (case m_get (entries t) k of None \<Rightarrow> True | Some v \<Rightarrow> \<not> p v)" for k
    using m_get_drop_if [OF wf, of p k] m_get_None [of "m_drop_if p (entries t)" k]
      m_get_None [of "entries t" k]
    by (auto split: option.splits if_splits dest: m_get_keys)
  then show ?thesis
    using wf d l s unfolding lru_ok_def lru_drop_if_def
    by (auto intro: le_trans [OF length_filter_le])
qed

lemma lru_make_room_ok:
  assumes "lru_ok cap t" "0 < cap"
  shows "lru_ok cap (lru_make_room cap t)" "length (order (lru_make_room cap t)) < cap"
    "lru_get t k = None \<Longrightarrow> lru_get (lru_make_room cap t) k = None"
proof -
  show "lru_ok cap (lru_make_room cap t)"
    using assms by (simp add: lru_make_room_def lru_ok_evict_back)
  have "length (order t) \<le> cap" using assms by (simp add: lru_ok_def)
  then show "length (order (lru_make_room cap t)) < cap"
    using assms lru_evict_back_length [of t] by (cases "order t = []") (auto simp: lru_make_room_def)
  show "lru_get t k = None \<Longrightarrow> lru_get (lru_make_room cap t) k = None"
    by (simp add: lru_make_room_def lru_get_evict_back)
qed

lemma lru_insert_ok:
  "lru_ok cap t \<Longrightarrow> 0 < cap \<Longrightarrow> lru_get t k = None \<Longrightarrow> lru_ok cap (lru_push k v (lru_make_room cap t))"
  by (intro lru_ok_push lru_make_room_ok)

end
