(* ===== verification/Netip.thy ===== *)
theory Netip
  imports FS_Prelude "HOL-Library.Word"
begin

text \<open>
  The part of Go's \<^verbatim>\<open>net/netip\<close> the program uses: \<^verbatim>\<open>Addr\<close> (the zero value is
  invalid; an IPv6 address carries a zone) and \<^verbatim>\<open>AddrPort\<close>, with the classification
  predicates. The predicates that look through an IPv4-mapped IPv6 address do so with
  \<open>unmap\<close>, as the library does.
\<close>

unbundle bit_operations_syntax

datatype addr = AddrZero | V4 "32 word" | V6 "128 word" string

type_synonym addrport = "addr \<times> 16 word"

definition ap_zero :: addrport where
  "ap_zero = (AddrZero, 0)"

fun addr_valid :: "addr \<Rightarrow> bool" where
  "addr_valid AddrZero = False"
| "addr_valid _ = True"

fun addr_is4 :: "addr \<Rightarrow> bool" where
  "addr_is4 (V4 _) = True"
| "addr_is4 _ = False"

fun addr_is6 :: "addr \<Rightarrow> bool" where
  "addr_is6 (V6 _ _) = True"
| "addr_is6 _ = False"

text \<open>\<^verbatim>\<open>Unmap\<close>: \<^verbatim>\<open>::ffff:a.b.c.d\<close> becomes \<^verbatim>\<open>a.b.c.d\<close>, the zone is dropped.\<close>

fun unmap :: "addr \<Rightarrow> addr" where
  "unmap (V6 w z) = (if drop_bit 32 w = 0xffff then V4 (ucast w) else V6 w z)"
| "unmap a = a"

text \<open>\<^verbatim>\<open>WithZone("")\<close>\<close>

fun no_zone :: "addr \<Rightarrow> addr" where
  "no_zone (V6 w z) = V6 w []"
| "no_zone a = a"

text \<open>\<^verbatim>\<open>PrefixFrom(a, 64).Masked().Addr()\<close> of an IPv6 address.\<close>

definition mask64 :: "128 word \<Rightarrow> 128 word" where
  "mask64 w = push_bit 64 (drop_bit 64 w)"

definition ap_valid :: "addrport \<Rightarrow> bool" where
  "ap_valid ap = addr_valid (fst ap)"

fun is_unspecified :: "addr \<Rightarrow> bool" where
  "is_unspecified (V4 w) = (w = 0)"
| "is_unspecified (V6 w z) = (w = 0 \<and> z = [])"
| "is_unspecified AddrZero = False"

definition is_loopback :: "addr \<Rightarrow> bool" where
  "is_loopback a = (case unmap a of V4 w \<Rightarrow> drop_bit 24 w = 127 | V6 w _ \<Rightarrow> w = 1 | AddrZero \<Rightarrow> False)"

definition is_multicast :: "addr \<Rightarrow> bool" where
  "is_multicast a = (case unmap a of V4 w \<Rightarrow> drop_bit 28 w = 14 | V6 w _ \<Rightarrow> drop_bit 120 w = 255
     | AddrZero \<Rightarrow> False)"

definition is_link_local_unicast :: "addr \<Rightarrow> bool" where
  "is_link_local_unicast a = (case unmap a of V4 w \<Rightarrow> drop_bit 16 w = 0xa9fe
     | V6 w _ \<Rightarrow> drop_bit 112 w AND 0xffc0 = 0xfe80 | AddrZero \<Rightarrow> False)"

definition is_link_local_multicast :: "addr \<Rightarrow> bool" where
  "is_link_local_multicast a = (case unmap a of V4 w \<Rightarrow> drop_bit 8 w = 0xe00000
     | V6 w _ \<Rightarrow> drop_bit 112 w AND 0xff0f = 0xff02 | AddrZero \<Rightarrow> False)"

definition is_interface_local_multicast :: "addr \<Rightarrow> bool" where
  "is_interface_local_multicast a = (case unmap a of
       V6 w _ \<Rightarrow> drop_bit 112 w AND 0xff0f = 0xff01 | _ \<Rightarrow> False)"

definition is_private :: "addr \<Rightarrow> bool" where
  "is_private a = (case unmap a of
       V4 w \<Rightarrow> drop_bit 24 w = 10 \<or> drop_bit 20 w = 0xac1 \<or> drop_bit 16 w = 0xc0a8
     | V6 w _ \<Rightarrow> drop_bit 121 w = 0x7e | AddrZero \<Rightarrow> False)"

text \<open>\<^verbatim>\<open>Prefix.Contains\<close> of 100.64.0.0/10: an IPv4 prefix matches plain IPv4 only.\<close>

definition in_cgnat :: "addr \<Rightarrow> bool" where
  "in_cgnat a = (case a of V4 w \<Rightarrow> drop_bit 22 w = 0x191 | _ \<Rightarrow> False)"

definition broadcast4 :: addr where
  "broadcast4 = V4 0xffffffff"

lemma unmap_idem [simp]: "unmap (unmap a) = unmap a"
  by (cases a) auto

lemma unmap_V6 [simp]: "unmap a = V6 w z \<Longrightarrow> drop_bit 32 w \<noteq> 0xffff"
  by (cases a) (auto split: if_splits)

lemma addr_valid_unmap [simp]: "addr_valid (unmap a) = addr_valid a"
  by (cases a) auto

lemma unmap_no_zone [simp]: "unmap (no_zone (unmap a)) = no_zone (unmap a)"
  by (cases a) auto

lemma no_zone_idem [simp]: "no_zone (no_zone a) = no_zone a"
  by (cases a) auto

lemma classify_unmap [simp]:
  "is_loopback (unmap a) = is_loopback a"
  "is_multicast (unmap a) = is_multicast a"
  "is_link_local_unicast (unmap a) = is_link_local_unicast a"
  "is_link_local_multicast (unmap a) = is_link_local_multicast a"
  "is_interface_local_multicast (unmap a) = is_interface_local_multicast a"
  "is_private (unmap a) = is_private a"
  by (simp_all add: is_loopback_def is_multicast_def is_link_local_unicast_def
      is_link_local_multicast_def is_interface_local_multicast_def is_private_def)

lemma drop_mask64 [simp]: "drop_bit 64 (mask64 w) = drop_bit 64 w"
  by (rule bit_word_eqI) (auto simp: mask64_def bit_simps dest: bit_imp_le_length)

lemma mask64_idem [simp]: "mask64 (mask64 w) = mask64 w"
  by (simp add: mask64_def [of "mask64 w"]) (simp add: mask64_def)

lemma mask64_eq_iff: "mask64 v = mask64 w \<longleftrightarrow> drop_bit 64 v = drop_bit 64 w"
  by (metis drop_mask64 mask64_def)

end
