(* ===== verification/Banlist.thy ===== *)
theory Banlist
  imports FS_Prelude
begin

text \<open>
  The in-memory ban table of \<^verbatim>\<open>src/internal/shield/banlist.go\<close>: a capped map from a source key
  to a ban with lazy expiry. The three tables of the shield are instances of it (IP, UDP
  socket, IP on UDP only). \<open>ban\<close> reads the clock at three places (\<open>ck 0\<close> for the
  sweep interval, \<open>ck 1\<close> for the sweep, \<open>ck 2\<close> for the entry), the other operations once.

  \<open>ban_table\<close> is the contract the shield relies on, stated on the abstract view
  \<open>blocked b k t\<close>: is \<open>k\<close> banned at instant \<open>t\<close>? It is interpreted on the table below.
\<close>

section \<open>Model\<close>

definition banCap :: nat where
  "banCap = 65536"

definition sweepEvery :: dur where
  "sweepEvery = second"

definition BanReasonScanner :: string where
  "BanReasonScanner = ''scanner''"

definition BanReasonRegister :: string where
  "BanReasonRegister = ''register''"

definition BanReasonAdmission :: string where
  "BanReasonAdmission = ''admission''"

definition BanReasonMalformed :: string where
  "BanReasonMalformed = ''malformed''"

record ban_entry =
  be_until :: gtime
  be_since :: gtime
  be_reason :: string

record 'k banlist =
  until :: "('k, ban_entry) gomap"
  last_sweep :: gtime
  overflow :: nat

definition new_banlist :: "'k banlist" where
  "new_banlist = \<lparr>until = [], last_sweep = t_zero, overflow = 0\<rparr>"

text \<open>\<^verbatim>\<open>!now.Before(e.until)\<close>\<close>

definition ban_expired :: "gtime \<Rightarrow> ban_entry \<Rightarrow> bool" where
  "ban_expired now e \<longleftrightarrow> \<not> t_before now (be_until e)"

text \<open>The sweep \<^verbatim>\<open>ban\<close> makes at the cap, at most once per \<open>sweepEvery\<close>.\<close>

definition ban_sweep :: "clock \<Rightarrow> 'k banlist \<Rightarrow> 'k banlist" where
  "ban_sweep ck b =
     (if t_sub (ck 0) (last_sweep b) \<ge> sweepEvery
      then b\<lparr>until := m_drop_if (ban_expired (ck 1)) (until b), last_sweep := ck 1\<rparr>
      else b)"

definition ban :: "clock \<Rightarrow> 'k \<Rightarrow> dur \<Rightarrow> string \<Rightarrow> 'k banlist \<Rightarrow> 'k banlist \<times> bool" where
  "ban ck key d reason b =
     (let old = m_get (until b) key;
          full = (old = None \<and> length (until b) \<ge> banCap);
          b1 = (if full then ban_sweep ck b else b)
      in if full \<and> length (until b1) \<ge> banCap
         then (b1\<lparr>overflow := overflow b1 + 1\<rparr>, False)
         else let now = ck 2 in
           (case old of
              None \<Rightarrow> (b1\<lparr>until := m_set key
                 \<lparr>be_until = t_add now d, be_since = now, be_reason = reason\<rparr> (until b1)\<rparr>, True)
            | Some e \<Rightarrow>
                (if t_after (t_add now d) (be_until e)
                 then (b1\<lparr>until := m_set key (e\<lparr>be_until := t_add now d\<rparr>) (until b1)\<rparr>, True)
                 else (b1, True))))"

definition overflowed :: "'k banlist \<Rightarrow> nat" where
  "overflowed b = overflow b"

definition banned :: "clock \<Rightarrow> 'k \<Rightarrow> 'k banlist \<Rightarrow> 'k banlist \<times> bool" where
  "banned ck key b =
     (case m_get (until b) key of
        None \<Rightarrow> (b, False)
      | Some e \<Rightarrow> if ban_expired (ck 0) e then (b\<lparr>until := m_del key (until b)\<rparr>, False) else (b, True))"

definition ban_size :: "'k banlist \<Rightarrow> nat" where
  "ban_size b = length (until b)"

definition ban_liveCount :: "clock \<Rightarrow> 'k banlist \<Rightarrow> nat" where
  "ban_liveCount ck b = length (filter (\<lambda>(k, e). t_before (ck 0) (be_until e)) (until b))"

definition ban_prune :: "clock \<Rightarrow> 'k banlist \<Rightarrow> 'k banlist" where
  "ban_prune ck b = b\<lparr>until := m_drop_if (ban_expired (ck 0)) (until b)\<rparr>"

definition ban_live :: "clock \<Rightarrow> 'k banlist \<Rightarrow> ('k \<times> ban_entry) list" where
  "ban_live ck b = filter (\<lambda>(k, e). t_before (ck 0) (be_until e)) (until b)"

text \<open>The operations that change the table, for runs.\<close>

datatype 'k ban_op = Ban clock 'k dur string | Banned clock 'k | Prune clock

fun ban_step :: "'k ban_op \<Rightarrow> 'k banlist \<Rightarrow> 'k banlist" where
  "ban_step (Ban ck k d r) b = fst (ban ck k d r b)"
| "ban_step (Banned ck k) b = fst (banned ck k b)"
| "ban_step (Prune ck) b = ban_prune ck b"

text \<open>All clock readings of an operation are at most \<open>t\<close>.\<close>

fun op_by :: "gtime \<Rightarrow> 'k ban_op \<Rightarrow> bool" where
  "op_by t (Ban ck k d r) = (ck 0 \<le> t \<and> ck 1 \<le> t \<and> ck 2 \<le> t)"
| "op_by t (Banned ck k) = (ck 0 \<le> t)"
| "op_by t (Prune ck) = (ck 0 \<le> t)"

section \<open>The contract of a ban table\<close>

locale ban_table =
  fixes inv :: "'b \<Rightarrow> bool"
    and blocked :: "'b \<Rightarrow> 'k \<Rightarrow> gtime \<Rightarrow> bool"
    and init :: "'b"
    and tban :: "clock \<Rightarrow> 'k \<Rightarrow> dur \<Rightarrow> string \<Rightarrow> 'b \<Rightarrow> 'b \<times> bool"
    and tbanned :: "clock \<Rightarrow> 'k \<Rightarrow> 'b \<Rightarrow> 'b \<times> bool"
    and tprune :: "clock \<Rightarrow> 'b \<Rightarrow> 'b"
    and step :: "'k ban_op \<Rightarrow> 'b \<Rightarrow> 'b"
  assumes t_init: "inv init" "\<not> blocked init k t"
    and t_inv_ban: "inv b \<Longrightarrow> inv (fst (tban ck k d r b))"
    and t_inv_banned: "inv b \<Longrightarrow> inv (fst (tbanned ck k b))"
    and t_inv_prune: "inv b \<Longrightarrow> inv (tprune ck b)"
    and t_ban: "inv b \<Longrightarrow> ck 1 \<le> t \<Longrightarrow> blocked (fst (tban ck k d r b)) k' t \<longleftrightarrow>
      blocked b k' t \<or> (snd (tban ck k d r b) \<and> k' = k \<and> t < t_add (ck 2) d)"
    and t_banned: "inv b \<Longrightarrow> snd (tbanned ck k b) \<longleftrightarrow> blocked b k (ck 0)"
    and t_banned_keeps: "inv b \<Longrightarrow> ck 0 \<le> t \<Longrightarrow> blocked (fst (tbanned ck k b)) k' t = blocked b k' t"
    and t_prune: "inv b \<Longrightarrow> ck 0 \<le> t \<Longrightarrow> blocked (tprune ck b) k' t = blocked b k' t"
    and t_step: "step (Ban ck k d r) b = fst (tban ck k d r b)"
      "step (Banned ck k) b = fst (tbanned ck k b)"
      "step (Prune ck) b = tprune ck b"
begin

lemma inv_step: "inv b \<Longrightarrow> inv (step x b)"
  by (cases x) (simp_all add: t_step t_inv_ban t_inv_banned t_inv_prune)

lemma inv_run: "inv b \<Longrightarrow> inv (run_ops step xs b)"
  by (induction xs arbitrary: b) (auto intro: inv_step)

lemma step_keeps: "inv b \<Longrightarrow> op_by t x \<Longrightarrow> blocked b k t \<Longrightarrow> blocked (step x b) k t"
  by (cases x) (simp_all add: t_step t_ban t_banned_keeps t_prune)

text \<open>No operation that happens up to \<open>t\<close> lifts a ban that is in force at \<open>t\<close>.\<close>

lemma run_keeps:
  "inv b \<Longrightarrow> list_all (op_by t) xs \<Longrightarrow> blocked b k t \<Longrightarrow> blocked (run_ops step xs b) k t"
  by (induction xs arbitrary: b) (auto intro: inv_step step_keeps)

lemma ban_effective:
  assumes "inv b" "snd (tban ck k d r b)" "ck 1 \<le> t" "list_all (op_by t) xs" "t < t_add (ck 2) d"
  shows "snd (tbanned (\<lambda>_. t) k (run_ops step xs (fst (tban ck k d r b))))"
proof -
  have "blocked (fst (tban ck k d r b)) k t"
    using assms by (simp add: t_ban)
  then have "blocked (run_ops step xs (fst (tban ck k d r b))) k t"
    using assms by (intro run_keeps t_inv_ban)
  then show ?thesis
    using assms by (simp add: t_banned inv_run t_inv_ban)
qed

text \<open>A key is in force at \<open>t\<close> only if some accepted \<open>ban\<close> of that key reaches past \<open>t\<close>.\<close>

lemma run_sound:
  "inv b \<Longrightarrow> list_all (op_by t) xs \<Longrightarrow> blocked (run_ops step xs b) k t \<Longrightarrow>
   blocked b k t \<or> (\<exists>ck d r. Ban ck k d r \<in> set xs \<and> t < t_add (ck 2) d)"
proof (induction xs arbitrary: b)
  case Nil
  then show ?case by simp
next
  case (Cons x xs)
  have "blocked (step x b) k t \<Longrightarrow>
      blocked b k t \<or> (\<exists>ck d r. x = Ban ck k d r \<and> t < t_add (ck 2) d)"
    using Cons.prems by (cases x) (auto simp: t_step t_ban t_banned_keeps t_prune)
  then show ?case
    using Cons.IH [of "step x b"] Cons.prems by (auto intro: inv_step)
qed

end

section \<open>The table satisfies the contract\<close>

definition ban_inv :: "'k banlist \<Rightarrow> bool" where
  "ban_inv b \<longleftrightarrow> wf_map (until b) \<and> length (until b) \<le> banCap"

definition blocked :: "'k banlist \<Rightarrow> 'k \<Rightarrow> gtime \<Rightarrow> bool" where
  "blocked b k t \<longleftrightarrow> (case m_get (until b) k of None \<Rightarrow> False | Some e \<Rightarrow> t < be_until e)"

lemma banCap_pos [simp]: "0 < banCap"
  by (simp add: banCap_def)

lemma ban_expired_alt: "ban_expired now e \<longleftrightarrow> be_until e \<le> now"
  by (auto simp: ban_expired_def t_before_def)

lemma ban_inv_new [simp]: "ban_inv new_banlist"
  by (simp add: ban_inv_def new_banlist_def)

lemma ban_sweep_inv: "ban_inv b \<Longrightarrow> ban_inv (ban_sweep ck b)"
  using length_drop_if by (fastforce simp: ban_inv_def ban_sweep_def intro: le_trans)

lemma ban_sweep_none:
  "ban_inv b \<Longrightarrow> m_get (until b) k = None \<Longrightarrow> m_get (until (ban_sweep ck b)) k = None"
  using keys_drop_if [of "ban_expired (ck 1)" "until b"]
  by (auto simp: ban_inv_def ban_sweep_def m_get_None)

lemma ban_inv_ban: "ban_inv b \<Longrightarrow> ban_inv (fst (ban ck k d r b))"
  using ban_sweep_inv [of b ck] ban_sweep_none [of b k ck]
  by (auto simp: ban_def Let_def ban_inv_def length_set dest: m_get_keys split: option.splits)

lemma ban_inv_banned: "ban_inv b \<Longrightarrow> ban_inv (fst (banned ck k b))"
  using length_del [of k "until b"]
  by (auto simp: banned_def ban_inv_def split: option.splits)

lemma ban_inv_prune: "ban_inv b \<Longrightarrow> ban_inv (ban_prune ck b)"
  using length_drop_if [of "ban_expired (ck 0)" "until b"]
  by (auto simp: ban_prune_def ban_inv_def)

lemma blocked_drop:
  "wf_map (until b) \<Longrightarrow> now \<le> t \<Longrightarrow>
   blocked (b\<lparr>until := m_drop_if (ban_expired now) (until b)\<rparr>) k t = blocked b k t"
  by (auto simp: blocked_def m_get_drop_if ban_expired_alt split: option.splits)

lemma blocked_sweep: "ban_inv b \<Longrightarrow> ck 1 \<le> t \<Longrightarrow> blocked (ban_sweep ck b) k t = blocked b k t"
  using blocked_drop [of b "ck 1" t k]
  by (simp add: ban_sweep_def ban_inv_def blocked_def)

lemma blocked_ban:
  assumes "ban_inv b" "ck 1 \<le> t"
  shows "blocked (fst (ban ck k d r b)) k' t \<longleftrightarrow>
    blocked b k' t \<or> (snd (ban ck k d r b) \<and> k' = k \<and> t < t_add (ck 2) d)"
proof (cases "m_get (until b) k")
  case None
  then have "\<not> blocked b k t" by (simp add: blocked_def)
  then show ?thesis
    using assms None blocked_sweep [of b ck t k'] blocked_sweep [of b ck t k]
    by (auto simp: ban_def Let_def blocked_def split: option.splits if_splits)
next
  case (Some e)
  then show ?thesis
    by (auto simp: ban_def Let_def blocked_def time_defs)
qed

lemma blocked_banned:
  "ban_inv b \<Longrightarrow> snd (banned ck k b) \<longleftrightarrow> blocked b k (ck 0)"
  by (auto simp: banned_def blocked_def ban_expired_alt split: option.splits)

lemma blocked_banned_keeps:
  "ban_inv b \<Longrightarrow> ck 0 \<le> t \<Longrightarrow> blocked (fst (banned ck k b)) k' t = blocked b k' t"
  by (auto simp: banned_def blocked_def ban_expired_alt split: option.splits)

interpretation bt: ban_table ban_inv blocked new_banlist ban banned ban_prune ban_step
proof (unfold_locales, goal_cases)
  case (2 k t)
  show ?case by (simp add: blocked_def new_banlist_def)
next
  case (9 b ck t k')
  then show ?case
    by (simp add: ban_prune_def blocked_drop ban_inv_def)
qed (simp_all add: ban_inv_ban ban_inv_banned ban_inv_prune blocked_ban blocked_banned
    blocked_banned_keeps)

interpretation bm: bounded_machine ban_step new_banlist ban_inv ban_size banCap
  by unfold_locales (simp_all add: bt.inv_step, simp add: ban_inv_def ban_size_def)

section \<open>Properties\<close>

text \<open>
  A ban that \<^verbatim>\<open>ban\<close> reports as recorded is in force at every instant \<open>t\<close> before it
  expires: whatever bans, lookups, sweeps and prunes of whatever keys happen on the table up to
  \<open>t\<close>, \<^verbatim>\<open>banned\<close> still answers true for the key at \<open>t\<close>.
\<close>

theorem ban_holds_until_expiry:
  assumes "ban_inv b" and "snd (ban ck k d r b)" and "ck 1 \<le> t" and "t < t_add (ck 2) d"
    and "list_all (op_by t) xs"
  shows "snd (banned (\<lambda>_. t) k (run_ops ban_step xs (fst (ban ck k d r b))))"
  using bt.ban_effective [OF assms(1,2,3,5,4)] .

theorem ban_holds_until_expiry_witness:
  "ban_inv (new_banlist :: nat banlist) \<and>
   snd (banned (\<lambda>_. 130) 7 (run_ops ban_step [Ban (\<lambda>_. 110) 8 50 ''scanner'', Prune (\<lambda>_. 120)]
     (fst (ban (\<lambda>_. 100) (7::nat) 60 ''register'' new_banlist))))"
  using ban_holds_until_expiry [of "new_banlist :: nat banlist" "\<lambda>_. 100" 7 60 "''register''" 130
      "[Ban (\<lambda>_. 110) 8 50 ''scanner'', Prune (\<lambda>_. 120)]"]
  by (simp add: ban_def new_banlist_def t_add_def ban_inv_def Let_def banCap_def)

text \<open>
  C0: starting from the empty table, after any sequence of operations (any interleaving of
  the mutex-protected calls of several goroutines) the table holds at most \<open>banCap\<close>
  entries, each key once, and a key is reported as banned at \<open>t\<close> only if the sequence
  contains a ban of exactly that key that reaches past \<open>t\<close>.
\<close>

theorem ban_run_bounded_and_sound:
  fixes xs :: "'k ban_op list" and k :: 'k
  assumes "list_all (op_by t) xs"
  defines "b \<equiv> run_ops ban_step xs new_banlist"
  shows "ban_size b \<le> banCap \<and> wf_map (until b) \<and>
    (snd (banned (\<lambda>_. t) k b) \<longrightarrow> (\<exists>ck d r. Ban ck k d r \<in> set xs \<and> t < t_add (ck 2) d))"
proof -
  have inv: "ban_inv b"
    unfolding b_def by (rule bm.reach_inv)
  then have "ban_size b \<le> banCap \<and> wf_map (until b)"
    by (simp add: ban_inv_def ban_size_def)
  moreover have "blocked b k t \<Longrightarrow> \<exists>ck d r. Ban ck k d r \<in> set xs \<and> t < t_add (ck 2) d"
    using bt.run_sound [of new_banlist t xs k] bt.t_init(2) [of k t] assms by auto
  ultimately show ?thesis
    using inv by (simp add: blocked_banned)
qed

theorem ban_run_bounded_and_sound_witness:
  "list_all (op_by 20) [Ban (\<lambda>_. 10) (1::nat) 50 ''scanner'', Banned (\<lambda>_. 15) 2] \<and>
   ban_size (run_ops ban_step [Ban (\<lambda>_. 10) (1::nat) 50 ''scanner'', Banned (\<lambda>_. 15) 2] new_banlist) \<le> banCap"
  using ban_run_bounded_and_sound [of 20 "[Ban (\<lambda>_. 10) (1::nat) 50 ''scanner'', Banned (\<lambda>_. 15) 2]" 1]
  by simp

text \<open>
  Banning a key that already has an entry never shortens the ban and never rewrites its
  history: the expiry becomes the later of the two, the start time and the reason stay, the
  call is accepted even when the table is full, and no other key's entry changes.
\<close>

theorem ban_extends_never_shortens:
  assumes "m_get (until b) k = Some e"
  shows "snd (ban ck k d r b) \<and>
    m_get (until (fst (ban ck k d r b))) =
      (m_get (until b))(k \<mapsto> e\<lparr>be_until := max (be_until e) (t_add (ck 2) d)\<rparr>)"
  using assms by (auto simp: ban_def Let_def t_after_def max_def fun_upd_idem)

theorem ban_extends_never_shortens_witness:
  "m_get (until \<lparr>until = [(1::nat, \<lparr>be_until = 500, be_since = 3, be_reason = ''scanner''\<rparr>)],
      last_sweep = 0, overflow = 0\<rparr>) 1 = Some \<lparr>be_until = 500, be_since = 3, be_reason = ''scanner''\<rparr> \<and>
   snd (ban (\<lambda>_. 100) 1 60 ''register'' \<lparr>until = [(1::nat, \<lparr>be_until = 500, be_since = 3, be_reason = ''scanner''\<rparr>)],
      last_sweep = 0, overflow = 0\<rparr>)"
  using ban_extends_never_shortens [of "\<lparr>until = [(1::nat, \<lparr>be_until = 500, be_since = 3, be_reason = ''scanner''\<rparr>)],
      last_sweep = 0, overflow = 0\<rparr>" 1 "\<lparr>be_until = 500, be_since = 3, be_reason = ''scanner''\<rparr>"]
  by simp

end
