(* ===== verification/Go_Strings.thy ===== *)
theory Go_Strings
  imports FS_Prelude
begin

text \<open>
  Go strings are byte sequences, so they are \<open>string\<close> (one \<open>char\<close> per byte). The
  functions of \<^verbatim>\<open>strings\<close>, \<^verbatim>\<open>bytes\<close> and \<^verbatim>\<open>strconv\<close> the program uses:

  \<^item> \<open>ToLower\<close> and \<open>EqualFold\<close> are exact on ASCII input; on input with a byte of 0x80 or more
    they defer to \<open>u_lower\<close> and \<open>u_fold\<close>, the Unicode case tables, which are left as a
    parameter (a record passed to every function that changes case).
  \<^item> \<open>trim_space\<close> and \<open>str_fields\<close> know every Unicode space by its UTF-8 encoding. A space's
    encoding starts with a lead byte, which never occurs inside another character, so
    matching the bytes is the same as decoding runes, on malformed input too.
  \<^item> \<open>parse_uint\<close> and \<open>atoi\<close> follow \<^verbatim>\<open>strconv\<close> in base 10 (digits only; a sign only for
    \<open>atoi\<close>; out of range is an error).
\<close>

section \<open>Characters\<close>

definition byte :: "char \<Rightarrow> nat" where
  "byte c = (of_char c :: nat)"

definition is_digit :: "char \<Rightarrow> bool" where
  "is_digit c \<longleftrightarrow> 48 \<le> byte c \<and> byte c \<le> 57"

definition is_lower :: "char \<Rightarrow> bool" where
  "is_lower c \<longleftrightarrow> 97 \<le> byte c \<and> byte c \<le> 122"

definition is_upper :: "char \<Rightarrow> bool" where
  "is_upper c \<longleftrightarrow> 65 \<le> byte c \<and> byte c \<le> 90"

definition lower_ascii :: "char \<Rightarrow> char" where
  "lower_ascii c = (if is_upper c then char_of (byte c + 32) else c)"

definition upper_ascii :: "char \<Rightarrow> char" where
  "upper_ascii c = (if is_lower c then char_of (byte c - 32) else c)"

definition is_ascii :: "string \<Rightarrow> bool" where
  "is_ascii s \<longleftrightarrow> list_all (\<lambda>c. byte c < 128) s"

section \<open>Case\<close>

record unicode =
  u_lower :: "string \<Rightarrow> string"
  u_fold :: "string \<Rightarrow> string \<Rightarrow> bool"

definition lower_str :: "string \<Rightarrow> string" where
  "lower_str s = map lower_ascii s"

definition to_lower :: "unicode \<Rightarrow> string \<Rightarrow> string" where
  "to_lower u s = (if is_ascii s then lower_str s else u_lower u s)"

definition equal_fold :: "unicode \<Rightarrow> string \<Rightarrow> string \<Rightarrow> bool" where
  "equal_fold u a b = (if is_ascii a \<and> is_ascii b then lower_str a = lower_str b else u_fold u a b)"

text \<open>The ASCII tables: no rune beyond ASCII folds or lowers to an ASCII one.\<close>

definition ascii_tables :: unicode where
  "ascii_tables = \<lparr>u_lower = lower_str, u_fold = (\<lambda>a b. lower_str a = lower_str b)\<rparr>"

section \<open>Searching and cutting\<close>

fun has_prefix :: "string \<Rightarrow> string \<Rightarrow> bool" where
  "has_prefix s [] = True"
| "has_prefix [] (p # ps) = False"
| "has_prefix (c # s) (p # ps) = (c = p \<and> has_prefix s ps)"

fun contains :: "string \<Rightarrow> string \<Rightarrow> bool" where
  "contains [] sub = (sub = [])"
| "contains (c # s) sub = (has_prefix (c # s) sub \<or> contains s sub)"

text \<open>\<^verbatim>\<open>strings.Cut\<close> at a one-byte separator: before, after, found.\<close>

fun cut :: "char \<Rightarrow> string \<Rightarrow> string \<times> string \<times> bool" where
  "cut c [] = ([], [], False)"
| "cut c (x # xs) = (if x = c then ([], xs, True)
     else (let (a, b, f) = cut c xs in (x # a, b, f)))"

text \<open>\<^verbatim>\<open>strings.Split\<close> at a one-byte separator: never empty.\<close>

fun split_on :: "char \<Rightarrow> string \<Rightarrow> string list" where
  "split_on c [] = [[]]"
| "split_on c (x # xs) = (if x = c then [] # split_on c xs
     else (case split_on c xs of [] \<Rightarrow> [[x]] | p # ps \<Rightarrow> (x # p) # ps))"

fun join :: "string \<Rightarrow> string list \<Rightarrow> string" where
  "join sep [] = []"
| "join sep [x] = x"
| "join sep (x # y # ys) = x @ sep @ join sep (y # ys)"

section \<open>Spaces\<close>

definition is_ascii_space :: "char \<Rightarrow> bool" where
  "is_ascii_space c \<longleftrightarrow> byte c \<in> {9, 10, 11, 12, 13, 32}"

text \<open>
  UTF-8 encodings of the spaces beyond ASCII: U+0085, U+00A0, U+1680, U+2000 to U+200A,
  U+2028, U+2029, U+202F, U+205F and U+3000.
\<close>

definition unicode_spaces :: "string list" where
  "unicode_spaces = map (map char_of)
     [[0xC2, 0x85], [0xC2, 0xA0], [0xE1, 0x9A, 0x80],
      [0xE2, 0x80, 0x80], [0xE2, 0x80, 0x81], [0xE2, 0x80, 0x82], [0xE2, 0x80, 0x83],
      [0xE2, 0x80, 0x84], [0xE2, 0x80, 0x85], [0xE2, 0x80, 0x86], [0xE2, 0x80, 0x87],
      [0xE2, 0x80, 0x88], [0xE2, 0x80, 0x89], [0xE2, 0x80, 0x8A],
      [0xE2, 0x80, 0xA8], [0xE2, 0x80, 0xA9], [0xE2, 0x80, 0xAF], [0xE2, 0x81, 0x9F],
      [0xE3, 0x80, 0x80 :: nat]]"

text \<open>Length of the space character a string starts with, 0 when there is none.\<close>

definition space_len :: "string list \<Rightarrow> string \<Rightarrow> nat" where
  "space_len sps s = (case s of [] \<Rightarrow> 0
     | c # _ \<Rightarrow> if is_ascii_space c then 1
       else (case find (has_prefix s) sps of None \<Rightarrow> 0 | Some p \<Rightarrow> length p))"

function trim_start :: "string list \<Rightarrow> string \<Rightarrow> string" where
  "trim_start sps s = (let n = space_len sps s in if n = 0 \<or> s = [] then s else trim_start sps (drop n s))"
  by pat_completeness auto
termination
  by (relation "measure (\<lambda>(sps, s). length s)") auto

declare trim_start.simps [simp del]

definition trim_left_space :: "string \<Rightarrow> string" where
  "trim_left_space s = trim_start unicode_spaces s"

definition trim_right_space :: "string \<Rightarrow> string" where
  "trim_right_space s = rev (trim_start (map rev unicode_spaces) (rev s))"

definition trim_space :: "string \<Rightarrow> string" where
  "trim_space s = trim_right_space (trim_left_space s)"

text \<open>\<^verbatim>\<open>strings.Fields\<close>: \<open>acc\<close> is the field being read, reversed.\<close>

function str_fields_from :: "string \<Rightarrow> string \<Rightarrow> string list" where
  "str_fields_from acc s =
     (let n = space_len unicode_spaces s; done = (if acc = [] then [] else [rev acc]) in
      case s of [] \<Rightarrow> done
      | c # cs \<Rightarrow> if n = 0 then str_fields_from (c # acc) cs else done @ str_fields_from [] (drop n s))"
  by pat_completeness auto
termination
  by (relation "measure (\<lambda>(acc, s). length s)") auto

declare str_fields_from.simps [simp del]

definition str_fields :: "string \<Rightarrow> string list" where
  "str_fields s = str_fields_from [] s"

section \<open>Numbers\<close>

definition digit_val :: "char \<Rightarrow> nat" where
  "digit_val c = byte c - 48"

definition digits_val :: "string \<Rightarrow> nat" where
  "digits_val s = foldl (\<lambda>n c. 10 * n + digit_val c) 0 s"

text \<open>\<^verbatim>\<open>strconv.ParseUint(s, 10, bits)\<close>\<close>

definition parse_uint :: "nat \<Rightarrow> string \<Rightarrow> nat option" where
  "parse_uint bits s = (if s \<noteq> [] \<and> list_all is_digit s \<and> digits_val s < 2 ^ bits
     then Some (digits_val s) else None)"

text \<open>\<^verbatim>\<open>strconv.Atoi\<close> on a 64-bit platform.\<close>

definition atoi :: "string \<Rightarrow> int option" where
  "atoi s =
     (let neg = (s \<noteq> [] \<and> hd s = CHR ''-'');
          ds = (if s \<noteq> [] \<and> (hd s = CHR ''-'' \<or> hd s = CHR ''+'') then tl s else s);
          v = (if neg then - int (digits_val ds) else int (digits_val ds))
      in if ds \<noteq> [] \<and> list_all is_digit ds \<and> - (2 ^ 63) \<le> v \<and> v < 2 ^ 63 then Some v else None)"

text \<open>\<^verbatim>\<open>strconv.AppendUint(nil, n, 10)\<close>\<close>

definition digit_char :: "nat \<Rightarrow> char" where
  "digit_char d = char_of (48 + d)"

fun show_nat :: "nat \<Rightarrow> string" where
  "show_nat n = (if n < 10 then [digit_char n] else show_nat (n div 10) @ [digit_char (n mod 10)])"

declare show_nat.simps [simp del]

definition show_int :: "int \<Rightarrow> string" where
  "show_int i = (if i < 0 then CHR ''-'' # show_nat (nat (- i)) else show_nat (nat i))"

section \<open>Facts about the library\<close>

lemma byte_less [simp]: "byte c < 256"
  by (simp add: byte_def)

lemma byte_inj [simp]: "byte c = byte d \<longleftrightarrow> c = d"
  by (simp add: byte_def)

lemma byte_digit_char [simp]: "d < 10 \<Longrightarrow> byte (digit_char d) = 48 + d"
  by (simp add: byte_def digit_char_def)

lemma is_digit_digit_char [simp]: "d < 10 \<Longrightarrow> is_digit (digit_char d)"
  by (simp add: is_digit_def)

lemma digit_val_digit_char [simp]: "d < 10 \<Longrightarrow> digit_val (digit_char d) = d"
  by (simp add: digit_val_def)

lemma digits_val_snoc: "digits_val (s @ [c]) = 10 * digits_val s + digit_val c"
  by (simp add: digits_val_def)

lemma digits_val_show [simp]: "digits_val (show_nat n) = n"
proof (induction n rule: show_nat.induct)
  case (1 n)
  then show ?case
    by (subst show_nat.simps) (auto simp: digits_val_snoc digits_val_def)
qed

lemma show_nat_nonempty [simp]: "show_nat n \<noteq> []"
  by (subst show_nat.simps) simp

lemma show_nat_digits [simp]: "list_all is_digit (show_nat n)"
proof (induction n rule: show_nat.induct)
  case (1 n)
  then show ?case by (subst show_nat.simps) auto
qed

lemma parse_uint_show [simp]: "parse_uint bits (show_nat n) = (if n < 2 ^ bits then Some n else None)"
  by (simp add: parse_uint_def)

lemma cut_notin: "c \<notin> set s \<Longrightarrow> cut c s = (s, [], False)"
  by (induction s) auto

lemma cut_first: "c \<notin> set s \<Longrightarrow> cut c (s @ c # t) = (s, t, True)"
  by (induction s) auto

lemma cut_length: "cut c s = (a, b, f) \<Longrightarrow> length b \<le> length s \<and> (f \<longrightarrow> length b < length s)"
proof (induction s arbitrary: a b f)
  case Nil
  then show ?case by simp
next
  case (Cons x xs)
  obtain a' b' f' where c: "cut c xs = (a', b', f')" by (cases "cut c xs") auto
  from Cons.IH [OF c] Cons.prems c show ?case by (auto split: if_splits)
qed

lemma split_on_notin: "c \<notin> set s \<Longrightarrow> split_on c s = [s]"
  by (induction s) auto

lemma split_on_nonempty [simp]: "split_on c s \<noteq> []"
  by (induction s) (auto split: list.splits)

lemma split_on_first: "c \<notin> set s \<Longrightarrow> split_on c (s @ c # t) = s # split_on c t"
  by (induction s) (auto split: list.splits)

lemma split_on_join:
  "ss \<noteq> [] \<Longrightarrow> \<forall>s \<in> set ss. c \<notin> set s \<Longrightarrow> split_on c (join [c] ss) = ss"
  by (induction "[c]" ss rule: join.induct) (auto simp: split_on_notin split_on_first)

lemma trim_start_noop: "space_len sps s = 0 \<Longrightarrow> trim_start sps s = s"
  by (simp add: trim_start.simps)

lemma lower_str_idem_char: "lower_ascii (lower_ascii c) = lower_ascii c"
  by (auto simp: lower_ascii_def is_upper_def byte_def)

lemma lower_str_idem [simp]: "lower_str (lower_str s) = lower_str s"
  by (simp add: lower_str_def lower_str_idem_char)

lemma is_ascii_lower [simp]: "is_ascii (lower_str s) = is_ascii s"
  by (auto simp: is_ascii_def lower_str_def lower_ascii_def is_upper_def byte_def list_all_iff)

lemma to_lower_idem_ascii: "is_ascii s \<Longrightarrow> to_lower u (to_lower u s) = to_lower u s"
  by (simp add: to_lower_def)

lemma equal_fold_refl [simp]: "is_ascii s \<Longrightarrow> equal_fold u s s"
  by (simp add: equal_fold_def)

lemma trim_start_length: "length (trim_start sps s) \<le> length s"
proof (induction sps s rule: trim_start.induct)
  case (1 sps s)
  show ?case
  proof (cases "space_len sps s = 0 \<or> s = []")
    case True
    then show ?thesis by (subst trim_start.simps) auto
  next
    case False
    then have "length (trim_start sps (drop (space_len sps s) s)) \<le> length s"
      using 1 by (auto simp: Let_def intro: le_trans)
    then show ?thesis using False by (subst trim_start.simps) (simp add: Let_def)
  qed
qed

lemma trim_space_length: "length (trim_space s) \<le> length s"
  using trim_start_length [of unicode_spaces s]
    trim_start_length [of "map rev unicode_spaces" "rev (trim_left_space s)"]
  by (simp add: trim_space_def trim_right_space_def trim_left_space_def)

lemma digits_val_bound: "list_all is_digit s \<Longrightarrow> digits_val s < 10 ^ length s"
proof (induction s rule: rev_induct)
  case Nil
  then show ?case by (simp add: digits_val_def)
next
  case (snoc c s)
  then have "digit_val c \<le> 9" by (auto simp: digit_val_def is_digit_def)
  then show ?case using snoc by (simp add: digits_val_snoc)
qed

lemma show_nat_length: "n < 10 ^ k \<Longrightarrow> 0 < k \<Longrightarrow> length (show_nat n) \<le> k"
proof (induction n arbitrary: k rule: show_nat.induct)
  case (1 n)
  show ?case
  proof (cases "n < 10")
    case True
    then show ?thesis using 1 by (subst show_nat.simps) simp
  next
    case False
    then have "n \<ge> 10" by simp
    then have k: "1 < k" using 1(2,3) by (cases "k = 1") auto
    then have "n div 10 < 10 ^ (k - 1)" using 1(2) by (simp add: div_less_iff_less_mult power_eq_if split: if_splits)
    then have "length (show_nat (n div 10)) \<le> k - 1" using 1(1) False k by simp
    then show ?thesis using False k by (subst show_nat.simps) simp
  qed
qed

section \<open>Plain words\<close>

text \<open>ASCII without spaces: nothing to trim, one field.\<close>

definition plain_word :: "string \<Rightarrow> bool" where
  "plain_word s \<longleftrightarrow> list_all (\<lambda>c. byte c < 128 \<and> \<not> is_ascii_space c) s"

lemma space_len_plain:
  assumes "byte c < 128" "\<not> is_ascii_space c" "sps = unicode_spaces \<or> sps = map rev unicode_spaces"
  shows "space_len sps (c # s) = 0"
proof -
  have "\<forall>p \<in> set sps. p \<noteq> [] \<and> 128 \<le> byte (hd p)"
    using assms(3) by (auto simp: unicode_spaces_def byte_def)
  then have "\<not> has_prefix (c # s) p" if "p \<in> set sps" for p
    using that assms(1) by (cases p) auto
  then have "find (has_prefix (c # s)) sps = None" by (simp add: find_None_iff)
  then show ?thesis using assms(2) by (simp add: space_len_def)
qed

lemma plain_digits: "list_all is_digit s \<Longrightarrow> plain_word s"
  by (auto simp: plain_word_def list_all_iff is_digit_def is_ascii_space_def)

lemma trim_start_plain:
  "plain_word s \<Longrightarrow> sps = unicode_spaces \<or> sps = map rev unicode_spaces \<Longrightarrow> trim_start sps s = s"
proof (cases s)
  case Nil
  then show ?thesis by (simp add: trim_start.simps)
next
  case (Cons c t)
  assume "plain_word s" "sps = unicode_spaces \<or> sps = map rev unicode_spaces"
  then have "space_len sps s = 0" using Cons space_len_plain by (simp add: plain_word_def)
  then show ?thesis by (rule trim_start_noop)
qed

lemma trim_space_plain [simp]: "plain_word s \<Longrightarrow> trim_space s = s"
  by (simp add: trim_space_def trim_left_space_def trim_right_space_def trim_start_plain plain_word_def)

lemma fields_word:
  "plain_word s \<Longrightarrow> str_fields_from acc (s @ t) = str_fields_from (rev s @ acc) t"
proof (induction s arbitrary: acc)
  case (Cons c s)
  then have "space_len unicode_spaces (c # (s @ t)) = 0"
    by (intro space_len_plain) (simp_all add: plain_word_def)
  then have "str_fields_from acc (c # s @ t) = str_fields_from (c # acc) (s @ t)"
    by (subst str_fields_from.simps) (simp add: Let_def)
  then show ?case using Cons by (simp add: plain_word_def)
qed simp

lemma fields_space: "str_fields_from acc ('' '' @ t) = (if acc = [] then [] else [rev acc]) @ str_fields_from [] t"
  by (subst str_fields_from.simps) (simp add: Let_def space_len_def is_ascii_space_def byte_def)

lemma fields_end: "str_fields_from acc [] = (if acc = [] then [] else [rev acc])"
  by (subst str_fields_from.simps) (simp add: Let_def)

lemma fields_three:
  assumes "plain_word a" "plain_word b" "plain_word c" "a \<noteq> []" "b \<noteq> []" "c \<noteq> []"
  shows "str_fields (a @ '' '' @ b @ '' '' @ c) = [a, b, c]"
proof -
  have w: "str_fields_from [] (w @ '' '' @ t) = w # str_fields_from [] t" if "plain_word w" "w \<noteq> []" for w t
    using that by (simp add: fields_word fields_space [simplified])
  have "str_fields_from [] c = [c]"
    using fields_word [OF assms(3), of "[]" "[]"] assms(6) by (simp add: fields_end)
  then show ?thesis
    unfolding str_fields_def using w assms by simp
qed

lemma join_hd [simp]: "join sep ((x # a) # as) = x # join sep (a # as)"
  by (cases as) auto

lemma join_split: "join [c] (split_on c s) = s"
proof (induction s)
  case (Cons x s)
  then show ?case
    using split_on_nonempty [of c s] by (cases "split_on c s") (auto simp: neq_Nil_conv)
qed simp

lemma split_on_free: "p \<in> set (split_on c s) \<Longrightarrow> c \<notin> set p"
proof (induction s arbitrary: p)
  case (Cons x s)
  then show ?case by (auto split: list.splits if_splits)
qed simp

end
