(* ===== verification/Config_Types.thy ===== *)
theory Config_Types
  imports Go_Strings
begin

text \<open>
  The parsed configuration values of \<^verbatim>\<open>src/internal/config/types.go\<close>: rate limits,
  strike thresholds and port ranges. Every parse error of the source is \<open>None\<close> (the
  messages only reach a log). \<^verbatim>\<open>time.ParseDuration\<close> is modelled with its 64-bit
  arithmetic; the product \<^verbatim>\<open>float64(f) * (float64(unit) / scale)\<close> of a decimal fraction is the
  parameter \<open>ffrac\<close>, since it is rounded in floating point.
\<close>

section \<open>time.ParseDuration\<close>

fun leading_int :: "nat \<Rightarrow> string \<Rightarrow> (nat \<times> string) option" where
  "leading_int x [] = Some (x, [])"
| "leading_int x (c # s) =
     (if \<not> is_digit c then Some (x, c # s)
      else if 2 ^ 63 div 10 < x then None
      else let y = 10 * x + digit_val c in if 2 ^ 63 < y then None else leading_int y s)"

fun leading_fraction :: "nat \<Rightarrow> nat \<Rightarrow> bool \<Rightarrow> string \<Rightarrow> nat \<times> nat \<times> string" where
  "leading_fraction x k ovf [] = (x, k, [])"
| "leading_fraction x k ovf (c # s) =
     (if \<not> is_digit c then (x, k, c # s)
      else if ovf then leading_fraction x k True s
      else if (2 ^ 63 - 1) div 10 < x then leading_fraction x k True s
      else let y = 10 * x + digit_val c in
        if 2 ^ 63 < y then leading_fraction x k True s else leading_fraction y (Suc k) False s)"

definition unit_map :: "string \<Rightarrow> nat option" where
  "unit_map = map_of [(''ns'', 1), (''us'', 1000), (map char_of [0xC2, 0xB5 :: nat] @ ''s'', 1000),
     (map char_of [0xCE, 0xBC :: nat] @ ''s'', 1000), (''ms'', 1000000), (''s'', 1000000000),
     (''m'', 60000000000), (''h'', 3600000000000)]"

definition is_num_char :: "char \<Rightarrow> bool" where
  "is_num_char c \<longleftrightarrow> c = CHR ''.'' \<or> is_digit c"

text \<open>One \<^verbatim>\<open><number><unit>\<close> group: its value in nanoseconds and the rest.\<close>

definition duration_group :: "(nat \<Rightarrow> nat \<Rightarrow> nat \<Rightarrow> nat) \<Rightarrow> string \<Rightarrow> (nat \<times> string) option" where
  "duration_group ffrac s =
     (if s = [] \<or> \<not> is_num_char (hd s) then None
      else case leading_int 0 s of None \<Rightarrow> None
      | Some (v, s1) \<Rightarrow>
        (let pre = (length s1 \<noteq> length s);
             dot = (s1 \<noteq> [] \<and> hd s1 = CHR ''.'');
             (f, k, s2) = (if dot then leading_fraction 0 0 False (tl s1) else (0, 0, s1));
             post = (dot \<and> length s2 \<noteq> length (tl s1));
             u = takeWhile (\<lambda>c. \<not> is_num_char c) s2;
             s3 = drop (length u) s2
         in if \<not> pre \<and> \<not> post then None
            else if u = [] then None
            else case unit_map u of None \<Rightarrow> None
            | Some un \<Rightarrow>
              if 2 ^ 63 div un < v then None
              else let w = v * un; w' = (if 0 < f then w + ffrac f k un else w) in
                if 0 < f \<and> 2 ^ 63 < w' then None else Some (w', s3)))"

lemma leading_int_length: "leading_int x s = Some (v, s') \<Longrightarrow> length s' \<le> length s"
  by (induction x s rule: leading_int.induct) (auto simp: Let_def split: if_splits)

lemma leading_fraction_length: "leading_fraction x k ovf s = (f, k', s') \<Longrightarrow> length s' \<le> length s"
  by (induction x k ovf s rule: leading_fraction.induct) (auto simp: Let_def split: if_splits)

lemma duration_group_length:
  assumes "duration_group ff s = Some (w, s')"
  shows "length s' < length s"
proof -
  obtain v s1 where 1: "leading_int 0 s = Some (v, s1)"
    using assms by (auto simp: duration_group_def split: if_splits option.splits)
  define dot where "dot = (s1 \<noteq> [] \<and> hd s1 = CHR ''.'')"
  obtain f k s2 where 2: "(if dot then leading_fraction 0 0 False (tl s1) else (0, 0, s1)) = (f, k, s2)"
    by (metis prod_cases3)
  have l: "length s2 \<le> length s"
    using leading_int_length [OF 1] 2 leading_fraction_length [of 0 0 False "tl s1" f k s2]
    by (auto split: if_splits)
  define u where "u = takeWhile (\<lambda>c. \<not> is_num_char c) s2"
  have "u \<noteq> [] \<and> s' = drop (length u) s2"
    using assms 1 2 unfolding duration_group_def dot_def u_def
    by (auto simp: Let_def split: if_splits option.splits prod.splits)
  then have "0 < length u" and "length s' = length s2 - length u"
    by auto
  moreover have "length u \<le> length s2"
    unfolding u_def by (rule length_takeWhile_le)
  ultimately show ?thesis using l by linarith
qed

function duration_loop :: "(nat \<Rightarrow> nat \<Rightarrow> nat \<Rightarrow> nat) \<Rightarrow> nat \<Rightarrow> string \<Rightarrow> nat option" where
  "duration_loop ff d s = (if s = [] then Some d
     else case duration_group ff s of None \<Rightarrow> None
     | Some (v, s') \<Rightarrow> (let d' = (d + v) mod 2 ^ 64 in
         if 2 ^ 63 < d' then None else duration_loop ff d' s'))"
  by pat_completeness auto
termination
  by (relation "measure (\<lambda>(ff, d, s). length s)") (auto dest: duration_group_length)

declare duration_loop.simps [simp del]

definition parse_duration :: "(nat \<Rightarrow> nat \<Rightarrow> nat \<Rightarrow> nat) \<Rightarrow> string \<Rightarrow> dur option" where
  "parse_duration ff s0 =
     (let neg = (s0 \<noteq> [] \<and> hd s0 = CHR ''-'');
          s = (if s0 \<noteq> [] \<and> (hd s0 = CHR ''-'' \<or> hd s0 = CHR ''+'') then tl s0 else s0)
      in if s = ''0'' then Some 0
         else if s = [] then None
         else case duration_loop ff 0 s of None \<Rightarrow> None
         | Some d \<Rightarrow> if neg then Some (- int d)
             else if 2 ^ 63 - 1 < d then None else Some (int d))"

section \<open>Rate limits and strike thresholds\<close>

record rate_limit =
  rl_rate :: int
  rl_interval :: dur
  rl_per_ip :: bool

definition rl_zero :: rate_limit where
  "rl_zero = \<lparr>rl_rate = 0, rl_interval = 0, rl_per_ip = False\<rparr>"

definition parse_rate_limit :: "string \<Rightarrow> rate_limit option" where
  "parse_rate_limit s =
     (let fs = str_fields s in
      if length fs = 0 \<or> length fs > 2 then None
      else if length fs = 2 \<and> fs ! 1 \<noteq> ''per_ip'' then None
      else let per_ip = (length fs = 2); (num, unit, ok) = cut (CHR ''/'') (fs ! 0) in
        if \<not> ok then None
        else case atoi num of None \<Rightarrow> None
        | Some n \<Rightarrow> if n \<le> 0 then None
          else if unit = ''s'' then Some \<lparr>rl_rate = n, rl_interval = second, rl_per_ip = per_ip\<rparr>
          else if unit = ''m'' then Some \<lparr>rl_rate = n, rl_interval = minute, rl_per_ip = per_ip\<rparr>
          else if unit = ''h'' then Some \<lparr>rl_rate = n, rl_interval = hour, rl_per_ip = per_ip\<rparr>
          else None)"

record strike_limit =
  sl_n :: int
  sl_window :: dur
  sl_off :: bool

definition max_strike_n :: int where
  "max_strike_n = 100000"

definition max_strike_window :: dur where
  "max_strike_window = 24 * hour"

definition sl_disabled :: strike_limit where
  "sl_disabled = \<lparr>sl_n = 0, sl_window = 0, sl_off = True\<rparr>"

definition parse_strike_limit :: "(nat \<Rightarrow> nat \<Rightarrow> nat \<Rightarrow> nat) \<Rightarrow> string \<Rightarrow> strike_limit option" where
  "parse_strike_limit ff s0 =
     (let s = trim_space s0 in
      if s = ''off'' then Some sl_disabled
      else let (num, win, ok) = cut (CHR ''/'') s in
        if \<not> ok then None
        else case atoi num of None \<Rightarrow> None
        | Some n \<Rightarrow> if n < 1 \<or> n > max_strike_n then None
          else case parse_duration ff win of None \<Rightarrow> None
          | Some d \<Rightarrow> if d < second \<or> d > max_strike_window then None
            else Some \<lparr>sl_n = n, sl_window = d, sl_off = False\<rparr>)"

section \<open>Port ranges\<close>

record port_range =
  pr_min :: "nat"
  pr_max :: "nat"

text \<open>\<open>PortRange.Pairs\<close>; the bounds are \<^verbatim>\<open>uint16\<close>, widened to \<^verbatim>\<open>int\<close> first.\<close>

definition pairs :: "port_range \<Rightarrow> int" where
  "pairs p =
     (let lo0 = int (pr_min p); hi = int (pr_max p); lo = (if lo0 mod 2 \<noteq> 0 then lo0 + 1 else lo0)
      in if hi < lo then 0 else (hi - lo + 1) div 2)"

text \<open>The scalar part of \<open>PortRange.UnmarshalYAML\<close>.\<close>

definition parse_port_range :: "string \<Rightarrow> port_range option" where
  "parse_port_range s =
     (let (lo, hi, ok) = cut (CHR ''-'') s in
      if \<not> ok then None
      else case parse_uint 16 (trim_space lo) of None \<Rightarrow> None
      | Some minp \<Rightarrow>
        (case parse_uint 16 (trim_space hi) of None \<Rightarrow> None
         | Some maxp \<Rightarrow> if minp = 0 \<or> minp \<ge> maxp then None
             else Some \<lparr>pr_min = minp, pr_max = maxp\<rparr>))"

section \<open>What the parsers guarantee\<close>

lemma parse_rate_limit_ok:
  "parse_rate_limit s = Some rl \<Longrightarrow>
     0 < rl_rate rl \<and> rl_rate rl < 2 ^ 63 \<and> rl_interval rl \<in> {second, minute, hour}"
  by (auto simp: parse_rate_limit_def atoi_def Let_def split: if_splits option.splits prod.splits)

lemma parse_strike_limit_ok:
  "parse_strike_limit ff s = Some l \<Longrightarrow> sl_off l \<or>
     (1 \<le> sl_n l \<and> sl_n l \<le> max_strike_n \<and> second \<le> sl_window l \<and> sl_window l \<le> max_strike_window)"
  by (auto simp: parse_strike_limit_def sl_disabled_def Let_def split: if_splits option.splits prod.splits)

lemma parse_port_range_ok:
  "parse_port_range s = Some r \<Longrightarrow> 0 < pr_min r \<and> pr_min r < pr_max r \<and> pr_max r < 65536"
  by (auto simp: parse_port_range_def parse_uint_def Let_def split: if_splits option.splits prod.splits)

end
