(* ===== verification/Ratelimit.thy ===== *)
theory Ratelimit
  imports Complex_Main Netip Banlist Config_Types
begin

text \<open>
  The token-bucket limiter of \<^verbatim>\<open>src/internal/shield/ratelimit.go\<close>. Tokens are
  \<^verbatim>\<open>float64\<close>: the model computes in the rationals and passes every result through a
  rounding function \<open>fl\<close>, one application per floating-point operation of the source. What
  the theorems need of \<open>fl\<close> is \<open>rounding\<close>: it is monotone and exact on the integers a
  \<^verbatim>\<open>float64\<close> represents.
\<close>

section \<open>Model\<close>

definition bucketCap :: nat where
  "bucketCap = banCap"

definition rounding :: "(rat \<Rightarrow> rat) \<Rightarrow> bool" where
  "rounding fl \<longleftrightarrow> mono fl \<and> (\<forall>n. \<bar>n\<bar> \<le> 2 ^ 53 \<longrightarrow> fl (of_int n) = of_int n)"

text \<open>\<^verbatim>\<open>Duration.Seconds()\<close>\<close>

definition seconds :: "(rat \<Rightarrow> rat) \<Rightarrow> dur \<Rightarrow> rat" where
  "seconds fl d = fl (fl (of_int (go_quot d second)) + fl (fl (of_int (go_rem d second)) / 1000000000))"

record bucket =
  bk_tokens :: rat
  bk_last :: gtime
  bk_interval :: dur

record rate_key =
  rk_src :: addrport
  rk_stream :: bool
  rk_socket :: bool

record limiter =
  buckets :: "(rate_key, bucket) lru"
  global :: "bucket option"

definition new_limiter :: limiter where
  "new_limiter = \<lparr>buckets = lru_empty, global = None\<rparr>"

definition bucketKey :: "addr \<Rightarrow> addr" where
  "bucketKey src = (case unmap src of V6 w z \<Rightarrow> V6 (mask64 w) [] | a \<Rightarrow> a)"

text \<open>The arithmetic of \<open>take\<close> on one bucket: refill, cap, charge.\<close>

definition bucket_take :: "(rat \<Rightarrow> rat) \<Rightarrow> gtime \<Rightarrow> int \<Rightarrow> dur \<Rightarrow> bucket \<Rightarrow> bucket \<times> bool" where
  "bucket_take fl now rate interval b =
     (let elapsed = seconds fl (t_sub now (bk_last b));
          tk = min (fl (of_int rate))
                 (fl (bk_tokens b + fl (fl (elapsed * fl (of_int rate)) / seconds fl interval)))
      in if tk \<ge> 1
         then (\<lparr>bk_tokens = fl (tk - 1), bk_last = now, bk_interval = interval\<rparr>, True)
         else (\<lparr>bk_tokens = tk, bk_last = now, bk_interval = interval\<rparr>, False))"

definition fresh_bucket :: "(rat \<Rightarrow> rat) \<Rightarrow> gtime \<Rightarrow> int \<Rightarrow> bucket" where
  "fresh_bucket fl now rate = \<lparr>bk_tokens = fl (of_int rate), bk_last = now, bk_interval = 0\<rparr>"

text \<open>Finding the bucket: most recently used first, the oldest evicted at the cap.\<close>

definition bucket_for :: "(rat \<Rightarrow> rat) \<Rightarrow> gtime \<Rightarrow> rate_key \<Rightarrow> int \<Rightarrow> (rate_key, bucket) lru \<Rightarrow>
    (rate_key, bucket) lru \<times> bucket" where
  "bucket_for fl now key rate t =
     (case lru_get t key of
        Some b \<Rightarrow> (lru_front key t, b)
      | None \<Rightarrow>
          let b = fresh_bucket fl now rate
          in (lru_push key b (lru_make_room bucketCap t), b))"

definition take_token :: "(rat \<Rightarrow> rat) \<Rightarrow> gtime \<Rightarrow> rate_key \<Rightarrow> int \<Rightarrow> dur \<Rightarrow> bool \<Rightarrow> limiter \<Rightarrow> limiter \<times> bool" where
  "take_token fl now key rate interval perIP r =
     (if rate \<le> 0 \<or> interval \<le> 0 then (r, True)
      else if perIP then
        (let (t1, b) = bucket_for fl now key rate (buckets r);
             (b', ok) = bucket_take fl now rate interval b
         in (r\<lparr>buckets := lru_write key b' t1\<rparr>, ok))
      else
        (let b = (case global r of None \<Rightarrow> fresh_bucket fl now rate | Some g \<Rightarrow> g);
             (b', ok) = bucket_take fl now rate interval b
         in (r\<lparr>global := Some b'\<rparr>, ok)))"

definition allow :: "(rat \<Rightarrow> rat) \<Rightarrow> gtime \<Rightarrow> addr \<Rightarrow> int \<Rightarrow> dur \<Rightarrow> bool \<Rightarrow> limiter \<Rightarrow> limiter \<times> bool" where
  "allow fl now src rate interval perIP r =
     take_token fl now \<lparr>rk_src = (bucketKey src, 0), rk_stream = False, rk_socket = False\<rparr> rate interval perIP r"

text \<open>\<open>prune\<close>: drop the buckets idle for at least their own refill interval.\<close>

definition bucket_idle :: "gtime \<Rightarrow> bucket \<Rightarrow> bool" where
  "bucket_idle now b \<longleftrightarrow> t_sub now (bk_last b) \<ge> bk_interval b"

definition limiter_prune :: "gtime \<Rightarrow> limiter \<Rightarrow> limiter" where
  "limiter_prune now r = r\<lparr>buckets := lru_drop_if (bucket_idle now) (buckets r)\<rparr>"

text \<open>\<open>Limiter.Allow\<close>: the global bucket with a configured limit.\<close>

definition Limiter_Allow :: "(rat \<Rightarrow> rat) \<Rightarrow> gtime \<Rightarrow> rate_limit \<Rightarrow> limiter \<Rightarrow> limiter \<times> bool" where
  "Limiter_Allow fl now rl r = allow fl now AddrZero (rl_rate rl) (rl_interval rl) False r"

datatype limiter_op = Take gtime rate_key int dur bool | LPrune gtime

fun limiter_step :: "(rat \<Rightarrow> rat) \<Rightarrow> limiter_op \<Rightarrow> limiter \<Rightarrow> limiter" where
  "limiter_step fl (Take now key rate interval perIP) r = fst (take_token fl now key rate interval perIP r)"
| "limiter_step fl (LPrune now) r = limiter_prune now r"

text \<open>Repeated calls of one bucket: the verdicts at a list of instants.\<close>

fun take_many :: "(rat \<Rightarrow> rat) \<Rightarrow> rate_key \<Rightarrow> int \<Rightarrow> dur \<Rightarrow> bool \<Rightarrow> gtime list \<Rightarrow> limiter \<Rightarrow> bool list" where
  "take_many fl key rate interval perIP [] r = []"
| "take_many fl key rate interval perIP (t # ts) r =
     (let (r', ok) = take_token fl t key rate interval perIP r
      in ok # take_many fl key rate interval perIP ts r')"

definition key0 :: rate_key where
  "key0 = \<lparr>rk_src = (V4 0x01020304, 0), rk_stream = False, rk_socket = False\<rparr>"

fun bucket_many :: "(rat \<Rightarrow> rat) \<Rightarrow> int \<Rightarrow> dur \<Rightarrow> gtime list \<Rightarrow> bucket \<Rightarrow> bool list" where
  "bucket_many fl rate interval [] b = []"
| "bucket_many fl rate interval (t # ts) b =
     (let (b', ok) = bucket_take fl t rate interval b in ok # bucket_many fl rate interval ts b')"

definition granted :: "bool list \<Rightarrow> nat" where
  "granted vs = length (filter id vs)"

section \<open>The table\<close>

definition limiter_ok :: "limiter \<Rightarrow> bool" where
  "limiter_ok r \<longleftrightarrow> lru_ok bucketCap (buckets r)"

lemma bucketCap_pos: "0 < bucketCap"
  by (simp add: bucketCap_def)

lemma bucket_for_ok:
  assumes "lru_ok bucketCap t"
  shows "lru_ok bucketCap (fst (bucket_for fl now key rate t)) \<and>
    lru_get (fst (bucket_for fl now key rate t)) key = Some (snd (bucket_for fl now key rate t))"
proof (cases "lru_get t key")
  case (Some b)
  then show ?thesis
    using lru_ok_front [OF assms Some] by (simp add: bucket_for_def lru_defs)
next
  case None
  then show ?thesis
    using lru_insert_ok [OF assms bucketCap_pos None]
    by (simp add: bucket_for_def Let_def) (simp add: lru_defs)
qed

lemma take_token_ok: "limiter_ok r \<Longrightarrow> limiter_ok (fst (take_token fl now key rate interval perIP r))"
  using bucket_for_ok [of "buckets r" fl now key rate]
  by (auto simp: take_token_def limiter_ok_def Let_def split: prod.splits intro: lru_ok_write)

lemma limiter_prune_ok: "limiter_ok r \<Longrightarrow> limiter_ok (limiter_prune now r)"
  by (simp add: limiter_prune_def limiter_ok_def lru_ok_drop_if)

interpretation lm: bounded_machine "limiter_step fl" new_limiter limiter_ok
  "\<lambda>r. length (entries (buckets r))" bucketCap for fl
proof (unfold_locales, goal_cases)
  case 1
  show ?case by (simp add: limiter_ok_def new_limiter_def)
next
  case (2 s x)
  then show ?case by (cases x) (simp_all add: take_token_ok limiter_prune_ok)
next
  case (3 s)
  then show ?case by (simp add: limiter_ok_def lru_ok_size) (simp add: lru_ok_def)
qed

text \<open>Calls on one key act on one bucket, whatever the rest of the table holds.\<close>

definition bucket_of :: "(rat \<Rightarrow> rat) \<Rightarrow> gtime \<Rightarrow> rate_key \<Rightarrow> int \<Rightarrow> bool \<Rightarrow> limiter \<Rightarrow> bucket" where
  "bucket_of fl now key rate perIP r =
     (case (if perIP then lru_get (buckets r) key else global r) of
        None \<Rightarrow> fresh_bucket fl now rate | Some b \<Rightarrow> b)"

lemma take_token_bucket:
  assumes "0 < rate" "0 < interval"
  shows "snd (take_token fl now key rate interval perIP r) =
      snd (bucket_take fl now rate interval (bucket_of fl now key rate perIP r))"
    and "bucket_of fl now' key rate perIP (fst (take_token fl now key rate interval perIP r)) =
      fst (bucket_take fl now rate interval (bucket_of fl now key rate perIP r))"
  using assms
  by (auto simp: take_token_def bucket_of_def bucket_for_def Let_def lru_defs split: prod.splits option.splits)

lemma take_many_bucket:
  assumes "0 < rate" "0 < interval"
  shows "take_many fl key rate interval perIP (t # ts) r =
    bucket_many fl rate interval (t # ts) (bucket_of fl t key rate perIP r)"
proof (induction ts arbitrary: t r)
  case Nil
  then show ?case
    using take_token_bucket(1) [OF assms, of fl t key perIP r] by (simp add: Let_def case_prod_beta)
next
  case (Cons t' ts)
  let ?r' = "fst (take_token fl t key rate interval perIP r)"
  have "take_many fl key rate interval perIP (t # t' # ts) r =
      snd (take_token fl t key rate interval perIP r) # take_many fl key rate interval perIP (t' # ts) ?r'"
    by (subst take_many.simps(2)) (simp add: Let_def case_prod_beta)
  also have "\<dots> = snd (bucket_take fl t rate interval (bucket_of fl t key rate perIP r)) #
      bucket_many fl rate interval (t' # ts) (fst (bucket_take fl t rate interval (bucket_of fl t key rate perIP r)))"
    by (simp only: Cons.IH take_token_bucket [OF assms])
  also have "\<dots> = bucket_many fl rate interval (t # t' # ts) (bucket_of fl t key rate perIP r)"
    by (simp add: Let_def case_prod_beta)
  finally show ?case .
qed

section \<open>Bucket arithmetic\<close>

lemma rounding_mono: "rounding fl \<Longrightarrow> x \<le> y \<Longrightarrow> fl x \<le> fl y"
  by (simp add: rounding_def mono_def)

lemma rounding_int: "rounding fl \<Longrightarrow> \<bar>n\<bar> \<le> 2 ^ 53 \<Longrightarrow> fl (of_int n) = of_int n"
  by (simp add: rounding_def)

lemma rounding_0 [simp]: "rounding fl \<Longrightarrow> fl 0 = 0"
  using rounding_int [of fl 0] by simp

lemma rounding_nonneg: "rounding fl \<Longrightarrow> 0 \<le> x \<Longrightarrow> 0 \<le> fl x"
  using rounding_mono [of fl 0 x] by simp

lemma rounding_ge_int: "rounding fl \<Longrightarrow> \<bar>n\<bar> \<le> 2 ^ 53 \<Longrightarrow> of_int n \<le> x \<Longrightarrow> of_int n \<le> fl x"
  using rounding_mono [of fl "of_int n" x] by (simp add: rounding_int)

lemma rounding_le_int: "rounding fl \<Longrightarrow> \<bar>n\<bar> \<le> 2 ^ 53 \<Longrightarrow> x \<le> of_int n \<Longrightarrow> fl x \<le> of_int n"
  using rounding_mono [of fl x "of_int n"] by (simp add: rounding_int)

lemma seconds_0 [simp]: "rounding fl \<Longrightarrow> seconds fl 0 = 0"
  by (simp add: seconds_def go_quot_def go_rem_def)

lemma seconds_ge:
  assumes "rounding fl" "0 \<le> k" "k \<le> 2 ^ 53" "k * second \<le> d" "d div second \<le> 2 ^ 53"
  shows "of_int k \<le> seconds fl d"
proof -
  have "0 \<le> k * second" using assms(2) by (simp add: second_def)
  then have d: "0 \<le> d" using assms(4) by linarith
  have k: "k \<le> d div second"
    using assms(4) by (simp add: second_def)
  have q: "fl (of_int (go_quot d second)) = of_int (d div second)"
    using assms(2,5) d k rounding_int [OF assms(1), of "d div second"] by (simp add: go_quot_nonneg second_def)
  have "0 \<le> fl (fl (of_int (go_rem d second)) / 1000000000)"
    using rounding_nonneg [OF assms(1)] d by (simp add: go_rem_nonneg second_def)
  then have "of_int k \<le> fl (of_int (go_quot d second)) + fl (fl (of_int (go_rem d second)) / 1000000000)"
    unfolding q using k add_increasing2 [of _ "of_int k" "rat_of_int (d div second)"] by simp
  then show ?thesis
    unfolding seconds_def by (rule rounding_ge_int [OF assms(1), rotated]) (use assms in simp)
qed

lemma seconds_whole:
  assumes "rounding fl" "0 \<le> k" "k \<le> 2 ^ 53"
  shows "seconds fl (k * second) = of_int k"
proof -
  have "go_quot (k * second) second = k" "go_rem (k * second) second = 0"
    using assms by (simp_all add: go_quot_nonneg go_rem_nonneg second_def)
  then show ?thesis
    using assms by (simp add: seconds_def rounding_int)
qed

lemma seconds_exact: "0 \<le> d \<Longrightarrow> seconds (\<lambda>x. x) d = of_int d / 1000000000"
proof -
  assume "0 \<le> d"
  then have "d = d div second * second + d mod second" "0 < second"
    by (simp_all add: second_def)
  then have "(of_int d :: rat) = of_int (d div second) * 1000000000 + of_int (d mod second)"
    by (metis of_int_add of_int_mult of_int_numeral second_def)
  then show ?thesis
    using \<open>0 \<le> d\<close> by (simp add: seconds_def go_quot_nonneg go_rem_nonneg second_def field_simps)
qed

text \<open>Before the charge the bucket never holds more than its capacity.\<close>

lemma bucket_take_cap:
  assumes "rounding fl" "0 < rate" "rate \<le> 2 ^ 53"
  shows "bk_tokens (fst (bucket_take fl now rate interval b)) \<le>
    (if snd (bucket_take fl now rate interval b) then of_int (rate - 1) else 1)"
proof -
  have *: "fl (of_int rate) = of_int rate" using assms by (intro rounding_int) auto
  have "fl (min (of_int rate) y - 1) \<le> of_int (rate - 1)" for y :: rat
    by (rule rounding_le_int [OF assms(1)]) (use assms in auto)
  then show ?thesis
    unfolding bucket_take_def Let_def * by auto
qed

lemma bucket_take_last [simp]: "bk_last (fst (bucket_take fl now rate interval b)) = now"
  "bk_interval (fst (bucket_take fl now rate interval b)) = interval"
  by (simp_all add: bucket_take_def Let_def)

lemma bucket_take_same_instant:
  assumes "rounding fl" "bk_last b = now" "bk_tokens b \<le> of_int n" "0 \<le> n" "n \<le> 2 ^ 53"
  shows "snd (bucket_take fl now rate interval b) \<Longrightarrow>
      1 \<le> n \<and> bk_tokens (fst (bucket_take fl now rate interval b)) \<le> of_int (n - 1)"
    and "\<not> snd (bucket_take fl now rate interval b) \<Longrightarrow>
      bk_tokens (fst (bucket_take fl now rate interval b)) \<le> of_int n"
proof -
  define tk where "tk = min (fl (of_int rate)) (fl (bk_tokens b))"
  have tk: "tk \<le> of_int n"
    unfolding tk_def using rounding_le_int [OF assms(1), of n "bk_tokens b"] assms(3-5)
    by (simp add: min.coboundedI2)
  have e: "bucket_take fl now rate interval b = (if tk \<ge> 1
      then (\<lparr>bk_tokens = fl (tk - 1), bk_last = now, bk_interval = interval\<rparr>, True)
      else (\<lparr>bk_tokens = tk, bk_last = now, bk_interval = interval\<rparr>, False))"
    using assms(1,2) by (simp add: bucket_take_def tk_def Let_def)
  show "snd (bucket_take fl now rate interval b) \<Longrightarrow>
      1 \<le> n \<and> bk_tokens (fst (bucket_take fl now rate interval b)) \<le> of_int (n - 1)"
  proof -
    assume "snd (bucket_take fl now rate interval b)"
    then have 1: "1 \<le> tk" using e by (auto split: if_splits)
    then have "(1::rat) \<le> of_int n" using tk by linarith
    then have n: "1 \<le> n" by simp
    have "fl (tk - 1) \<le> of_int (n - 1)"
      by (rule rounding_le_int [OF assms(1)]) (use assms n tk in auto)
    then show ?thesis using n 1 e by simp
  qed
  show "\<not> snd (bucket_take fl now rate interval b) \<Longrightarrow>
      bk_tokens (fst (bucket_take fl now rate interval b)) \<le> of_int n"
    using tk e by (auto split: if_splits)
qed

lemma granted_Cons: "granted (v # vs) = (if v then Suc (granted vs) else granted vs)"
  by (simp add: granted_def)

lemma granted_Nil [simp]: "granted [] = 0"
  by (simp add: granted_def)

lemma bucket_many_instant:
  assumes "rounding fl"
  shows "bk_last b = now \<Longrightarrow> bk_tokens b \<le> of_int n \<Longrightarrow> 0 \<le> n \<Longrightarrow> n \<le> 2 ^ 53 \<Longrightarrow>
    int (granted (bucket_many fl rate interval (replicate m now) b)) \<le> n"
proof (induction m arbitrary: b n)
  case 0
  then show ?case by simp
next
  case (Suc m)
  let ?p = "bucket_take fl now rate interval b"
  have eq: "bucket_many fl rate interval (replicate (Suc m) now) b =
      snd ?p # bucket_many fl rate interval (replicate m now) (fst ?p)"
    by (simp add: Let_def case_prod_beta)
  show ?case
  proof (cases "snd ?p")
    case True
    note 1 = bucket_take_same_instant(1) [OF assms Suc.prems True]
    have "int (granted (bucket_many fl rate interval (replicate m now) (fst ?p))) \<le> n - 1"
      using 1 Suc.prems by (intro Suc.IH) auto
    then show ?thesis using True unfolding eq by (simp add: granted_Cons)
  next
    case False
    then show ?thesis
      using Suc.IH [of "fst ?p" n] bucket_take_same_instant(2) [OF assms Suc.prems False] Suc.prems
      unfolding eq by (simp add: granted_Cons)
  qed
qed

lemma bucket_many_burst:
  assumes "rounding fl" "0 < rate" "rate \<le> 2 ^ 53"
  shows "int (granted (bucket_many fl rate interval (replicate m now) b)) \<le> rate"
proof (cases m)
  case 0
  then show ?thesis using assms by simp
next
  case (Suc m')
  let ?p = "bucket_take fl now rate interval b"
  have eq: "bucket_many fl rate interval (replicate m now) b =
      snd ?p # bucket_many fl rate interval (replicate m' now) (fst ?p)"
    by (simp add: Suc Let_def case_prod_beta)
  have "int (granted (bucket_many fl rate interval (replicate m' now) (fst ?p))) \<le>
      (if snd ?p then rate - 1 else 1)"
    using assms bucket_take_cap [OF assms, of now interval b]
    by (intro bucket_many_instant) auto
  then show ?thesis
    using assms unfolding eq by (auto simp: granted_Cons)
qed

text \<open>Over a span of time, in exact arithmetic: the burst plus what the span refills.\<close>

lemma bucket_take_exact:
  assumes "bk_last b \<le> now" "0 < interval" "0 < rate"
  obtains tk where "tk \<le> of_int rate"
    "tk \<le> bk_tokens b + of_int rate * of_int (now - bk_last b) / of_int interval"
    "bucket_take (\<lambda>x. x) now rate interval b = (if tk \<ge> 1
      then (\<lparr>bk_tokens = tk - 1, bk_last = now, bk_interval = interval\<rparr>, True)
      else (\<lparr>bk_tokens = tk, bk_last = now, bk_interval = interval\<rparr>, False))"
proof -
  define el where "el = t_sub now (bk_last b)"
  have el: "0 \<le> el" "el \<le> now - bk_last b"
    using assms by (auto simp: el_def time_defs)
  let ?tk = "min (of_int rate) (bk_tokens b + of_int rate * of_int el / of_int interval)"
  have "of_int rate * of_int el / (of_int interval :: rat) \<le> of_int rate * of_int (now - bk_last b) / of_int interval"
    using assms el by (intro divide_right_mono mult_left_mono) auto
  moreover have "seconds (\<lambda>x. x) el * of_int rate / seconds (\<lambda>x. x) interval =
      of_int rate * of_int el / of_int interval"
    using assms el by (simp add: seconds_exact)
  ultimately show ?thesis
    by (intro that [of ?tk]) (auto simp: bucket_take_def Let_def el_def)
qed

lemma bucket_many_window:
  assumes "0 < rate" "0 < interval"
  shows "sorted (bk_last b # ts) \<Longrightarrow>
    rat_of_nat (granted (bucket_many (\<lambda>x. x) rate interval ts b)) \<le>
      max 0 (bk_tokens b) + of_int rate * of_int (last (bk_last b # ts) - bk_last b) / of_int interval"
proof (induction ts arbitrary: b)
  case Nil
  then show ?case by simp
next
  case (Cons t ts)
  let ?p = "bucket_take (\<lambda>x. x) t rate interval b"
  let ?r = "\<lambda>d. of_int rate * of_int d / (of_int interval :: rat)"
  have bt: "bk_last b \<le> t" using Cons.prems by simp
  obtain tk where tk: "tk \<le> of_int rate" "tk \<le> bk_tokens b + ?r (t - bk_last b)"
    and p: "?p = (if tk \<ge> 1 then (\<lparr>bk_tokens = tk - 1, bk_last = t, bk_interval = interval\<rparr>, True)
      else (\<lparr>bk_tokens = tk, bk_last = t, bk_interval = interval\<rparr>, False))"
    using bucket_take_exact [OF bt assms(2,1)] by metis
  have eq: "bucket_many (\<lambda>x. x) rate interval (t # ts) b =
      snd ?p # bucket_many (\<lambda>x. x) rate interval ts (fst ?p)"
    by (simp add: Let_def case_prod_beta)
  have IH: "rat_of_nat (granted (bucket_many (\<lambda>x. x) rate interval ts (fst ?p))) \<le>
      max 0 (bk_tokens (fst ?p)) + ?r (last (t # ts) - t)"
    using Cons.IH [of "fst ?p"] Cons.prems by simp
  have split: "?r (last (t # ts) - bk_last b) = ?r (last (t # ts) - t) + ?r (t - bk_last b)"
    by (simp add: add_divide_distrib [symmetric] algebra_simps)
  have l: "last (bk_last b # t # ts) = last (t # ts)" by simp
  have pos: "0 \<le> ?r (t - bk_last b)" using bt assms by simp
  define R where "R = ?r (last (t # ts) - t)"
  define Q where "Q = ?r (t - bk_last b)"
  note facts = IH [folded R_def] tk(2) [folded Q_def] split [folded R_def Q_def] pos [folded Q_def]
  show ?case
  proof (cases "tk \<ge> 1")
    case True
    then have "rat_of_nat (granted (snd ?p # bucket_many (\<lambda>x. x) rate interval ts (fst ?p))) \<le> tk + R"
      using facts(1) by (simp add: p granted_Cons)
    then show ?thesis
      unfolding eq l facts(3) using facts(2) by linarith
  next
    case False
    then have "rat_of_nat (granted (snd ?p # bucket_many (\<lambda>x. x) rate interval ts (fst ?p))) \<le> max 0 tk + R"
      using facts(1) by (simp add: p granted_Cons)
    moreover have "max 0 tk \<le> max 0 (bk_tokens b) + Q"
      using facts(2,4) by linarith
    ultimately show ?thesis
      unfolding eq l facts(3) by linarith
  qed
qed

text \<open>A bucket idle for its interval has refilled: it equals a fresh one.\<close>

lemma t_sub_div_second: "0 \<le> d \<Longrightarrow> d \<le> max_dur \<Longrightarrow> d div second \<le> 2 ^ 53"
  by (simp add: second_def max_dur_def)

lemma bucket_take_full:
  assumes fl: "rounding fl" and rate: "0 < rate" "rate \<le> 2 ^ 40"
    and iv: "interval = k * second" "0 < k" "k \<le> 3600"
    and b: "0 \<le> bk_tokens b" "interval \<le> t_sub now (bk_last b)"
  shows "bucket_take fl now rate interval b = bucket_take fl now rate interval (fresh_bucket fl now rate)"
proof -
  define el where "el = t_sub now (bk_last b)"
  have R: "fl (of_int rate) = of_int rate"
    by (rule rounding_int [OF fl]) (use rate in simp)
  have S: "seconds fl interval = of_int k"
    unfolding iv(1) by (rule seconds_whole [OF fl]) (use iv in auto)
  have el: "0 \<le> el" "el \<le> max_dur" "k * second \<le> el"
    using b iv by (auto simp: el_def time_defs)
  have E: "of_int k \<le> seconds fl el"
    using iv el t_sub_div_second [of el] by (intro seconds_ge [OF fl]) auto
  have kr: "k * rate \<le> 3600 * 2 ^ 40" "0 \<le> k * rate"
    using mult_mono [of k 3600 rate "2 ^ 40"] iv rate by auto
  have "rat_of_int (k * rate) \<le> seconds fl el * of_int rate"
    using E rate by (simp add: mult_right_mono)
  then have "rat_of_int (k * rate) \<le> fl (seconds fl el * of_int rate)"
    by (rule rounding_ge_int [OF fl, rotated]) (use kr in simp)
  then have "of_int rate \<le> fl (seconds fl el * of_int rate) / of_int k"
    using iv by (simp add: pos_le_divide_eq mult.commute)
  then have "of_int rate \<le> fl (fl (seconds fl el * of_int rate) / of_int k)"
    by (rule rounding_ge_int [OF fl, rotated]) (use rate in simp)
  then have "of_int rate \<le> bk_tokens b + fl (fl (seconds fl el * of_int rate) / of_int k)"
    using b by linarith
  then have "of_int rate \<le> fl (bk_tokens b + fl (fl (seconds fl el * of_int rate) / of_int k))"
    by (rule rounding_ge_int [OF fl, rotated]) (use rate in simp)
  then show ?thesis
    using fl by (simp add: bucket_take_def fresh_bucket_def R S el_def [symmetric] min_def Let_def)
qed

section \<open>Properties\<close>

text \<open>
  The burst is bounded by the configured rate. From any state of the limiter, any number
  of calls for one bucket (per IP or global) at one instant is granted at most \<open>rate\<close> times,
  for every rounding of the floating-point arithmetic that is monotone and exact on integers
  up to \<open>2 ^ 53\<close>.
\<close>

theorem take_burst_bound:
  assumes "rounding fl" and "0 < rate" and "rate \<le> 2 ^ 53" and "0 < interval"
  shows "int (granted (take_many fl key rate interval perIP (replicate m now) r)) \<le> rate"
proof (cases m)
  case 0
  then show ?thesis using assms by simp
next
  case (Suc m')
  then have "take_many fl key rate interval perIP (replicate m now) r =
      bucket_many fl rate interval (replicate m now) (bucket_of fl now key rate perIP r)"
    using take_many_bucket [OF assms(2,4), of fl key perIP now "replicate m' now" r] by simp
  then show ?thesis
    using bucket_many_burst [OF assms(1-3)] by simp
qed

theorem take_burst_bound_witness:
  "rounding (\<lambda>x. of_int \<lfloor>x * 1024\<rfloor> / 1024) \<and>
   int (granted (take_many (\<lambda>x. of_int \<lfloor>x * 1024\<rfloor> / 1024) key0 20 second True (replicate 100 5) new_limiter)) \<le> 20"
proof -
  have r: "rounding (\<lambda>x :: rat. of_int \<lfloor>x * 1024\<rfloor> / 1024)"
    by (auto simp: rounding_def mono_def divide_right_mono floor_mono)
  show ?thesis
    using r take_burst_bound [OF r, of 20 second] by (simp add: second_def)
qed

text \<open>
  The sustained rate. In exact arithmetic, calls for one bucket at nondecreasing
  instants from \<open>t\<close> to \<open>t'\<close> are granted at most \<open>rate + rate * (t' - t) / interval\<close> times.
\<close>

theorem take_window_bound:
  assumes "0 < rate" and "0 < interval" and "sorted (t # ts)"
  shows "rat_of_nat (granted (take_many (\<lambda>x. x) key rate interval perIP (t # ts) r)) \<le>
    of_int rate + of_int rate * of_int (last (t # ts) - t) / of_int interval"
proof -
  let ?b = "bucket_of (\<lambda>x. x) t key rate perIP r"
  let ?p = "bucket_take (\<lambda>x. x) t rate interval ?b"
  have "take_many (\<lambda>x. x) key rate interval perIP (t # ts) r =
      snd ?p # bucket_many (\<lambda>x. x) rate interval ts (fst ?p)"
    using take_many_bucket [OF assms(1,2)] by (simp add: Let_def case_prod_beta)
  moreover have "rat_of_nat (granted (bucket_many (\<lambda>x. x) rate interval ts (fst ?p))) \<le>
      max 0 (bk_tokens (fst ?p)) + of_int rate * of_int (last (t # ts) - t) / of_int interval"
    using bucket_many_window [OF assms(1,2), of "fst ?p" ts] assms(3) by simp
  moreover have "max 0 (bk_tokens (fst ?p)) + (if snd ?p then 1 else 0) \<le> of_int rate"
    using assms(1) by (auto simp: bucket_take_def Let_def max_def min_def)
  ultimately show ?thesis
    by (auto simp: granted_Cons split: if_splits)
qed

theorem take_window_bound_witness:
  "sorted [0, 1000000000 :: int] \<and>
   rat_of_nat (granted (take_many (\<lambda>x. x) key0 1 second False [0, 1000000000] new_limiter)) \<le>
     of_int 1 + of_int 1 * of_int (last [0, 1000000000] - 0) / of_int second"
  using take_window_bound [of 1 second 0 "[1000000000]" key0 False new_limiter]
  by (simp add: second_def)

text \<open>
  Pruning is unobservable. Dropping the buckets that were idle for their own refill
  interval changes neither the verdict of the next call for any key nor the bucket it leaves,
  for a configured interval of one second, minute or hour.
\<close>

theorem prune_unobservable:
  assumes "rounding fl" and "limiter_ok r" and "0 < rate" and "rate \<le> 2 ^ 40"
    and "interval \<in> {second, minute, hour}" and "now0 \<le> now"
    and "\<forall>b. lru_get (buckets r) key = Some b \<longrightarrow> bk_interval b = interval \<and> 0 \<le> bk_tokens b"
  shows "snd (take_token fl now key rate interval True (limiter_prune now0 r)) =
      snd (take_token fl now key rate interval True r) \<and>
    bucket_of fl now' key rate True (fst (take_token fl now key rate interval True (limiter_prune now0 r))) =
      bucket_of fl now' key rate True (fst (take_token fl now key rate interval True r))"
proof -
  obtain k where k: "interval = k * second" "0 < k" "k \<le> 3600"
    using assms(5) by (auto simp: minute_def hour_def intro: that [of 1] that [of 60] that [of 3600])
  have pos: "0 < interval" "interval \<le> max_dur"
    using assms(5) by (auto simp: time_defs)
  have wf: "wf_map (entries (buckets r))"
    using assms(2) by (simp add: limiter_ok_def lru_ok_def)
  have "bucket_take fl now rate interval (bucket_of fl now key rate True (limiter_prune now0 r)) =
      bucket_take fl now rate interval (bucket_of fl now key rate True r)"
  proof (cases "lru_get (buckets r) key")
    case None
    then show ?thesis
      by (simp add: bucket_of_def limiter_prune_def lru_drop_if_def lru_get_def m_get_drop_if [OF wf])
  next
    case (Some b)
    have prune: "bucket_of fl now key rate True (limiter_prune now0 r) =
        (if bucket_idle now0 b then fresh_bucket fl now rate else b)"
      using Some by (simp add: bucket_of_def limiter_prune_def lru_drop_if_def lru_get_def m_get_drop_if [OF wf])
    have b: "bk_interval b = interval" "0 \<le> bk_tokens b"
      using assms(7) Some by auto
    have "bucket_take fl now rate interval b = bucket_take fl now rate interval (fresh_bucket fl now rate)"
      if "bucket_idle now0 b"
    proof (rule bucket_take_full [OF assms(1,3,4) k b(2)])
      have "interval \<le> now0 - bk_last b"
        using that b pos by (simp add: bucket_idle_def t_sub_ge)
      then show "interval \<le> t_sub now (bk_last b)"
        using pos assms(6) by (simp add: t_sub_ge)
    qed
    then show ?thesis
      using Some unfolding prune by (simp add: bucket_of_def)
  qed
  then show ?thesis
    using take_token_bucket [OF assms(3) pos(1)] by simp
qed

theorem prune_unobservable_witness:
  "let r = \<lparr>buckets = \<lparr>entries = [(key0, \<lparr>bk_tokens = 0, bk_last = 0, bk_interval = second\<rparr>)], order = [key0]\<rparr>,
        global = None\<rparr>
   in limiter_ok r \<and> lru_get (buckets (limiter_prune second r)) key0 = None \<and>
     snd (take_token (\<lambda>x. x) (2 * second) key0 5 second True (limiter_prune second r)) =
       snd (take_token (\<lambda>x. x) (2 * second) key0 5 second True r)"
proof -
  let ?r = "\<lparr>buckets = \<lparr>entries = [(key0, \<lparr>bk_tokens = 0, bk_last = 0, bk_interval = second\<rparr>)], order = [key0]\<rparr>,
        global = None\<rparr> :: limiter"
  have ok: "limiter_ok ?r"
    by (simp add: limiter_ok_def lru_ok_def wf_map_def bucketCap_def banCap_def)
  have r: "rounding (\<lambda>x. x)"
    by (simp add: rounding_def mono_def)
  have "lru_get (buckets (limiter_prune second ?r)) key0 = None"
    by (simp add: limiter_prune_def lru_drop_if_def lru_get_def m_drop_if_def bucket_idle_def time_defs)
  then show ?thesis
    using ok prune_unobservable [OF r ok, of 5 second second "2 * second" key0]
    by (simp add: lru_get_def second_def)
qed

end
