(* ===== verification/Offenders.thy ===== *)
theory Offenders
  imports Ratelimit
begin

text \<open>
  The strike counters of \<^verbatim>\<open>src/internal/shield/offenders.go\<close> (per source and budget) and
  \<^verbatim>\<open>src/internal/shield/aorstrikes.go\<close> (per address-of-record). Both are recency
  lists with a cap and a fixed window that opens at the first strike; the second also keeps a lock.
  Each operation reads the clock once.
\<close>

section \<open>Model: source strikes\<close>

definition offenderCap :: nat where
  "offenderCap = 16384"

definition StrikeRegister :: string where
  "StrikeRegister = BanReasonRegister"

definition StrikeAdmission :: string where
  "StrikeAdmission = BanReasonAdmission"

definition StrikeAdmissionUDP :: string where
  "StrikeAdmissionUDP = StrikeAdmission @ ''_udp''"

definition StrikeMalformed :: string where
  "StrikeMalformed = BanReasonMalformed"

definition StrikeMalformedUDP :: string where
  "StrikeMalformedUDP = StrikeMalformed @ ''_udp''"

record offender_key =
  ok_src :: addr
  ok_reason :: string

record offender =
  of_start :: gtime
  of_window :: dur
  of_count :: int
  of_over :: bool
  of_parts :: "(string, int) gomap"

record offender_table =
  ot_lru :: "(offender_key, offender) lru"
  ot_max :: nat

definition new_offender_table :: offender_table where
  "new_offender_table = \<lparr>ot_lru = lru_empty, ot_max = offenderCap\<rparr>"

text \<open>The entry a strike finds or creates, and the table with it at the front.\<close>

definition offender_for :: "gtime \<Rightarrow> offender_key \<Rightarrow> strike_limit \<Rightarrow> offender_table \<Rightarrow> offender_table \<times> offender" where
  "offender_for now key sl t =
     (case lru_get (ot_lru t) key of
        Some o1 \<Rightarrow>
          (t\<lparr>ot_lru := lru_front key (ot_lru t)\<rparr>,
           if t_sub now (of_start o1) \<ge> sl_window sl
           then o1\<lparr>of_start := now, of_count := 0, of_over := False, of_parts := []\<rparr> else o1)
      | None \<Rightarrow>
          let o1 = \<lparr>of_start = now, of_window = 0, of_count = 0, of_over = False, of_parts = []\<rparr>
          in (t\<lparr>ot_lru := lru_push key o1 (lru_make_room (ot_max t) (ot_lru t))\<rparr>, o1))"

definition offender_strike :: "gtime \<Rightarrow> offender_key \<Rightarrow> string \<Rightarrow> strike_limit \<Rightarrow> offender_table \<Rightarrow>
    offender_table \<times> int \<times> bool \<times> bool" where
  "offender_strike now key part sl t =
     (let (t1, o1) = offender_for now key sl t;
          o2 = o1\<lparr>of_window := sl_window sl, of_count := of_count o1 + 1\<rparr>;
          o3 = (if part \<noteq> [] then o2\<lparr>of_parts := m_set part (m_get0 0 (of_parts o2) part + 1) (of_parts o2)\<rparr> else o2)
      in if of_count o3 \<le> sl_n sl
         then (t1\<lparr>ot_lru := lru_write key o3 (ot_lru t1)\<rparr>, of_count o3, False, False)
         else (t1\<lparr>ot_lru := lru_write key (o3\<lparr>of_over := True\<rparr>) (ot_lru t1)\<rparr>,
               of_count o3, True, \<not> of_over o3))"

definition offender_clear :: "offender_key \<Rightarrow> offender_table \<Rightarrow> offender_table" where
  "offender_clear key t =
     (case lru_get (ot_lru t) key of None \<Rightarrow> t | Some _ \<Rightarrow> t\<lparr>ot_lru := lru_remove key (ot_lru t)\<rparr>)"

definition offender_closed :: "gtime \<Rightarrow> offender \<Rightarrow> bool" where
  "offender_closed now o1 \<longleftrightarrow> t_sub now (of_start o1) \<ge> of_window o1"

definition offender_prune :: "gtime \<Rightarrow> offender_table \<Rightarrow> offender_table" where
  "offender_prune now t = t\<lparr>ot_lru := lru_drop_if (offender_closed now) (ot_lru t)\<rparr>"

definition offender_size :: "offender_table \<Rightarrow> nat" where
  "offender_size t = length (entries (ot_lru t))"

text \<open>\<open>live\<close>: one row per reason a budget was struck under.\<close>

definition offender_rows :: "offender_key \<times> offender \<Rightarrow> (offender_key \<times> offender) list" where
  "offender_rows ko =
     (let (k, o1) = ko in
      if length (of_parts o1) = 0 then [(k, o1\<lparr>of_parts := []\<rparr>)]
      else map (\<lambda>(reason, n). (k\<lparr>ok_reason := reason\<rparr>, o1\<lparr>of_count := n, of_parts := []\<rparr>)) (of_parts o1))"

definition offender_live :: "gtime \<Rightarrow> offender_table \<Rightarrow> (offender_key \<times> offender) list" where
  "offender_live now t =
     concat (map offender_rows (filter (\<lambda>(k, o1). \<not> offender_closed now o1) (entries (ot_lru t))))"

datatype offender_op = Strike gtime offender_key string strike_limit | Clear offender_key | OPrune gtime

fun offender_step :: "offender_op \<Rightarrow> offender_table \<Rightarrow> offender_table" where
  "offender_step (Strike now k p sl) t = fst (offender_strike now k p sl t)"
| "offender_step (Clear k) t = offender_clear k t"
| "offender_step (OPrune now) t = offender_prune now t"

text \<open>Strikes of one key at a list of instants.\<close>

fun strike_many :: "offender_key \<Rightarrow> string \<Rightarrow> strike_limit \<Rightarrow> gtime list \<Rightarrow> offender_table \<Rightarrow> (int \<times> bool \<times> bool) list" where
  "strike_many key part sl [] t = []"
| "strike_many key part sl (now # ts) t =
     (let (t', res) = offender_strike now key part sl t in res # strike_many key part sl ts t')"

section \<open>Model: address-of-record strikes\<close>

definition StrikeRegisterAOR :: string where
  "StrikeRegisterAOR = ''register_aor''"

definition aorCap :: nat where
  "aorCap = 16384"

definition aorEvictScan :: nat where
  "aorEvictScan = 64"

definition aorKeyMax :: nat where
  "aorKeyMax = 384"

record aor_entry =
  ae_start :: gtime
  ae_window :: dur
  ae_count :: int
  ae_locked :: gtime

record aor_table =
  at_lru :: "(string, aor_entry) lru"
  at_max :: nat

definition new_aor_table :: aor_table where
  "new_aor_table = \<lparr>at_lru = lru_empty, at_max = aorCap\<rparr>"

definition aorKey :: "string \<Rightarrow> string" where
  "aorKey aor = (if length aor > aorKeyMax then take aorKeyMax aor else aor)"

text \<open>\<^verbatim>\<open>e.locked.IsZero() || !now.Before(e.locked)\<close>\<close>

definition aor_unlocked :: "gtime \<Rightarrow> aor_entry \<Rightarrow> bool" where
  "aor_unlocked now e \<longleftrightarrow> t_is_zero (ae_locked e) \<or> \<not> t_before now (ae_locked e)"

definition aor_key_unlocked :: "gtime \<Rightarrow> (string, aor_entry) lru \<Rightarrow> string \<Rightarrow> bool" where
  "aor_key_unlocked now t k = (case lru_get t k of None \<Rightarrow> True | Some e \<Rightarrow> aor_unlocked now e)"

definition aor_evictable :: "gtime \<Rightarrow> (string, aor_entry) lru \<Rightarrow> string" where
  "aor_evictable now t =
     (case find (aor_key_unlocked now t) (take aorEvictScan (rev (order t))) of
        Some k \<Rightarrow> k | None \<Rightarrow> last (order t))"

definition aor_make_room :: "gtime \<Rightarrow> nat \<Rightarrow> (string, aor_entry) lru \<Rightarrow> (string, aor_entry) lru" where
  "aor_make_room now cap t =
     (if length (order t) \<ge> cap then lru_remove (aor_evictable now t) t else t)"

definition aor_for :: "gtime \<Rightarrow> string \<Rightarrow> strike_limit \<Rightarrow> aor_table \<Rightarrow> aor_table \<times> aor_entry" where
  "aor_for now key sl t =
     (case lru_get (at_lru t) key of
        Some e \<Rightarrow>
          (t\<lparr>at_lru := lru_front key (at_lru t)\<rparr>,
           if t_is_zero (ae_locked e) \<and> t_sub now (ae_start e) \<ge> sl_window sl
           then e\<lparr>ae_start := now, ae_count := 0\<rparr>
           else if \<not> t_is_zero (ae_locked e) \<and> \<not> t_before now (ae_locked e)
           then e\<lparr>ae_start := now, ae_count := 0, ae_locked := t_zero\<rparr>
           else e)
      | None \<Rightarrow>
          let e = \<lparr>ae_start = now, ae_window = 0, ae_count = 0, ae_locked = t_zero\<rparr>
          in (t\<lparr>at_lru := lru_push key e (aor_make_room now (at_max t) (at_lru t))\<rparr>, e))"

definition aor_strike :: "gtime \<Rightarrow> string \<Rightarrow> strike_limit \<Rightarrow> dur \<Rightarrow> aor_table \<Rightarrow> aor_table \<times> int \<times> bool \<times> bool" where
  "aor_strike now aor sl d t =
     (let key = aorKey aor;
          (t1, e) = aor_for now key sl t;
          e1 = e\<lparr>ae_window := sl_window sl, ae_count := ae_count e + 1\<rparr>
      in if \<not> t_is_zero (ae_locked e1)
         then (t1\<lparr>at_lru := lru_write key e1 (at_lru t1)\<rparr>, ae_count e1, True, False)
         else if ae_count e1 > sl_n sl
         then (t1\<lparr>at_lru := lru_write key (e1\<lparr>ae_locked := t_add now d\<rparr>) (at_lru t1)\<rparr>, ae_count e1, True, True)
         else (t1\<lparr>at_lru := lru_write key e1 (at_lru t1)\<rparr>, ae_count e1, False, False))"

definition aor_isLocked :: "gtime \<Rightarrow> string \<Rightarrow> aor_table \<Rightarrow> bool" where
  "aor_isLocked now aor t =
     (case lru_get (at_lru t) (aorKey aor) of None \<Rightarrow> False
      | Some e \<Rightarrow> \<not> t_is_zero (ae_locked e) \<and> t_before now (ae_locked e))"

definition aor_clear :: "string \<Rightarrow> aor_table \<Rightarrow> aor_table" where
  "aor_clear aor t =
     (case lru_get (at_lru t) (aorKey aor) of None \<Rightarrow> t
      | Some _ \<Rightarrow> t\<lparr>at_lru := lru_remove (aorKey aor) (at_lru t)\<rparr>)"

definition aor_expired :: "gtime \<Rightarrow> aor_entry \<Rightarrow> bool" where
  "aor_expired now e =
     (if \<not> t_is_zero (ae_locked e) then \<not> t_before now (ae_locked e)
      else t_sub now (ae_start e) \<ge> ae_window e)"

definition aor_prune :: "gtime \<Rightarrow> aor_table \<Rightarrow> aor_table" where
  "aor_prune now t = t\<lparr>at_lru := lru_drop_if (aor_expired now) (at_lru t)\<rparr>"

definition aor_size :: "aor_table \<Rightarrow> nat" where
  "aor_size t = length (entries (at_lru t))"

definition aor_live :: "gtime \<Rightarrow> aor_table \<Rightarrow> (string \<times> aor_entry) list" where
  "aor_live now t = filter (\<lambda>(k, e). \<not> aor_expired now e) (entries (at_lru t))"

datatype aor_op = AStrike gtime string strike_limit dur | AClear string | APrune gtime

fun aor_step :: "aor_op \<Rightarrow> aor_table \<Rightarrow> aor_table" where
  "aor_step (AStrike now a sl d) t = fst (aor_strike now a sl d t)"
| "aor_step (AClear a) t = aor_clear a t"
| "aor_step (APrune now) t = aor_prune now t"

fun aor_many :: "string \<Rightarrow> strike_limit \<Rightarrow> dur \<Rightarrow> gtime list \<Rightarrow> aor_table \<Rightarrow> aor_table \<times> (int \<times> bool \<times> bool) list" where
  "aor_many a sl d [] t = (t, [])"
| "aor_many a sl d (now # ts) t =
     (let (t1, res) = aor_strike now a sl d t; (t2, rest) = aor_many a sl d ts t1 in (t2, res # rest))"

section \<open>The tables stay well formed\<close>

definition offender_ok :: "offender_table \<Rightarrow> bool" where
  "offender_ok t \<longleftrightarrow> ot_max t = offenderCap \<and> lru_ok offenderCap (ot_lru t)"

definition aor_ok :: "aor_table \<Rightarrow> bool" where
  "aor_ok t \<longleftrightarrow> at_max t = aorCap \<and> lru_ok aorCap (at_lru t)"

lemma caps_pos: "0 < offenderCap" "0 < aorCap" "0 < aorEvictScan"
  by (simp_all add: offenderCap_def aorCap_def aorEvictScan_def)

lemma offender_for_ok:
  "offender_ok t \<Longrightarrow> offender_ok (fst (offender_for now key sl t)) \<and>
    (\<exists>u. lru_get (ot_lru (fst (offender_for now key sl t))) key = Some u)"
  using caps_pos(1)
  by (auto simp: offender_for_def offender_ok_def Let_def lru_ok_front lru_insert_ok split: option.splits)
    (simp_all add: lru_defs)

lemma offender_strike_ok: "offender_ok t \<Longrightarrow> offender_ok (fst (offender_strike now key part sl t))"
  using offender_for_ok [of t now key sl]
  by (auto simp: offender_strike_def Let_def offender_ok_def case_prod_beta lru_ok_write)

lemma offender_step_ok: "offender_ok t \<Longrightarrow> offender_ok (offender_step x t)"
  by (cases x)
    (auto simp: offender_strike_ok, auto simp: offender_ok_def offender_clear_def offender_prune_def
        lru_ok_remove lru_ok_drop_if split: option.splits)

interpretation om: bounded_machine offender_step new_offender_table offender_ok offender_size offenderCap
proof (unfold_locales, goal_cases)
  case 1
  show ?case by (simp add: offender_ok_def new_offender_table_def)
next
  case (2 s x)
  then show ?case by (rule offender_step_ok)
next
  case (3 s)
  then show ?case
    using lru_ok_size [of offenderCap "ot_lru s"] by (simp add: offender_ok_def offender_size_def lru_ok_def)
qed

lemma aor_evictable_in: "order t \<noteq> [] \<Longrightarrow> aor_evictable now t \<in> set (order t)"
proof (cases "find (aor_key_unlocked now t) (take aorEvictScan (rev (order t)))")
  case None
  assume "order t \<noteq> []"
  then show ?thesis using None by (simp add: aor_evictable_def)
next
  case (Some k)
  then have "k \<in> set (take aorEvictScan (rev (order t)))"
    by (auto dest: find_SomeD)
  then show ?thesis
    using Some by (auto simp: aor_evictable_def dest: in_set_takeD)
qed

lemma aor_make_room_ok:
  assumes "lru_ok cap t" "0 < cap"
  shows "lru_ok cap (aor_make_room now cap t)" "length (order (aor_make_room now cap t)) < cap"
    "lru_get t k = None \<Longrightarrow> lru_get (aor_make_room now cap t) k = None"
proof -
  show "lru_ok cap (aor_make_room now cap t)"
    using assms by (simp add: aor_make_room_def lru_ok_remove)
  show "length (order (aor_make_room now cap t)) < cap"
  proof (cases "length (order t) \<ge> cap")
    case True
    then have "order t \<noteq> []" using assms by auto
    then have "0 < length (order t)" "aor_evictable now t \<in> set (order t)"
      by (auto simp: aor_evictable_in)
    moreover have "length (order t) \<le> cap" using assms by (simp add: lru_ok_def)
    ultimately show ?thesis
      using True assms(2) by (simp add: aor_make_room_def lru_remove_def length_remove1)
  next
    case False
    then show ?thesis by (simp add: aor_make_room_def)
  qed
  show "lru_get t k = None \<Longrightarrow> lru_get (aor_make_room now cap t) k = None"
    by (simp add: aor_make_room_def lru_defs)
qed

lemma aor_for_ok:
  "aor_ok t \<Longrightarrow> aor_ok (fst (aor_for now key sl t)) \<and>
    (\<exists>u. lru_get (at_lru (fst (aor_for now key sl t))) key = Some u)"
  using caps_pos(2)
  by (auto simp: aor_for_def aor_ok_def Let_def lru_ok_front aor_make_room_ok intro!: lru_ok_push split: option.splits)
    (simp_all add: lru_defs)

lemma aor_strike_ok: "aor_ok t \<Longrightarrow> aor_ok (fst (aor_strike now a sl d t))"
  using aor_for_ok [of t now "aorKey a" sl]
  by (auto simp: aor_strike_def Let_def aor_ok_def case_prod_beta lru_ok_write)

lemma aor_step_ok: "aor_ok t \<Longrightarrow> aor_ok (aor_step x t)"
  by (cases x)
    (auto simp: aor_strike_ok, auto simp: aor_ok_def aor_clear_def aor_prune_def
        lru_ok_remove lru_ok_drop_if split: option.splits)

interpretation am: bounded_machine aor_step new_aor_table aor_ok aor_size aorCap
proof (unfold_locales, goal_cases)
  case 1
  show ?case by (simp add: aor_ok_def new_aor_table_def)
next
  case (2 s x)
  then show ?case by (rule aor_step_ok)
next
  case (3 s)
  then show ?case
    using lru_ok_size [of aorCap "at_lru s"] by (simp add: aor_ok_def aor_size_def lru_ok_def)
qed

section \<open>What one strike does to its key\<close>

definition window_open :: "gtime \<Rightarrow> strike_limit \<Rightarrow> offender_table \<Rightarrow> offender_key \<Rightarrow> bool" where
  "window_open now sl t key = (case lru_get (ot_lru t) key of None \<Rightarrow> False
     | Some o1 \<Rightarrow> t_sub now (of_start o1) < sl_window sl)"

lemma offender_strike_first:
  assumes "\<not> window_open now sl t key"
  shows "snd (offender_strike now key part sl t) = (1, sl_n sl < 1, sl_n sl < 1)"
    and "\<exists>o2. lru_get (ot_lru (fst (offender_strike now key part sl t))) key = Some o2 \<and>
      of_start o2 = now \<and> of_count o2 = 1 \<and> of_over o2 = (sl_n sl < 1)"
  using assms
  by (auto simp: offender_strike_def offender_for_def window_open_def lru_defs Let_def split: option.splits)

lemma offender_strike_next:
  assumes "lru_get (ot_lru t) key = Some o1" "t_sub now (of_start o1) < sl_window sl"
  shows "snd (offender_strike now key part sl t) =
      (of_count o1 + 1, sl_n sl < of_count o1 + 1, sl_n sl < of_count o1 + 1 \<and> \<not> of_over o1)"
    and "\<exists>o2. lru_get (ot_lru (fst (offender_strike now key part sl t))) key = Some o2 \<and>
      of_start o2 = of_start o1 \<and> of_count o2 = of_count o1 + 1 \<and>
      of_over o2 = (of_over o1 \<or> sl_n sl < of_count o1 + 1)"
  using assms
  by (auto simp: offender_strike_def offender_for_def lru_defs Let_def split: option.splits)

lemma strike_many_open:
  assumes "lru_get (ot_lru t) key = Some o1" "of_over o1 = (sl_n sl < of_count o1)"
    "\<forall>u \<in> set ts. t_sub u (of_start o1) < sl_window sl"
  shows "strike_many key part sl ts t =
    map (\<lambda>i. (of_count o1 + 1 + int i, sl_n sl < of_count o1 + 1 + int i, of_count o1 + int i = sl_n sl)) [0..<length ts]"
  using assms
proof (induction ts arbitrary: t o1)
  case Nil
  then show ?case by simp
next
  case (Cons u ts)
  let ?p = "offender_strike u key part sl t"
  have u: "t_sub u (of_start o1) < sl_window sl" using Cons.prems by simp
  obtain o2 where o2: "lru_get (ot_lru (fst ?p)) key = Some o2" "of_start o2 = of_start o1"
    "of_count o2 = of_count o1 + 1" "of_over o2 = (of_over o1 \<or> sl_n sl < of_count o1 + 1)"
    using offender_strike_next(2) [OF Cons.prems(1) u] by blast
  have IH: "strike_many key part sl ts (fst ?p) = map (\<lambda>i. (of_count o2 + 1 + int i,
      sl_n sl < of_count o2 + 1 + int i, of_count o2 + int i = sl_n sl)) [0..<length ts]"
    using Cons.prems o2 by (intro Cons.IH) auto
  have "strike_many key part sl (u # ts) t = snd ?p # strike_many key part sl ts (fst ?p)"
    by (simp add: Let_def case_prod_beta)
  also have "snd ?p = (of_count o1 + 1, sl_n sl < of_count o1 + 1, of_count o1 = sl_n sl)"
    using offender_strike_next(1) [OF Cons.prems(1) u] Cons.prems(2) by auto
  finally show ?case
    unfolding IH o2(3) list.size(4) add_0_right upt_conv_Cons [of 0 "Suc (length ts)", simplified]
    by (simp add: map_upt_Suc add.assoc del: upt_Suc)
qed

section \<open>What one strike does to its address-of-record\<close>

definition aor_open :: "gtime \<Rightarrow> strike_limit \<Rightarrow> aor_table \<Rightarrow> string \<Rightarrow> bool" where
  "aor_open now sl t a = (case lru_get (at_lru t) (aorKey a) of None \<Rightarrow> False
     | Some e \<Rightarrow> if t_is_zero (ae_locked e) then t_sub now (ae_start e) < sl_window sl else t_before now (ae_locked e))"

lemma aor_strike_first:
  assumes "\<not> aor_open now sl t a"
  shows "snd (aor_strike now a sl d t) = (1, sl_n sl < 1, sl_n sl < 1) \<and>
    lru_get (at_lru (fst (aor_strike now a sl d t))) (aorKey a) =
      Some \<lparr>ae_start = now, ae_window = sl_window sl, ae_count = 1,
        ae_locked = (if sl_n sl < 1 then t_add now d else t_zero)\<rparr>"
  using assms
  by (auto simp: aor_strike_def aor_for_def aor_open_def lru_defs Let_def t_is_zero_def split: option.splits if_splits)

lemma aor_strike_next:
  assumes "lru_get (at_lru t) (aorKey a) = Some e"
    "if t_is_zero (ae_locked e) then t_sub now (ae_start e) < sl_window sl else t_before now (ae_locked e)"
  shows "snd (aor_strike now a sl d t) = (ae_count e + 1,
      \<not> t_is_zero (ae_locked e) \<or> sl_n sl < ae_count e + 1, t_is_zero (ae_locked e) \<and> sl_n sl < ae_count e + 1) \<and>
    lru_get (at_lru (fst (aor_strike now a sl d t))) (aorKey a) =
      Some (e\<lparr>ae_window := sl_window sl, ae_count := ae_count e + 1,
        ae_locked := (if t_is_zero (ae_locked e) \<and> sl_n sl < ae_count e + 1 then t_add now d else ae_locked e)\<rparr>)"
  using assms
  by (auto simp: aor_strike_def aor_for_def lru_defs Let_def split: option.splits if_splits)

lemma aor_many_open:
  assumes "lru_get (at_lru t) (aorKey a) = Some e" "0 < t0" "0 < d" "ae_start e = t0"
    "if sl_n sl < ae_count e then t0 + d \<le> ae_locked e else t_is_zero (ae_locked e)"
    "\<forall>u \<in> set ts. t0 \<le> u \<and> t_sub u t0 < sl_window sl \<and> u < t0 + d"
  shows "snd (aor_many a sl d ts t) = map (\<lambda>i. (ae_count e + 1 + int i, sl_n sl < ae_count e + 1 + int i,
        ae_count e + int i = sl_n sl)) [0..<length ts] \<and>
    (\<exists>e'. lru_get (at_lru (fst (aor_many a sl d ts t))) (aorKey a) = Some e' \<and>
      (if sl_n sl < ae_count e + int (length ts) then t0 + d \<le> ae_locked e' else t_is_zero (ae_locked e')))"
  using assms
proof (induction ts arbitrary: t e)
  case Nil
  then show ?case by simp
next
  case (Cons u ts)
  let ?p = "aor_strike u a sl d t"
  have z: "t_is_zero (ae_locked e) \<longleftrightarrow> \<not> sl_n sl < ae_count e"
    using Cons.prems(2,3,5) by (auto simp: t_is_zero_def t_zero_def split: if_splits)
  have pre: "if t_is_zero (ae_locked e) then t_sub u (ae_start e) < sl_window sl else t_before u (ae_locked e)"
    using Cons.prems z by (auto simp: t_before_def split: if_splits)
  note st = aor_strike_next [OF Cons.prems(1) pre, of d]
  let ?e = "e\<lparr>ae_window := sl_window sl, ae_count := ae_count e + 1,
        ae_locked := (if t_is_zero (ae_locked e) \<and> sl_n sl < ae_count e + 1 then t_add u d else ae_locked e)\<rparr>"
  have IH: "snd (aor_many a sl d ts (fst ?p)) = map (\<lambda>i. (ae_count ?e + 1 + int i, sl_n sl < ae_count ?e + 1 + int i,
        ae_count ?e + int i = sl_n sl)) [0..<length ts] \<and>
    (\<exists>e'. lru_get (at_lru (fst (aor_many a sl d ts (fst ?p)))) (aorKey a) = Some e' \<and>
      (if sl_n sl < ae_count ?e + int (length ts) then t0 + d \<le> ae_locked e' else t_is_zero (ae_locked e')))"
    using st Cons.prems z by (intro Cons.IH) (auto simp: t_add_def)
  have many: "aor_many a sl d (u # ts) t =
      (fst (aor_many a sl d ts (fst ?p)), snd ?p # snd (aor_many a sl d ts (fst ?p)))"
    by (simp add: Let_def case_prod_beta)
  have r: "snd ?p = (ae_count e + 1, sl_n sl < ae_count e + 1, ae_count e = sl_n sl)"
    using st z by auto
  show ?case
    unfolding many using IH r
    by (simp add: map_upt_Suc add.assoc del: upt_Suc)
qed

lemma aor_evictable_unlocked:
  assumes "\<exists>k \<in> set (take aorEvictScan (rev (order t))). aor_key_unlocked now t k"
  shows "aor_key_unlocked now t (aor_evictable now t)"
proof -
  have "find (aor_key_unlocked now t) (take aorEvictScan (rev (order t))) \<noteq> None"
    using assms by (auto simp: find_None_iff)
  then show ?thesis
    by (auto simp: aor_evictable_def dest: find_SomeD)
qed

section \<open>Properties\<close>

text \<open>
  The threshold is exact. When no window of the source's budget is open, strikes within
  one window of \<open>sl_window\<close> after the first return the counts 1, 2, 3, and so on; a strike is over
  the limit exactly from number \<open>sl_n + 1\<close> on, and exactly that one is reported as the strike that
  crossed it, so the ban warning is logged once per window.
\<close>

theorem strike_threshold_exact:
  assumes "\<not> window_open t0 sl t key" and "0 \<le> sl_n sl"
    and "\<forall>u \<in> set ts. t_sub u t0 < sl_window sl"
  shows "strike_many key part sl (t0 # ts) t =
    map (\<lambda>i. (int i + 1, sl_n sl < int i + 1, int i = sl_n sl)) [0..<Suc (length ts)]"
proof -
  let ?p = "offender_strike t0 key part sl t"
  obtain o2 where o2: "lru_get (ot_lru (fst ?p)) key = Some o2" "of_start o2 = t0"
    "of_count o2 = 1" "of_over o2 = (sl_n sl < 1)"
    using offender_strike_first(2) [OF assms(1)] by blast
  have "strike_many key part sl (t0 # ts) t = snd ?p # strike_many key part sl ts (fst ?p)"
    by (simp add: Let_def case_prod_beta)
  also have "strike_many key part sl ts (fst ?p) =
      map (\<lambda>i. (of_count o2 + 1 + int i, sl_n sl < of_count o2 + 1 + int i, of_count o2 + int i = sl_n sl)) [0..<length ts]"
    using o2 assms(3) by (intro strike_many_open) auto
  finally show ?thesis
    using offender_strike_first(1) [OF assms(1)] assms(2) o2(3)
    by (auto simp: map_upt_Suc algebra_simps simp del: upt_Suc)
qed

theorem strike_threshold_exact_witness:
  "strike_many \<lparr>ok_src = V4 1, ok_reason = ''register''\<rparr> [] \<lparr>sl_n = 1, sl_window = 100, sl_off = False\<rparr>
     [10, 20, 30] new_offender_table = [(1, False, False), (2, True, True), (3, True, False)]"
  using strike_threshold_exact [of 10 "\<lparr>sl_n = 1, sl_window = 100, sl_off = False\<rparr>" new_offender_table
      "\<lparr>ok_src = V4 1, ok_reason = ''register''\<rparr>" "[20, 30]" "[]"]
  by (simp add: window_open_def new_offender_table_def lru_get_def lru_empty_def time_defs)

text \<open>
  An address-of-record locks at the threshold and stays locked. Strikes at and after
  \<open>t0\<close> that fall in one window and before \<open>t0 + d\<close> return the counts 1, 2, 3, and so on; the lock opens
  exactly at strike \<open>sl_n + 1\<close>, every later strike reports it locked, and at the end the
  address is locked at every instant before \<open>t0 + d\<close> exactly when there were more than \<open>sl_n\<close> strikes.
\<close>

theorem aor_lock_exact:
  assumes "\<not> aor_open t0 sl t a" and "0 \<le> sl_n sl" and "0 < t0" and "0 < d"
    and "\<forall>u \<in> set ts. t0 \<le> u \<and> t_sub u t0 < sl_window sl \<and> u < t0 + d"
  shows "snd (aor_many a sl d (t0 # ts) t) =
      map (\<lambda>i. (int i + 1, sl_n sl < int i + 1, int i = sl_n sl)) [0..<Suc (length ts)] \<and>
    (\<forall>u < t0 + d. aor_isLocked u a (fst (aor_many a sl d (t0 # ts) t)) \<longleftrightarrow> sl_n sl < 1 + int (length ts))"
proof -
  let ?p = "aor_strike t0 a sl d t"
  note first = aor_strike_first [OF assms(1), of d]
  define e where "e = \<lparr>ae_start = t0, ae_window = sl_window sl, ae_count = 1,
        ae_locked = (if sl_n sl < 1 then t_add t0 d else t_zero)\<rparr>"
  have get: "lru_get (at_lru (fst ?p)) (aorKey a) = Some e"
    using first by (simp add: e_def)
  have many: "aor_many a sl d (t0 # ts) t =
      (fst (aor_many a sl d ts (fst ?p)), snd ?p # snd (aor_many a sl d ts (fst ?p)))"
    by (simp add: Let_def case_prod_beta)
  have rest: "snd (aor_many a sl d ts (fst ?p)) = map (\<lambda>i. (ae_count e + 1 + int i, sl_n sl < ae_count e + 1 + int i,
        ae_count e + int i = sl_n sl)) [0..<length ts] \<and>
    (\<exists>e'. lru_get (at_lru (fst (aor_many a sl d ts (fst ?p)))) (aorKey a) = Some e' \<and>
      (if sl_n sl < ae_count e + int (length ts) then t0 + d \<le> ae_locked e' else t_is_zero (ae_locked e')))"
    using get assms(3,4,5) by (intro aor_many_open) (auto simp: e_def time_defs)
  then obtain e' where e': "lru_get (at_lru (fst (aor_many a sl d ts (fst ?p)))) (aorKey a) = Some e'"
    "if sl_n sl < 1 + int (length ts) then t0 + d \<le> ae_locked e' else t_is_zero (ae_locked e')"
    by (auto simp: e_def)
  have "aor_isLocked u a (fst (aor_many a sl d ts (fst ?p))) \<longleftrightarrow> sl_n sl < 1 + int (length ts)" if "u < t0 + d" for u
    using e' that assms(3,4) by (auto simp: aor_isLocked_def time_defs split: if_splits)
  moreover have "snd ?p # snd (aor_many a sl d ts (fst ?p)) =
      map (\<lambda>i. (int i + 1, sl_n sl < int i + 1, int i = sl_n sl)) [0..<Suc (length ts)]"
    using first rest assms(2) by (auto simp: e_def map_upt_Suc algebra_simps simp del: upt_Suc)
  ultimately show ?thesis
    unfolding many by simp
qed

theorem aor_lock_exact_witness:
  "snd (aor_many ''bob@x'' \<lparr>sl_n = 1, sl_window = 100, sl_off = False\<rparr> 1000 [10, 20, 30] new_aor_table) =
     [(1, False, False), (2, True, True), (3, True, False)] \<and>
   aor_isLocked 900 ''bob@x'' (fst (aor_many ''bob@x'' \<lparr>sl_n = 1, sl_window = 100, sl_off = False\<rparr> 1000 [10, 20, 30] new_aor_table))"
  using aor_lock_exact [of 10 "\<lparr>sl_n = 1, sl_window = 100, sl_off = False\<rparr>" new_aor_table "''bob@x''" 1000 "[20, 30]"]
  by (simp add: aor_open_def new_aor_table_def lru_get_def lru_empty_def time_defs del: aor_many.simps)

text \<open>
  A flood of strikes cannot push out a lock. While one of the last 64 entries of the
  table is unlocked, a strike against another address-of-record, whether it is tracked or needs
  room in a full table, leaves every locked address locked for exactly as long as before.
\<close>

theorem aor_strike_spares_locked:
  assumes "aor_ok t" and "aorKey b \<noteq> aorKey a" and "aor_isLocked now b t"
    and "\<exists>k \<in> set (take aorEvictScan (rev (order (at_lru t)))). aor_key_unlocked now (at_lru t) k"
  shows "aor_isLocked u b (fst (aor_strike now a sl d t)) = aor_isLocked u b t"
proof -
  let ?k = "aorKey b"
  obtain e where e: "lru_get (at_lru t) ?k = Some e" "\<not> aor_unlocked now e"
    using assms(3) by (auto simp: aor_isLocked_def aor_unlocked_def split: option.splits)
  have "aor_evictable now (at_lru t) \<noteq> ?k"
    using aor_evictable_unlocked [OF assms(4)] e by (auto simp: aor_key_unlocked_def)
  then have "lru_get (at_lru (fst (aor_strike now a sl d t))) ?k = Some e"
    using e(1) assms(2)
    by (auto simp: aor_strike_def aor_for_def aor_make_room_def lru_defs Let_def split: option.splits)
  then show ?thesis
    using e(1) by (simp add: aor_isLocked_def)
qed

theorem aor_strike_spares_locked_witness:
  "let t = \<lparr>at_lru = \<lparr>entries = [(''a'', \<lparr>ae_start = 1, ae_window = 10, ae_count = 3, ae_locked = 500\<rparr>),
        (''b'', \<lparr>ae_start = 2, ae_window = 10, ae_count = 1, ae_locked = 0\<rparr>)], order = [''b'', ''a'']\<rparr>, at_max = aorCap\<rparr>
   in aor_ok t \<and> aor_isLocked 100 ''a'' (fst (aor_strike 100 ''c'' \<lparr>sl_n = 1, sl_window = 100, sl_off = False\<rparr> 50 t))"
proof -
  let ?t = "\<lparr>at_lru = \<lparr>entries = [(''a'', \<lparr>ae_start = 1, ae_window = 10, ae_count = 3, ae_locked = 500\<rparr>),
        (''b'', \<lparr>ae_start = 2, ae_window = 10, ae_count = 1, ae_locked = 0\<rparr>)], order = [''b'', ''a'']\<rparr>, at_max = aorCap\<rparr>"
  have ok: "aor_ok ?t"
    by (auto simp: aor_ok_def lru_ok_def wf_map_def aorCap_def)
  then show ?thesis
    using aor_strike_spares_locked [OF ok, of "''a''" "''c''" 100 100]
    by (simp add: aorKey_def aorKeyMax_def aor_isLocked_def lru_get_def time_defs aorEvictScan_def
        aor_key_unlocked_def aor_unlocked_def)
qed

end
