(* ===== verification/Go_Sort.thy ===== *)
theory Go_Sort
  imports Go_Strings "HOL-Library.Multiset"
begin

text \<open>
  Byte-wise string order (Go's \<^verbatim>\<open><\<close> on strings), \<^verbatim>\<open>sort.Slice\<close> as an insertion sort by a \<open>less\<close>
  function, and what the list endpoints need of them: the result is a permutation, sorted
  whenever \<open>less\<close> is a strict weak order, and consecutive pages cut from it cover it.
\<close>

fun str_less :: "string \<Rightarrow> string \<Rightarrow> bool" where
  "str_less [] [] = False"
| "str_less [] (b # bs) = True"
| "str_less (a # as) [] = False"
| "str_less (a # as) (b # bs) = (byte a < byte b \<or> (a = b \<and> str_less as bs))"

text \<open>\<^verbatim>\<open>sort.Slice\<close>: a permutation in which no later element is less than an earlier one.\<close>

fun insert_by :: "('a \<Rightarrow> 'a \<Rightarrow> bool) \<Rightarrow> 'a \<Rightarrow> 'a list \<Rightarrow> 'a list" where
  "insert_by lt x [] = [x]"
| "insert_by lt x (y # ys) = (if lt y x then y # insert_by lt x ys else x # y # ys)"

definition sort_slice :: "('a \<Rightarrow> 'a \<Rightarrow> bool) \<Rightarrow> 'a list \<Rightarrow> 'a list" where
  "sort_slice lt xs = foldr (insert_by lt) xs []"

lemma mset_insert_by: "mset (insert_by lt x xs) = add_mset x (mset xs)"
  by (induction xs) auto

lemma mset_sort_slice: "mset (sort_slice lt xs) = mset xs"
  by (induction xs) (simp_all add: sort_slice_def mset_insert_by)

lemma length_sort_slice [simp]: "length (sort_slice lt xs) = length xs"
  by (metis mset_sort_slice size_mset)

lemma set_insert_by [simp]: "set (insert_by lt x xs) = insert x (set xs)"
  by (induction xs) auto

lemma sorted_insert_by:
  assumes "\<And>a b c. lt a b \<Longrightarrow> \<not> lt c b \<Longrightarrow> lt a c" "\<And>a b. lt a b \<Longrightarrow> \<not> lt b a"
    and "sorted_wrt (\<lambda>a b. \<not> lt b a) xs"
  shows "sorted_wrt (\<lambda>a b. \<not> lt b a) (insert_by lt x xs)"
  using assms(3)
proof (induction xs)
  case (Cons y ys)
  then show ?case
    using assms(2) [of y x] assms(1) [of _ x y] by auto
qed simp

lemma sorted_sort_slice:
  assumes "\<And>a b c. lt a b \<Longrightarrow> \<not> lt c b \<Longrightarrow> lt a c" "\<And>a b. lt a b \<Longrightarrow> \<not> lt b a"
  shows "sorted_wrt (\<lambda>a b. \<not> lt b a) (sort_slice lt xs)"
proof (induction xs)
  case (Cons x xs)
  then show ?case
    using sorted_insert_by [of lt "sort_slice lt xs" x, OF assms(1,2)] by (simp add: sort_slice_def)
qed (simp add: sort_slice_def)

lemma str_less_total: "\<not> str_less a b \<Longrightarrow> a \<noteq> b \<Longrightarrow> str_less b a"
  by (induction a b rule: str_less.induct) (auto simp: linorder_not_less le_less)

lemma str_less_asym: "str_less a b \<Longrightarrow> \<not> str_less b a"
  by (induction a b rule: str_less.induct) auto

lemma str_less_trans: "str_less a b \<Longrightarrow> str_less b c \<Longrightarrow> str_less a c"
proof (induction a b arbitrary: c rule: str_less.induct)
  case (2 b bs)
  then show ?case by (cases c) auto
next
  case (4 x xs y ys)
  then show ?case by (cases c) auto
qed auto

lemma str_less_weak: "str_less a b \<Longrightarrow> \<not> str_less c b \<Longrightarrow> str_less a c"
  using str_less_trans str_less_total by blast

lemma concat_slices:
  assumes "\<And>k. f k = take n (drop k xs)"
  shows "concat (map (\<lambda>i. f (i * n)) [0..<m]) = take (m * n) xs"
proof (induction m)
  case (Suc m)
  then show ?case
    using assms [of "m * n"] take_add [of "m * n" n xs] by (simp add: add.commute)
qed simp

end
