(* ===== verification/Netip_Prefix.thy ===== *)
theory Netip_Prefix
  imports Go_Sort Netip
begin

text \<open>
  \<^verbatim>\<open>netip.Prefix\<close> and the order of \<^verbatim>\<open>netip.Addr\<close>. A prefix is its address, as written, and its
  length; the parameter that prints addresses is not needed here.
\<close>

type_synonym prefix = "addr \<times> nat"

fun bit_len :: "addr \<Rightarrow> nat" where
  "bit_len AddrZero = 0"
| "bit_len (V4 _) = 32"
| "bit_len (V6 _ _) = 128"

text \<open>\<^verbatim>\<open>PrefixFrom\<close> drops the zone.\<close>

definition prefix_from :: "addr \<Rightarrow> nat \<Rightarrow> prefix" where
  "prefix_from a bits = (no_zone a, bits)"

definition host_prefix :: "addr \<Rightarrow> prefix" where
  "host_prefix a = prefix_from a (bit_len a)"

definition prefix_valid :: "prefix \<Rightarrow> bool" where
  "prefix_valid p \<longleftrightarrow> addr_valid (fst p) \<and> snd p \<le> bit_len (fst p)"

text \<open>\<^verbatim>\<open>Prefix.Contains\<close>: an address with a zone or of the other family is outside.\<close>

definition prefix_contains :: "prefix \<Rightarrow> addr \<Rightarrow> bool" where
  "prefix_contains p ip \<longleftrightarrow> prefix_valid p \<and> (case (fst p, ip) of
       (V4 a, V4 b) \<Rightarrow> drop_bit (32 - snd p) (a XOR b) = 0
     | (V6 a _, V6 b z) \<Rightarrow> z = [] \<and> drop_bit (128 - snd p) (a XOR b) = 0
     | _ \<Rightarrow> False)"

text \<open>\<^verbatim>\<open>Prefix.Masked\<close>: the host bits cleared.\<close>

definition prefix_masked :: "prefix \<Rightarrow> prefix" where
  "prefix_masked p = (case fst p of
       V4 a \<Rightarrow> (V4 (push_bit (32 - snd p) (drop_bit (32 - snd p) a)), snd p)
     | V6 a z \<Rightarrow> (V6 (push_bit (128 - snd p) (drop_bit (128 - snd p) a)) [], snd p)
     | AddrZero \<Rightarrow> p)"

text \<open>\<^verbatim>\<open>Addr.Less\<close>: by bit length, then value, then zone.\<close>

fun addr_less :: "addr \<Rightarrow> addr \<Rightarrow> bool" where
  "addr_less AddrZero b = (b \<noteq> AddrZero)"
| "addr_less (V4 v) (V4 w) = (v < w)"
| "addr_less (V4 v) b = addr_is6 b"
| "addr_less (V6 v z) (V6 w y) = (v < w \<or> (v = w \<and> str_less z y))"
| "addr_less (V6 v z) b = False"

lemma xor_word_zero [simp]: "(a :: 'a::len word) XOR b = 0 \<longleftrightarrow> a = b"
proof
  assume h: "a XOR b = 0"
  have "a = (a XOR b) XOR b" by (simp add: xor.assoc)
  also have "\<dots> = b" by (simp add: h)
  finally show "a = b" .
qed simp

text \<open>A host prefix holds its own address only.\<close>

lemma host_prefix_contains:
  "addr_valid ip \<Longrightarrow> prefix_contains (host_prefix ip) ip \<longleftrightarrow> no_zone ip = ip"
  by (cases ip) (auto simp: prefix_contains_def host_prefix_def prefix_from_def prefix_valid_def)

lemma host_prefix_only:
  "prefix_contains (host_prefix a) ip \<longleftrightarrow> addr_valid a \<and> ip = no_zone a"
  by (cases a; cases ip) (auto simp: prefix_contains_def host_prefix_def prefix_from_def prefix_valid_def)

text \<open>Masking changes the writing, not the set.\<close>

lemma masked_contains: "prefix_valid p \<Longrightarrow> prefix_contains (prefix_masked p) ip = prefix_contains p ip"
proof -
  have xb: "drop_bit n (push_bit n (drop_bit n a)) = drop_bit n a" for n and a :: "'a::len word"
    by (rule bit_word_eqI) (auto simp: bit_simps dest: bit_imp_le_length)
  assume "prefix_valid p"
  then show ?thesis
    by (cases "fst p"; cases ip)
      (auto simp: prefix_contains_def prefix_masked_def prefix_valid_def xb)
qed

end
