(* ===== verification/Shield.thy ===== *)
theory Shield
  imports Offenders Go_Sort Netip_Prefix
begin

text \<open>
  The shield of \<^verbatim>\<open>src/internal/shield/shield.go\<close>, \<^verbatim>\<open>scanner.go\<close>, \<^verbatim>\<open>banned.go\<close> and
  the shield methods of \<^verbatim>\<open>offenders.go\<close> and \<^verbatim>\<open>aorstrikes.go\<close>: the front-door gate over the
  ban tables, the limiter and the strike counters.

  What the shield is built with is the record \<open>shield_env\<close>: the carrier and vouched predicates
  the edge passes to \<^verbatim>\<open>New\<close>, the rendering of addresses, the Unicode tables and the floating-point
  rounding. A hot-reloaded configuration is the argument \<open>cfg\<close> (\<^verbatim>\<open>store.Current()\<close>). Every
  clock reading of a call is a different index of \<open>ck\<close>. Log lines are not modelled.
\<close>

section \<open>Scanner fingerprints\<close>

definition scannerSignatures :: "string list" where
  "scannerSignatures = [''friendly-scanner'', ''sipvicious'', ''sipcli'', ''sip-scan'', ''sundayddr'',
     ''vaxsipuseragent'', ''sipsak'', ''iwar'', ''sivus'', ''smap'', ''pplsip'']"

definition isScanner :: "unicode \<Rightarrow> string \<Rightarrow> bool" where
  "isScanner u ua \<longleftrightarrow> ua \<noteq> [] \<and> list_ex (\<lambda>sig. contains (to_lower u ua) sig) scannerSignatures"

section \<open>State\<close>

datatype verdict = Allow | Drop

record shield_cfg =
  sc_rate_limit :: string
  sc_carrier_rate_limit :: string
  sc_ban :: dur
  sc_register_ban :: string
  sc_admission_ban :: string
  sc_register_ban_aor :: string

record shield_env =
  env_u :: unicode
  env_fl :: "rat \<Rightarrow> rat"
  env_ffrac :: "nat \<Rightarrow> nat \<Rightarrow> nat \<Rightarrow> nat"
  isCarrier :: "addr \<Rightarrow> bool"
  vouched :: "string \<Rightarrow> addrport \<Rightarrow> bool"
  show_addr :: "addr \<Rightarrow> string"
  show_addrport :: "addrport \<Rightarrow> string"

record shield =
  sh_limiter :: limiter
  sh_bans :: "addr banlist"
  sh_socketBans :: "addrport banlist"
  sh_udpBans :: "addr banlist"
  sh_offenders :: offender_table
  sh_aors :: aor_table
  dropsBanned :: nat
  dropsScanner :: nat
  dropsRate :: nat
  rlStr :: string
  rlOpts :: rate_limit
  carStr :: string
  carOpts :: rate_limit
  strikeStr :: "(string, string) gomap"
  strikeOpts :: "(string, strike_limit) gomap"

definition new_shield :: shield where
  "new_shield = \<lparr>sh_limiter = new_limiter, sh_bans = new_banlist, sh_socketBans = new_banlist,
     sh_udpBans = new_banlist, sh_offenders = new_offender_table, sh_aors = new_aor_table,
     dropsBanned = 0, dropsScanner = 0, dropsRate = 0, rlStr = [], rlOpts = rl_zero,
     carStr = [], carOpts = rl_zero, strikeStr = [], strikeOpts = []\<rparr>"

section \<open>Transports\<close>

definition bannableTransport :: "unicode \<Rightarrow> string \<Rightarrow> bool" where
  "bannableTransport u tr \<longleftrightarrow> to_lower u tr \<in> {''tcp'', ''tls'', ''ws'', ''wss''}"

definition isUDP :: "unicode \<Rightarrow> string \<Rightarrow> bool" where
  "isUDP u tr = equal_fold u tr ''udp''"

section \<open>Bans\<close>

definition Banned_addr :: "clock \<Rightarrow> addr \<Rightarrow> shield \<Rightarrow> shield \<times> bool" where
  "Banned_addr ck src s = (let (b, r) = banned ck (unmap src) (sh_bans s) in (s\<lparr>sh_bans := b\<rparr>, r))"

definition BannedFrom :: "shield_env \<Rightarrow> clock \<Rightarrow> addrport \<Rightarrow> string \<Rightarrow> shield \<Rightarrow> shield \<times> bool" where
  "BannedFrom env ck ap tr s =
     (let src = (unmap (fst ap), snd ap);
          (b, r) = banned ck (fst src) (sh_bans s);
          s1 = s\<lparr>sh_bans := b\<rparr>
      in if r then (s1, True)
         else if \<not> isUDP (env_u env) tr then (s1, False)
         else let (ub, ur) = banned (\<lambda>_. ck 1) (fst src) (sh_udpBans s1); s2 = s1\<lparr>sh_udpBans := ub\<rparr> in
           if ur then (s2, True)
           else if snd src = 0 then (s2, False)
           else let (sb, sr) = banned (\<lambda>_. ck 2) src (sh_socketBans s2) in (s2\<lparr>sh_socketBans := sb\<rparr>, sr))"

definition DropBanned :: "shield_env \<Rightarrow> clock \<Rightarrow> addrport \<Rightarrow> string \<Rightarrow> shield \<Rightarrow> shield \<times> bool" where
  "DropBanned env ck ap tr s =
     (let (s1, r) = BannedFrom env ck ap tr s in
      if \<not> r then (s1, False) else (s1\<lparr>dropsBanned := dropsBanned s1 + 1\<rparr>, True))"

section \<open>Rate limits\<close>

definition rateLimit :: "shield_cfg \<Rightarrow> bool \<Rightarrow> shield \<Rightarrow> shield \<times> rate_limit" where
  "rateLimit cfg carrier s =
     (let str = (if carrier then sc_carrier_rate_limit cfg else sc_rate_limit cfg);
          cached = (if carrier then carStr s else rlStr s);
          opts = (if carrier then carOpts s else rlOpts s)
      in if str \<noteq> cached then
           (case parse_rate_limit str of
              None \<Rightarrow> (s, opts)
            | Some rl \<Rightarrow> (if carrier then s\<lparr>carOpts := rl, carStr := str\<rparr>
                          else s\<lparr>rlOpts := rl, rlStr := str\<rparr>, rl))
         else (s, opts))"

definition AllowRate :: "shield_env \<Rightarrow> clock \<Rightarrow> shield_cfg \<Rightarrow> addrport \<Rightarrow> string \<Rightarrow> shield \<Rightarrow> shield \<times> bool" where
  "AllowRate env ck cfg ap tr s =
     (let src = (no_zone (unmap (fst ap)), snd ap);
          (s1, rl) = rateLimit cfg (isCarrier env (fst src)) s;
          stream = bannableTransport (env_u env) tr;
          ipKey = \<lparr>rk_src = (bucketKey (fst src), 0), rk_stream = stream, rk_socket = False\<rparr>;
          (l1, ok) = take_token (env_fl env) (ck 0) ipKey (rl_rate rl) (rl_interval rl) (rl_per_ip rl) (sh_limiter s1);
          s2 = s1\<lparr>sh_limiter := l1\<rparr>
      in if ok then (s2, True)
         else if rl_per_ip rl \<and> vouched env tr src then
           (let (l2, ok2) = take_token (env_fl env) (ck 1) \<lparr>rk_src = src, rk_stream = stream, rk_socket = True\<rparr>
                  (rl_rate rl) (rl_interval rl) True (sh_limiter s2);
                s3 = s2\<lparr>sh_limiter := l2\<rparr>
            in if ok2 then (s3, True) else (s3\<lparr>dropsRate := dropsRate s3 + 1\<rparr>, False))
         else (s2\<lparr>dropsRate := dropsRate s2 + 1\<rparr>, False))"

section \<open>The gate\<close>

definition socketBanMax :: dur where
  "socketBanMax = minute"

definition CheckScanner :: "shield_env \<Rightarrow> clock \<Rightarrow> shield_cfg \<Rightarrow> addrport \<Rightarrow> string \<Rightarrow> string \<Rightarrow> shield \<Rightarrow> shield \<times> verdict" where
  "CheckScanner env ck cfg ap ua tr s =
     (let srcAP = (unmap (fst ap), snd ap); src = fst srcAP;
          (s1, r) = BannedFrom env ck srcAP tr s
      in if r then (s1\<lparr>dropsBanned := dropsBanned s1 + 1\<rparr>, Drop)
         else if \<not> isCarrier env src \<and> isScanner (env_u env) ua then
           (let s2 = s1\<lparr>dropsScanner := dropsScanner s1 + 1\<rparr> in
            if \<not> bannableTransport (env_u env) tr then
              (if isUDP (env_u env) tr \<and> snd srcAP \<noteq> 0
               then (s2\<lparr>sh_socketBans := fst (ban (\<lambda>i. ck (3 + i)) srcAP (min (sc_ban cfg) socketBanMax)
                        BanReasonScanner (sh_socketBans s2))\<rparr>, Drop)
               else (s2, Drop))
            else (s2\<lparr>sh_bans := fst (ban (\<lambda>i. ck (3 + i)) src (sc_ban cfg) BanReasonScanner (sh_bans s2))\<rparr>, Drop))
         else (s1, Allow))"

text \<open>
  \<^verbatim>\<open>CheckFrom\<close> is three calls, and other goroutines run between them: \<open>between1\<close> and \<open>between2\<close> are
  what they do to the shield, and \<open>env\<close>, \<open>env1\<close> and \<open>env2\<close> are the environments the three calls
  find, since the carrier predicate reads a snapshot that DNS refreshes replace.
\<close>

definition CheckFrom_amid :: "(shield \<Rightarrow> shield) \<Rightarrow> (shield \<Rightarrow> shield) \<Rightarrow> shield_env \<Rightarrow> shield_env \<Rightarrow> shield_env \<Rightarrow>
    clock \<Rightarrow> shield_cfg \<Rightarrow> addrport \<Rightarrow> string \<Rightarrow> string \<Rightarrow> shield \<Rightarrow> shield \<times> verdict" where
  "CheckFrom_amid between1 between2 env env1 env2 ck cfg ap ua tr s =
     (let srcAP = (unmap (fst ap), snd ap); (s1, r) = BannedFrom env ck srcAP tr s in
      if r then (s1\<lparr>dropsBanned := dropsBanned s1 + 1\<rparr>, Drop)
      else let (s2, ok) = AllowRate env1 (\<lambda>i. ck (3 + i)) cfg srcAP tr (between1 s1) in
        if \<not> ok then (s2, Drop)
        else CheckScanner env2 (\<lambda>i. ck (5 + i)) cfg srcAP ua tr (between2 s2))"

text \<open>The call when no other runs in between.\<close>

definition CheckFrom :: "shield_env \<Rightarrow> clock \<Rightarrow> shield_cfg \<Rightarrow> addrport \<Rightarrow> string \<Rightarrow> string \<Rightarrow> shield \<Rightarrow> shield \<times> verdict" where
  "CheckFrom env = CheckFrom_amid (\<lambda>s. s) (\<lambda>s. s) env env env"

definition Check :: "shield_env \<Rightarrow> clock \<Rightarrow> shield_cfg \<Rightarrow> addr \<Rightarrow> string \<Rightarrow> string \<Rightarrow> shield \<Rightarrow> shield \<times> verdict" where
  "Check env ck cfg src ua tr s = CheckFrom env ck cfg (src, 0) ua tr s"

section \<open>Strikes\<close>

definition strikeLimit :: "shield_env \<Rightarrow> shield_cfg \<Rightarrow> string \<Rightarrow> shield \<Rightarrow> shield \<times> strike_limit" where
  "strikeLimit env cfg reason0 s =
     (let known = (if reason0 = StrikeRegister then Some (sc_register_ban cfg, reason0)
          else if reason0 = StrikeAdmission \<or> reason0 = StrikeMalformed
            then Some (sc_admission_ban cfg, StrikeAdmission)
          else if reason0 = StrikeRegisterAOR then Some (sc_register_ban_aor cfg, reason0)
          else None)
      in case known of
           None \<Rightarrow> (s, sl_disabled)
         | Some (str, reason) \<Rightarrow>
             if m_get0 [] (strikeStr s) reason \<noteq> str then
               (let l = (case parse_strike_limit (env_ffrac env) str of None \<Rightarrow> sl_disabled | Some l \<Rightarrow> l)
                in (s\<lparr>strikeOpts := m_set reason l (strikeOpts s), strikeStr := m_set reason str (strikeStr s)\<rparr>, l))
             else (s, m_get0 \<lparr>sl_n = 0, sl_window = 0, sl_off = False\<rparr> (strikeOpts s) reason))"

definition sl_inactive :: "strike_limit \<Rightarrow> bool" where
  "sl_inactive l \<longleftrightarrow> sl_off l \<or> sl_n l \<le> 0 \<or> sl_window l \<le> 0"

text \<open>
  \<open>Shield.strike\<close>. The offender table reads the clock at \<open>ck 0\<close>, the ban table at \<open>ck 1\<close> to
  \<open>ck 3\<close>.
\<close>

definition strike :: "shield_env \<Rightarrow> clock \<Rightarrow> shield_cfg \<Rightarrow> addr \<Rightarrow> string \<Rightarrow> bool \<Rightarrow> shield \<Rightarrow> shield \<times> bool" where
  "strike env ck cfg src0 reason udp s =
     (let src = unmap src0 in
      if isCarrier env src then (s, False)
      else let (s1, l) = strikeLimit env cfg reason s in
        if sl_inactive l then (s1, False)
        else let budget = (if reason = StrikeMalformed then StrikeAdmission else reason);
                 key = \<lparr>ok_src = bucketKey src, ok_reason = (if udp then budget @ ''_udp'' else budget)\<rparr>;
                 part = (if budget = StrikeAdmission then (if udp then reason @ ''_udp'' else reason) else []);
                 (o1, cnt, over, crossed) = offender_strike (ck 0) key part l (sh_offenders s1);
                 s2 = s1\<lparr>sh_offenders := o1\<rparr>
             in if \<not> over then (s2, False)
                else if udp then
                  (let (b, ok) = ban (\<lambda>i. ck (1 + i)) src (sc_ban cfg) reason (sh_udpBans s2)
                   in (s2\<lparr>sh_udpBans := b\<rparr>, ok))
                else
                  (let (b, ok) = ban (\<lambda>i. ck (1 + i)) src (sc_ban cfg) reason (sh_bans s2)
                   in (s2\<lparr>sh_bans := b\<rparr>, ok)))"

definition Strike_src :: "shield_env \<Rightarrow> clock \<Rightarrow> shield_cfg \<Rightarrow> addr \<Rightarrow> string \<Rightarrow> shield \<Rightarrow> shield \<times> bool" where
  "Strike_src env ck cfg src reason s = strike env ck cfg src reason False s"

definition StrikeOn :: "shield_env \<Rightarrow> clock \<Rightarrow> shield_cfg \<Rightarrow> addr \<Rightarrow> string \<Rightarrow> string \<Rightarrow> shield \<Rightarrow> shield \<times> bool" where
  "StrikeOn env ck cfg src reason tr s = strike env ck cfg src reason (\<not> bannableTransport (env_u env) tr) s"

definition ClearStrikes :: "addr \<Rightarrow> string \<Rightarrow> shield \<Rightarrow> shield" where
  "ClearStrikes src reason s =
     (let o1 = offender_clear \<lparr>ok_src = bucketKey src, ok_reason = reason\<rparr> (sh_offenders s);
          o2 = (if reason = StrikeAdmission
                then offender_clear \<lparr>ok_src = bucketKey src, ok_reason = StrikeAdmissionUDP\<rparr> o1 else o1)
      in s\<lparr>sh_offenders := o2\<rparr>)"

definition StrikeAOR :: "shield_env \<Rightarrow> clock \<Rightarrow> shield_cfg \<Rightarrow> string \<Rightarrow> shield \<Rightarrow> shield \<times> bool" where
  "StrikeAOR env ck cfg aor s =
     (if aor = [] then (s, False)
      else let (s1, l) = strikeLimit env cfg StrikeRegisterAOR s in
        if sl_inactive l then (s1, False)
        else let (t, cnt, locked, opened) = aor_strike (ck 0) aor l (sc_ban cfg) (sh_aors s1)
             in (s1\<lparr>sh_aors := t\<rparr>, locked))"

definition AORLocked :: "shield_env \<Rightarrow> clock \<Rightarrow> shield_cfg \<Rightarrow> string \<Rightarrow> shield \<Rightarrow> shield \<times> bool" where
  "AORLocked env ck cfg aor s =
     (if aor = [] then (s, False)
      else let (s1, l) = strikeLimit env cfg StrikeRegisterAOR s in
        if sl_inactive l then (s1, False) else (s1, aor_isLocked (ck 0) aor (sh_aors s1)))"

definition ClearAOR :: "string \<Rightarrow> shield \<Rightarrow> shield" where
  "ClearAOR aor s = s\<lparr>sh_aors := aor_clear aor (sh_aors s)\<rparr>"

section \<open>Housekeeping and views\<close>

text \<open>One tick of \<open>pruneLoop\<close>.\<close>

definition prune_tick :: "clock \<Rightarrow> shield \<Rightarrow> shield" where
  "prune_tick ck s = s\<lparr>sh_limiter := limiter_prune (ck 0) (sh_limiter s),
     sh_bans := ban_prune (\<lambda>_. ck 1) (sh_bans s),
     sh_socketBans := ban_prune (\<lambda>_. ck 2) (sh_socketBans s),
     sh_udpBans := ban_prune (\<lambda>_. ck 3) (sh_udpBans s),
     sh_offenders := offender_prune (ck 4) (sh_offenders s),
     sh_aors := aor_prune (ck 5) (sh_aors s)\<rparr>"

record shield_stats =
  BannedCurrent :: nat
  BanAddsRejected :: nat
  BansByKind :: "(string, nat) gomap"
  BanAddsRejectedByKind :: "(string, nat) gomap"
  DropsByReason :: "(string, nat) gomap"

definition BanKindIP :: string where
  "BanKindIP = ''ip''"

definition BanKindUDPSocket :: string where
  "BanKindUDPSocket = ''udp_socket''"

definition BanKindUDPIP :: string where
  "BanKindUDPIP = ''udp_ip''"

definition Stats :: "clock \<Rightarrow> shield \<Rightarrow> shield_stats" where
  "Stats ck s = \<lparr>BannedCurrent = ban_size (sh_bans s) + ban_size (sh_socketBans s) + ban_size (sh_udpBans s),
     BanAddsRejected = overflowed (sh_bans s) + overflowed (sh_socketBans s) + overflowed (sh_udpBans s),
     BansByKind = [(BanKindIP, ban_liveCount ck (sh_bans s)),
        (BanKindUDPIP, ban_liveCount (\<lambda>_. ck 1) (sh_udpBans s)),
        (BanKindUDPSocket, ban_liveCount (\<lambda>_. ck 2) (sh_socketBans s))],
     BanAddsRejectedByKind = [(BanKindIP, overflowed (sh_bans s)), (BanKindUDPIP, overflowed (sh_udpBans s)),
        (BanKindUDPSocket, overflowed (sh_socketBans s))],
     DropsByReason = [(''banned'', dropsBanned s), (''scanner'', dropsScanner s), (''rate'', dropsRate s)]\<rparr>"

record ban_info =
  bi_source :: string
  bi_kind :: string
  bi_reason :: string
  bi_since :: gtime
  bi_until :: gtime

text \<open>The order of \<open>sortBans\<close>: newest first, then source, then kind.\<close>

definition ban_info_less :: "ban_info \<Rightarrow> ban_info \<Rightarrow> bool" where
  "ban_info_less a b =
     (if bi_since a \<noteq> bi_since b then t_after (bi_since a) (bi_since b)
      else if bi_source a \<noteq> bi_source b then str_less (bi_source a) (bi_source b)
      else str_less (bi_kind a) (bi_kind b))"

definition sortBans :: "ban_info list \<Rightarrow> ban_info list" where
  "sortBans = sort_slice ban_info_less"

definition maxBanPage :: int where
  "maxBanPage = 1000"

definition ban_row :: "('k \<Rightarrow> string) \<Rightarrow> string \<Rightarrow> 'k \<times> ban_entry \<Rightarrow> ban_info" where
  "ban_row sh kind ke = \<lparr>bi_source = sh (fst ke), bi_kind = kind, bi_reason = be_reason (snd ke),
     bi_since = be_since (snd ke), bi_until = be_until (snd ke)\<rparr>"

definition all_bans :: "shield_env \<Rightarrow> clock \<Rightarrow> shield \<Rightarrow> ban_info list" where
  "all_bans env ck s = sortBans
     (map (ban_row (show_addr env) BanKindUDPIP) (ban_live (\<lambda>_. ck 2) (sh_udpBans s)) @
      map (ban_row (show_addr env) BanKindIP) (ban_live ck (sh_bans s)) @
      map (ban_row (show_addrport env) BanKindUDPSocket) (ban_live (\<lambda>_. ck 1) (sh_socketBans s)))"

definition Bans :: "shield_env \<Rightarrow> clock \<Rightarrow> int \<Rightarrow> int \<Rightarrow> shield \<Rightarrow> ban_info list \<times> nat" where
  "Bans env ck limit0 offset0 s =
     (let limit = min (max limit0 1) maxBanPage; offset = max offset0 0;
          all = all_bans env ck s; total = length all
      in if offset \<ge> int total then ([], total)
         else let stop = min (offset + limit) (int total) in
           (take (nat (stop - offset)) (drop (nat offset) all), total))"

record offender_info =
  oi_source :: string
  oi_reason :: string
  oi_strikes :: int
  oi_since :: gtime
  oi_until :: gtime

definition maxOffenders :: int where
  "maxOffenders = 1000"

definition offender_less :: "offender_key \<times> offender \<Rightarrow> offender_key \<times> offender \<Rightarrow> bool" where
  "offender_less a b =
     (if of_count (snd a) \<noteq> of_count (snd b) then of_count (snd a) > of_count (snd b)
      else if of_start (snd a) \<noteq> of_start (snd b) then t_before (of_start (snd a)) (of_start (snd b))
      else addr_less (ok_src (fst a)) (ok_src (fst b)))"

definition offender_row :: "shield_env \<Rightarrow> offender_key \<times> offender \<Rightarrow> offender_info" where
  "offender_row env ko =
     (let src = ok_src (fst ko);
          name = (if addr_is6 src then show_addr env src @ ''/64'' else show_addr env src)
      in \<lparr>oi_source = name, oi_reason = ok_reason (fst ko), oi_strikes = of_count (snd ko),
          oi_since = of_start (snd ko), oi_until = t_add (of_start (snd ko)) (of_window (snd ko))\<rparr>)"

definition aor_row :: "string \<times> aor_entry \<Rightarrow> offender_info" where
  "aor_row ke =
     (let e = snd ke;
          til = (if \<not> t_is_zero (ae_locked e) then ae_locked e else t_add (ae_start e) (ae_window e))
      in \<lparr>oi_source = fst ke, oi_reason = StrikeRegisterAOR, oi_strikes = ae_count e,
          oi_since = ae_start e, oi_until = til\<rparr>)"

definition Offenders_list :: "shield_env \<Rightarrow> clock \<Rightarrow> int \<Rightarrow> shield \<Rightarrow> offender_info list \<times> nat" where
  "Offenders_list env ck limit0 s =
     (let limit = min (max limit0 1) maxOffenders;
          live = sort_slice offender_less (offender_live (ck 0) (sh_offenders s));
          as = aor_live (ck 1) (sh_aors s);
          total = length live + length as;
          top = sort_slice (\<lambda>a b. oi_strikes a > oi_strikes b) (map (offender_row env) live @ map aor_row as)
      in (take (nat limit) top, total))"

end
