(* ===== verification/Shield_Props.thy ===== *)
theory Shield_Props
  imports Shield
begin

text \<open>
  What the shield guarantees, proved from the contracts of its tables. Calls are the events of
  a step function, so a run is any interleaving of calls; the tables' own locks make each table
  operation atomic. A concurrent \<^verbatim>\<open>CheckFrom\<close> is its three calls, \<open>EvDropBanned\<close>, \<open>EvAllowRate\<close> and
  \<open>EvCheckScanner\<close>, with the events of others between them.
\<close>

section \<open>Events\<close>

datatype shield_event =
    EvCheckFrom clock shield_cfg addrport string string
  | EvBannedFrom clock addrport string
  | EvDropBanned clock addrport string
  | EvAllowRate clock shield_cfg addrport string
  | EvCheckScanner clock shield_cfg addrport string string
  | EvStrike clock shield_cfg addr string
  | EvStrikeOn clock shield_cfg addr string string
  | EvClearStrikes addr string
  | EvStrikeAOR clock shield_cfg string
  | EvAORLocked clock shield_cfg string
  | EvClearAOR string
  | EvPrune clock

fun shield_step :: "shield_env \<Rightarrow> shield_event \<Rightarrow> shield \<Rightarrow> shield" where
  "shield_step env (EvCheckFrom ck cfg ap ua tr) s = fst (CheckFrom env ck cfg ap ua tr s)"
| "shield_step env (EvBannedFrom ck ap tr) s = fst (BannedFrom env ck ap tr s)"
| "shield_step env (EvDropBanned ck ap tr) s = fst (DropBanned env ck ap tr s)"
| "shield_step env (EvAllowRate ck cfg ap tr) s = fst (AllowRate env ck cfg ap tr s)"
| "shield_step env (EvCheckScanner ck cfg ap ua tr) s = fst (CheckScanner env ck cfg ap ua tr s)"
| "shield_step env (EvStrike ck cfg src r) s = fst (Strike_src env ck cfg src r s)"
| "shield_step env (EvStrikeOn ck cfg src r tr) s = fst (StrikeOn env ck cfg src r tr s)"
| "shield_step env (EvClearStrikes src r) s = ClearStrikes src r s"
| "shield_step env (EvStrikeAOR ck cfg a) s = fst (StrikeAOR env ck cfg a s)"
| "shield_step env (EvAORLocked ck cfg a) s = fst (AORLocked env ck cfg a s)"
| "shield_step env (EvClearAOR a) s = ClearAOR a s"
| "shield_step env (EvPrune ck) s = prune_tick ck s"

text \<open>
  A run pairs each call with the environment it finds: the carrier and vouched predicates read
  snapshots that DNS refreshes and registrations replace between calls.
\<close>

fun live_step :: "shield_env \<times> shield_event \<Rightarrow> shield \<Rightarrow> shield" where
  "live_step (env, x) s = shield_step env x s"

text \<open>Every clock reading of the event is at most \<open>t\<close>.\<close>

fun ev_by :: "gtime \<Rightarrow> shield_event \<Rightarrow> bool" where
  "ev_by t (EvCheckFrom ck cfg ap ua tr) = (\<forall>i. ck i \<le> t)"
| "ev_by t (EvBannedFrom ck ap tr) = (\<forall>i. ck i \<le> t)"
| "ev_by t (EvDropBanned ck ap tr) = (\<forall>i. ck i \<le> t)"
| "ev_by t (EvAllowRate ck cfg ap tr) = (\<forall>i. ck i \<le> t)"
| "ev_by t (EvCheckScanner ck cfg ap ua tr) = (\<forall>i. ck i \<le> t)"
| "ev_by t (EvStrike ck cfg src r) = (\<forall>i. ck i \<le> t)"
| "ev_by t (EvStrikeOn ck cfg src r tr) = (\<forall>i. ck i \<le> t)"
| "ev_by t (EvStrikeAOR ck cfg a) = (\<forall>i. ck i \<le> t)"
| "ev_by t (EvAORLocked ck cfg a) = (\<forall>i. ck i \<le> t)"
| "ev_by t (EvPrune ck) = (\<forall>i. ck i \<le> t)"
| "ev_by t _ = True"

text \<open>
  Events a datagram can cause: calls on a transport that is not connection-oriented, and
  everything that is not tied to a transport. \<open>EvStrike\<close> is one of them: the edge calls it for a refused
  REGISTER whatever transport it came on, and for a resent UDP one.
\<close>

fun datagram_event :: "unicode \<Rightarrow> shield_event \<Rightarrow> bool" where
  "datagram_event u (EvCheckFrom ck cfg ap ua tr) = (\<not> bannableTransport u tr)"
| "datagram_event u (EvBannedFrom ck ap tr) = True"
| "datagram_event u (EvDropBanned ck ap tr) = True"
| "datagram_event u (EvAllowRate ck cfg ap tr) = (\<not> bannableTransport u tr)"
| "datagram_event u (EvCheckScanner ck cfg ap ua tr) = (\<not> bannableTransport u tr)"
| "datagram_event u (EvStrikeOn ck cfg src r tr) = (\<not> bannableTransport u tr)"
| "datagram_event u _ = True"

section \<open>What each operation does to each table\<close>

lemma CheckFrom_seq:
  "CheckFrom env ck cfg ap ua tr s =
     (let srcAP = (unmap (fst ap), snd ap); (s1, r) = BannedFrom env ck srcAP tr s in
      if r then (s1\<lparr>dropsBanned := dropsBanned s1 + 1\<rparr>, Drop)
      else let (s2, ok) = AllowRate env (\<lambda>i. ck (3 + i)) cfg srcAP tr s1 in
        if \<not> ok then (s2, Drop)
        else CheckScanner env (\<lambda>i. ck (5 + i)) cfg srcAP ua tr s2)"
  unfolding CheckFrom_def CheckFrom_amid_def ..

definition bans_ok :: "shield \<Rightarrow> bool" where
  "bans_ok s \<longleftrightarrow> ban_inv (sh_bans s) \<and> ban_inv (sh_socketBans s) \<and> ban_inv (sh_udpBans s)"

definition shield_ok :: "shield \<Rightarrow> bool" where
  "shield_ok s \<longleftrightarrow> bans_ok s \<and> limiter_ok (sh_limiter s) \<and> offender_ok (sh_offenders s) \<and> aor_ok (sh_aors s)"

text \<open>The ban tables without the entries that lookups may drop lazily.\<close>

definition banned_at :: "shield_env \<Rightarrow> clock \<Rightarrow> addrport \<Rightarrow> string \<Rightarrow> shield \<Rightarrow> bool" where
  "banned_at env ck ap tr s \<longleftrightarrow> blocked (sh_bans s) (unmap (fst ap)) (ck 0) \<or>
     (isUDP (env_u env) tr \<and> (blocked (sh_udpBans s) (unmap (fst ap)) (ck 1) \<or>
       (snd ap \<noteq> 0 \<and> blocked (sh_socketBans s) (unmap (fst ap), snd ap) (ck 2))))"

lemma BannedFrom_result: "bans_ok s \<Longrightarrow> snd (BannedFrom env ck ap tr s) = banned_at env ck ap tr s"
  using blocked_banned [of "sh_bans s" ck "unmap (fst ap)"]
    blocked_banned [of "sh_udpBans s" "\<lambda>_. ck 1" "unmap (fst ap)"]
    blocked_banned [of "sh_socketBans s" "\<lambda>_. ck 2" "(unmap (fst ap), snd ap)"]
  by (auto simp: BannedFrom_def banned_at_def bans_ok_def Let_def case_prod_beta)

lemma BannedFrom_frame [simp]:
  "sh_limiter (fst (BannedFrom env ck ap tr s)) = sh_limiter s"
  "sh_offenders (fst (BannedFrom env ck ap tr s)) = sh_offenders s"
  "sh_aors (fst (BannedFrom env ck ap tr s)) = sh_aors s"
  "rlStr (fst (BannedFrom env ck ap tr s)) = rlStr s"
  "rlOpts (fst (BannedFrom env ck ap tr s)) = rlOpts s"
  "carStr (fst (BannedFrom env ck ap tr s)) = carStr s"
  "carOpts (fst (BannedFrom env ck ap tr s)) = carOpts s"
  "dropsBanned (fst (BannedFrom env ck ap tr s)) = dropsBanned s"
  by (auto simp: BannedFrom_def Let_def case_prod_beta)

lemma BannedFrom_ok: "bans_ok s \<Longrightarrow> bans_ok (fst (BannedFrom env ck ap tr s))"
  by (auto simp: BannedFrom_def bans_ok_def Let_def case_prod_beta ban_inv_banned)

lemma BannedFrom_blocked:
  assumes "bans_ok s" "\<forall>i. ck i \<le> t"
  shows "blocked (sh_bans (fst (BannedFrom env ck ap tr s))) k t = blocked (sh_bans s) k t"
    "blocked (sh_udpBans (fst (BannedFrom env ck ap tr s))) k t = blocked (sh_udpBans s) k t"
    "blocked (sh_socketBans (fst (BannedFrom env ck ap tr s))) k2 t = blocked (sh_socketBans s) k2 t"
  using assms
  by (auto simp: BannedFrom_def bans_ok_def Let_def case_prod_beta blocked_banned_keeps)

lemma rateLimit_frame [simp]:
  "sh_limiter (fst (rateLimit cfg c s)) = sh_limiter s"
  "sh_bans (fst (rateLimit cfg c s)) = sh_bans s"
  "sh_udpBans (fst (rateLimit cfg c s)) = sh_udpBans s"
  "sh_socketBans (fst (rateLimit cfg c s)) = sh_socketBans s"
  "sh_offenders (fst (rateLimit cfg c s)) = sh_offenders s"
  "sh_aors (fst (rateLimit cfg c s)) = sh_aors s"
  by (auto simp: rateLimit_def Let_def split: option.splits)

lemma AllowRate_frame [simp]:
  "sh_bans (fst (AllowRate env ck cfg ap tr s)) = sh_bans s"
  "sh_udpBans (fst (AllowRate env ck cfg ap tr s)) = sh_udpBans s"
  "sh_socketBans (fst (AllowRate env ck cfg ap tr s)) = sh_socketBans s"
  "sh_offenders (fst (AllowRate env ck cfg ap tr s)) = sh_offenders s"
  "sh_aors (fst (AllowRate env ck cfg ap tr s)) = sh_aors s"
  by (auto simp: AllowRate_def Let_def case_prod_beta)

lemma AllowRate_ok: "limiter_ok (sh_limiter s) \<Longrightarrow> limiter_ok (sh_limiter (fst (AllowRate env ck cfg ap tr s)))"
  by (auto simp: AllowRate_def Let_def case_prod_beta intro!: take_token_ok)

lemma bans_ok_cong:
  "sh_bans s' = sh_bans s \<Longrightarrow> sh_udpBans s' = sh_udpBans s \<Longrightarrow> sh_socketBans s' = sh_socketBans s \<Longrightarrow>
   bans_ok s' = bans_ok s"
  by (simp add: bans_ok_def)

lemma strikeLimit_frame [simp]:
  "sh_limiter (fst (strikeLimit env cfg r s)) = sh_limiter s"
  "sh_bans (fst (strikeLimit env cfg r s)) = sh_bans s"
  "sh_udpBans (fst (strikeLimit env cfg r s)) = sh_udpBans s"
  "sh_socketBans (fst (strikeLimit env cfg r s)) = sh_socketBans s"
  "sh_offenders (fst (strikeLimit env cfg r s)) = sh_offenders s"
  "sh_aors (fst (strikeLimit env cfg r s)) = sh_aors s"
  by (auto simp: strikeLimit_def Let_def split: option.splits prod.splits if_splits)

lemma CheckScanner_frame [simp]:
  "sh_limiter (fst (CheckScanner env ck cfg ap ua tr s)) = sh_limiter s"
  "sh_offenders (fst (CheckScanner env ck cfg ap ua tr s)) = sh_offenders s"
  "sh_aors (fst (CheckScanner env ck cfg ap ua tr s)) = sh_aors s"
  by (auto simp: CheckScanner_def Let_def case_prod_beta)

lemma CheckScanner_ok: "bans_ok s \<Longrightarrow> bans_ok (fst (CheckScanner env ck cfg ap ua tr s))"
  using BannedFrom_ok [of s env ck "(unmap (fst ap), snd ap)" tr]
  by (auto simp: CheckScanner_def Let_def case_prod_beta bans_ok_def ban_inv_ban)

lemma shield_ok_counters [simp]:
  "shield_ok (s\<lparr>dropsBanned := n\<rparr>) = shield_ok s"
  "bans_ok (s\<lparr>dropsBanned := n\<rparr>) = bans_ok s"
  by (simp_all add: shield_ok_def bans_ok_def)

lemma BannedFrom_sok: "shield_ok s \<Longrightarrow> shield_ok (fst (BannedFrom env ck ap tr s))"
  by (simp add: shield_ok_def BannedFrom_ok)

lemma AllowRate_sok: "shield_ok s \<Longrightarrow> shield_ok (fst (AllowRate env ck cfg ap tr s))"
  by (simp add: shield_ok_def AllowRate_ok bans_ok_cong [of "fst (AllowRate env ck cfg ap tr s)" s])

lemma CheckScanner_sok: "shield_ok s \<Longrightarrow> shield_ok (fst (CheckScanner env ck cfg ap ua tr s))"
  by (simp add: shield_ok_def CheckScanner_ok)

lemma CheckFrom_ok: "shield_ok s \<Longrightarrow> shield_ok (fst (CheckFrom env ck cfg ap ua tr s))"
  by (simp add: CheckFrom_seq Let_def case_prod_beta BannedFrom_sok AllowRate_sok CheckScanner_sok)

lemma strike_frame [simp]:
  "sh_limiter (fst (strike env ck cfg src r udp s)) = sh_limiter s"
  "sh_socketBans (fst (strike env ck cfg src r udp s)) = sh_socketBans s"
  "sh_aors (fst (strike env ck cfg src r udp s)) = sh_aors s"
  "udp \<Longrightarrow> sh_bans (fst (strike env ck cfg src r udp s)) = sh_bans s"
  "\<not> udp \<Longrightarrow> sh_udpBans (fst (strike env ck cfg src r udp s)) = sh_udpBans s"
  by (auto simp: strike_def Let_def case_prod_beta)

lemma strike_ok:
  assumes "shield_ok s"
  shows "shield_ok (fst (strike env ck cfg src r udp s))"
proof -
  have "ban_inv (sh_bans s)" "ban_inv (sh_udpBans s)" "offender_ok (sh_offenders s)"
    using assms by (auto simp: shield_ok_def bans_ok_def)
  then show ?thesis
    using assms
    by (auto simp: strike_def shield_ok_def bans_ok_def Let_def case_prod_beta ban_inv_ban offender_strike_ok)
qed

lemma shield_step_ok: "shield_ok s \<Longrightarrow> shield_ok (shield_step env x s)"
proof (cases x)
  case (EvClearStrikes src r)
  assume "shield_ok s"
  then show ?thesis
    using EvClearStrikes offender_step_ok [of _ "Clear _"]
    by (auto simp: ClearStrikes_def Let_def shield_ok_def bans_ok_def)
next
  case (EvStrikeAOR ck cfg a)
  assume "shield_ok s"
  then show ?thesis
    using EvStrikeAOR by (auto simp: StrikeAOR_def Let_def case_prod_beta shield_ok_def bans_ok_def aor_strike_ok)
next
  case (EvClearAOR a)
  assume "shield_ok s"
  then show ?thesis
    using EvClearAOR aor_step_ok [of _ "AClear a"] by (auto simp: ClearAOR_def shield_ok_def bans_ok_def)
next
  case (EvPrune ck)
  assume "shield_ok s"
  then show ?thesis
    using EvPrune aor_step_ok [of _ "APrune _"] offender_step_ok [of _ "OPrune _"]
    by (auto simp: prune_tick_def shield_ok_def bans_ok_def limiter_prune_ok ban_inv_prune)
next
  case (EvDropBanned ck ap tr)
  assume "shield_ok s"
  then show ?thesis
    using EvDropBanned by (simp add: DropBanned_def Let_def case_prod_beta BannedFrom_sok)
next
  case (EvAORLocked ck cfg a)
  assume "shield_ok s"
  then show ?thesis
    using EvAORLocked by (auto simp: AORLocked_def Let_def case_prod_beta shield_ok_def bans_ok_def)
qed (simp_all add: CheckFrom_ok strike_ok Strike_src_def StrikeOn_def BannedFrom_sok AllowRate_sok CheckScanner_sok)

definition shield_entries :: "shield \<Rightarrow> nat" where
  "shield_entries s = length (entries (buckets (sh_limiter s))) + ban_size (sh_bans s) + ban_size (sh_socketBans s) +
     ban_size (sh_udpBans s) + offender_size (sh_offenders s) + aor_size (sh_aors s)"

interpretation sm: bounded_machine live_step new_shield shield_ok shield_entries
  "bucketCap + 3 * banCap + offenderCap + aorCap"
proof (unfold_locales, goal_cases)
  case 1
  show ?case
    by (simp add: shield_ok_def new_shield_def bans_ok_def limiter_ok_def new_limiter_def om.inv_init am.inv_init)
next
  case (2 s x)
  then show ?case by (cases x) (simp add: shield_step_ok)
next
  case (3 s)
  then show ?case
    using lm.inv_size [of "sh_limiter s"] om.inv_size [of "sh_offenders s"] am.inv_size [of "sh_aors s"]
      bm.inv_size [of "sh_bans s"] bm.inv_size [of "sh_udpBans s"] bm.inv_size [of "sh_socketBans s"]
    by (simp add: shield_ok_def bans_ok_def shield_entries_def)
qed

section \<open>Datagrams and the buckets of stream sources\<close>

definition bucket_kept :: "rate_key \<Rightarrow> limiter \<Rightarrow> limiter \<Rightarrow> bool" where
  "bucket_kept k r r' \<longleftrightarrow> lru_get (buckets r') k = lru_get (buckets r) k \<or> lru_get (buckets r') k = None"

lemma bucket_kept_refl [simp]: "bucket_kept k r r"
  by (simp add: bucket_kept_def)

lemma bucket_kept_trans: "bucket_kept k r r' \<Longrightarrow> bucket_kept k r' r'' \<Longrightarrow> bucket_kept k r r''"
  by (auto simp: bucket_kept_def)

lemma take_token_kept:
  "k \<noteq> key \<Longrightarrow> bucket_kept k r (fst (take_token fl now key rate interval perIP r))"
  by (auto simp: bucket_kept_def take_token_def bucket_for_def lru_make_room_def lru_evict_back_def lru_defs
      Let_def case_prod_beta split: option.splits list.splits)

lemma AllowRate_kept:
  assumes "\<not> bannableTransport (env_u env) tr" "rk_stream k"
  shows "bucket_kept k (sh_limiter s) (sh_limiter (fst (AllowRate env ck cfg ap tr s)))"
proof -
  have ne: "k \<noteq> \<lparr>rk_src = src, rk_stream = False, rk_socket = f\<rparr>" for src f
    using assms(2) by (cases k) auto
  show ?thesis
    using assms(1) take_token_kept [OF ne]
    by (auto simp: AllowRate_def Let_def case_prod_beta intro: bucket_kept_trans take_token_kept [OF ne])
qed

lemma limiter_prune_kept:
  "limiter_ok r \<Longrightarrow> bucket_kept k r (limiter_prune now r)"
  by (auto simp: bucket_kept_def limiter_prune_def lru_drop_if_def lru_get_def limiter_ok_def lru_ok_def
      m_get_drop_if split: option.splits)

lemma datagram_step_kept:
  assumes "shield_ok s" "datagram_event (env_u env) x" "rk_stream k"
  shows "bucket_kept k (sh_limiter s) (sh_limiter (shield_step env x s))"
  using assms
proof (cases x)
  case (EvCheckFrom ck cfg ap ua tr)
  then show ?thesis
    using assms AllowRate_kept [of env tr k "fst (BannedFrom env ck (unmap (fst ap), snd ap) tr s)"]
    by (simp add: CheckFrom_seq Let_def case_prod_beta)
next
  case (EvPrune ck)
  then show ?thesis
    using assms by (simp add: prune_tick_def limiter_prune_kept shield_ok_def)
qed (auto simp: DropBanned_def Let_def case_prod_beta StrikeOn_def ClearStrikes_def StrikeAOR_def
    AORLocked_def ClearAOR_def AllowRate_kept Strike_src_def)

lemma datagram_run_kept:
  "shield_ok s \<Longrightarrow> list_all (\<lambda>(env, x). datagram_event (env_u env) x) xs \<Longrightarrow> rk_stream k \<Longrightarrow>
   bucket_kept k (sh_limiter s) (sh_limiter (run_ops live_step xs s))"
  by (induction xs arbitrary: s) (auto simp: shield_step_ok intro: bucket_kept_trans datagram_step_kept)

section \<open>The gate\<close>

lemma rateLimit_cong:
  assumes "rlStr s' = rlStr s" "rlOpts s' = rlOpts s" "carStr s' = carStr s" "carOpts s' = carOpts s"
  shows "snd (rateLimit cfg c s') = snd (rateLimit cfg c s)"
  using assms by (auto simp: rateLimit_def Let_def split: option.splits)

lemma AllowRate_cong:
  assumes "sh_limiter s' = sh_limiter s" "rlStr s' = rlStr s" "rlOpts s' = rlOpts s"
    "carStr s' = carStr s" "carOpts s' = carOpts s"
  shows "snd (AllowRate env ck cfg ap tr s') = snd (AllowRate env ck cfg ap tr s)"
  using assms rateLimit_cong [OF assms(2-5)] by (simp add: AllowRate_def Let_def case_prod_beta)

lemma banned_at_later:
  assumes "bans_ok s" "\<forall>i j. ck i \<le> ck' j"
  shows "banned_at env ck' ap tr (fst (BannedFrom env ck ap2 tr2 s)) = banned_at env ck' ap tr s"
proof -
  have "\<forall>i. ck i \<le> ck' j" for j using assms by blast
  then show ?thesis
    using BannedFrom_blocked [OF assms(1), of ck] by (simp add: banned_at_def)
qed

lemma banned_at_later3:
  assumes "bans_ok s" "\<And>j. \<forall>i<3. ck i \<le> ck' j"
  shows "banned_at env ck' ap tr (fst (BannedFrom env ck ap2 tr2 s)) = banned_at env ck' ap tr s"
proof -
  have eq: "BannedFrom env ck ap2 tr2 s = BannedFrom env (\<lambda>i. if i < 3 then ck i else ck 0) ap2 tr2 s"
    by (simp add: BannedFrom_def banned_def)
  show ?thesis
    unfolding eq by (rule banned_at_later [OF assms(1)]) (use assms(2) in auto)
qed

lemma banned_at_cong:
  "sh_bans s' = sh_bans s \<Longrightarrow> sh_udpBans s' = sh_udpBans s \<Longrightarrow> sh_socketBans s' = sh_socketBans s \<Longrightarrow>
   banned_at env ck ap tr s' = banned_at env ck ap tr s"
  by (simp add: banned_at_def)

lemma banned_at_unmap [simp]: "banned_at env ck (unmap (fst ap), snd ap) tr s = banned_at env ck ap tr s"
  by (simp add: banned_at_def)

lemma CheckScanner_result:
  "bans_ok s \<Longrightarrow> snd (CheckScanner env ck cfg ap ua tr s) = Allow \<longleftrightarrow>
    \<not> banned_at env ck ap tr s \<and> (isCarrier env (unmap (fst ap)) \<or> \<not> isScanner (env_u env) ua)"
  using BannedFrom_result [of s env ck "(unmap (fst ap), snd ap)" tr]
  by (auto simp: CheckScanner_def Let_def case_prod_beta)

lemma CheckScanner_datagram_scope:
  assumes "bans_ok s" "\<not> bannableTransport (env_u env) tr" "\<forall>i. ck i \<le> t"
  shows "blocked (sh_bans (fst (CheckScanner env ck cfg ap ua tr s))) k t = blocked (sh_bans s) k t"
    "blocked (sh_udpBans (fst (CheckScanner env ck cfg ap ua tr s))) k t = blocked (sh_udpBans s) k t"
    "blocked (sh_socketBans (fst (CheckScanner env ck cfg ap ua tr s))) k2 t \<Longrightarrow> blocked (sh_socketBans s) k2 t \<or>
      k2 = (unmap (fst ap), snd ap) \<and> snd ap \<noteq> 0 \<and> isUDP (env_u env) tr \<and> isScanner (env_u env) ua \<and>
      t < t_add (ck 5) (min (sc_ban cfg) minute)"
proof -
  let ?ap = "(unmap (fst ap), snd ap)"
  let ?s1 = "fst (BannedFrom env ck ?ap tr s)"
  have "ban_inv (sh_socketBans ?s1)"
    using BannedFrom_ok [OF assms(1)] by (simp add: bans_ok_def)
  note bb = blocked_ban [OF this, of "\<lambda>i. ck (3 + i)" t]
  note b1 = BannedFrom_blocked [OF assms(1,3), of env ?ap tr]
  show "blocked (sh_bans (fst (CheckScanner env ck cfg ap ua tr s))) k t = blocked (sh_bans s) k t"
    "blocked (sh_udpBans (fst (CheckScanner env ck cfg ap ua tr s))) k t = blocked (sh_udpBans s) k t"
    using assms(2) b1 by (simp_all add: CheckScanner_def Let_def case_prod_beta)
  assume "blocked (sh_socketBans (fst (CheckScanner env ck cfg ap ua tr s))) k2 t"
  then show "blocked (sh_socketBans s) k2 t \<or>
      k2 = (unmap (fst ap), snd ap) \<and> snd ap \<noteq> 0 \<and> isUDP (env_u env) tr \<and> isScanner (env_u env) ua \<and>
      t < t_add (ck 5) (min (sc_ban cfg) minute)"
    using assms(2,3) b1 bb by (auto simp: CheckScanner_def Let_def case_prod_beta socketBanMax_def split: if_splits)
qed

lemma check_from_allow:
  assumes "shield_ok s" and "\<forall>i j. i < j \<longrightarrow> ck i \<le> ck j"
  shows "(snd (CheckFrom env ck cfg ap ua tr s) = Allow \<longleftrightarrow>
      \<not> banned_at env ck ap tr s \<and>
      snd (AllowRate env (\<lambda>i. ck (3 + i)) cfg (unmap (fst ap), snd ap) tr s) \<and>
      \<not> banned_at env (\<lambda>i. ck (5 + i)) ap tr s \<and>
      (isCarrier env (unmap (fst ap)) \<or> \<not> isScanner (env_u env) ua)) \<and>
    (banned_at env ck ap tr s \<longrightarrow>
      sh_limiter (fst (CheckFrom env ck cfg ap ua tr s)) = sh_limiter s \<and>
      dropsBanned (fst (CheckFrom env ck cfg ap ua tr s)) = dropsBanned s + 1)"
proof -
  let ?ap = "(unmap (fst ap), snd ap)"
  let ?s1 = "fst (BannedFrom env ck ?ap tr s)"
  let ?s2 = "fst (AllowRate env (\<lambda>i. ck (3 + i)) cfg ?ap tr ?s1)"
  have ok: "bans_ok s" "bans_ok ?s2"
    using assms(1) AllowRate_sok [OF BannedFrom_sok [OF assms(1)]] by (simp_all add: shield_ok_def)
  have r: "snd (BannedFrom env ck ?ap tr s) = banned_at env ck ap tr s"
    using BannedFrom_result [OF ok(1)] by simp
  have a: "snd (AllowRate env (\<lambda>i. ck (3 + i)) cfg ?ap tr ?s1) = snd (AllowRate env (\<lambda>i. ck (3 + i)) cfg ?ap tr s)"
    by (rule AllowRate_cong) simp_all
  have "\<forall>i<3. ck i \<le> ck (5 + j)" for j using assms(2) by simp
  then have "banned_at env (\<lambda>i. ck (5 + i)) ap tr ?s1 = banned_at env (\<lambda>i. ck (5 + i)) ap tr s"
    using banned_at_later3 [OF ok(1)] by simp
  then have b: "banned_at env (\<lambda>i. ck (5 + i)) ap tr ?s2 = banned_at env (\<lambda>i. ck (5 + i)) ap tr s"
    by (simp add: banned_at_cong [of ?s2 ?s1])
  have c: "snd (CheckScanner env (\<lambda>i. ck (5 + i)) cfg ?ap ua tr ?s2) = Allow \<longleftrightarrow>
      \<not> banned_at env (\<lambda>i. ck (5 + i)) ap tr s \<and> (isCarrier env (unmap (fst ap)) \<or> \<not> isScanner (env_u env) ua)"
    using CheckScanner_result [OF ok(2)] b by simp
  show ?thesis
    using r a c by (auto simp: CheckFrom_seq Let_def case_prod_beta)
qed

section \<open>Bans last until they expire\<close>

definition blocked_any :: "shield \<Rightarrow> gtime \<Rightarrow> shield \<Rightarrow> bool" where
  "blocked_any s t s' \<longleftrightarrow>
     (\<forall>k. blocked (sh_bans s) k t \<longrightarrow> blocked (sh_bans s') k t) \<and>
     (\<forall>k. blocked (sh_udpBans s) k t \<longrightarrow> blocked (sh_udpBans s') k t) \<and>
     (\<forall>k. blocked (sh_socketBans s) k t \<longrightarrow> blocked (sh_socketBans s') k t)"

lemma blocked_any_refl [simp]: "blocked_any s t s"
  by (simp add: blocked_any_def)

lemma blocked_any_trans: "blocked_any s t s' \<Longrightarrow> blocked_any s' t s'' \<Longrightarrow> blocked_any s t s''"
  by (simp add: blocked_any_def)

lemma blocked_any_cong:
  "sh_bans s' = sh_bans s \<Longrightarrow> sh_udpBans s' = sh_udpBans s \<Longrightarrow> sh_socketBans s' = sh_socketBans s \<Longrightarrow> blocked_any s t s'"
  by (simp add: blocked_any_def)

lemma BannedFrom_keeps: "bans_ok s \<Longrightarrow> \<forall>i. ck i \<le> t \<Longrightarrow> blocked_any s t (fst (BannedFrom env ck ap tr s))"
  by (simp add: blocked_any_def BannedFrom_blocked)

lemma CheckScanner_keeps:
  assumes "bans_ok s" "\<forall>i. ck i \<le> t"
  shows "blocked_any s t (fst (CheckScanner env ck cfg ap ua tr s))"
proof -
  let ?s1 = "fst (BannedFrom env ck (unmap (fst ap), snd ap) tr s)"
  have ok: "ban_inv (sh_bans ?s1)" "ban_inv (sh_socketBans ?s1)"
    using BannedFrom_ok [OF assms(1)] by (simp_all add: bans_ok_def)
  have "blocked_any ?s1 t (fst (CheckScanner env ck cfg ap ua tr s))"
    using ok assms(2) by (auto simp: blocked_any_def CheckScanner_def Let_def case_prod_beta blocked_ban)
  then show ?thesis
    using BannedFrom_keeps [OF assms] by (rule blocked_any_trans [rotated])
qed

lemma CheckFrom_keeps:
  assumes "shield_ok s" "\<forall>i. ck i \<le> t"
  shows "blocked_any s t (fst (CheckFrom env ck cfg ap ua tr s))"
proof -
  let ?ap = "(unmap (fst ap), snd ap)"
  let ?s1 = "fst (BannedFrom env ck ?ap tr s)"
  let ?s2 = "fst (AllowRate env (\<lambda>i. ck (3 + i)) cfg ?ap tr ?s1)"
  have 1: "blocked_any s t ?s1"
    using assms by (intro BannedFrom_keeps) (simp_all add: shield_ok_def)
  have 2: "blocked_any ?s1 t ?s2"
    by (rule blocked_any_cong) simp_all
  have "bans_ok ?s2"
    using assms(1) AllowRate_sok [OF BannedFrom_sok] by (simp add: shield_ok_def)
  then have 3: "blocked_any ?s2 t (fst (CheckScanner env (\<lambda>i. ck (5 + i)) cfg ?ap ua tr ?s2))"
    using assms(2) by (intro CheckScanner_keeps) simp_all
  have 4: "blocked_any s t (?s1\<lparr>dropsBanned := n\<rparr>)" for n
    using 1 by (simp add: blocked_any_def)
  show ?thesis
    using blocked_any_trans [OF 1 2] blocked_any_trans [OF blocked_any_trans [OF 1 2] 3] 4
    by (simp add: CheckFrom_seq Let_def case_prod_beta)
qed

lemma strike_keeps:
  assumes "shield_ok s" "\<forall>i. ck i \<le> t"
  shows "blocked_any s t (fst (strike env ck cfg src r udp s))"
proof -
  have "ban_inv (sh_bans s)" "ban_inv (sh_udpBans s)"
    using assms(1) by (simp_all add: shield_ok_def bans_ok_def)
  then show ?thesis
    using assms(2) by (auto simp: blocked_any_def strike_def Let_def case_prod_beta blocked_ban)
qed

lemma shield_step_keeps:
  assumes "shield_ok s" "ev_by t x"
  shows "blocked_any s t (shield_step env x s)"
proof (cases x)
  case (EvPrune ck)
  then show ?thesis
    using assms bt.t_prune [of "sh_bans s" "\<lambda>_. ck 1" t] bt.t_prune [of "sh_udpBans s" "\<lambda>_. ck 3" t]
      bt.t_prune [of "sh_socketBans s" "\<lambda>_. ck 2" t]
    by (simp add: prune_tick_def blocked_any_def shield_ok_def bans_ok_def)
next
  case (EvDropBanned ck ap tr)
  then show ?thesis
    using assms BannedFrom_keeps [of s ck t env ap tr]
    by (simp add: DropBanned_def Let_def case_prod_beta shield_ok_def) (simp add: blocked_any_def)
next
  case (EvStrikeAOR ck cfg a)
  then show ?thesis
    by (simp add: StrikeAOR_def Let_def case_prod_beta blocked_any_def)
qed (use assms in \<open>auto simp: CheckFrom_keeps CheckScanner_keeps BannedFrom_keeps strike_keeps StrikeOn_def
    Strike_src_def shield_ok_def ClearStrikes_def AORLocked_def ClearAOR_def Let_def case_prod_beta
    intro!: CheckFrom_keeps strike_keeps blocked_any_cong\<close>)

lemma shield_run_keeps:
  "shield_ok s \<Longrightarrow> list_all (\<lambda>(env, x). ev_by t x) xs \<Longrightarrow> blocked_any s t (run_ops live_step xs s)"
proof (induction xs arbitrary: s)
  case Nil
  then show ?case by simp
next
  case (Cons ex xs)
  have "blocked_any s t (live_step ex s)"
    using Cons.prems by (cases ex) (simp add: shield_step_keeps)
  moreover have "blocked_any (live_step ex s) t (run_ops live_step xs (live_step ex s))"
    using Cons.prems sm.inv_step by (intro Cons.IH) auto
  ultimately show ?case
    by (auto intro: blocked_any_trans)
qed

lemma shield_run_ok: "shield_ok s \<Longrightarrow> shield_ok (run_ops live_step xs s)"
  by (rule sm.run_inv)

lemma strike_blocks:
  assumes "shield_ok s" "snd (strike env ck cfg src r udp s)" "\<forall>i. ck i \<le> t" "t < t_add (ck 3) (sc_ban cfg)"
  shows "blocked (if udp then sh_udpBans (fst (strike env ck cfg src r udp s))
      else sh_bans (fst (strike env ck cfg src r udp s))) (unmap src) t"
proof -
  have "ban_inv (sh_bans s)" "ban_inv (sh_udpBans s)"
    using assms(1) by (simp_all add: shield_ok_def bans_ok_def)
  then show ?thesis
    using assms(2-4)
    by (auto simp: strike_def Let_def case_prod_beta blocked_ban eval_nat_numeral split: if_splits)
qed

section \<open>Where a ban comes from\<close>

text \<open>The addresses a call may ban on every transport, and on any.\<close>

fun bans_everywhere :: "shield_env \<Rightarrow> shield_event \<Rightarrow> addr \<Rightarrow> bool" where
  "bans_everywhere env (EvCheckFrom ck cfg ap ua tr) k \<longleftrightarrow>
     k = unmap (fst ap) \<and> \<not> isCarrier env k \<and> isScanner (env_u env) ua \<and> bannableTransport (env_u env) tr"
| "bans_everywhere env (EvCheckScanner ck cfg ap ua tr) k \<longleftrightarrow>
     k = unmap (fst ap) \<and> \<not> isCarrier env k \<and> isScanner (env_u env) ua \<and> bannableTransport (env_u env) tr"
| "bans_everywhere env (EvStrike ck cfg src r) k \<longleftrightarrow> k = unmap src \<and> \<not> isCarrier env k"
| "bans_everywhere env (EvStrikeOn ck cfg src r tr) k \<longleftrightarrow>
     k = unmap src \<and> \<not> isCarrier env k \<and> bannableTransport (env_u env) tr"
| "bans_everywhere env _ k \<longleftrightarrow> False"

fun bans_somewhere :: "shield_env \<Rightarrow> shield_event \<Rightarrow> addr \<Rightarrow> bool" where
  "bans_somewhere env (EvCheckFrom ck cfg ap ua tr) k \<longleftrightarrow> k = unmap (fst ap) \<and> \<not> isCarrier env k \<and> isScanner (env_u env) ua"
| "bans_somewhere env (EvCheckScanner ck cfg ap ua tr) k \<longleftrightarrow> k = unmap (fst ap) \<and> \<not> isCarrier env k \<and> isScanner (env_u env) ua"
| "bans_somewhere env (EvStrike ck cfg src r) k \<longleftrightarrow> k = unmap src \<and> \<not> isCarrier env k"
| "bans_somewhere env (EvStrikeOn ck cfg src r tr) k \<longleftrightarrow> k = unmap src \<and> \<not> isCarrier env k"
| "bans_somewhere env _ k \<longleftrightarrow> False"

text \<open>No table gains a ban in force at \<open>t\<close> but of an address in the given sets.\<close>

definition gains_at_most :: "(addr \<Rightarrow> bool) \<Rightarrow> (addr \<Rightarrow> bool) \<Rightarrow> gtime \<Rightarrow> shield \<Rightarrow> shield \<Rightarrow> bool" where
  "gains_at_most E A t s s' \<longleftrightarrow>
     (\<forall>k. blocked (sh_bans s') k t \<longrightarrow> blocked (sh_bans s) k t \<or> E k) \<and>
     (\<forall>k. blocked (sh_udpBans s') k t \<longrightarrow> blocked (sh_udpBans s) k t \<or> A k) \<and>
     (\<forall>k p. blocked (sh_socketBans s') (k, p) t \<longrightarrow> blocked (sh_socketBans s) (k, p) t \<or> A k)"

lemma gains_refl [simp]: "gains_at_most E A t s s"
  by (simp add: gains_at_most_def)

lemma gains_trans: "gains_at_most E A t s s' \<Longrightarrow> gains_at_most E A t s' s'' \<Longrightarrow> gains_at_most E A t s s''"
  by (simp add: gains_at_most_def) blast

lemma gains_mono: "gains_at_most E A t s s' \<Longrightarrow> (\<And>k. E k \<Longrightarrow> E' k) \<Longrightarrow> (\<And>k. A k \<Longrightarrow> A' k) \<Longrightarrow> gains_at_most E' A' t s s'"
  by (simp add: gains_at_most_def) blast

lemma gains_cong:
  "sh_bans s' = sh_bans s \<Longrightarrow> sh_udpBans s' = sh_udpBans s \<Longrightarrow> sh_socketBans s' = sh_socketBans s \<Longrightarrow> gains_at_most E A t s s'"
  by (simp add: gains_at_most_def)

lemma BannedFrom_gains: "bans_ok s \<Longrightarrow> \<forall>i. ck i \<le> t \<Longrightarrow> gains_at_most E A t s (fst (BannedFrom env ck ap tr s))"
  by (simp add: gains_at_most_def BannedFrom_blocked)

lemma CheckScanner_gains:
  assumes "bans_ok s" "\<forall>i. ck i \<le> t"
  shows "gains_at_most (bans_everywhere env (EvCheckScanner ck cfg ap ua tr)) (bans_somewhere env (EvCheckScanner ck cfg ap ua tr)) t s
    (fst (CheckScanner env ck cfg ap ua tr s))"
proof -
  let ?s1 = "fst (BannedFrom env ck (unmap (fst ap), snd ap) tr s)"
  have ok: "ban_inv (sh_bans ?s1)" "ban_inv (sh_socketBans ?s1)"
    using BannedFrom_ok [OF assms(1)] by (simp_all add: bans_ok_def)
  have "gains_at_most (bans_everywhere env (EvCheckScanner ck cfg ap ua tr)) (bans_somewhere env (EvCheckScanner ck cfg ap ua tr)) t ?s1
      (fst (CheckScanner env ck cfg ap ua tr s))"
    using ok assms(2) by (auto simp: gains_at_most_def CheckScanner_def Let_def case_prod_beta blocked_ban)
  then show ?thesis
    using BannedFrom_gains [OF assms] by (rule gains_trans [rotated])
qed

lemma CheckFrom_gains:
  assumes "shield_ok s" "\<forall>i. ck i \<le> t"
  shows "gains_at_most (bans_everywhere env (EvCheckFrom ck cfg ap ua tr)) (bans_somewhere env (EvCheckFrom ck cfg ap ua tr)) t s
    (fst (CheckFrom env ck cfg ap ua tr s))"
proof -
  let ?ap = "(unmap (fst ap), snd ap)"
  let ?E = "bans_everywhere env (EvCheckFrom ck cfg ap ua tr)" and ?A = "bans_somewhere env (EvCheckFrom ck cfg ap ua tr)"
  let ?s1 = "fst (BannedFrom env ck ?ap tr s)"
  let ?s2 = "fst (AllowRate env (\<lambda>i. ck (3 + i)) cfg ?ap tr ?s1)"
  have 1: "gains_at_most ?E ?A t s ?s1"
    using assms by (intro BannedFrom_gains) (simp_all add: shield_ok_def)
  have 2: "gains_at_most ?E ?A t ?s1 ?s2"
    by (rule gains_cong) simp_all
  have ok: "bans_ok ?s2"
    using assms(1) AllowRate_sok [OF BannedFrom_sok] by (simp add: shield_ok_def)
  have 3: "gains_at_most ?E ?A t ?s2 (fst (CheckScanner env (\<lambda>i. ck (5 + i)) cfg ?ap ua tr ?s2))"
    by (rule gains_mono [OF CheckScanner_gains [OF ok]]) (use assms(2) in auto)
  have 4: "gains_at_most ?E ?A t s (?s1\<lparr>dropsBanned := n\<rparr>)" for n
    using 1 by (simp add: gains_at_most_def)
  show ?thesis
    using gains_trans [OF 1 2] gains_trans [OF gains_trans [OF 1 2] 3] 4
    by (simp add: CheckFrom_seq Let_def case_prod_beta)
qed

lemma strike_gains:
  assumes "shield_ok s" "\<forall>i. ck i \<le> t"
  shows "gains_at_most (\<lambda>k. k = unmap src \<and> \<not> isCarrier env k \<and> \<not> udp) (\<lambda>k. k = unmap src \<and> \<not> isCarrier env k) t s
    (fst (strike env ck cfg src r udp s))"
proof -
  have "ban_inv (sh_bans s)" "ban_inv (sh_udpBans s)"
    using assms(1) by (simp_all add: shield_ok_def bans_ok_def)
  then show ?thesis
    using assms(2) by (auto simp: gains_at_most_def strike_def Let_def case_prod_beta blocked_ban)
qed

lemma shield_step_gains:
  assumes "shield_ok s" "ev_by t x"
  shows "gains_at_most (bans_everywhere env x) (bans_somewhere env x) t s (shield_step env x s)"
proof (cases x)
  case (EvPrune ck)
  then show ?thesis
    using assms bt.t_prune [of "sh_bans s" "\<lambda>_. ck 1" t] bt.t_prune [of "sh_udpBans s" "\<lambda>_. ck 3" t]
      bt.t_prune [of "sh_socketBans s" "\<lambda>_. ck 2" t]
    by (simp add: prune_tick_def gains_at_most_def shield_ok_def bans_ok_def)
next
  case (EvDropBanned ck ap tr)
  then show ?thesis
    using assms BannedFrom_gains [of s ck t "\<lambda>k. False" "\<lambda>k. False" env ap tr]
    by (simp add: DropBanned_def Let_def case_prod_beta shield_ok_def) (simp add: gains_at_most_def)
next
  case (EvStrike ck cfg src r)
  have "gains_at_most (\<lambda>k. k = unmap src \<and> \<not> isCarrier env k \<and> \<not> False) (\<lambda>k. k = unmap src \<and> \<not> isCarrier env k) t s
      (fst (strike env ck cfg src r False s))"
    by (rule strike_gains [OF assms(1)]) (use assms(2) EvStrike in simp)
  from gains_mono [OF this] show ?thesis unfolding EvStrike by (simp add: Strike_src_def)
next
  case (EvStrikeOn ck cfg src r tr)
  let ?udp = "\<not> bannableTransport (env_u env) tr"
  have "gains_at_most (\<lambda>k. k = unmap src \<and> \<not> isCarrier env k \<and> \<not> ?udp) (\<lambda>k. k = unmap src \<and> \<not> isCarrier env k) t s
      (fst (strike env ck cfg src r ?udp s))"
    by (rule strike_gains [OF assms(1)]) (use assms(2) EvStrikeOn in simp)
  from gains_mono [OF this] show ?thesis unfolding EvStrikeOn by (simp add: StrikeOn_def)
next
  case (EvCheckFrom ck cfg ap ua tr)
  then show ?thesis using CheckFrom_gains [OF assms(1)] assms(2) by simp
next
  case (EvCheckScanner ck cfg ap ua tr)
  then show ?thesis using CheckScanner_gains assms by (simp add: shield_ok_def)
qed (use assms in \<open>auto simp: BannedFrom_gains shield_ok_def ClearStrikes_def StrikeAOR_def AORLocked_def ClearAOR_def
    Let_def case_prod_beta intro!: gains_cong\<close>)

lemma shield_run_gains:
  "shield_ok s \<Longrightarrow> list_all (\<lambda>(env, x). ev_by t x) xs \<Longrightarrow>
   gains_at_most (\<lambda>k. \<exists>(env, x) \<in> set xs. bans_everywhere env x k) (\<lambda>k. \<exists>(env, x) \<in> set xs. bans_somewhere env x k) t s
     (run_ops live_step xs s)"
proof (induction xs arbitrary: s)
  case (Cons ex xs)
  obtain env x where ex: "ex = (env, x)" by (cases ex)
  let ?E = "\<lambda>k. \<exists>(env, x) \<in> set (ex # xs). bans_everywhere env x k" and ?A = "\<lambda>k. \<exists>(env, x) \<in> set (ex # xs). bans_somewhere env x k"
  have 1: "gains_at_most (bans_everywhere env x) (bans_somewhere env x) t s (live_step ex s)"
    using Cons.prems ex by (simp add: shield_step_gains)
  have 2: "gains_at_most (\<lambda>k. \<exists>(env, x) \<in> set xs. bans_everywhere env x k) (\<lambda>k. \<exists>(env, x) \<in> set xs. bans_somewhere env x k) t
      (live_step ex s) (run_ops live_step xs (live_step ex s))"
    using Cons.prems sm.inv_step by (intro Cons.IH) auto
  have "gains_at_most ?E ?A t s (live_step ex s)" by (rule gains_mono [OF 1]) (simp_all add: ex)
  moreover have "gains_at_most ?E ?A t (live_step ex s) (run_ops live_step xs (live_step ex s))" by (rule gains_mono [OF 2]) auto
  ultimately show ?case unfolding run_ops.simps by (rule gains_trans)
qed simp

lemma datagram_everywhere:
  "datagram_event (env_u env) x \<Longrightarrow> bans_everywhere env x k \<Longrightarrow> \<exists>ck cfg src r. x = EvStrike ck cfg src r \<and> unmap src = k \<and> \<not> isCarrier env k"
  by (cases x) auto

lemma ev_by_mono: "ev_by t x \<Longrightarrow> t \<le> t' \<Longrightarrow> ev_by t' x"
  by (cases x) (auto intro: order.trans)

lemma blocked_anti: "blocked b k t' \<Longrightarrow> t \<le> t' \<Longrightarrow> blocked b k t"
  by (auto simp: blocked_def split: option.splits)

text \<open>At a carrier's address no ban comes and none goes.\<close>

lemma carrier_frozen:
  assumes "shield_ok s" "list_all (\<lambda>(env, x). isCarrier env (unmap a)) xs" "list_all (\<lambda>(env, x). ev_by t x) xs"
  shows "blocked (sh_bans (run_ops live_step xs s)) (unmap a) t = blocked (sh_bans s) (unmap a) t"
    "blocked (sh_udpBans (run_ops live_step xs s)) (unmap a) t = blocked (sh_udpBans s) (unmap a) t"
    "blocked (sh_socketBans (run_ops live_step xs s)) (unmap a, p) t = blocked (sh_socketBans s) (unmap a, p) t"
proof -
  have no: "\<not> (\<exists>(env, x) \<in> set xs. bans_everywhere env x (unmap a))" "\<not> (\<exists>(env, x) \<in> set xs. bans_somewhere env x (unmap a))"
  proof -
    have "isCarrier env (unmap a) \<Longrightarrow> \<not> bans_everywhere env x (unmap a) \<and> \<not> bans_somewhere env x (unmap a)" for env x
      by (cases x) auto
    then show "\<not> (\<exists>(env, x) \<in> set xs. bans_everywhere env x (unmap a))" "\<not> (\<exists>(env, x) \<in> set xs. bans_somewhere env x (unmap a))"
      using assms(2) by (auto simp: list_all_iff)
  qed
  show "blocked (sh_bans (run_ops live_step xs s)) (unmap a) t = blocked (sh_bans s) (unmap a) t"
    "blocked (sh_udpBans (run_ops live_step xs s)) (unmap a) t = blocked (sh_udpBans s) (unmap a) t"
    "blocked (sh_socketBans (run_ops live_step xs s)) (unmap a, p) t = blocked (sh_socketBans s) (unmap a, p) t"
    using shield_run_gains [OF assms(1,3)] shield_run_keeps [OF assms(1,3)] no
    unfolding gains_at_most_def blocked_any_def by blast+
qed

section \<open>Pages of the ban list\<close>

lemma ban_info_less_weak: "ban_info_less a b \<Longrightarrow> \<not> ban_info_less c b \<Longrightarrow> ban_info_less a c"
  using str_less_weak [of "bi_source a" "bi_source b" "bi_source c"] str_less_weak [of "bi_kind a" "bi_kind b" "bi_kind c"]
    str_less_total [of "bi_source c" "bi_source b"]
  by (auto simp: ban_info_less_def t_after_def split: if_splits)

lemma ban_info_less_asym: "ban_info_less a b \<Longrightarrow> \<not> ban_info_less b a"
  using str_less_asym by (auto simp: ban_info_less_def t_after_def split: if_splits)

lemma sorted_all_bans: "sorted_wrt (\<lambda>a b. \<not> ban_info_less b a) (all_bans env ck s)"
  unfolding all_bans_def sortBans_def
  by (rule sorted_sort_slice) (erule ban_info_less_weak ban_info_less_asym, assumption?)+

lemma Bans_slice:
  assumes "1 \<le> n" "n \<le> maxBanPage"
  shows "fst (Bans env ck n (int k) s) = take (nat n) (drop k (all_bans env ck s))"
  using assms by (auto simp: Bans_def Let_def min_def max_def)

lemma concat_pages:
  "1 \<le> n \<Longrightarrow> n \<le> maxBanPage \<Longrightarrow>
   concat (map (\<lambda>i. fst (Bans env ck n (int (i * nat n)) s)) [0..<m]) = take (m * nat n) (all_bans env ck s)"
  by (rule concat_slices) (rule Bans_slice)

section \<open>Properties\<close>

text \<open>A small deployment for the examples: one carrier, nothing vouched for, exact arithmetic.\<close>

definition demo_env :: shield_env where
  "demo_env = \<lparr>env_u = \<lparr>u_lower = (\<lambda>s. s), u_fold = (=)\<rparr>, env_fl = (\<lambda>x. x), env_ffrac = (\<lambda>_ _ _. 0),
     isCarrier = (\<lambda>a. a = V4 9), vouched = (\<lambda>_ _. False), show_addr = (\<lambda>_. []), show_addrport = (\<lambda>_. [])\<rparr>"

definition demo_cfg :: shield_cfg where
  "demo_cfg = \<lparr>sc_rate_limit = ''5/s per_ip'', sc_carrier_rate_limit = ''50/s'', sc_ban = hour,
     sc_register_ban = ''1/10s'', sc_admission_ban = ''off'', sc_register_ban_aor = ''off''\<rparr>"

lemmas text_eval = bannableTransport_def isUDP_def equal_fold_def to_lower_def is_ascii_def lower_str_def
  lower_ascii_def is_upper_def byte_def

definition banned_before :: shield where
  "banned_before = new_shield\<lparr>sh_bans := new_banlist\<lparr>until := [(V4 9, \<lparr>be_until = 50, be_since = 0, be_reason = ''scanner''\<rparr>)]\<rparr>\<rparr>"

lemma shield_ok_new [simp]: "shield_ok new_shield"
  by (rule sm.inv_init)

lemma bans_ok_new: "bans_ok new_shield"
  using shield_ok_new unfolding shield_ok_def by (rule conjunct1)

text \<open>
  C14: a datagram blocks a stream only by a REGISTER strike against its very source. Take any
  sequence of calls datagrams can cause (requests, scanner hits, admission and malformed strikes,
  REGISTER strikes, lockouts, lookups, prunes, of any source addresses, forged ones included, with
  the carrier snapshot and the registrations changing between them). A lookup on a transport other
  than UDP that finds a source banned afterwards found it banned before, or the sequence holds a
  REGISTER strike of that source's own address at a moment when it was no carrier; and no such
  call lifts a ban. \<^verbatim>\<open>registerStrike\<close> is what makes that strike, and needs a nonce that
  FreeSBC relayed to the address (\<open>strikes_need_cause\<close> in \<open>Register_Props\<close>).
\<close>

theorem stream_block_needs_strike:
  assumes "shield_ok s" and "list_all (\<lambda>(env, x). datagram_event (env_u env) x) xs"
    and "list_all (\<lambda>(env, x). ev_by t x) xs" and "\<not> isUDP (env_u env) tr"
  shows "(snd (BannedFrom env (\<lambda>_. t) ap tr (run_ops live_step xs s)) \<longrightarrow>
      snd (BannedFrom env (\<lambda>_. t) ap tr s) \<or>
      (\<exists>e ck cfg src r. (e, EvStrike ck cfg src r) \<in> set xs \<and> unmap src = unmap (fst ap) \<and> \<not> isCarrier e (unmap src))) \<and>
    (snd (BannedFrom env (\<lambda>_. t) ap tr s) \<longrightarrow> snd (BannedFrom env (\<lambda>_. t) ap tr (run_ops live_step xs s)))"
proof -
  have ok: "bans_ok (run_ops live_step xs s)" "bans_ok s"
    using assms(1) shield_run_ok [OF assms(1)] by (simp_all add: shield_ok_def)
  have "blocked (sh_bans s) k t \<or> (\<exists>e ck cfg src r. (e, EvStrike ck cfg src r) \<in> set xs \<and> unmap src = k \<and> \<not> isCarrier e (unmap src))"
    if "blocked (sh_bans (run_ops live_step xs s)) k t" for k
  proof -
    have "blocked (sh_bans s) k t \<or> (\<exists>(e, x) \<in> set xs. bans_everywhere e x k)"
      using that shield_run_gains [OF assms(1,3)] unfolding gains_at_most_def by blast
    moreover have "\<exists>ck cfg src r. x = EvStrike ck cfg src r \<and> unmap src = k \<and> \<not> isCarrier e k"
      if "(e, x) \<in> set xs" "bans_everywhere e x k" for e x
      using that assms(2) by (intro datagram_everywhere) (auto simp: list_all_iff)
    ultimately show ?thesis by blast
  qed
  moreover have "blocked (sh_bans s) k t \<Longrightarrow> blocked (sh_bans (run_ops live_step xs s)) k t" for k
    using shield_run_keeps [OF assms(1,3)] by (simp add: blocked_any_def)
  moreover have "snd (BannedFrom env (\<lambda>_. t) ap tr s') \<longleftrightarrow> blocked (sh_bans s') (unmap (fst ap)) t" if "bans_ok s'" for s'
    using BannedFrom_result [OF that] assms(4) by (simp add: banned_at_def)
  note eq = this [OF ok(1)] this [OF ok(2)]
  ultimately show ?thesis unfolding eq by blast
qed

theorem stream_block_needs_strike_witness:
  "\<not> snd (BannedFrom demo_env (\<lambda>_. 20) (V4 1, 5060) ''tcp''
     (run_ops live_step [(demo_env, EvCheckScanner (\<lambda>_. 10) demo_cfg (V4 1, 5060) ''sipvicious'' ''udp''),
        (demo_env, EvStrike (\<lambda>_. 11) demo_cfg (V4 2) StrikeRegister)] new_shield))"
proof -
  have "\<not> snd (BannedFrom demo_env (\<lambda>_. 20) (V4 1, 5060) ''tcp'' new_shield)"
    by (simp add: BannedFrom_result [OF bans_ok_new] banned_at_def) (simp add: new_shield_def new_banlist_def blocked_def text_eval)
  then show ?thesis
    using stream_block_needs_strike [of new_shield "[(demo_env, EvCheckScanner (\<lambda>_. 10) demo_cfg (V4 1, 5060) ''sipvicious'' ''udp''),
        (demo_env, EvStrike (\<lambda>_. 11) demo_cfg (V4 2) StrikeRegister)]" 20 demo_env "''tcp''" "(V4 1, 5060)"]
    by (auto simp: text_eval)
qed

text \<open>
  Datagram traffic never spends a token of a stream source. After any run of datagram
  events, the rate bucket of a connection-oriented source holds exactly what it held, or has
  been dropped from the table (by the cap or by the prune), in which case the source starts
  again with a full bucket.
\<close>

theorem datagrams_never_drain_streams:
  assumes "shield_ok s" and "list_all (\<lambda>(env, x). datagram_event (env_u env) x) xs" and "rk_stream k"
  shows "lru_get (buckets (sh_limiter (run_ops live_step xs s))) k \<in>
    {lru_get (buckets (sh_limiter s)) k, None}"
  using datagram_run_kept [OF assms] by (auto simp: bucket_kept_def)

theorem datagrams_never_drain_streams_witness:
  "let k = \<lparr>rk_src = (V4 1, 0), rk_stream = True, rk_socket = False\<rparr>;
       s = fst (AllowRate demo_env (\<lambda>_. 5) demo_cfg (V4 1, 99) ''tcp'' new_shield)
   in lru_get (buckets (sh_limiter (run_ops live_step
        [(demo_env, EvAllowRate (\<lambda>_. 10) demo_cfg (V4 1, 5060) ''udp'')] s))) k \<in> {lru_get (buckets (sh_limiter s)) k, None}"
  using datagrams_never_drain_streams [OF AllowRate_sok [OF shield_ok_new], of
      "[(demo_env, EvAllowRate (\<lambda>_. 10) demo_cfg (V4 1, 5060) ''udp'')]" "\<lparr>rk_src = (V4 1, 0), rk_stream = True, rk_socket = False\<rparr>"
      demo_env "\<lambda>_. 5" demo_cfg "(V4 1, 99)" "''tcp''"]
  by (simp add: text_eval Let_def)

text \<open>
  C7: the verdict of the front door on every branch, whatever other calls run between its steps.
  \<^verbatim>\<open>CheckFrom\<close> allows a request exactly when its source is in none of the ban tables that apply to its
  transport as the call begins, the limiter grants it a token in the state it finds then, the
  source is still in none of the tables when its fingerprint is checked (a strike or a scanner hit
  of another goroutine may have banned it since), and it is a carrier at that moment or carries no
  scanner fingerprint. A source banned as the call begins is dropped before the limiter, so it
  does not spend a token.
\<close>

theorem check_from_allow_iff:
  fixes s :: shield and env env' env'' :: shield_env and ck :: clock and ap :: addrport and tr :: string
    and xs ys :: "(shield_env \<times> shield_event) list" and cfg :: shield_cfg and ua :: string
  assumes "shield_ok s"
  defines "s1 \<equiv> run_ops live_step xs (fst (BannedFrom env ck (unmap (fst ap), snd ap) tr s))"
  defines "s2 \<equiv> run_ops live_step ys (fst (AllowRate env' (\<lambda>i. ck (3 + i)) cfg (unmap (fst ap), snd ap) tr s1))"
  defines "result \<equiv> CheckFrom_amid (run_ops live_step xs) (run_ops live_step ys) env env' env'' ck cfg ap ua tr s"
  shows "(snd result = Allow \<longleftrightarrow>
      \<not> banned_at env ck ap tr s \<and>
      snd (AllowRate env' (\<lambda>i. ck (3 + i)) cfg (unmap (fst ap), snd ap) tr s1) \<and>
      \<not> banned_at env'' (\<lambda>i. ck (5 + i)) ap tr s2 \<and>
      (isCarrier env'' (unmap (fst ap)) \<or> \<not> isScanner (env_u env'') ua)) \<and>
    (banned_at env ck ap tr s \<longrightarrow>
      sh_limiter (fst result) = sh_limiter s \<and> dropsBanned (fst result) = dropsBanned s + 1)"
proof -
  let ?ap = "(unmap (fst ap), snd ap)"
  have "shield_ok s1"
    unfolding s1_def by (rule shield_run_ok [OF BannedFrom_sok [OF assms(1)]])
  then have "shield_ok s2"
    unfolding s2_def by (intro shield_run_ok AllowRate_sok)
  then have c: "snd (CheckScanner env'' (\<lambda>i. ck (5 + i)) cfg ?ap ua tr s2) = Allow \<longleftrightarrow>
      \<not> banned_at env'' (\<lambda>i. ck (5 + i)) ap tr s2 \<and> (isCarrier env'' (unmap (fst ap)) \<or> \<not> isScanner (env_u env'') ua)"
    using CheckScanner_result [of s2 env'' "\<lambda>i. ck (5 + i)" cfg ?ap ua tr] by (simp add: shield_ok_def)
  have r: "snd (BannedFrom env ck ?ap tr s) = banned_at env ck ap tr s"
    using assms(1) BannedFrom_result [of s env ck ?ap tr] by (simp add: shield_ok_def)
  show ?thesis
    using r c unfolding result_def CheckFrom_amid_def s2_def s1_def by (auto simp: Let_def case_prod_beta)
qed

theorem check_from_allow_iff_witness:
  "snd (CheckFrom_amid (run_ops live_step []) (run_ops live_step [(demo_env, EvCheckScanner int demo_cfg (V4 1, 7) ''sipvicious'' ''tcp'')])
     demo_env demo_env demo_env int demo_cfg (V4 1, 5060) ''phone'' ''udp'' new_shield) \<noteq> Allow"
proof -
  let ?s1 = "fst (BannedFrom demo_env int (V4 1, 5060) ''udp'' new_shield)"
  let ?s2 = "fst (AllowRate demo_env (\<lambda>i. int (3 + i)) demo_cfg (V4 1, 5060) ''udp'' ?s1)"
  have e: "sh_bans ?s2 = new_banlist" "\<not> isCarrier demo_env (V4 1)"
    by (simp_all add: BannedFrom_def new_shield_def new_banlist_def banned_def demo_env_def Let_def case_prod_beta)
  have scan: "isScanner (env_u demo_env) ''sipvicious''" "bannableTransport (env_u demo_env) ''tcp''"
    by (simp_all add: isScanner_def scannerSignatures_def text_eval)
  have "blocked (sh_bans (fst (CheckScanner demo_env int demo_cfg (V4 1, 7) ''sipvicious'' ''tcp'' ?s2))) (V4 1) 5"
    using e scan by (simp add: CheckScanner_def BannedFrom_def banned_def new_banlist_def ban_def banCap_def blocked_def demo_cfg_def
        time_defs text_eval Let_def case_prod_beta)
  then have "banned_at demo_env (\<lambda>i. int (5 + i)) (V4 1, 5060) ''udp''
      (run_ops live_step [(demo_env, EvCheckScanner int demo_cfg (V4 1, 7) ''sipvicious'' ''tcp'')] ?s2)"
    by (simp add: banned_at_def)
  then show ?thesis
    using check_from_allow_iff [where s = new_shield and env = demo_env and ck = int and ap = "(V4 1, 5060)"
        and tr = "''udp''" and xs = "[]" and env' = demo_env and env'' = demo_env and cfg = demo_cfg and ua = "''phone''"
        and ys = "[(demo_env, EvCheckScanner int demo_cfg (V4 1, 7) ''sipvicious'' ''tcp'')]", OF shield_ok_new, THEN conjunct1]
    by simp
qed

text \<open>
  A scanner fingerprint on a datagram costs exactly the sending socket, briefly. Whatever
  \<^verbatim>\<open>CheckFrom\<close> does with a request on a transport that is not connection-oriented, the IP bans
  and the UDP-wide bans in force at any later instant are what they were, and a socket ban that
  was not there before is of exactly the sender's address and port, on UDP, for a scanner
  fingerprint, and lasts at most a minute (and at most \<^verbatim>\<open>shield.ban\<close>).
\<close>

theorem udp_scanner_ban_scope:
  assumes "shield_ok s" and "\<not> bannableTransport (env_u env) tr" and "\<forall>i. ck i \<le> t"
  shows "blocked (sh_bans (fst (CheckFrom env ck cfg ap ua tr s))) k t = blocked (sh_bans s) k t \<and>
    blocked (sh_udpBans (fst (CheckFrom env ck cfg ap ua tr s))) k t = blocked (sh_udpBans s) k t \<and>
    (blocked (sh_socketBans (fst (CheckFrom env ck cfg ap ua tr s))) k2 t \<longrightarrow> blocked (sh_socketBans s) k2 t \<or>
      k2 = (unmap (fst ap), snd ap) \<and> snd ap \<noteq> 0 \<and> isUDP (env_u env) tr \<and> isScanner (env_u env) ua \<and>
      t < t_add (ck 10) (min (sc_ban cfg) minute))"
proof -
  let ?ap = "(unmap (fst ap), snd ap)"
  let ?s1 = "fst (BannedFrom env ck ?ap tr s)"
  let ?s2 = "fst (AllowRate env (\<lambda>i. ck (3 + i)) cfg ?ap tr ?s1)"
  have ok: "bans_ok s" "bans_ok ?s2"
    using assms(1) AllowRate_sok [OF BannedFrom_sok [OF assms(1)]] by (simp_all add: shield_ok_def)
  note b1 = BannedFrom_blocked [OF ok(1) assms(3), of env ?ap tr]
  have ck5: "\<forall>i. ck (5 + i) \<le> t" using assms(3) by simp
  note b2 = CheckScanner_datagram_scope [OF ok(2) assms(2) ck5, of cfg ?ap ua]
  show ?thesis
    using b1 b2 by (auto simp: CheckFrom_seq Let_def case_prod_beta)
qed

theorem udp_scanner_ban_scope_witness:
  "shield_ok new_shield \<and>
   blocked (sh_bans (fst (CheckFrom demo_env (\<lambda>_. 0) demo_cfg (V4 1, 5060) ''sipvicious'' ''udp'' new_shield))) (V4 1) 10 =
   blocked (sh_bans new_shield) (V4 1) 10"
  using udp_scanner_ban_scope [OF shield_ok_new, of demo_env "''udp''" "\<lambda>_. 0" 10 demo_cfg "(V4 1, 5060)" "''sipvicious''" "V4 1"]
  by (simp add: text_eval)


definition demo_struck :: shield where
  "demo_struck = (let key = \<lparr>ok_src = V4 1, ok_reason = StrikeRegister\<rparr> in
     new_shield\<lparr>strikeStr := [(StrikeRegister, ''1/10s'')],
       strikeOpts := [(StrikeRegister, \<lparr>sl_n = 1, sl_window = 10 * second, sl_off = False\<rparr>)],
       sh_offenders := new_offender_table\<lparr>ot_lru := \<lparr>entries = [(key,
         \<lparr>of_start = 50, of_window = 10 * second, of_count = 1, of_over = False, of_parts = []\<rparr>)], order = [key]\<rparr>\<rparr>\<rparr>)"


text \<open>
  C32: while an address is a carrier's, no ban of it comes and none goes. Over any run during which
  every call finds the address in the carrier snapshot (the snapshot may change otherwise), from any
  state: a lookup of it afterwards, on any transport, answers what it answered before the run,
  whatever fingerprints and strikes were attributed to it; a strike on it reports no ban; and if it
  was not banned before, the front door decides its requests by the rate limit alone. So an address that was
  a carrier's from the start is never banned; one banned before it resolved to a carrier stays
  banned until the ban expires.
\<close>

theorem carrier_bans_frozen:
  assumes "shield_ok s" and "isCarrier env (unmap a)" and "list_all (\<lambda>(env, x). isCarrier env (unmap a)) xs"
    and "list_all (\<lambda>(env, x). ev_by (ck 0) x) xs" and "\<forall>i j. i < j \<longrightarrow> ck i \<le> ck j"
  shows "snd (BannedFrom env ck (a, p) tr (run_ops live_step xs s)) = snd (BannedFrom env ck (a, p) tr s) \<and>
    \<not> snd (StrikeOn env ck cfg a r tr (run_ops live_step xs s)) \<and>
    (\<not> snd (BannedFrom env ck (a, p) tr s) \<longrightarrow>
      (snd (CheckFrom env ck cfg (a, p) ua tr (run_ops live_step xs s)) = Allow \<longleftrightarrow>
       snd (AllowRate env (\<lambda>i. ck (3 + i)) cfg (unmap a, p) tr (run_ops live_step xs s))))"
proof -
  let ?s = "run_ops live_step xs s"
  have ok: "shield_ok ?s" "bans_ok ?s" "bans_ok s"
    using assms(1) shield_run_ok [OF assms(1), of xs] by (simp_all add: shield_ok_def)
  have le: "ck 0 \<le> ck i" for i using assms(5) by (cases i) auto
  have later: "list_all (\<lambda>(env, x). ev_by (ck i) x) xs" for i
    using assms(4) ev_by_mono [OF _ le] by (auto simp: list_all_iff)
  note frozen = carrier_frozen [OF assms(1,3) later]
  have at: "banned_at env ck (a, p) tr ?s = banned_at env ck (a, p) tr s"
    by (simp add: banned_at_def frozen)
  have "ck 0 \<le> ck 5" "ck 1 \<le> ck 6" "ck 2 \<le> ck 7" using assms(5) by simp_all
  then have anti: "banned_at env (\<lambda>i. ck (5 + i)) (a, p) tr ?s \<Longrightarrow> banned_at env ck (a, p) tr ?s"
    by (auto simp: banned_at_def intro: blocked_anti)
  have "\<not> snd (StrikeOn env ck cfg a r tr ?s)"
    using assms(2) by (simp add: StrikeOn_def strike_def Let_def)
  then show ?thesis
    using at anti assms(2) check_from_allow [OF ok(1) assms(5)] by (auto simp: BannedFrom_result [OF ok(2)] BannedFrom_result [OF ok(3)])
qed

theorem carrier_bans_frozen_witness:
  "\<not> snd (BannedFrom demo_env int (V4 9, 5060) ''udp''
     (run_ops live_step [(demo_env, EvCheckScanner (\<lambda>_. 0) demo_cfg (V4 9, 5060) ''sipvicious'' ''tcp'')] new_shield)) \<and>
   snd (BannedFrom demo_env int (V4 9, 5060) ''udp'' (run_ops live_step [] banned_before))"
proof -
  have new: "\<not> snd (BannedFrom demo_env int (V4 9, 5060) ''udp'' new_shield)"
    by (simp add: BannedFrom_result [OF bans_ok_new] banned_at_def) (simp add: new_shield_def new_banlist_def blocked_def)
  have ok: "shield_ok banned_before"
    using shield_ok_new by (simp add: banned_before_def shield_ok_def bans_ok_def ban_inv_def wf_map_def banCap_def)
  have "snd (BannedFrom demo_env int (V4 9, 5060) ''udp'' banned_before)"
    using ok by (simp add: BannedFrom_result shield_ok_def banned_at_def banned_before_def blocked_def)
  then show ?thesis
    using new carrier_bans_frozen [OF shield_ok_new, of demo_env "V4 9"
        "[(demo_env, EvCheckScanner (\<lambda>_. 0) demo_cfg (V4 9, 5060) ''sipvicious'' ''tcp'')]" int 5060 "''udp''"]
      carrier_bans_frozen [OF ok, of demo_env "V4 9" "[]" int 5060 "''udp''"]
    by (simp add: demo_env_def)
qed

text \<open>
  The shield's memory is bounded whoever calls it and however often: after any sequence of
  calls the tables together hold at most their caps.
\<close>

theorem shield_memory_bounded:
  "shield_entries (run_ops live_step xs new_shield) \<le> bucketCap + 3 * banCap + offenderCap + aorCap"
  by (rule sm.reach_bound)

text \<open>
  Walking the ban list page by page shows every live ban exactly once and in order. The
  pages of any size the API admits, taken at consecutive offsets until they cover the total,
  concatenate to the whole list; the list is a permutation of the live rows of the three tables,
  no row sorts before an earlier one, and the reported total is its length.
\<close>

theorem bans_pages_cover:
  assumes "1 \<le> n" and "n \<le> maxBanPage" and "length (all_bans env ck s) \<le> m * nat n"
  shows "concat (map (\<lambda>i. fst (Bans env ck n (int (i * nat n)) s)) [0..<m]) = all_bans env ck s \<and>
    mset (all_bans env ck s) =
      mset (map (ban_row (show_addr env) BanKindIP) (ban_live ck (sh_bans s))) +
      mset (map (ban_row (show_addrport env) BanKindUDPSocket) (ban_live (\<lambda>_. ck 1) (sh_socketBans s))) +
      mset (map (ban_row (show_addr env) BanKindUDPIP) (ban_live (\<lambda>_. ck 2) (sh_udpBans s))) \<and>
    sorted_wrt (\<lambda>a b. \<not> ban_info_less b a) (all_bans env ck s) \<and>
    snd (Bans env ck n 0 s) = length (all_bans env ck s)"
proof -
  have "mset (all_bans env ck s) = mset (map (ban_row (show_addr env) BanKindUDPIP) (ban_live (\<lambda>_. ck 2) (sh_udpBans s)) @
      map (ban_row (show_addr env) BanKindIP) (ban_live ck (sh_bans s)) @
      map (ban_row (show_addrport env) BanKindUDPSocket) (ban_live (\<lambda>_. ck 1) (sh_socketBans s)))"
    unfolding all_bans_def sortBans_def by (rule mset_sort_slice)
  then show ?thesis
    using concat_pages [OF assms(1,2), of env ck s m] assms(3) sorted_all_bans [of env ck s]
    by (simp add: Bans_def Let_def add_ac)
qed

theorem bans_pages_cover_witness:
  "let s = new_shield\<lparr>sh_bans := \<lparr>until = [(V4 1, \<lparr>be_until = 9, be_since = 0, be_reason = ''scanner''\<rparr>)],
         last_sweep = 0, overflow = 0\<rparr>\<rparr> in
   concat (map (\<lambda>i. fst (Bans demo_env (\<lambda>_. 1) 2 (int (i * nat 2)) s)) [0..<1]) = all_bans demo_env (\<lambda>_. 1) s \<and>
   length (all_bans demo_env (\<lambda>_. 1) s) = 1"
proof -
  let ?s = "new_shield\<lparr>sh_bans := \<lparr>until = [(V4 1, \<lparr>be_until = 9, be_since = 0, be_reason = ''scanner''\<rparr>)],
         last_sweep = 0, overflow = 0\<rparr>\<rparr>"
  have 1: "length (all_bans demo_env (\<lambda>_. 1) ?s) = 1"
    by (simp add: all_bans_def sortBans_def ban_live_def new_shield_def new_banlist_def t_before_def)
  show ?thesis
    using bans_pages_cover [of 2 demo_env "\<lambda>_. 1" ?s 1] 1 by (simp add: maxBanPage_def Let_def)
qed

end
