(* ===== verification/Cooldown.thy ===== *)
theory Cooldown
  imports FS_Prelude
begin

text \<open>
  Passive upstream health, \<^verbatim>\<open>src/internal/edge/cooldown.go\<close>: the cooldown of each switch node
  and its REGISTER circuit breaker. An operation that reads the clock takes the reading \<open>now\<close>.

  The breaker of one name is abstracted to a \<open>phase\<close> and the inductive relation \<open>brk_step\<close>
  says which calls, with which answers, a phase admits. \<open>cd_refines\<close> shows that every operation
  of the table is such a step of its name and leaves every other name alone; the properties are
  proved on the relation and carried over.
\<close>

section \<open>Model\<close>

record reg_breaker =
  rb_fails :: nat
  rb_level :: nat
  rb_open :: bool
  rb_openUntil :: gtime
  rb_probeBy :: gtime
  rb_lastWarn :: gtime

record cooldown_table =
  cd_until :: "(string, gtime) gomap"
  cd_lastFail :: "(string, gtime) gomap"
  cd_reg :: "(string, reg_breaker) gomap"

definition newCooldownTable :: cooldown_table where
  "newCooldownTable = \<lparr>cd_until = [], cd_lastFail = [], cd_reg = []\<rparr>"

definition new_breaker :: reg_breaker where
  "new_breaker = \<lparr>rb_fails = 0, rb_level = 0, rb_open = False, rb_openUntil = t_zero, rb_probeBy = t_zero,
     rb_lastWarn = t_zero\<rparr>"

definition registerBreakerThreshold :: nat where
  "registerBreakerThreshold = 3"

definition registerWarnWindow :: dur where
  "registerWarnWindow = 30 * second"

definition registerBreakerBackoff :: "dur list" where
  "registerBreakerBackoff = [30 * second, minute, 5 * minute]"

definition RegisterAllow :: "gtime \<Rightarrow> string \<Rightarrow> dur \<Rightarrow> cooldown_table \<Rightarrow> cooldown_table \<times> bool \<times> bool" where
  "RegisterAllow now name probeBudget h =
     (case m_get (cd_reg h) name of
        None \<Rightarrow> (h, True, False)
      | Some b \<Rightarrow>
          if \<not> rb_open b then (h, True, False)
          else if t_before now (rb_openUntil b) \<or> t_before now (rb_probeBy b) then (h, False, False)
          else (h\<lparr>cd_reg := m_set name (b\<lparr>rb_probeBy := t_add now probeBudget\<rparr>) (cd_reg h)\<rparr>, True, True))"

definition RegisterRelease :: "string \<Rightarrow> cooldown_table \<Rightarrow> cooldown_table" where
  "RegisterRelease name h =
     (case m_get (cd_reg h) name of
        None \<Rightarrow> h
      | Some b \<Rightarrow> h\<lparr>cd_reg := m_set name (b\<lparr>rb_probeBy := t_zero\<rparr>) (cd_reg h)\<rparr>)"

definition RegisterAnswered :: "string \<Rightarrow> cooldown_table \<Rightarrow> cooldown_table" where
  "RegisterAnswered name h =
     (case m_get (cd_reg h) name of
        None \<Rightarrow> h
      | Some b \<Rightarrow> h\<lparr>cd_reg := m_set name (b\<lparr>rb_fails := 0, rb_level := 0, rb_open := False,
          rb_openUntil := t_zero, rb_probeBy := t_zero\<rparr>) (cd_reg h)\<rparr>)"

text \<open>The window of the next opening: \<^verbatim>\<open>registerBreakerBackoff[min(b.level, len-1)]\<close>.\<close>

definition backoff :: "nat \<Rightarrow> dur" where
  "backoff level = registerBreakerBackoff ! min level (length registerBreakerBackoff - 1)"

definition RegisterUnanswered :: "gtime \<Rightarrow> string \<Rightarrow> bool \<Rightarrow> cooldown_table \<Rightarrow>
    cooldown_table \<times> bool \<times> dur \<times> bool" where
  "RegisterUnanswered now name probe h =
     (let b0 = (case m_get (cd_reg h) name of None \<Rightarrow> new_breaker | Some b \<Rightarrow> b);
          b1 = b0\<lparr>rb_fails := rb_fails b0 + 1\<rparr>;
          opened = ((rb_open b1 \<and> probe) \<or> (\<not> rb_open b1 \<and> rb_fails b1 \<ge> registerBreakerThreshold));
          window = (if opened then backoff (rb_level b1) else 0);
          b2 = (if opened then b1\<lparr>rb_level := rb_level b1 + 1, rb_open := True,
                  rb_openUntil := t_add now window, rb_probeBy := t_zero\<rparr> else b1);
          warn = (opened \<or> t_sub now (rb_lastWarn b2) \<ge> registerWarnWindow);
          b3 = (if warn then b2\<lparr>rb_lastWarn := now\<rparr> else b2)
      in (h\<lparr>cd_reg := m_set name b3 (cd_reg h)\<rparr>, opened, window, warn))"

definition Available :: "gtime \<Rightarrow> string \<Rightarrow> cooldown_table \<Rightarrow> bool" where
  "Available now name h = (case m_get (cd_until h) name of None \<Rightarrow> True | Some t \<Rightarrow> \<not> t_before now t)"

definition Penalize :: "gtime \<Rightarrow> string \<Rightarrow> dur \<Rightarrow> cooldown_table \<Rightarrow> cooldown_table" where
  "Penalize now name cooldown h =
     h\<lparr>cd_until := m_set name (t_add now cooldown) (cd_until h), cd_lastFail := m_set name now (cd_lastFail h)\<rparr>"

definition Recover :: "string \<Rightarrow> cooldown_table \<Rightarrow> cooldown_table" where
  "Recover name h = h\<lparr>cd_until := m_del name (cd_until h)\<rparr>"

definition NodeHealthy :: string where
  "NodeHealthy = ''healthy''"

definition NodeCoolingDown :: string where
  "NodeCoolingDown = ''cooling_down''"

record switch_node_info =
  ni_Address :: string
  ni_State :: string
  ni_CooldownRemaining :: dur
  ni_CooldownUntil :: gtime
  ni_LastFailure :: gtime

definition node_info :: "gtime \<Rightarrow> cooldown_table \<Rightarrow> string \<Rightarrow> switch_node_info" where
  "node_info now h n =
     (let info = \<lparr>ni_Address = n, ni_State = NodeHealthy, ni_CooldownRemaining = 0, ni_CooldownUntil = t_zero,
            ni_LastFailure = m_get0 t_zero (cd_lastFail h) n\<rparr>;
          until0 = m_get0 t_zero (cd_until h) n;
          (til, ok) = (case m_get (cd_reg h) n of
             Some b \<Rightarrow> if rb_open b \<and> t_after (rb_openUntil b) until0 then (rb_openUntil b, True)
                       else (until0, m_get (cd_until h) n \<noteq> None)
           | None \<Rightarrow> (until0, m_get (cd_until h) n \<noteq> None))
      in if ok \<and> t_before now til
         then info\<lparr>ni_State := NodeCoolingDown, ni_CooldownUntil := til, ni_CooldownRemaining := t_sub til now\<rparr>
         else info)"

definition snapshot :: "string list \<Rightarrow> gtime \<Rightarrow> cooldown_table \<Rightarrow> switch_node_info list" where
  "snapshot names now h = map (node_info now h) names"

text \<open>The calls that change the table.\<close>

datatype cd_op =
    CAllow gtime string dur
  | CRelease string
  | CAnswered string
  | CUnanswered gtime string bool
  | CPenalize gtime string dur
  | CRecover string

fun cd_step :: "cd_op \<Rightarrow> cooldown_table \<Rightarrow> cooldown_table" where
  "cd_step (CAllow now n d) h = fst (RegisterAllow now n d h)"
| "cd_step (CRelease n) h = RegisterRelease n h"
| "cd_step (CAnswered n) h = RegisterAnswered n h"
| "cd_step (CUnanswered now n p) h = fst (RegisterUnanswered now n p h)"
| "cd_step (CPenalize now n d) h = Penalize now n d h"
| "cd_step (CRecover n) h = Recover n h"

section \<open>The breaker as a state machine\<close>

datatype phase = Closed nat | Opened nat gtime gtime

datatype brk_event =
    Dial gtime dur bool bool
  | Release
  | Answer
  | Silence gtime bool bool dur

inductive brk_step :: "phase \<Rightarrow> brk_event \<Rightarrow> phase \<Rightarrow> bool" where
  dial_closed: "brk_step (Closed n) (Dial t d True False) (Closed n)"
| dial_refused: "t < u \<or> t < p \<Longrightarrow> brk_step (Opened l u p) (Dial t d False False) (Opened l u p)"
| dial_probe: "u \<le> t \<Longrightarrow> p \<le> t \<Longrightarrow> brk_step (Opened l u p) (Dial t d True True) (Opened l u (t_add t d))"
| release_closed: "brk_step (Closed n) Release (Closed n)"
| release_open: "brk_step (Opened l u p) Release (Opened l u t_zero)"
| answer: "brk_step ph Answer (Closed 0)"
| silence_count: "n + 1 < registerBreakerThreshold \<Longrightarrow> brk_step (Closed n) (Silence t pr False 0) (Closed (n + 1))"
| silence_open: "n + 1 = registerBreakerThreshold \<Longrightarrow>
    brk_step (Closed n) (Silence t pr True (backoff 0)) (Opened 1 (t_add t (backoff 0)) t_zero)"
| silence_stray: "brk_step (Opened l u p) (Silence t False False 0) (Opened l u p)"
| silence_reopen: "brk_step (Opened l u p) (Silence t True True (backoff l)) (Opened (l + 1) (t_add t (backoff l)) t_zero)"

inductive_simps brk_closed: "brk_step (Closed n) e ph"
inductive_simps brk_opened: "brk_step (Opened l u p) e ph"
inductive_cases brk_dialE: "brk_step ph (Dial t d a pr) ph'"

definition phase_of :: "string \<Rightarrow> cooldown_table \<Rightarrow> phase" where
  "phase_of n h = (case m_get (cd_reg h) n of
     None \<Rightarrow> Closed 0
   | Some b \<Rightarrow> if rb_open b then Opened (rb_level b) (rb_openUntil b) (rb_probeBy b) else Closed (rb_fails b))"

text \<open>The breaker call an operation makes, with the answer the table gives.\<close>

fun cd_event :: "cd_op \<Rightarrow> cooldown_table \<Rightarrow> (string \<times> brk_event) option" where
  "cd_event (CAllow now n d) h = (let (h', a, p) = RegisterAllow now n d h in Some (n, Dial now d a p))"
| "cd_event (CRelease n) h = Some (n, Release)"
| "cd_event (CAnswered n) h = Some (n, Answer)"
| "cd_event (CUnanswered now n p) h = (let (h', op, w, wn) = RegisterUnanswered now n p h in Some (n, Silence now p op w))"
| "cd_event (CPenalize now n d) h = None"
| "cd_event (CRecover n) h = None"

text \<open>A breaker that is not open is at level 0 and below the threshold.\<close>

definition brk_inv :: "reg_breaker \<Rightarrow> bool" where
  "brk_inv b \<longleftrightarrow> (rb_open b \<or> rb_level b = 0 \<and> rb_fails b < registerBreakerThreshold)"

definition cd_ok :: "cooldown_table \<Rightarrow> bool" where
  "cd_ok h \<longleftrightarrow> (\<forall>n b. m_get (cd_reg h) n = Some b \<longrightarrow> brk_inv b)"

lemma cd_ok_new [simp]: "cd_ok newCooldownTable"
  by (simp add: cd_ok_def newCooldownTable_def)

lemma cd_okD: "cd_ok h \<Longrightarrow> m_get (cd_reg h) n = Some b \<Longrightarrow> brk_inv b"
  by (auto simp: cd_ok_def)

lemma cd_step_ok:
  assumes "cd_ok h"
  shows "cd_ok (cd_step x h)"
  using assms cd_okD [OF assms]
  by (cases x)
    (auto simp: cd_ok_def RegisterAllow_def RegisterRelease_def RegisterAnswered_def RegisterUnanswered_def Penalize_def
      Recover_def Let_def brk_inv_def new_breaker_def registerBreakerThreshold_def split: option.splits if_splits)

lemma phase_of_new [simp]: "phase_of n newCooldownTable = Closed 0"
  by (simp add: phase_of_def newCooldownTable_def)

text \<open>The simulation: one call is one step of its name, and no step of any other.\<close>

lemma cd_refines:
  assumes "cd_ok h"
  shows "case cd_event x h of
      None \<Rightarrow> phase_of n (cd_step x h) = phase_of n h
    | Some (m, e) \<Rightarrow> if n = m then brk_step (phase_of n h) e (phase_of n (cd_step x h))
        else phase_of n (cd_step x h) = phase_of n h"
  using cd_okD [OF assms, of n]
  by (cases x)
    (auto simp: phase_of_def RegisterAllow_def RegisterRelease_def RegisterAnswered_def RegisterUnanswered_def
      Penalize_def Recover_def Let_def brk_inv_def new_breaker_def registerBreakerThreshold_def time_defs
      brk_closed brk_opened intro: brk_step.intros split: option.splits if_splits)

section \<open>Runs\<close>

inductive brk_run :: "phase \<Rightarrow> brk_event list \<Rightarrow> phase \<Rightarrow> bool" where
  run_nil: "brk_run ph [] ph"
| run_cons: "brk_step ph e ph' \<Longrightarrow> brk_run ph' es ph'' \<Longrightarrow> brk_run ph (e # es) ph''"

inductive_cases brk_run_consE: "brk_run ph (e # es) ph''"

text \<open>The breaker calls on \<open>n\<close> during a run of the table.\<close>

fun cd_trace :: "string \<Rightarrow> cd_op list \<Rightarrow> cooldown_table \<Rightarrow> brk_event list" where
  "cd_trace n [] h = []"
| "cd_trace n (x # xs) h = (case cd_event x h of
     None \<Rightarrow> cd_trace n xs (cd_step x h)
   | Some (m, e) \<Rightarrow> if m = n then e # cd_trace n xs (cd_step x h) else cd_trace n xs (cd_step x h))"

text \<open>The windows of the openings, in order.\<close>

fun windows :: "brk_event list \<Rightarrow> dur list" where
  "windows [] = []"
| "windows (Silence t pr True w # es) = w # windows es"
| "windows (_ # es) = windows es"

fun level_of :: "phase \<Rightarrow> nat" where
  "level_of (Closed n) = 0"
| "level_of (Opened l u p) = l"

fun ev_time_from :: "gtime \<Rightarrow> brk_event \<Rightarrow> bool" where
  "ev_time_from t0 (Silence t pr op w) = (t0 \<le> t)"
| "ev_time_from t0 _ = True"

fun op_from :: "gtime \<Rightarrow> cd_op \<Rightarrow> bool" where
  "op_from t0 (CUnanswered t n pr) = (t0 \<le> t)"
| "op_from t0 _ = True"

text \<open>A dial that was allowed.\<close>

fun dialed :: "brk_event \<Rightarrow> bool" where
  "dialed (Dial t d a pr) = a"
| "dialed _ = False"

text \<open>What may happen while a probe is out and undecided, before instant \<open>t1\<close>.\<close>

fun undecided :: "string \<Rightarrow> gtime \<Rightarrow> cd_op \<Rightarrow> bool" where
  "undecided n t1 (CAllow t m d) = (m = n \<longrightarrow> t < t1)"
| "undecided n t1 (CRelease m) = (m \<noteq> n)"
| "undecided n t1 (CAnswered m) = (m \<noteq> n)"
| "undecided n t1 (CUnanswered t m pr) = (m = n \<longrightarrow> \<not> pr)"
| "undecided n t1 _ = True"

fun undecided_ev :: "gtime \<Rightarrow> brk_event \<Rightarrow> bool" where
  "undecided_ev t1 (Dial t d a pr) = (t < t1)"
| "undecided_ev t1 (Silence t pr op w) = (\<not> pr)"
| "undecided_ev t1 _ = False"

lemma cd_run_refines:
  "cd_ok h \<Longrightarrow> brk_run (phase_of n h) (cd_trace n xs h) (phase_of n (run_ops cd_step xs h))"
proof (induction xs arbitrary: h)
  case Nil
  then show ?case by (simp add: run_nil)
next
  case (Cons x xs)
  have IH: "brk_run (phase_of n (cd_step x h)) (cd_trace n xs (cd_step x h)) (phase_of n (run_ops cd_step (x # xs) h))"
    using Cons.IH [OF cd_step_ok [OF Cons.prems]] by simp
  show ?case
    using cd_refines [OF Cons.prems, of n x] IH by (auto split: option.splits if_splits intro: run_cons)
qed

lemma cd_run_ok: "cd_ok h \<Longrightarrow> cd_ok (run_ops cd_step xs h)"
  by (induction xs arbitrary: h) (simp_all add: cd_step_ok)

lemma brk_step_windows:
  assumes "brk_step ph e ph'" "e \<noteq> Answer"
  shows "windows (e # es) = map backoff [level_of ph..<level_of ph'] @ windows es \<and> level_of ph \<le> level_of ph'"
  using assms by (cases rule: brk_step.cases) auto

lemma brk_run_windows:
  "brk_run ph es ph' \<Longrightarrow> Answer \<notin> set es \<Longrightarrow>
   windows es = map backoff [level_of ph..<level_of ph'] \<and> level_of ph \<le> level_of ph'"
proof (induction rule: brk_run.induct)
  case (run_cons ph e ph' es ph'')
  then have "windows (e # es) = map backoff ([level_of ph..<level_of ph'] @ [level_of ph'..<level_of ph''])"
    "level_of ph \<le> level_of ph'" "level_of ph' \<le> level_of ph''"
    using brk_step_windows [of ph e ph' es] by auto
  then show ?case
    using upt_add_eq_append [of "level_of ph" "level_of ph'" "level_of ph'' - level_of ph'"] by simp
qed simp

lemma backoff_nonneg: "0 \<le> backoff l"
  and backoff_mono: "k \<le> l \<Longrightarrow> backoff k \<le> backoff l"
  by (auto simp: backoff_def registerBreakerBackoff_def min_def second_def minute_def nth_Cons' split: if_splits)

text \<open>While unanswered, an open breaker stays open and its window never moves back.\<close>

lemma brk_run_open:
  "brk_run ph es ph' \<Longrightarrow> ph = Opened l u p \<Longrightarrow> Answer \<notin> set es \<Longrightarrow> list_all (ev_time_from t0) es \<Longrightarrow>
   v \<le> u \<Longrightarrow> v \<le> t_add t0 (backoff l) \<Longrightarrow> \<exists>l' u' p'. ph' = Opened l' u' p' \<and> v \<le> u'"
proof (induction arbitrary: l u p rule: brk_run.induct)
  case (run_cons ph e ph' es ph'')
  have "\<exists>l1 u1 p1. ph' = Opened l1 u1 p1 \<and> v \<le> u1 \<and> v \<le> t_add t0 (backoff l1)"
    using run_cons.hyps(1) run_cons.prems backoff_mono [of l "l + 1"]
    by (cases rule: brk_step.cases) (auto simp: t_add_def)
  then show ?case
    using run_cons.IH run_cons.prems by auto
qed simp

text \<open>While a probe is undecided and its budget lasts, nobody else dials.\<close>

lemma brk_run_probe:
  "brk_run ph es ph' \<Longrightarrow> ph = Opened l u p \<Longrightarrow> list_all (undecided_ev p) es \<Longrightarrow> \<forall>e \<in> set es. \<not> dialed e"
proof (induction arbitrary: l u p rule: brk_run.induct)
  case (run_cons ph e ph' es ph'')
  have "ph' = ph \<and> \<not> dialed e"
    using run_cons.hyps(1) run_cons.prems by (cases rule: brk_step.cases) auto
  then show ?case
    using run_cons.IH run_cons.prems by auto
qed simp

lemma trace_no_answer: "CAnswered n \<notin> set xs \<Longrightarrow> Answer \<notin> set (cd_trace n xs h)"
proof (induction xs arbitrary: h)
  case (Cons x xs)
  then show ?case by (cases x) (auto simp: Let_def split: prod.splits)
qed simp

lemma trace_time: "list_all (op_from t0) xs \<Longrightarrow> list_all (ev_time_from t0) (cd_trace n xs h)"
proof (induction xs arbitrary: h)
  case (Cons x xs)
  then show ?case by (cases x) (auto simp: Let_def split: prod.splits)
qed simp

lemma trace_undecided: "list_all (undecided n t1) xs \<Longrightarrow> list_all (undecided_ev t1) (cd_trace n xs h)"
proof (induction xs arbitrary: h)
  case (Cons x xs)
  then show ?case by (cases x) (auto simp: Let_def split: prod.splits)
qed simp

lemma allow_phase:
  assumes "cd_ok h"
  shows "brk_step (phase_of n h) (Dial t d (fst (snd (RegisterAllow t n d h))) (snd (snd (RegisterAllow t n d h))))
    (phase_of n (fst (RegisterAllow t n d h)))"
  using cd_refines [OF assms, of n "CAllow t n d"] by (simp add: Let_def case_prod_beta)

lemma unanswered_phase:
  assumes "cd_ok h"
  shows "brk_step (phase_of n h) (Silence t p (fst (snd (RegisterUnanswered t n p h)))
      (fst (snd (snd (RegisterUnanswered t n p h))))) (phase_of n (fst (RegisterUnanswered t n p h)))"
  using cd_refines [OF assms, of n "CUnanswered t n p"] by (simp add: Let_def case_prod_beta)

section \<open>Properties\<close>

text \<open>A table with one breaker, two silences in, and the same after the third.\<close>

definition demo_two :: cooldown_table where
  "demo_two = newCooldownTable\<lparr>cd_reg := [(''a'', new_breaker\<lparr>rb_fails := 2, rb_lastWarn := 10\<rparr>)]\<rparr>"

definition demo_open :: cooldown_table where
  "demo_open = newCooldownTable\<lparr>cd_reg := [(''a'', new_breaker\<lparr>rb_fails := 3, rb_level := 1, rb_open := True,
     rb_openUntil := 30 + 30 * second, rb_lastWarn := 30\<rparr>)]\<rparr>"

lemma demo_ok: "cd_ok demo_two" "cd_ok demo_open"
  by (auto simp: demo_two_def demo_open_def cd_ok_def newCooldownTable_def new_breaker_def brk_inv_def
      registerBreakerThreshold_def split: if_splits)

text \<open>
  C17: the REGISTER breaker of every node follows the documented state machine. Whatever calls
  are made on the table, in any order and for any nodes, the calls on node \<open>n\<close> with the answers
  they got are a run of \<open>brk_step\<close> from the closed state, ending in the phase the table holds:
  closed allows every dial, the third consecutive silence opens, an open breaker refuses until
  its window and any probe in flight have passed and then admits one probe, a failed probe
  re-opens it, a stray silence does not, and any answer closes it.
\<close>

theorem breaker_refines_machine:
  "brk_run (Closed 0) (cd_trace n xs newCooldownTable) (phase_of n (run_ops cd_step xs newCooldownTable))"
  using cd_run_refines [of newCooldownTable n xs] by simp

text \<open>
  The backoff escalates and never skips. As long as node \<open>n\<close> does not answer, the windows
  of its successive openings are exactly 30 s, 1 min, 5 min, 5 min, ..., whatever stray silences,
  refused dials, released probes and traffic of other nodes come in between.
\<close>

theorem breaker_backoff_sequence:
  fixes xs :: "cd_op list"
  assumes "CAnswered n \<notin> set xs"
  defines "ws \<equiv> windows (cd_trace n xs newCooldownTable)"
  shows "ws = map backoff [0..<length ws] \<and>
    ws = take (length ws) ([30 * second, minute] @ replicate (length ws) (5 * minute))"
proof -
  have ws: "ws = map backoff [0..<level_of (phase_of n (run_ops cd_step xs newCooldownTable))]"
    using brk_run_windows [OF cd_run_refines [of newCooldownTable n xs]] trace_no_answer [OF assms(1)]
    by (simp add: ws_def)
  have "map backoff [0..<k] = take k ([30 * second, minute] @ replicate k (5 * minute))" for k
    by (rule nth_equalityI) (auto simp: backoff_def registerBreakerBackoff_def nth_Cons' min_def nth_append)
  then show ?thesis
    using ws by (metis diff_zero length_map length_upt)
qed

theorem breaker_backoff_sequence_witness:
  "windows (cd_trace ''a'' [CUnanswered 1 ''a'' False, CUnanswered 2 ''a'' False, CUnanswered 3 ''a'' False,
     CUnanswered 4 ''a'' True] newCooldownTable) = [30 * second, minute]"
proof -
  let ?xs = "[CUnanswered 1 ''a'' False, CUnanswered 2 ''a'' False, CUnanswered 3 ''a'' False, CUnanswered 4 ''a'' True]"
  have 2: "length (windows (cd_trace ''a'' ?xs newCooldownTable)) = 2"
    by code_simp
  have "CAnswered ''a'' \<notin> set ?xs" by simp
  from breaker_backoff_sequence [OF this, unfolded 2, THEN conjunct2] show ?thesis
    by (simp del: cd_trace.simps windows.simps add: numeral_2_eq_2)
qed

text \<open>
  An open breaker really stops the dialing. When an unanswered attempt at \<open>now\<close> opens the
  breaker of \<open>n\<close> for \<open>w\<close>, no REGISTER to \<open>n\<close> is allowed before \<open>now + w\<close> unless \<open>n\<close> answers,
  whatever else happens to the table: other silences (a late probe included, which only moves
  the window on), releases, cooldowns, recoveries and other nodes.
\<close>

theorem breaker_open_window_respected:
  assumes "cd_ok h" and "snd (RegisterUnanswered now n pr h) = (True, w, warn)"
    and "CAnswered n \<notin> set xs" and "list_all (op_from now) xs" and "t < t_add now w"
  shows "snd (RegisterAllow t n d (run_ops cd_step xs (fst (RegisterUnanswered now n pr h)))) = (False, False)"
proof -
  let ?h = "fst (RegisterUnanswered now n pr h)"
  let ?h' = "run_ops cd_step xs ?h"
  have ok: "cd_ok ?h" using cd_step_ok [OF assms(1), of "CUnanswered now n pr"] by simp
  have "brk_step (phase_of n h) (Silence now pr True w) (phase_of n ?h)"
    using unanswered_phase [OF assms(1), of n now pr] assms(2) by simp
  then obtain l where ph: "phase_of n ?h = Opened (Suc l) (t_add now w) t_zero" "w = backoff l"
    by (cases rule: brk_step.cases) auto
  have "t_add now w \<le> t_add now (backoff (Suc l))"
    using ph(2) backoff_mono [of l "Suc l"] by (simp add: t_add_def)
  then obtain l' u' p' where "phase_of n ?h' = Opened l' u' p'" "t_add now w \<le> u'"
    using brk_run_open [OF cd_run_refines [OF ok, of n xs] ph(1) trace_no_answer [OF assms(3)] trace_time [OF assms(4)],
        of "t_add now w"] by blast
  then show ?thesis
    using allow_phase [OF cd_run_ok [OF ok], of n xs t d] assms(5)
    by (cases "snd (RegisterAllow t n d ?h')") (auto simp: brk_opened)
qed

theorem breaker_open_window_respected_witness:
  "snd (RegisterUnanswered 30 ''a'' False demo_two) = (True, 30 * second, True) \<and>
   snd (RegisterAllow 1000 ''a'' second (run_ops cd_step [CRelease ''a'', CRecover ''a'']
     (fst (RegisterUnanswered 30 ''a'' False demo_two)))) = (False, False)"
proof -
  have 1: "snd (RegisterUnanswered 30 ''a'' False demo_two) = (True, 30 * second, True)"
    by (simp add: RegisterUnanswered_def newCooldownTable_def new_breaker_def registerBreakerThreshold_def
        backoff_def registerBreakerBackoff_def demo_two_def Let_def)
  show ?thesis
    using 1 breaker_open_window_respected [OF demo_ok(1) 1, of "[CRelease ''a'', CRecover ''a'']" 1000 second]
    by (simp add: t_add_def second_def)
qed

text \<open>
  C38: at most one half-open probe at a time. After \<^verbatim>\<open>RegisterAllow\<close> admitted a probe to \<open>n\<close> at
  \<open>t\<close> with budget \<open>d\<close>, and until that probe is answered, fails or is released, no further dial to
  \<open>n\<close> before \<open>t + d\<close> is allowed, by any number of concurrent callers.
\<close>

theorem single_probe_in_flight:
  assumes "cd_ok h" and "snd (RegisterAllow t n d h) = (True, True)" and "list_all (undecided n (t_add t d)) xs"
  shows "\<forall>e \<in> set (cd_trace n xs (fst (RegisterAllow t n d h))). \<not> dialed e"
proof -
  let ?h = "fst (RegisterAllow t n d h)"
  have ok: "cd_ok ?h" using cd_step_ok [OF assms(1), of "CAllow t n d"] by simp
  have "brk_step (phase_of n h) (Dial t d True True) (phase_of n ?h)"
    using allow_phase [OF assms(1), of n t d] assms(2) by simp
  then obtain l u where ph: "phase_of n ?h = Opened l u (t_add t d)"
    by (cases rule: brk_step.cases) auto
  show ?thesis
    by (rule brk_run_probe [OF cd_run_refines [OF ok] ph trace_undecided [OF assms(3)]])
qed

theorem single_probe_in_flight_witness:
  "let xs = [CAllow (minute + 1) ''a'' second, CAllow (minute + 2) ''a'' second] in
   snd (RegisterAllow minute ''a'' second demo_open) = (True, True) \<and>
   length (cd_trace ''a'' xs (fst (RegisterAllow minute ''a'' second demo_open))) = 2 \<and>
   (\<forall>e \<in> set (cd_trace ''a'' xs (fst (RegisterAllow minute ''a'' second demo_open))). \<not> dialed e)"
proof -
  let ?xs = "[CAllow (minute + 1) ''a'' second, CAllow (minute + 2) ''a'' second]"
  have 1: "snd (RegisterAllow minute ''a'' second demo_open) = (True, True)"
    by (simp add: newCooldownTable_def new_breaker_def RegisterAllow_def demo_open_def time_defs)
  have 2: "length (cd_trace ''a'' ?xs h) = 2" for h
    by (simp add: Let_def case_prod_beta)
  have 3: "list_all (undecided ''a'' (t_add minute second)) ?xs"
    by (simp add: t_add_def second_def)
  show ?thesis
    unfolding Let_def using 1 2 single_probe_in_flight [OF demo_ok(2) 1 3] by blast
qed

text \<open>
  The operator view agrees with what routing does. \<^verbatim>\<open>snapshot\<close> lists the nodes in the order
  asked for; a node is shown cooling down exactly when \<^verbatim>\<open>Available\<close> refuses it or its open breaker
  refuses every REGISTER, and then until the later of the two with a positive remainder.
\<close>

theorem snapshot_agrees:
  assumes "0 \<le> now"
  shows "map ni_Address (snapshot names now h) = names \<and>
    (ni_State (node_info now h n) = NodeCoolingDown \<longleftrightarrow>
      \<not> Available now n h \<or> (\<exists>l u p. phase_of n h = Opened l u p \<and> now < u)) \<and>
    (ni_State (node_info now h n) = NodeCoolingDown \<longrightarrow>
      now < ni_CooldownUntil (node_info now h n) \<and> 0 < ni_CooldownRemaining (node_info now h n) \<and>
      (\<forall>l u p. phase_of n h = Opened l u p \<longrightarrow> u \<le> ni_CooldownUntil (node_info now h n)) \<and>
      (\<forall>t. m_get (cd_until h) n = Some t \<longrightarrow> t \<le> ni_CooldownUntil (node_info now h n)))"
proof -
  have "map (ni_Address \<circ> node_info now h) names = names"
    by (rule map_idI) (simp add: node_info_def Let_def split: option.splits)
  moreover have "ni_State (node_info now h n) = NodeCoolingDown \<longleftrightarrow>
      \<not> Available now n h \<or> (\<exists>l u p. phase_of n h = Opened l u p \<and> now < u)"
    using assms by (auto simp: node_info_def Let_def Available_def phase_of_def m_get0_def NodeHealthy_def
        NodeCoolingDown_def t_before_def t_after_def t_zero_def split: option.splits)
  moreover have "ni_State (node_info now h n) = NodeCoolingDown \<longrightarrow>
      now < ni_CooldownUntil (node_info now h n) \<and> 0 < ni_CooldownRemaining (node_info now h n) \<and>
      (\<forall>l u p. phase_of n h = Opened l u p \<longrightarrow> u \<le> ni_CooldownUntil (node_info now h n)) \<and>
      (\<forall>t. m_get (cd_until h) n = Some t \<longrightarrow> t \<le> ni_CooldownUntil (node_info now h n))"
    using assms by (auto simp: node_info_def Let_def phase_of_def m_get0_def NodeHealthy_def
        NodeCoolingDown_def time_defs split: option.splits if_splits)
  ultimately show ?thesis
    by (simp add: snapshot_def)
qed

theorem snapshot_agrees_witness:
  "let h = Penalize 10 ''a'' (30 * second) newCooldownTable in
   ni_State (node_info 20 h ''a'') = NodeCoolingDown \<and> \<not> Available 20 ''a'' h \<and>
   map ni_Address (snapshot [''a'', ''b''] 20 h) = [''a'', ''b'']"
  using snapshot_agrees [of 20 "[''a'', ''b'']" "Penalize 10 ''a'' (30 * second) newCooldownTable" "''a''"]
  by (simp add: Let_def Penalize_def Available_def newCooldownTable_def time_defs)

end
