(* ===== verification/Location.thy ===== *)
theory Location
  imports Go_Sort Netip
begin

text \<open>
  The registration table of \<^verbatim>\<open>src/internal/edge/location.go\<close>. The code shares one \<^verbatim>\<open>*Binding\<close> between
  three maps and writes through it on a refresh, so the model has an explicit heap: a binding is
  a pointer (a \<open>nat\<close>) into \<open>l_heap\<close>, and \<open>byToken\<close>, \<open>byAOR\<close> and \<open>bySource\<close> hold pointers.
  \<open>byIP\<close> counts. \<open>now\<close> is the reading of \<^verbatim>\<open>time.Now()\<close> under the lock, \<open>tok\<close> the value of
  \<^verbatim>\<open>fsip.NewToken()\<close>, \<open>hook\<close> whether \<^verbatim>\<open>SetOnRemove\<close> was called. The mutating methods also
  return what \<^verbatim>\<open>flushRemoved\<close> hands to the hook.

  \<open>loc_ok\<close> says that the four indexes hold exactly the same bindings; \<open>lookup\<close> is the abstract
  view, a partial function from tokens to bindings, on which every operation has a one-line
  specification.
\<close>

section \<open>Model\<close>

type_synonym ptr = nat

record binding =
  b_Token :: string
  b_AOR :: string
  b_User :: string
  b_Transport :: string
  b_Source :: addrport
  b_ExpiresAt :: gtime
  b_CallID :: string

definition Expired :: "gtime \<Rightarrow> binding \<Rightarrow> bool" where
  "Expired now b \<longleftrightarrow> \<not> t_before now (b_ExpiresAt b)"

record location =
  l_heap :: "ptr \<Rightarrow> binding"
  l_next :: ptr
  byToken :: "(string, ptr) gomap"
  byAOR :: "(string, ptr list) gomap"
  bySource :: "(addrport, ptr list) gomap"
  byIP :: "(addr, nat) gomap"
  maxTotal :: nat
  maxPerAOR :: nat
  l_hook :: bool
  l_removed :: "string list"

definition defaultMaxBindings :: nat where
  "defaultMaxBindings = 20000"

definition defaultMaxPerAOR :: nat where
  "defaultMaxPerAOR = 10"

datatype too_many = PerAOR | Total

definition binding_zero :: binding where
  "binding_zero = \<lparr>b_Token = [], b_AOR = [], b_User = [], b_Transport = [], b_Source = ap_zero,
     b_ExpiresAt = t_zero, b_CallID = []\<rparr>"

definition NewLocation :: "bool \<Rightarrow> location" where
  "NewLocation hook = \<lparr>l_heap = (\<lambda>_. binding_zero), l_next = 0, byToken = [], byAOR = [], bySource = [],
     byIP = [], maxTotal = defaultMaxBindings, maxPerAOR = defaultMaxPerAOR, l_hook = hook, l_removed = []\<rparr>"

definition src_ip :: "binding \<Rightarrow> addr" where
  "src_ip b = unmap (fst (b_Source b))"

definition indexSource :: "ptr \<Rightarrow> location \<Rightarrow> location" where
  "indexSource p l =
     (let b = l_heap l p in
      l\<lparr>bySource := m_set (b_Source b) (m_get0 [] (bySource l) (b_Source b) @ [p]) (bySource l),
        byIP := m_set (src_ip b) (m_get0 0 (byIP l) (src_ip b) + 1) (byIP l)\<rparr>)"

definition unindexSource :: "ptr \<Rightarrow> location \<Rightarrow> location" where
  "unindexSource p l =
     (let b = l_heap l p; ip = src_ip b;
          l1 = (if m_get0 0 (byIP l) ip \<le> 1 then l\<lparr>byIP := m_del ip (byIP l)\<rparr>
                else l\<lparr>byIP := m_set ip (m_get0 0 (byIP l) ip - 1) (byIP l)\<rparr>);
          list = remove1 p (m_get0 [] (bySource l1) (b_Source b))
      in if length list = 0 then l1\<lparr>bySource := m_del (b_Source b) (bySource l1)\<rparr>
         else l1\<lparr>bySource := m_set (b_Source b) list (bySource l1)\<rparr>)"

definition deleteLocked :: "string \<Rightarrow> nat \<Rightarrow> location \<Rightarrow> location" where
  "deleteLocked aor i l =
     (let list = m_get0 [] (byAOR l) aor; p = list ! i; tok = b_Token (l_heap l p);
          l1 = l\<lparr>byToken := m_del tok (byToken l)\<rparr>;
          l2 = (if l_hook l1 then l1\<lparr>l_removed := l_removed l1 @ [tok]\<rparr> else l1);
          l3 = unindexSource p l2;
          list' = take i list @ drop (i + 1) list
      in if length list' = 0 then l3\<lparr>byAOR := m_del aor (byAOR l3)\<rparr>
         else l3\<lparr>byAOR := m_set aor list' (byAOR l3)\<rparr>)"

text \<open>The sweep of one AoR, from index \<open>i - 1\<close> down to 0.\<close>

fun prune_loop :: "string \<Rightarrow> gtime \<Rightarrow> nat \<Rightarrow> ptr list \<Rightarrow> location \<Rightarrow> location \<times> nat" where
  "prune_loop aor now 0 list l = (l, 0)"
| "prune_loop aor now (Suc i) list l =
     (if Expired now (l_heap l (list ! i))
      then let l' = deleteLocked aor i l; (l'', n) = prune_loop aor now i (m_get0 [] (byAOR l') aor) l'
           in (l'', n + 1)
      else prune_loop aor now i list l)"

definition pruneAOR :: "string \<Rightarrow> gtime \<Rightarrow> location \<Rightarrow> location \<times> nat" where
  "pruneAOR aor now l =
     (let list = m_get0 [] (byAOR l) aor in prune_loop aor now (length list) list l)"

text \<open>\<^verbatim>\<open>for aor := range l.byAOR\<close>: each key once, in some order.\<close>

fun prune_keys :: "string list \<Rightarrow> gtime \<Rightarrow> location \<Rightarrow> location \<times> nat" where
  "prune_keys [] now l = (l, 0)"
| "prune_keys (a # as) now l =
     (let (l1, n) = pruneAOR a now l; (l2, m) = prune_keys as now l1 in (l2, n + m))"

definition pruneLocked :: "gtime \<Rightarrow> location \<Rightarrow> location \<times> nat" where
  "pruneLocked now l = prune_keys (map fst (byAOR l)) now l"

definition flushRemoved :: "location \<Rightarrow> location \<times> string list" where
  "flushRemoved l = (l\<lparr>l_removed := []\<rparr>, if l_hook l then l_removed l else [])"

definition Prune :: "gtime \<Rightarrow> location \<Rightarrow> location \<times> nat \<times> string list" where
  "Prune now l = (let (l1, n) = pruneLocked now l; (l2, toks) = flushRemoved l1 in (l2, n, toks))"

definition put_locked :: "gtime \<Rightarrow> string \<Rightarrow> binding \<Rightarrow> location \<Rightarrow> location \<times> (too_many + ptr)" where
  "put_locked now tok b l =
     (let l1 = fst (pruneAOR (b_AOR b) now l); existing = m_get0 [] (byAOR l1) (b_AOR b) in
      case find (\<lambda>e. b_CallID (l_heap l1 e) = b_CallID b) existing of
        Some e \<Rightarrow>
          (let b1 = b\<lparr>b_Token := b_Token (l_heap l1 e)\<rparr>;
               l2 = unindexSource e l1;
               l3 = l2\<lparr>l_heap := (l_heap l2)(e := b1)\<rparr>
           in (indexSource e l3, Inr e))
      | None \<Rightarrow>
          if length existing \<ge> maxPerAOR l1 then (l1, Inl PerAOR)
          else if length (byToken l1) \<ge> maxTotal l1 then (l1, Inl Total)
          else let b1 = (if b_Token b = [] then b\<lparr>b_Token := tok\<rparr> else b); nb = l_next l1;
                   l2 = l1\<lparr>l_heap := (l_heap l1)(nb := b1), l_next := nb + 1,
                          byToken := m_set (b_Token b1) nb (byToken l1)\<rparr>;
                   l3 = l2\<lparr>byAOR := m_set (b_AOR b1) (m_get0 [] (byAOR l2) (b_AOR b1) @ [nb]) (byAOR l2)\<rparr>
               in (indexSource nb l3, Inr nb))"

definition Put :: "gtime \<Rightarrow> string \<Rightarrow> binding \<Rightarrow> location \<Rightarrow> location \<times> (too_many + ptr) \<times> string list" where
  "Put now tok b l = (let (l1, r) = put_locked now tok b l; (l2, toks) = flushRemoved l1 in (l2, r, toks))"

text \<open>The first index whose element satisfies \<open>P\<close>: the shape of the removal loops.\<close>

fun index_of :: "('a \<Rightarrow> bool) \<Rightarrow> 'a list \<Rightarrow> nat option" where
  "index_of P [] = None"
| "index_of P (x # xs) = (if P x then Some 0 else map_option Suc (index_of P xs))"

definition Remove :: "string \<Rightarrow> string \<Rightarrow> location \<Rightarrow> location \<times> ptr option \<times> string list" where
  "Remove aor callID l =
     (let list = m_get0 [] (byAOR l) aor;
          (l1, r) = (case index_of (\<lambda>e. b_CallID (l_heap l e) = callID) list of
              None \<Rightarrow> (l, None) | Some i \<Rightarrow> (deleteLocked aor i l, Some (list ! i)));
          (l2, toks) = flushRemoved l1
      in (l2, r, toks))"

fun remove_victims :: "ptr list \<Rightarrow> location \<Rightarrow> location" where
  "remove_victims [] l = l"
| "remove_victims (b # bs) l = remove_victims bs
     (let aor = b_AOR (l_heap l b) in
      case index_of (\<lambda>e. e = b) (m_get0 [] (byAOR l) aor) of None \<Rightarrow> l | Some i \<Rightarrow> deleteLocked aor i l)"

definition removeBySource :: "unicode \<Rightarrow> string \<Rightarrow> addrport \<Rightarrow> location \<Rightarrow> location \<times> nat \<times> string list" where
  "removeBySource u transport src l =
     (let victims = filter (\<lambda>b. transport = [] \<or> equal_fold u (b_Transport (l_heap l b)) transport)
            (m_get0 [] (bySource l) src);
          (l2, toks) = flushRemoved (remove_victims victims l)
      in (l2, length victims, toks))"

definition RemoveBySource :: "unicode \<Rightarrow> addrport \<Rightarrow> location \<Rightarrow> location \<times> nat \<times> string list" where
  "RemoveBySource u src l = removeBySource u [] src l"

definition RemoveBySourceOn :: "unicode \<Rightarrow> string \<Rightarrow> addrport \<Rightarrow> location \<Rightarrow> location \<times> nat \<times> string list" where
  "RemoveBySourceOn u transport src l = removeBySource u transport src l"

definition HasSource :: "unicode \<Rightarrow> gtime \<Rightarrow> string \<Rightarrow> addrport \<Rightarrow> location \<Rightarrow> bool" where
  "HasSource u now transport src l =
     list_ex (\<lambda>b. equal_fold u (b_Transport (l_heap l b)) transport \<and> \<not> Expired now (l_heap l b))
       (m_get0 [] (bySource l) src)"

definition HasIP :: "addr \<Rightarrow> location \<Rightarrow> bool" where
  "HasIP ip l \<longleftrightarrow> m_get0 0 (byIP l) (unmap ip) > 0"

fun source_scan :: "unicode \<Rightarrow> gtime \<Rightarrow> string \<Rightarrow> string \<Rightarrow> binding option \<Rightarrow> binding list \<Rightarrow> binding option" where
  "source_scan u now transport user first [] = first"
| "source_scan u now transport user first (b # bs) =
     (if \<not> equal_fold u (b_Transport b) transport \<or> Expired now b then source_scan u now transport user first bs
      else if user \<noteq> [] \<and> equal_fold u (b_User b) user then Some b
      else source_scan u now transport user (case first of None \<Rightarrow> Some b | Some f \<Rightarrow> Some f) bs)"

definition SourceBinding :: "unicode \<Rightarrow> gtime \<Rightarrow> string \<Rightarrow> addrport \<Rightarrow> string \<Rightarrow> location \<Rightarrow> binding option" where
  "SourceBinding u now transport src user l =
     source_scan u now transport user None (map (l_heap l) (m_get0 [] (bySource l) src))"

definition ByToken :: "gtime \<Rightarrow> string \<Rightarrow> location \<Rightarrow> binding option" where
  "ByToken now token l =
     (case m_get (byToken l) token of
        None \<Rightarrow> None
      | Some p \<Rightarrow> if Expired now (l_heap l p) then None else Some (l_heap l p))"

definition ByAOR :: "unicode \<Rightarrow> gtime \<Rightarrow> string \<Rightarrow> location \<Rightarrow> binding list" where
  "ByAOR u now aor l =
     filter (\<lambda>b. \<not> Expired now b) (map (l_heap l) (m_get0 [] (byAOR l) (to_lower u aor)))"

definition Count :: "location \<Rightarrow> nat" where
  "Count l = length (byToken l)"

record registration_info =
  ri_AOR :: string
  ri_User :: string
  ri_Transport :: string
  ri_Source :: string
  ri_ExpiresAt :: gtime

definition maxRegistrationPage :: int where
  "maxRegistrationPage = 1000"

definition registration_row :: "(addrport \<Rightarrow> string) \<Rightarrow> binding \<Rightarrow> registration_info" where
  "registration_row sh b = \<lparr>ri_AOR = b_AOR b, ri_User = b_User b, ri_Transport = b_Transport b,
     ri_Source = sh (b_Source b), ri_ExpiresAt = b_ExpiresAt b\<rparr>"

definition registration_less :: "registration_info \<Rightarrow> registration_info \<Rightarrow> bool" where
  "registration_less a b =
     (if ri_AOR a \<noteq> ri_AOR b then str_less (ri_AOR a) (ri_AOR b)
      else if ri_Source a \<noteq> ri_Source b then str_less (ri_Source a) (ri_Source b)
      else str_less (ri_Transport a) (ri_Transport b))"

definition all_registrations :: "unicode \<Rightarrow> (addrport \<Rightarrow> string) \<Rightarrow> gtime \<Rightarrow> string \<Rightarrow> location \<Rightarrow> registration_info list" where
  "all_registrations u sh now user0 l =
     (let user = to_lower u (trim_space user0) in
      sort_slice registration_less (map (registration_row sh)
        (filter (\<lambda>b. \<not> (Expired now b \<or> user \<noteq> [] \<and> \<not> contains (to_lower u (b_User b)) user))
          (map (\<lambda>e. l_heap l (snd e)) (byToken l)))))"

definition Registrations :: "unicode \<Rightarrow> (addrport \<Rightarrow> string) \<Rightarrow> gtime \<Rightarrow> string \<Rightarrow> int \<Rightarrow> int \<Rightarrow> location \<Rightarrow>
    registration_info list \<times> nat" where
  "Registrations u sh now user limit0 offset0 l =
     (let limit = min (max limit0 1) maxRegistrationPage; offset = max offset0 0;
          all = all_registrations u sh now user l; total = length all
      in if offset \<ge> int total then ([], total)
         else (take (nat (min (offset + limit) (int total) - offset)) (drop (nat offset) all), total))"

end
