(* ===== verification/Location_Props.thy ===== *)
theory Location_Props
  imports Location
begin

text \<open>
  Correctness of the registration table. \<open>ix_ok\<close> and \<open>cnt_ok\<close> are the contracts of its two kinds
  of index over a set of live pointers; \<open>loc_ok\<close> combines them; \<open>deleteLocked\<close> and \<open>indexSource\<close>
  are specified once and every operation follows from them.
\<close>

section \<open>Indexes\<close>

definition ix_ok :: "('p \<Rightarrow> 'k) \<Rightarrow> 'p set \<Rightarrow> ('k, 'p list) gomap \<Rightarrow> bool" where
  "ix_ok key live m \<longleftrightarrow> wf_map m \<and> (\<forall>k ps. m_get m k = Some ps \<longrightarrow> ps \<noteq> []) \<and>
     (\<forall>k. distinct (m_get0 [] m k) \<and> set (m_get0 [] m k) = {p \<in> live. key p = k})"

definition cnt_ok :: "('p \<Rightarrow> 'k) \<Rightarrow> 'p set \<Rightarrow> ('k, nat) gomap \<Rightarrow> bool" where
  "cnt_ok key live m \<longleftrightarrow> wf_map m \<and> finite live \<and> (\<forall>k. m_get0 0 m k = card {p \<in> live. key p = k})"

lemma m_get0_set: "m_get0 z (m_set k v m) k' = (if k' = k then v else m_get0 z m k')"
  by (simp add: m_get0_def)

lemma m_get0_del: "m_get0 z (m_del k m) k' = (if k' = k then z else m_get0 z m k')"
  by (simp add: m_get0_def)

lemma ix_okD:
  assumes "ix_ok key live m"
  shows "distinct (m_get0 [] m k)" "set (m_get0 [] m k) = {p \<in> live. key p = k}" "wf_map m"
  using assms by (simp_all add: ix_ok_def)

lemma ix_ok_cong:
  assumes "ix_ok key live m" "\<And>p. p \<in> live \<Longrightarrow> key' p = key p"
  shows "ix_ok key' live m"
proof -
  have "{p \<in> live. key' p = k} = {p \<in> live. key p = k}" for k using assms(2) by auto
  then show ?thesis using assms(1) by (simp add: ix_ok_def)
qed

lemma cnt_ok_cong:
  assumes "cnt_ok key live m" "\<And>p. p \<in> live \<Longrightarrow> key' p = key p"
  shows "cnt_ok key' live m"
proof -
  have "{p \<in> live. key' p = k} = {p \<in> live. key p = k}" for k using assms(2) by auto
  then show ?thesis using assms(1) by (simp add: cnt_ok_def)
qed

lemma ix_ok_add:
  assumes "ix_ok key live m" "p \<notin> live" "key p = k"
  shows "ix_ok key (insert p live) (m_set k (m_get0 [] m k @ [p]) m)"
proof -
  have "p \<notin> set (m_get0 [] m k)"
    using ix_okD(2) [OF assms(1)] assms(2) by auto
  then show ?thesis
    using assms unfolding ix_ok_def by (auto simp: m_get0_set)
qed

lemma ix_ok_remove:
  assumes "ix_ok key live m" "p \<in> live" "key p = k" "set ps = {q \<in> live. key q = k} - {p}" "distinct ps"
  shows "ix_ok key (live - {p}) (if length ps = 0 then m_del k m else m_set k ps m)"
  using assms unfolding ix_ok_def by (auto simp: m_get0_set m_get0_del)

lemma cnt_ok_add:
  assumes "cnt_ok key live m" "p \<notin> live" "key p = k"
  shows "cnt_ok key (insert p live) (m_set k (m_get0 0 m k + 1) m)"
proof -
  have "{q \<in> insert p live. key q = k'} =
      (if k' = k then insert p {q \<in> live. key q = k} else {q \<in> live. key q = k'})" for k'
    using assms(3) by auto
  then show ?thesis
    using assms by (auto simp: cnt_ok_def m_get0_set)
qed

lemma cnt_ok_remove:
  assumes "cnt_ok key live m" "p \<in> live" "key p = k"
  shows "cnt_ok key (live - {p}) (if m_get0 0 m k \<le> 1 then m_del k m else m_set k (m_get0 0 m k - 1) m)"
proof -
  have eq: "{q \<in> live - {p}. key q = k'} =
      (if k' = k then {q \<in> live. key q = k} - {p} else {q \<in> live. key q = k'})" for k'
    using assms(3) by auto
  let ?m = "if m_get0 0 m k \<le> 1 then m_del k m else m_set k (m_get0 0 m k - 1) m"
  have c: "m_get0 0 m k' = card {q \<in> live. key q = k'}" for k'
    using assms(1) by (simp add: cnt_ok_def)
  have "card ({q \<in> live. key q = k} - {p}) = m_get0 0 m k - 1"
    using assms by (simp add: cnt_ok_def)
  then have "m_get0 0 ?m k' = card {q \<in> live - {p}. key q = k'}" for k'
    unfolding eq by (cases "k' = k") (simp_all add: m_get0_set m_get0_del c)
  then show ?thesis
    using assms(1) by (simp add: cnt_ok_def)
qed

section \<open>The invariant and the abstract view\<close>

definition live :: "location \<Rightarrow> ptr set" where
  "live l = snd ` set (byToken l)"

definition loc_ok :: "location \<Rightarrow> bool" where
  "loc_ok l \<longleftrightarrow> wf_map (byToken l) \<and>
     (\<forall>t p. m_get (byToken l) t = Some p \<longrightarrow> b_Token (l_heap l p) = t \<and> p < l_next l) \<and>
     ix_ok (\<lambda>p. b_AOR (l_heap l p)) (live l) (byAOR l) \<and>
     ix_ok (\<lambda>p. b_Source (l_heap l p)) (live l) (bySource l) \<and>
     cnt_ok (\<lambda>p. src_ip (l_heap l p)) (live l) (byIP l) \<and>
     length (byToken l) \<le> maxTotal l \<and> (\<forall>a. length (m_get0 [] (byAOR l) a) \<le> maxPerAOR l) \<and>
     (\<forall>p \<in> live l. \<forall>q \<in> live l. b_AOR (l_heap l p) = b_AOR (l_heap l q) \<and>
        b_CallID (l_heap l p) = b_CallID (l_heap l q) \<longrightarrow> p = q)"

definition lookup :: "location \<Rightarrow> string \<Rightarrow> binding option" where
  "lookup l t = map_option (l_heap l) (m_get (byToken l) t)"

lemma live_iff: "wf_map (byToken l) \<Longrightarrow> p \<in> live l \<longleftrightarrow> (\<exists>t. m_get (byToken l) t = Some p)"
  unfolding live_def wf_map_def by (force dest: map_of_SomeD)

lemma loc_okD:
  assumes "loc_ok l"
  shows "wf_map (byToken l)" "ix_ok (\<lambda>p. b_AOR (l_heap l p)) (live l) (byAOR l)"
    "ix_ok (\<lambda>p. b_Source (l_heap l p)) (live l) (bySource l)"
    "cnt_ok (\<lambda>p. src_ip (l_heap l p)) (live l) (byIP l)"
    "m_get (byToken l) t = Some p \<Longrightarrow> b_Token (l_heap l p) = t"
    "m_get (byToken l) t = Some p \<Longrightarrow> p < l_next l"
    "length (byToken l) \<le> maxTotal l" "length (m_get0 [] (byAOR l) a) \<le> maxPerAOR l"
    "p \<in> live l \<Longrightarrow> q \<in> live l \<Longrightarrow> b_AOR (l_heap l p) = b_AOR (l_heap l q) \<Longrightarrow>
       b_CallID (l_heap l p) = b_CallID (l_heap l q) \<Longrightarrow> p = q"
  using assms by (auto simp: loc_ok_def)

lemma live_token:
  assumes "loc_ok l" "p \<in> live l"
  shows "m_get (byToken l) (b_Token (l_heap l p)) = Some p"
  using assms live_iff [OF loc_okD(1) [OF assms(1)]] loc_okD(5) [OF assms(1)] by auto

lemma heap_inj:
  assumes "loc_ok l" "p \<in> live l" "q \<in> live l" "l_heap l p = l_heap l q"
  shows "p = q"
proof -
  have "Some p = Some q"
    using live_token [OF assms(1,2)] live_token [OF assms(1,3)] unfolding assms(4) by (rule trans [OF sym])
  then show ?thesis by simp
qed

lemma live_less: "loc_ok l \<Longrightarrow> p \<in> live l \<Longrightarrow> p < l_next l"
  using live_token loc_okD(6) by blast

lemma aor_list: "loc_ok l \<Longrightarrow> p \<in> set (m_get0 [] (byAOR l) a) \<longleftrightarrow> p \<in> live l \<and> b_AOR (l_heap l p) = a"
  using ix_okD(2) [OF loc_okD(2), of l a] by auto

lemma source_list: "loc_ok l \<Longrightarrow> p \<in> set (m_get0 [] (bySource l) a) \<longleftrightarrow> p \<in> live l \<and> b_Source (l_heap l p) = a"
  using ix_okD(2) [OF loc_okD(3), of l a] by auto

lemma lookup_live: "loc_ok l \<Longrightarrow> p \<in> live l \<Longrightarrow> lookup l (b_Token (l_heap l p)) = Some (l_heap l p)"
  by (simp add: lookup_def live_token)

lemma lookup_Some: "loc_ok l \<Longrightarrow> lookup l t = Some b \<longleftrightarrow> (\<exists>p \<in> live l. l_heap l p = b \<and> b_Token b = t)"
  unfolding lookup_def using live_iff [OF loc_okD(1)] live_token loc_okD(5) by fastforce

lemma loc_ok_new [simp]: "loc_ok (NewLocation hook)"
  by (simp add: loc_ok_def NewLocation_def ix_ok_def cnt_ok_def live_def m_get0_def)

text \<open>Fields \<open>loc_ok\<close> does not read.\<close>

lemma loc_ok_removed [simp]: "loc_ok (l\<lparr>l_removed := r\<rparr>) = loc_ok l"
  "lookup (l\<lparr>l_removed := r\<rparr>) = lookup l" "live (l\<lparr>l_removed := r\<rparr>) = live l"
  by (simp_all add: loc_ok_def lookup_def live_def fun_eq_iff)

section \<open>The source index\<close>

lemma unindexSource_frame [simp]:
  "l_heap (unindexSource p l) = l_heap l" "l_next (unindexSource p l) = l_next l"
  "byToken (unindexSource p l) = byToken l" "byAOR (unindexSource p l) = byAOR l"
  "maxTotal (unindexSource p l) = maxTotal l" "maxPerAOR (unindexSource p l) = maxPerAOR l"
  "l_hook (unindexSource p l) = l_hook l" "l_removed (unindexSource p l) = l_removed l"
  by (simp_all add: unindexSource_def Let_def)

lemma indexSource_frame [simp]:
  "l_heap (indexSource p l) = l_heap l" "l_next (indexSource p l) = l_next l"
  "byToken (indexSource p l) = byToken l" "byAOR (indexSource p l) = byAOR l"
  "maxTotal (indexSource p l) = maxTotal l" "maxPerAOR (indexSource p l) = maxPerAOR l"
  "l_hook (indexSource p l) = l_hook l" "l_removed (indexSource p l) = l_removed l"
  by (simp_all add: indexSource_def Let_def)

lemma unindexSource_maps:
  "bySource (unindexSource p l) = (let b = l_heap l p; list = remove1 p (m_get0 [] (bySource l) (b_Source b)) in
     if length list = 0 then m_del (b_Source b) (bySource l) else m_set (b_Source b) list (bySource l))"
  "byIP (unindexSource p l) = (let ip = src_ip (l_heap l p) in
     if m_get0 0 (byIP l) ip \<le> 1 then m_del ip (byIP l) else m_set ip (m_get0 0 (byIP l) ip - 1) (byIP l))"
  by (simp_all add: unindexSource_def Let_def)

definition src_ok :: "(ptr \<Rightarrow> binding) \<Rightarrow> ptr set \<Rightarrow> location \<Rightarrow> bool" where
  "src_ok h lv l \<longleftrightarrow> ix_ok (\<lambda>p. b_Source (h p)) lv (bySource l) \<and> cnt_ok (\<lambda>p. src_ip (h p)) lv (byIP l)"

lemma src_ok_unindex:
  assumes "src_ok (l_heap l) lv l" "p \<in> lv"
  shows "src_ok (l_heap l) (lv - {p}) (unindexSource p l)"
proof -
  let ?k = "b_Source (l_heap l p)"
  have ix: "ix_ok (\<lambda>p. b_Source (l_heap l p)) lv (bySource l)" and cn: "cnt_ok (\<lambda>p. src_ip (l_heap l p)) lv (byIP l)"
    using assms(1) by (simp_all add: src_ok_def)
  have "set (remove1 p (m_get0 [] (bySource l) ?k)) = {q \<in> lv. b_Source (l_heap l q) = ?k} - {p}"
    using ix_okD(1,2) [OF ix, of ?k] by (simp add: set_remove1_eq)
  then have "ix_ok (\<lambda>p. b_Source (l_heap l p)) (lv - {p}) (bySource (unindexSource p l))"
    unfolding unindexSource_maps Let_def
    using ix_okD(1) [OF ix, of ?k] by (intro ix_ok_remove [OF ix assms(2)]) (auto intro: distinct_remove1)
  moreover have "cnt_ok (\<lambda>p. src_ip (l_heap l p)) (lv - {p}) (byIP (unindexSource p l))"
    unfolding unindexSource_maps Let_def by (rule cnt_ok_remove [OF cn assms(2)]) simp
  ultimately show ?thesis by (simp add: src_ok_def)
qed

lemma src_ok_index:
  assumes "src_ok (l_heap l) lv l" "p \<notin> lv"
  shows "src_ok (l_heap l) (insert p lv) (indexSource p l)"
  using assms ix_ok_add [of "\<lambda>p. b_Source (l_heap l p)" lv "bySource l" p]
    cnt_ok_add [of "\<lambda>p. src_ip (l_heap l p)" lv "byIP l" p]
  by (simp add: src_ok_def indexSource_def Let_def)

lemma src_ok_cong:
  assumes "src_ok h lv l" "\<And>p. p \<in> lv \<Longrightarrow> h' p = h p" "bySource l' = bySource l" "byIP l' = byIP l"
  shows "src_ok h' lv l'"
  using assms ix_ok_cong [of "\<lambda>p. b_Source (h p)" lv "bySource l" "\<lambda>p. b_Source (h' p)"]
    cnt_ok_cong [of "\<lambda>p. src_ip (h p)" lv "byIP l" "\<lambda>p. src_ip (h' p)"]
  by (simp add: src_ok_def)

lemma loc_ok_src: "loc_ok l \<Longrightarrow> src_ok (l_heap l) (live l) l"
  by (simp add: src_ok_def loc_ok_def)

section \<open>Deleting one binding\<close>

lemma cut_at:
  assumes "distinct xs" "i < length xs"
  shows "set (take i xs @ drop (i + 1) xs) = set xs - {xs ! i}" "distinct (take i xs @ drop (i + 1) xs)"
proof -
  obtain ys x zs where e: "xs = ys @ x # zs" "length ys = i"
    using assms(2) id_take_nth_drop [of i xs] by (metis length_take min.absorb4)
  show "set (take i xs @ drop (i + 1) xs) = set xs - {xs ! i}" "distinct (take i xs @ drop (i + 1) xs)"
    using assms(1) by (auto simp: e(1) e(2) [symmetric] nth_append)
qed

lemma deleteLocked_frame [simp]:
  "l_heap (deleteLocked a i l) = l_heap l" "l_next (deleteLocked a i l) = l_next l"
  "maxTotal (deleteLocked a i l) = maxTotal l" "maxPerAOR (deleteLocked a i l) = maxPerAOR l"
  "l_hook (deleteLocked a i l) = l_hook l"
  by (simp_all add: deleteLocked_def Let_def)

lemma deleteLocked_maps:
  fixes l a i
  defines "list \<equiv> m_get0 [] (byAOR l) a"
  shows "byToken (deleteLocked a i l) = m_del (b_Token (l_heap l (list ! i))) (byToken l)"
    "m_get0 [] (byAOR (deleteLocked a i l)) k =
      (if k = a then take i list @ drop (i + 1) list else m_get0 [] (byAOR l) k)"
    "byAOR (deleteLocked a i l) = (let list' = take i list @ drop (i + 1) list in
       if length list' = 0 then m_del a (byAOR l) else m_set a list' (byAOR l))"
    "l_removed (deleteLocked a i l) =
      (if l_hook l then l_removed l @ [b_Token (l_heap l (list ! i))] else l_removed l)"
    "bySource (deleteLocked a i l) = bySource (unindexSource (list ! i) l)"
    "byIP (deleteLocked a i l) = byIP (unindexSource (list ! i) l)"
  by (auto simp: deleteLocked_def Let_def list_def m_get0_set m_get0_del unindexSource_maps)

lemma live_del:
  assumes "loc_ok l" "p \<in> live l" "byToken l' = m_del (b_Token (l_heap l p)) (byToken l)"
  shows "live l' = live l - {p}"
proof -
  have wf: "wf_map (byToken l)" "wf_map (byToken l')"
    using loc_okD(1) [OF assms(1)] assms(3) by simp_all
  have "q \<in> live l' \<longleftrightarrow> (\<exists>t. t \<noteq> b_Token (l_heap l p) \<and> m_get (byToken l) t = Some q)" for q
    unfolding live_iff [OF wf(2)] assms(3) by auto
  moreover have "(\<exists>t. t \<noteq> b_Token (l_heap l p) \<and> m_get (byToken l) t = Some q) \<longleftrightarrow> q \<in> live l \<and> q \<noteq> p" for q
  proof
    assume "\<exists>t. t \<noteq> b_Token (l_heap l p) \<and> m_get (byToken l) t = Some q"
    then obtain t where t: "t \<noteq> b_Token (l_heap l p)" "m_get (byToken l) t = Some q" by blast
    then show "q \<in> live l \<and> q \<noteq> p"
      using live_iff [OF wf(1)] loc_okD(5) [OF assms(1) t(2)] by blast
  next
    assume q: "q \<in> live l \<and> q \<noteq> p"
    then have "m_get (byToken l) (b_Token (l_heap l q)) = Some q"
      by (intro live_token [OF assms(1)]) simp
    moreover from this have "b_Token (l_heap l q) \<noteq> b_Token (l_heap l p)"
      using q live_token [OF assms(1,2)] by auto
    ultimately show "\<exists>t. t \<noteq> b_Token (l_heap l p) \<and> m_get (byToken l) t = Some q" by blast
  qed
  ultimately show ?thesis by auto
qed

lemma deleteLocked_ok:
  assumes ok: "loc_ok l" and i: "i < length (m_get0 [] (byAOR l) a)"
  defines "p \<equiv> m_get0 [] (byAOR l) a ! i"
  shows "loc_ok (deleteLocked a i l)" "live (deleteLocked a i l) = live l - {p}" "p \<in> live l" "b_AOR (l_heap l p) = a"
    "lookup (deleteLocked a i l) = (lookup l)(b_Token (l_heap l p) := None)"
proof -
  let ?l' = "deleteLocked a i l"
  let ?list = "m_get0 [] (byAOR l) a"
  let ?list' = "take i ?list @ drop (i + 1) ?list"
  have "p \<in> set ?list" using i by (simp add: p_def)
  then show p: "p \<in> live l" "b_AOR (l_heap l p) = a"
    using aor_list [OF ok] by auto
  show lv: "live ?l' = live l - {p}"
    by (rule live_del [OF ok p(1)]) (simp add: deleteLocked_maps p_def)
  show lk: "lookup ?l' = (lookup l)(b_Token (l_heap l p) := None)"
    by (auto simp: lookup_def deleteLocked_maps p_def fun_eq_iff)
  note ix = loc_okD(2) [OF ok]
  have "ix_ok (\<lambda>p. b_AOR (l_heap l p)) (live ?l') (byAOR ?l')"
    unfolding lv deleteLocked_maps(3) Let_def
    by (rule ix_ok_remove [OF ix p(1)])
      (use cut_at [OF ix_okD(1) [OF ix] i] ix_okD(2) [OF ix] p(2) in \<open>auto simp: p_def\<close>)
  moreover have "src_ok (l_heap l) (live l - {p}) (unindexSource p l)"
    by (rule src_ok_unindex [OF loc_ok_src [OF ok] p(1)])
  moreover have "length (m_get0 [] (byAOR ?l') k) \<le> maxPerAOR l" for k
    using loc_okD(8) [OF ok, of k] loc_okD(8) [OF ok, of a] i by (auto simp: deleteLocked_maps(2))
  moreover have "length (byToken ?l') \<le> maxTotal l"
    using loc_okD(7) [OF ok] length_del [of "b_Token (l_heap l p)" "byToken l"]
    by (simp add: deleteLocked_maps p_def)
  moreover have "wf_map (byToken ?l')"
    using loc_okD(1) [OF ok] by (simp add: deleteLocked_maps)
  moreover have "\<forall>t q. m_get (byToken ?l') t = Some q \<longrightarrow> b_Token (l_heap l q) = t \<and> q < l_next l"
    using loc_okD(5,6) [OF ok] by (auto simp: deleteLocked_maps(1))
  moreover have "\<forall>q \<in> live ?l'. \<forall>r \<in> live ?l'. b_AOR (l_heap l q) = b_AOR (l_heap l r) \<and>
      b_CallID (l_heap l q) = b_CallID (l_heap l r) \<longrightarrow> q = r"
    using loc_okD(9) [OF ok] lv by auto
  ultimately show "loc_ok ?l'"
    by (simp add: loc_ok_def src_ok_def lv deleteLocked_maps(5,6) p_def)
qed

text \<open>
  The net effect of a series of deletions: \<open>drops P l l'\<close> says that \<open>l'\<close> is \<open>l\<close> without the
  bindings satisfying \<open>P\<close>, and that exactly their tokens were queued for the hook.
\<close>

definition drops :: "(binding \<Rightarrow> bool) \<Rightarrow> location \<Rightarrow> location \<Rightarrow> bool" where
  "drops P l l' \<longleftrightarrow> loc_ok l' \<and> l_heap l' = l_heap l \<and> l_next l' = l_next l \<and> maxTotal l' = maxTotal l \<and>
     maxPerAOR l' = maxPerAOR l \<and> l_hook l' = l_hook l \<and>
     lookup l' = (\<lambda>t. case lookup l t of None \<Rightarrow> None | Some b \<Rightarrow> if P b then None else Some b) \<and>
     live l' = {p \<in> live l. \<not> P (l_heap l p)} \<and>
     (\<exists>ts. l_removed l' = l_removed l @ ts \<and> distinct ts \<and>
        set ts = (if l_hook l then {t. \<exists>b. lookup l t = Some b \<and> P b} else {}))"

lemma drops_none: "loc_ok l \<Longrightarrow> (\<And>p. p \<in> live l \<Longrightarrow> \<not> P (l_heap l p)) \<Longrightarrow> drops P l l"
  by (auto simp: drops_def fun_eq_iff lookup_Some split: option.splits)

lemma drops_delete:
  assumes "loc_ok l" "i < length (m_get0 [] (byAOR l) a)" "drops P (deleteLocked a i l) l'"
    "P (l_heap l (m_get0 [] (byAOR l) a ! i))"
  shows "drops P l l'"
proof -
  let ?p = "m_get0 [] (byAOR l) a ! i"
  let ?t = "b_Token (l_heap l ?p)"
  note d = deleteLocked_ok [OF assms(1,2)]
  have t: "lookup l ?t = Some (l_heap l ?p)" by (rule lookup_live [OF assms(1) d(3)])
  obtain ts where ts: "l_removed l' = l_removed (deleteLocked a i l) @ ts" "distinct ts"
      "set ts = (if l_hook l then {t. \<exists>b. lookup (deleteLocked a i l) t = Some b \<and> P b} else {})"
    using assms(3) by (auto simp: drops_def)
  have "\<exists>ts. l_removed l' = l_removed l @ ts \<and> distinct ts \<and>
      set ts = (if l_hook l then {t. \<exists>b. lookup l t = Some b \<and> P b} else {})"
  proof (cases "l_hook l")
    case True
    then show ?thesis
      using ts t assms(4) unfolding d(5) deleteLocked_maps(4)
      by (intro exI [of _ "?t # ts"]) (auto split: if_splits)
  next
    case False
    then show ?thesis using ts by (simp add: deleteLocked_maps(4))
  qed
  moreover have "lookup l' = (\<lambda>t. case lookup l t of None \<Rightarrow> None | Some b \<Rightarrow> if P b then None else Some b)"
    using assms(3,4) t unfolding drops_def d(5) by (auto simp: fun_eq_iff)
  moreover have "live l' = {p \<in> live l. \<not> P (l_heap l p)}"
    using assms(3,4) unfolding drops_def d(2) by auto
  ultimately show ?thesis
    using assms(3) by (simp add: drops_def)
qed

lemma dropsD:
  assumes "drops P l l'"
  shows "loc_ok l'" "l_heap l' = l_heap l" "l_next l' = l_next l" "maxTotal l' = maxTotal l"
    "maxPerAOR l' = maxPerAOR l" "l_hook l' = l_hook l"
    "lookup l' t = (case lookup l t of None \<Rightarrow> None | Some b \<Rightarrow> if P b then None else Some b)"
    "live l' = {p \<in> live l. \<not> P (l_heap l p)}"
  using assms by (auto simp: drops_def)

lemma drops_cong:
  assumes "drops P l l'" "loc_ok l" "\<And>p. p \<in> live l \<Longrightarrow> P (l_heap l p) = Q (l_heap l p)"
  shows "drops Q l l'"
proof -
  have "lookup l t = Some b \<Longrightarrow> P b = Q b" for t b
    using assms(2,3) by (auto simp: lookup_Some)
  then have "(\<lambda>t. case lookup l t of None \<Rightarrow> None | Some b \<Rightarrow> if P b then None else Some b) =
      (\<lambda>t. case lookup l t of None \<Rightarrow> None | Some b \<Rightarrow> if Q b then None else Some b)"
    "{t. \<exists>b. lookup l t = Some b \<and> P b} = {t. \<exists>b. lookup l t = Some b \<and> Q b}"
    by (auto simp: fun_eq_iff split: option.splits)
  moreover have "{p \<in> live l. \<not> P (l_heap l p)} = {p \<in> live l. \<not> Q (l_heap l p)}"
    using assms(3) by blast
  ultimately show ?thesis
    using assms(1) unfolding drops_def by (cases "l_hook l") simp_all
qed

lemma drops_trans:
  assumes "drops P l l1" "drops Q l1 l2"
  shows "drops (\<lambda>b. P b \<or> Q b) l l2"
proof -
  obtain ts1 where 1: "l_removed l1 = l_removed l @ ts1" "distinct ts1"
      "set ts1 = (if l_hook l then {t. \<exists>b. lookup l t = Some b \<and> P b} else {})"
    using assms(1) by (auto simp: drops_def)
  obtain ts2 where 2: "l_removed l2 = l_removed l1 @ ts2" "distinct ts2"
      "set ts2 = (if l_hook l1 then {t. \<exists>b. lookup l1 t = Some b \<and> Q b} else {})"
    using assms(2) by (auto simp: drops_def)
  have lk: "lookup l1 t = (case lookup l t of None \<Rightarrow> None | Some b \<Rightarrow> if P b then None else Some b)" for t
    by (rule dropsD(7) [OF assms(1)])
  have h: "l_hook l1 = l_hook l" by (rule dropsD(6) [OF assms(1)])
  have "set (ts1 @ ts2) = (if l_hook l then {t. \<exists>b. lookup l t = Some b \<and> (P b \<or> Q b)} else {})"
    using 1(3) 2(3) by (auto simp: h lk split: option.splits if_splits)
  moreover have "distinct (ts1 @ ts2)"
    using 1(2,3) 2(2,3) by (auto simp: h lk split: option.splits if_splits)
  ultimately have "\<exists>ts. l_removed l2 = l_removed l @ ts \<and> distinct ts \<and>
      set ts = (if l_hook l then {t. \<exists>b. lookup l t = Some b \<and> (P b \<or> Q b)} else {})"
    using 1(1) 2(1) by (intro exI [of _ "ts1 @ ts2"]) simp
  moreover have "lookup l2 = (\<lambda>t. case lookup l t of None \<Rightarrow> None | Some b \<Rightarrow> if P b \<or> Q b then None else Some b)"
    using dropsD(7) [OF assms(2)] by (auto simp: lk fun_eq_iff split: option.splits)
  moreover have "live l2 = {p \<in> live l. \<not> (P (l_heap l p) \<or> Q (l_heap l p))}"
    using dropsD(8) [OF assms(1)] dropsD(8) [OF assms(2)] dropsD(2) [OF assms(1)] by auto
  ultimately show ?thesis
    using assms unfolding drops_def by simp
qed

section \<open>Sweeping\<close>

lemma deleteLocked_count:
  assumes "loc_ok l" "i < length (m_get0 [] (byAOR l) a)"
  shows "length (byToken (deleteLocked a i l)) + 1 = length (byToken l)"
proof -
  let ?p = "m_get0 [] (byAOR l) a ! i"
  have "?p \<in> live l" by (rule deleteLocked_ok(3) [OF assms])
  then have "m_get (byToken l) (b_Token (l_heap l ?p)) \<noteq> None"
    using live_token [OF assms(1)] by auto
  then show ?thesis
    using length_del_Suc [OF loc_okD(1) [OF assms(1)], of "b_Token (l_heap l ?p)"]
    by (simp add: deleteLocked_maps(1))
qed

lemma prune_loop_drops:
  "loc_ok l \<Longrightarrow> list = m_get0 [] (byAOR l) a \<Longrightarrow> i \<le> length list \<Longrightarrow>
   (\<And>j. i \<le> j \<Longrightarrow> j < length list \<Longrightarrow> \<not> Expired now (l_heap l (list ! j))) \<Longrightarrow>
   drops (\<lambda>b. b_AOR b = a \<and> Expired now b) l (fst (prune_loop a now i list l)) \<and>
   length (byToken (fst (prune_loop a now i list l))) + snd (prune_loop a now i list l) = length (byToken l)"
proof (induction i arbitrary: list l)
  case 0
  have "\<not> (b_AOR (l_heap l p) = a \<and> Expired now (l_heap l p))" if "p \<in> live l" for p
  proof
    assume e: "b_AOR (l_heap l p) = a \<and> Expired now (l_heap l p)"
    then have "p \<in> set list"
      using that 0(1,2) aor_list [of l p a] by simp
    then obtain j where "j < length list" "list ! j = p" by (auto simp: in_set_conv_nth)
    then show False using 0(4) [of j] e by simp
  qed
  then show ?case
    using drops_none [OF 0(1), of "\<lambda>b. b_AOR b = a \<and> Expired now b"] by simp
next
  case (Suc i)
  show ?case
  proof (cases "Expired now (l_heap l (list ! i))")
    case False
    then have "\<not> Expired now (l_heap l (list ! j))" if "i \<le> j" "j < length list" for j
      using that Suc.prems(4) [of j] by (cases "j = i") auto
    then show ?thesis
      using Suc.IH [OF Suc.prems(1,2)] Suc.prems(3) False by simp
  next
    case True
    let ?l' = "deleteLocked a i l"
    let ?list' = "m_get0 [] (byAOR ?l') a"
    have i: "i < length (m_get0 [] (byAOR l) a)" using Suc.prems by simp
    have l': "?list' = take i list @ drop (i + 1) list"
      using Suc.prems(2) by (simp add: deleteLocked_maps(2))
    have "\<not> Expired now (l_heap ?l' (?list' ! j))" if "i \<le> j" "j < length ?list'" for j
      using that Suc.prems(3) Suc.prems(4) [of "Suc j"] by (simp add: l' nth_append)
    moreover have "i \<le> length ?list'" using Suc.prems(3) by (simp add: l')
    ultimately have IH: "drops (\<lambda>b. b_AOR b = a \<and> Expired now b) ?l' (fst (prune_loop a now i ?list' ?l'))"
        "length (byToken (fst (prune_loop a now i ?list' ?l'))) + snd (prune_loop a now i ?list' ?l') = length (byToken ?l')"
      using Suc.IH [OF deleteLocked_ok(1) [OF Suc.prems(1) i] refl] by blast+
    have "b_AOR (l_heap l (list ! i)) = a"
      using deleteLocked_ok(4) [OF Suc.prems(1) i] Suc.prems(2) by simp
    then show ?thesis
      using drops_delete [OF Suc.prems(1) i IH(1)] True IH(2) Suc.prems(2) deleteLocked_count [OF Suc.prems(1) i]
      by (simp add: Let_def case_prod_beta)
  qed
qed

lemma pruneAOR_drops:
  assumes "loc_ok l"
  shows "drops (\<lambda>b. b_AOR b = a \<and> Expired now b) l (fst (pruneAOR a now l))"
    "length (byToken (fst (pruneAOR a now l))) + snd (pruneAOR a now l) = length (byToken l)"
  using prune_loop_drops [OF assms refl, of "length (m_get0 [] (byAOR l) a)" a now]
  by (simp_all add: pruneAOR_def Let_def)

lemma prune_keys_drops:
  "loc_ok l \<Longrightarrow> drops (\<lambda>b. b_AOR b \<in> set as \<and> Expired now b) l (fst (prune_keys as now l)) \<and>
   length (byToken (fst (prune_keys as now l))) + snd (prune_keys as now l) = length (byToken l)"
proof (induction as arbitrary: l)
  case Nil
  then show ?case using drops_none [of l "\<lambda>b. b_AOR b \<in> set [] \<and> Expired now b"] by simp
next
  case (Cons a as)
  let ?l1 = "fst (pruneAOR a now l)"
  note 1 = pruneAOR_drops [OF Cons.prems, of a now]
  have 2: "drops (\<lambda>b. b_AOR b \<in> set as \<and> Expired now b) ?l1 (fst (prune_keys as now ?l1))"
      "length (byToken (fst (prune_keys as now ?l1))) + snd (prune_keys as now ?l1) = length (byToken ?l1)"
    using Cons.IH [OF dropsD(1) [OF 1(1)]] by simp_all
  have "drops (\<lambda>b. b_AOR b \<in> set (a # as) \<and> Expired now b) l (fst (prune_keys as now ?l1))"
    by (rule drops_cong [OF drops_trans [OF 1(1) 2(1)] Cons.prems]) auto
  then show ?case
    using 1(2) 2(2) by (simp add: Let_def case_prod_beta)
qed

lemma pruneLocked_drops:
  assumes "loc_ok l"
  shows "drops (Expired now) l (fst (pruneLocked now l))"
    "length (byToken (fst (pruneLocked now l))) + snd (pruneLocked now l) = length (byToken l)"
proof -
  note 1 = prune_keys_drops [OF assms, of "map fst (byAOR l)" now]
  have "b_AOR (l_heap l p) \<in> keys (byAOR l)" if "p \<in> live l" for p
  proof -
    have "p \<in> set (m_get0 [] (byAOR l) (b_AOR (l_heap l p)))"
      using that aor_list [OF assms] by blast
    then obtain ps where "m_get (byAOR l) (b_AOR (l_heap l p)) = Some ps"
      by (cases "m_get (byAOR l) (b_AOR (l_heap l p))") (simp_all add: m_get0_def)
    then show ?thesis by (rule m_get_keys)
  qed
  then show "drops (Expired now) l (fst (pruneLocked now l))"
    unfolding pruneLocked_def by (intro drops_cong [OF conjunct1 [OF 1] assms]) auto
  show "length (byToken (fst (pruneLocked now l))) + snd (pruneLocked now l) = length (byToken l)"
    using 1 by (simp add: pruneLocked_def)
qed

section \<open>Removing\<close>

lemma index_of_Some: "index_of P xs = Some i \<Longrightarrow> i < length xs \<and> P (xs ! i)"
  by (induction xs arbitrary: i) (auto split: if_splits)

lemma index_of_None: "index_of P xs = None \<Longrightarrow> x \<in> set xs \<Longrightarrow> \<not> P x"
  by (induction xs) (auto split: if_splits)

text \<open>The removal step of \<open>Remove\<close> before the hook is flushed.\<close>

definition remove_one :: "string \<Rightarrow> string \<Rightarrow> location \<Rightarrow> location \<times> ptr option" where
  "remove_one aor callID l =
     (let list = m_get0 [] (byAOR l) aor in
      case index_of (\<lambda>e. b_CallID (l_heap l e) = callID) list of
        None \<Rightarrow> (l, None) | Some i \<Rightarrow> (deleteLocked aor i l, Some (list ! i)))"

lemma Remove_alt: "Remove aor callID l =
    (let (l1, r) = remove_one aor callID l; (l2, toks) = flushRemoved l1 in (l2, r, toks))"
  by (simp add: Remove_def remove_one_def Let_def)

lemma remove_one_drops:
  assumes "loc_ok l"
  shows "drops (\<lambda>b. b_AOR b = a \<and> b_CallID b = c) l (fst (remove_one a c l))"
    "(case snd (remove_one a c l) of
       None \<Rightarrow> \<not> (\<exists>t b. lookup l t = Some b \<and> b_AOR b = a \<and> b_CallID b = c)
     | Some p \<Rightarrow> p \<in> live l \<and> b_AOR (l_heap l p) = a \<and> b_CallID (l_heap l p) = c)"
proof -
  let ?P = "\<lambda>b. b_AOR b = a \<and> b_CallID b = c"
  let ?list = "m_get0 [] (byAOR l) a"
  have "drops ?P l (fst (remove_one a c l)) \<and> (case snd (remove_one a c l) of
       None \<Rightarrow> \<not> (\<exists>t b. lookup l t = Some b \<and> b_AOR b = a \<and> b_CallID b = c)
     | Some p \<Rightarrow> p \<in> live l \<and> b_AOR (l_heap l p) = a \<and> b_CallID (l_heap l p) = c)"
  proof (cases "index_of (\<lambda>e. b_CallID (l_heap l e) = c) ?list")
    case None
    then have no: "\<not> ?P (l_heap l p)" if "p \<in> live l" for p
      using that index_of_None [OF None, of p] aor_list [OF assms, of p a] by auto
    then show ?thesis
      using drops_none [OF assms, of ?P] None lookup_Some [OF assms] by (auto simp: remove_one_def)
  next
    case (Some i)
    then have i: "i < length ?list" "b_CallID (l_heap l (?list ! i)) = c"
      using index_of_Some [OF Some] by auto
    note d = deleteLocked_ok [OF assms i(1)]
    have "\<not> ?P (l_heap l p)" if "p \<in> live (deleteLocked a i l)" for p
      using that d(2,3,4) i(2) loc_okD(9) [OF assms] by auto
    then have "drops ?P (deleteLocked a i l) (deleteLocked a i l)"
      by (intro drops_none [OF d(1)]) simp
    then have "drops ?P l (deleteLocked a i l)"
      by (rule drops_delete [OF assms i(1)]) (use d(4) i(2) in simp)
    then show ?thesis
      using Some d i(2) by (simp add: remove_one_def)
  qed
  then show "drops ?P l (fst (remove_one a c l))"
    "(case snd (remove_one a c l) of
       None \<Rightarrow> \<not> (\<exists>t b. lookup l t = Some b \<and> b_AOR b = a \<and> b_CallID b = c)
     | Some p \<Rightarrow> p \<in> live l \<and> b_AOR (l_heap l p) = a \<and> b_CallID (l_heap l p) = c)" by blast+
qed

lemma remove_victims_drops:
  "loc_ok l \<Longrightarrow> distinct vs \<Longrightarrow> set vs \<subseteq> live l \<Longrightarrow>
   drops (\<lambda>b. b \<in> l_heap l ` set vs) l (remove_victims vs l) \<and>
   length (byToken (remove_victims vs l)) + length vs = length (byToken l)"
proof (induction vs arbitrary: l)
  case Nil
  then show ?case using drops_none [of l "\<lambda>b. b \<in> l_heap l ` set []"] by simp
next
  case (Cons v vs)
  let ?a = "b_AOR (l_heap l v)"
  let ?list = "m_get0 [] (byAOR l) ?a"
  have v: "v \<in> live l" using Cons.prems by simp
  then have "v \<in> set ?list" using aor_list [OF Cons.prems(1)] by blast
  then obtain i where ix: "index_of (\<lambda>e. e = v) ?list = Some i"
    using index_of_None [of "\<lambda>e. e = v" ?list v] by fastforce
  then have i: "i < length ?list" "?list ! i = v" using index_of_Some [OF ix] by auto
  let ?l1 = "deleteLocked ?a i l"
  note d = deleteLocked_ok [OF Cons.prems(1) i(1), unfolded i(2)]
  have "set vs \<subseteq> live ?l1" using Cons.prems d(2) by auto
  then have IH: "drops (\<lambda>b. b \<in> l_heap l ` set vs) ?l1 (remove_victims vs ?l1)"
      "length (byToken (remove_victims vs ?l1)) + length vs = length (byToken ?l1)"
    using Cons.IH [OF d(1)] Cons.prems(2) by simp_all
  have "l_heap l p \<noteq> l_heap l v" if "p \<in> live ?l1" for p
    using that d(2) heap_inj [OF Cons.prems(1) _ v, of p] by blast
  then have "drops (\<lambda>b. b \<in> l_heap l ` set (v # vs)) ?l1 (remove_victims vs ?l1)"
    by (intro drops_cong [OF IH(1) d(1)]) simp
  then have "drops (\<lambda>b. b \<in> l_heap l ` set (v # vs)) l (remove_victims vs ?l1)"
    by (rule drops_delete [OF Cons.prems(1) i(1)]) (simp add: i(2))
  then show ?case
    using IH(2) deleteLocked_count [OF Cons.prems(1) i(1)] ix by simp
qed

definition victims :: "unicode \<Rightarrow> string \<Rightarrow> addrport \<Rightarrow> location \<Rightarrow> ptr list" where
  "victims u transport src l = filter (\<lambda>b. transport = [] \<or> equal_fold u (b_Transport (l_heap l b)) transport)
     (m_get0 [] (bySource l) src)"

lemma removeBySource_alt: "removeBySource u tr src l =
    (let (l2, toks) = flushRemoved (remove_victims (victims u tr src l) l) in (l2, length (victims u tr src l), toks))"
  by (simp add: removeBySource_def victims_def Let_def)

lemma victims_drops:
  assumes "loc_ok l"
  shows "drops (\<lambda>b. b_Source b = src \<and> (tr = [] \<or> equal_fold u (b_Transport b) tr)) l
      (remove_victims (victims u tr src l) l)"
    "length (byToken (remove_victims (victims u tr src l) l)) + length (victims u tr src l) = length (byToken l)"
proof -
  let ?vs = "victims u tr src l"
  have vs: "p \<in> set ?vs \<longleftrightarrow> p \<in> live l \<and> b_Source (l_heap l p) = src \<and>
      (tr = [] \<or> equal_fold u (b_Transport (l_heap l p)) tr)" for p
    using source_list [OF assms, of p src] by (auto simp: victims_def)
  have "distinct ?vs" "set ?vs \<subseteq> live l"
    using ix_okD(1) [OF loc_okD(3) [OF assms]] vs by (auto simp: victims_def)
  note r = remove_victims_drops [OF assms this]
  show "length (byToken (remove_victims ?vs l)) + length ?vs = length (byToken l)" using r by blast
  have "l_heap l p \<in> l_heap l ` set ?vs \<longleftrightarrow> p \<in> set ?vs" if "p \<in> live l" for p
  proof
    assume "l_heap l p \<in> l_heap l ` set ?vs"
    then obtain q where "q \<in> set ?vs" "l_heap l p = l_heap l q" by auto
    then show "p \<in> set ?vs"
      using heap_inj [OF assms that, of q] vs [of q] by simp
  qed simp
  then show "drops (\<lambda>b. b_Source b = src \<and> (tr = [] \<or> equal_fold u (b_Transport b) tr)) l (remove_victims ?vs l)"
    by (intro drops_cong [OF conjunct1 [OF r] assms]) (simp add: vs)
qed

section \<open>The hook\<close>

definition loc_inv :: "location \<Rightarrow> bool" where
  "loc_inv l \<longleftrightarrow> loc_ok l \<and> l_removed l = []"

text \<open>What a mutating call leaves, after \<^verbatim>\<open>flushRemoved\<close>.\<close>

definition dropped :: "(binding \<Rightarrow> bool) \<Rightarrow> location \<Rightarrow> location \<Rightarrow> string list \<Rightarrow> bool" where
  "dropped P l l' toks \<longleftrightarrow> loc_inv l' \<and> l_hook l' = l_hook l \<and> distinct toks \<and>
     set toks = (if l_hook l then {t. \<exists>b. lookup l t = Some b \<and> P b} else {}) \<and>
     (\<forall>t. lookup l' t = (case lookup l t of None \<Rightarrow> None | Some b \<Rightarrow> if P b then None else Some b))"

lemma flush_dropped:
  assumes "drops P l l1" "l_removed l = []"
  shows "dropped P l (fst (flushRemoved l1)) (snd (flushRemoved l1))"
  using assms by (auto simp: drops_def dropped_def flushRemoved_def loc_inv_def)

section \<open>Put\<close>

text \<open>
  What the caller owes: the token to be stored (the binding's own or a new one) is not the token
  of another registration flow. \<^verbatim>\<open>recordBinding\<close> passes a token it took from the same flow or a
  fresh random one.
\<close>

definition fresh_put :: "string \<Rightarrow> binding \<Rightarrow> location \<Rightarrow> bool" where
  "fresh_put tok b l \<longleftrightarrow> (case lookup l (if b_Token b = [] then tok else b_Token b) of
     None \<Rightarrow> True | Some c \<Rightarrow> b_AOR c = b_AOR b \<and> b_CallID c = b_CallID b)"

abbreviation same_flow :: "binding \<Rightarrow> binding \<Rightarrow> bool" where
  "same_flow b c \<equiv> b_AOR c = b_AOR b \<and> b_CallID c = b_CallID b"

text \<open>Writing through a live pointer, keeping token, AoR and Call-ID.\<close>

lemma overwrite_ok:
  assumes ok: "loc_ok l" and e: "e \<in> live l" and b: "b_Token b = b_Token (l_heap l e)" "same_flow b (l_heap l e)"
  defines "l' \<equiv> indexSource e ((unindexSource e l)\<lparr>l_heap := (l_heap (unindexSource e l))(e := b)\<rparr>)"
  shows "loc_ok l'" "lookup l' = (lookup l)(b_Token b \<mapsto> b)" "live l' = live l" "l_heap l' e = b"
    "byToken l' = byToken l" "l_removed l' = l_removed l" "l_hook l' = l_hook l"
proof -
  let ?h = "(l_heap l)(e := b)"
  let ?l3 = "(unindexSource e l)\<lparr>l_heap := ?h\<rparr>"
  have l': "l' = indexSource e ?l3" by (simp add: l'_def)
  show fr: "byToken l' = byToken l" "l_removed l' = l_removed l" "l_hook l' = l_hook l" "l_heap l' e = b"
    by (simp_all add: l')
  have heap: "l_heap l' = ?h" by (simp add: l')
  show lv: "live l' = live l" by (simp add: live_def fr)
  show "lookup l' = (lookup l)(b_Token b \<mapsto> b)"
  proof (rule ext)
    fix t
    show "lookup l' t = ((lookup l)(b_Token b \<mapsto> b)) t"
    proof (cases "m_get (byToken l) t")
      case None
      then show ?thesis using live_token [OF ok e] by (auto simp: lookup_def fr b(1))
    next
      case (Some p)
      then show ?thesis
        using live_token [OF ok e] loc_okD(5) [OF ok Some] by (auto simp: lookup_def fr heap b(1))
    qed
  qed
  have "src_ok (l_heap l) (live l - {e}) (unindexSource e l)"
    by (rule src_ok_unindex [OF loc_ok_src [OF ok] e])
  then have "src_ok ?h (live l - {e}) ?l3"
    by (rule src_ok_cong) auto
  then have "src_ok (l_heap ?l3) (live l - {e}) ?l3" by simp
  then have "src_ok (l_heap ?l3) (insert e (live l - {e})) l'"
    unfolding l' by (rule src_ok_index) simp
  then have src: "src_ok ?h (live l) l'"
    using e by (simp add: insert_absorb)
  have "ix_ok (\<lambda>p. b_AOR (?h p)) (live l) (byAOR l)"
    by (rule ix_ok_cong [OF loc_okD(2) [OF ok]]) (use b in auto)
  moreover have "\<forall>t p. m_get (byToken l) t = Some p \<longrightarrow> b_Token (?h p) = t \<and> p < l_next l"
    using loc_okD(5,6) [OF ok] b(1) by auto
  moreover have "b_AOR (?h p) = b_AOR (l_heap l p)" "b_CallID (?h p) = b_CallID (l_heap l p)" for p
    using b(2) by auto
  then have "\<forall>p \<in> live l. \<forall>q \<in> live l. b_AOR (?h p) = b_AOR (?h q) \<and> b_CallID (?h p) = b_CallID (?h q) \<longrightarrow> p = q"
    using loc_okD(9) [OF ok] by simp
  ultimately show "loc_ok l'"
    using ok src unfolding loc_ok_def lv heap fr by (simp add: src_ok_def l')
qed

text \<open>Adding a binding at a new pointer.\<close>

lemma insert_ok:
  assumes ok: "loc_ok l" and t: "m_get (byToken l) (b_Token b) = None"
    and flow: "\<forall>p \<in> live l. \<not> same_flow b (l_heap l p)"
    and room: "length (byToken l) < maxTotal l" "length (m_get0 [] (byAOR l) (b_AOR b)) < maxPerAOR l"
  defines "nb \<equiv> l_next l"
  defines "l' \<equiv> indexSource nb (l\<lparr>l_heap := (l_heap l)(nb := b), l_next := nb + 1,
      byToken := m_set (b_Token b) nb (byToken l),
      byAOR := m_set (b_AOR b) (m_get0 [] (byAOR l) (b_AOR b) @ [nb]) (byAOR l)\<rparr>)"
  shows "loc_ok l'" "lookup l' = (lookup l)(b_Token b \<mapsto> b)" "l_heap l' nb = b" "l_removed l' = l_removed l"
    "l_hook l' = l_hook l" "length (byToken l') = length (byToken l) + 1"
proof -
  let ?h = "(l_heap l)(nb := b)"
  let ?l2 = "l\<lparr>l_heap := ?h, l_next := nb + 1, byToken := m_set (b_Token b) nb (byToken l),
      byAOR := m_set (b_AOR b) (m_get0 [] (byAOR l) (b_AOR b) @ [nb]) (byAOR l)\<rparr>"
  have new: "nb \<notin> live l" using live_less [OF ok, of nb] by (auto simp: nb_def)
  have wf: "wf_map (byToken l)" "wf_map (byToken l')"
    using loc_okD(1) [OF ok] by (simp_all add: l'_def)
  show "l_heap l' nb = b" "l_removed l' = l_removed l" "l_hook l' = l_hook l"
    by (simp_all add: l'_def)
  have notin: "b_Token b \<notin> keys (byToken l)" using t by (simp add: m_get_None)
  then show len: "length (byToken l') = length (byToken l) + 1"
    using length_set [of "b_Token b" nb "byToken l"] by (simp add: l'_def)
  have old: "m_get (byToken l) u \<noteq> Some nb" for u
    using new live_iff [OF wf(1)] by blast
  show "lookup l' = (lookup l)(b_Token b \<mapsto> b)"
    using old by (auto simp: lookup_def l'_def fun_eq_iff option.map_comp intro!: option.map_cong)
  have lv: "live l' = insert nb (live l)"
  proof (rule set_eqI)
    fix q
    have "q \<in> live l' \<longleftrightarrow> (\<exists>u. m_get (m_set (b_Token b) nb (byToken l)) u = Some q)"
      unfolding live_iff [OF wf(2)] by (simp add: l'_def)
    also have "\<dots> \<longleftrightarrow> q = nb \<or> (\<exists>u. m_get (byToken l) u = Some q)"
      using t by (auto split: if_splits) (metis option.distinct(1))
    finally show "q \<in> live l' \<longleftrightarrow> q \<in> insert nb (live l)"
      using live_iff [OF wf(1)] by simp
  qed
  have heap: "l_heap l' = ?h" by (simp add: l'_def)
  have "src_ok ?h (live l) ?l2"
    by (rule src_ok_cong [OF loc_ok_src [OF ok]]) (use new in auto)
  then have "src_ok (l_heap ?l2) (live l) ?l2" by simp
  then have "src_ok (l_heap ?l2) (insert nb (live l)) (indexSource nb ?l2)"
    by (rule src_ok_index [OF _ new])
  then have src: "src_ok ?h (live l') l'"
    unfolding lv by (simp add: l'_def)
  have "ix_ok (\<lambda>p. b_AOR (?h p)) (live l) (byAOR l)"
    by (rule ix_ok_cong [OF loc_okD(2) [OF ok]]) (use new in auto)
  then have "ix_ok (\<lambda>p. b_AOR (?h p)) (live l') (byAOR l')"
    unfolding lv using ix_ok_add [OF _ new, of "\<lambda>p. b_AOR (?h p)" "byAOR l" "b_AOR b"] by (simp add: l'_def)
  moreover have "\<forall>u p. m_get (byToken l') u = Some p \<longrightarrow> b_Token (?h p) = u \<and> p < l_next l'"
    using loc_okD(5,6) [OF ok] old by (auto simp: l'_def nb_def less_SucI)
  moreover have "\<forall>p \<in> live l'. \<forall>q \<in> live l'. b_AOR (?h p) = b_AOR (?h q) \<and> b_CallID (?h p) = b_CallID (?h q) \<longrightarrow> p = q"
    using loc_okD(9) [OF ok] flow new unfolding lv by auto
  moreover have "length (m_get0 [] (byAOR l') a) \<le> maxPerAOR l" for a
    using loc_okD(8) [OF ok, of a] room(2) by (auto simp: l'_def m_get0_set)
  moreover have "maxPerAOR l' = maxPerAOR l" "maxTotal l' = maxTotal l" by (simp_all add: l'_def)
  ultimately show "loc_ok l'"
    using wf(2) src room(1) unfolding loc_ok_def heap src_ok_def len by auto
qed

abbreviation swept :: "gtime \<Rightarrow> binding \<Rightarrow> location \<Rightarrow> location" where
  "swept now b l \<equiv> fst (pruneAOR (b_AOR b) now l)"

lemma find_None_set: "find P xs = None \<Longrightarrow> x \<in> set xs \<Longrightarrow> \<not> P x"
  by (auto simp: find_None_iff)

lemma put_locked_spec:
  assumes ok: "loc_ok l" and fresh: "fresh_put tok b l"
  shows "loc_ok (fst (put_locked now tok b l)) \<and> l_hook (fst (put_locked now tok b l)) = l_hook l \<and>
    l_removed (fst (put_locked now tok b l)) = l_removed (swept now b l) \<and>
    (case snd (put_locked now tok b l) of
       Inl s \<Rightarrow> fst (put_locked now tok b l) = swept now b l \<and> (\<forall>p \<in> live (swept now b l). \<not> same_flow b (l_heap l p)) \<and>
         (case s of PerAOR \<Rightarrow> maxPerAOR l \<le> length (m_get0 [] (byAOR (swept now b l)) (b_AOR b))
          | Total \<Rightarrow> maxTotal l \<le> length (byToken (swept now b l)))
     | Inr p \<Rightarrow> \<exists>t. l_heap (fst (put_locked now tok b l)) p = b\<lparr>b_Token := t\<rparr> \<and>
         lookup (fst (put_locked now tok b l)) = (lookup (swept now b l))(t \<mapsto> b\<lparr>b_Token := t\<rparr>) \<and>
         ((\<exists>c. lookup (swept now b l) t = Some c \<and> same_flow b c) \<or>
          (\<forall>q \<in> live (swept now b l). \<not> same_flow b (l_heap l q)) \<and> lookup (swept now b l) t = None \<and>
            t = (if b_Token b = [] then tok else b_Token b) \<and>
            length (m_get0 [] (byAOR (swept now b l)) (b_AOR b)) < maxPerAOR l \<and>
            length (byToken (swept now b l)) < maxTotal l))"
proof -
  let ?l1 = "swept now b l"
  let ?ex = "m_get0 [] (byAOR ?l1) (b_AOR b)"
  note d = dropsD [OF pruneAOR_drops(1) [OF ok, of "b_AOR b" now]]
  have ok1: "loc_ok ?l1" by (rule d(1))
  note eqs = d(2) d(3) d(4) d(5) d(6)
  show ?thesis
  proof (cases "find (\<lambda>e. b_CallID (l_heap ?l1 e) = b_CallID b) ?ex")
    case (Some e)
    then have e: "e \<in> live ?l1" "same_flow b (l_heap ?l1 e)"
      using find_SomeD [OF Some] aor_list [OF ok1] by auto
    let ?t = "b_Token (l_heap ?l1 e)"
    note o = overwrite_ok [OF ok1 e(1), of "b\<lparr>b_Token := ?t\<rparr>"]
    have "lookup ?l1 ?t = Some (l_heap ?l1 e)" by (rule lookup_live [OF ok1 e(1)])
    then show ?thesis
      using o e(2) Some by (auto simp: put_locked_def Let_def d(6))
  next
    case None
    have flow: "\<not> same_flow b (l_heap ?l1 p)" if "p \<in> live ?l1" for p
      using find_None_set [OF None, of p] aor_list [OF ok1, of p "b_AOR b"] that by auto
    show ?thesis
    proof (cases "maxPerAOR ?l1 \<le> length ?ex \<or> maxTotal ?l1 \<le> length (byToken ?l1)")
      case True
      then show ?thesis
        using None flow ok1 by (auto simp: put_locked_def Let_def eqs)
    next
      case False
      let ?t = "if b_Token b = [] then tok else b_Token b"
      let ?b = "b\<lparr>b_Token := ?t\<rparr>"
      have b1: "(if b_Token b = [] then b\<lparr>b_Token := tok\<rparr> else b) = ?b" by simp
      have nl: "lookup ?l1 ?t = None"
      proof (rule ccontr)
        assume "lookup ?l1 ?t \<noteq> None"
        then obtain c where c: "lookup ?l1 ?t = Some c" by blast
        then have "lookup l ?t = Some c" unfolding d(7) by (simp split: option.splits if_splits)
        then have "same_flow b c" using fresh by (simp add: fresh_put_def)
        moreover obtain p where "p \<in> live ?l1" "l_heap ?l1 p = c"
          using c unfolding lookup_Some [OF ok1] by blast
        ultimately show False using flow by blast
      qed
      then have nt: "m_get (byToken ?l1) (b_Token ?b) = None" by (simp add: lookup_def)
      note i = insert_ok [OF ok1 nt _ _ _]
      have "b_AOR ?b = b_AOR b" "b_CallID ?b = b_CallID b" by simp_all
      then have i: "loc_ok (fst (put_locked now tok b l))" "snd (put_locked now tok b l) = Inr (l_next ?l1)"
          "lookup (fst (put_locked now tok b l)) = (lookup ?l1)(?t \<mapsto> ?b)"
          "l_heap (fst (put_locked now tok b l)) (l_next ?l1) = ?b"
          "l_removed (fst (put_locked now tok b l)) = l_removed ?l1" "l_hook (fst (put_locked now tok b l)) = l_hook l"
        using insert_ok [OF ok1 nt] flow False None
        by (simp_all add: put_locked_def Let_def b1 d(6) del: if_split)
      have "length ?ex < maxPerAOR l" "length (byToken ?l1) < maxTotal l"
        using False by (simp_all add: eqs not_le)
      moreover have "\<forall>q \<in> live ?l1. \<not> same_flow b (l_heap l q)"
        using flow by (simp add: eqs)
      ultimately show ?thesis
        unfolding i(2) sum.case using i(1,3-6) nl by blast
    qed
  qed
qed

section \<open>Every call\<close>

lemma Put_inv:
  assumes "loc_inv l" "fresh_put tok b l"
  shows "loc_inv (fst (Put now tok b l))"
  using put_locked_spec [of l tok b now] assms
  by (simp add: Put_def Let_def case_prod_beta flushRemoved_def loc_inv_def)

lemma Prune_dropped:
  assumes "loc_inv l"
  shows "dropped (Expired now) l (fst (Prune now l)) (snd (snd (Prune now l))) \<and>
    Count (fst (Prune now l)) + fst (snd (Prune now l)) = Count l"
  using pruneLocked_drops [of l now] flush_dropped [of "Expired now" l "fst (pruneLocked now l)"] assms
  by (simp add: Prune_def Let_def case_prod_beta loc_inv_def Count_def flushRemoved_def)

lemma Remove_dropped:
  assumes "loc_inv l"
  shows "dropped (\<lambda>b. b_AOR b = a \<and> b_CallID b = c) l (fst (Remove a c l)) (snd (snd (Remove a c l)))"
  using remove_one_drops(1) [of l a c] flush_dropped [of _ l "fst (remove_one a c l)"] assms
  by (simp add: Remove_alt Let_def case_prod_beta loc_inv_def)

lemma removeBySource_dropped:
  assumes "loc_inv l"
  shows "dropped (\<lambda>b. b_Source b = src \<and> (tr = [] \<or> equal_fold u (b_Transport b) tr)) l
      (fst (removeBySource u tr src l)) (snd (snd (removeBySource u tr src l))) \<and>
    Count (fst (removeBySource u tr src l)) + fst (snd (removeBySource u tr src l)) = Count l"
  using victims_drops(1) [of l src tr u] victims_drops(2) [of l u tr src] flush_dropped [of _ l "remove_victims (victims u tr src l) l"] assms
  by (simp add: removeBySource_alt Let_def case_prod_beta loc_inv_def Count_def flushRemoved_def)

text \<open>The tables the edge can reach: any sequence of calls, with every stored token fresh.\<close>

inductive loc_reach :: "unicode \<Rightarrow> location \<Rightarrow> bool" for u where
  reach_new: "loc_reach u (NewLocation hook)"
| reach_put: "loc_reach u l \<Longrightarrow> fresh_put tok b l \<Longrightarrow> loc_reach u (fst (Put now tok b l))"
| reach_remove: "loc_reach u l \<Longrightarrow> loc_reach u (fst (Remove aor callID l))"
| reach_source: "loc_reach u l \<Longrightarrow> loc_reach u (fst (removeBySource u tr src l))"
| reach_prune: "loc_reach u l \<Longrightarrow> loc_reach u (fst (Prune now l))"

lemma loc_reach_inv: "loc_reach u l \<Longrightarrow> loc_inv l"
proof (induction rule: loc_reach.induct)
  case (reach_new hook)
  then show ?case by (simp add: loc_inv_def NewLocation_def [of hook] loc_ok_new [of hook, unfolded NewLocation_def])
next
  case (reach_put l tok b now)
  then show ?case by (simp add: Put_inv)
next
  case (reach_remove l aor callID)
  then show ?case using Remove_dropped by (simp add: dropped_def)
next
  case (reach_source l tr src)
  then show ?case using removeBySource_dropped by (simp add: dropped_def)
next
  case (reach_prune l now)
  then show ?case using Prune_dropped by (simp add: dropped_def)
qed

text \<open>The caps of a reachable table are the defaults.\<close>

lemma put_locked_caps: "maxTotal (fst (put_locked now tok b l)) = maxTotal (swept now b l)"
  "maxPerAOR (fst (put_locked now tok b l)) = maxPerAOR (swept now b l)"
  by (simp_all add: put_locked_def Let_def split: option.splits)

lemma loc_caps_drops: "drops P l l' \<Longrightarrow> maxTotal (fst (flushRemoved l')) = maxTotal l \<and>
    maxPerAOR (fst (flushRemoved l')) = maxPerAOR l"
  by (simp add: drops_def flushRemoved_def)

lemma reach_caps: "loc_reach u l \<Longrightarrow> maxTotal l = defaultMaxBindings \<and> maxPerAOR l = defaultMaxPerAOR"
proof (induction rule: loc_reach.induct)
  case (reach_new hook)
  then show ?case by (simp add: NewLocation_def)
next
  case (reach_put l tok b now)
  have "loc_ok l" using loc_reach_inv [OF reach_put.hyps(1)] by (simp add: loc_inv_def)
  then show ?case
    using reach_put.IH dropsD(4,5) [OF pruneAOR_drops(1), of l "b_AOR b" now]
    by (simp add: Put_def Let_def case_prod_beta flushRemoved_def put_locked_caps)
next
  case (reach_remove l aor callID)
  have "loc_ok l" using loc_reach_inv [OF reach_remove.hyps] by (simp add: loc_inv_def)
  from loc_caps_drops [OF remove_one_drops(1) [OF this]] show ?case
    using reach_remove.IH by (simp add: Remove_alt Let_def case_prod_beta)
next
  case (reach_source l tr src)
  have "loc_ok l" using loc_reach_inv [OF reach_source.hyps] by (simp add: loc_inv_def)
  from loc_caps_drops [OF victims_drops(1) [OF this]] show ?case
    using reach_source.IH by (simp add: removeBySource_alt Let_def case_prod_beta)
next
  case (reach_prune l now)
  have "loc_ok l" using loc_reach_inv [OF reach_prune.hyps] by (simp add: loc_inv_def)
  from loc_caps_drops [OF pruneLocked_drops(1) [OF this]] show ?case
    using reach_prune.IH by (simp add: Prune_def Let_def case_prod_beta)
qed

section \<open>Views\<close>

lemma HasSource_iff:
  assumes "loc_ok l"
  shows "HasSource u now tr src l \<longleftrightarrow>
    (\<exists>t b. lookup l t = Some b \<and> b_Source b = src \<and> equal_fold u (b_Transport b) tr \<and> \<not> Expired now b)"
  unfolding HasSource_def list_ex_iff source_list [OF assms] lookup_Some [OF assms] Bex_def by blast

lemma HasIP_iff:
  assumes "loc_ok l"
  shows "HasIP ip l \<longleftrightarrow> (\<exists>t b. lookup l t = Some b \<and> src_ip b = unmap ip)"
proof -
  have "HasIP ip l \<longleftrightarrow> {p \<in> live l. src_ip (l_heap l p) = unmap ip} \<noteq> {}"
    using loc_okD(4) [OF assms] by (simp add: HasIP_def cnt_ok_def card_gt_0_iff)
  then show ?thesis using lookup_Some [OF assms] by auto
qed

lemma ByAOR_set:
  assumes "loc_ok l"
  shows "set (ByAOR u now a l) = {b. \<exists>t. lookup l t = Some b \<and> b_AOR b = to_lower u a \<and> \<not> Expired now b}"
    "distinct (ByAOR u now a l)"
proof -
  show "set (ByAOR u now a l) = {b. \<exists>t. lookup l t = Some b \<and> b_AOR b = to_lower u a \<and> \<not> Expired now b}"
    unfolding ByAOR_def using aor_list [OF assms] lookup_Some [OF assms] by auto
  have "inj_on (l_heap l) (set (m_get0 [] (byAOR l) (to_lower u a)))"
    using aor_list [OF assms] heap_inj [OF assms] by (auto intro!: inj_onI)
  then show "distinct (ByAOR u now a l)"
    unfolding ByAOR_def using ix_okD(1) [OF loc_okD(2) [OF assms]] by (simp add: distinct_map)
qed

lemma source_scan_spec:
  "source_scan u now tr user first bs =
     (let ok = filter (\<lambda>b. equal_fold u (b_Transport b) tr \<and> \<not> Expired now b) bs in
      case find (\<lambda>b. user \<noteq> [] \<and> equal_fold u (b_User b) user) ok of
        Some b \<Rightarrow> Some b
      | None \<Rightarrow> (case first of Some f \<Rightarrow> Some f | None \<Rightarrow> (case ok of [] \<Rightarrow> None | b # _ \<Rightarrow> Some b)))"
proof (induction bs arbitrary: first)
  case (Cons b bs)
  then show ?case
    by (cases "equal_fold u (b_Transport b) tr \<and> \<not> Expired now b"; cases "user \<noteq> [] \<and> equal_fold u (b_User b) user";
        cases first) (auto simp: Let_def split: option.splits)
qed (simp split: option.splits)

lemma pick_in:
  "(case find Q xs of Some b \<Rightarrow> Some b | None \<Rightarrow> (case xs of [] \<Rightarrow> None | b # _ \<Rightarrow> Some b)) = Some b \<Longrightarrow> b \<in> set xs"
  by (cases "find Q xs") (auto split: list.splits dest: find_SomeD)

lemma SourceBinding_some:
  assumes "loc_ok l"
  shows "SourceBinding u now tr src user l \<noteq> None \<longleftrightarrow> HasSource u now tr src l"
    "SourceBinding u now tr src user l = Some b \<Longrightarrow>
      \<exists>t. lookup l t = Some b \<and> b_Source b = src \<and> equal_fold u (b_Transport b) tr \<and> \<not> Expired now b"
proof -
  let ?ok = "filter (\<lambda>b. equal_fold u (b_Transport b) tr \<and> \<not> Expired now b) (map (l_heap l) (m_get0 [] (bySource l) src))"
  have e: "SourceBinding u now tr src user l = (case find (\<lambda>b. user \<noteq> [] \<and> equal_fold u (b_User b) user) ?ok of
        Some b \<Rightarrow> Some b | None \<Rightarrow> (case ?ok of [] \<Rightarrow> None | b # _ \<Rightarrow> Some b))"
    unfolding SourceBinding_def source_scan_spec Let_def by (simp split: option.splits)
  have h: "HasSource u now tr src l \<longleftrightarrow> ?ok \<noteq> []"
    by (auto simp: HasSource_def list_ex_iff filter_empty_conv)
  show "SourceBinding u now tr src user l \<noteq> None \<longleftrightarrow> HasSource u now tr src l"
    unfolding e h by (cases ?ok) (auto split: option.splits)
  assume "SourceBinding u now tr src user l = Some b"
  then have "b \<in> set ?ok"
    unfolding e by (rule pick_in)
  then obtain p where "p \<in> set (m_get0 [] (bySource l) src)" "b = l_heap l p"
      "equal_fold u (b_Transport b) tr" "\<not> Expired now b" by auto
  then show "\<exists>t. lookup l t = Some b \<and> b_Source b = src \<and> equal_fold u (b_Transport b) tr \<and> \<not> Expired now b"
    unfolding source_list [OF assms] lookup_Some [OF assms] by blast
qed

section \<open>Properties\<close>

text \<open>Two registrations of one user, for the examples.\<close>

definition demo_binding :: "string \<Rightarrow> binding" where
  "demo_binding cid = \<lparr>b_Token = [], b_AOR = ''a@x'', b_User = ''a'', b_Transport = ''udp'',
     b_Source = (V4 1, 5060), b_ExpiresAt = 100, b_CallID = cid\<rparr>"

abbreviation demo_unicode :: unicode where
  "demo_unicode \<equiv> \<lparr>u_lower = (\<lambda>s. s), u_fold = (=)\<rparr>"

definition demo_loc :: location where
  "demo_loc = fst (Put 10 ''t1'' (demo_binding ''c1'') (NewLocation True))"

lemma demo_loc_fresh: "fresh_put ''t1'' (demo_binding ''c1'') (NewLocation True)"
  by (simp add: fresh_put_def lookup_def NewLocation_def)

lemma demo_loc_reach: "loc_reach u demo_loc"
  unfolding demo_loc_def by (rule reach_put [OF reach_new demo_loc_fresh])

lemma demo_loc_inv: "loc_inv demo_loc"
  using loc_reach_inv [OF demo_loc_reach] .

lemma demo_loc_eq:
  "lookup demo_loc = [''t1'' \<mapsto> demo_binding ''c1''\<lparr>b_Token := ''t1''\<rparr>]" "l_hook demo_loc"
  "Count demo_loc = 1"
  by (simp_all add: demo_loc_def Put_def put_locked_def pruneAOR_def NewLocation_def m_get0_def demo_binding_def
      indexSource_def flushRemoved_def defaultMaxPerAOR_def defaultMaxBindings_def lookup_def fun_eq_iff Let_def Count_def)

text \<open>
  C8: the indexes of the registration table never disagree. In every table the edge can reach,
  with \<open>lookup\<close> the bindings by token: the INVITE admission check \<^verbatim>\<open>HasSource\<close> answers true
  exactly when some unexpired binding has that source and transport, \<^verbatim>\<open>SourceBinding\<close> finds one
  exactly then and it is one of them, the strike exemption \<^verbatim>\<open>HasIP\<close> is true exactly when some
  binding came from that IP, and \<^verbatim>\<open>ByAOR\<close> lists each unexpired binding of the AoR once and
  nothing else.
\<close>

theorem registration_views_agree:
  assumes "loc_reach u l"
  shows "(HasSource u now tr src l \<longleftrightarrow>
      (\<exists>t b. lookup l t = Some b \<and> b_Source b = src \<and> equal_fold u (b_Transport b) tr \<and> \<not> Expired now b)) \<and>
    (SourceBinding u now tr src user l \<noteq> None \<longleftrightarrow> HasSource u now tr src l) \<and>
    (\<forall>b. SourceBinding u now tr src user l = Some b \<longrightarrow>
      (\<exists>t. lookup l t = Some b \<and> b_Source b = src \<and> equal_fold u (b_Transport b) tr \<and> \<not> Expired now b)) \<and>
    (HasIP ip l \<longleftrightarrow> (\<exists>t b. lookup l t = Some b \<and> unmap (fst (b_Source b)) = unmap ip)) \<and>
    set (ByAOR u now a l) = {b. \<exists>t. lookup l t = Some b \<and> b_AOR b = to_lower u a \<and> \<not> Expired now b} \<and>
    distinct (ByAOR u now a l) \<and>
    (\<forall>t. ByToken now t l = (case lookup l t of None \<Rightarrow> None | Some b \<Rightarrow> if Expired now b then None else Some b))"
proof -
  have ok: "loc_ok l" using loc_reach_inv [OF assms] by (simp add: loc_inv_def)
  have "ByToken now t l = (case lookup l t of None \<Rightarrow> None | Some b \<Rightarrow> if Expired now b then None else Some b)" for t
    by (simp add: ByToken_def lookup_def split: option.splits)
  then show ?thesis
    by (intro conjI allI impI)
      (rule HasSource_iff [OF ok] SourceBinding_some [OF ok] HasIP_iff [OF ok, unfolded src_ip_def] ByAOR_set [OF ok],
        assumption?)+
qed

theorem registration_views_agree_witness:
  "HasSource demo_unicode 20 ''UDP'' (V4 1, 5060) demo_loc \<and> HasIP (V4 1) demo_loc"
proof -
  let ?b = "demo_binding ''c1''\<lparr>b_Token := ''t1''\<rparr>"
  have l: "lookup demo_loc ''t1'' = Some ?b" by (simp add: demo_loc_eq)
  have u: "equal_fold demo_unicode ''udp'' ''UDP''" by code_simp
  have b: "b_Source ?b = (V4 1, 5060)" "b_Transport ?b = ''udp''" "\<not> Expired 20 ?b"
    by (simp_all add: demo_binding_def Expired_def t_before_def)
  note v = registration_views_agree [OF demo_loc_reach, of demo_unicode 20 "''UDP''" "(V4 1, 5060)" "[]" "V4 1"]
  have "HasSource demo_unicode 20 ''UDP'' (V4 1, 5060) demo_loc"
    by (rule v [THEN conjunct1, THEN iffD2]) (rule exI [of _ "''t1''"], rule exI [of _ ?b], use l u b in simp)
  moreover have "HasIP (V4 1) demo_loc"
    by (rule v [THEN conjunct2, THEN conjunct2, THEN conjunct2, THEN conjunct1, THEN iffD2])
      (rule exI [of _ "''t1''"], rule exI [of _ ?b], use l b(1) in simp)
  ultimately show ?thesis ..
qed

text \<open>
  The registration table is bounded and no flow is stored twice. In every reachable table
  there are at most 20000 bindings in all and 10 per address-of-record, and two bindings with
  the same AoR and Call-ID are the same binding.
\<close>

theorem registration_bounds:
  assumes "loc_reach u l"
  shows "Count l \<le> 20000 \<and> length (m_get0 [] (byAOR l) a) \<le> 10 \<and>
    (\<forall>t t' b b'. lookup l t = Some b \<and> lookup l t' = Some b' \<and> same_flow b b' \<longrightarrow> t = t' \<and> b = b')"
proof -
  have ok: "loc_ok l" using loc_reach_inv [OF assms] by (simp add: loc_inv_def)
  have "t = t' \<and> b = b'" if b: "lookup l t = Some b" "lookup l t' = Some b'" "same_flow b b'" for t t' b b'
  proof -
    obtain p q where "p \<in> live l" "l_heap l p = b" "b_Token b = t" "q \<in> live l" "l_heap l q = b'" "b_Token b' = t'"
      using b(1,2) unfolding lookup_Some [OF ok] by blast
    then show ?thesis using loc_okD(9) [OF ok, of p q] b(3) by auto
  qed
  then have "\<forall>t t' b b'. lookup l t = Some b \<and> lookup l t' = Some b' \<and> same_flow b b' \<longrightarrow> t = t' \<and> b = b'"
    by blast
  moreover have "Count l \<le> 20000 \<and> length (m_get0 [] (byAOR l) a) \<le> 10"
    using loc_okD(7) [OF ok] loc_okD(8) [OF ok, of a] reach_caps [OF assms]
    by (simp add: Count_def defaultMaxBindings_def defaultMaxPerAOR_def)
  ultimately show ?thesis by blast
qed

theorem registration_bounds_witness:
  "Count demo_loc \<le> 20000 \<and> Count demo_loc = 1"
  using registration_bounds [OF demo_loc_reach] demo_loc_eq(3) by blast

text \<open>
  A refresh keeps the token. When a live binding of the same AoR and Call-ID exists,
  \<^verbatim>\<open>Put\<close> never fails, whatever the caps: it answers with that binding's token, the new source,
  transport and expiry are what every lookup sees from then on, and no other registration
  changes except expired ones of the same AoR, which are dropped (and reported to the hook).
\<close>

theorem refresh_keeps_token:
  assumes "loc_inv l" and "fresh_put tok b l" and "lookup l t = Some c" and "same_flow b c" and "\<not> Expired now c"
  shows "\<exists>p. fst (snd (Put now tok b l)) = Inr p \<and> l_heap (fst (Put now tok b l)) p = b\<lparr>b_Token := t\<rparr> \<and>
    loc_inv (fst (Put now tok b l)) \<and>
    (\<forall>t'. lookup (fst (Put now tok b l)) t' =
      (if t' = t then Some (b\<lparr>b_Token := t\<rparr>)
       else case lookup l t' of None \<Rightarrow> None
         | Some d \<Rightarrow> if b_AOR d = b_AOR b \<and> Expired now d then None else Some d))"
proof -
  have ok: "loc_ok l" using assms(1) by (simp add: loc_inv_def)
  let ?l1 = "swept now b l"
  note d = dropsD [OF pruneAOR_drops(1) [OF ok, of "b_AOR b" now]]
  have c: "lookup ?l1 t = Some c" using assms(3,5) by (simp add: d(7))
  then obtain q where q: "q \<in> live ?l1" "l_heap ?l1 q = c" "b_Token c = t"
    unfolding lookup_Some [OF d(1)] by blast
  note spec = put_locked_spec [OF ok assms(2), of now]
  obtain p where p: "snd (put_locked now tok b l) = Inr p"
    using spec q assms(4) by (auto simp: d(2) split: sum.splits)
  obtain t' where t': "l_heap (fst (put_locked now tok b l)) p = b\<lparr>b_Token := t'\<rparr>"
      "lookup (fst (put_locked now tok b l)) = (lookup ?l1)(t' \<mapsto> b\<lparr>b_Token := t'\<rparr>)"
      "\<exists>c. lookup ?l1 t' = Some c \<and> same_flow b c"
    using spec q assms(4) p by (auto simp: d(2))
  obtain c' q' where q': "q' \<in> live ?l1" "l_heap ?l1 q' = c'" "b_Token c' = t'" "same_flow b c'"
    using t'(3) unfolding lookup_Some [OF d(1)] by blast
  have "q' = q" using loc_okD(9) [OF d(1) q'(1) q(1)] q' q assms(4) by simp
  then have "t' = t" using q q' by simp
  moreover have "loc_inv (fst (Put now tok b l))" by (rule Put_inv [OF assms(1,2)])
  moreover have "fst (snd (Put now tok b l)) = Inr p"
      "l_heap (fst (Put now tok b l)) p = l_heap (fst (put_locked now tok b l)) p"
      "lookup (fst (Put now tok b l)) = lookup (fst (put_locked now tok b l))"
    using p by (simp_all add: Put_def Let_def case_prod_beta flushRemoved_def)
  ultimately show ?thesis
    using t'(1,2) by (auto simp: d(7))
qed

theorem refresh_keeps_token_witness:
  "let b = demo_binding ''c1''\<lparr>b_Source := (V4 2, 9), b_ExpiresAt := 500\<rparr> in
   lookup demo_loc ''t1'' = Some (demo_binding ''c1''\<lparr>b_Token := ''t1''\<rparr>) \<and>
   lookup (fst (Put 50 ''t2'' b demo_loc)) ''t1'' = Some (b\<lparr>b_Token := ''t1''\<rparr>)"
proof -
  let ?b = "demo_binding ''c1''\<lparr>b_Source := (V4 2, 9), b_ExpiresAt := 500\<rparr>"
  let ?c = "demo_binding ''c1''\<lparr>b_Token := ''t1''\<rparr>"
  have f: "fresh_put ''t2'' ?b demo_loc"
    by (simp add: fresh_put_def demo_loc_eq demo_binding_def)
  have l: "lookup demo_loc ''t1'' = Some ?c" by (simp add: demo_loc_eq)
  have s: "same_flow ?b ?c" "\<not> Expired 50 ?c"
    by (simp_all add: demo_binding_def Expired_def t_before_def)
  show ?thesis
    using refresh_keeps_token [OF demo_loc_inv f l s] l by (auto simp: Let_def)
qed

text \<open>
  A new registration is stored or refused exactly by the caps. When no live binding of the
  AoR and Call-ID exists, \<^verbatim>\<open>Put\<close> first drops the AoR's expired bindings, and then fails exactly
  when 10 of the AoR's (or 20000 in all) remain, changing nothing else; otherwise the binding is
  found under a token that was unused, next to everything that was kept.
\<close>

theorem put_new_exact:
  assumes "loc_inv l" and "fresh_put tok b l"
    and "\<forall>t c. lookup l t = Some c \<and> same_flow b c \<longrightarrow> Expired now c"
  shows "(\<exists>e. fst (snd (Put now tok b l)) = Inl e) =
      (maxPerAOR l \<le> length (m_get0 [] (byAOR (swept now b l)) (b_AOR b)) \<or>
       maxTotal l \<le> Count (swept now b l)) \<and>
    (\<forall>e t. fst (snd (Put now tok b l)) = Inl e \<longrightarrow>
      lookup (fst (Put now tok b l)) t = lookup (swept now b l) t) \<and>
    (\<forall>p. fst (snd (Put now tok b l)) = Inr p \<longrightarrow>
      (let t = (if b_Token b = [] then tok else b_Token b) in
       lookup (swept now b l) t = None \<and>
       lookup (fst (Put now tok b l)) = (lookup (swept now b l))(t \<mapsto> b\<lparr>b_Token := t\<rparr>))) \<and>
    (\<forall>t. lookup (swept now b l) t = (case lookup l t of None \<Rightarrow> None
       | Some d \<Rightarrow> if b_AOR d = b_AOR b \<and> Expired now d then None else Some d))"
proof -
  have ok: "loc_ok l" using assms(1) by (simp add: loc_inv_def)
  let ?l1 = "swept now b l"
  note d = dropsD [OF pruneAOR_drops(1) [OF ok, of "b_AOR b" now]]
  have no: "\<not> same_flow b c" if "lookup ?l1 t = Some c" for t c
    using that assms(3) by (auto simp: d(7) split: option.splits if_splits)
  note spec = put_locked_spec [OF ok assms(2), of now]
  have e: "fst (snd (Put now tok b l)) = snd (put_locked now tok b l)"
      "lookup (fst (Put now tok b l)) = lookup (fst (put_locked now tok b l))"
    by (simp_all add: Put_def Let_def case_prod_beta flushRemoved_def)
  show ?thesis
  proof (cases "snd (put_locked now tok b l)")
    case (Inl s)
    then show ?thesis
      using spec by (cases s) (auto simp: e Count_def d(7))
  next
    case (Inr p)
    then show ?thesis
      using spec no by (auto simp: e Count_def d(7) Let_def)
  qed
qed

theorem put_new_exact_witness:
  "(\<exists>e. fst (snd (Put 50 ''t2'' (demo_binding ''c2'') demo_loc)) = Inl e) =
     (maxPerAOR demo_loc \<le> length (m_get0 [] (byAOR (swept 50 (demo_binding ''c2'') demo_loc)) (b_AOR (demo_binding ''c2''))) \<or>
      maxTotal demo_loc \<le> Count (swept 50 (demo_binding ''c2'') demo_loc))"
proof -
  have f: "fresh_put ''t2'' (demo_binding ''c2'') demo_loc"
    by (simp add: fresh_put_def demo_loc_eq demo_binding_def)
  have "\<forall>t c. lookup demo_loc t = Some c \<and> same_flow (demo_binding ''c2'') c \<longrightarrow> Expired 50 c"
    by (simp add: demo_loc_eq demo_binding_def)
  then show ?thesis using put_new_exact [OF demo_loc_inv f] by blast
qed

text \<open>
  A closed stream takes exactly its own registrations. \<^verbatim>\<open>RemoveBySourceOn\<close> removes every
  binding of that source registered over that transport (case-insensitively) and no other,
  returns how many, and tells the hook each removed token once.
\<close>

theorem stream_close_removes_exactly:
  assumes "loc_inv l"
  shows "loc_inv (fst (RemoveBySourceOn u tr src l)) \<and>
    (\<forall>t. lookup (fst (RemoveBySourceOn u tr src l)) t = (case lookup l t of None \<Rightarrow> None
       | Some b \<Rightarrow> if b_Source b = src \<and> (tr = [] \<or> equal_fold u (b_Transport b) tr) then None else Some b)) \<and>
    Count (fst (RemoveBySourceOn u tr src l)) + fst (snd (RemoveBySourceOn u tr src l)) = Count l \<and>
    distinct (snd (snd (RemoveBySourceOn u tr src l))) \<and>
    (l_hook l \<longrightarrow> set (snd (snd (RemoveBySourceOn u tr src l))) =
       {t. \<exists>b. lookup l t = Some b \<and> b_Source b = src \<and> (tr = [] \<or> equal_fold u (b_Transport b) tr)})"
  using removeBySource_dropped [OF assms, of src tr u] by (simp add: dropped_def RemoveBySourceOn_def)

theorem stream_close_removes_exactly_witness:
  "Count (fst (RemoveBySourceOn demo_unicode ''udp'' (V4 1, 5060) demo_loc)) +
     fst (snd (RemoveBySourceOn demo_unicode ''udp'' (V4 1, 5060) demo_loc)) = 1"
  using stream_close_removes_exactly [OF demo_loc_inv, of demo_unicode "''udp''" "(V4 1, 5060)"] demo_loc_eq(3) by simp

text \<open>
  The sweep drops exactly the lapsed registrations. \<^verbatim>\<open>Prune\<close> keeps every unexpired binding as
  it was, removes every expired one from every index, returns how many went, and tells the hook
  each of their tokens once.
\<close>

theorem prune_exact:
  assumes "loc_inv l"
  shows "loc_inv (fst (Prune now l)) \<and>
    (\<forall>t. lookup (fst (Prune now l)) t = (case lookup l t of None \<Rightarrow> None
       | Some b \<Rightarrow> if Expired now b then None else Some b)) \<and>
    Count (fst (Prune now l)) + fst (snd (Prune now l)) = Count l \<and>
    distinct (snd (snd (Prune now l))) \<and>
    (l_hook l \<longrightarrow> set (snd (snd (Prune now l))) = {t. \<exists>b. lookup l t = Some b \<and> Expired now b})"
  using Prune_dropped [OF assms, of now] by (simp add: dropped_def)

theorem prune_exact_witness:
  "lookup (fst (Prune 100 demo_loc)) ''t1'' = None \<and> set (snd (snd (Prune 100 demo_loc))) = {''t1''}"
proof -
  have "Expired 100 (demo_binding ''c1''\<lparr>b_Token := ''t1''\<rparr>)"
    by (simp add: demo_binding_def Expired_def t_before_def)
  then have "{t. \<exists>b. lookup demo_loc t = Some b \<and> Expired 100 b} = {''t1''}"
    by (auto simp: demo_loc_eq split: if_splits)
  then show ?thesis
    using prune_exact [OF demo_loc_inv, of 100] demo_loc_eq(1,2) \<open>Expired 100 _\<close> by simp
qed

end
