(* ===== verification/Portpool.thy ===== *)
theory Portpool
  imports Netip
begin

text \<open>
  RTP port allocation, \<^verbatim>\<open>src/internal/media/portpool.go\<close>. \<open>par\<close> is the snapshot of
  \<^verbatim>\<open>PlaneParams\<close> an allocation acts on. The operating system is the argument \<open>listen\<close>: does the
  \<open>n\<close>-th \<^verbatim>\<open>net.ListenUDP\<close> of the sweep succeed on a port? Sockets that are open are the list
  \<open>socks\<close>. The critical sections \<open>reserveNext\<close> and \<open>release\<close> are the atomic steps of the pool
  machine \<open>pool_step\<close>, which interleaves any number of callers.
\<close>

section \<open>Model\<close>

record dest_policy =
  Restrict :: bool
  AllowPrivate :: bool
  Own :: "addr list"

record plane_params =
  MinPort :: "16 word"
  MaxPort :: "16 word"
  BindIP :: addr
  pp_Timeout :: dur
  AllowLoopback :: bool
  Dest :: dest_policy

definition refuses :: "dest_policy \<Rightarrow> addr \<Rightarrow> bool" where
  "refuses p ip =
     (if \<not> Restrict p \<or> is_loopback ip then False
      else if is_private ip \<or> in_cgnat ip then \<not> AllowPrivate p
      else list_ex (\<lambda>o1. unmap o1 = ip) (Own p))"

record plane_pool =
  inUse :: "(int, unit) gomap"
  cursor :: int

definition NewPlanePool :: plane_pool where
  "NewPlanePool = \<lparr>inUse = [], cursor = 0\<rparr>"

text \<open>The bounds of the sweep: \<^verbatim>\<open>lo\<close> rounded up to even, \<^verbatim>\<open>hi\<close>, and the pairs that fit.\<close>

definition par_lo :: "plane_params \<Rightarrow> int" where
  "par_lo par = (let lo = uint (MinPort par) in if go_rem lo 2 \<noteq> 0 then lo + 1 else lo)"

definition par_hi :: "plane_params \<Rightarrow> int" where
  "par_hi par = uint (MaxPort par)"

definition par_pairs :: "plane_params \<Rightarrow> int" where
  "par_pairs par = go_quot (par_hi par - par_lo par + 1) 2"

definition wrap_cursor :: "int \<Rightarrow> int \<Rightarrow> int \<Rightarrow> int" where
  "wrap_cursor lo hi c = (if c < lo \<or> c + 1 > hi then lo else c)"

definition reserveNext :: "int \<Rightarrow> int \<Rightarrow> plane_pool \<Rightarrow> plane_pool \<times> int \<times> bool" where
  "reserveNext lo hi p =
     (let port = wrap_cursor lo hi (cursor p);
          c = port + 2; c' = (if c + 1 > hi then lo else c);
          p1 = p\<lparr>cursor := c'\<rparr>
      in if m_get (inUse p1) port \<noteq> None then (p1, port, False)
         else (p1\<lparr>inUse := m_set port () (inUse p1)\<rparr>, port, True))"

definition pool_release :: "int \<Rightarrow> plane_pool \<Rightarrow> plane_pool" where
  "pool_release port p = p\<lparr>inUse := m_del port (inUse p)\<rparr>"

text \<open>The sweep: \<open>k\<close> candidates are left, \<open>n\<close> is the number of binds tried so far.\<close>

fun sweep_loop :: "(nat \<Rightarrow> int \<Rightarrow> 'v option) \<Rightarrow> int \<Rightarrow> int \<Rightarrow> nat \<Rightarrow> nat \<Rightarrow> plane_pool \<Rightarrow> plane_pool \<times> (int \<times> 'v) option" where
  "sweep_loop bind lo hi 0 n p = (p, None)"
| "sweep_loop bind lo hi (Suc k) n p =
     (let (p1, port, ok) = reserveNext lo hi p in
      if \<not> ok then sweep_loop bind lo hi k n p1
      else case bind n port of
        None \<Rightarrow> sweep_loop bind lo hi k (n + 1) (pool_release port p1)
      | Some v \<Rightarrow> (p1, Some (port, v)))"

definition sweep :: "(nat \<Rightarrow> int \<Rightarrow> 'v option) \<Rightarrow> plane_params \<Rightarrow> plane_pool \<Rightarrow> plane_pool \<times> (int \<times> 'v) option" where
  "sweep bind par p = sweep_loop bind (par_lo par) (par_hi par) (nat (par_pairs par)) 0 p"

text \<open>
  \<open>bindPair\<close>: RTP, then RTCP; the RTP socket is closed again when RTCP fails. The result is the
  pair of bound ports, so what stays open is exactly what is returned.
\<close>

definition bindPair :: "(nat \<Rightarrow> int \<Rightarrow> bool) \<Rightarrow> nat \<Rightarrow> int \<Rightarrow> (int \<times> int) option" where
  "bindPair listen n port =
     (if \<not> listen (2 * n) port then None
      else if \<not> listen (2 * n + 1) (port + 1) then None
      else Some (port, port + 1))"

definition allocatePairWith :: "(nat \<Rightarrow> int \<Rightarrow> bool) \<Rightarrow> plane_params \<Rightarrow> plane_pool \<Rightarrow> plane_pool \<times> (int \<times> int) option" where
  "allocatePairWith listen par p = (let (p1, r) = sweep (bindPair listen) par p in (p1, map_option snd r))"

definition allocateSingle :: "(nat \<Rightarrow> int \<Rightarrow> bool) \<Rightarrow> plane_params \<Rightarrow> plane_pool \<Rightarrow> plane_pool \<times> int option" where
  "allocateSingle listen par p =
     (let (p1, r) = sweep (\<lambda>n port. if listen n port then Some port else None) par p in (p1, map_option snd r))"

definition pool_stats :: "plane_params \<Rightarrow> plane_pool \<Rightarrow> nat \<times> int" where
  "pool_stats par p =
     (let total = par_pairs par; total' = (if total < 0 then 0 else total)
      in (length (filter (\<lambda>(port, _). port \<ge> par_lo par \<and> port + 1 \<le> par_hi par) (inUse p)), total'))"

section \<open>Ranges\<close>

definition even_in :: "plane_params \<Rightarrow> int \<Rightarrow> bool" where
  "even_in par port \<longleftrightarrow> even port \<and> par_lo par \<le> port \<and> port + 1 \<le> par_hi par"

lemma par_bounds: "0 \<le> par_lo par" "even (par_lo par)" "uint (MinPort par) \<le> par_lo par" "par_hi par \<le> 65535"
proof -
  have "0 \<le> uint (MinPort par)" by simp
  then show "0 \<le> par_lo par" "uint (MinPort par) \<le> par_lo par"
    by (auto simp: par_lo_def Let_def)
  show "even (par_lo par)"
    using \<open>0 \<le> uint (MinPort par)\<close> by (simp add: par_lo_def Let_def go_rem_nonneg) presburger
  show "par_hi par \<le> 65535"
    using uint_lt2p [of "MaxPort par"] by (simp add: par_hi_def)
qed

lemma par_pairs_pos:
  "0 < par_pairs par \<Longrightarrow> par_pairs par = (par_hi par - par_lo par + 1) div 2 \<and> par_lo par + 1 \<le> par_hi par"
  by (auto simp: par_pairs_def go_quot_def sgn_if split: if_splits)

lemma par_pairs_none: "par_pairs par \<le> 0 \<Longrightarrow> \<not> even_in par port"
proof
  assume a: "par_pairs par \<le> 0" "even_in par port"
  then have "0 \<le> par_hi par - par_lo par + 1" by (simp add: even_in_def)
  then have "par_pairs par = (par_hi par - par_lo par + 1) div 2"
    by (simp add: par_pairs_def go_quot_nonneg)
  then show False using a unfolding even_in_def by linarith
qed

text \<open>The \<open>i\<close>-th even port of the range.\<close>

definition nth_port :: "plane_params \<Rightarrow> nat \<Rightarrow> int" where
  "nth_port par i = par_lo par + 2 * int i"

lemma even_in_nth:
  assumes "0 < par_pairs par"
  shows "even_in par port \<longleftrightarrow> (\<exists>i < nat (par_pairs par). port = nth_port par i)"
proof
  assume e: "even_in par port"
  then obtain k where k: "port = par_lo par + 2 * k"
  proof -
    have "even (port - par_lo par)" using e par_bounds(2) [of par] by (simp add: even_in_def)
    then obtain k where "port - par_lo par = 2 * k" by (rule dvdE)
    then have "port = par_lo par + 2 * k" by linarith
    then show thesis by (rule that)
  qed
  have "0 \<le> k" "2 * k + 1 \<le> par_hi par - par_lo par" using e k by (auto simp: even_in_def)
  then have "k < par_pairs par" using par_pairs_pos [OF assms] by auto
  then show "\<exists>i < nat (par_pairs par). port = nth_port par i"
    using k \<open>0 \<le> k\<close> by (intro exI [of _ "nat k"]) (auto simp: nth_port_def)
next
  assume "\<exists>i < nat (par_pairs par). port = nth_port par i"
  then obtain i where i: "i < nat (par_pairs par)" "port = nth_port par i" by blast
  then have "int i < (par_hi par - par_lo par + 1) div 2" using par_pairs_pos [OF assms] assms by simp
  then show "even_in par port"
    using i par_bounds(2) [of par] by (auto simp: even_in_def nth_port_def)
qed

section \<open>One lap\<close>

definition pool_ok :: "plane_pool \<Rightarrow> bool" where
  "pool_ok p \<longleftrightarrow> wf_map (inUse p) \<and> even (cursor p) \<and> keys (inUse p) \<subseteq> {k. even k}"

lemma pool_ok_new [simp]: "pool_ok NewPlanePool"
  by (simp add: pool_ok_def NewPlanePool_def)

text \<open>The cursor, read at a candidate, is the \<open>i\<close>-th port; it moves to the next one, cyclically.\<close>

definition at_index :: "plane_params \<Rightarrow> nat \<Rightarrow> plane_pool \<Rightarrow> bool" where
  "at_index par i p \<longleftrightarrow> i < nat (par_pairs par) \<and> wrap_cursor (par_lo par) (par_hi par) (cursor p) = nth_port par i"

lemma unit_option [simp]: "(x :: unit option) \<noteq> Some () \<longleftrightarrow> x = None"
  by (cases x) auto

lemma reserveNext_at:
  assumes "0 < par_pairs par" "at_index par i p"
  shows "fst (snd (reserveNext (par_lo par) (par_hi par) p)) = nth_port par i"
    "at_index par ((i + 1) mod nat (par_pairs par)) (fst (reserveNext (par_lo par) (par_hi par) p))"
    "snd (snd (reserveNext (par_lo par) (par_hi par) p)) \<longleftrightarrow> m_get (inUse p) (nth_port par i) = None"
    "inUse (fst (reserveNext (par_lo par) (par_hi par) p)) =
      (if m_get (inUse p) (nth_port par i) = None then m_set (nth_port par i) () (inUse p) else inUse p)"
proof -
  let ?c = "nth_port par i + 2"
  let ?c' = "if ?c + 1 > par_hi par then par_lo par else ?c"
  have i: "i < nat (par_pairs par)" and w: "wrap_cursor (par_lo par) (par_hi par) (cursor p) = nth_port par i"
    using assms(2) by (simp_all add: at_index_def)
  show "fst (snd (reserveNext (par_lo par) (par_hi par) p)) = nth_port par i"
    "snd (snd (reserveNext (par_lo par) (par_hi par) p)) \<longleftrightarrow> m_get (inUse p) (nth_port par i) = None"
    "inUse (fst (reserveNext (par_lo par) (par_hi par) p)) =
      (if m_get (inUse p) (nth_port par i) = None then m_set (nth_port par i) () (inUse p) else inUse p)"
    by (auto simp: reserveNext_def Let_def w split: option.splits)
  have c: "cursor (fst (reserveNext (par_lo par) (par_hi par) p)) = ?c'"
    by (simp add: reserveNext_def Let_def w)
  have "wrap_cursor (par_lo par) (par_hi par) ?c' = nth_port par ((i + 1) mod nat (par_pairs par))"
  proof (cases "i + 1 < nat (par_pairs par)")
    case True
    then have "even_in par (nth_port par (i + 1))"
      using even_in_nth [OF assms(1)] by blast
    then show ?thesis
      using True by (auto simp: even_in_def nth_port_def wrap_cursor_def)
  next
    case False
    then have e: "i + 1 = nat (par_pairs par)" using i by simp
    then have "int i + 1 = (par_hi par - par_lo par + 1) div 2"
      using par_pairs_pos [OF assms(1)] assms(1) by linarith
    then have "?c + 1 > par_hi par" by (auto simp: nth_port_def)
    then show ?thesis
      using e par_pairs_pos [OF assms(1)] by (auto simp: nth_port_def wrap_cursor_def)
  qed
  then show "at_index par ((i + 1) mod nat (par_pairs par)) (fst (reserveNext (par_lo par) (par_hi par) p))"
    using i by (simp add: at_index_def c)
qed

lemma at_index_exists:
  assumes "0 < par_pairs par" "even (cursor p)"
  shows "\<exists>i. at_index par i p"
proof -
  have "even_in par (wrap_cursor (par_lo par) (par_hi par) (cursor p))"
    using assms(2) par_bounds(2) par_pairs_pos [OF assms(1)] by (auto simp: even_in_def wrap_cursor_def)
  then show ?thesis
    using even_in_nth [OF assms(1)] by (auto simp: at_index_def)
qed

lemma set_del_id:
  assumes "m_get m k = None"
  shows "m_del k (m_set k v m) = m"
proof -
  have "k \<notin> keys m" using assms by (simp add: m_get_None)
  then show ?thesis
    by (induction m) (auto simp: AList.delete_eq)
qed

lemma sweep_loop_lap:
  assumes "0 < par_pairs par"
  shows "at_index par i p \<Longrightarrow>
    (case sweep_loop bind (par_lo par) (par_hi par) k n p of
       (p', None) \<Rightarrow> inUse p' = inUse p \<and>
         (\<forall>j < k. let port = nth_port par ((i + j) mod nat (par_pairs par)) in
            m_get (inUse p) port \<noteq> None \<or> (\<exists>n. bind n port = None))
     | (p', Some (port, v)) \<Rightarrow> (\<exists>j < k. port = nth_port par ((i + j) mod nat (par_pairs par))) \<and>
         m_get (inUse p) port = None \<and> inUse p' = m_set port () (inUse p) \<and> (\<exists>n. bind n port = Some v))"
proof (induction k arbitrary: i n p)
  case 0
  then show ?case by simp
next
  case (Suc k)
  let ?N = "nat (par_pairs par)"
  let ?port = "nth_port par i"
  obtain p1 ok where e: "reserveNext (par_lo par) (par_hi par) p = (p1, ?port, ok)"
    using reserveNext_at(1) [OF assms Suc.prems] by (metis prod.collapse)
  note r = reserveNext_at [OF assms Suc.prems, unfolded e fst_conv snd_conv]
  have i: "i mod ?N = i" using Suc.prems by (simp add: at_index_def)
  have shift: "((i + 1) mod ?N + j) mod ?N = (i + Suc j) mod ?N" for j
    by (simp add: mod_add_left_eq)
  have step: "(\<forall>j < Suc k. Q (nth_port par ((i + j) mod ?N))) \<longleftrightarrow>
      Q ?port \<and> (\<forall>j < k. Q (nth_port par (((i + 1) mod ?N + j) mod ?N)))" for Q
    unfolding All_less_Suc2 shift by (simp only: add_0_right i)
  have ex: "\<exists>j < k. port = nth_port par (((i + 1) mod ?N + j) mod ?N) \<Longrightarrow>
      \<exists>j < Suc k. port = nth_port par ((i + j) mod ?N)" for port
    unfolding shift using Suc_mono by blast
  show ?case
  proof (cases "m_get (inUse p) ?port = None \<and> (\<exists>v. bind n ?port = Some v)")
    case True
    then obtain v where v: "m_get (inUse p) ?port = None" "bind n ?port = Some v" by blast
    then have "sweep_loop bind (par_lo par) (par_hi par) (Suc k) n p = (p1, Some (?port, v))"
      using r(3) e by simp
    moreover have "\<exists>j < Suc k. ?port = nth_port par ((i + j) mod ?N)"
      by (rule exI [of _ 0]) (simp add: i)
    ultimately show ?thesis
      using v r(4) by auto
  next
    case False
    define p2 where "p2 = (if m_get (inUse p) ?port = None then pool_release ?port p1 else p1)"
    define m where "m = (if m_get (inUse p) ?port = None then n + 1 else n)"
    have rest: "sweep_loop bind (par_lo par) (par_hi par) (Suc k) n p = sweep_loop bind (par_lo par) (par_hi par) k m p2"
      using e r(3) False by (auto simp: p2_def m_def split: option.splits)
    have inu: "inUse p2 = inUse p"
      using r(4) by (auto simp: p2_def pool_release_def set_del_id)
    have "at_index par ((i + 1) mod ?N) p2"
      using r(2) by (simp add: p2_def at_index_def pool_release_def)
    from Suc.IH [OF this, of m] show ?thesis
      unfolding rest inu Let_def using False step [of "\<lambda>port. m_get (inUse p) port \<noteq> None \<or> (\<exists>n. bind n port = None)"] ex
      by (auto split: prod.splits option.splits)
  qed
qed

lemma sweep_ok:
  assumes "pool_ok p"
  shows "pool_ok (fst (sweep_loop bind (par_lo par) (par_hi par) k n p))"
  using assms
proof (induction k arbitrary: n p)
  case (Suc k)
  have even_wrap: "even (wrap_cursor (par_lo par) (par_hi par) c)" if "even c" for c
    using that par_bounds(2) by (simp add: wrap_cursor_def)
  have r: "pool_ok (fst (reserveNext (par_lo par) (par_hi par) p))"
    using Suc.prems even_wrap [of "cursor p"] par_bounds(2) [of par]
    by (simp add: reserveNext_def Let_def pool_ok_def keys_set)
  moreover have "pool_ok (pool_release q p1)" if "pool_ok p1" for q p1
    using that by (auto simp: pool_release_def pool_ok_def)
  ultimately show ?case
    using Suc.IH by (auto simp: Let_def case_prod_beta split: option.splits)
qed simp

text \<open>The two outcomes of a sweep.\<close>

lemma sweep_fail:
  assumes "pool_ok p" "snd (sweep bind par p) = None" "even_in par port"
  shows "m_get (inUse p) port \<noteq> None \<or> (\<exists>n. bind n port = None)"
proof -
  let ?N = "nat (par_pairs par)"
  have pos: "0 < par_pairs par" using par_pairs_none [of par port] assms(3) by linarith
  obtain i where i: "at_index par i p" using at_index_exists [OF pos, of p] assms(1) by (auto simp: pool_ok_def)
  obtain l where l: "l < ?N" "port = nth_port par l" using even_in_nth [OF pos] assms(3) by blast
  define j where "j = (if i \<le> l then l - i else l + ?N - i)"
  have "i < ?N" using i by (simp add: at_index_def)
  then have j: "j < ?N" "(i + j) mod ?N = l" using l(1) by (auto simp: j_def)
  have "\<forall>j < ?N. let port = nth_port par ((i + j) mod ?N) in
      m_get (inUse p) port \<noteq> None \<or> (\<exists>n. bind n port = None)"
    using sweep_loop_lap [OF pos i, where bind = bind and k = ?N and n = 0] assms(2) by (auto simp: sweep_def split: prod.splits)
  then show ?thesis using j l(2) by (auto simp: Let_def)
qed

lemma sweep_fail_inUse:
  assumes "pool_ok p" "snd (sweep bind par p) = None"
  shows "inUse (fst (sweep bind par p)) = inUse p"
proof (cases "0 < par_pairs par")
  case True
  obtain i where i: "at_index par i p" using at_index_exists [OF True, of p] assms(1) by (auto simp: pool_ok_def)
  show ?thesis
    using sweep_loop_lap [OF True i, where bind = bind and k = "nat (par_pairs par)" and n = 0] assms(2)
    by (auto simp: sweep_def split: prod.splits)
next
  case False
  then show ?thesis by (simp add: sweep_def)
qed

lemma sweep_some:
  assumes "pool_ok p" "snd (sweep bind par p) = Some (port, v)"
  shows "even_in par port" "m_get (inUse p) port = None"
    "inUse (fst (sweep bind par p)) = m_set port () (inUse p)" "\<exists>n. bind n port = Some v"
proof -
  have pos: "0 < par_pairs par" using assms(2) by (cases "0 < par_pairs par") (auto simp: sweep_def)
  obtain i where i: "at_index par i p" using at_index_exists [OF pos, of p] assms(1) by (auto simp: pool_ok_def)
  note s = sweep_loop_lap [OF pos i, where bind = bind and k = "nat (par_pairs par)" and n = 0]
  show "m_get (inUse p) port = None" "inUse (fst (sweep bind par p)) = m_set port () (inUse p)" "\<exists>n. bind n port = Some v"
    using s assms(2) by (auto simp: sweep_def split: prod.splits)
  have "\<exists>j < nat (par_pairs par). port = nth_port par ((i + j) mod nat (par_pairs par))"
    using s assms(2) by (auto simp: sweep_def split: prod.splits)
  then show "even_in par port"
    unfolding even_in_nth [OF pos] using pos mod_less_divisor [of "nat (par_pairs par)"] zero_less_nat_eq by blast
qed

lemma bindPair_None: "bindPair listen n port = None \<longleftrightarrow> \<not> listen (2 * n) port \<or> \<not> listen (2 * n + 1) (port + 1)"
  by (simp only: bindPair_def split: if_split) blast

section \<open>Interleaved callers\<close>

text \<open>
  Every caller's allocation is a sequence of the two critical sections. \<open>held\<close> records who was
  given which port and has not released it.
\<close>

type_synonym holding = "(nat \<times> int) list"

inductive pool_step :: "plane_pool \<times> holding \<Rightarrow> plane_pool \<times> holding \<Rightarrow> bool" where
  step_reserve: "reserveNext (par_lo par) (par_hi par) p = (p', port, True) \<Longrightarrow>
    pool_step (p, held) (p', (who, port) # held)"
| step_busy: "reserveNext (par_lo par) (par_hi par) p = (p', port, False) \<Longrightarrow> pool_step (p, held) (p', held)"
| step_release: "(who, port) \<in> set held \<Longrightarrow> pool_step (p, held) (pool_release port p, remove1 (who, port) held)"

inductive pool_reach :: "plane_pool \<times> holding \<Rightarrow> bool" where
  reach_start: "pool_reach (NewPlanePool, [])"
| reach_step: "pool_reach s \<Longrightarrow> pool_step s s' \<Longrightarrow> pool_reach s'"

definition held_ok :: "plane_pool \<times> holding \<Rightarrow> bool" where
  "held_ok s \<longleftrightarrow> pool_ok (fst s) \<and> distinct (map snd (snd s)) \<and> set (map snd (snd s)) = keys (inUse (fst s))"

lemma reserveNext_ok:
  assumes "pool_ok p" "reserveNext (par_lo par) (par_hi par) p = (p', port, ok)"
  shows "pool_ok p'" "keys (inUse p') = (if ok then insert port (keys (inUse p)) else keys (inUse p))"
    "ok \<longleftrightarrow> port \<notin> keys (inUse p)"
proof -
  let ?c = "wrap_cursor (par_lo par) (par_hi par) (cursor p)"
  have ev: "even ?c" using assms(1) par_bounds(2) [of par] by (simp add: pool_ok_def wrap_cursor_def)
  have none: "m_get (inUse p) ?c = None \<longleftrightarrow> ?c \<notin> keys (inUse p)" by (rule m_get_None)
  have r: "port = ?c" "ok \<longleftrightarrow> m_get (inUse p) ?c = None"
      "inUse p' = (if ok then m_set ?c () (inUse p) else inUse p)"
      "cursor p' = (if ?c + 3 > par_hi par then par_lo par else ?c + 2)"
    using assms(2) by (auto simp: reserveNext_def Let_def split: if_splits)
  show "ok \<longleftrightarrow> port \<notin> keys (inUse p)" using r(1,2) none by simp
  show "keys (inUse p') = (if ok then insert port (keys (inUse p)) else keys (inUse p))"
    unfolding r(1,3) by (simp only: keys_set if_distrib split: if_split) simp
  show "pool_ok p'"
    using assms(1) ev par_bounds(2) [of par] by (simp add: pool_ok_def r)
qed

lemma pool_step_ok:
  assumes "pool_step s s'" "held_ok s"
  shows "held_ok s'"
  using assms
proof (cases rule: pool_step.cases)
  case (step_reserve par p p' port held who)
  then show ?thesis
    using assms(2) reserveNext_ok [of p par p' port True] by (simp add: held_ok_def)
next
  case (step_busy par p p' port held)
  then show ?thesis
    using assms(2) reserveNext_ok [of p par p' port False] by (simp add: held_ok_def)
next
  case (step_release who port held p)
  have inj: "distinct (map snd held)" using assms(2) step_release by (simp add: held_ok_def)
  have "set (map snd (remove1 (who, port) held)) = set (map snd held) - {port}"
  proof -
    have d: "distinct held" and i: "inj_on snd (set held)" using inj by (simp_all add: distinct_map)
    then have "set (remove1 (who, port) held) = set held - {(who, port)}" by simp
    then show ?thesis
      using inj_on_image_set_diff [OF i, of "set held" "{(who, port)}"] step_release(3) by simp
  qed
  moreover have "distinct (map snd (remove1 (who, port) held))"
    using inj inj_on_diff [of snd "set held" "{(who, port)}"] by (simp add: distinct_map distinct_remove1)
  ultimately show ?thesis
    using assms(2) step_release by (simp add: held_ok_def pool_ok_def pool_release_def) blast
qed

lemma pool_reach_ok: "pool_reach s \<Longrightarrow> held_ok s"
proof (induction rule: pool_reach.induct)
  case reach_start
  show ?case by (simp add: held_ok_def NewPlanePool_def pool_ok_def)
next
  case (reach_step s s')
  then show ?case using pool_step_ok by blast
qed

section \<open>Properties\<close>

definition demo_params :: plane_params where
  "demo_params = \<lparr>MinPort = 16385, MaxPort = 16391, BindIP = AddrZero, pp_Timeout = 0, AllowLoopback = False,
     Dest = \<lparr>Restrict = False, AllowPrivate = False, Own = []\<rparr>\<rparr>"

lemma demo_range: "par_lo demo_params = 16386" "par_hi demo_params = 16391" "nat (par_pairs demo_params) = Suc (Suc (Suc 0))"
  by code_simp+

lemma demo_binds:
  "bindPair (\<lambda>_ port. port \<noteq> 16386) n port = (if port = 16386 \<or> port = 16385 then None else Some (port, port + 1))"
  "bindPair (\<lambda>_ port. odd port) n port = None"
  by (auto simp: bindPair_def)

lemmas sweep_eval = allocatePairWith_def sweep_def demo_range reserveNext_def wrap_cursor_def NewPlanePool_def
  pool_release_def demo_binds Let_def

text \<open>
  An allocated pair is a fresh even/odd pair inside the configured range. When
  \<^verbatim>\<open>allocatePairWith\<close> succeeds, the RTP port is even, not below \<^verbatim>\<open>MinPort\<close>, RTCP is the next port
  and not above \<^verbatim>\<open>MaxPort\<close> (odd bounds included), both sockets were really bound, the port was
  not reserved before, and it is the only reservation that changed.
\<close>

theorem allocated_pair_fresh_in_range:
  assumes "pool_ok p" and "snd (allocatePairWith listen par p) = Some (rtp, rtcp)"
  shows "even rtp \<and> rtcp = rtp + 1 \<and> uint (MinPort par) \<le> rtp \<and> rtcp \<le> uint (MaxPort par) \<and>
    m_get (inUse p) rtp = None \<and>
    inUse (fst (allocatePairWith listen par p)) = m_set rtp () (inUse p) \<and>
    (\<exists>n. listen (2 * n) rtp \<and> listen (2 * n + 1) rtcp)"
proof -
  obtain port where sw: "snd (sweep (bindPair listen) par p) = Some (port, rtp, rtcp)"
    using assms(2) by (auto simp: allocatePairWith_def Let_def case_prod_beta)
  note s = sweep_some [OF assms(1) sw]
  obtain n where "bindPair listen n port = Some (rtp, rtcp)" using s(4) by blast
  then have "rtp = port" "rtcp = port + 1" "listen (2 * n) port" "listen (2 * n + 1) (port + 1)"
    by (auto simp: bindPair_def split: if_splits)
  then show ?thesis
    using s(1-3) par_bounds(3) [of par]
    by (auto simp: even_in_def par_hi_def allocatePairWith_def Let_def case_prod_beta)
qed

theorem allocated_pair_fresh_in_range_witness:
  "snd (allocatePairWith (\<lambda>_ port. port \<noteq> 16386) demo_params NewPlanePool) = Some (16388, 16389) \<and>
   uint (MinPort demo_params) \<le> (16388 :: int) \<and> (16389 :: int) \<le> uint (MaxPort demo_params)"
proof -
  have 1: "snd (allocatePairWith (\<lambda>_ port. port \<noteq> 16386) demo_params NewPlanePool) = Some (16388, 16389)"
    by (simp add: sweep_eval)
  show ?thesis
    using 1 allocated_pair_fresh_in_range [OF pool_ok_new 1] by blast
qed

text \<open>
  Exhaustion is reported only when it is true, and leaves nothing behind. When
  \<^verbatim>\<open>allocatePairWith\<close> fails, every pair of the range was either reserved already or one of its two
  ports could not be bound during this sweep (the cursor visited every one of them, wherever it
  stood), and no reservation was left or lost. A range without a pair always fails.
\<close>

theorem exhaustion_is_real:
  assumes "pool_ok p" and "snd (allocatePairWith listen par p) = None"
  shows "inUse (fst (allocatePairWith listen par p)) = inUse p \<and>
    (\<forall>port. even port \<and> uint (MinPort par) \<le> port \<and> port + 1 \<le> uint (MaxPort par) \<longrightarrow>
      m_get (inUse p) port \<noteq> None \<or> (\<exists>n. \<not> listen (2 * n) port \<or> \<not> listen (2 * n + 1) (port + 1)))"
proof -
  have f: "snd (sweep (bindPair listen) par p) = None"
    using assms(2) by (simp add: allocatePairWith_def Let_def case_prod_beta)
  have "m_get (inUse p) port \<noteq> None \<or> (\<exists>n. \<not> listen (2 * n) port \<or> \<not> listen (2 * n + 1) (port + 1))"
    if "even port" "uint (MinPort par) \<le> port" "port + 1 \<le> uint (MaxPort par)" for port
  proof -
    have "even_in par port"
      using that by (auto simp: even_in_def par_hi_def par_lo_def Let_def go_rem_nonneg) presburger
    then show ?thesis
      using sweep_fail [OF assms(1) f] bindPair_None by metis
  qed
  then show ?thesis
    using sweep_fail_inUse [OF assms(1) f] by (simp add: allocatePairWith_def Let_def case_prod_beta)
qed

theorem exhaustion_is_real_witness:
  "snd (allocatePairWith (\<lambda>_ port. odd port) demo_params NewPlanePool) = None \<and>
   inUse (fst (allocatePairWith (\<lambda>_ port. odd port) demo_params NewPlanePool)) = []"
proof -
  have 1: "snd (allocatePairWith (\<lambda>_ port. odd port) demo_params NewPlanePool) = None"
    by (simp add: sweep_eval)
  show ?thesis
    using 1 exhaustion_is_real [OF pool_ok_new 1, THEN conjunct1] by (simp only: NewPlanePool_def plane_pool.simps simp_thms)
qed

text \<open>
  C18: no two calls ever hold the same RTP port. Under any interleaving of any number of callers'
  reservations and releases, with ranges changing between them, the ports handed out and not yet
  released are pairwise distinct, even, and exactly the ones the pool counts as in use.
\<close>

theorem ports_exclusive:
  assumes "pool_reach (p, held)"
  shows "distinct (map snd held) \<and> set (map snd held) = keys (inUse p) \<and> (\<forall>port \<in> keys (inUse p). even port)"
  using pool_reach_ok [OF assms] by (auto simp: held_ok_def pool_ok_def)

theorem ports_exclusive_witness:
  "distinct (map snd [(7 :: nat, 16386 :: int)])"
proof -
  have "reserveNext (par_lo demo_params) (par_hi demo_params) NewPlanePool =
      (\<lparr>inUse = [(16386, ())], cursor = 16388\<rparr>, 16386, True)"
    by code_simp
  then have "pool_reach (\<lparr>inUse = [(16386, ())], cursor = 16388\<rparr>, [(7, 16386)])"
    by (intro pool_reach.reach_step [OF pool_reach.reach_start] pool_step.step_reserve)
  from ports_exclusive [OF this] show ?thesis by blast
qed

text \<open>
  The capacity view never reports more in use than fits. After any reload of the range,
  \<^verbatim>\<open>Stats\<close> counts the reservations inside the current range only, the count is at most the total,
  and the total is the number of even/odd pairs of the range (zero for an inverted one).
\<close>

theorem pool_stats_bounded:
  assumes "pool_ok p"
  shows "int (fst (pool_stats par p)) \<le> snd (pool_stats par p) \<and>
    snd (pool_stats par p) = int (card {port. even_in par port})"
proof -
  let ?N = "nat (par_pairs par)"
  have total: "snd (pool_stats par p) = int ?N"
    by (simp add: pool_stats_def Let_def)
  have ports: "{port. even_in par port} = nth_port par ` {..<?N}"
  proof (cases "0 < par_pairs par")
    case True
    then show ?thesis using even_in_nth [OF True] by auto
  next
    case False
    then show ?thesis using par_pairs_none by auto
  qed
  have inj: "inj_on (nth_port par) {..<?N}" by (auto simp: inj_on_def nth_port_def)
  have card: "card {port. even_in par port} = ?N"
    unfolding ports by (simp add: card_image [OF inj])
  have fin: "finite {port. even_in par port}" unfolding ports by simp
  let ?used = "filter (\<lambda>(port, _). port \<ge> par_lo par \<and> port + 1 \<le> par_hi par) (inUse p)"
  have wf: "wf_map ?used" using assms by (simp add: pool_ok_def)
  have "keys ?used \<subseteq> {port. even_in par port}"
    using assms by (auto simp: even_in_def pool_ok_def)
  then have "card (keys ?used) \<le> ?N" using card_mono [OF fin] card by metis
  then have "length ?used \<le> ?N" using wf_map_card [OF wf] by simp
  moreover have "fst (pool_stats par p) = length ?used" by (simp add: pool_stats_def Let_def)
  ultimately show ?thesis
    using total card by linarith
qed

theorem pool_stats_bounded_witness:
  "int (fst (pool_stats demo_params NewPlanePool)) \<le> 3 \<and> snd (pool_stats demo_params NewPlanePool) = 3"
proof -
  have "snd (pool_stats demo_params NewPlanePool) = 3" by code_simp
  then show ?thesis using pool_stats_bounded [OF pool_ok_new, of demo_params] by simp
qed

end
