(* ===== verification/Latch.thy ===== *)
theory Latch
  imports Portpool
begin

text \<open>
  Symmetric-RTP latching, the \<^verbatim>\<open>latch\<close> type of \<^verbatim>\<open>src/internal/media/session.go\<close>. Every method
  runs under the latch's mutex, so it is one function on the record; the clock reading of
  \<^verbatim>\<open>l.clock()\<close> is an argument. \<open>latch_op\<close> names the critical sections (\<^verbatim>\<open>relatch\<close> is two: \<open>OpReset\<close>, then \<open>OpSeed\<close>), and a sequence of them is any
  interleaving of the signalling side with the packets of the relay loops.
\<close>

section \<open>Model\<close>

datatype latch_mode = LatchStrict | LatchLoose

datatype latch_rank = rankNone | rankAny | rankSignalled | rankExact

definition rank_val :: "latch_rank \<Rightarrow> nat" where
  "rank_val r = (case r of rankNone \<Rightarrow> 0 | rankAny \<Rightarrow> 1 | rankSignalled \<Rightarrow> 2 | rankExact \<Rightarrow> 3)"

instantiation latch_rank :: linorder
begin

definition less_eq_latch_rank :: "latch_rank \<Rightarrow> latch_rank \<Rightarrow> bool" where
  "less_eq_latch_rank a b \<longleftrightarrow> rank_val a \<le> rank_val b"

definition less_latch_rank :: "latch_rank \<Rightarrow> latch_rank \<Rightarrow> bool" where
  "less_latch_rank a b \<longleftrightarrow> rank_val a < rank_val b"

instance
  by intro_classes (auto simp: less_eq_latch_rank_def less_latch_rank_def rank_val_def split: latch_rank.splits)

end

definition LearnDelay :: dur where
  "LearnDelay = 3 * second"

record latch =
  mode :: latch_mode
  expected :: addr
  signalled :: addrport
  sigSource :: addr
  dst :: addrport
  remote :: addrport
  rank :: latch_rank
  learnedAt :: gtime
  allowLoopback :: bool
  policy :: dest_policy
  pinSeed :: bool

text \<open>\<^verbatim>\<open>&latch{mode, allowLoopback, policy}\<close>\<close>

definition new_latch :: "latch_mode \<Rightarrow> plane_params \<Rightarrow> latch" where
  "new_latch m par = \<lparr>mode = m, expected = AddrZero, signalled = ap_zero, sigSource = AddrZero, dst = ap_zero,
     remote = ap_zero, rank = rankNone, learnedAt = t_zero, allowLoopback = AllowLoopback par,
     policy = Dest par, pinSeed = False\<rparr>"

definition unicastMediaAddr :: "addr \<Rightarrow> bool" where
  "unicastMediaAddr ip =
     (if \<not> addr_valid ip \<or> is_unspecified ip \<or> is_multicast ip \<or> is_link_local_unicast ip \<or>
         is_link_local_multicast ip \<or> is_interface_local_multicast ip then False
      else ip \<noteq> broadcast4)"

definition hostOf :: "addrport \<Rightarrow> addr" where
  "hostOf src = no_zone (unmap (fst src))"

definition setExpected :: "addr \<Rightarrow> latch \<Rightarrow> latch" where
  "setExpected ip l = l\<lparr>expected := ip\<rparr>"

definition pinnedOK :: "latch \<Rightarrow> addr \<Rightarrow> bool" where
  "pinnedOK l ip \<longleftrightarrow> addr_valid ip \<and> unicastMediaAddr ip \<and> (\<not> is_loopback ip \<or> allowLoopback l)"

definition setSignallingSource :: "addr \<Rightarrow> latch \<Rightarrow> latch" where
  "setSignallingSource ip l =
     (let l1 = l\<lparr>sigSource := unmap ip\<rparr> in
      if pinSeed l1 \<and> ap_valid (signalled l1) \<and> rank l1 = rankNone
      then (if pinnedOK l1 (sigSource l1)
            then l1\<lparr>dst := (no_zone (sigSource l1), snd (signalled l1))\<rparr>
            else l1\<lparr>dst := ap_zero\<rparr>)
      else l1)"

definition setPinSeed :: "bool \<Rightarrow> latch \<Rightarrow> latch" where
  "setPinSeed on l = l\<lparr>pinSeed := on\<rparr>"

definition setMode :: "latch_mode \<Rightarrow> latch \<Rightarrow> latch" where
  "setMode m l = l\<lparr>mode := m\<rparr>"

text \<open>The last lines of \<^verbatim>\<open>seed\<close>: the loopback rule, then the destination.\<close>

definition seed_install :: "addr \<Rightarrow> 16 word \<Rightarrow> latch \<Rightarrow> latch" where
  "seed_install send port l =
     (if is_loopback send \<and> \<not> allowLoopback l then l else l\<lparr>dst := (no_zone send, port)\<rparr>)"

definition seed :: "addrport \<Rightarrow> latch \<Rightarrow> latch" where
  "seed addr l =
     (if \<not> ap_valid addr \<or> snd addr = 0 then l
      else let ip = unmap (fst addr) in
        if \<not> unicastMediaAddr ip then l
        else let l1 = l\<lparr>expected := ip, signalled := (ip, snd addr)\<rparr> in
          if pinSeed l1 then (if \<not> pinnedOK l1 (sigSource l1) then l1 else seed_install (sigSource l1) (snd addr) l1)
          else if refuses (policy l1) ip then l1
          else seed_install ip (snd addr) l1)"

text \<open>The critical section of \<^verbatim>\<open>relatch\<close>; the mutex is free again before \<^verbatim>\<open>seed\<close> runs.\<close>

definition relatch_reset :: "addr \<Rightarrow> latch \<Rightarrow> latch" where
  "relatch_reset ip l =
     l\<lparr>expected := ip, signalled := ap_zero, dst := ap_zero, remote := ap_zero, rank := rankNone\<rparr>"

definition relatch :: "addrport \<Rightarrow> latch \<Rightarrow> latch" where
  "relatch addr l = seed addr (relatch_reset (fst addr) l)"

definition sameSource :: "latch \<Rightarrow> addrport \<Rightarrow> bool" where
  "sameSource l src \<longleftrightarrow> rank l \<noteq> rankNone \<and> hostOf (remote l) = hostOf src \<and> snd (remote l) = snd src"

definition rankOf :: "latch \<Rightarrow> addrport \<Rightarrow> latch_rank" where
  "rankOf l src =
     (if \<not> addr_valid (fst src) then rankNone
      else let ip = hostOf src in
        if mode l = LatchStrict \<and> (\<not> addr_valid (expected l) \<or> ip \<noteq> unmap (expected l)) then rankNone
        else if ap_valid (signalled l) \<and> ip = fst (signalled l) \<and> snd src = snd (signalled l) then rankExact
        else if addr_valid (expected l) \<and> ip = unmap (expected l) \<or> addr_valid (sigSource l) \<and> ip = sigSource l
        then rankSignalled
        else rankAny)"

definition acceptFrom :: "gtime \<Rightarrow> addrport \<Rightarrow> latch \<Rightarrow> latch \<times> bool" where
  "acceptFrom now src l =
     (if sameSource l src then (l, True)
      else let r = rankOf l src in
        if r \<le> rank l then (l, False)
        else (l\<lparr>remote := (unmap (fst src), snd src), rank := r, learnedAt := now\<rparr>, True))"

definition permitsFrom :: "addrport \<Rightarrow> latch \<Rightarrow> bool" where
  "permitsFrom src l = (if sameSource l src then True else rank l < rankOf l src)"

definition learningDelayed :: "latch \<Rightarrow> bool" where
  "learningDelayed l \<longleftrightarrow> ap_valid (dst l) \<and> addr_valid (sigSource l) \<and> fst (signalled l) = sigSource l"

definition dest :: "gtime \<Rightarrow> latch \<Rightarrow> addrport" where
  "dest now l =
     (if rank l = rankNone then dst l
      else if rank l < rankExact \<and> learningDelayed l \<and> t_sub now (learnedAt l) < LearnDelay then dst l
      else remote l)"

section \<open>Runs\<close>

datatype latch_op =
    OpExpected addr
  | OpSource addr
  | OpPin bool
  | OpMode latch_mode
  | OpSeed addrport
  | OpReset addr
  | OpPacket gtime addrport

fun latch_step :: "latch_op \<Rightarrow> latch \<Rightarrow> latch" where
  "latch_step (OpExpected ip) l = setExpected ip l"
| "latch_step (OpSource ip) l = setSignallingSource ip l"
| "latch_step (OpPin on) l = setPinSeed on l"
| "latch_step (OpMode m) l = setMode m l"
| "latch_step (OpSeed a) l = seed a l"
| "latch_step (OpReset ip) l = relatch_reset ip l"
| "latch_step (OpPacket now src) l = fst (acceptFrom now src l)"

fun is_reset :: "latch_op \<Rightarrow> bool" where
  "is_reset (OpReset _) = True"
| "is_reset _ = False"

fun is_packet :: "latch_op \<Rightarrow> bool" where
  "is_packet (OpPacket _ _) = True"
| "is_packet _ = False"

section \<open>Lemmas\<close>

lemma rank_simps [simp]:
  "rankNone \<le> r" "r \<le> rankExact" "r < rankNone \<longleftrightarrow> False" "rankExact < r \<longleftrightarrow> False"
  "rankExact \<le> r \<longleftrightarrow> r = rankExact" "r \<le> rankNone \<longleftrightarrow> r = rankNone"
  by (cases r; simp add: less_eq_latch_rank_def less_latch_rank_def rank_val_def)+

lemma rank_none_less [simp]: "rankNone < r \<longleftrightarrow> r \<noteq> rankNone"
  by (cases r) (simp_all add: less_latch_rank_def rank_val_def)

lemma seed_fields [simp]:
  "rank (seed a l) = rank l" "remote (seed a l) = remote l" "mode (seed a l) = mode l"
  "sigSource (seed a l) = sigSource l" "learnedAt (seed a l) = learnedAt l" "pinSeed (seed a l) = pinSeed l"
  "policy (seed a l) = policy l" "allowLoopback (seed a l) = allowLoopback l"
  by (simp_all add: seed_def seed_install_def Let_def)

lemma source_fields [simp]:
  "rank (setSignallingSource a l) = rank l" "remote (setSignallingSource a l) = remote l"
  "mode (setSignallingSource a l) = mode l" "sigSource (setSignallingSource a l) = unmap a"
  "learnedAt (setSignallingSource a l) = learnedAt l" "pinSeed (setSignallingSource a l) = pinSeed l"
  "policy (setSignallingSource a l) = policy l" "allowLoopback (setSignallingSource a l) = allowLoopback l"
  "signalled (setSignallingSource a l) = signalled l" "expected (setSignallingSource a l) = expected l"
  by (simp_all add: setSignallingSource_def Let_def)

lemma accept_fields [simp]:
  "mode (fst (acceptFrom now src l)) = mode l" "signalled (fst (acceptFrom now src l)) = signalled l"
  "expected (fst (acceptFrom now src l)) = expected l" "sigSource (fst (acceptFrom now src l)) = sigSource l"
  "dst (fst (acceptFrom now src l)) = dst l" "pinSeed (fst (acceptFrom now src l)) = pinSeed l"
  "policy (fst (acceptFrom now src l)) = policy l" "allowLoopback (fst (acceptFrom now src l)) = allowLoopback l"
  by (simp_all add: acceptFrom_def Let_def)

lemma rankOf_accept [simp]: "rankOf (fst (acceptFrom now src l)) a = rankOf l a"
  by (simp add: rankOf_def Let_def)

lemma accept_rank_mono: "rank l \<le> rank (fst (acceptFrom now src l))"
  by (auto simp: acceptFrom_def Let_def)

lemma accept_exact: "rank l = rankExact \<Longrightarrow> fst (acceptFrom now src l) = l"
  by (simp add: acceptFrom_def Let_def)

lemma hostOf_unmap [simp]: "hostOf (unmap (fst src), p) = hostOf src"
  by (simp add: hostOf_def)

text \<open>Whatever is latched got its rank from its source.\<close>

lemma accepted_rank:
  "acceptFrom now src l = (l', True) \<Longrightarrow> \<not> sameSource l src \<Longrightarrow>
    rank l' = rankOf l src \<and> hostOf (remote l') = hostOf src \<and> snd (remote l') = snd src \<and> learnedAt l' = now"
  by (auto simp: acceptFrom_def Let_def split: if_splits)

end
