(* ===== verification/Latch_Props.thy ===== *)
theory Latch_Props
  imports Latch
begin

text \<open>
  What the latch guarantees over runs: any interleaving of the signalling side's calls and of packets
  from any sources. \<open>hijack_taken_back\<close> and \<open>exact_latch_is_final\<close> are the protection the ranking
  was built for, \<open>strict_latch_armed\<close> is "a strict latch fails closed", \<open>seeded_destination_safe\<close> and
  \<open>pinned_sends_to_source_only\<close> bound what a hostile SDP can make the relay send to, and
  \<open>learning_window\<close> is the delayed learning of a source below exact.
\<close>

section \<open>Packets only\<close>

text \<open>While only packets arrive, the latch's rank is the rank of the source it holds.\<close>

definition ranked :: "latch \<Rightarrow> bool" where
  "ranked l \<longleftrightarrow> (rank l \<noteq> rankNone \<longrightarrow> addr_valid (fst (remote l)) \<and> rankOf l (remote l) = rank l)"

lemma rankOf_cong:
  assumes "hostOf a = hostOf b" "snd a = snd b" "addr_valid (fst a) = addr_valid (fst b)"
  shows "rankOf l a = rankOf l b"
  by (simp only: rankOf_def assms)

lemma rankOf_valid: "rankOf l src \<noteq> rankNone \<Longrightarrow> addr_valid (fst src)"
  by (cases "addr_valid (fst src)") (simp_all add: rankOf_def)

lemma rankOf_exactD: "rankOf l src = rankExact \<Longrightarrow> hostOf src = fst (signalled l) \<and> snd src = snd (signalled l)"
  by (auto simp: rankOf_def Let_def split: if_splits)

lemma packet_keeps_ranked: "ranked l \<Longrightarrow> ranked (fst (acceptFrom now src l))"
proof (cases "sameSource l src \<or> rankOf l src \<le> rank l")
  case True
  assume "ranked l"
  moreover have "fst (acceptFrom now src l) = l" using True by (auto simp: acceptFrom_def Let_def)
  ultimately show ?thesis by simp
next
  case False
  then have "rankOf l src \<noteq> rankNone" by auto
  then have v: "addr_valid (fst src)" by (rule rankOf_valid)
  have "rank (fst (acceptFrom now src l)) = rankOf l src"
      "remote (fst (acceptFrom now src l)) = (unmap (fst src), snd src)"
    using False by (simp_all add: acceptFrom_def Let_def)
  moreover have "rankOf l (unmap (fst src), snd src) = rankOf l src" by (rule rankOf_cong) simp_all
  ultimately show ?thesis
    using v by (simp add: ranked_def)
qed

lemma packets_run:
  assumes "list_all is_packet ps"
  shows "signalled (run_ops latch_step ps l) = signalled l" "mode (run_ops latch_step ps l) = mode l"
    "expected (run_ops latch_step ps l) = expected l" "dst (run_ops latch_step ps l) = dst l"
    "sigSource (run_ops latch_step ps l) = sigSource l" "ranked l \<Longrightarrow> ranked (run_ops latch_step ps l)"
  using assms
proof (induction ps arbitrary: l)
  case (Cons x ps)
  { case 1 then show ?case using Cons.IH(1) by (cases x) auto }
  { case 2 then show ?case using Cons.IH(2) by (cases x) auto }
  { case 3 then show ?case using Cons.IH(3) by (cases x) auto }
  { case 4 then show ?case using Cons.IH(4) by (cases x) auto }
  { case 5 then show ?case using Cons.IH(5) by (cases x) auto }
  { case 6 then show ?case using Cons.IH(6) packet_keeps_ranked by (cases x) auto }
qed simp_all

lemma exact_step:
  "rank l = rankExact \<Longrightarrow> \<not> is_reset x \<Longrightarrow> rank (latch_step x l) = rankExact \<and> remote (latch_step x l) = remote l"
  by (cases x) (simp_all add: setExpected_def setPinSeed_def setMode_def accept_exact)

lemma exact_run:
  "rank l = rankExact \<Longrightarrow> list_all (\<lambda>x. \<not> is_reset x) ops \<Longrightarrow>
    rank (run_ops latch_step ops l) = rankExact \<and> remote (run_ops latch_step ops l) = remote l"
proof (induction ops arbitrary: l)
  case (Cons x ops)
  then have "rank (latch_step x l) = rankExact" "remote (latch_step x l) = remote l" using exact_step by simp_all
  then show ?case using Cons.IH [of "latch_step x l"] Cons.prems(2) by simp
qed simp

section \<open>Invariants\<close>

fun zone_free :: "addr \<Rightarrow> bool" where
  "zone_free (V6 w z) = (z = [])"
| "zone_free a = True"

fun op_zone_free :: "latch_op \<Rightarrow> bool" where
  "op_zone_free (OpSource ip) = zone_free ip"
| "op_zone_free (OpSeed a) = zone_free (fst a)"
| "op_zone_free _ = True"

lemma zone_free_unmap [simp]: "zone_free a \<Longrightarrow> zone_free (unmap a)"
  by (cases a) auto

lemma no_zone_free [simp]: "zone_free a \<Longrightarrow> no_zone a = a"
  by (cases a) auto

definition dst_ok :: "bool \<Rightarrow> plane_params \<Rightarrow> latch \<Rightarrow> bool" where
  "dst_ok unpinned par l \<longleftrightarrow> allowLoopback l = AllowLoopback par \<and> policy l = Dest par \<and> zone_free (sigSource l) \<and>
     (ap_valid (signalled l) \<longrightarrow> snd (signalled l) \<noteq> 0) \<and> (unpinned \<longrightarrow> \<not> pinSeed l) \<and>
     (ap_valid (dst l) \<longrightarrow> snd (dst l) \<noteq> 0 \<and> unicastMediaAddr (fst (dst l)) \<and>
       (is_loopback (fst (dst l)) \<longrightarrow> AllowLoopback par) \<and> (unpinned \<longrightarrow> \<not> refuses (Dest par) (fst (dst l))))"

lemma ap_zero_invalid [simp]: "\<not> ap_valid ap_zero"
  by (simp add: ap_zero_def ap_valid_def)

lemma dst_ok_new: "dst_ok u par (new_latch m par)"
  by (simp add: dst_ok_def new_latch_def)

lemma dst_ok_seed:
  assumes "dst_ok u par l" "zone_free (fst a)"
  shows "dst_ok u par (seed a l)"
proof -
  let ?ip = "unmap (fst a)"
  let ?l = "l\<lparr>expected := ?ip, signalled := (?ip, snd a)\<rparr>"
  consider "\<not> ap_valid a \<or> snd a = 0 \<or> \<not> unicastMediaAddr ?ip"
    | "ap_valid a" "snd a \<noteq> 0" "unicastMediaAddr ?ip" by blast
  then show ?thesis
  proof cases
    case 1
    then have "seed a l = l" by (auto simp: seed_def Let_def)
    then show ?thesis using assms by simp
  next
    case 2
    have base: "dst_ok u par ?l" using assms(1) 2(2) by (simp add: dst_ok_def)
    have inst: "dst_ok u par (seed_install s (snd a) ?l)"
      if "zone_free s" "unicastMediaAddr s" "u \<longrightarrow> \<not> refuses (Dest par) s" for s
      using base that 2(2) by (auto simp: dst_ok_def seed_install_def)
    have ok: "unicastMediaAddr s" if "pinnedOK ?l s" for s using that by (simp add: pinnedOK_def)
    show ?thesis
      using 2 base inst [of ?ip] inst [of "sigSource l"] ok assms by (auto simp: seed_def Let_def dst_ok_def)
  qed
qed

lemma dst_ok_source:
  assumes "dst_ok u par l" "zone_free ip"
  shows "dst_ok u par (setSignallingSource ip l)"
  using assms by (auto simp: setSignallingSource_def dst_ok_def Let_def pinnedOK_def)

lemma dst_ok_step:
  assumes "dst_ok u par l" "op_zone_free x" "u \<longrightarrow> x \<noteq> OpPin True"
  shows "dst_ok u par (latch_step x l)"
proof (cases x)
  case (OpSource ip)
  then show ?thesis using dst_ok_source assms by simp
next
  case (OpSeed a)
  then show ?thesis using dst_ok_seed assms by simp
next
  case (OpReset ip)
  then show ?thesis using assms by (simp add: relatch_reset_def dst_ok_def)
next
  case (OpPacket now src)
  then show ?thesis using assms by (simp add: dst_ok_def)
qed (use assms in \<open>auto simp: dst_ok_def setExpected_def setPinSeed_def setMode_def\<close>)

lemma dst_ok_run:
  "dst_ok u par l \<Longrightarrow> list_all op_zone_free ops \<Longrightarrow> u \<longrightarrow> OpPin True \<notin> set ops \<Longrightarrow> dst_ok u par (run_ops latch_step ops l)"
  by (induction ops arbitrary: l) (auto simp: dst_ok_step)

text \<open>A pinned latch.\<close>

definition pin_ok :: "latch \<Rightarrow> bool" where
  "pin_ok l \<longleftrightarrow> pinSeed l \<and> (ap_valid (dst l) \<longrightarrow> ap_valid (signalled l)) \<and>
     (rank l = rankNone \<and> ap_valid (dst l) \<longrightarrow> addr_valid (sigSource l) \<and> fst (dst l) = no_zone (sigSource l))"

lemma pin_ok_seed: "pin_ok l \<Longrightarrow> pin_ok (seed a l)"
  by (auto simp: seed_def seed_install_def Let_def pin_ok_def pinnedOK_def ap_valid_def)

lemma pin_ok_step: "pin_ok l \<Longrightarrow> x \<noteq> OpPin False \<Longrightarrow> pin_ok (latch_step x l)"
proof (cases x)
  case (OpSource ip)
  assume "pin_ok l"
  then show ?thesis using OpSource by (auto simp: setSignallingSource_def pin_ok_def Let_def pinnedOK_def)
next
  case (OpPacket now src)
  assume "pin_ok l"
  moreover have "rank (fst (acceptFrom now src l)) = rankNone \<Longrightarrow> rank l = rankNone"
    using accept_rank_mono [of l now src] by simp
  ultimately show ?thesis using OpPacket by (auto simp: pin_ok_def)
qed (auto simp: pin_ok_seed, auto simp: pin_ok_def setExpected_def setPinSeed_def setMode_def relatch_reset_def)

lemma pin_ok_run: "pin_ok l \<Longrightarrow> OpPin False \<notin> set ops \<Longrightarrow> pin_ok (run_ops latch_step ops l)"
  by (induction ops arbitrary: l) (auto simp: pin_ok_step)

lemma sigSource_run:
  "addr_valid (sigSource (run_ops latch_step ops l)) \<Longrightarrow>
    sigSource (run_ops latch_step ops l) = sigSource l \<or> (\<exists>ip. OpSource ip \<in> set ops \<and> sigSource (run_ops latch_step ops l) = unmap ip)"
proof (induction ops rule: rev_induct)
  case (snoc x ops)
  then show ?case
    by (cases x) (auto simp: run_ops_append setExpected_def setPinSeed_def setMode_def relatch_reset_def)
qed simp

text \<open>A strict latch.\<close>

fun arms :: "addr \<Rightarrow> latch_op \<Rightarrow> bool" where
  "arms h (OpExpected ip) = (unmap ip = h)"
| "arms h (OpReset ip) = (unmap ip = h)"
| "arms h (OpSeed a) = (unmap (fst a) = h)"
| "arms h _ = False"

definition strict_ok :: "latch_op list \<Rightarrow> latch \<Rightarrow> bool" where
  "strict_ok ops l \<longleftrightarrow> mode l = LatchStrict \<and>
     (addr_valid (expected l) \<longrightarrow> list_ex (arms (unmap (expected l))) ops) \<and>
     (rank l \<noteq> rankNone \<longrightarrow> list_ex (arms (hostOf (remote l))) ops)"

lemma strict_accept:
  assumes "strict_ok ops l"
  shows "strict_ok ops (fst (acceptFrom now src l))"
proof (cases "sameSource l src \<or> rankOf l src \<le> rank l")
  case True
  then have "fst (acceptFrom now src l) = l" by (auto simp: acceptFrom_def Let_def)
  then show ?thesis using assms by simp
next
  case False
  then have "rankOf l src \<noteq> rankNone" by auto
  then have "addr_valid (expected l) \<and> hostOf src = unmap (expected l)"
    using assms by (auto simp: rankOf_def strict_ok_def Let_def split: if_splits)
  then show ?thesis
    using assms False by (auto simp: strict_ok_def acceptFrom_def Let_def)
qed

lemma strict_ok_mono: "strict_ok ops l \<Longrightarrow> strict_ok (ops @ [x]) l"
  by (simp add: strict_ok_def)

lemma strict_step:
  assumes "strict_ok ops l" "\<forall>m. x \<noteq> OpMode m"
  shows "strict_ok (ops @ [x]) (latch_step x l)"
proof (cases x)
  case (OpPacket now src)
  then show ?thesis using strict_accept [OF strict_ok_mono [OF assms(1)]] by simp
next
  case (OpSeed a)
  then show ?thesis
    using assms by (auto simp: strict_ok_def seed_def seed_install_def Let_def)
qed (use assms in \<open>auto simp: strict_ok_def setExpected_def setPinSeed_def relatch_reset_def\<close>)

lemma strict_run:
  "\<forall>m. OpMode m \<notin> set ops \<Longrightarrow> strict_ok ops (run_ops latch_step ops (new_latch LatchStrict par))"
proof (induction ops rule: rev_induct)
  case Nil
  then show ?case by (simp add: strict_ok_def new_latch_def)
next
  case (snoc x ops)
  then have "strict_ok (ops @ [x]) (latch_step x (run_ops latch_step ops (new_latch LatchStrict par)))"
    by (intro strict_step) auto
  then show ?case by (simp add: run_ops_append)
qed

section \<open>Properties\<close>

definition lab_params :: plane_params where
  "lab_params = \<lparr>MinPort = 16384, MaxPort = 16483, BindIP = AddrZero, pp_Timeout = minute, AllowLoopback = False,
     Dest = \<lparr>Restrict = True, AllowPrivate = False, Own = [V4 0xCB007105]\<rparr>\<rparr>"

text \<open>A loose latch whose peer signalled 198.51.100.7, port 4000.\<close>

definition lab_latch :: latch where
  "lab_latch = seed (V4 0xC6336407, 4000) (new_latch LatchLoose lab_params)"

definition spray :: "latch_op list" where
  "spray = [OpPacket 5 (V4 0xC0000201, 9), OpPacket 6 (V4 0xC6336407, 5000)]"

lemmas latch_eval = lab_latch_def lab_params_def spray_def seed_def seed_install_def new_latch_def unicastMediaAddr_def
  is_loopback_def is_multicast_def is_link_local_unicast_def is_link_local_multicast_def
  is_interface_local_multicast_def refuses_def is_private_def in_cgnat_def ap_valid_def ap_zero_def Let_def
  broadcast4_def pinnedOK_def less_eq_latch_rank_def less_latch_rank_def rank_val_def

text \<open>
  C13: the first-packet hijack never lasts. Take a stream whose SDP address is known and that
  has not latched, and let packets from any sources arrive in any number before the endpoint speaks
  (a sprayer may well hold the latch). The endpoint's first packet from the signalled address is
  accepted, from then on the reverse direction is sent to that address, and no packet from another
  source is accepted again, whatever packets and signalling calls follow, short of an authorised
  relatch.
\<close>

theorem hijack_taken_back:
  assumes "rank l = rankNone" and "ap_valid (signalled l)"
    and "addr_valid (fst src)" and "hostOf src = fst (signalled l)" and "snd src = snd (signalled l)"
    and "mode l = LatchLoose \<or> addr_valid (expected l) \<and> unmap (expected l) = fst (signalled l)"
    and "list_all is_packet ps" and "list_all (\<lambda>x. \<not> is_reset x) ops"
  shows "snd (acceptFrom now src (run_ops latch_step ps l)) \<and>
    (let after = run_ops latch_step ops (fst (acceptFrom now src (run_ops latch_step ps l))) in
      hostOf (dest t after) = hostOf src \<and> snd (dest t after) = snd src \<and>
      (hostOf evil \<noteq> hostOf src \<or> snd evil \<noteq> snd src \<longrightarrow> \<not> snd (acceptFrom t evil after)))"
proof -
  let ?l1 = "run_ops latch_step ps l"
  note same = packets_run(1-3) [OF assms(7), of l]
  have exact: "rankOf ?l1 src = rankExact"
    using assms(2-6) by (auto simp: rankOf_def same Let_def)
  have rk: "ranked ?l1"
    using packets_run(6) [OF assms(7), of l] assms(1) by (simp add: ranked_def)
  have held: "rank ?l1 = rankExact \<longleftrightarrow> sameSource ?l1 src"
  proof
    assume "rank ?l1 = rankExact"
    then have "rankOf ?l1 (remote ?l1) = rankExact" using rk by (simp add: ranked_def)
    then show "sameSource ?l1 src"
      using rankOf_exactD [of ?l1] same assms(4,5) \<open>rank ?l1 = rankExact\<close> by (simp add: sameSource_def)
  next
    assume "sameSource ?l1 src"
    then have "rankOf ?l1 src = rankOf ?l1 (remote ?l1)" "rankOf ?l1 (remote ?l1) = rank ?l1"
      using rk assms(3) rankOf_cong [of src "remote ?l1"] by (auto simp: sameSource_def ranked_def)
    then show "rank ?l1 = rankExact" using exact by simp
  qed
  let ?l2 = "fst (acceptFrom now src ?l1)"
  have acc: "snd (acceptFrom now src ?l1)" "rank ?l2 = rankExact" "hostOf (remote ?l2) = hostOf src" "snd (remote ?l2) = snd src"
    using held exact by (auto simp: acceptFrom_def Let_def sameSource_def)
  let ?l3 = "run_ops latch_step ops ?l2"
  have l3: "rank ?l3 = rankExact" "remote ?l3 = remote ?l2" using exact_run [OF acc(2) assms(8)] by simp_all
  have "\<not> snd (acceptFrom t evil ?l3)" if "hostOf evil \<noteq> hostOf src \<or> snd evil \<noteq> snd src"
    using that acc l3 by (auto simp: acceptFrom_def Let_def sameSource_def)
  then show ?thesis
    using acc l3 by (simp add: dest_def Let_def)
qed

theorem hijack_taken_back_witness:
  "snd (acceptFrom 9 (V4 0xC6336407, 4000) (run_ops latch_step spray lab_latch)) \<and>
   remote (run_ops latch_step spray lab_latch) = (V4 0xC6336407, 5000)"
proof -
  have "rank lab_latch = rankNone" "ap_valid (signalled lab_latch)" "mode lab_latch = LatchLoose"
      "signalled lab_latch = (V4 0xC6336407, 4000)"
    by (simp_all add: latch_eval)
  moreover have "remote (run_ops latch_step spray lab_latch) = (V4 0xC6336407, 5000)"
    by (simp add: spray_def lab_latch_def) (simp add: latch_eval acceptFrom_def sameSource_def rankOf_def hostOf_def)
  ultimately show ?thesis
    using hijack_taken_back [of lab_latch "(V4 0xC6336407, 4000)" spray "[]" 9]
    by (simp add: spray_def hostOf_def)
qed

text \<open>
  A strict latch fails closed. On a side allocated strict and never switched to loose, whatever
  sequence of calls and packets happens, a source is latched only if its address is one that
  signalling itself named (\<^verbatim>\<open>SetExpectedRemote\<close>, a seed or a relatch); before any of those, every
  packet is refused.
\<close>

theorem strict_latch_armed:
  assumes "\<forall>m. OpMode m \<notin> set ops"
    and "acceptFrom now src (run_ops latch_step ops (new_latch LatchStrict par)) = (l', True)"
  shows "list_ex (arms (hostOf src)) ops"
proof -
  let ?l = "run_ops latch_step ops (new_latch LatchStrict par)"
  have ok: "strict_ok ops ?l" by (rule strict_run [OF assms(1)])
  then have "strict_ok ops l'" using strict_accept [OF ok, of now src] assms(2) by simp
  moreover have "rank l' \<noteq> rankNone \<and> hostOf (remote l') = hostOf src"
    using assms(2) by (auto simp: acceptFrom_def Let_def sameSource_def split: if_splits)
  ultimately show ?thesis by (simp add: strict_ok_def)
qed

theorem strict_latch_armed_witness:
  "list_ex (arms (V4 7)) [OpPacket 1 (V4 8, 20), OpExpected (V4 7)]"
proof -
  let ?ops = "[OpPacket 1 (V4 8, 20), OpExpected (V4 7)]"
  have "acceptFrom 2 (V4 7, 21) (run_ops latch_step ?ops (new_latch LatchStrict lab_params)) =
      (fst (acceptFrom 2 (V4 7, 21) (run_ops latch_step ?ops (new_latch LatchStrict lab_params))), True)"
    by (simp add: new_latch_def acceptFrom_def sameSource_def rankOf_def hostOf_def setExpected_def ap_zero_def
        ap_valid_def Let_def less_eq_latch_rank_def less_latch_rank_def rank_val_def)
  then show ?thesis
    using strict_latch_armed [of ?ops 2 "(V4 7, 21)" lab_params] by (simp add: hostOf_def)
qed

text \<open>
  What an SDP can make the relay send to. Over any run of calls and packets on a latch whose
  signalling addresses carry no IPv6 zone, the provisional destination is either none or a unicast
  address with a usable port, never multicast, unspecified, broadcast or link-local, never loopback
  unless the plane allows it, and, while the side is not pinned, never one the plane's destination
  policy refuses (private, CGNAT, the SBC's own addresses).
\<close>

theorem seeded_destination_safe:
  assumes "list_all op_zone_free ops" and "ap_valid (dst (run_ops latch_step ops (new_latch m par)))"
  shows "let a = dst (run_ops latch_step ops (new_latch m par)) in
    snd a \<noteq> 0 \<and> unicastMediaAddr (fst a) \<and> (is_loopback (fst a) \<longrightarrow> AllowLoopback par) \<and>
    (OpPin True \<notin> set ops \<longrightarrow> \<not> refuses (Dest par) (fst a))"
proof -
  have d: "dst_ok u par (run_ops latch_step ops (new_latch m par))" if "u \<longrightarrow> OpPin True \<notin> set ops" for u
    by (rule dst_ok_run [OF dst_ok_new assms(1) that])
  show ?thesis
    using d [of False] d [of True] assms(2) by (auto simp: dst_ok_def Let_def)
qed

theorem seeded_destination_safe_witness:
  "\<not> refuses (Dest lab_params) (V4 0xC6336407) \<and> unicastMediaAddr (V4 0xC6336407)"
proof -
  let ?ops = "[OpSeed (V4 0xC6336407, 4000), OpSeed (V4 0xA000001, 4000), OpSeed (V4 0xCB007105, 4000)]"
  have e: "run_ops latch_step ?ops (new_latch LatchLoose lab_params) =
      lab_latch\<lparr>expected := V4 0xCB007105, signalled := (V4 0xCB007105, 4000)\<rparr>"
    by (simp add: latch_eval)
  then have d: "dst (run_ops latch_step ?ops (new_latch LatchLoose lab_params)) = (V4 0xC6336407, 4000)"
    by (simp add: latch_eval)
  show ?thesis
    using seeded_destination_safe [of ?ops LatchLoose lab_params] unfolding d by (simp add: Let_def ap_valid_def)
qed

text \<open>
  A pinned side cannot be steered. When a side is pinned to its signalling source before its
  first seed and the pin is kept, then after any run of calls and packets, as long as no packet has
  latched, media goes nowhere or to the address the side's SIP came from, whatever addresses its
  SDPs named.
\<close>

theorem pinned_sends_to_source_only:
  assumes "OpPin False \<notin> set ops"
    and "l = run_ops latch_step ops (setPinSeed True (new_latch m par))" and "rank l = rankNone"
    and "ap_valid (dest now l)"
  shows "fst (dest now l) = no_zone (sigSource l) \<and> (\<exists>ip. OpSource ip \<in> set ops \<and> sigSource l = unmap ip)"
proof -
  have "pin_ok (setPinSeed True (new_latch m par))"
    by (simp add: pin_ok_def setPinSeed_def new_latch_def)
  then have p: "pin_ok l" using pin_ok_run assms(1,2) by blast
  then have v: "addr_valid (sigSource l)" "fst (dest now l) = no_zone (sigSource l)"
    using assms(3,4) by (simp_all add: pin_ok_def dest_def)
  have "sigSource (setPinSeed True (new_latch m par)) = AddrZero" by (simp add: setPinSeed_def new_latch_def)
  then show ?thesis
    using sigSource_run [of ops "setPinSeed True (new_latch m par)"] v assms(2) by auto
qed

theorem pinned_sends_to_source_only_witness:
  "dest 0 (run_ops latch_step [OpSource (V4 0xC6336409), OpSeed (V4 0xC6336407, 4000)]
     (setPinSeed True (new_latch LatchStrict lab_params))) = (V4 0xC6336409, 4000)"
proof -
  let ?ops = "[OpSource (V4 0xC6336409), OpSeed (V4 0xC6336407, 4000)]"
  let ?l = "run_ops latch_step ?ops (setPinSeed True (new_latch LatchStrict lab_params))"
  have r: "rank ?l = rankNone" "ap_valid (dest 0 ?l)" "snd (dest 0 ?l) = 4000"
    by (simp_all add: latch_eval dest_def setPinSeed_def setSignallingSource_def)
  show ?thesis
    using pinned_sends_to_source_only [of ?ops ?l LatchStrict lab_params 0] r
    by (cases "dest 0 ?l") auto
qed

text \<open>
  Delayed learning. When the signalled address is where the side's SIP comes from, packets from
  other addresses or ports that arrive from \<open>t0\<close> on do not redirect the stream before
  \<open>t0\<close> plus three seconds; and once three seconds have passed since the source in hold was
  latched, that source is the destination, so an endpoint whose port was rewritten gets its media.
\<close>

theorem learning_window:
  assumes "rank l = rankNone" and "learningDelayed l"
    and "\<forall>x \<in> set ps. \<exists>now src. x = OpPacket now src \<and> t0 \<le> now \<and> rankOf l src \<noteq> rankExact"
  shows "(t0 \<le> t \<and> t < t0 + LearnDelay \<longrightarrow> dest t (run_ops latch_step ps l) = dst l) \<and>
    (rank (run_ops latch_step ps l) \<noteq> rankNone \<and> learnedAt (run_ops latch_step ps l) + LearnDelay \<le> t \<longrightarrow>
      dest t (run_ops latch_step ps l) = remote (run_ops latch_step ps l))"
proof -
  let ?l = "run_ops latch_step ps l"
  have delay: "0 < LearnDelay" "LearnDelay \<le> max_dur" by (simp_all add: LearnDelay_def second_def max_dur_def)
  have pk: "list_all is_packet ps" using assms(3) by (auto simp: list_all_iff)
  have ld: "learningDelayed ?l"
    using assms(2) packets_run(1,4,5) [OF pk, of l] by (simp add: learningDelayed_def)
  have "rank l \<noteq> rankExact \<and> (rank l \<noteq> rankNone \<longrightarrow> t0 \<le> learnedAt l)" using assms(1) by simp
  then have inv: "rank ?l \<noteq> rankExact \<and> (rank ?l \<noteq> rankNone \<longrightarrow> t0 \<le> learnedAt ?l)"
    using assms(3)
  proof (induction ps arbitrary: l)
    case (Cons x ps)
    then obtain now src where x: "x = OpPacket now src" "t0 \<le> now" "rankOf l src \<noteq> rankExact" by auto
    then have "rank (latch_step x l) \<noteq> rankExact \<and> (rank (latch_step x l) \<noteq> rankNone \<longrightarrow> t0 \<le> learnedAt (latch_step x l))"
      using Cons.prems(1) by (auto simp: acceptFrom_def Let_def)
    then show ?case using Cons x by auto
  qed simp
  have "dest t ?l = dst l" if "t0 \<le> t" "t < t0 + LearnDelay"
    using that inv ld t_sub_less [OF delay] packets_run(4) [OF pk, of l]
    by (auto simp: dest_def order.strict_iff_order)
  moreover have "dest t ?l = remote ?l" if "rank ?l \<noteq> rankNone" "learnedAt ?l + LearnDelay \<le> t"
    using that t_sub_less [OF delay] by (auto simp: dest_def)
  ultimately show ?thesis by blast
qed

theorem learning_window_witness:
  "dest 100 (run_ops latch_step spray (lab_latch\<lparr>sigSource := V4 0xC6336407\<rparr>)) = (V4 0xC6336407, 4000)"
proof -
  let ?l = "lab_latch\<lparr>sigSource := V4 0xC6336407\<rparr>"
  have "rank ?l = rankNone" "learningDelayed ?l" "dst ?l = (V4 0xC6336407, 4000)"
      "\<forall>x \<in> set spray. \<exists>now src. x = OpPacket now src \<and> 5 \<le> now \<and> rankOf ?l src \<noteq> rankExact"
    by (simp_all add: latch_eval learningDelayed_def rankOf_def hostOf_def)
  then show ?thesis
    using learning_window [of ?l spray 5 100] by (simp add: LearnDelay_def second_def)
qed

section \<open>IPv6 zones\<close>

text \<open>
  An address with a zone passes the unicast check and the own-address check although the address
  that is installed, with the zone dropped, would not.
\<close>

lemma zoned_seed_reaches_unspecified:
  "dst (seed (V6 0 ''1'', 4000) (new_latch LatchLoose lab_params)) = (V6 0 [], 4000) \<and> \<not> unicastMediaAddr (V6 0 [])"
  by (simp add: latch_eval)

lemma zoned_seed_reaches_own:
  "let own = V6 0x20010db8000000000000000000000001 [];
       par = lab_params\<lparr>Dest := \<lparr>Restrict = True, AllowPrivate = False, Own = [own]\<rparr>\<rparr>
   in dst (seed (V6 0x20010db8000000000000000000000001 ''1'', 4000) (new_latch LatchLoose par)) = (own, 4000) \<and>
      refuses (Dest par) own"
  by (simp add: latch_eval)

text \<open>A strict latch whose expected address has a zone accepts nothing.\<close>

lemma zoned_expectation_never_matches:
  "z \<noteq> [] \<Longrightarrow> drop_bit 32 w \<noteq> 0xffff \<Longrightarrow> mode l = LatchStrict \<Longrightarrow> expected l = V6 w z \<Longrightarrow> rankOf l src = rankNone"
  by (cases "unmap (fst src)") (auto simp: rankOf_def hostOf_def Let_def)

end
