(* ===== verification/Media_Session.thy ===== *)
theory Media_Session
  imports Latch_Props
begin

text \<open>
  A relayed call: \<^verbatim>\<open>Session\<close> of \<^verbatim>\<open>src/internal/media/session.go\<close> (allocation across two
  pools, seeding, relatching, the lifecycle), its SDES keys (\<^verbatim>\<open>sdes.go\<close>), its counters
  (\<^verbatim>\<open>stats.go\<close>), and the forwarding loop and silence watchdog of \<^verbatim>\<open>relay.go\<close>.

  SRTP itself is the third-party library's: \<open>srtp_ops\<close> gives the two transforms on an opaque
  context \<open>'c\<close>, and \<open>mk\<close> builds a context from a key. A datagram write is the argument \<open>write\<close>, the
  number of bytes sent or \<open>None\<close>. One packet's way through \<^verbatim>\<open>forward\<close> is one step; the latch
  operations inside it are the atomic ones of \<open>Latch\<close>.
\<close>

datatype side = SideA | SideB

section \<open>Allocation\<close>

text \<open>Pools are shared objects, so a session names them; \<open>socks\<close> are the sockets that are open.\<close>

record media_env =
  pools :: "nat \<Rightarrow> plane_pool"
  socks :: "(nat \<times> int) list"

record session =
  poolOf :: "side \<Rightarrow> nat"
  rtpPort :: "side \<Rightarrow> int"
  timeout :: dur
  rtp :: "side \<Rightarrow> latch"
  rtcp :: "side \<Rightarrow> latch"

record session_config =
  Latch_cfg :: "side \<Rightarrow> latch_mode"
  cfg_Timeout :: dur

text \<open>\<^verbatim>\<open>allocatePairWith\<close> on a shared pool: the pool moves on and two sockets open.\<close>

definition env_allocate :: "nat \<Rightarrow> (nat \<Rightarrow> int \<Rightarrow> bool) \<Rightarrow> plane_params \<Rightarrow> media_env \<Rightarrow> media_env \<times> int option" where
  "env_allocate k listen par e =
     (let (p, r) = allocatePairWith listen par (pools e k); e1 = e\<lparr>pools := (pools e)(k := p)\<rparr> in
      case r of None \<Rightarrow> (e1, None)
      | Some (a, b) \<Rightarrow> (e1\<lparr>socks := (k, a) # (k, b) # socks e\<rparr>, Some a))"

text \<open>\<^verbatim>\<open>pair.Close()\<close>, and \<^verbatim>\<open>pool.release(pair.RTPPort())\<close>.\<close>

definition pair_close :: "nat \<Rightarrow> int \<Rightarrow> media_env \<Rightarrow> media_env" where
  "pair_close k port e = e\<lparr>socks := remove1 (k, port + 1) (remove1 (k, port) (socks e))\<rparr>"

definition env_release :: "nat \<Rightarrow> int \<Rightarrow> media_env \<Rightarrow> media_env" where
  "env_release k port e = e\<lparr>pools := (pools e)(k := pool_release port (pools e k))\<rparr>"

definition allocateAcross ::
  "nat \<Rightarrow> plane_params \<Rightarrow> (nat \<Rightarrow> int \<Rightarrow> bool) \<Rightarrow> nat \<Rightarrow> plane_params \<Rightarrow> (nat \<Rightarrow> int \<Rightarrow> bool) \<Rightarrow> session_config \<Rightarrow>
    media_env \<Rightarrow> media_env \<times> session option" where
  "allocateAcross ka parA listenA kb parB listenB cfg e =
     (let tmo = (if cfg_Timeout cfg \<le> 0 then pp_Timeout parA else cfg_Timeout cfg);
          (e1, a) = env_allocate ka listenA parA e in
      case a of None \<Rightarrow> (e1, None)
      | Some pa \<Rightarrow>
         (let (e2, b) = env_allocate kb listenB parB e1 in
          case b of None \<Rightarrow> (env_release ka pa (pair_close ka pa e2), None)
          | Some pb \<Rightarrow>
             (let par = (\<lambda>s. case s of SideA \<Rightarrow> parA | SideB \<Rightarrow> parB);
                  l = (\<lambda>s. new_latch (Latch_cfg cfg s) (par s)) in
              (e2, Some \<lparr>poolOf = (\<lambda>s. case s of SideA \<Rightarrow> ka | SideB \<Rightarrow> kb),
                         rtpPort = (\<lambda>s. case s of SideA \<Rightarrow> pa | SideB \<Rightarrow> pb),
                         timeout = tmo, rtp = l, rtcp = l\<rparr>))))"

text \<open>\<^verbatim>\<open>AllocateAcross\<close>: one snapshot per pool, and one snapshot in all when both sides share a pool.\<close>

definition AllocateAcross ::
  "nat \<Rightarrow> nat \<Rightarrow> (nat \<Rightarrow> plane_params) \<Rightarrow> (nat \<Rightarrow> plane_params) \<Rightarrow> (nat \<Rightarrow> int \<Rightarrow> bool) \<Rightarrow> (nat \<Rightarrow> int \<Rightarrow> bool) \<Rightarrow>
    session_config \<Rightarrow> media_env \<Rightarrow> media_env \<times> session option" where
  "AllocateAcross ka kb params1 params2 listenA listenB cfg e =
     (let parA = params1 ka; parB = (if kb \<noteq> ka then params2 kb else parA)
      in allocateAcross ka parA listenA kb parB listenB cfg e)"

section \<open>Seeding\<close>

definition rtcpAddr :: "addrport \<Rightarrow> addrport option" where
  "rtcpAddr a = (if snd a < 65535 then Some (fst a, snd a + 1) else None)"

definition seedPair :: "addrport \<Rightarrow> latch \<times> latch \<Rightarrow> latch \<times> latch" where
  "seedPair a = (\<lambda>(rtp_l, rtcp_l). (seed a rtp_l, case rtcpAddr a of Some r \<Rightarrow> seed r rtcp_l | None \<Rightarrow> rtcp_l))"

definition relatchPair :: "addrport \<Rightarrow> latch \<times> latch \<Rightarrow> latch \<times> latch" where
  "relatchPair a = (\<lambda>(rtp_l, rtcp_l).
     (relatch a rtp_l, relatch (case rtcpAddr a of Some r \<Rightarrow> r | None \<Rightarrow> (fst a, 0)) rtcp_l))"

definition on_both :: "(latch \<Rightarrow> latch) \<Rightarrow> side \<Rightarrow> session \<Rightarrow> session" where
  "on_both f s ms = ms\<lparr>rtp := (rtp ms)(s := f (rtp ms s)), rtcp := (rtcp ms)(s := f (rtcp ms s))\<rparr>"

definition on_pair :: "(latch \<times> latch \<Rightarrow> latch \<times> latch) \<Rightarrow> side \<Rightarrow> session \<Rightarrow> session" where
  "on_pair f s ms = (let (a, b) = f (rtp ms s, rtcp ms s) in ms\<lparr>rtp := (rtp ms)(s := a), rtcp := (rtcp ms)(s := b)\<rparr>)"

definition SetExpectedRemote :: "side \<Rightarrow> addr \<Rightarrow> session \<Rightarrow> session" where
  "SetExpectedRemote s ip = on_both (setExpected ip) s"

definition SetSignallingSource :: "side \<Rightarrow> addr \<Rightarrow> session \<Rightarrow> session" where
  "SetSignallingSource s ip = on_both (setSignallingSource ip) s"

definition PinSeedToSignallingSource :: "side \<Rightarrow> bool \<Rightarrow> session \<Rightarrow> session" where
  "PinSeedToSignallingSource s on = on_both (setPinSeed on) s"

definition SetRemote :: "side \<Rightarrow> addrport \<Rightarrow> session \<Rightarrow> session" where
  "SetRemote s a = on_pair (seedPair a) s"

definition SetRTCPRemote :: "side \<Rightarrow> addrport \<Rightarrow> session \<Rightarrow> session" where
  "SetRTCPRemote s a ms = ms\<lparr>rtcp := (rtcp ms)(s := seed a (rtcp ms s))\<rparr>"

definition Relatch :: "side \<Rightarrow> addrport \<Rightarrow> session \<Rightarrow> session" where
  "Relatch s a = on_pair (relatchPair a) s"

definition SendTarget :: "gtime \<Rightarrow> side \<Rightarrow> session \<Rightarrow> addrport" where
  "SendTarget now s ms = dest now (rtp ms s)"

section \<open>Lifecycle\<close>

datatype close_cause = CloseNone | CloseRequested | CloseSilence | CloseLegFailed | CloseFault

datatype sess_state = sessAllocated | sessRunning | sessClosed

text \<open>
  The effects of the \<^verbatim>\<open>closeWith\<close> call that wins the swap, in the code's order. Other goroutines may
  run between any two of them.
\<close>

datatype close_effect = EfCause close_cause | EfSockets | EfRelease side | EfDone

record lifecycle =
  sstate :: sess_state
  pending :: "close_effect list"
  effects :: "close_effect list"
  started :: nat

definition new_lifecycle :: lifecycle where
  "new_lifecycle = \<lparr>sstate = sessAllocated, pending = [], effects = [], started = 0\<rparr>"

definition close_plan :: "close_cause \<Rightarrow> close_effect list" where
  "close_plan c = [EfCause c, EfSockets, EfRelease SideA, EfRelease SideB, EfDone]"

text \<open>\<^verbatim>\<open>Start\<close>: the result says whether this call started the session.\<close>

definition Start :: "lifecycle \<Rightarrow> lifecycle \<times> bool" where
  "Start x = (if sstate x \<noteq> sessAllocated then (x, False) else (x\<lparr>sstate := sessRunning, started := started x + 1\<rparr>, True))"

definition closeWith :: "close_cause \<Rightarrow> lifecycle \<Rightarrow> lifecycle" where
  "closeWith c x = (if sstate x = sessClosed then x else x\<lparr>sstate := sessClosed, pending := close_plan c\<rparr>)"

definition close_advance :: "lifecycle \<Rightarrow> lifecycle" where
  "close_advance x = (case pending x of [] \<Rightarrow> x | e # es \<Rightarrow> x\<lparr>pending := es, effects := effects x @ [e]\<rparr>)"

definition Cause :: "lifecycle \<Rightarrow> close_cause" where
  "Cause x = (case effects x of EfCause c # _ \<Rightarrow> c | _ \<Rightarrow> CloseNone)"

definition is_done :: "lifecycle \<Rightarrow> bool" where
  "is_done x \<longleftrightarrow> EfDone \<in> set (effects x)"

datatype life_op = LStart | LClose close_cause | LAdvance

fun life_step :: "life_op \<Rightarrow> lifecycle \<Rightarrow> lifecycle" where
  "life_step LStart x = fst (Start x)"
| "life_step (LClose c) x = closeWith c x"
| "life_step LAdvance x = close_advance x"

text \<open>One effect on the environment.\<close>

fun apply_effect :: "session \<Rightarrow> close_effect \<Rightarrow> media_env \<Rightarrow> media_env" where
  "apply_effect ms (EfCause c) e = e"
| "apply_effect ms EfSockets e =
     pair_close (poolOf ms SideB) (rtpPort ms SideB) (pair_close (poolOf ms SideA) (rtpPort ms SideA) e)"
| "apply_effect ms (EfRelease s) e = env_release (poolOf ms s) (rtpPort ms s) e"
| "apply_effect ms EfDone e = e"

section \<open>SDES keys\<close>

record sdes_key =
  Suite :: string
  Key :: string
  Salt :: string

definition sdes_profile :: "sdes_key \<Rightarrow> bool" where
  "sdes_profile k \<longleftrightarrow> Suite k \<in> {''AES_CM_128_HMAC_SHA1_80'', ''AES_CM_128_HMAC_SHA1_32'', ''AEAD_AES_128_GCM''}"

record 'c sdes_dir =
  dir_key :: sdes_key
  ctx :: "'c option"

definition no_dir :: "'c sdes_dir" where
  "no_dir = \<lparr>dir_key = \<lparr>Suite = [], Key = [], Salt = []\<rparr>, ctx = None\<rparr>"

text \<open>\<^verbatim>\<open>set\<close>; the flag is \<^verbatim>\<open>err == nil\<close>.\<close>

definition dir_set :: "(sdes_key \<Rightarrow> 'c option) \<Rightarrow> sdes_key \<Rightarrow> 'c sdes_dir \<Rightarrow> 'c sdes_dir \<times> bool" where
  "dir_set mk k d =
     (if ctx d \<noteq> None \<and> dir_key d = k then (d, True)
      else if \<not> sdes_profile k then (d, False)
      else case mk k of None \<Rightarrow> (d, False) | Some c \<Rightarrow> (d\<lparr>dir_key := k, ctx := Some c\<rparr>, True))"

record 'c sdes_leg =
  leg_in :: "'c sdes_dir"
  leg_out :: "'c sdes_dir"

section \<open>Relay\<close>

definition maxPacketSize :: nat where
  "maxPacketSize = 1500 + 8"

record counters =
  rtpPacketsRx :: "side \<Rightarrow> 64 word"
  rtpPacketsTx :: "side \<Rightarrow> 64 word"
  rtpBytesRx :: "side \<Rightarrow> 64 word"
  rtpBytesTx :: "side \<Rightarrow> 64 word"
  srtpRxDrops :: "side \<Rightarrow> 64 word"
  srtpTxDrops :: "side \<Rightarrow> 64 word"

definition zero_counters :: counters where
  "zero_counters = \<lparr>rtpPacketsRx = (\<lambda>_. 0), rtpPacketsTx = (\<lambda>_. 0), rtpBytesRx = (\<lambda>_. 0), rtpBytesTx = (\<lambda>_. 0),
     srtpRxDrops = (\<lambda>_. 0), srtpTxDrops = (\<lambda>_. 0)\<rparr>"

definition bump :: "side \<Rightarrow> nat \<Rightarrow> (side \<Rightarrow> 64 word) \<Rightarrow> side \<Rightarrow> 64 word" where
  "bump s n f = f(s := f s + of_nat n)"

definition recordRx :: "side \<Rightarrow> bool \<Rightarrow> nat \<Rightarrow> counters \<Rightarrow> counters" where
  "recordRx s is_rtp n c =
     (if \<not> is_rtp then c else c\<lparr>rtpPacketsRx := bump s 1 (rtpPacketsRx c), rtpBytesRx := bump s n (rtpBytesRx c)\<rparr>)"

definition recordTx :: "side \<Rightarrow> bool \<Rightarrow> nat \<Rightarrow> counters \<Rightarrow> counters" where
  "recordTx s is_rtp n c =
     (if \<not> is_rtp then c else c\<lparr>rtpPacketsTx := bump s 1 (rtpPacketsTx c), rtpBytesTx := bump s n (rtpBytesTx c)\<rparr>)"

record leg_stats =
  RTPPacketsRx :: "64 word"
  RTPPacketsTx :: "64 word"
  RTPBytesRx :: "64 word"
  RTPBytesTx :: "64 word"
  SRTPRxDrops :: "64 word"
  SRTPTxDrops :: "64 word"

text \<open>\<^verbatim>\<open>snapshot\<close> with \<^verbatim>\<open>Stats.Side\<close>, and \<^verbatim>\<open>Total\<close>.\<close>

definition leg_snapshot :: "counters \<Rightarrow> side \<Rightarrow> leg_stats" where
  "leg_snapshot c s = \<lparr>RTPPacketsRx = rtpPacketsRx c s, RTPPacketsTx = rtpPacketsTx c s, RTPBytesRx = rtpBytesRx c s,
     RTPBytesTx = rtpBytesTx c s, SRTPRxDrops = srtpRxDrops c s, SRTPTxDrops = srtpTxDrops c s\<rparr>"

definition stats_total :: "counters \<Rightarrow> leg_stats" where
  "stats_total c = (let a = leg_snapshot c SideA; b = leg_snapshot c SideB in
     \<lparr>RTPPacketsRx = RTPPacketsRx a + RTPPacketsRx b, RTPPacketsTx = RTPPacketsTx a + RTPPacketsTx b,
      RTPBytesRx = RTPBytesRx a + RTPBytesRx b, RTPBytesTx = RTPBytesTx a + RTPBytesTx b,
      SRTPRxDrops = SRTPRxDrops a + SRTPRxDrops b, SRTPTxDrops = SRTPTxDrops a + SRTPTxDrops b\<rparr>)"

record 'c srtp_ops =
  unprotect :: "bool \<Rightarrow> 'c \<Rightarrow> string \<Rightarrow> 'c \<times> string option"
  protect :: "bool \<Rightarrow> 'c \<Rightarrow> string \<Rightarrow> 'c \<times> string option"

record 'c relay =
  r_rtp :: "side \<Rightarrow> latch"
  r_rtcp :: "side \<Rightarrow> latch"
  sdes :: "side \<Rightarrow> 'c sdes_leg option"
  lastRx :: "side \<Rightarrow> gtime"
  cnt :: counters

definition SetSDESRemote :: "(sdes_key \<Rightarrow> 'c option) \<Rightarrow> side \<Rightarrow> sdes_key \<Rightarrow> 'c relay \<Rightarrow> 'c relay \<times> bool" where
  "SetSDESRemote mk s k r =
     (let leg = (case sdes r s of Some l \<Rightarrow> l | None \<Rightarrow> \<lparr>leg_in = no_dir, leg_out = no_dir\<rparr>);
          (d, ok) = dir_set mk k (leg_in leg)
      in (r\<lparr>sdes := (sdes r)(s := Some (leg\<lparr>leg_in := d\<rparr>))\<rparr>, ok))"

definition SetSDESLocal :: "(sdes_key \<Rightarrow> 'c option) \<Rightarrow> side \<Rightarrow> sdes_key \<Rightarrow> 'c relay \<Rightarrow> 'c relay \<times> bool" where
  "SetSDESLocal mk s k r =
     (let leg = (case sdes r s of Some l \<Rightarrow> l | None \<Rightarrow> \<lparr>leg_in = no_dir, leg_out = no_dir\<rparr>);
          (d, ok) = dir_set mk k (leg_out leg)
      in (r\<lparr>sdes := (sdes r)(s := Some (leg\<lparr>leg_out := d\<rparr>))\<rparr>, ok))"

definition latch_of :: "bool \<Rightarrow> side \<Rightarrow> 'c relay \<Rightarrow> latch" where
  "latch_of is_rtp s r = (if is_rtp then r_rtp r s else r_rtcp r s)"

definition set_latch :: "bool \<Rightarrow> side \<Rightarrow> latch \<Rightarrow> 'c relay \<Rightarrow> 'c relay" where
  "set_latch is_rtp s l r = (if is_rtp then r\<lparr>r_rtp := (r_rtp r)(s := l)\<rparr> else r\<lparr>r_rtcp := (r_rtcp r)(s := l)\<rparr>)"

definition set_in_ctx :: "side \<Rightarrow> 'c sdes_leg \<Rightarrow> 'c \<Rightarrow> 'c relay \<Rightarrow> 'c relay" where
  "set_in_ctx s leg c r = r\<lparr>sdes := (sdes r)(s := Some (leg\<lparr>leg_in := leg_in leg\<lparr>ctx := Some c\<rparr>\<rparr>))\<rparr>"

definition set_out_ctx :: "side \<Rightarrow> 'c sdes_leg \<Rightarrow> 'c \<Rightarrow> 'c relay \<Rightarrow> 'c relay" where
  "set_out_ctx s leg c r = r\<lparr>sdes := (sdes r)(s := Some (leg\<lparr>leg_out := leg_out leg\<lparr>ctx := Some c\<rparr>\<rparr>))\<rparr>"

definition rx_drop :: "side \<Rightarrow> 'c relay \<Rightarrow> 'c relay" where
  "rx_drop s r = r\<lparr>cnt := (cnt r)\<lparr>srtpRxDrops := bump s 1 (srtpRxDrops (cnt r))\<rparr>\<rparr>"

definition tx_drop :: "side \<Rightarrow> 'c relay \<Rightarrow> 'c relay" where
  "tx_drop s r = r\<lparr>cnt := (cnt r)\<lparr>srtpTxDrops := bump s 1 (srtpTxDrops (cnt r))\<rparr>\<rparr>"

definition latch_accept :: "gtime \<Rightarrow> bool \<Rightarrow> side \<Rightarrow> addrport \<Rightarrow> 'c relay \<Rightarrow> 'c relay \<times> bool" where
  "latch_accept now is_rtp s src r = (let (l, ok) = acceptFrom now src (latch_of is_rtp s r) in (set_latch is_rtp s l r, ok))"

text \<open>The receiving half of the loop: \<open>Some\<close> is the packet that is proven genuine.\<close>

definition forward_rx ::
  "'c srtp_ops \<Rightarrow> gtime \<Rightarrow> side \<Rightarrow> bool \<Rightarrow> addrport \<Rightarrow> string \<Rightarrow> 'c relay \<Rightarrow> 'c relay \<times> string option" where
  "forward_rx ops now s is_rtp src pkt r =
     (if length pkt > maxPacketSize then (r, None)
      else case sdes r s of
        None \<Rightarrow> (let (r1, ok) = latch_accept now is_rtp s src r in (r1, if ok then Some pkt else None))
      | Some leg \<Rightarrow>
         if \<not> permitsFrom src (latch_of is_rtp s r) then (r, None)
         else (case ctx (leg_in leg) of
             None \<Rightarrow> (rx_drop s r, None)
           | Some c \<Rightarrow> (case unprotect ops is_rtp c pkt of
                 (c', None) \<Rightarrow> (rx_drop s (set_in_ctx s leg c' r), None)
               | (c', Some plain) \<Rightarrow>
                   (let (r1, ok) = latch_accept now is_rtp s src (set_in_ctx s leg c' r)
                    in (r1, if ok then Some plain else None)))))"

text \<open>The sending half: at most one datagram leaves, from the other side's own socket.\<close>

definition forward_tx ::
  "'c srtp_ops \<Rightarrow> (string \<Rightarrow> addrport \<Rightarrow> nat option) \<Rightarrow> gtime \<Rightarrow> side \<Rightarrow> bool \<Rightarrow> string \<Rightarrow> 'c relay \<Rightarrow>
    'c relay \<times> (string \<times> addrport) option" where
  "forward_tx ops write now s is_rtp pkt r =
     (let a = dest now (latch_of is_rtp s r);
          send = (\<lambda>out r1. (case write out a of
             None \<Rightarrow> r1 | Some n \<Rightarrow> r1\<lparr>cnt := recordTx s is_rtp n (cnt r1)\<rparr>, Some (out, a))) in
      if \<not> ap_valid a then (r, None)
      else case sdes r s of
        None \<Rightarrow> send pkt r
      | Some leg \<Rightarrow> (case ctx (leg_out leg) of
          None \<Rightarrow> (tx_drop s r, None)
        | Some c \<Rightarrow> (case protect ops is_rtp c pkt of
            (c', None) \<Rightarrow> (tx_drop s (set_out_ctx s leg c' r), None)
          | (c', Some out) \<Rightarrow> send out (set_out_ctx s leg c' r))))"

text \<open>One iteration of \<^verbatim>\<open>forward(from, to, rtpKind)\<close>; \<open>ck\<close> are the clock readings it takes.\<close>

definition forward ::
  "'c srtp_ops \<Rightarrow> (string \<Rightarrow> addrport \<Rightarrow> nat option) \<Rightarrow> clock \<Rightarrow> side \<Rightarrow> side \<Rightarrow> bool \<Rightarrow> addrport \<Rightarrow> string \<Rightarrow> 'c relay \<Rightarrow>
    'c relay \<times> (string \<times> addrport) option" where
  "forward ops write ck s t is_rtp src pkt r =
     (case forward_rx ops (ck 0) s is_rtp src pkt r of
        (r1, None) \<Rightarrow> (r1, None)
      | (r1, Some plain) \<Rightarrow>
          forward_tx ops write (ck 2) t is_rtp plain
            (r1\<lparr>lastRx := (lastRx r1)(s := ck 1), cnt := recordRx s is_rtp (length plain) (cnt r1)\<rparr>))"

section \<open>Watchdog\<close>

definition watch_interval :: "dur \<Rightarrow> dur" where
  "watch_interval tmo = (let i = go_quot tmo 4 in if i < 10000000 then 10000000 else i)"

text \<open>
  The loop over its ticks: each has its time and the two \<^verbatim>\<open>lastRx\<close> values read at it. The result is
  the number of the tick that closed the session, \<open>None\<close> while it goes on.
\<close>

fun watchdog :: "dur \<Rightarrow> (gtime \<times> gtime \<times> gtime) list \<Rightarrow> nat option" where
  "watchdog tmo [] = None"
| "watchdog tmo ((now, a, b) # ticks) =
     (let oldest = min a b in
      if t_sub now oldest > tmo then Some 0 else map_option Suc (watchdog tmo ticks))"

end
