(* ===== verification/Media_Session_Props.thy ===== *)
theory Media_Session_Props
  imports Media_Session
begin

text \<open>
  The relay's guarantees: no partial allocation leaks and closing gives everything back
  (\<open>allocate_across_no_leak\<close>); whoever calls \<^verbatim>\<open>Start\<close> and \<^verbatim>\<open>Close\<close> in whatever order, one close
  wins and its effects happen once and in order (\<open>close_runs_once\<close>); what leaves the relay passed the
  latch, and on an SDES side was authenticated and is encrypted (\<open>forwarded_is_genuine\<close>); a forged
  packet changes nothing but a counter (\<open>forged_packet_harmless\<close>); a silent side is noticed in time
  (\<open>silence_detected\<close>).
\<close>

section \<open>Allocation\<close>

lemma m_set_fresh: "k \<notin> keys m \<Longrightarrow> m_set k v m = m @ [(k, v)]"
  by (induction m) auto

lemma m_del_fresh: "k \<notin> keys m \<Longrightarrow> m_del k m = m"
  by (induction m) (auto simp: AList.delete_eq)

lemma m_del_append: "m_del k (m @ n) = m_del k m @ m_del k n"
  by (simp add: AList.delete_eq)

lemma set_set_del_del:
  assumes "a \<notin> keys m" "b \<notin> keys (m_set a () m)"
  shows "m_del b (m_del a (m_set b () (m_set a () m))) = m"
proof -
  have b: "b \<notin> keys m" "a \<noteq> b" using assms(2) by auto
  have "m_set b () (m_set a () m) = m @ [(a, ()), (b, ())]"
    using m_set_fresh [OF assms(2), of "()"] m_set_fresh [OF assms(1), of "()"] by simp
  then show ?thesis using b assms(1) by (simp add: m_del_append m_del_fresh)
qed

lemma allocatePairWith_cases:
  assumes "pool_ok p" "allocatePairWith listen par p = (p', r)"
  shows "pool_ok p'" "r = None \<Longrightarrow> inUse p' = inUse p"
    "r = Some (a, b) \<Longrightarrow> even a \<and> b = a + 1 \<and> a \<notin> keys (inUse p) \<and> inUse p' = m_set a () (inUse p)"
proof -
  have e: "p' = fst (sweep (bindPair listen) par p)" "r = map_option snd (snd (sweep (bindPair listen) par p))"
    using assms(2) by (simp_all add: allocatePairWith_def Let_def case_prod_beta)
  show "pool_ok p'" using sweep_ok [OF assms(1)] by (simp add: e sweep_def)
  show "r = None \<Longrightarrow> inUse p' = inUse p" using sweep_fail_inUse [OF assms(1)] by (simp add: e)
  assume "r = Some (a, b)"
  then obtain port where sw: "snd (sweep (bindPair listen) par p) = Some (port, a, b)" using e(2) by auto
  note s = sweep_some [OF assms(1) sw]
  obtain n where "bindPair listen n port = Some (a, b)" using s(4) by blast
  then have "a = port" "b = port + 1" by (simp_all add: bindPair_def split: if_splits)
  then show "even a \<and> b = a + 1 \<and> a \<notin> keys (inUse p) \<and> inUse p' = m_set a () (inUse p)"
    using s(1-3) by (simp add: even_in_def e(1) m_get_None)
qed

lemma env_allocate_None:
  assumes "pool_ok (pools e k)" "env_allocate k listen par e = (e', None)"
  shows "socks e' = socks e" "inUse (pools e' j) = inUse (pools e j)" "pool_ok (pools e j) \<Longrightarrow> pool_ok (pools e' j)"
proof -
  obtain p r where a: "allocatePairWith listen par (pools e k) = (p, r)" by force
  then have "r = None" "e' = e\<lparr>pools := (pools e)(k := p)\<rparr>"
    using assms(2) by (auto simp: env_allocate_def Let_def split: option.splits)
  then show "socks e' = socks e" "inUse (pools e' j) = inUse (pools e j)" "pool_ok (pools e j) \<Longrightarrow> pool_ok (pools e' j)"
    using allocatePairWith_cases(1,2) [OF assms(1) a] by simp_all
qed

lemma env_allocate_Some:
  assumes "pool_ok (pools e k)" "env_allocate k listen par e = (e', Some a)"
  shows "socks e' = (k, a) # (k, a + 1) # socks e" "even a" "a \<notin> keys (inUse (pools e k))"
    "inUse (pools e' j) = (if j = k then m_set a () (inUse (pools e k)) else inUse (pools e j))"
    "pool_ok (pools e j) \<Longrightarrow> pool_ok (pools e' j)"
proof -
  obtain p r where al: "allocatePairWith listen par (pools e k) = (p, r)" by force
  then obtain b where r: "r = Some (a, b)" "e' = e\<lparr>pools := (pools e)(k := p), socks := (k, a) # (k, b) # socks e\<rparr>"
    using assms(2) by (auto simp: env_allocate_def Let_def split: option.splits)
  note c = allocatePairWith_cases(1,3) [OF assms(1) al] r
  show "socks e' = (k, a) # (k, a + 1) # socks e" "even a" "a \<notin> keys (inUse (pools e k))"
    "inUse (pools e' j) = (if j = k then m_set a () (inUse (pools e k)) else inUse (pools e j))"
    "pool_ok (pools e j) \<Longrightarrow> pool_ok (pools e' j)"
    using c by auto
qed

text \<open>Two environments that agree on reservations and on open sockets (the cursors may differ).\<close>

definition same_holdings :: "media_env \<Rightarrow> media_env \<Rightarrow> bool" where
  "same_holdings e e' \<longleftrightarrow> (\<forall>k. inUse (pools e' k) = inUse (pools e k)) \<and> socks e' = socks e"

lemma odd_even_ne: "even (a :: int) \<Longrightarrow> even b \<Longrightarrow> a \<noteq> b + 1 \<and> b + 1 \<noteq> a"
  by presburger

lemma release_del: "inUse (pools (env_release k a e) j) = (if j = k then m_del a (inUse (pools e k)) else inUse (pools e j))"
  by (simp add: env_release_def pool_release_def)

lemma misc_fields [simp]:
  "socks (env_release k a e) = socks e" "pools (pair_close k a e) = pools e"
  "socks (pair_close k a e) = remove1 (k, a + 1) (remove1 (k, a) (socks e))"
  by (simp_all add: env_release_def pair_close_def)

lemma close_two:
  assumes "even a" "even b" "ka = kb \<longrightarrow> a \<noteq> b"
  shows "remove1 (kb, b + 1) (remove1 (kb, b) (remove1 (ka, a + 1) (remove1 (ka, a)
     ((kb, b) # (kb, b + 1) # (ka, a) # (ka, a + 1) # xs)))) = (xs :: (nat \<times> int) list)"
  using assms odd_even_ne [of a b] odd_even_ne [of b a] by auto

section \<open>Lifecycle\<close>

fun first_close :: "life_op list \<Rightarrow> close_cause option" where
  "first_close [] = None"
| "first_close (LClose c # ops) = Some c"
| "first_close (_ # ops) = first_close ops"

definition life_ok :: "close_cause option \<Rightarrow> lifecycle \<Rightarrow> bool" where
  "life_ok fc x \<longleftrightarrow> (case fc of
       None \<Rightarrow> sstate x \<noteq> sessClosed \<and> pending x = [] \<and> effects x = []
     | Some c \<Rightarrow> sstate x = sessClosed \<and> effects x @ pending x = close_plan c) \<and>
     started x \<le> 1 \<and> (sstate x = sessAllocated \<longrightarrow> started x = 0)"

lemma first_close_snoc:
  "first_close (ops @ [x]) = (case first_close ops of Some c \<Rightarrow> Some c | None \<Rightarrow> (case x of LClose c \<Rightarrow> Some c | _ \<Rightarrow> None))"
  by (induction ops rule: first_close.induct) (auto split: life_op.splits)

lemma life_run: "life_ok (first_close ops) (run_ops life_step ops new_lifecycle)"
proof (induction ops rule: rev_induct)
  case Nil
  then show ?case by (simp add: life_ok_def new_lifecycle_def)
next
  case (snoc x ops)
  let ?s = "run_ops life_step ops new_lifecycle"
  show ?case
    using snoc unfolding run_ops_append first_close_snoc
    by (cases x; cases "first_close ops"; cases "pending ?s")
      (auto simp: life_ok_def Start_def closeWith_def close_advance_def)
qed

lemma advances_drain:
  "length (pending (run_ops life_step ops x)) = length (pending x) - length (filter (\<lambda>o1. o1 = LAdvance) ops)"
  if "sstate x = sessClosed"
  using that
proof (induction ops arbitrary: x)
  case (Cons y ops)
  have "sstate (life_step y x) = sessClosed"
      "length (pending (life_step y x)) = length (pending x) - (if y = LAdvance then 1 else 0)"
    using Cons.prems
    by (cases y; auto simp: Start_def closeWith_def close_advance_def split: list.splits)+
  then show ?case using Cons.IH [of "life_step y x"] by simp
qed simp

section \<open>Properties\<close>

definition lab_env :: media_env where
  "lab_env = \<lparr>pools = (\<lambda>_. NewPlanePool), socks = []\<rparr>"

definition lab_cfg :: session_config where
  "lab_cfg = \<lparr>Latch_cfg = (\<lambda>_. LatchStrict), cfg_Timeout = 0\<rparr>"

text \<open>
  Allocation never leaks, and a close gives everything back. Whether the two sides draw from two
  pools or share one: when \<^verbatim>\<open>allocateAcross\<close> fails, no reservation and no open socket is
  left behind, and when it succeeds, carrying out the effects of a close in order leaves exactly the
  reservations and sockets there were before the call.
\<close>

lemma allocate_across_holdings:
  assumes "pool_ok (pools e ka)" and "pool_ok (pools e kb)"
    and "allocateAcross ka parA listenA kb parB listenB cfg e = (e', r)"
  shows "case r of None \<Rightarrow> same_holdings e e'
    | Some ms \<Rightarrow> same_holdings e (fold (apply_effect ms) (close_plan c) e') \<and> length (socks e') = length (socks e) + 4"
proof -
  obtain e1 a where a: "env_allocate ka listenA parA e = (e1, a)" by force
  show ?thesis
  proof (cases a)
    case None
    then have "r = None" "e' = e1" using assms(3) a by (simp_all add: allocateAcross_def)
    then show ?thesis using env_allocate_None [OF assms(1), of listenA parA] a None by (simp add: same_holdings_def)
  next
    case (Some pa)
    note A = env_allocate_Some [OF assms(1) a [unfolded Some]]
    have okb: "pool_ok (pools e1 kb)" by (rule A(5) [OF assms(2)])
    obtain e2 b where b: "env_allocate kb listenB parB e1 = (e2, b)" by force
    show ?thesis
    proof (cases b)
      case None
      then have r: "r = None" "e' = env_release ka pa (pair_close ka pa e2)"
        using assms(3) a b Some by (simp_all add: allocateAcross_def Let_def)
      show ?thesis
        using env_allocate_None [OF okb b [unfolded None]] A
        by (simp add: r same_holdings_def release_del m_del_fresh m_set_fresh m_del_append)
    next
      case (Some pb)
      note B = env_allocate_Some [OF okb b [unfolded Some]]
      define ms where "ms = the r"
      have r: "r = Some ms" "e' = e2"
        and ms: "poolOf ms SideA = ka" "poolOf ms SideB = kb" "rtpPort ms SideA = pa" "rtpPort ms SideB = pb"
        using assms(3) a b \<open>a = Some pa\<close> Some by (auto simp: allocateAcross_def Let_def ms_def)
      have ne: "ka = kb \<longrightarrow> pa \<noteq> pb" using B(3) A(4) [of kb] by auto
      have "socks (fold (apply_effect ms) (close_plan c) e') = socks e"
        using close_two [OF A(2) B(2) ne] by (simp add: r ms close_plan_def A(1) B(1))
      moreover have "inUse (pools (fold (apply_effect ms) (close_plan c) e') k) = inUse (pools e k)" for k
      proof (cases "ka = kb")
        case True
        then show ?thesis
          using set_set_del_del [of pa "inUse (pools e kb)" pb] A(3,4) B(3,4)
          by (simp add: r ms close_plan_def release_del)
      next
        case False
        then show ?thesis
          using A(3,4) B(3,4) by (simp add: r ms close_plan_def release_del m_del_fresh m_set_fresh m_del_append)
      qed
      ultimately show ?thesis
        using A(1) B(1) r by (simp add: same_holdings_def)
    qed
  qed
qed

theorem allocate_across_no_leak:
  assumes "pool_ok (pools e ka)" and "pool_ok (pools e kb)"
    and "allocateAcross ka parA listenA kb parB listenB cfg e = (e', r)"
  shows "case r of None \<Rightarrow> same_holdings e e'
    | Some ms \<Rightarrow> same_holdings e (fold (apply_effect ms) (close_plan c) e') \<and> length (socks e') = length (socks e) + 4"
  using allocate_across_holdings [OF assms] .

lemmas close_returns_all = allocate_across_holdings [where r = "Some ms" for ms, simplified]

theorem allocate_across_no_leak_witness:
  "\<exists>e'. allocateAcross 0 demo_params (\<lambda>_ _. True) 0 demo_params (\<lambda>_ _. False) lab_cfg lab_env = (e', None) \<and>
     same_holdings lab_env e'"
proof -
  obtain e' r where 1: "allocateAcross 0 demo_params (\<lambda>_ _. True) 0 demo_params (\<lambda>_ _. False) lab_cfg lab_env = (e', r)"
    by force
  have b: "bindPair (\<lambda>_ _. False) n port = None" "bindPair (\<lambda>_ _. True) n port = Some (port, port + 1)" for n port
    by (simp_all add: bindPair_def)
  have "snd (allocateAcross 0 demo_params (\<lambda>_ _. True) 0 demo_params (\<lambda>_ _. False) lab_cfg lab_env) = None"
    by (simp add: allocateAcross_def env_allocate_def allocatePairWith_def sweep_def demo_range reserveNext_def
        wrap_cursor_def NewPlanePool_def pool_release_def b Let_def lab_env_def)
  then have "r = None" using 1 by simp
  then show ?thesis
    using 1 allocate_across_no_leak [OF _ _ 1] by (auto simp: lab_env_def)
qed

text \<open>
  C26: one close wins. Under any interleaving of \<^verbatim>\<open>Start\<close>s, \<^verbatim>\<open>closeWith\<close>s and the winner's own steps,
  at most one \<^verbatim>\<open>Start\<close> reports that it started the session, nothing is torn down before some
  call closes it, and the effects that have happened are an initial part of the first closer's plan:
  its cause, the sockets, each port released once, then \<^verbatim>\<open>Done\<close>. A loser's cause is never
  recorded.
\<close>

theorem close_runs_once:
  "let x = run_ops life_step ops new_lifecycle in
    started x \<le> 1 \<and>
    (case first_close ops of None \<Rightarrow> effects x = [] \<and> Cause x = CloseNone \<and> \<not> is_done x
     | Some c \<Rightarrow> sstate x = sessClosed \<and> (\<exists>n. effects x = take n (close_plan c)) \<and>
         (Cause x = c \<or> Cause x = CloseNone) \<and> (is_done x \<longrightarrow> effects x = close_plan c))"
proof -
  let ?x = "run_ops life_step ops new_lifecycle"
  have ok: "life_ok (first_close ops) ?x" by (rule life_run)
  show ?thesis
  proof (cases "first_close ops")
    case None
    then show ?thesis using ok by (simp add: life_ok_def Cause_def is_done_def)
  next
    case (Some c)
    then have p: "effects ?x @ pending ?x = close_plan c" and closed: "sstate ?x = sessClosed" and st: "started ?x \<le> 1"
      using ok by (simp_all add: life_ok_def)
    have pre: "effects ?x = take (length (effects ?x)) (close_plan c)" using p by (metis append_eq_conv_conj)
    have cause: "Cause ?x = c \<or> Cause ?x = CloseNone"
      using p by (auto simp: Cause_def close_plan_def append_eq_Cons_conv split: list.splits)
    have "effects ?x = close_plan c" if "is_done ?x"
    proof -
      have "length (effects ?x) = 5"
        using that p by (auto simp: is_done_def close_plan_def append_eq_Cons_conv)
      moreover have "length (close_plan c) = 5" by (simp add: close_plan_def)
      ultimately show ?thesis using pre by simp
    qed
    then show ?thesis using Some pre cause closed st by (auto simp: Let_def)
  qed
qed

theorem close_runs_once_witness:
  "effects (run_ops life_step [LClose CloseFault, LAdvance, LAdvance, LClose CloseRequested] new_lifecycle) =
     take 2 (close_plan CloseFault) \<and>
   started (run_ops life_step [LStart, LStart] new_lifecycle) \<le> 1"
  using close_runs_once [of "[LStart, LStart]"]
  by (simp add: Let_def closeWith_def close_advance_def new_lifecycle_def close_plan_def)

text \<open>
  C27: a close always completes, and gives everything back. Take a session that \<^verbatim>\<open>allocateAcross\<close>
  handed out. Once some call has closed it, five steps of that call, however other callers
  interleave with them, carry the whole teardown out: the reservations of both port pools and the
  open sockets are exactly those from before the allocation, and whatever other sessions have
  done to the pools meanwhile, neither of this session's ports is reserved any more; \<^verbatim>\<open>Done\<close> fires once, last, and
  \<^verbatim>\<open>Cause\<close> is the winner's.
\<close>

theorem close_completes:
  assumes "pool_ok (pools e ka)" and "pool_ok (pools e kb)"
    and "allocateAcross ka parA listenA kb parB listenB cfg e = (e', Some ms)"
    and "first_close ops = Some c" and "5 \<le> length (filter (\<lambda>x. x = LAdvance) later)"
  shows "let x = run_ops life_step (ops @ later) new_lifecycle in
    same_holdings e (fold (apply_effect ms) (effects x) e') \<and> length (socks e') = length (socks e) + 4 \<and>
    (\<forall>e'' s. wf_map (inUse (pools e'' (poolOf ms s))) \<longrightarrow>
       rtpPort ms s \<notin> keys (inUse (pools (fold (apply_effect ms) (effects x) e'') (poolOf ms s)))) \<and>
    is_done x \<and> last (effects x) = EfDone \<and> count_list (effects x) EfDone = 1 \<and> Cause x = c"
proof -
  let ?x = "run_ops life_step ops new_lifecycle" and ?y = "run_ops life_step (ops @ later) new_lifecycle"
  have x: "effects ?x @ pending ?x = close_plan c" "sstate ?x = sessClosed"
    using life_run [of ops] assms(4) by (simp_all add: life_ok_def)
  have "length (pending ?x) \<le> 5" using arg_cong [OF x(1), of length] by (simp add: close_plan_def)
  then have "pending ?y = []"
    using advances_drain [OF x(2), of later] assms(5) by (simp add: run_ops_append)
  moreover have "first_close (ops @ later) = Some c"
    using assms(4) by (induction ops rule: first_close.induct) auto
  ultimately have y: "effects ?y = close_plan c" using life_run [of "ops @ later"] by (simp add: life_ok_def)
  have "same_holdings e (fold (apply_effect ms) (effects ?y) e') \<and> length (socks e') = length (socks e) + 4"
    using close_returns_all [OF assms(1-3)] y by simp
  moreover have "rtpPort ms s \<notin> keys (inUse (pools (fold (apply_effect ms) (effects ?y) e'') (poolOf ms s)))" for e'' s
    unfolding y by (cases s) (simp_all add: close_plan_def release_del keys_del)
  ultimately show ?thesis by (simp add: y is_done_def Cause_def close_plan_def Let_def)
qed

theorem close_completes_witness:
  "\<exists>e' ms. allocateAcross 0 demo_params (\<lambda>_ _. True) 1 demo_params (\<lambda>_ _. True) lab_cfg lab_env = (e', Some ms) \<and>
     same_holdings lab_env (fold (apply_effect ms) (effects (run_ops life_step [LStart, LClose CloseSilence, LAdvance,
       LClose CloseRequested, LAdvance, LStart, LAdvance, LAdvance, LAdvance] new_lifecycle)) e')"
proof -
  obtain e' r where 1: "allocateAcross 0 demo_params (\<lambda>_ _. True) 1 demo_params (\<lambda>_ _. True) lab_cfg lab_env = (e', r)"
    by force
  have b: "bindPair (\<lambda>_ _. True) n port = Some (port, port + 1)" for n port
    by (simp add: bindPair_def)
  have "snd (allocateAcross 0 demo_params (\<lambda>_ _. True) 1 demo_params (\<lambda>_ _. True) lab_cfg lab_env) \<noteq> None"
    by (simp add: allocateAcross_def env_allocate_def allocatePairWith_def sweep_def demo_range reserveNext_def
        wrap_cursor_def NewPlanePool_def pool_release_def b Let_def lab_env_def)
  then obtain ms where ms: "r = Some ms" using 1 by auto
  show ?thesis
    using close_completes [OF _ _ 1 [unfolded ms], of "[LStart, LClose CloseSilence]" CloseSilence
      "[LAdvance, LClose CloseRequested, LAdvance, LStart, LAdvance, LAdvance, LAdvance]"] 1 ms
    by (auto simp: lab_env_def Let_def)
qed

section \<open>Forwarding\<close>

lemma latch_of_set [simp]:
  "latch_of k s (set_latch k' s' l r) = (if k' = k \<and> s' = s then l else latch_of k s r)"
  "sdes (set_latch k s l r) = sdes r" "lastRx (set_latch k s l r) = lastRx r" "cnt (set_latch k s l r) = cnt r"
  by (auto simp: latch_of_def set_latch_def)

lemma latch_of_ctx [simp]:
  "latch_of k s (set_in_ctx s' leg c r) = latch_of k s r" "latch_of k s (set_out_ctx s' leg c r) = latch_of k s r"
  "latch_of k s (rx_drop s' r) = latch_of k s r" "latch_of k s (tx_drop s' r) = latch_of k s r"
  "latch_of k s (r\<lparr>lastRx := x\<rparr>) = latch_of k s r" "latch_of k s (r\<lparr>cnt := y\<rparr>) = latch_of k s r"
  by (simp_all add: latch_of_def set_in_ctx_def set_out_ctx_def rx_drop_def tx_drop_def)

lemma ctx_fields [simp]:
  "sdes (set_in_ctx s leg c r) = (sdes r)(s := Some (leg\<lparr>leg_in := leg_in leg\<lparr>ctx := Some c\<rparr>\<rparr>))"
  "sdes (set_out_ctx s leg c r) = (sdes r)(s := Some (leg\<lparr>leg_out := leg_out leg\<lparr>ctx := Some c\<rparr>\<rparr>))"
  "lastRx (set_in_ctx s leg c r) = lastRx r" "cnt (set_in_ctx s leg c r) = cnt r"
  "lastRx (set_out_ctx s leg c r) = lastRx r" "cnt (set_out_ctx s leg c r) = cnt r"
  "sdes (rx_drop s r) = sdes r" "lastRx (rx_drop s r) = lastRx r" "sdes (tx_drop s r) = sdes r" "lastRx (tx_drop s r) = lastRx r"
  by (simp_all add: set_in_ctx_def set_out_ctx_def rx_drop_def tx_drop_def)

lemma permits_accepts: "permitsFrom src l \<longleftrightarrow> snd (acceptFrom now src l)"
  by (auto simp: permitsFrom_def acceptFrom_def Let_def not_le dest: leD)

lemma refused_unchanged: "\<not> permitsFrom src l \<Longrightarrow> acceptFrom now src l = (l, False)"
  by (auto simp: permitsFrom_def acceptFrom_def Let_def not_less split: if_splits)

text \<open>What an admitted packet was.\<close>

definition genuine :: "'c srtp_ops \<Rightarrow> side \<Rightarrow> bool \<Rightarrow> addrport \<Rightarrow> string \<Rightarrow> 'c relay \<Rightarrow> string \<Rightarrow> bool" where
  "genuine ops s k src pkt r plain \<longleftrightarrow> length pkt \<le> maxPacketSize \<and> permitsFrom src (latch_of k s r) \<and>
     (case sdes r s of None \<Rightarrow> plain = pkt
      | Some leg \<Rightarrow> \<exists>c. ctx (leg_in leg) = Some c \<and> snd (unprotect ops k c pkt) = Some plain)"

lemma forward_rx_some:
  assumes "forward_rx ops now s k src pkt r = (r1, Some plain)"
  shows "genuine ops s k src pkt r plain" "\<And>k' s'. s' \<noteq> s \<Longrightarrow> latch_of k' s' r1 = latch_of k' s' r"
    "\<And>s'. s' \<noteq> s \<Longrightarrow> sdes r1 s' = sdes r s'" "cnt r1 = cnt r"
  using assms permits_accepts [of src "latch_of k s r" now]
  by (auto simp: forward_rx_def genuine_def latch_accept_def Let_def case_prod_beta split: if_splits option.splits prod.splits)

text \<open>
  C16: what leaves the relay is genuine. A datagram goes out only when the packet that came in was of
  a size the relay handles, its source was one the latch accepts, and, on an SDES side, it
  authenticated under the key in force; it goes to the other side's current destination and, when
  that side is an SDES side, only as the ciphertext under its key: plaintext never enters from and
  never leaves to an SDES side.
\<close>

theorem forwarded_is_genuine:
  assumes "forward ops write ck s t k src pkt r = (r', Some (out, a))" and "s \<noteq> t"
  shows "\<exists>plain. genuine ops s k src pkt r plain \<and> a = dest (ck 2) (latch_of k t r) \<and> ap_valid a \<and>
    (case sdes r t of None \<Rightarrow> out = plain
     | Some leg \<Rightarrow> \<exists>c. ctx (leg_out leg) = Some c \<and> snd (protect ops k c plain) = Some out)"
proof -
  obtain r1 plain where rx: "forward_rx ops (ck 0) s k src pkt r = (r1, Some plain)"
    using assms(1) by (auto simp: forward_def split: prod.splits option.splits)
  note f = forward_rx_some [OF rx]
  let ?r2 = "r1\<lparr>lastRx := (lastRx r1)(s := ck 1), cnt := recordRx s k (length plain) (cnt r1)\<rparr>"
  have tx: "forward_tx ops write (ck 2) t k plain ?r2 = (r', Some (out, a))"
    using assms(1) rx by (simp add: forward_def)
  have "latch_of k t ?r2 = latch_of k t r" "sdes ?r2 t = sdes r t" using f(2,3) assms(2) by auto
  then have "a = dest (ck 2) (latch_of k t r) \<and> ap_valid a \<and>
    (case sdes r t of None \<Rightarrow> out = plain
     | Some leg \<Rightarrow> \<exists>c. ctx (leg_out leg) = Some c \<and> snd (protect ops k c plain) = Some out)"
    using tx by (auto simp: forward_tx_def Let_def split: if_splits option.splits prod.splits)
  then show ?thesis using f(1) by blast
qed

text \<open>A phone on side A whose media is SDES-protected (the cipher appends a tag), FreeSWITCH on side B.\<close>

definition tag_ops :: "unit srtp_ops" where
  "tag_ops = \<lparr>unprotect = (\<lambda>_ _ p. ((), if p \<noteq> [] \<and> last p = CHR ''T'' then Some (butlast p) else None)),
     protect = (\<lambda>_ _ p. ((), Some (p @ ''T'')))\<rparr>"

definition lab_leg :: "unit sdes_leg" where
  "lab_leg = \<lparr>leg_in = no_dir\<lparr>ctx := Some ()\<rparr>, leg_out = no_dir\<rparr>"

definition lab_relay :: "unit relay" where
  "lab_relay = \<lparr>r_rtp = (\<lambda>_. lab_latch), r_rtcp = (\<lambda>_. lab_latch),
     sdes = (\<lambda>s. if s = SideA then Some lab_leg else None), lastRx = (\<lambda>_. 0), cnt = zero_counters\<rparr>"

lemmas relay_eval = lab_relay_def lab_leg_def tag_ops_def no_dir_def maxPacketSize_def latch_of_def set_latch_def latch_accept_def

theorem forwarded_is_genuine_witness:
  "genuine tag_ops SideA True (V4 0xC6336407, 4000) ''hiT'' lab_relay ''hi'' \<and>
   snd (forward tag_ops (\<lambda>p _. Some (length p)) (\<lambda>_. 7) SideA SideB True (V4 0xC6336407, 4000) ''hiT'' lab_relay) =
     Some (''hi'', (V4 0xC6336407, 4000))"
proof -
  let ?f = "forward tag_ops (\<lambda>p _. Some (length p)) (\<lambda>_. 7) SideA SideB True (V4 0xC6336407, 4000) ''hiT'' lab_relay"
  have l: "permitsFrom (V4 0xC6336407, 4000) lab_latch" "dst lab_latch = (V4 0xC6336407, 4000)" "rank lab_latch = rankNone"
    by (simp_all add: latch_eval permitsFrom_def sameSource_def rankOf_def hostOf_def)
  then have acc: "snd (acceptFrom 7 (V4 0xC6336407, 4000) lab_latch)" using permits_accepts by blast
  have 1: "snd ?f = Some (''hi'', (V4 0xC6336407, 4000))"
    using l acc by (simp add: forward_def forward_rx_def forward_tx_def relay_eval set_in_ctx_def dest_def ap_valid_def
        Let_def case_prod_beta)
  have 2: "?f = (fst ?f, Some (''hi'', (V4 0xC6336407, 4000)))" using 1 by (metis prod.collapse)
  have 3: "sdes lab_relay SideB = None" by (simp add: lab_relay_def)
  show ?thesis
    using forwarded_is_genuine [OF 2] 1 unfolding 3 by auto
qed

text \<open>
  C6: a forged packet is harmless. On an SDES side, a packet that does not authenticate (or arrives
  before the key is known) sends nothing, moves no latch, does not refresh the silence watchdog,
  and changes no counter but the drop counter of that side, by one at most.
\<close>

theorem forged_packet_harmless:
  assumes "sdes r s = Some leg"
    and "\<forall>c. ctx (leg_in leg) = Some c \<longrightarrow> snd (unprotect ops k c pkt) = None"
    and "forward ops write ck s t k src pkt r = (r', sent)"
  shows "sent = None \<and> r_rtp r' = r_rtp r \<and> r_rtcp r' = r_rtcp r \<and> lastRx r' = lastRx r \<and>
    (cnt r' = cnt r \<or> cnt r' = (cnt r)\<lparr>srtpRxDrops := bump s 1 (srtpRxDrops (cnt r))\<rparr>)"
  using assms
  by (auto simp: forward_def forward_rx_def rx_drop_def set_in_ctx_def split: if_splits option.splits prod.splits)

theorem forged_packet_harmless_witness:
  "snd (forward tag_ops (\<lambda>p _. Some (length p)) (\<lambda>_. 7) SideA SideB True (V4 0xC6336407, 4000) ''hi'' lab_relay) = None"
proof -
  let ?f = "forward tag_ops (\<lambda>p _. Some (length p)) (\<lambda>_. 7) SideA SideB True (V4 0xC6336407, 4000) ''hi'' lab_relay"
  show ?thesis
    using forged_packet_harmless [of lab_relay SideA lab_leg tag_ops True "''hi''" "\<lambda>p _. Some (length p)" "\<lambda>_. 7" SideB
        "(V4 0xC6336407, 4000)" "fst ?f" "snd ?f"]
    by (simp add: lab_relay_def tag_ops_def)
qed

section \<open>Watchdog\<close>

lemma watch_interval_pos: "10000000 \<le> watch_interval tmo"
  by (simp add: watch_interval_def Let_def)

lemma watchdog_fires:
  "watchdog tmo ticks = Some i \<longleftrightarrow> i < length ticks \<and>
     (let (now, a, b) = ticks ! i in t_sub now (min a b) > tmo) \<and>
     (\<forall>j < i. let (now, a, b) = ticks ! j in t_sub now (min a b) \<le> tmo)"
proof (induction tmo ticks arbitrary: i rule: watchdog.induct)
  case (2 tmo now a b ticks)
  show ?case
  proof (cases i)
    case 0
    then show ?thesis by simp
  next
    case (Suc n)
    have "map_option Suc x = Some (Suc n) \<longleftrightarrow> x = Some n" for x by (cases x) auto
    then show ?thesis
      using 2 Suc by (auto simp: Let_def All_less_Suc2)
  qed
qed simp

lemma watchdog_none:
  "watchdog tmo ticks = None \<longleftrightarrow> (\<forall>j < length ticks. let (now, a, b) = ticks ! j in t_sub now (min a b) \<le> tmo)"
  by (induction tmo ticks rule: watchdog.induct) (auto simp: Let_def All_less_Suc2)

text \<open>The ticks of a session started at \<open>start\<close>: one every interval, with the readings taken at it.\<close>

definition ticks_from :: "gtime \<Rightarrow> dur \<Rightarrow> (nat \<Rightarrow> gtime) \<Rightarrow> (nat \<Rightarrow> gtime) \<Rightarrow> nat \<Rightarrow> (gtime \<times> gtime \<times> gtime) list" where
  "ticks_from start tmo a b n = map (\<lambda>i. (start + (int i + 1) * watch_interval tmo, a i, b i)) [0..<n]"

text \<open>
  C28: a half-dead call is reclaimed. If one of the two sides has sent nothing genuine since \<open>t0\<close>, the
  watchdog closes the session, however much the other side sends, at the latest one tick interval
  after the timeout has run out; and it never closes at a tick at which both sides have been heard
  within the timeout.
\<close>

theorem silence_detected:
  assumes "0 \<le> tmo" and "tmo < max_dur" and "start \<le> t0"
    and "\<forall>i. min (a i) (b i) \<le> t0"
    and "t0 + tmo + watch_interval tmo \<le> start + int n * watch_interval tmo"
  shows "\<exists>i < n. watchdog tmo (ticks_from start tmo a b n) = Some i \<and>
    start + (int i + 1) * watch_interval tmo \<le> t0 + tmo + watch_interval tmo \<and>
    min (a i) (b i) + tmo < start + (int i + 1) * watch_interval tmo"
proof -
  let ?w = "watch_interval tmo" and ?ts = "ticks_from start tmo a b n"
  let ?at = "\<lambda>i. start + (int i + 1) * ?w"
  have w: "0 < ?w" using watch_interval_pos [of tmo] by simp
  have over: "t_sub x y > tmo \<longleftrightarrow> y + tmo < x" for x y
    using assms(1,2) by (auto simp: t_sub_def min_dur_def max_dur_def)
  have tick: "(let (now, u, v) = ?ts ! i in t_sub now (min u v) > tmo) \<longleftrightarrow> min (a i) (b i) + tmo < ?at i" if "i < n" for i
    using that over by (simp add: ticks_from_def)
  have len: "length ?ts = n" by (simp add: ticks_from_def)
  define q where "q = nat ((t0 + tmo - start) div ?w)"
  have d: "0 \<le> t0 + tmo - start" using assms(1,3) by simp
  have q: "int q * ?w \<le> t0 + tmo - start" "t0 + tmo - start < (int q + 1) * ?w"
  proof -
    let ?d = "t0 + tmo - start"
    have "int q = ?d div ?w" using d w by (simp add: q_def pos_imp_zdiv_nonneg_iff)
    then have "?d = int q * ?w + ?d mod ?w" by (simp only: div_mult_mod_eq)
    moreover have "0 \<le> ?d mod ?w" "?d mod ?w < ?w" using w by simp_all
    moreover have "(int q + 1) * ?w = int q * ?w + ?w" by (simp add: distrib_right)
    ultimately show "int q * ?w \<le> ?d" "?d < (int q + 1) * ?w" by linarith+
  qed
  have "int q * ?w + ?w \<le> int n * ?w" using q(1) assms(5) by linarith
  then have "(int q + 1) * ?w \<le> int n * ?w" by (simp add: distrib_right)
  then have qn: "q < n" using w by (simp add: mult_le_cancel_right)
  have "min (a q) (b q) \<le> t0" using assms(4) by blast
  then have fires: "min (a q) (b q) + tmo < ?at q" using q(2) by linarith
  then have "watchdog tmo ?ts \<noteq> None"
    unfolding watchdog_none len using qn tick [OF qn] by (auto simp: Let_def not_le case_prod_beta)
  then obtain i where i: "watchdog tmo ?ts = Some i" by blast
  note f = i [unfolded watchdog_fires len]
  have "i \<le> q"
  proof (rule ccontr)
    assume "\<not> i \<le> q"
    then have "let (now, u, v) = ?ts ! q in t_sub now (min u v) \<le> tmo" using f by auto
    then show False using fires tick [OF qn] by (simp add: case_prod_beta)
  qed
  moreover have "(int i + 1) * ?w \<le> (int q + 1) * ?w" using \<open>i \<le> q\<close> w by (simp add: mult_right_mono)
  moreover have "(int q + 1) * ?w \<le> t0 + tmo - start + ?w" using q(1) by (simp add: distrib_right)
  ultimately show ?thesis
    using f i tick [of i] by (intro exI [of _ i]) auto
qed

theorem silence_detected_witness:
  "\<exists>i < 9. watchdog (20 * second) (ticks_from 0 (20 * second) (\<lambda>i. int i * 5 * second) (\<lambda>_. 1) 9) = Some i"
proof -
  have w: "watch_interval (20 * second) = 5 * second"
    by (simp add: watch_interval_def second_def go_quot_nonneg)
  show ?thesis
    using silence_detected [of "20 * second" 0 1 "\<lambda>i. int i * 5 * second" "\<lambda>_. 1" 9]
    unfolding w by (auto simp: second_def max_dur_def)
qed

end
