(* ===== verification/Hep.thy ===== *)
theory Hep
  imports Netip
begin

text \<open>
  The HEPv3 encoder, \<^verbatim>\<open>src/internal/hep/hep.go\<close>. Bytes are \<open>8 word\<close>, a Go string or byte slice is
  a list of them, and the result is the pair Go returns: the buffer and the error, if any.
  \<open>hep_decode\<close> is not the program's: it is the receiver's side of the protocol, the specification
  the encoder is checked against.
\<close>

type_synonym bytes = "8 word list"

section \<open>Model\<close>

definition MaxHepPacket :: nat where
  "MaxHepPacket = 65507"

datatype hep_error = ErrTooLarge | ErrFamilyMismatch | ErrBadAddr | ErrBadType | ErrSizeMismatch

record hep_packet =
  hp_Src :: addrport
  hp_Dst :: addrport
  hp_Proto :: "8 word"
  hp_Time :: gtime
  hp_Type :: "8 word"
  CorrelationID :: bytes
  Payload :: bytes

text \<open>Big-endian \<^verbatim>\<open>AppendUint16\<close> and \<^verbatim>\<open>AppendUint32\<close>, \<^verbatim>\<open>As4\<close> and \<^verbatim>\<open>As16\<close>.\<close>

definition be16 :: "16 word \<Rightarrow> bytes" where
  "be16 w = [ucast (drop_bit 8 w), ucast w]"

definition be32 :: "32 word \<Rightarrow> bytes" where
  "be32 w = [ucast (drop_bit 24 w), ucast (drop_bit 16 w), ucast (drop_bit 8 w), ucast w]"

definition be128 :: "128 word \<Rightarrow> bytes" where
  "be128 w = map (\<lambda>i. ucast (drop_bit (8 * (15 - i)) w)) [0..<16]"

fun addr_bytes :: "addr \<Rightarrow> bytes" where
  "addr_bytes (V4 w) = be32 w"
| "addr_bytes (V6 w _) = be128 w"
| "addr_bytes AddrZero = []"

text \<open>\<^verbatim>\<open>t.Unix()\<close> and \<^verbatim>\<open>t.Nanosecond()\<close>: seconds since 1970, and nanoseconds in the second.\<close>

definition unix_secs :: "gtime \<Rightarrow> int" where
  "unix_secs t = t div second - 62135596800"

definition nanos :: "gtime \<Rightarrow> int" where
  "nanos t = t mod second"

definition chunk_header :: "16 word \<Rightarrow> nat \<Rightarrow> bytes" where
  "chunk_header ty n = be16 0 @ be16 ty @ be16 (of_nat (6 + n))"

definition chunk :: "16 word \<Rightarrow> bytes \<Rightarrow> bytes" where
  "chunk ty data = chunk_header ty (length data) @ data"

definition hep_size :: "nat \<Rightarrow> hep_packet \<Rightarrow> bytes \<Rightarrow> nat" where
  "hep_size addrLen p node =
     6 + (6 + 1) + (6 + 1) + 2 * (6 + addrLen) + 2 * (6 + 2) + 2 * (6 + 4) + (6 + 1) + (6 + 4) +
     6 + length (Payload p) +
     (if CorrelationID p \<noteq> [] then 6 + length (CorrelationID p) else 0) +
     (if node \<noteq> [] then 6 + length node else 0)"

text \<open>The chunks in the order they are written.\<close>

definition hep_chunks :: "gtime \<Rightarrow> hep_packet \<Rightarrow> 32 word \<Rightarrow> bytes \<Rightarrow> (16 word \<times> bytes) list" where
  "hep_chunks t p captureID node =
     (let src = unmap (fst (hp_Src p)); d = unmap (fst (hp_Dst p)); v4 = addr_is4 src in
      [(0x01, [if v4 then 2 else 10]), (0x02, [hp_Proto p]),
       (if v4 then 0x03 else 0x05, addr_bytes src), (if v4 then 0x04 else 0x06, addr_bytes d),
       (0x07, be16 (snd (hp_Src p))), (0x08, be16 (snd (hp_Dst p))),
       (0x09, be32 (word_of_int (unix_secs t))), (0x0a, be32 (word_of_int (go_quot (nanos t) 1000))),
       (0x0b, [hp_Type p]), (0x0c, be32 captureID), (0x0f, Payload p)]
      @ (if CorrelationID p \<noteq> [] then [(0x11, CorrelationID p)] else [])
      @ (if node \<noteq> [] then [(0x13, node)] else []))"

definition AppendPacket :: "bytes \<Rightarrow> hep_packet \<Rightarrow> 32 word \<Rightarrow> bytes \<Rightarrow> gtime \<Rightarrow> bytes \<times> hep_error option" where
  "AppendPacket buf p captureID node now =
     (if \<not> ap_valid (hp_Src p) \<or> \<not> ap_valid (hp_Dst p) then (buf, Some ErrBadAddr)
      else if hp_Type p = 0 then (buf, Some ErrBadType)
      else let src = unmap (fst (hp_Src p)); d = unmap (fst (hp_Dst p)) in
        if addr_is4 src \<noteq> addr_is4 d then (buf, Some ErrFamilyMismatch)
        else let size = hep_size (if addr_is4 src then 4 else 16) p node in
          if size > MaxHepPacket \<or> 6 + length (Payload p) > 0xffff \<or> 6 + length (CorrelationID p) > 0xffff \<or>
             6 + length node > 0xffff
          then (buf, Some ErrTooLarge)
          else let t = (if t_is_zero (hp_Time p) then now else hp_Time p);
                   out = buf @ map of_char ''HEP3'' @ be16 (of_nat size) @
                     concat (map (\<lambda>(ty, data). chunk ty data) (hep_chunks t p captureID node))
               in if length out - length buf \<noteq> size then (buf, Some ErrSizeMismatch) else (out, None))"

section \<open>The receiver\<close>

definition un_be :: "bytes \<Rightarrow> nat" where
  "un_be bs = foldl (\<lambda>n b. 256 * n + unat b) 0 bs"

text \<open>\<open>n\<close> bytes of chunks: each header is vendor, type and a length that counts the header.\<close>

function parse_chunks :: "nat \<Rightarrow> bytes \<Rightarrow> ((16 word \<times> bytes) list \<times> bytes) option" where
  "parse_chunks n bs =
     (if n = 0 then Some ([], bs)
      else if n < 6 \<or> length bs < n then None
      else let len = un_be (take 2 (drop 4 bs)) in
        if len < 6 \<or> n < len then None
        else (case parse_chunks (n - len) (drop len bs) of
            None \<Rightarrow> None
          | Some (cs, rest) \<Rightarrow> Some ((of_nat (un_be (take 2 (drop 2 bs))), take (len - 6) (drop 6 bs)) # cs, rest)))"
  by pat_completeness auto
termination by (relation "measure fst") auto

declare parse_chunks.simps [simp del]

definition hep_decode :: "bytes \<Rightarrow> ((16 word \<times> bytes) list \<times> bytes) option" where
  "hep_decode bs =
     (if length bs < 6 \<or> take 4 bs \<noteq> map of_char ''HEP3'' then None
      else let n = un_be (take 2 (drop 4 bs)) in if n < 6 then None else parse_chunks (n - 6) (drop 6 bs))"

section \<open>Lemmas\<close>

lemma length_be [simp]: "length (be16 w) = 2" "length (be32 v) = 4" "length (be128 u) = 16"
  by (simp_all add: be16_def be32_def be128_def)

lemma foldl_be: "foldl (\<lambda>n b. 256 * n + unat b) a bs = a * 256 ^ length bs + un_be bs"
proof (induction bs arbitrary: a)
  case Nil
  then show ?case by (simp add: un_be_def)
next
  case (Cons c bs)
  have "un_be (c # bs) = unat c * 256 ^ length bs + un_be bs"
    using Cons.IH [of "unat c"] by (simp add: un_be_def)
  then show ?case
    using Cons.IH [of "256 * a + unat c"] by (simp add: algebra_simps)
qed

lemma un_be_Cons: "un_be (b # bs) = unat b * 256 ^ length bs + un_be bs"
  using foldl_be [of "unat b" bs] by (simp add: un_be_def)

lemma un_be_Nil [simp]: "un_be [] = 0"
  by (simp add: un_be_def)

definition be :: "nat \<Rightarrow> 'a::len word \<Rightarrow> bytes" where
  "be k w = rev (map (\<lambda>i. ucast (drop_bit (8 * i) w)) [0..<k])"

lemma length_be_gen [simp]: "length (be k w) = k"
  by (simp add: be_def)

lemma un_be_be: "un_be (be k w) = unat w mod 256 ^ k"
proof (induction k)
  case 0
  then show ?case by (simp add: be_def)
next
  case (Suc k)
  have b: "be (Suc k) w = ucast (drop_bit (8 * k) w) # be k w" by (simp add: be_def)
  have u: "unat (ucast (drop_bit (8 * k) w) :: 8 word) = unat w div 256 ^ k mod 256"
    by (simp only: unsigned_ucast_eq unat_drop_bit_eq take_bit_eq_mod) (simp add: drop_bit_eq_div power_mult)
  have "unat w mod (256 ^ k * 256) = 256 ^ k * (unat w div 256 ^ k mod 256) + unat w mod 256 ^ k"
    by (rule mod_mult2_eq)
  then show ?case
    unfolding b un_be_Cons u Suc.IH by (simp add: mult.commute)
qed

lemma be_16: "be16 w = be 2 w"
  by (simp add: be16_def be_def eval_nat_numeral)

lemma be_32: "be32 w = be 4 w"
  by (simp add: be32_def be_def eval_nat_numeral)

lemma be_128: "be128 w = be 16 w"
proof (rule nth_equalityI)
  fix i
  assume "i < length (be128 w)"
  then have i: "i < 16" by simp
  then have "[0..<16] ! (15 - i) = 15 - i" by (subst nth_upt) auto
  then show "be128 w ! i = be 16 w ! i"
    using i by (simp add: be128_def be_def rev_nth rev_map)
qed simp

lemma unat_lt: "unat (w :: 'a::len word) < 2 ^ LENGTH('a)"
  by (rule unsigned_less)

lemma un_be16 [simp]: "un_be (be16 w) = unat w"
  using unat_lt [of w] by (simp add: be_16 un_be_be)

lemma un_be32 [simp]: "un_be (be32 w) = unat w"
  using unat_lt [of w] by (simp add: be_32 un_be_be)

lemma un_be128 [simp]: "un_be (be128 w) = unat w"
  using unat_lt [of w] by (simp add: be_128 un_be_be)

lemma chunk_length [simp]: "length (chunk ty d) = 6 + length d"
  by (simp add: chunk_def chunk_header_def)

lemma unat_small16: "n \<le> 0xffff \<Longrightarrow> unat (of_nat n :: 16 word) = n"
  by (simp add: unat_of_nat)

lemma parse_chunk:
  assumes "6 + length d \<le> 0xffff" "6 + length d \<le> n" "n \<le> length (chunk ty d @ bs)"
  shows "parse_chunks n (chunk ty d @ bs) =
    (case parse_chunks (n - (6 + length d)) bs of None \<Rightarrow> None | Some (cs, rest) \<Rightarrow> Some ((ty, d) # cs, rest))"
proof -
  define x where "x = chunk ty d @ bs"
  have "take 2 (drop 4 x) = be16 (of_nat (6 + length d))" "take 2 (drop 2 x) = be16 ty" "drop 6 x = d @ bs"
    by (simp_all add: x_def chunk_def chunk_header_def be16_def)
  then have h: "un_be (take 2 (drop 4 x)) = 6 + length d" "of_nat (un_be (take 2 (drop 2 x))) = ty"
      "take (length d) (drop 6 x) = d"
    using unat_small16 [OF assms(1)] by (simp_all only: un_be16 of_nat_unat) simp_all
  have dr: "drop (6 + length d) x = bs" by (simp add: x_def)
  have "n \<le> length x" using assms(3) by (simp add: x_def)
  then show ?thesis
    unfolding x_def [symmetric] using assms(2)
    by (subst parse_chunks.simps) (simp add: h Let_def dr split: option.splits)
qed

lemma parse_chunks_concat:
  assumes "\<forall>(ty, d) \<in> set cs. 6 + length d \<le> 0xffff"
  shows "parse_chunks (length (concat (map (\<lambda>(ty, d). chunk ty d) cs))) (concat (map (\<lambda>(ty, d). chunk ty d) cs) @ rest) =
    Some (cs, rest)"
  using assms
proof (induction cs)
  case Nil
  then show ?case by (simp add: parse_chunks.simps)
next
  case (Cons c cs)
  obtain ty d where c: "c = (ty, d)" by force
  then show ?case
    using Cons parse_chunk [of d "length (concat (map (\<lambda>(ty, d). chunk ty d) (c # cs)))" ty
        "concat (map (\<lambda>(ty, d). chunk ty d) cs) @ rest"] by simp
qed

section \<open>Properties\<close>

text \<open>What a receiver reads out of a packet's chunks.\<close>

record hep_view =
  vw_v4 :: bool
  vw_proto :: nat
  vw_src :: "nat \<times> nat"
  vw_dst :: "nat \<times> nat"
  vw_secs :: nat
  vw_usecs :: nat
  vw_type :: nat
  vw_capture :: nat
  vw_payload :: bytes
  vw_corr :: bytes
  vw_node :: bytes

definition hep_view :: "(16 word \<times> bytes) list \<Rightarrow> hep_view" where
  "hep_view cs =
     (let g = (\<lambda>k. case map_of cs k of None \<Rightarrow> [] | Some d \<Rightarrow> d); v4 = (un_be (g 0x01) = 2) in
      \<lparr>vw_v4 = v4, vw_proto = un_be (g 0x02),
       vw_src = (un_be (g (if v4 then 0x03 else 0x05)), un_be (g 0x07)),
       vw_dst = (un_be (g (if v4 then 0x04 else 0x06)), un_be (g 0x08)),
       vw_secs = un_be (g 0x09), vw_usecs = un_be (g 0x0a), vw_type = un_be (g 0x0b), vw_capture = un_be (g 0x0c),
       vw_payload = g 0x0f, vw_corr = g 0x11, vw_node = g 0x13\<rparr>)"

fun addr_num :: "addr \<Rightarrow> nat" where
  "addr_num (V4 w) = unat w"
| "addr_num (V6 w _) = unat w"
| "addr_num AddrZero = 0"

definition hep_expected :: "gtime \<Rightarrow> hep_packet \<Rightarrow> 32 word \<Rightarrow> bytes \<Rightarrow> hep_view" where
  "hep_expected t p captureID node =
     \<lparr>vw_v4 = addr_is4 (unmap (fst (hp_Src p))), vw_proto = unat (hp_Proto p),
      vw_src = (addr_num (unmap (fst (hp_Src p))), unat (snd (hp_Src p))),
      vw_dst = (addr_num (unmap (fst (hp_Dst p))), unat (snd (hp_Dst p))),
      vw_secs = nat (unix_secs t mod 2 ^ 32), vw_usecs = nat (nanos t div 1000),
      vw_type = unat (hp_Type p), vw_capture = unat captureID, vw_payload = Payload p,
      vw_corr = CorrelationID p, vw_node = node\<rparr>"

lemma addr_bytes_num [simp]: "un_be (addr_bytes a) = addr_num a"
  by (cases a) auto

lemma addr_bytes_length:
  "addr_valid a \<Longrightarrow> length (addr_bytes a) = (if addr_is4 a then 4 else 16)"
  by (cases a) auto

lemma hep_size_ok:
  assumes "ap_valid (hp_Src p)" "ap_valid (hp_Dst p)"
    and "addr_is4 (unmap (fst (hp_Src p))) = addr_is4 (unmap (fst (hp_Dst p)))"
  shows "6 + length (concat (map (\<lambda>(ty, d). chunk ty d) (hep_chunks t p c node))) =
    hep_size (if addr_is4 (unmap (fst (hp_Src p))) then 4 else 16) p node"
  using assms addr_bytes_length [of "unmap (fst (hp_Src p))"] addr_bytes_length [of "unmap (fst (hp_Dst p))"]
  by (simp add: hep_chunks_def hep_size_def Let_def ap_valid_def)

lemma usecs_ok: "unat (word_of_int (go_quot (nanos t) 1000) :: 32 word) = nat (nanos t div 1000)"
proof -
  have "0 \<le> nanos t" "nanos t < 1000000000" by (simp_all add: nanos_def second_def)
  then have "0 \<le> nanos t div 1000" "nanos t div 1000 < 2 ^ 32" "go_quot (nanos t) 1000 = nanos t div 1000"
    by (simp_all add: go_quot_nonneg)
  then show ?thesis by (simp add: unsigned_of_int take_bit_int_eq_self)
qed

lemma secs_ok: "unat (word_of_int (unix_secs t) :: 32 word) = nat (unix_secs t mod 2 ^ 32)"
  by (simp add: unsigned_of_int take_bit_eq_mod)

lemma hep_view_chunks:
  "hep_view (hep_chunks t p c node) = hep_expected t p c node"
proof -
  have b: "un_be [b] = unat b" for b by (simp add: un_be_def)
  show ?thesis
    by (cases "addr_is4 (unmap (fst (hp_Src p)))"; cases "CorrelationID p = []"; cases "node = []")
      (simp_all add: hep_view_def hep_expected_def hep_chunks_def Let_def b usecs_ok secs_ok)
qed

text \<open>When the encoder succeeds, and what it wrote.\<close>

definition hep_encodable :: "hep_packet \<Rightarrow> bytes \<Rightarrow> bool" where
  "hep_encodable p node \<longleftrightarrow> ap_valid (hp_Src p) \<and> ap_valid (hp_Dst p) \<and> hp_Type p \<noteq> 0 \<and>
     addr_is4 (unmap (fst (hp_Src p))) = addr_is4 (unmap (fst (hp_Dst p))) \<and>
     hep_size (if addr_is4 (unmap (fst (hp_Src p))) then 4 else 16) p node \<le> MaxHepPacket"

definition hep_body :: "gtime \<Rightarrow> hep_packet \<Rightarrow> 32 word \<Rightarrow> bytes \<Rightarrow> bytes" where
  "hep_body t p c node = concat (map (\<lambda>(ty, d). chunk ty d) (hep_chunks t p c node))"

lemma append_packet_ok:
  assumes "hep_encodable p node"
  shows "AppendPacket buf p c node now =
    (buf @ map of_char ''HEP3'' @ be16 (of_nat (6 + length (hep_body (if t_is_zero (hp_Time p) then now else hp_Time p) p c node)))
      @ hep_body (if t_is_zero (hp_Time p) then now else hp_Time p) p c node, None)"
proof -
  let ?t = "if t_is_zero (hp_Time p) then now else hp_Time p"
  have v: "ap_valid (hp_Src p)" "ap_valid (hp_Dst p)" "hp_Type p \<noteq> 0"
      "addr_is4 (unmap (fst (hp_Src p))) = addr_is4 (unmap (fst (hp_Dst p)))"
    using assms by (simp_all add: hep_encodable_def)
  define size where "size = hep_size (if addr_is4 (unmap (fst (hp_Src p))) then 4 else 16) p node"
  have size: "6 + length (hep_body ?t p c node) = size"
    unfolding hep_body_def size_def by (rule hep_size_ok [OF v(1,2,4)])
  have le: "size \<le> 65507" using assms unfolding hep_encodable_def size_def MaxHepPacket_def by blast
  then have "6 + length (Payload p) \<le> 0xffff" "6 + length (CorrelationID p) \<le> 0xffff" "6 + length node \<le> 0xffff"
    by (auto simp: size_def hep_size_def split: if_splits)
  then show ?thesis
    using v le size unfolding AppendPacket_def Let_def size_def [symmetric] hep_body_def [symmetric]
    by (simp add: MaxHepPacket_def not_less del: split_paired_All)
qed

text \<open>
  The encoder's errors are exactly the documented ones. It fails when an address is missing, the
  type is zero, the families differ or the packet would not fit, in this order of precedence, the
  buffer it was given is then returned unchanged; in every other case it succeeds, so the internal
  size check never trips.
\<close>

theorem hep_errors_exact:
  "case AppendPacket buf p c node now of
     (out, None) \<Rightarrow> hep_encodable p node
   | (out, Some e) \<Rightarrow> out = buf \<and> \<not> hep_encodable p node \<and>
       e = (if \<not> ap_valid (hp_Src p) \<or> \<not> ap_valid (hp_Dst p) then ErrBadAddr
            else if hp_Type p = 0 then ErrBadType
            else if addr_is4 (unmap (fst (hp_Src p))) \<noteq> addr_is4 (unmap (fst (hp_Dst p))) then ErrFamilyMismatch
            else ErrTooLarge)"
proof (cases "hep_encodable p node")
  case True
  then show ?thesis by (simp add: append_packet_ok)
next
  case False
  consider "\<not> ap_valid (hp_Src p) \<or> \<not> ap_valid (hp_Dst p)"
    | "ap_valid (hp_Src p)" "ap_valid (hp_Dst p)" "hp_Type p = 0"
    | "ap_valid (hp_Src p)" "ap_valid (hp_Dst p)" "hp_Type p \<noteq> 0" "addr_is4 (unmap (fst (hp_Src p))) \<noteq> addr_is4 (unmap (fst (hp_Dst p)))"
    | "ap_valid (hp_Src p)" "ap_valid (hp_Dst p)" "hp_Type p \<noteq> 0" "addr_is4 (unmap (fst (hp_Src p))) = addr_is4 (unmap (fst (hp_Dst p)))"
      "MaxHepPacket < hep_size (if addr_is4 (unmap (fst (hp_Src p))) then 4 else 16) p node"
    using False by (fastforce simp: hep_encodable_def not_le)
  then show ?thesis
    using False by cases (simp_all add: AppendPacket_def Let_def)
qed

theorem hep_errors_exact_witness:
  "AppendPacket [1] \<lparr>hp_Src = (V4 1, 2), hp_Dst = (V6 3 [], 4), hp_Proto = 17, hp_Time = 0, hp_Type = 1,
     CorrelationID = [], Payload = []\<rparr> 5 [] 6 = ([1], Some ErrFamilyMismatch)"
proof -
  let ?p = "\<lparr>hp_Src = (V4 1, 2), hp_Dst = (V6 3 [], 4), hp_Proto = 17, hp_Time = 0, hp_Type = 1,
     CorrelationID = [], Payload = []\<rparr> :: hep_packet"
  have "\<not> hep_encodable ?p []" by (simp add: hep_encodable_def)
  then show ?thesis
    using hep_errors_exact [where buf = "[1]" and p = ?p and c = 5 and node = "[]" and now = 6] by (auto simp: ap_valid_def split: prod.splits option.splits)
qed

lemma hep_decode_body:
  assumes "6 + length (hep_body t p c node) \<le> 0xffff"
    and "\<forall>(ty, d) \<in> set (hep_chunks t p c node). 6 + length d \<le> 0xffff"
  shows "hep_decode (map of_char ''HEP3'' @ be16 (of_nat (6 + length (hep_body t p c node))) @ hep_body t p c node @ rest) =
    Some (hep_chunks t p c node, rest)"
proof -
  define x where "x = map of_char ''HEP3'' @ be16 (of_nat (6 + length (hep_body t p c node))) @ hep_body t p c node @ rest"
  have "take 4 x = map of_char ''HEP3''" "drop 6 x = hep_body t p c node @ rest" "6 \<le> length x"
      "take 2 (drop 4 x) = be16 (of_nat (6 + length (hep_body t p c node)))"
    by (simp_all add: x_def be16_def)
  moreover have "un_be (be16 (of_nat (6 + length (hep_body t p c node)))) = 6 + length (hep_body t p c node)"
    unfolding un_be16 using assms(1) by (rule unat_small16)
  moreover have "parse_chunks (length (hep_body t p c node)) (hep_body t p c node @ rest) = Some (hep_chunks t p c node, rest)"
    unfolding hep_body_def by (rule parse_chunks_concat [OF assms(2)])
  ultimately have "hep_decode x = Some (hep_chunks t p c node, rest)"
    by (simp only: hep_decode_def Let_def) simp
  then show ?thesis by (simp only: x_def)
qed

text \<open>
  C39: encode, then decode. What a successful \<^verbatim>\<open>AppendPacket\<close> puts on the wire, followed by anything
  at all (TCP and TLS write packets back to back), is read by a receiver that knows only the HEPv3
  framing as exactly one packet with the same addresses (4in6 as IPv4), ports, protocol, time (seconds
  modulo \<open>2 ^ 32\<close>, microseconds), type, capture ID, payload, correlation ID and node name, and the rest
  of the stream is left for the next packet.
\<close>

theorem hep_roundtrip:
  assumes "AppendPacket buf p captureID node now = (out, None)"
  shows "\<exists>cs. hep_decode (drop (length buf) out @ rest) = Some (cs, rest) \<and> take (length buf) out = buf \<and>
    hep_view cs = hep_expected (if t_is_zero (hp_Time p) then now else hp_Time p) p captureID node"
proof -
  let ?t = "if t_is_zero (hp_Time p) then now else hp_Time p"
  have enc: "hep_encodable p node" using hep_errors_exact [where buf = buf and p = p and c = captureID and node = node and now = now] assms by simp
  define size where "size = hep_size (if addr_is4 (unmap (fst (hp_Src p))) then 4 else 16) p node"
  have le: "size \<le> 65507" using enc unfolding hep_encodable_def size_def MaxHepPacket_def by blast
  have size: "6 + length (hep_body ?t p captureID node) = size"
    unfolding hep_body_def size_def using enc by (intro hep_size_ok) (simp_all add: hep_encodable_def)
  have "6 + length (Payload p) \<le> 0xffff" "6 + length (CorrelationID p) \<le> 0xffff" "6 + length node \<le> 0xffff"
    using le by (auto simp: size_def hep_size_def split: if_splits)
  moreover have "6 + length (addr_bytes a) \<le> 0xffff" for a by (cases a) auto
  ultimately have "\<forall>(ty, d) \<in> set (hep_chunks ?t p captureID node). 6 + length d \<le> 0xffff"
    by (auto simp: hep_chunks_def Let_def)
  moreover have "out = buf @ map of_char ''HEP3'' @ be16 (of_nat (6 + length (hep_body ?t p captureID node)))
      @ hep_body ?t p captureID node"
    using assms append_packet_ok [OF enc, where buf = buf and c = captureID and now = now] by simp
  ultimately show ?thesis
    using hep_decode_body [of ?t p captureID node rest] le size hep_view_chunks [of ?t p captureID node] by simp
qed

theorem hep_roundtrip_witness:
  "\<exists>out cs. AppendPacket [] \<lparr>hp_Src = (V4 1, 2), hp_Dst = (V4 3, 4), hp_Proto = 17, hp_Time = 0, hp_Type = 1,
     CorrelationID = [7], Payload = [8, 9]\<rparr> 5 [] 6 = (out, None) \<and>
   hep_decode (out @ out) = Some (cs, out) \<and> vw_payload (hep_view cs) = [8, 9]"
proof -
  let ?p = "\<lparr>hp_Src = (V4 1, 2), hp_Dst = (V4 3, 4), hp_Proto = 17, hp_Time = 0, hp_Type = 1,
     CorrelationID = [7], Payload = [8, 9]\<rparr> :: hep_packet"
  have "hep_encodable ?p []" by (simp add: hep_encodable_def ap_valid_def hep_size_def MaxHepPacket_def)
  then obtain out where 1: "AppendPacket [] ?p 5 [] 6 = (out, None)" using append_packet_ok by blast
  from hep_roundtrip [OF 1, of out] show ?thesis
    using 1 by (auto simp: hep_expected_def)
qed

end
