(* ===== verification/Sdp_Fmtp.thy ===== *)
theory Sdp_Fmtp
  imports Go_Strings
begin

text \<open>
  The fmtp filter, \<^verbatim>\<open>src/internal/sip/sdp/fmtp.go\<close>: an \<^verbatim>\<open>a=fmtp\<close> value is parsed against a
  per-codec allowlist and rendered again. A parameter's validator is a value of \<open>fmtp_param\<close>, read
  by \<open>check_param\<close>; the Unicode case tables are the argument \<open>u\<close>, which matters for input that is
  not ASCII only.
\<close>

section \<open>Model\<close>

datatype fmtp_param = FInt nat nat | FEnum "string list" | FModeSet nat

definition fmtpInt :: "nat \<Rightarrow> nat \<Rightarrow> string \<Rightarrow> string option" where
  "fmtpInt lo hi v =
     (if length v = 0 \<or> length v > 10 then None
      else case parse_uint 64 v of
          None \<Rightarrow> None
        | Some n \<Rightarrow>
            if n < lo \<or> n > hi then None
            else if hd v \<noteq> CHR ''0'' \<or> length v = 1 then Some v
            else Some (show_nat n))"

definition fmtpEnum :: "unicode \<Rightarrow> string list \<Rightarrow> string \<Rightarrow> string option" where
  "fmtpEnum u vals v = find (\<lambda>want. equal_fold u v want) vals"

definition mode_number :: "nat \<Rightarrow> string \<Rightarrow> nat option" where
  "mode_number mx p = (case atoi (trim_space p) of
       None \<Rightarrow> None | Some n \<Rightarrow> if n < 0 \<or> n > int mx then None else Some (nat n))"

definition fmtpModeSet :: "nat \<Rightarrow> string \<Rightarrow> string option" where
  "fmtpModeSet mx v =
     (let parts = split_on (CHR '','') v in
      if length parts > mx + 1 then None
      else if list_ex (\<lambda>p. mode_number mx p = None) parts then None
      else Some (join '','' (map (\<lambda>p. show_nat (the (mode_number mx p))) parts)))"

definition check_param :: "unicode \<Rightarrow> fmtp_param \<Rightarrow> string \<Rightarrow> string option" where
  "check_param u p v = (case p of
       FInt lo hi \<Rightarrow> fmtpInt lo hi v | FEnum vals \<Rightarrow> fmtpEnum u vals v | FModeSet mx \<Rightarrow> fmtpModeSet mx v)"

definition fmtpBool :: fmtp_param where
  "fmtpBool = FEnum [''0'', ''1'']"

type_synonym fmtp_table = "(string \<times> fmtp_param) list"

definition opus_params :: fmtp_table where
  "opus_params =
     [(''maxplaybackrate'', FInt 8000 48000), (''sprop-maxcapturerate'', FInt 8000 48000),
      (''maxptime'', FInt 3 120), (''ptime'', FInt 3 120), (''minptime'', FInt 3 120),
      (''maxaveragebitrate'', FInt 6000 510000), (''stereo'', fmtpBool), (''sprop-stereo'', fmtpBool),
      (''cbr'', fmtpBool), (''useinbandfec'', fmtpBool), (''usedtx'', fmtpBool)]"

definition amr_params :: "nat \<Rightarrow> fmtp_table" where
  "amr_params mx =
     [(''octet-align'', fmtpBool), (''mode-set'', FModeSet mx), (''mode-change-period'', FEnum [''1'', ''2'']),
      (''mode-change-capability'', FEnum [''1'', ''2'']), (''mode-change-neighbor'', fmtpBool), (''crc'', fmtpBool),
      (''robust-sorting'', fmtpBool), (''max-red'', FInt 0 65535)]"

definition fmtpAllow :: "(string \<times> fmtp_table) list" where
  "fmtpAllow =
     [(''opus'', opus_params), (''amr'', amr_params 7), (''amr-wb'', amr_params 8),
      (''g729'', [(''annexb'', FEnum [''yes'', ''no''])]), (''ilbc'', [(''mode'', FEnum [''20'', ''30''])]),
      (''g7221'', [(''bitrate'', FEnum [''24000'', ''32000'', ''48000''])])]"

definition eventNumber :: "string \<Rightarrow> nat option" where
  "eventNumber s =
     (if length s = 0 \<or> length s > 3 then None
      else case atoi s of None \<Rightarrow> None | Some n \<Rightarrow> if n < 0 \<or> n > 255 then None else Some (nat n))"

text \<open>One entry of an event list, rendered.\<close>

definition event_entry :: "string \<Rightarrow> string option" where
  "event_entry p =
     (let (lo, hi, isRange) = cut (CHR ''-'') (trim_space p) in
      case eventNumber lo of
        None \<Rightarrow> None
      | Some a \<Rightarrow>
          if \<not> isRange then Some (show_nat a)
          else (case eventNumber hi of
              None \<Rightarrow> None
            | Some b \<Rightarrow> if b < a then None else Some (show_nat a @ ''-'' @ show_nat b)))"

definition eventList :: "string \<Rightarrow> string option" where
  "eventList v =
     (if v = [] \<or> length (filter (\<lambda>c. c = CHR '','') v) \<ge> 64 then None
      else let parts = split_on (CHR '','') v in
        if list_ex (\<lambda>p. event_entry p = None) parts then None
        else Some (join '','' (map (\<lambda>p. the (event_entry p)) parts)))"

fun first_events :: "string list \<Rightarrow> string" where
  "first_events [] = []"
| "first_events (seg # segs) = (case eventList (trim_space seg) of Some out \<Rightarrow> out | None \<Rightarrow> first_events segs)"

definition events_fmtp :: "string \<Rightarrow> string" where
  "events_fmtp raw = first_events (split_on (CHR '';'') raw)"

text \<open>The loop over the segments: \<open>seen\<close> are the keys already written.\<close>

fun fmtp_params :: "unicode \<Rightarrow> fmtp_table \<Rightarrow> string list \<Rightarrow> string list \<Rightarrow> (string \<times> string) list" where
  "fmtp_params u allow seen [] = []"
| "fmtp_params u allow seen (seg # segs) =
     (let (k0, v, ok) = cut (CHR ''='') seg; k = to_lower u (trim_space k0) in
      if \<not> ok then fmtp_params u allow seen segs
      else case map_of allow k of
          None \<Rightarrow> fmtp_params u allow seen segs
        | Some p \<Rightarrow>
            if k \<in> set seen then fmtp_params u allow seen segs
            else (case check_param u p (trim_space v) of
                None \<Rightarrow> fmtp_params u allow seen segs
              | Some cv \<Rightarrow> (k, cv) # fmtp_params u allow (k # seen) segs))"

definition render_param :: "string \<times> string \<Rightarrow> string" where
  "render_param kv = fst kv @ ''='' @ snd kv"

definition maxFMTP :: nat where
  "maxFMTP = 512"

definition canonicalFMTP :: "unicode \<Rightarrow> string \<Rightarrow> string \<Rightarrow> string" where
  "canonicalFMTP u name raw =
     (if raw = [] \<or> length raw > maxFMTP then []
      else let lname = to_lower u name in
        if lname = ''telephone-event'' then events_fmtp raw
        else case map_of fmtpAllow lname of
            None \<Rightarrow> []
          | Some allow \<Rightarrow> join '';'' (map render_param (fmtp_params u allow [] (split_on (CHR '';'') raw))))"

section \<open>Canonical values\<close>

text \<open>The characters an emitted value consists of.\<close>

definition value_char :: "char \<Rightarrow> bool" where
  "value_char c \<longleftrightarrow> is_lower c \<or> is_digit c \<or> c = CHR ''-'' \<or> c = CHR '',''"

definition clean :: "string \<Rightarrow> bool" where
  "clean s \<longleftrightarrow> s \<noteq> [] \<and> list_all value_char s"

lemma clean_digits: "list_all is_digit s \<Longrightarrow> s \<noteq> [] \<Longrightarrow> clean s"
  by (auto simp: clean_def value_char_def list_all_iff)

lemma clean_show [simp]: "clean (show_nat n)"
  by (rule clean_digits) simp_all

lemma clean_append: "clean a \<Longrightarrow> clean b \<Longrightarrow> clean (a @ b)"
  by (auto simp: clean_def)

lemma clean_join: "\<forall>s \<in> set ss. clean s \<Longrightarrow> ss \<noteq> [] \<Longrightarrow> clean (join '','' ss)"
proof (induction "'',''" ss rule: join.induct)
  case (3 x y ys)
  then show ?case by (auto simp: clean_def value_char_def)
qed auto

lemma parse_uint_digits: "parse_uint k v = Some n \<Longrightarrow> v \<noteq> [] \<and> list_all is_digit v \<and> n = digits_val v"
  by (auto simp: parse_uint_def split: if_splits)

lemma fmtpInt_clean: "fmtpInt lo hi v = Some cv \<Longrightarrow> clean cv"
  by (auto simp: fmtpInt_def clean_digits dest!: parse_uint_digits split: if_splits option.splits)

lemma fmtpModeSet_clean: "fmtpModeSet mx v = Some cv \<Longrightarrow> clean cv"
  by (auto simp: fmtpModeSet_def Let_def intro!: clean_join split: if_splits)

lemma event_entry_clean: "event_entry p = Some e \<Longrightarrow> clean e"
proof -
  assume e: "event_entry p = Some e"
  then obtain a b where "e = show_nat a \<or> e = show_nat a @ ''-'' @ show_nat b"
    by (auto simp: event_entry_def Let_def split: prod.splits option.splits if_splits)
  moreover have "clean ''-''" by (simp add: clean_def value_char_def)
  ultimately show ?thesis by (metis clean_append clean_show)
qed

lemma eventList_clean: "eventList v = Some out \<Longrightarrow> clean out"
proof -
  assume e: "eventList v = Some out"
  then have "out = join '','' (map (\<lambda>p. the (event_entry p)) (split_on (CHR '','') v))"
      "\<forall>p \<in> set (split_on (CHR '','') v). event_entry p \<noteq> None"
    by (auto simp: eventList_def Let_def list_ex_iff split: if_splits)
  then show ?thesis
    using event_entry_clean by (auto intro!: clean_join)
qed

definition table_ok :: "fmtp_table \<Rightarrow> bool" where
  "table_ok allow \<longleftrightarrow> list_all (\<lambda>(k, p). clean k \<and> CHR '','' \<notin> set k \<and>
     (case p of FEnum vals \<Rightarrow> list_all clean vals | _ \<Rightarrow> True)) allow"

lemma tables_ok: "map_of fmtpAllow n = Some allow \<Longrightarrow> table_ok allow"
  by (auto simp: fmtpAllow_def opus_params_def amr_params_def fmtpBool_def table_ok_def clean_def value_char_def
      is_lower_def is_digit_def byte_def split: if_splits)

lemma clean_plain: "clean s \<Longrightarrow> plain_word s"
  by (auto simp: clean_def plain_word_def list_all_iff value_char_def is_lower_def is_digit_def is_ascii_space_def byte_def)

lemma clean_lower: "clean s \<Longrightarrow> lower_str s = s"
  by (auto simp: clean_def lower_str_def lower_ascii_def is_upper_def is_lower_def value_char_def is_digit_def list_all_iff
      byte_def intro!: map_idI)

lemma clean_ascii: "clean s \<Longrightarrow> is_ascii s"
  using clean_plain by (auto simp: is_ascii_def plain_word_def list_all_iff)

lemma clean_no: "clean s \<Longrightarrow> \<not> value_char c \<Longrightarrow> c \<notin> set s"
  by (auto simp: clean_def list_all_iff)

lemma not_value_chars [simp]: "\<not> value_char CHR '';''" "\<not> value_char CHR ''=''"
  by (simp_all add: value_char_def is_lower_def is_digit_def byte_def)

lemma params_from_table:
  "(k, cv) \<in> set (fmtp_params u allow seen segs) \<Longrightarrow>
    \<exists>p v. map_of allow k = Some p \<and> check_param u p v = Some cv \<and> k \<notin> set seen"
proof (induction u allow seen segs rule: fmtp_params.induct)
  case (2 u allow seen seg segs)
  then show ?case by (fastforce simp: Let_def split: prod.splits if_splits option.splits)
qed simp

lemma params_distinct: "distinct (map fst (fmtp_params u allow seen segs))"
proof (induction u allow seen segs rule: fmtp_params.induct)
  case (2 u allow seen seg segs)
  have "k \<notin> fst ` set (fmtp_params u allow (k # seen) segs)" for k
    using params_from_table [of k _ u allow "k # seen" segs] by auto
  then show ?case using 2 by (auto simp: Let_def split: prod.splits option.splits)
qed simp

lemma check_clean:
  assumes "table_ok allow" "map_of allow k = Some p" "check_param u p v = Some cv"
  shows "clean k" "clean cv" "CHR '','' \<notin> set k"
proof -
  have "(k, p) \<in> set allow" using assms(2) by (rule map_of_SomeD)
  then have t: "clean k" "CHR '','' \<notin> set k" "\<And>vals. p = FEnum vals \<Longrightarrow> list_all clean vals"
    using assms(1) by (auto simp: table_ok_def list_all_iff)
  show "clean k" "CHR '','' \<notin> set k" by (fact t)+
  show "clean cv"
  proof (cases p)
    case (FInt lo hi)
    then show ?thesis using assms(3) fmtpInt_clean by (auto simp: check_param_def)
  next
    case (FEnum vals)
    then have "cv \<in> set vals" using assms(3) by (auto simp: check_param_def fmtpEnum_def dest: find_SomeD)
    then show ?thesis using t(3) [OF FEnum] by (auto simp: list_all_iff)
  next
    case (FModeSet mx)
    then show ?thesis using assms(3) fmtpModeSet_clean by (auto simp: check_param_def)
  qed
qed

text \<open>The value of a canonical parameter is accepted again, unchanged.\<close>

lemma atoi_show [simp]: "int n < 2 ^ 63 \<Longrightarrow> atoi (show_nat n) = Some (int n)"
proof -
  assume a: "int n < 2 ^ 63"
  have "is_digit (hd (show_nat n))"
    using show_nat_digits [of n] show_nat_nonempty [of n] by (cases "show_nat n") auto
  then have "hd (show_nat n) \<noteq> CHR ''-''" "hd (show_nat n) \<noteq> CHR ''+''"
    by (auto simp: is_digit_def byte_def)
  then show ?thesis using a by (simp add: atoi_def Let_def)
qed

lemma plain_show [simp]: "plain_word (show_nat n)"
  by (rule plain_digits) simp

lemma fmtpInt_again: "fmtpInt lo hi v = Some cv \<Longrightarrow> length cv \<le> length v \<and> fmtpInt lo hi cv = Some cv"
proof -
  assume f: "fmtpInt lo hi v = Some cv"
  then obtain n where n: "parse_uint 64 v = Some n" "lo \<le> n" "n \<le> hi" "0 < length v" "length v \<le> 10"
      "cv = v \<or> cv = show_nat n"
    by (auto simp: fmtpInt_def split: if_splits option.splits)
  then have "n < 10 ^ length v" "n < 2 ^ 64"
    using parse_uint_digits [OF n(1)] digits_val_bound [of v] by (auto simp: parse_uint_def split: if_splits)
  then have "length (show_nat n) \<le> length v" using n(4) by (intro show_nat_length)
  then show ?thesis
    using n f \<open>n < 2 ^ 64\<close> by (auto simp: fmtpInt_def)
qed

lemma fmtpEnum_again:
  assumes "list_all clean vals" "fmtpEnum u vals v = Some cv"
  shows "fmtpEnum u vals cv = Some cv"
proof -
  have cv: "cv \<in> set vals" using assms(2) by (auto simp: fmtpEnum_def dest: find_SomeD)
  have "equal_fold u cv w \<longleftrightarrow> w = cv" if "w \<in> set vals" for w
    using that cv assms(1) clean_ascii clean_lower by (auto simp: equal_fold_def list_all_iff)
  then have "find (equal_fold u cv) vals = find (\<lambda>w. w = cv) vals"
    by (intro find_cong) auto
  moreover have "find (\<lambda>w. w = cv) vals = Some cv" using cv by (induction vals) auto
  ultimately show ?thesis by (simp add: fmtpEnum_def)
qed

lemma mode_again: "mode_number mx p = Some m \<Longrightarrow> mx < 2 ^ 63 \<Longrightarrow> mode_number mx (show_nat m) = Some m"
  by (auto simp: mode_number_def split: option.splits if_splits)

lemma show_nat_no_comma: "CHR '','' \<notin> set (show_nat n)"
  using show_nat_digits [of n] by (auto simp: list_all_iff is_digit_def byte_def)

lemma fmtpModeSet_again: "fmtpModeSet mx v = Some cv \<Longrightarrow> mx < 2 ^ 63 \<Longrightarrow> fmtpModeSet mx cv = Some cv"
proof -
  assume f: "fmtpModeSet mx v = Some cv" and mx: "mx < 2 ^ 63"
  let ?ps = "split_on (CHR '','') v"
  let ?ms = "map (\<lambda>p. the (mode_number mx p)) ?ps"
  have cv: "cv = join '','' (map show_nat ?ms)" and len: "length ?ps \<le> mx + 1"
      and ok: "\<forall>p \<in> set ?ps. mode_number mx p \<noteq> None"
    using f by (auto simp: fmtpModeSet_def Let_def list_ex_iff comp_def split: if_splits)
  have sp: "split_on (CHR '','') cv = map show_nat ?ms"
    unfolding cv using show_nat_no_comma by (intro split_on_join) auto
  have again: "mode_number mx (show_nat m) = Some m" if "m \<in> set ?ms" for m
    using that ok mode_again [OF _ mx] by auto
  have e: "map (\<lambda>p. show_nat (the (mode_number mx p))) (map show_nat ?ms) = map show_nat ?ms"
    using again by (auto simp: comp_def)
  have none: "\<not> list_ex (\<lambda>p. mode_number mx p = None) (map show_nat ?ms)"
    using again by (auto simp: list_ex_iff)
  show ?thesis
    unfolding fmtpModeSet_def sp Let_def e using none len by (simp only: length_map cv if_False) simp
qed

lemma table_modes: "map_of fmtpAllow n = Some allow \<Longrightarrow> (k, FModeSet mx) \<in> set allow \<Longrightarrow> mx < 2 ^ 63"
  by (auto simp: fmtpAllow_def opus_params_def amr_params_def fmtpBool_def split: if_splits)

lemma check_again:
  assumes "map_of fmtpAllow n = Some allow" "map_of allow k = Some p" "check_param u p v = Some cv"
  shows "check_param u p cv = Some cv"
proof -
  have i: "(k, p) \<in> set allow" using assms(2) by (rule map_of_SomeD)
  show ?thesis
  proof (cases p)
    case (FInt lo hi)
    then show ?thesis using assms(3) fmtpInt_again by (auto simp: check_param_def)
  next
    case (FEnum vals)
    then have "list_all clean vals" using tables_ok [OF assms(1)] i by (auto simp: table_ok_def list_all_iff)
    then show ?thesis using assms(3) FEnum fmtpEnum_again by (auto simp: check_param_def)
  next
    case (FModeSet mx)
    then have "mx < 2 ^ 63" using table_modes [OF assms(1)] i by auto
    then show ?thesis using assms(3) FModeSet fmtpModeSet_again by (auto simp: check_param_def)
  qed
qed

lemma params_again:
  assumes "\<forall>(k, cv) \<in> set ps. clean k \<and> clean cv \<and> (\<exists>p. map_of allow k = Some p \<and> check_param u p cv = Some cv)"
    and "distinct (map fst ps)" "set seen \<inter> fst ` set ps = {}"
  shows "fmtp_params u allow seen (map render_param ps) = ps"
  using assms
proof (induction ps arbitrary: seen)
  case (Cons kv ps)
  obtain k cv where kv: "kv = (k, cv)" by force
  have c: "clean k" "clean cv" and p: "\<exists>p. map_of allow k = Some p \<and> check_param u p cv = Some cv"
    using Cons.prems(1) kv by auto
  have "cut (CHR ''='') (render_param kv) = (k, cv, True)"
    using clean_no [OF c(1)] kv by (simp add: render_param_def cut_first)
  moreover have "to_lower u (trim_space k) = k" "trim_space cv = cv"
    using c clean_plain clean_lower clean_ascii by (simp_all add: to_lower_def)
  moreover have "fmtp_params u allow (k # seen) (map render_param ps) = ps"
    using Cons.prems kv by (intro Cons.IH) auto
  ultimately show ?case using p kv Cons.prems(3) by auto
qed simp

section \<open>Lengths\<close>

text \<open>
  What the Unicode tables promise and the program relies on when it renders into a buffer of
  \<^verbatim>\<open>maxFMTP\<close> bytes: lower-casing or folding to ASCII text never lengthens it.
\<close>

definition u_shrinks :: "unicode \<Rightarrow> bool" where
  "u_shrinks u \<longleftrightarrow> (\<forall>s. is_ascii (u_lower u s) \<longrightarrow> length (u_lower u s) \<le> length s) \<and>
     (\<forall>v w. is_ascii w \<and> u_fold u v w \<longrightarrow> length w \<le> length v)"

lemma lower_shrinks: "u_shrinks u \<Longrightarrow> is_ascii (to_lower u s) \<Longrightarrow> length (to_lower u s) \<le> length s"
  by (auto simp: to_lower_def u_shrinks_def lower_str_def split: if_splits)

lemma fold_shrinks: "u_shrinks u \<Longrightarrow> is_ascii w \<Longrightarrow> equal_fold u v w \<Longrightarrow> length w \<le> length v"
  by (auto simp: equal_fold_def u_shrinks_def lower_str_def dest: map_eq_imp_length_eq split: if_splits)

text \<open>Length with one byte for the separator after each piece.\<close>

definition piece_len :: "string list \<Rightarrow> nat" where
  "piece_len ss = sum_list (map (\<lambda>s. length s + 1) ss)"

lemma join_length: "ss \<noteq> [] \<Longrightarrow> length (join [c] ss) + 1 = piece_len ss"
  by (induction "[c]" ss rule: join.induct) (auto simp: piece_len_def)

lemma split_length: "piece_len (split_on c s) = length s + 1"
  using join_length [OF split_on_nonempty, of c c s] by (simp add: join_split)

lemma atoi_length: "atoi s = Some n \<Longrightarrow> 0 \<le> n \<Longrightarrow> length (show_nat (nat n)) \<le> length s"
proof -
  assume a: "atoi s = Some n" "0 \<le> n"
  define ds where "ds = (if s \<noteq> [] \<and> (hd s = CHR ''-'' \<or> hd s = CHR ''+'') then tl s else s)"
  have d: "ds \<noteq> []" "list_all is_digit ds" "\<bar>n\<bar> = int (digits_val ds)"
    using a(1) by (auto simp: atoi_def ds_def Let_def split: if_splits)
  then have "nat n = digits_val ds" using a(2) by simp
  then have "nat n < 10 ^ length ds" using digits_val_bound [OF d(2)] by simp
  then have "length (show_nat (nat n)) \<le> length ds" using d(1) by (intro show_nat_length) auto
  moreover have "length ds \<le> length s" by (simp add: ds_def)
  ultimately show ?thesis by simp
qed

lemma pieces_length:
  assumes "\<forall>p \<in> set ps. length (f p) \<le> length p"
  shows "piece_len (map f ps) \<le> piece_len ps"
  using assms by (induction ps) (auto simp: piece_len_def add_mono)

lemma modes_length: "fmtpModeSet mx v = Some cv \<Longrightarrow> length cv \<le> length v"
proof -
  assume f: "fmtpModeSet mx v = Some cv"
  let ?ps = "split_on (CHR '','') v" and ?f = "\<lambda>p. show_nat (the (mode_number mx p))"
  have cv: "cv = join '','' (map ?f ?ps)" and ok: "\<forall>p \<in> set ?ps. mode_number mx p \<noteq> None"
    using f by (auto simp: fmtpModeSet_def Let_def list_ex_iff split: if_splits)
  have "length (?f p) \<le> length p" if "mode_number mx p \<noteq> None" for p
    using that atoi_length [of "trim_space p"] trim_space_length [of p]
    by (auto simp: mode_number_def split: option.splits if_splits intro: le_trans)
  then have "piece_len (map ?f ?ps) \<le> piece_len ?ps" using ok by (intro pieces_length) auto
  then show ?thesis
    using join_length [of "map ?f ?ps" "CHR '',''"] split_length [of "CHR '',''" v] by (simp add: cv)
qed

lemma check_length:
  assumes "u_shrinks u" "table_ok allow" "map_of allow k = Some p" "check_param u p v = Some cv"
  shows "length cv \<le> length v"
proof (cases p)
  case (FInt lo hi)
  then show ?thesis using assms(4) fmtpInt_again by (auto simp: check_param_def)
next
  case (FEnum vals)
  then have "equal_fold u v cv" using assms(4) by (auto simp: check_param_def fmtpEnum_def dest: find_SomeD)
  then show ?thesis using fold_shrinks [OF assms(1)] check_clean(2) [OF assms(2-4)] clean_ascii by blast
next
  case (FModeSet mx)
  then show ?thesis using assms(4) modes_length by (auto simp: check_param_def)
qed

lemma cut_total: "cut c s = (a, b, True) \<Longrightarrow> length a + 1 + length b = length s"
  by (induction s arbitrary: a b) (auto split: if_splits prod.splits)

lemma params_length:
  assumes "u_shrinks u" "table_ok allow"
  shows "piece_len (map render_param (fmtp_params u allow seen segs)) \<le> piece_len segs"
proof (induction segs arbitrary: seen)
  case Nil
  then show ?case by (simp add: piece_len_def)
next
  case (Cons seg segs)
  obtain k0 v ok where c: "cut (CHR ''='') seg = (k0, v, ok)" by (metis prod_cases3)
  let ?k = "to_lower u (trim_space k0)"
  consider (skip) "fmtp_params u allow seen (seg # segs) = fmtp_params u allow seen segs"
    | (keep) p cv where "ok" "map_of allow ?k = Some p" "check_param u p (trim_space v) = Some cv"
      "fmtp_params u allow seen (seg # segs) = (?k, cv) # fmtp_params u allow (?k # seen) segs"
    using c by (fastforce simp: Let_def split: if_splits option.splits)
  then show ?case
  proof cases
    case skip
    then show ?thesis using Cons.IH [of seen] by (simp add: piece_len_def)
  next
    case keep
    have "length ?k \<le> length k0"
      using lower_shrinks [OF assms(1)] clean_ascii [OF check_clean(1) [OF assms(2) keep(2,3)]] trim_space_length [of k0]
      by (meson le_trans)
    moreover have "length cv \<le> length v"
      using check_length [OF assms keep(2,3)] trim_space_length [of v] by simp
    ultimately have "length (render_param (?k, cv)) \<le> length seg"
      using cut_total [of "CHR ''=''" seg k0 v] c keep(1) by (simp add: render_param_def)
    then show ?thesis using Cons.IH [of "?k # seen"] keep(4) by (simp add: piece_len_def)
  qed
qed

section \<open>Event lists\<close>

lemma events_length: "eventNumber s = Some a \<Longrightarrow> length (show_nat a) \<le> length s \<and> a \<le> 255"
  using atoi_length [of s] by (auto simp: eventNumber_def split: option.splits if_splits)

lemma eventNumber_again: "a \<le> 255 \<Longrightarrow> eventNumber (show_nat a) = Some a"
  using show_nat_length [of a 3] by (auto simp: eventNumber_def)

lemma show_nat_no_dash: "CHR ''-'' \<notin> set (show_nat n)"
  using show_nat_digits [of n] by (auto simp: list_all_iff is_digit_def byte_def)

lemma event_entry_again:
  assumes "event_entry p = Some e"
  shows "event_entry e = Some e" "length e \<le> length p" "CHR '','' \<notin> set e"
proof -
  obtain lo hi r where c: "cut (CHR ''-'') (trim_space p) = (lo, hi, r)" by (metis prod_cases3)
  then obtain a where a: "eventNumber lo = Some a"
      and alt: "\<not> r \<and> e = show_nat a \<or> r \<and> (\<exists>b. eventNumber hi = Some b \<and> a \<le> b \<and> e = show_nat a @ ''-'' @ show_nat b)"
    using assms by (auto simp: event_entry_def Let_def split: option.splits if_splits)
  note la = events_length [OF a]
  have lo: "length lo \<le> length p"
  proof -
    have "length (fst (cut ch s)) \<le> length s" for ch s by (induction s) (auto simp: Let_def split: prod.splits if_splits)
    from this [of "CHR ''-''" "trim_space p"] show ?thesis using c trim_space_length [of p] by simp
  qed
  have "event_entry e = Some e \<and> length e \<le> length p \<and> CHR '','' \<notin> set e"
  proof (cases r)
    case False
    then have "e = show_nat a" using alt by blast
    then show ?thesis
      using la lo eventNumber_again [of a] show_nat_no_comma cut_notin [OF show_nat_no_dash, of a]
      by (simp add: event_entry_def)
  next
    case True
    then obtain b where b: "eventNumber hi = Some b" "a \<le> b" "e = show_nat a @ ''-'' @ show_nat b" using alt by blast
    have pl: "plain_word e" using b(3) plain_show by (simp add: plain_word_def is_ascii_space_def byte_def)
    have "cut (CHR ''-'') e = (show_nat a, show_nat b, True)"
      unfolding b(3) using cut_first [OF show_nat_no_dash] by simp
    moreover have "length e \<le> length p"
      using events_length [OF b(1)] la cut_total [of "CHR ''-''" "trim_space p" lo hi] c True trim_space_length [of p] b(3) by simp
    ultimately show ?thesis
      using la events_length [OF b(1)] b pl eventNumber_again show_nat_no_comma by (simp add: event_entry_def)
  qed
  then show "event_entry e = Some e" "length e \<le> length p" "CHR '','' \<notin> set e" by blast+
qed

lemma commas_split: "length (split_on c s) = length (filter (\<lambda>x. x = c) s) + 1"
  by (induction s) (auto split: list.splits)

lemma eventList_again:
  assumes "eventList v = Some out"
  shows "eventList out = Some out" "length out \<le> length v"
proof -
  let ?ps = "split_on (CHR '','') v" and ?f = "\<lambda>p. the (event_entry p)"
  have out: "out = join '','' (map ?f ?ps)" and ok: "\<forall>p \<in> set ?ps. event_entry p = Some (?f p)"
      and n: "length ?ps \<le> 64"
    using assms commas_split [of "CHR '',''" v] by (auto simp: eventList_def Let_def list_ex_iff split: if_splits)
  have sp: "split_on (CHR '','') out = map ?f ?ps"
    unfolding out using ok event_entry_again(3) by (intro split_on_join) auto
  have again: "event_entry e = Some e" if "e \<in> set (map ?f ?ps)" for e
    using that ok event_entry_again(1) by auto
  have "out \<noteq> []" using eventList_clean [OF assms] by (simp add: clean_def)
  moreover have "length (filter (\<lambda>x. x = CHR '','') out) < 64"
    using commas_split [of "CHR '',''" out] n by (simp add: sp)
  moreover have "\<not> list_ex (\<lambda>p. event_entry p = None) (map ?f ?ps)"
    unfolding list_ex_iff using again by (metis option.distinct(1))
  moreover have "map ?f (map ?f ?ps) = map ?f ?ps" by (rule map_idI) (simp only: again option.sel)
  ultimately show "eventList out = Some out"
    unfolding eventList_def sp Let_def by (simp del: map_map add: out [symmetric])
  have "piece_len (map ?f ?ps) \<le> piece_len ?ps"
    using ok event_entry_again(2) by (intro pieces_length) auto
  then show "length out \<le> length v"
    using join_length [of "map ?f ?ps" "CHR '',''"] split_length [of "CHR '',''" v] by (simp add: out)
qed

lemma first_events_cases:
  "first_events segs = [] \<or> (\<exists>seg \<in> set segs. eventList (trim_space seg) = Some (first_events segs))"
  by (induction segs) (auto split: option.splits)

lemma piece_len_member: "s \<in> set ss \<Longrightarrow> length s + 1 \<le> piece_len ss"
  by (induction ss) (auto simp: piece_len_def)

lemma events_fmtp_again:
  assumes "events_fmtp raw \<noteq> []"
  shows "events_fmtp (events_fmtp raw) = events_fmtp raw" "length (events_fmtp raw) \<le> length raw" "clean (events_fmtp raw)"
proof -
  obtain seg where seg: "seg \<in> set (split_on (CHR '';'') raw)" "eventList (trim_space seg) = Some (events_fmtp raw)"
    using first_events_cases [of "split_on (CHR '';'') raw"] assms by (auto simp: events_fmtp_def)
  note e = eventList_again [OF seg(2)]
  show cl: "clean (events_fmtp raw)" by (rule eventList_clean [OF seg(2)])
  have "split_on (CHR '';'') (events_fmtp raw) = [events_fmtp raw]"
    using clean_no [OF cl] by (intro split_on_notin) simp
  then show "events_fmtp (events_fmtp raw) = events_fmtp raw"
    using e(1) clean_plain [OF cl] by (simp add: events_fmtp_def [of "events_fmtp raw"])
  show "length (events_fmtp raw) \<le> length raw"
    using e(2) trim_space_length [of seg] piece_len_member [OF seg(1)] split_length [of "CHR '';''" raw] by simp
qed

section \<open>Properties\<close>

definition fmtp_char :: "char \<Rightarrow> bool" where
  "fmtp_char c \<longleftrightarrow> value_char c \<or> c = CHR ''='' \<or> c = CHR '';''"

lemma fmtp_clean_lemma: "list_all fmtp_char (canonicalFMTP u name raw)"
proof -
  have sub: "clean s \<Longrightarrow> list_all fmtp_char s" for s
    by (auto simp: clean_def fmtp_char_def list_all_iff)
  have join: "\<forall>s \<in> set ss. list_all fmtp_char s \<Longrightarrow> list_all fmtp_char (join '';'' ss)" for ss
    by (induction "'';''" ss rule: join.induct) (auto simp: fmtp_char_def)
  have params: "list_all fmtp_char (render_param kv)"
    if kv: "kv \<in> set (fmtp_params u allow [] segs)" and al: "map_of fmtpAllow n = Some allow" for kv allow segs n
  proof -
    obtain k cv p v where "kv = (k, cv)" "map_of allow k = Some p" "check_param u p v = Some cv"
      using params_from_table [of "fst kv" "snd kv"] kv by (metis prod.collapse)
    then show ?thesis
      using check_clean(1,2) [OF tables_ok [OF al]] sub by (simp add: render_param_def fmtp_char_def)
  qed
  have ev: "list_all fmtp_char (events_fmtp raw)"
    using events_fmtp_again(3) [of raw] sub by (cases "events_fmtp raw = []") auto
  show ?thesis
    using ev by (auto simp: canonicalFMTP_def Let_def split: option.splits intro!: join params)
qed

text \<open>
  An emitted fmtp value is the proxy's own text. Whatever the other leg wrote, what
  \<^verbatim>\<open>canonicalFMTP\<close> returns consists of lower-case letters, digits, '-', ',', '=' and ';' only: no
  space, no line break, no address or free text can be carried across in it.
\<close>

theorem fmtp_no_injection:
  "set (canonicalFMTP u name raw) \<subseteq> {c. is_lower c \<or> is_digit c \<or> c = CHR ''-'' \<or> c = CHR '','' \<or> c = CHR ''='' \<or> c = CHR '';''}"
  using fmtp_clean_lemma [of u name raw] by (auto simp: list_all_iff fmtp_char_def value_char_def)

text \<open>
  Filtering is idempotent, and never lengthens a value. Building filters every value again after
  parsing did; for Unicode case tables that never lengthen text when they yield ASCII, that changes
  nothing, and the rendered form fits the buffer of \<^verbatim>\<open>maxFMTP\<close> bytes the code gives it.
\<close>

theorem fmtp_idempotent:
  assumes "u_shrinks u"
  shows "canonicalFMTP u name (canonicalFMTP u name raw) = canonicalFMTP u name raw \<and>
    length (canonicalFMTP u name raw) \<le> length raw"
proof -
  let ?out = "canonicalFMTP u name raw"
  consider (none) "?out = []"
    | (events) "to_lower u name = ''telephone-event''" "?out = events_fmtp raw" "events_fmtp raw \<noteq> []" "length raw \<le> maxFMTP"
    | (params) allow where "to_lower u name \<noteq> ''telephone-event''" "map_of fmtpAllow (to_lower u name) = Some allow"
      "?out = join '';'' (map render_param (fmtp_params u allow [] (split_on (CHR '';'') raw)))"
      "fmtp_params u allow [] (split_on (CHR '';'') raw) \<noteq> []" "length raw \<le> maxFMTP"
    by (cases "map_of fmtpAllow (to_lower u name)") (fastforce simp: canonicalFMTP_def Let_def split: if_splits)+
  then show ?thesis
  proof cases
    case none
    then show ?thesis by (simp add: canonicalFMTP_def [of _ _ "[]"])
  next
    case events
    note e = events_fmtp_again [OF events(3)]
    show ?thesis
      using events e by (simp add: canonicalFMTP_def [of u name "events_fmtp raw"])
  next
    case params
    let ?ps = "fmtp_params u allow [] (split_on (CHR '';'') raw)"
    have elem: "clean k \<and> clean cv \<and> (\<exists>p. map_of allow k = Some p \<and> check_param u p cv = Some cv)" if kv: "(k, cv) \<in> set ?ps" for k cv
    proof -
      obtain p v where p: "map_of allow k = Some p" "check_param u p v = Some cv"
        using params_from_table kv by blast
      then show ?thesis
        using check_clean(1,2) [OF tables_ok [OF params(2)] p] check_again [OF params(2) p] by blast
    qed
    have "\<forall>r \<in> set (map render_param ?ps). CHR '';'' \<notin> set r"
    proof
      fix r
      assume "r \<in> set (map render_param ?ps)"
      then obtain k cv where kv: "(k, cv) \<in> set ?ps" "r = k @ ''='' @ cv" by (auto simp: render_param_def)
      then show "CHR '';'' \<notin> set r" using elem [OF kv(1)] clean_no [of _ "CHR '';''"] by auto
    qed
    then have sp: "split_on (CHR '';'') ?out = map render_param ?ps"
      unfolding params(3) using params(4) by (intro split_on_join) auto
    have again: "fmtp_params u allow [] (map render_param ?ps) = ?ps"
      using elem params_distinct by (intro params_again) auto
    have "length ?out + 1 \<le> length raw + 1"
      using params_length [OF assms tables_ok [OF params(2)], of "[]" "split_on (CHR '';'') raw"]
        join_length [of "map render_param ?ps" "CHR '';''"] split_length [of "CHR '';''" raw] params(3,4) by simp
    then have len: "length ?out \<le> length raw" by simp
    have ne: "?out \<noteq> []"
      using join_length [of "map render_param ?ps" "CHR '';''"] params(3,4)
      by (cases ?ps) (auto simp: piece_len_def render_param_def)
    have "canonicalFMTP u name ?out = join '';'' (map render_param (fmtp_params u allow [] (split_on (CHR '';'') ?out)))"
      using params(1,2,5) len ne by (subst canonicalFMTP_def) (simp add: Let_def)
    also have "\<dots> = ?out" unfolding sp again by (simp only: params(3))
    finally show ?thesis using len by blast
  qed
qed

lemma ascii_shrinks: "u_shrinks ascii_tables"
  by (auto simp: u_shrinks_def ascii_tables_def lower_str_def dest: map_eq_imp_length_eq)

theorem fmtp_idempotent_witness:
  "canonicalFMTP ascii_tables ''OPUS'' (canonicalFMTP ascii_tables ''OPUS'' ''Stereo=1 ;ptime=020;c=IN IP4 10.0.0.1'') =
     canonicalFMTP ascii_tables ''OPUS'' ''Stereo=1 ;ptime=020;c=IN IP4 10.0.0.1''"
  using fmtp_idempotent [OF ascii_shrinks] by blast

end
