(* ===== verification/Sdp_Codec.thy ===== *)
theory Sdp_Codec
  imports Sdp_Fmtp "HOL-Library.Word" "HOL-Library.Sublist"
begin

text \<open>
  Codecs: the type and its identity (\<^verbatim>\<open>src/internal/sip/sdp/sdp.go\<close>), the transcoding-free
  negotiation (\<^verbatim>\<open>codec.go\<close>), and the parser of a section's codec list. Attribute lists are what
  the third-party SDP unmarshaller delivers: key and value pairs.
\<close>

section \<open>Codecs\<close>

record codec =
  PayloadType :: "8 word"
  cd_Name :: string
  ClockRate :: "32 word"
  Channels :: int
  FMTP :: string

definition channels :: "codec \<Rightarrow> int" where
  "channels c = (if Channels c = 0 then 1 else Channels c)"

definition sameName :: "unicode \<Rightarrow> string \<Rightarrow> string \<Rightarrow> bool" where
  "sameName u a b =
     (if \<not> is_ascii a \<or> \<not> is_ascii b then to_lower u a = to_lower u b
      else if length a \<noteq> length b then False
      else list_all2 (\<lambda>x y. lower_ascii x = lower_ascii y) a b)"

definition sameEncoding :: "unicode \<Rightarrow> codec \<Rightarrow> codec \<Rightarrow> bool" where
  "sameEncoding u c d \<longleftrightarrow> ClockRate c = ClockRate d \<and> channels c = channels d \<and> sameName u (cd_Name c) (cd_Name d)"

definition IsTelephoneEvent :: "unicode \<Rightarrow> codec \<Rightarrow> bool" where
  "IsTelephoneEvent u c = equal_fold u (cd_Name c) ''telephone-event''"

definition HasMedia :: "unicode \<Rightarrow> codec list \<Rightarrow> bool" where
  "HasMedia u cs = list_ex (\<lambda>c. \<not> IsTelephoneEvent u c) cs"

section \<open>Negotiation\<close>

datatype neg_error = ErrNoCommonCodec | ErrRenumbered

text \<open>\<^verbatim>\<open>offered\<close>: is the encoding offered on the codec's number, and is it offered at all?\<close>

fun offered_from :: "unicode \<Rightarrow> bool \<Rightarrow> codec list \<Rightarrow> codec \<Rightarrow> bool \<times> bool" where
  "offered_from u enc [] a = (False, enc)"
| "offered_from u enc (o1 # os) a =
     (if sameEncoding u o1 a
      then if PayloadType o1 = PayloadType a then (True, True) else offered_from u True os a
      else offered_from u enc os a)"

definition offered :: "unicode \<Rightarrow> codec list \<Rightarrow> codec \<Rightarrow> bool \<times> bool" where
  "offered u offer a = offered_from u False offer a"

text \<open>The table \<^verbatim>\<open>byPT\<close>: 1 plus the index of the answer codec accepted on a number, 0 for none.\<close>

fun accept_answer ::
  "unicode \<Rightarrow> codec list \<Rightarrow> nat \<Rightarrow> codec list \<Rightarrow> (8 word \<Rightarrow> nat) \<Rightarrow> neg_error + (8 word \<Rightarrow> nat)" where
  "accept_answer u offer i [] byPT = Inr byPT"
| "accept_answer u offer i (a # as) byPT =
     (let (on_pt, enc) = offered u offer a in
      if on_pt then accept_answer u offer (i + 1) as
        (if byPT (PayloadType a) = 0 then byPT(PayloadType a := i + 1) else byPT)
      else if enc then Inl ErrRenumbered
      else accept_answer u offer (i + 1) as byPT)"

definition acceptedOn :: "codec list \<Rightarrow> (8 word \<Rightarrow> nat) \<Rightarrow> codec \<Rightarrow> codec option" where
  "acceptedOn answer byPT o1 = (let i = byPT (PayloadType o1) in if i = 0 then None else Some (answer ! (i - 1)))"

definition common :: "unicode \<Rightarrow> codec list \<Rightarrow> (8 word \<Rightarrow> nat) \<Rightarrow> codec \<Rightarrow> codec option" where
  "common u answer byPT o1 = (case acceptedOn answer byPT o1 of
       Some a \<Rightarrow> if sameEncoding u a o1 then Some (o1\<lparr>FMTP := FMTP a\<rparr>) else None | None \<Rightarrow> None)"

text \<open>The two passes over the offer: the count with the media flag, then the list.\<close>

fun count_common :: "unicode \<Rightarrow> codec list \<Rightarrow> (8 word \<Rightarrow> nat) \<Rightarrow> codec list \<Rightarrow> nat \<times> bool" where
  "count_common u answer byPT [] = (0, False)"
| "count_common u answer byPT (o1 # os) =
     (let (n, media) = count_common u answer byPT os in
      if common u answer byPT o1 \<noteq> None then (n + 1, media \<or> \<not> IsTelephoneEvent u o1) else (n, media))"

definition Negotiate :: "unicode \<Rightarrow> codec list \<Rightarrow> codec list \<Rightarrow> neg_error + codec list" where
  "Negotiate u offer answer = (case accept_answer u offer 0 answer (\<lambda>_. 0) of
       Inl e \<Rightarrow> Inl e
     | Inr byPT \<Rightarrow>
         (let (n, media) = count_common u answer byPT offer in
          if n = 0 then Inl ErrNoCommonCodec
          else if \<not> media then Inl ErrNoCommonCodec
          else Inr (List.map_filter (common u answer byPT) offer)))"

section \<open>Parsing a codec list\<close>

type_synonym attributes = "(string \<times> string) list"

definition splitPayload :: "string \<Rightarrow> (8 word \<times> string) option" where
  "splitPayload v =
     (let (pt, rest, ok) = cut (CHR '' '') (trim_space v) in
      if \<not> ok then None
      else case parse_uint 8 pt of
          None \<Rightarrow> None
        | Some n \<Rightarrow> if n > 127 then None else Some (of_nat n, trim_space rest))"

definition name_char :: "char \<Rightarrow> bool" where
  "name_char c \<longleftrightarrow> is_lower c \<or> is_upper c \<or> is_digit c \<or> c = CHR ''-'' \<or> c = CHR ''_'' \<or> c = CHR ''.''"

definition validEncodingName :: "string \<Rightarrow> bool" where
  "validEncodingName name = (if name = [] \<or> length name > 64 then False else list_all name_char name)"

definition parseRTPMap :: "string \<Rightarrow> (string \<times> 32 word \<times> int) option" where
  "parseRTPMap v =
     (let parts = split_on (CHR ''/'') v in
      if length parts < 2 \<or> length parts > 3 then None
      else let name = trim_space (parts ! 0) in
        if \<not> validEncodingName name then None
        else case parse_uint 32 (trim_space (parts ! 1)) of
            None \<Rightarrow> None
          | Some r \<Rightarrow>
              if r = 0 then None
              else if length parts = 3
                then (case atoi (trim_space (parts ! 2)) of
                    None \<Rightarrow> None
                  | Some ch \<Rightarrow> if ch < 1 \<or> ch > 8 then None else Some (name, of_nat r, ch))
                else Some (name, of_nat r, 1))"

definition staticPayload :: "8 word \<Rightarrow> (string \<times> 32 word \<times> int) option" where
  "staticPayload pt = (if pt = 0 then Some (''PCMU'', 8000, 1) else if pt = 8 then Some (''PCMA'', 8000, 1) else None)"

text \<open>The two maps a section's attributes fill: a later line wins.\<close>

fun payload_map :: "string \<Rightarrow> attributes \<Rightarrow> (8 word \<Rightarrow> string option) \<Rightarrow> 8 word \<Rightarrow> string option" where
  "payload_map key [] m = m"
| "payload_map key ((k, v) # ats) m =
     payload_map key ats (if k = key then (case splitPayload v of Some (pt, rest) \<Rightarrow> m(pt \<mapsto> rest) | None \<Rightarrow> m) else m)"

definition codec_for :: "unicode \<Rightarrow> (8 word \<Rightarrow> string option) \<Rightarrow> (8 word \<Rightarrow> string option) \<Rightarrow> 8 word \<Rightarrow> codec option" where
  "codec_for u rtpmap fmtp pt =
     (let desc = (case rtpmap pt of Some m \<Rightarrow> parseRTPMap m | None \<Rightarrow> staticPayload pt) in
      case desc of
        None \<Rightarrow> None
      | Some (name, rate, ch) \<Rightarrow>
          Some \<lparr>PayloadType = pt, cd_Name = name, ClockRate = rate, Channels = ch,
                FMTP = canonicalFMTP u name (case fmtp pt of Some f \<Rightarrow> f | None \<Rightarrow> [])\<rparr>)"

text \<open>The loop over the formats: \<open>None\<close> is the error of a format that is not a number.\<close>

fun codec_loop ::
  "unicode \<Rightarrow> (8 word \<Rightarrow> string option) \<Rightarrow> (8 word \<Rightarrow> string option) \<Rightarrow> 8 word set \<Rightarrow> string list \<Rightarrow> codec list option" where
  "codec_loop u rtpmap fmtp seen [] = Some []"
| "codec_loop u rtpmap fmtp seen (f0 # fs) =
     (let f = trim_space f0 in
      if f = [] \<or> \<not> list_all is_digit f then None
      else case parse_uint 8 f of
          None \<Rightarrow> codec_loop u rtpmap fmtp seen fs
        | Some n \<Rightarrow>
            if n > 127 \<or> of_nat n \<in> seen then codec_loop u rtpmap fmtp seen fs
            else (case codec_loop u rtpmap fmtp (insert (of_nat n) seen) fs of
                None \<Rightarrow> None
              | Some cs \<Rightarrow> Some ((case codec_for u rtpmap fmtp (of_nat n) of Some c \<Rightarrow> [c] | None \<Rightarrow> []) @ cs)))"

definition parseCodecs :: "unicode \<Rightarrow> attributes \<Rightarrow> string list \<Rightarrow> codec list option" where
  "parseCodecs u ats formats =
     codec_loop u (payload_map ''rtpmap'' ats (\<lambda>_. None)) (payload_map ''fmtp'' ats (\<lambda>_. None)) {} formats"

section \<open>Negotiation against its specification\<close>

lemma sameName_sym: "sameName u a b = sameName u b a"
proof -
  have "list_all2 (\<lambda>x y. lower_ascii x = lower_ascii y) a b = list_all2 (\<lambda>x y. lower_ascii x = lower_ascii y) b a"
    by (auto simp: list_all2_conv_all_nth)
  then show ?thesis by (auto simp: sameName_def)
qed

lemma sameEncoding_sym: "sameEncoding u a b = sameEncoding u b a"
  using sameName_sym [of u "cd_Name a" "cd_Name b"] by (auto simp: sameEncoding_def)

lemma offered_from_iff:
  "fst (offered_from u enc offer a) \<longleftrightarrow> (\<exists>x \<in> set offer. sameEncoding u x a \<and> PayloadType x = PayloadType a)"
  "snd (offered_from u enc offer a) \<longleftrightarrow> enc \<or> (\<exists>x \<in> set offer. sameEncoding u x a)"
  by (induction u enc offer a rule: offered_from.induct) auto

lemma offered_iff:
  "fst (offered u offer a) \<longleftrightarrow> (\<exists>x \<in> set offer. sameEncoding u x a \<and> PayloadType x = PayloadType a)"
  "snd (offered u offer a) \<longleftrightarrow> (\<exists>x \<in> set offer. sameEncoding u x a)"
  by (simp_all add: offered_def offered_from_iff)

text \<open>An answer codec that moved an offered encoding to a number it was not offered on.\<close>

definition renumbered :: "unicode \<Rightarrow> codec list \<Rightarrow> codec \<Rightarrow> bool" where
  "renumbered u offer a \<longleftrightarrow> (\<exists>x \<in> set offer. sameEncoding u x a) \<and>
     \<not> (\<exists>x \<in> set offer. sameEncoding u x a \<and> PayloadType x = PayloadType a)"

definition table_ok_for :: "unicode \<Rightarrow> codec list \<Rightarrow> codec list \<Rightarrow> codec list \<Rightarrow> (8 word \<Rightarrow> nat) \<Rightarrow> bool" where
  "table_ok_for u offer answer pre byPT \<longleftrightarrow>
     (\<forall>o1. acceptedOn answer byPT o1 = find (\<lambda>a. PayloadType a = PayloadType o1 \<and> fst (offered u offer a)) pre)"

lemma accept_answer_spec:
  assumes "answer = pre @ as" "table_ok_for u offer answer pre byPT"
  shows "case accept_answer u offer (length pre) as byPT of
      Inl e \<Rightarrow> e = ErrRenumbered \<and> list_ex (renumbered u offer) as
    | Inr byPT' \<Rightarrow> \<not> list_ex (renumbered u offer) as \<and> table_ok_for u offer answer answer byPT'"
  using assms
proof (induction as arbitrary: pre byPT)
  case Nil
  then show ?case by simp
next
  case (Cons a as)
  obtain on_pt enc where oe: "offered u offer a = (on_pt, enc)" by force
  have on_iff: "on_pt \<longleftrightarrow> (\<exists>x \<in> set offer. sameEncoding u x a \<and> PayloadType x = PayloadType a)"
    and en: "enc \<longleftrightarrow> (\<exists>x \<in> set offer. sameEncoding u x a)"
    using offered_iff [of u offer a] oe by simp_all
  have split: "answer = (pre @ [a]) @ as" using Cons.prems(1) by simp
  have zero: "byPT pt = 0 \<longleftrightarrow> find (\<lambda>x. PayloadType x = pt \<and> fst (offered u offer x)) pre = None" for pt
  proof -
    have "acceptedOn answer byPT (a\<lparr>PayloadType := pt\<rparr>) = find (\<lambda>x. PayloadType x = pt \<and> fst (offered u offer x)) pre"
      using Cons.prems(2) by (simp add: table_ok_for_def)
    then show ?thesis by (cases "byPT pt = 0") (simp_all add: acceptedOn_def Let_def, metis option.distinct(1))
  qed
  consider (on) "on_pt" | (ren) "\<not> on_pt" "enc" | (skip) "\<not> on_pt" "\<not> enc" by blast
  then show ?case
  proof cases
    case on
    let ?t = "if byPT (PayloadType a) = 0 then byPT(PayloadType a := length pre + 1) else byPT"
    have "table_ok_for u offer answer (pre @ [a]) ?t"
      unfolding table_ok_for_def
    proof
      fix o1
      have old: "acceptedOn answer byPT o1 = find (\<lambda>x. PayloadType x = PayloadType o1 \<and> fst (offered u offer x)) pre"
        using Cons.prems(2) by (simp add: table_ok_for_def)
      show "acceptedOn answer ?t o1 = find (\<lambda>x. PayloadType x = PayloadType o1 \<and> fst (offered u offer x)) (pre @ [a])"
      proof (cases "PayloadType o1 = PayloadType a \<and> byPT (PayloadType a) = 0")
        case True
        then have "find (\<lambda>x. PayloadType x = PayloadType o1 \<and> fst (offered u offer x)) pre = None" using zero by simp
        then show ?thesis
          using True on oe Cons.prems(1) by (simp add: find_append acceptedOn_def Let_def nth_append)
      next
        case False
        then have "acceptedOn answer ?t o1 = acceptedOn answer byPT o1" by (auto simp: acceptedOn_def Let_def)
        moreover have "find (\<lambda>x. PayloadType x = PayloadType o1 \<and> fst (offered u offer x)) pre = None \<Longrightarrow>
            PayloadType a \<noteq> PayloadType o1"
          using False zero by auto
        ultimately show ?thesis using old by (auto simp: find_append split: option.splits)
      qed
    qed
    from Cons.IH [OF split this]
    have ih: "case accept_answer u offer (length (pre @ [a])) as ?t of
        Inl e \<Rightarrow> e = ErrRenumbered \<and> list_ex (renumbered u offer) as
      | Inr byPT' \<Rightarrow> \<not> list_ex (renumbered u offer) as \<and> table_ok_for u offer answer answer byPT'" .
    have step: "accept_answer u offer (length pre) (a # as) byPT = accept_answer u offer (length (pre @ [a])) as ?t"
      using on oe by simp
    have "list_ex (renumbered u offer) (a # as) = list_ex (renumbered u offer) as"
      using on_iff en on by (simp add: renumbered_def)
    then show ?thesis using ih unfolding step by (simp only:)
  next
    case ren
    then show ?thesis using oe on_iff en by (auto simp: renumbered_def)
  next
    case skip
    have "table_ok_for u offer answer (pre @ [a]) byPT"
      using Cons.prems(2) skip oe by (auto simp: table_ok_for_def find_append split: option.splits)
    from Cons.IH [OF split this]
    have ih: "case accept_answer u offer (length (pre @ [a])) as byPT of
        Inl e \<Rightarrow> e = ErrRenumbered \<and> list_ex (renumbered u offer) as
      | Inr byPT' \<Rightarrow> \<not> list_ex (renumbered u offer) as \<and> table_ok_for u offer answer answer byPT'" .
    have step: "accept_answer u offer (length pre) (a # as) byPT = accept_answer u offer (length (pre @ [a])) as byPT"
      using skip oe by simp
    have "list_ex (renumbered u offer) (a # as) = list_ex (renumbered u offer) as"
      using en skip by (simp add: renumbered_def)
    then show ?thesis using ih unfolding step by (simp only:)
  qed
qed

text \<open>
  The specification: refuse a renumbering, otherwise keep, in offer order, the offered codecs the
  answer has on the same number, with the answer's parameters, and refuse a list without audio.
\<close>

definition negotiate_spec :: "unicode \<Rightarrow> codec list \<Rightarrow> codec list \<Rightarrow> neg_error + codec list" where
  "negotiate_spec u offer answer =
     (if list_ex (renumbered u offer) answer then Inl ErrRenumbered
      else let out = concat (map (\<lambda>x. map (\<lambda>a. x\<lparr>FMTP := FMTP a\<rparr>)
             (filter (\<lambda>a. PayloadType a = PayloadType x \<and> sameEncoding u x a) answer)) offer)
        in if HasMedia u out then Inr out else Inl ErrNoCommonCodec)"

lemma filter_unique:
  "distinct (map f xs) \<Longrightarrow> x \<in> set xs \<Longrightarrow> filter (\<lambda>a. f a = f x \<and> Q a) xs = (if Q x then [x] else [])"
proof (induction xs)
  case (Cons y ys)
  have none: "f x \<notin> f ` set ys \<Longrightarrow> filter (\<lambda>a. f a = f x \<and> Q a) ys = []"
    by (simp add: filter_empty_conv) (metis image_eqI)
  show ?case
  proof (cases "y = x")
    case True
    then show ?thesis using Cons.prems none by auto
  next
    case False
    then have "x \<in> set ys" "f y \<noteq> f x" using Cons.prems by auto
    then show ?thesis using Cons by simp
  qed
qed simp

lemma common_spec:
  assumes "distinct (map PayloadType answer)" "table_ok_for u offer answer answer byPT" "x \<in> set offer"
  shows "(case common u answer byPT x of Some c \<Rightarrow> [c] | None \<Rightarrow> []) =
    map (\<lambda>a. x\<lparr>FMTP := FMTP a\<rparr>) (filter (\<lambda>a. PayloadType a = PayloadType x \<and> sameEncoding u x a) answer)"
proof -
  let ?p = "\<lambda>a. PayloadType a = PayloadType x \<and> fst (offered u offer a)"
  have acc: "acceptedOn answer byPT x = find ?p answer" using assms(2) by (simp add: table_ok_for_def)
  have on: "?p a" if "PayloadType a = PayloadType x" "sameEncoding u x a" for a
    using that assms(3) by (auto simp: offered_iff)
  show ?thesis
  proof (cases "find ?p answer")
    case None
    then have "filter (\<lambda>a. PayloadType a = PayloadType x \<and> sameEncoding u x a) answer = []"
      using on by (auto simp: find_None_iff filter_empty_conv)
    then show ?thesis using None acc by (simp add: common_def)
  next
    case (Some a)
    then have a: "a \<in> set answer" "PayloadType a = PayloadType x" by (auto dest: find_SomeD)
    show ?thesis
      using filter_unique [OF assms(1) a(1), of "sameEncoding u x"] a(2) Some acc sameEncoding_sym [of u a x]
      by (simp add: common_def)
  qed
qed

lemma map_filter_concat: "List.map_filter f xs = concat (map (\<lambda>x. case f x of Some c \<Rightarrow> [c] | None \<Rightarrow> []) xs)"
  by (induction xs) (auto simp: List.map_filter_def)

lemma count_common_iff:
  "fst (count_common u answer byPT offer) = length (List.map_filter (common u answer byPT) offer)"
  "snd (count_common u answer byPT offer) \<longleftrightarrow> HasMedia u (List.map_filter (common u answer byPT) offer)"
proof -
  have te: "common u answer byPT x = Some c \<Longrightarrow> IsTelephoneEvent u c = IsTelephoneEvent u x" for x c
    by (auto simp: common_def IsTelephoneEvent_def split: option.splits if_splits)
  show "fst (count_common u answer byPT offer) = length (List.map_filter (common u answer byPT) offer)"
    by (induction offer) (auto simp: map_filter_concat Let_def split: prod.splits option.splits)
  show "snd (count_common u answer byPT offer) \<longleftrightarrow> HasMedia u (List.map_filter (common u answer byPT) offer)"
    by (induction offer) (auto simp: map_filter_concat Let_def HasMedia_def te split: prod.splits option.splits)
qed

section \<open>Properties\<close>

text \<open>
  C31: negotiation does what its specification says. For an answer that names each payload number at
  most once (as a parsed one does), \<^verbatim>\<open>Negotiate\<close> fails with \<^verbatim>\<open>ErrRenumbered\<close> exactly when the answer
  put an offered encoding on a number it was not offered on, and otherwise returns, in offer order,
  the offered codecs answered on their own number, with the offer's number and the answer's
  parameters, failing when none of them carries audio.
\<close>

theorem negotiate_meets_spec:
  assumes "distinct (map PayloadType answer)"
  shows "Negotiate u offer answer = negotiate_spec u offer answer"
proof -
  have start: "table_ok_for u offer answer [] (\<lambda>_. 0)" by (simp add: table_ok_for_def acceptedOn_def)
  have acc: "case accept_answer u offer 0 answer (\<lambda>_. 0) of
      Inl e \<Rightarrow> e = ErrRenumbered \<and> list_ex (renumbered u offer) answer
    | Inr byPT' \<Rightarrow> \<not> list_ex (renumbered u offer) answer \<and> table_ok_for u offer answer answer byPT'"
    using accept_answer_spec [of answer "[]" answer u offer "\<lambda>_. 0"] start by simp
  show ?thesis
  proof (cases "accept_answer u offer 0 answer (\<lambda>_. 0)")
    case (Inl e)
    then show ?thesis using acc by (simp add: Negotiate_def negotiate_spec_def)
  next
    case (Inr byPT)
    then have t: "\<not> list_ex (renumbered u offer) answer" "table_ok_for u offer answer answer byPT" using acc by simp_all
    let ?out = "List.map_filter (common u answer byPT) offer"
    have out: "?out = concat (map (\<lambda>x. map (\<lambda>a. x\<lparr>FMTP := FMTP a\<rparr>)
        (filter (\<lambda>a. PayloadType a = PayloadType x \<and> sameEncoding u x a) answer)) offer)"
      unfolding map_filter_concat using common_spec [OF assms t(2)] by (intro arg_cong [where f = concat] map_cong) auto
    have neg: "Negotiate u offer answer = (if HasMedia u ?out then Inr ?out else Inl ErrNoCommonCodec)"
    proof -
      have "length ?out = 0 \<Longrightarrow> \<not> HasMedia u ?out" by (simp add: HasMedia_def)
      then show ?thesis
        using Inr count_common_iff [of u answer byPT offer] by (auto simp: Negotiate_def Let_def case_prod_beta)
    qed
    show ?thesis
      unfolding neg negotiate_spec_def Let_def out [symmetric] using t(1) by simp
  qed
qed

definition opus_offer :: "codec list" where
  "opus_offer =
     [\<lparr>PayloadType = 111, cd_Name = ''opus'', ClockRate = 48000, Channels = 2, FMTP = ''stereo=1''\<rparr>,
      \<lparr>PayloadType = 0, cd_Name = ''PCMU'', ClockRate = 8000, Channels = 1, FMTP = []\<rparr>]"

definition pcmu_answer :: "codec list" where
  "pcmu_answer = [\<lparr>PayloadType = 0, cd_Name = ''pcmu'', ClockRate = 8000, Channels = 0, FMTP = []\<rparr>]"

theorem negotiate_meets_spec_witness:
  "Negotiate ascii_tables opus_offer pcmu_answer = negotiate_spec ascii_tables opus_offer pcmu_answer \<and>
   \<not> list_ex (renumbered ascii_tables opus_offer) pcmu_answer"
proof -
  have "distinct (map PayloadType pcmu_answer)" by (simp add: pcmu_answer_def)
  moreover have "\<not> list_ex (renumbered ascii_tables opus_offer) pcmu_answer"
    by (simp add: renumbered_def opus_offer_def pcmu_answer_def sameEncoding_def sameName_def channels_def is_ascii_def
        lower_ascii_def is_upper_def byte_def)
  ultimately show ?thesis using negotiate_meets_spec by blast
qed

section \<open>Parsed codec lists\<close>

definition codec_ok :: "codec \<Rightarrow> bool" where
  "codec_ok c \<longleftrightarrow> PayloadType c \<le> 127 \<and> validEncodingName (cd_Name c) \<and> ClockRate c \<noteq> 0 \<and>
     1 \<le> Channels c \<and> Channels c \<le> 8 \<and> list_all fmtp_char (FMTP c)"

lemma parse_uint_range: "parse_uint k s = Some n \<Longrightarrow> n < 2 ^ k"
  by (simp add: parse_uint_def split: if_splits)

lemma parseRTPMap_ok: "parseRTPMap v = Some (name, rate, ch) \<Longrightarrow> validEncodingName name \<and> rate \<noteq> 0 \<and> 1 \<le> ch \<and> ch \<le> 8"
proof -
  assume p: "parseRTPMap v = Some (name, rate, ch)"
  then obtain r where r: "parse_uint 32 (trim_space (split_on (CHR ''/'') v ! 1)) = Some r" "r \<noteq> 0" "rate = of_nat r"
      and n: "validEncodingName name" "1 \<le> ch" "ch \<le> 8"
    by (auto simp: parseRTPMap_def Let_def split: if_splits option.splits)
  have "r < 2 ^ 32" using parse_uint_range [OF r(1)] .
  then have "unat rate = r" by (simp add: r(3) unat_of_nat)
  then have "rate \<noteq> 0" using r(2) by auto
  then show ?thesis using n by blast
qed

lemma codec_for_ok:
  assumes "n \<le> 127" "codec_for u rtpmap fmtp (of_nat n) = Some c"
  shows "codec_ok c \<and> PayloadType c = of_nat n"
proof -
  obtain name rate ch where d: "(case rtpmap (of_nat n) of Some m \<Rightarrow> parseRTPMap m | None \<Rightarrow> staticPayload (of_nat n)) = Some (name, rate, ch)"
      and c: "cd_Name c = name" "ClockRate c = rate" "Channels c = ch" "PayloadType c = of_nat n"
      "FMTP c = canonicalFMTP u name (case fmtp (of_nat n) of Some f \<Rightarrow> f | None \<Rightarrow> [])"
    using assms(2) by (auto simp: codec_for_def Let_def split: option.splits)
  have "validEncodingName name \<and> rate \<noteq> 0 \<and> 1 \<le> ch \<and> ch \<le> 8"
  proof (cases "rtpmap (of_nat n)")
    case None
    then show ?thesis
      using d by (auto simp: staticPayload_def validEncodingName_def name_char_def is_upper_def byte_def split: if_splits)
  next
    case (Some m)
    then show ?thesis using d parseRTPMap_ok [of m name rate ch] by simp
  qed
  moreover have "(of_nat n :: 8 word) \<le> 127"
    using assms(1) by (simp add: word_le_nat_alt unat_of_nat)
  ultimately show ?thesis using c fmtp_clean_lemma by (simp add: codec_ok_def)
qed

lemma codec_loop_ok:
  assumes "codec_loop u rtpmap fmtp seen fs = Some cs"
  shows "distinct (map PayloadType cs) \<and> (\<forall>c \<in> set cs. codec_ok c \<and> PayloadType c \<notin> seen) \<and> length cs \<le> length fs"
  using assms
proof (induction u rtpmap fmtp seen fs arbitrary: cs rule: codec_loop.induct)
  case (1 u rtpmap fmtp seen)
  then show ?case by simp
next
  case (2 u rtpmap fmtp seen f0 fs)
  let ?f = "trim_space f0"
  have f: "\<not> (?f = [] \<or> \<not> list_all is_digit ?f)" using 2 by (auto simp: Let_def split: if_splits)
  show ?case
  proof (cases "parse_uint 8 ?f")
    case None
    then show ?thesis using 2(1) [OF refl f None] 2(4) f by (simp add: Let_def)
  next
    case (Some n)
    show ?thesis
    proof (cases "n > 127 \<or> of_nat n \<in> seen")
      case True
      then show ?thesis using 2(2) [OF refl f Some True] 2(4) f Some by (simp add: Let_def)
    next
      case False
      then obtain cs' where cs': "codec_loop u rtpmap fmtp (insert (of_nat n) seen) fs = Some cs'"
          "cs = (case codec_for u rtpmap fmtp (of_nat n) of Some c \<Rightarrow> [c] | None \<Rightarrow> []) @ cs'"
        using 2(4) f Some by (auto simp: Let_def split: option.splits)
      note ih = 2(3) [OF refl f Some False cs'(1)]
      show ?thesis
      proof (cases "codec_for u rtpmap fmtp (of_nat n)")
        case None
        then show ?thesis using ih cs'(2) by auto
      next
        case (Some c)
        then show ?thesis using ih cs'(2) False codec_for_ok [of n u rtpmap fmtp c] by auto
      qed
    qed
  qed
qed

text \<open>
  What a parsed codec list looks like. Whatever the section contains, every codec has a payload
  number of at most 127 that no other codec of the list has, a name of 1 to 64 letters, digits, '-',
  '_' and '.', a clock rate that is not zero, 1 to 8 channels and an fmtp of this package's own
  alphabet, and there are no more codecs than formats.
\<close>

theorem parsed_codecs_wellformed:
  assumes "parseCodecs u ats formats = Some cs"
  shows "distinct (map PayloadType cs) \<and> length cs \<le> length formats \<and>
    (\<forall>c \<in> set cs. PayloadType c \<le> 127 \<and> cd_Name c \<noteq> [] \<and> length (cd_Name c) \<le> 64 \<and> list_all name_char (cd_Name c) \<and>
      ClockRate c \<noteq> 0 \<and> 1 \<le> Channels c \<and> Channels c \<le> 8 \<and> list_all fmtp_char (FMTP c))"
  using codec_loop_ok [OF assms [unfolded parseCodecs_def]]
  by (auto simp: codec_ok_def validEncodingName_def split: if_splits)

theorem parsed_codecs_wellformed_witness:
  "\<exists>cs. parseCodecs ascii_tables [] [] = Some cs \<and> length cs \<le> 0"
proof -
  have "parseCodecs ascii_tables [] [] = Some []" by (simp add: parseCodecs_def)
  then show ?thesis using parsed_codecs_wellformed [of ascii_tables "[]" "[]" "[]"] by simp
qed

end
