(* ===== verification/Sdp_Crypto.thy ===== *)
theory Sdp_Crypto
  imports Go_Strings "HOL-Library.Word"
begin

text \<open>
  SDES keys in SDP, \<^verbatim>\<open>src/internal/sip/sdp/crypto.go\<close>: the parser and the renderer of an
  \<^verbatim>\<open>a=crypto\<close> value, the offer, the selection and the answer, with \<^verbatim>\<open>encoding/base64\<close> as far as they
  use it. Key material is a list of bytes; \<open>rnd\<close> is what \<^verbatim>\<open>rand.Read\<close> fills a buffer of a given size
  with, \<open>None\<close> when it fails. An error is one of the parser's error returns.
\<close>

section \<open>Base64\<close>

type_synonym octets = "8 word list"

definition b64_char :: "nat \<Rightarrow> char" where
  "b64_char n = char_of (if n < 26 then 65 + n else if n < 52 then 71 + n else if n < 62 then n - 4
     else if n = 62 then 43 else 47)"

definition b64_val :: "char \<Rightarrow> nat option" where
  "b64_val c = (let b = byte c in
     if 65 \<le> b \<and> b \<le> 90 then Some (b - 65) else if 97 \<le> b \<and> b \<le> 122 then Some (b - 71)
     else if 48 \<le> b \<and> b \<le> 57 then Some (b + 4) else if b = 43 then Some 62 else if b = 47 then Some 63 else None)"

fun b64_encode :: "octets \<Rightarrow> string" where
  "b64_encode [] = []"
| "b64_encode [a] = [b64_char (unat a div 4), b64_char (unat a mod 4 * 16), CHR ''='', CHR ''='']"
| "b64_encode [a, b] = [b64_char (unat a div 4), b64_char (unat a mod 4 * 16 + unat b div 16),
     b64_char (unat b mod 16 * 4), CHR ''='']"
| "b64_encode (a # b # c # bs) = [b64_char (unat a div 4), b64_char (unat a mod 4 * 16 + unat b div 16),
     b64_char (unat b mod 16 * 4 + unat c div 64), b64_char (unat c mod 64)] @ b64_encode bs"

text \<open>The bytes of a quantum of two, three or four characters; surplus bits are dropped (not strict).\<close>

definition quantum :: "nat list \<Rightarrow> octets" where
  "quantum vs = (case vs of
       [p, q] \<Rightarrow> [word_of_nat (p * 4 + q div 16)]
     | [p, q, r] \<Rightarrow> [word_of_nat (p * 4 + q div 16), word_of_nat (q mod 16 * 16 + r div 4)]
     | [p, q, r, s] \<Rightarrow> [word_of_nat (p * 4 + q div 16), word_of_nat (q mod 16 * 16 + r div 4), word_of_nat (r mod 4 * 64 + s)]
     | _ \<Rightarrow> [])"

definition b64_vals :: "string \<Rightarrow> nat list option" where
  "b64_vals cs = (if list_all (\<lambda>c. b64_val c \<noteq> None) cs then Some (map (the \<circ> b64_val) cs) else None)"

text \<open>The end of the input: with padding for \<^verbatim>\<open>StdEncoding\<close>, without for \<^verbatim>\<open>RawStdEncoding\<close>.\<close>

definition b64_last :: "bool \<Rightarrow> string \<Rightarrow> octets option" where
  "b64_last padded cs =
     (if cs = [] then Some []
      else if padded then
        (if length cs = 4 \<and> drop 2 cs = ''=='' then map_option quantum (b64_vals (take 2 cs))
         else if length cs = 4 \<and> drop 3 cs = ''='' then map_option quantum (b64_vals (take 3 cs))
         else if length cs = 4 then map_option quantum (b64_vals cs) else None)
      else if 2 \<le> length cs then map_option quantum (b64_vals cs) else None)"

fun b64_decode :: "bool \<Rightarrow> string \<Rightarrow> octets option" where
  "b64_decode padded (a # b # c # d # e # cs) =
     (case (b64_vals [a, b, c, d], b64_decode padded (e # cs)) of
        (Some vs, Some bs) \<Rightarrow> Some (quantum vs @ bs)
      | _ \<Rightarrow> None)"
| "b64_decode padded cs = b64_last padded cs"

text \<open>\<^verbatim>\<open>DecodeString\<close> skips line breaks.\<close>

definition b64_decode_string :: "bool \<Rightarrow> string \<Rightarrow> octets option" where
  "b64_decode_string padded s = b64_decode padded (filter (\<lambda>c. byte c \<noteq> 10 \<and> byte c \<noteq> 13) s)"

section \<open>Model\<close>

definition SuiteAESCM128HMACSHA180 :: string where
  "SuiteAESCM128HMACSHA180 = ''AES_CM_128_HMAC_SHA1_80''"

definition SuiteAESCM128HMACSHA132 :: string where
  "SuiteAESCM128HMACSHA132 = ''AES_CM_128_HMAC_SHA1_32''"

definition SuiteAEADAES128GCM :: string where
  "SuiteAEADAES128GCM = ''AEAD_AES_128_GCM''"

definition SupportedSuites :: "string list" where
  "SupportedSuites = [SuiteAESCM128HMACSHA180, SuiteAEADAES128GCM, SuiteAESCM128HMACSHA132]"

definition MaxCrypto :: nat where
  "MaxCrypto = 8"

definition maxCryptoTag :: int where
  "maxCryptoTag = 999999999"

definition suite_lengths :: "string \<Rightarrow> (nat \<times> nat) option" where
  "suite_lengths s =
     (if s = SuiteAESCM128HMACSHA180 \<or> s = SuiteAESCM128HMACSHA132 then Some (16, 14)
      else if s = SuiteAEADAES128GCM then Some (16, 12) else None)"

record crypto =
  cr_Tag :: int
  cr_Suite :: string
  cr_Key :: octets
  cr_Salt :: octets

datatype crypto_error =
    UnsupportedSuite | TagOutOfRange | BadKeyLength | RandomFailed
  | LineTooLong | NeedThree | SessionParams | BadTag | NotInline | MultipleKeys | MKI | BadLifetime | BadBase64

definition SameKey :: "crypto \<Rightarrow> crypto \<Rightarrow> bool" where
  "SameKey c d \<longleftrightarrow> cr_Suite c = cr_Suite d \<and> cr_Key c = cr_Key d \<and> cr_Salt c = cr_Salt d"

text \<open>\<^verbatim>\<open>Validate\<close>: \<open>None\<close> is a nil error.\<close>

definition crypto_Validate :: "crypto \<Rightarrow> crypto_error option" where
  "crypto_Validate c = (case suite_lengths (cr_Suite c) of
       None \<Rightarrow> Some UnsupportedSuite
     | Some (kl, sl) \<Rightarrow>
         if cr_Tag c < 1 \<or> cr_Tag c > maxCryptoTag then Some TagOutOfRange
         else if length (cr_Key c) \<noteq> kl \<or> length (cr_Salt c) \<noteq> sl then Some BadKeyLength else None)"

definition crypto_Value :: "crypto \<Rightarrow> string" where
  "crypto_Value c = show_int (cr_Tag c) @ '' '' @ cr_Suite c @ '' inline:'' @ b64_encode (cr_Key c @ cr_Salt c)"

definition NewCrypto :: "(nat \<Rightarrow> octets option) \<Rightarrow> int \<Rightarrow> string \<Rightarrow> crypto_error + crypto" where
  "NewCrypto rnd tag suite = (case suite_lengths suite of
       None \<Rightarrow> Inl UnsupportedSuite
     | Some (kl, sl) \<Rightarrow>
         if tag < 1 \<or> tag > maxCryptoTag then Inl TagOutOfRange
         else case rnd (kl + sl) of None \<Rightarrow> Inl RandomFailed
           | Some mat \<Rightarrow> Inr \<lparr>cr_Tag = tag, cr_Suite = suite, cr_Key = take kl mat, cr_Salt = drop kl mat\<rparr>)"

text \<open>\<^verbatim>\<open>OfferCrypto\<close>: call number \<open>i\<close> of the random source is \<open>rnd i\<close>; tags count from 1.\<close>

fun offer_lines :: "(nat \<Rightarrow> nat \<Rightarrow> octets option) \<Rightarrow> nat \<Rightarrow> string list \<Rightarrow> crypto_error + crypto list" where
  "offer_lines rnd i [] = Inr []"
| "offer_lines rnd i (s # ss) = (case NewCrypto (rnd i) (int i + 1) s of
       Inl e \<Rightarrow> Inl e
     | Inr c \<Rightarrow> (case offer_lines rnd (i + 1) ss of Inl e \<Rightarrow> Inl e | Inr cs \<Rightarrow> Inr (c # cs)))"

definition OfferCrypto :: "(nat \<Rightarrow> nat \<Rightarrow> octets option) \<Rightarrow> string list \<Rightarrow> crypto_error + crypto list" where
  "OfferCrypto rnd suites = offer_lines rnd 0 (if suites = [] then SupportedSuites else suites)"

fun SelectCrypto :: "crypto list \<Rightarrow> string list \<Rightarrow> crypto option" where
  "SelectCrypto [] allowed = None"
| "SelectCrypto (o1 # os) allowed =
     (if crypto_Validate o1 \<noteq> None then SelectCrypto os allowed
      else if allowed = [] \<or> cr_Suite o1 \<in> set allowed then Some o1
      else SelectCrypto os allowed)"

definition AnswerCrypto ::
  "(nat \<Rightarrow> octets option) \<Rightarrow> crypto list \<Rightarrow> string list \<Rightarrow> crypto_error + (crypto \<times> crypto) option" where
  "AnswerCrypto rnd offered allowed = (case SelectCrypto offered allowed of
       None \<Rightarrow> Inr None
     | Some peer \<Rightarrow> (case NewCrypto rnd (cr_Tag peer) (cr_Suite peer) of Inl e \<Rightarrow> Inl e | Inr ours \<Rightarrow> Inr (Some (peer, ours))))"

definition parseCryptoTag :: "string \<Rightarrow> int option" where
  "parseCryptoTag s =
     (if s = [] \<or> length s > 9 then None
      else if \<not> list_all is_digit s then None
      else let n = int (digits_val s) in if n < 1 then None else Some n)"

definition validLifetime :: "string \<Rightarrow> bool" where
  "validLifetime s =
     (if length s > 12 then False
      else let s1 = (if has_prefix s ''2^'' then drop 2 s else s) in s1 \<noteq> [] \<and> list_all is_digit s1)"

definition decodeKeyBase64 :: "string \<Rightarrow> octets option" where
  "decodeKeyBase64 s = (case b64_decode_string True s of Some b \<Rightarrow> Some b | None \<Rightarrow> b64_decode_string False s)"

definition parse_key :: "int \<Rightarrow> string \<Rightarrow> nat \<Rightarrow> nat \<Rightarrow> string \<Rightarrow> crypto_error + crypto" where
  "parse_key tag suite kl sl rest =
     (if CHR '';'' \<in> set rest then Inl MultipleKeys
      else let parts = split_on (CHR ''|'') rest in
        if length parts > 2 then Inl MKI
        else if length parts = 2 \<and> \<not> validLifetime (parts ! 1) then Inl BadLifetime
        else case decodeKeyBase64 (parts ! 0) of
            None \<Rightarrow> Inl BadBase64
          | Some mat \<Rightarrow>
              if length mat \<noteq> kl + sl then Inl BadKeyLength
              else Inr \<lparr>cr_Tag = tag, cr_Suite = suite, cr_Key = take kl mat, cr_Salt = drop kl mat\<rparr>)"

definition ParseCrypto :: "string \<Rightarrow> crypto_error + crypto" where
  "ParseCrypto value =
     (if length value > 512 then Inl LineTooLong
      else let f = str_fields value in
        if length f < 3 then Inl NeedThree
        else if length f > 3 then Inl SessionParams
        else case parseCryptoTag (f ! 0) of
            None \<Rightarrow> Inl BadTag
          | Some tag \<Rightarrow> (case suite_lengths (f ! 1) of
                None \<Rightarrow> Inl UnsupportedSuite
              | Some (kl, sl) \<Rightarrow>
                  if \<not> has_prefix (f ! 2) ''inline:'' then Inl NotInline
                  else parse_key tag (f ! 1) kl sl (drop 7 (f ! 2))))"

text \<open>\<open>out\<close> is the result so far, \<open>seen\<close> the tags in it.\<close>

fun parse_attrs :: "int set \<Rightarrow> crypto list \<Rightarrow> string list \<Rightarrow> crypto list" where
  "parse_attrs seen out [] = out"
| "parse_attrs seen out (v # vs) = (case ParseCrypto v of
       Inl _ \<Rightarrow> parse_attrs seen out vs
     | Inr c \<Rightarrow>
         if cr_Tag c \<in> seen then parse_attrs seen out vs
         else if length (out @ [c]) = MaxCrypto then out @ [c]
         else parse_attrs (insert (cr_Tag c) seen) (out @ [c]) vs)"

definition parseCryptoAttrs :: "string list \<Rightarrow> crypto list" where
  "parseCryptoAttrs values = parse_attrs {} [] values"

section \<open>Base64 facts\<close>

lemma byte_b64_char: "n < 64 \<Longrightarrow> byte (b64_char n) =
    (if n < 26 then 65 + n else if n < 52 then 71 + n else if n < 62 then n - 4 else if n = 62 then 43 else 47)"
  by (simp add: b64_char_def byte_def)

lemma b64_val_char [simp]: "n < 64 \<Longrightarrow> b64_val (b64_char n) = Some n"
  by (auto simp: b64_val_def byte_b64_char Let_def)

lemma b64_char_ne [simp]: "n < 64 \<Longrightarrow> byte c \<notin> {43..57} \<union> {65..90} \<union> {97..122} \<Longrightarrow> b64_char n \<noteq> c"
  by (auto simp: byte_b64_char dest!: arg_cong [where f = byte] split: if_splits)

lemma unat8 [simp]: "unat (b :: 8 word) < 256"
  using unsigned_less [of b] by simp

lemma quantum_first: "x < 256 \<Longrightarrow> y < 256 \<Longrightarrow> x div 4 * 4 + (x mod 4 * 16 + y div 16) div 16 = (x :: nat)"
proof -
  assume "x < 256" "y < 256"
  then have "y div 16 < 16" by simp
  then have "(x mod 4 * 16 + y div 16) div 16 = x mod 4" by (simp add: div_add1_eq [of "x mod 4 * 16"])
  then show ?thesis by simp
qed

lemma quantum_second: "y < 256 \<Longrightarrow> z < 256 \<Longrightarrow>
    (x mod 4 * 16 + y div 16) mod 16 * 16 + (y mod 16 * 4 + z div 64) div 4 = (y :: nat)"
proof -
  assume a: "y < 256" "z < 256"
  then have "(x mod 4 * 16 + y div 16) mod 16 = y div 16" by (simp add: mod_add_eq [symmetric])
  moreover have "(y mod 16 * 4 + z div 64) div 4 = y mod 16"
    using a by (simp add: div_add1_eq [of "y mod 16 * 4"])
  ultimately show ?thesis by simp
qed

lemma quantum_third: "z < 256 \<Longrightarrow> (y mod 16 * 4 + z div 64) mod 4 * 64 + z mod 64 = (z :: nat)"
proof -
  assume "z < 256"
  then have "(y mod 16 * 4 + z div 64) mod 4 = z div 64" by (simp add: mod_add_eq [symmetric])
  then show ?thesis by simp
qed

lemma sextets [simp]:
  "(x :: nat) < 256 \<Longrightarrow> x div 4 < 64" "x mod 4 * 16 < 64" "y < 256 \<Longrightarrow> x mod 4 * 16 + y div 16 < (64 :: nat)"
  "x mod 16 * 4 < (64 :: nat)" "y < 256 \<Longrightarrow> x mod 16 * 4 + y div 64 < (64 :: nat)" "x mod 64 < (64 :: nat)"
proof -
  have a: "x mod 4 \<le> 3" "x mod 16 \<le> 15" by presburger+
  show "x < 256 \<Longrightarrow> x div 4 < 64" "x mod 4 * 16 < 64" "x mod 16 * 4 < 64" "x mod 64 < 64"
    using a by simp_all
  show "x mod 4 * 16 + y div 16 < 64" if "y < 256"
  proof -
    have "y div 16 \<le> 15" using that by simp
    then show ?thesis using a by linarith
  qed
  show "x mod 16 * 4 + y div 64 < 64" if "y < 256"
  proof -
    have "y div 64 \<le> 3" using that by simp
    then show ?thesis using a by linarith
  qed
qed

lemma b64_vals_chars: "list_all (\<lambda>n. n < 64) ns \<Longrightarrow> b64_vals (map b64_char ns) = Some ns"
  by (induction ns) (auto simp: b64_vals_def list_all_iff split: if_splits)

lemma b64_char_pad [simp]: "n < 64 \<Longrightarrow> b64_char n \<noteq> CHR ''=''"
  by (rule b64_char_ne) (simp_all add: byte_def)

lemmas quantum_bytes = quantum_def list.case of_nat_unat quantum_first [OF unat8 unat8] quantum_second [OF unat8 unat8]
  quantum_third [OF unat8] ucast_id

lemma quantum_full:
  "quantum [unat a div 4, unat a mod 4 * 16 + unat b div 16, unat b mod 16 * 4 + unat c div 64, unat c mod 64] = [a, b, c]"
  "quantum [unat a div 4, unat a mod 4 * 16 + unat b div 16, unat b mod 16 * 4] = [a, b]"
  "quantum [unat a div 4, unat a mod 4 * 16] = [a]"
proof -
  show "quantum [unat a div 4, unat a mod 4 * 16 + unat b div 16, unat b mod 16 * 4 + unat c div 64, unat c mod 64] = [a, b, c]"
    by (simp only: quantum_bytes)
  have z: "unat (0 :: 8 word) div k = 0" for k by simp
  show "quantum [unat a div 4, unat a mod 4 * 16 + unat b div 16, unat b mod 16 * 4] = [a, b]"
    using quantum_second [OF unat8 unat8, of "unat a" b 0] unfolding z add_0_right
    by (simp only: quantum_bytes)
  show "quantum [unat a div 4, unat a mod 4 * 16] = [a]"
    using quantum_first [OF unat8 unat8, of a 0] unfolding z add_0_right
    by (simp only: quantum_bytes)
qed

lemma b64_decode_quad:
  assumes "list_all (\<lambda>n. n < 64) [p, q, r, s]"
  shows "b64_decode True (map b64_char [p, q, r, s] @ cs) =
    (case b64_decode True cs of None \<Rightarrow> None | Some bs \<Rightarrow> Some (quantum [p, q, r, s] @ bs))"
proof (cases cs)
  case Nil
  have "drop 2 (map b64_char [p, q, r, s]) \<noteq> ''==''" "drop 3 (map b64_char [p, q, r, s]) \<noteq> ''=''"
    using assms by simp_all
  then show ?thesis
    using assms b64_vals_chars [OF assms] Nil by (simp add: b64_last_def)
next
  case (Cons e es)
  then show ?thesis
    using b64_vals_chars [OF assms] by (auto split: option.splits)
qed

lemma b64_roundtrip: "b64_decode True (b64_encode bs) = Some bs"
proof (induction bs rule: b64_encode.induct)
  case 1
  then show ?case by (simp add: b64_last_def)
next
  case (2 a)
  have v: "b64_vals (map b64_char [unat a div 4, unat a mod 4 * 16]) = Some [unat a div 4, unat a mod 4 * 16]"
    by (rule b64_vals_chars) simp
  show ?case
    using v quantum_full(3) [of a] by (simp add: b64_last_def)
next
  case (3 a b)
  let ?q = "[unat a div 4, unat a mod 4 * 16 + unat b div 16, unat b mod 16 * 4]"
  have v: "b64_vals (map b64_char ?q) = Some ?q" by (rule b64_vals_chars) simp
  show ?case
    using v quantum_full(2) [of a b] by (simp add: b64_last_def)
next
  case (4 a b c bs)
  let ?q = "[unat a div 4, unat a mod 4 * 16 + unat b div 16, unat b mod 16 * 4 + unat c div 64, unat c mod 64]"
  have "b64_decode True (map b64_char ?q @ b64_encode bs) = Some (quantum ?q @ bs)"
    by (subst b64_decode_quad) (simp_all add: 4)
  then show ?case by (simp add: quantum_full(1))
qed

text \<open>The characters of an encoding.\<close>

definition b64_alphabet :: "char \<Rightarrow> bool" where
  "b64_alphabet c \<longleftrightarrow> b64_val c \<noteq> None \<or> c = CHR ''=''"

lemma b64_encode_alphabet: "list_all b64_alphabet (b64_encode bs)"
  by (induction bs rule: b64_encode.induct) (simp_all add: b64_alphabet_def)

lemma b64_encode_length: "length (b64_encode bs) = 4 * ((length bs + 2) div 3)"
proof (induction bs rule: b64_encode.induct)
  case (4 a b c bs)
  have "(length bs + 5) div 3 = Suc ((length bs + 2) div 3)" by presburger
  then show ?case using 4 by (simp add: add.commute)
qed simp_all

lemma alphabet_bytes: "b64_alphabet c \<Longrightarrow> byte c = 43 \<or> 47 \<le> byte c \<and> byte c \<le> 57 \<or> byte c = 61 \<or> 65 \<le> byte c \<and> byte c \<le> 122"
  by (auto simp: b64_alphabet_def b64_val_def byte_def Let_def split: if_splits)

section \<open>Properties\<close>

lemma parse_tag_show: "1 \<le> t \<Longrightarrow> t \<le> maxCryptoTag \<Longrightarrow> parseCryptoTag (show_int t) = Some t"
proof -
  assume a: "1 \<le> t" "t \<le> maxCryptoTag"
  then have "nat t < 10 ^ 9" by (simp add: maxCryptoTag_def)
  then have "length (show_nat (nat t)) \<le> 9" by (intro show_nat_length) simp_all
  then show ?thesis using a by (simp add: parseCryptoTag_def show_int_def Let_def)
qed

lemma suite_cases:
  "suite_lengths s = Some (kl, sl) \<Longrightarrow>
    (s = SuiteAESCM128HMACSHA180 \<or> s = SuiteAESCM128HMACSHA132) \<and> kl = 16 \<and> sl = 14 \<or>
    s = SuiteAEADAES128GCM \<and> kl = 16 \<and> sl = 12"
  by (auto simp: suite_lengths_def split: if_splits)

lemma plain_suite: "suite_lengths s = Some kl \<Longrightarrow> plain_word s \<and> s \<noteq> [] \<and> length s \<le> 23"
  by (auto simp: suite_lengths_def SuiteAESCM128HMACSHA180_def SuiteAESCM128HMACSHA132_def SuiteAEADAES128GCM_def
      plain_word_def is_ascii_space_def byte_def split: if_splits)

lemma plain_b64: "plain_word (b64_encode bs)"
  using b64_encode_alphabet [of bs] alphabet_bytes
  by (fastforce simp: plain_word_def list_all_iff is_ascii_space_def)

lemma b64_no: "byte c \<notin> {43, 61} \<union> {47..57} \<union> {65..122} \<Longrightarrow> c \<notin> set (b64_encode bs)"
  using b64_encode_alphabet [of bs] alphabet_bytes [of c] by (auto simp: list_all_iff)

lemma decode_key_encode: "decodeKeyBase64 (b64_encode bs) = Some bs"
proof -
  have "filter (\<lambda>c. byte c \<noteq> 10 \<and> byte c \<noteq> 13) (b64_encode bs) = b64_encode bs"
    using b64_encode_alphabet [of bs] alphabet_bytes by (fastforce simp: filter_id_conv list_all_iff)
  then show ?thesis by (simp add: decodeKeyBase64_def b64_decode_string_def b64_roundtrip)
qed

lemma ParseCrypto_Value:
  assumes "crypto_Validate c = None"
  shows "ParseCrypto (crypto_Value c) = Inr c"
proof -
  obtain kl sl where l: "suite_lengths (cr_Suite c) = Some (kl, sl)" "length (cr_Key c) = kl" "length (cr_Salt c) = sl"
      and t: "1 \<le> cr_Tag c" "cr_Tag c \<le> maxCryptoTag"
    using assms by (auto simp: crypto_Validate_def split: option.splits if_splits)
  let ?tag = "show_int (cr_Tag c)" and ?mat = "cr_Key c @ cr_Salt c"
  let ?key = "''inline:'' @ b64_encode ?mat"
  have tag: "?tag = show_nat (nat (cr_Tag c))" "length ?tag \<le> 9"
    using t parse_tag_show [OF t] by (auto simp: show_int_def parseCryptoTag_def Let_def split: if_splits)
  have mat: "length ?mat \<le> 30" using suite_cases [OF l(1)] l by auto
  have "(length ?mat + 2) div 3 \<le> 11" using mat by simp
  then have "length (crypto_Value c) \<le> 512"
    using tag(2) plain_suite [OF l(1)] unfolding crypto_Value_def length_append b64_encode_length by simp
  moreover have "str_fields (crypto_Value c) = [?tag, cr_Suite c, ?key]"
    unfolding crypto_Value_def
    using fields_three [of ?tag "cr_Suite c" ?key] plain_suite [OF l(1)] tag(1) plain_b64 [of ?mat]
      plain_digits [OF show_nat_digits, of "nat (cr_Tag c)"]
    by (simp add: plain_word_def is_ascii_space_def byte_def)
  moreover have "parse_key (cr_Tag c) (cr_Suite c) kl sl (b64_encode ?mat) = Inr c"
  proof -
    have "CHR '';'' \<notin> set (b64_encode ?mat)" "CHR ''|'' \<notin> set (b64_encode ?mat)"
      by (rule b64_no, simp add: byte_def)+
    then show ?thesis
      using l by (simp add: parse_key_def split_on_notin decode_key_encode Let_def)
  qed
  ultimately show ?thesis
    using parse_tag_show [OF t] l(1) by (simp add: ParseCrypto_def Let_def)
qed

text \<open>
  C40: an \<^verbatim>\<open>a=crypto\<close> value this package renders is read back unchanged. For every attribute that
  passes \<^verbatim>\<open>Validate\<close> (supported suite, tag of one to nine digits, key and salt of the suite's lengths),
  parsing its rendered value gives the same tag, suite, key and salt.
\<close>

theorem crypto_roundtrip:
  assumes "crypto_Validate c = None"
  shows "ParseCrypto (crypto_Value c) = Inr c"
  using assms by (rule ParseCrypto_Value)

theorem crypto_roundtrip_witness:
  "ParseCrypto (crypto_Value \<lparr>cr_Tag = 7, cr_Suite = SuiteAEADAES128GCM, cr_Key = replicate 16 65, cr_Salt = replicate 12 255\<rparr>) =
    Inr \<lparr>cr_Tag = 7, cr_Suite = SuiteAEADAES128GCM, cr_Key = replicate 16 65, cr_Salt = replicate 12 255\<rparr>"
  by (rule crypto_roundtrip) (simp add: crypto_Validate_def suite_lengths_def maxCryptoTag_def SuiteAEADAES128GCM_def
      SuiteAESCM128HMACSHA180_def SuiteAESCM128HMACSHA132_def)

lemma parse_key_ok:
  "parse_key tag suite kl sl rest = Inr c \<Longrightarrow>
    cr_Tag c = tag \<and> cr_Suite c = suite \<and> length (cr_Key c) = kl \<and> length (cr_Salt c) = sl"
  by (auto simp: parse_key_def Let_def split: if_splits option.splits)

lemma parse_tag_range: "parseCryptoTag s = Some t \<Longrightarrow> 1 \<le> t \<and> t \<le> maxCryptoTag"
proof -
  assume p: "parseCryptoTag s = Some t"
  then have s: "list_all is_digit s" "length s \<le> 9" "t = int (digits_val s)" "1 \<le> t"
    by (auto simp: parseCryptoTag_def Let_def split: if_splits)
  then have "digits_val s < 10 ^ length s" by (simp add: digits_val_bound)
  moreover have "(10 :: nat) ^ length s \<le> 10 ^ 9" using s(2) by (intro power_increasing) simp_all
  ultimately show ?thesis using s by (simp add: maxCryptoTag_def)
qed

lemma parse_crypto_valid: "ParseCrypto v = Inr c \<Longrightarrow> crypto_Validate c = None"
proof -
  assume p: "ParseCrypto v = Inr c"
  then obtain tag kl sl where t: "parseCryptoTag (str_fields v ! 0) = Some tag"
      and l: "suite_lengths (str_fields v ! 1) = Some (kl, sl)"
      and k: "parse_key tag (str_fields v ! 1) kl sl (drop 7 (str_fields v ! 2)) = Inr c"
    by (auto simp: ParseCrypto_def Let_def split: if_splits option.splits)
  show ?thesis
    using parse_key_ok [OF k] parse_tag_range [OF t] l by (simp add: crypto_Validate_def)
qed

lemma parse_attrs_ok:
  assumes "seen = cr_Tag ` set out" "distinct (map cr_Tag out)" "length out < MaxCrypto"
    "\<forall>c \<in> set out. crypto_Validate c = None \<and> Inr c \<in> ParseCrypto ` D"
    "set vs \<subseteq> D"
  shows "let cs = parse_attrs seen out vs in
    length cs \<le> MaxCrypto \<and> distinct (map cr_Tag cs) \<and> set out \<subseteq> set cs \<and>
    (\<forall>c \<in> set cs. crypto_Validate c = None \<and> Inr c \<in> ParseCrypto ` D) \<and>
    (length cs < MaxCrypto \<longrightarrow> (\<forall>v \<in> set vs. \<forall>c. ParseCrypto v = Inr c \<longrightarrow> cr_Tag c \<in> cr_Tag ` set cs))"
  using assms
proof (induction seen out vs rule: parse_attrs.induct)
  case (1 seen out)
  then show ?case by simp
next
  case (2 seen out v vs)
  show ?case
  proof (cases "ParseCrypto v")
    case (Inl e)
    then show ?thesis using "2.IH"(1) [OF Inl] "2.prems" by (simp add: Let_def)
  next
    case (Inr c)
    consider "cr_Tag c \<in> seen" | "cr_Tag c \<notin> seen" "length (out @ [c]) = MaxCrypto"
      | "cr_Tag c \<notin> seen" "length (out @ [c]) \<noteq> MaxCrypto" by blast
    then show ?thesis
    proof cases
      case 1
      then have "cr_Tag c \<in> cr_Tag ` set (parse_attrs seen out vs)"
        using "2.IH"(2) [OF Inr 1] "2.prems" by (auto simp: Let_def)
      then show ?thesis using "2.IH"(2) [OF Inr 1] "2.prems" Inr 1 by (simp add: Let_def)
    next
      case 2
      have "Inr c \<in> ParseCrypto ` D" using "2.prems"(5) Inr by (metis image_eqI list.set_intros(1) subsetD)
      then show ?thesis
        using "2.prems" Inr 2 parse_crypto_valid [OF Inr] by (auto simp: Let_def)
    next
      case 3
      have D: "Inr c \<in> ParseCrypto ` D" using "2.prems"(5) Inr by (metis image_eqI list.set_intros(1) subsetD)
      let ?cs = "parse_attrs (insert (cr_Tag c) seen) (out @ [c]) vs"
      have ih: "let cs = ?cs in
          length cs \<le> MaxCrypto \<and> distinct (map cr_Tag cs) \<and> set (out @ [c]) \<subseteq> set cs \<and>
          (\<forall>c \<in> set cs. crypto_Validate c = None \<and> Inr c \<in> ParseCrypto ` D) \<and>
          (length cs < MaxCrypto \<longrightarrow> (\<forall>v \<in> set vs. \<forall>c. ParseCrypto v = Inr c \<longrightarrow> cr_Tag c \<in> cr_Tag ` set cs))"
        using "2.prems" 3 parse_crypto_valid [OF Inr] D by (intro "2.IH"(3) [OF Inr 3]) auto
      then have "cr_Tag c \<in> cr_Tag ` set ?cs" by (auto simp: Let_def)
      then show ?thesis using ih Inr 3 by (auto simp: Let_def)
    qed
  qed
qed

text \<open>
  What the parser lets through. The crypto attributes of a media section are at most eight,
  carry pairwise distinct tags, each is a line of the section and valid (supported suite, tag in
  range, key and salt of exactly the suite's lengths), and, unless the bound was reached, no usable
  line's tag is missing.
\<close>

theorem crypto_attrs_valid:
  "let cs = parseCryptoAttrs vs in
    length cs \<le> 8 \<and> distinct (map cr_Tag cs) \<and>
    (\<forall>c \<in> set cs. crypto_Validate c = None \<and> Inr c \<in> ParseCrypto ` set vs) \<and>
    (length cs < 8 \<longrightarrow> (\<forall>v \<in> set vs. \<forall>c. ParseCrypto v = Inr c \<longrightarrow> cr_Tag c \<in> cr_Tag ` set cs))"
  using parse_attrs_ok [of "{}" "[]" "set vs" vs] by (simp add: parseCryptoAttrs_def MaxCrypto_def Let_def)

theorem crypto_attrs_valid_witness:
  "length (parseCryptoAttrs [crypto_Value \<lparr>cr_Tag = 7, cr_Suite = ''X'', cr_Key = [], cr_Salt = []\<rparr>, ''junk'']) \<le> 8"
  using crypto_attrs_valid [of "[crypto_Value \<lparr>cr_Tag = 7, cr_Suite = ''X'', cr_Key = [], cr_Salt = []\<rparr>, ''junk'']"]
  by (simp only: Let_def)

text \<open>A line the answerer can take.\<close>

definition crypto_usable :: "string list \<Rightarrow> crypto \<Rightarrow> bool" where
  "crypto_usable allowed c \<longleftrightarrow> crypto_Validate c = None \<and> (allowed = [] \<or> cr_Suite c \<in> set allowed)"

lemma SelectCrypto_find: "SelectCrypto os allowed = find (crypto_usable allowed) os"
  by (induction os) (auto simp: crypto_usable_def)

text \<open>
  An answer picks exactly one offered line. When \<^verbatim>\<open>AnswerCrypto\<close> answers, the peer's line is the
  first valid line of the offer whose suite is allowed, and our line carries its tag and suite with a
  key and salt of the suite's lengths, so the answer itself parses; it declines only when no offered
  line is usable, and fails only when the random source does.
\<close>

theorem answer_crypto_exact:
  assumes "\<forall>n mat. rnd n = Some mat \<longrightarrow> length mat = n"
  shows "case AnswerCrypto rnd offered allowed of
      Inr (Some (peer, ours)) \<Rightarrow>
        (\<exists>i < length offered. offered ! i = peer \<and> crypto_usable allowed peer \<and> (\<forall>j < i. \<not> crypto_usable allowed (offered ! j))) \<and>
        cr_Tag ours = cr_Tag peer \<and> cr_Suite ours = cr_Suite peer \<and> ParseCrypto (crypto_Value ours) = Inr ours
    | Inr None \<Rightarrow> \<forall>x \<in> set offered. \<not> crypto_usable allowed x
    | Inl e \<Rightarrow> e = RandomFailed \<and> (\<exists>n. rnd n = None)"
proof (cases "find (crypto_usable allowed) offered")
  case None
  then have "AnswerCrypto rnd offered allowed = Inr None" by (simp add: AnswerCrypto_def SelectCrypto_find)
  then show ?thesis using None by (simp add: find_None_iff)
next
  case (Some peer)
  then obtain i where i: "i < length offered" "offered ! i = peer" "crypto_usable allowed peer" "\<forall>j < i. \<not> crypto_usable allowed (offered ! j)"
    by (auto simp: find_Some_iff)
  then obtain kl sl where l: "suite_lengths (cr_Suite peer) = Some (kl, sl)" and t: "1 \<le> cr_Tag peer" "cr_Tag peer \<le> maxCryptoTag"
    by (auto simp: crypto_usable_def crypto_Validate_def split: option.splits if_splits)
  show ?thesis
  proof (cases "rnd (kl + sl)")
    case None
    then show ?thesis using Some l t by (auto simp: AnswerCrypto_def NewCrypto_def SelectCrypto_find)
  next
    case (Some mat)
    let ?ours = "\<lparr>cr_Tag = cr_Tag peer, cr_Suite = cr_Suite peer, cr_Key = take kl mat, cr_Salt = drop kl mat\<rparr>"
    have a: "AnswerCrypto rnd offered allowed = Inr (Some (peer, ?ours))"
      using \<open>find _ _ = Some peer\<close> Some l t by (simp add: AnswerCrypto_def NewCrypto_def SelectCrypto_find)
    have "length mat = kl + sl" using assms Some by blast
    then have "crypto_Validate ?ours = None" using l t by (simp add: crypto_Validate_def)
    then have "ParseCrypto (crypto_Value ?ours) = Inr ?ours" by (rule ParseCrypto_Value)
    then show ?thesis using i unfolding a sum.case option.case prod.case by auto
  qed
qed

theorem answer_crypto_exact_witness:
  "AnswerCrypto (\<lambda>n. Some (replicate n 1)) [\<lparr>cr_Tag = 0, cr_Suite = ''X'', cr_Key = [], cr_Salt = []\<rparr>] [] = Inr None \<and>
   \<not> crypto_usable [] \<lparr>cr_Tag = 0, cr_Suite = ''X'', cr_Key = [], cr_Salt = []\<rparr>"
proof -
  let ?x = "\<lparr>cr_Tag = 0, cr_Suite = ''X'', cr_Key = [], cr_Salt = []\<rparr>"
  have "suite_lengths ''X'' = None"
    by (simp add: suite_lengths_def SuiteAEADAES128GCM_def SuiteAESCM128HMACSHA180_def SuiteAESCM128HMACSHA132_def)
  then have "AnswerCrypto (\<lambda>n. Some (replicate n 1)) [?x] [] = Inr None"
    by (simp add: AnswerCrypto_def crypto_Validate_def)
  then show ?thesis
    using answer_crypto_exact [of "\<lambda>n. Some (replicate n 1)" "[?x]" "[]"] by simp
qed

end
