(* ===== verification/Netip_Text.thy ===== *)
theory Netip_Text
  imports Netip Go_Strings
begin

text \<open>
  Addresses as text: the standard library's \<^verbatim>\<open>netip.ParseAddr\<close> and \<^verbatim>\<open>Addr.AppendTo\<close>, as the
  SDP code uses them. A zone is whatever follows the first \<^verbatim>\<open>%\<close> of an IPv6 address; the library
  checks only that it is not empty.
\<close>

section \<open>IPv4\<close>

definition parse_octet :: "string \<Rightarrow> nat option" where
  "parse_octet s =
     (if s = [] \<or> \<not> list_all is_digit s \<or> length s > 1 \<and> hd s = CHR ''0'' \<or> digits_val s > 255 then None
      else Some (digits_val s))"

text \<open>The four fields of a dotted quad.\<close>

definition parse_quad :: "string \<Rightarrow> nat list option" where
  "parse_quad s =
     (let parts = split_on (CHR ''.'') s in
      if length parts \<noteq> 4 \<or> list_ex (\<lambda>p. parse_octet p = None) parts then None
      else Some (map (the \<circ> parse_octet) parts))"

definition octets_val :: "nat list \<Rightarrow> nat" where
  "octets_val bs = foldl (\<lambda>n b. 256 * n + b) 0 bs"

definition parseIPv4 :: "string \<Rightarrow> addr option" where
  "parseIPv4 s = map_option (\<lambda>bs. V4 (of_nat (octets_val bs))) (parse_quad s)"

section \<open>IPv6\<close>

definition hex_val :: "char \<Rightarrow> nat option" where
  "hex_val c = (let b = byte c in
     if 48 \<le> b \<and> b \<le> 57 then Some (b - 48) else if 97 \<le> b \<and> b \<le> 102 then Some (b - 87)
     else if 65 \<le> b \<and> b \<le> 70 then Some (b - 55) else None)"

definition hex_prefix :: "string \<Rightarrow> string" where
  "hex_prefix s = takeWhile (\<lambda>c. hex_val c \<noteq> None) s"

definition hex_num :: "string \<Rightarrow> nat" where
  "hex_num s = foldl (\<lambda>n c. 16 * n + the (hex_val c)) 0 s"

text \<open>
  The loop of \<^verbatim>\<open>parseIPv6\<close>: \<open>bs\<close> are the bytes read, \<open>ell\<close> where the \<^verbatim>\<open>::\<close> stood. At most eight
  groups fit, which is the fuel. The result is the bytes, the ellipsis and the rest of the text.
\<close>

fun v6_groups :: "nat \<Rightarrow> nat list \<Rightarrow> nat option \<Rightarrow> string \<Rightarrow> (nat list \<times> nat option \<times> string) option" where
  "v6_groups 0 bs ell s = Some (bs, ell, s)"
| "v6_groups (Suc k) bs ell s =
     (if length bs \<ge> 16 then Some (bs, ell, s)
      else let h = hex_prefix s; rest = drop (length h) s in
        if h = [] \<or> length h > 4 then None
        else if rest \<noteq> [] \<and> hd rest = CHR ''.'' then
          (if ell = None \<and> length bs \<noteq> 12 \<or> length bs + 4 > 16 then None
           else (case parse_quad s of None \<Rightarrow> None | Some q \<Rightarrow> Some (bs @ q, ell, [])))
        else let bs' = bs @ [hex_num h div 256, hex_num h mod 256] in
          if rest = [] then Some (bs', ell, [])
          else if hd rest \<noteq> CHR '':'' \<or> length rest = 1 then None
          else let s' = tl rest in
            if hd s' = CHR '':'' then
              (if ell \<noteq> None then None
               else if tl s' = [] then Some (bs', Some (length bs'), [])
               else v6_groups k bs' (Some (length bs')) (tl s'))
            else v6_groups k bs' ell s')"

definition parse_v6_groups :: "string \<Rightarrow> nat list option" where
  "parse_v6_groups s =
     (let lead = has_prefix s ''::''; s1 = (if lead then drop 2 s else s) in
      if lead \<and> s1 = [] then Some (replicate 16 0)
      else case v6_groups 8 [] (if lead then Some 0 else None) s1 of
          None \<Rightarrow> None
        | Some (bs, ell, rest) \<Rightarrow>
            if rest \<noteq> [] then None
            else if length bs < 16
              then (case ell of None \<Rightarrow> None
                | Some e \<Rightarrow> Some (take e bs @ replicate (16 - length bs) 0 @ drop e bs))
            else if ell \<noteq> None then None else Some bs)"

definition parseIPv6 :: "string \<Rightarrow> addr option" where
  "parseIPv6 s =
     (let (a, zone, has) = cut (CHR ''%'') s in
      if has \<and> zone = [] then None
      else map_option (\<lambda>bs. V6 (of_nat (octets_val bs)) zone) (parse_v6_groups a))"

fun find_sep :: "string \<Rightarrow> char option" where
  "find_sep [] = None"
| "find_sep (c # s) = (if c = CHR ''.'' \<or> c = CHR '':'' \<or> c = CHR ''%'' then Some c else find_sep s)"

definition ParseAddr :: "string \<Rightarrow> addr option" where
  "ParseAddr s =
     (if find_sep s = Some (CHR ''.'') then parseIPv4 s
      else if find_sep s = Some (CHR '':'') then parseIPv6 s else None)"

section \<open>Printing\<close>

definition quad_text :: "32 word \<Rightarrow> string" where
  "quad_text w = join ''.'' (map (\<lambda>i. show_nat (unat (drop_bit (8 * (3 - i)) w) mod 256)) [0..<4])"

definition hex_digit :: "nat \<Rightarrow> char" where
  "hex_digit n = char_of (if n < 10 then 48 + n else 87 + n)"

text \<open>\<^verbatim>\<open>appendHex\<close>: no leading zeros.\<close>

definition group_text :: "nat \<Rightarrow> string" where
  "group_text g =
     (if g \<ge> 4096 then [hex_digit (g div 4096 mod 16)] else []) @
     (if g \<ge> 256 then [hex_digit (g div 256 mod 16)] else []) @
     (if g \<ge> 16 then [hex_digit (g div 16 mod 16)] else []) @ [hex_digit (g mod 16)]"

definition v6_group :: "128 word \<Rightarrow> nat \<Rightarrow> nat" where
  "v6_group w i = unat (drop_bit (16 * (7 - i)) w) mod 65536"

definition zero_run :: "nat list \<Rightarrow> nat \<Rightarrow> nat" where
  "zero_run gs i = length (takeWhile (\<lambda>g. g = 0) (drop i gs))"

text \<open>The longest run of at least two zero groups, the first of them: where it starts and ends.\<close>

fun best_run :: "nat list \<Rightarrow> nat list \<Rightarrow> nat \<times> nat \<Rightarrow> nat \<times> nat" where
  "best_run gs [] best = best"
| "best_run gs (i # is) best =
     (let l = zero_run gs i in
      best_run gs is (if 2 \<le> l \<and> l > snd best - fst best then (i, i + l) else best))"

fun groups_text :: "nat \<Rightarrow> nat list \<Rightarrow> nat \<Rightarrow> nat \<Rightarrow> nat \<Rightarrow> string" where
  "groups_text 0 gs zs ze i = []"
| "groups_text (Suc k) gs zs ze i =
     (if i \<ge> 8 then []
      else if i = zs then ''::'' @ (if ze \<ge> 8 then [] else group_text (gs ! ze) @ groups_text k gs zs ze (ze + 1))
      else (if i > 0 then '':'' else []) @ group_text (gs ! i) @ groups_text k gs zs ze (i + 1))"

definition v6_text :: "128 word \<Rightarrow> string" where
  "v6_text w =
     (let gs = map (v6_group w) [0..<8]; (zs, ze) = best_run gs [0..<8] (255, 255)
      in groups_text 9 gs zs ze 0)"

fun addr_text :: "addr \<Rightarrow> string" where
  "addr_text AddrZero = []"
| "addr_text (V4 w) = quad_text w"
| "addr_text (V6 w z) =
     (if drop_bit 32 w = 0xffff then ''::ffff:'' @ quad_text (ucast w) else v6_text w) @
     (if z = [] then [] else ''%'' @ z)"

section \<open>Facts\<close>

definition addr_char :: "char \<Rightarrow> bool" where
  "addr_char c \<longleftrightarrow> hex_val c \<noteq> None \<or> c = CHR '':'' \<or> c = CHR ''.''"

lemma addr_char_sep [simp]: "addr_char CHR '':''" "addr_char CHR ''.''"
  by (simp_all add: addr_char_def)

lemma addr_char_digit: "is_digit c \<Longrightarrow> addr_char c"
  by (auto simp: addr_char_def hex_val_def is_digit_def Let_def)

lemma addr_char_show [simp]: "list_all addr_char (show_nat n)"
  using show_nat_digits [of n] addr_char_digit by (auto simp: list_all_iff)

lemma addr_char_hex [simp]: "n < 16 \<Longrightarrow> addr_char (hex_digit n)"
  by (auto simp: addr_char_def hex_digit_def hex_val_def byte_def Let_def)

lemma list_all_join: "list_all p sep \<Longrightarrow> \<forall>s \<in> set ss. list_all p s \<Longrightarrow> list_all p (join sep ss)"
  by (induction sep ss rule: join.induct) auto

lemma quad_text_chars [simp]: "list_all addr_char (quad_text w)"
  unfolding quad_text_def by (rule list_all_join) auto

lemma group_text_chars [simp]: "list_all addr_char (group_text g)"
  by (simp add: group_text_def)

lemma groups_text_chars: "list_all addr_char (groups_text k gs zs ze i)"
  by (induction k gs zs ze i rule: groups_text.induct) auto

lemma v6_text_chars [simp]: "list_all addr_char (v6_text w)"
  by (simp add: v6_text_def Let_def groups_text_chars split: prod.splits)

lemma addr_text_chars: "no_zone a = a \<Longrightarrow> list_all addr_char (addr_text a)"
  by (cases a) (auto simp: addr_char_def [of "CHR ''f''"] hex_val_def byte_def)

end
