(* ===== verification/Sdp_Body.thy ===== *)
theory Sdp_Body
  imports Sdp_Codec Sdp_Crypto Netip_Text
begin

text \<open>
  SDP bodies: \<^verbatim>\<open>ParseWithOptions\<close> and its helpers (\<^verbatim>\<open>src/internal/sip/sdp/sdp.go\<close>) on the
  description the third-party unmarshaller delivers (\<open>pion_sd\<close>; \<open>unmarshal\<close> is a parameter), and the
  writer of the bodies the proxy emits (\<^verbatim>\<open>build.go\<close>).
\<close>

section \<open>Input\<close>

text \<open>A connection line: absent, without an address, or with one.\<close>

type_synonym pion_conn = "string option option"

record pion_media =
  md_Media :: string
  md_Port :: int
  md_Protos :: "string list"
  md_Formats :: "string list"
  md_Conn :: pion_conn
  md_Attributes :: attributes

record pion_sd =
  sd_Conn :: pion_conn
  sd_Attributes :: attributes
  sd_Medias :: "pion_media list"

section \<open>Parsing\<close>

definition MaxSize :: nat where
  "MaxSize = 16384"

definition MaxMediaDescriptions :: nat where
  "MaxMediaDescriptions = 16"

definition MaxAttributes :: nat where
  "MaxAttributes = 256"

definition MaxCodecs :: nat where
  "MaxCodecs = 128"

datatype sdp_error =
    SdpEmpty | SdpTooLarge | SdpUnparsed | SdpNoAudio | SdpAudioDeclined | SdpNoAddress | SdpNotUnicast
  | SdpBadPayload | SdpNoCodecs

datatype direction = SendRecv | SendOnly | RecvOnly | Inactive

record fingerprint =
  Hash :: string
  FPValue :: string

record audio =
  au_Port :: int
  au_Proto :: "string list"
  au_Address :: addr
  Hold :: bool
  au_Codecs :: "codec list"
  au_Direction :: direction
  RTCPPort :: int
  au_RTCPMux :: bool
  au_ICEUfrag :: string
  au_ICEPwd :: string
  au_Fingerprint :: "fingerprint option"
  au_Setup :: string
  au_Crypto :: "crypto list"

record sdp_section =
  sec_Media :: string
  sec_Proto :: "string list"

record sdp_session =
  ss_Audio :: audio
  MediaCount :: nat
  AudioIndex :: nat
  Sections :: "sdp_section list"

definition knownProtos :: "string list" where
  "knownProtos =
     [''RTP/AVP'', ''RTP/AVPF'', ''RTP/SAVP'', ''RTP/SAVPF'', ''UDP/TLS/RTP/SAVP'', ''UDP/TLS/RTP/SAVPF'',
      ''TCP/TLS/RTP/SAVP'', ''TCP/TLS/RTP/SAVPF'', ''TCP/DTLS/RTP/SAVP'', ''TCP/DTLS/RTP/SAVPF'',
      ''UDP/DTLS/SCTP'', ''TCP/DTLS/SCTP'', ''DTLS/SCTP'', ''udptl'', ''TCP/MSRP'', ''TCP/TLS/MSRP'',
      ''UDP/BFCP'', ''TCP/BFCP'', ''TCP/TLS/BFCP'', ''TCP'', ''UDP'']"

definition section_of :: "unicode \<Rightarrow> pion_media \<Rightarrow> sdp_section" where
  "section_of u m =
     (let media0 = to_lower u (md_Media m);
          media = (if media0 = [] \<or> length media0 > 32 \<or> \<not> list_all is_lower media0 then ''audio'' else media0)
      in \<lparr>sec_Media = media,
          sec_Proto = (if join ''/'' (md_Protos m) \<in> set knownProtos then md_Protos m else [''RTP'', ''AVP''])\<rparr>)"

text \<open>The literal in the connection line: the address to send to and the hold flag.\<close>

definition parseConnection :: "pion_sd \<Rightarrow> pion_media \<Rightarrow> bool \<Rightarrow> sdp_error + (addr \<times> bool)" where
  "parseConnection sd md allow_loopback =
     (let conn = (case md_Conn md of None \<Rightarrow> sd_Conn sd | Some c \<Rightarrow> Some c) in
      case conn of
        None \<Rightarrow> Inl SdpNoAddress
      | Some None \<Rightarrow> Inl SdpNoAddress
      | Some (Some text) \<Rightarrow> (case ParseAddr (trim_space text) of
            None \<Rightarrow> Inl SdpNoAddress
          | Some ip0 \<Rightarrow>
              (let ip = unmap ip0 in
               if is_unspecified ip then Inr (AddrZero, True)
               else if is_multicast ip \<or> is_link_local_unicast ip \<or> ip = broadcast4 then Inl SdpNotUnicast
               else if is_loopback ip \<and> \<not> allow_loopback then Inl SdpNotUnicast
               else Inr (ip, False))))"

definition minICEUfrag :: nat where
  "minICEUfrag = 4"

definition minICEPwd :: nat where
  "minICEPwd = 22"

definition maxICEToken :: nat where
  "maxICEToken = 256"

definition ice_char :: "char \<Rightarrow> bool" where
  "ice_char c \<longleftrightarrow> is_lower c \<or> is_upper c \<or> is_digit c \<or> c = CHR ''+'' \<or> c = CHR ''/'' \<or> c = CHR ''-'' \<or> c = CHR ''_''"

definition sanitizeICEToken :: "string \<Rightarrow> nat \<Rightarrow> string" where
  "sanitizeICEToken v minLen =
     (if length v < minLen \<or> length v > maxICEToken then [] else if list_all ice_char v then v else [])"

definition is_hex :: "char \<Rightarrow> bool" where
  "is_hex c \<longleftrightarrow> is_digit c \<or> 97 \<le> byte c \<and> byte c \<le> 102 \<or> 65 \<le> byte c \<and> byte c \<le> 70"

definition fingerprint_len :: "string \<Rightarrow> nat option" where
  "fingerprint_len h =
     (if h = ''sha-256'' then Some 32 else if h = ''sha-384'' then Some 48 else if h = ''sha-512'' then Some 64 else None)"

definition parseFingerprint :: "unicode \<Rightarrow> string \<Rightarrow> fingerprint option" where
  "parseFingerprint u v =
     (let (hash0, val0, ok) = cut (CHR '' '') (trim_space v) in
      if \<not> ok then None
      else let hash = to_lower u (trim_space hash0) in
        case fingerprint_len hash of
          None \<Rightarrow> None
        | Some want \<Rightarrow>
            (let val = trim_space val0; parts = split_on (CHR '':'') val in
             if length parts \<noteq> want then None
             else if list_ex (\<lambda>p. length p \<noteq> 2 \<or> \<not> list_all is_hex p) parts then None
             else Some \<lparr>Hash = hash, FPValue = map upper_ascii val\<rparr>))"

definition rtcp_port :: "string \<Rightarrow> int option" where
  "rtcp_port v = (case str_fields v of [] \<Rightarrow> None
     | f # _ \<Rightarrow> (case atoi f of None \<Rightarrow> None | Some p \<Rightarrow> if 0 < p \<and> p < 65536 then Some p else None))"

definition apply_attr :: "unicode \<Rightarrow> string \<times> string \<Rightarrow> audio \<Rightarrow> audio" where
  "apply_attr u at a =
     (let key = fst at; v = trim_space (snd at) in
      if key = ''sendrecv'' then a\<lparr>au_Direction := SendRecv\<rparr>
      else if key = ''sendonly'' then a\<lparr>au_Direction := SendOnly\<rparr>
      else if key = ''recvonly'' then a\<lparr>au_Direction := RecvOnly\<rparr>
      else if key = ''inactive'' then a\<lparr>au_Direction := Inactive\<rparr>
      else if key = ''ice-ufrag'' then a\<lparr>au_ICEUfrag := sanitizeICEToken v minICEUfrag\<rparr>
      else if key = ''ice-pwd'' then a\<lparr>au_ICEPwd := sanitizeICEToken v minICEPwd\<rparr>
      else if key = ''rtcp-mux'' then a\<lparr>au_RTCPMux := True\<rparr>
      else if key = ''setup'' then
        (if v \<in> {''active'', ''passive'', ''actpass'', ''holdconn''} then a\<lparr>au_Setup := v\<rparr> else a)
      else if key = ''fingerprint'' then
        (case parseFingerprint u v of Some fp \<Rightarrow> a\<lparr>au_Fingerprint := Some fp\<rparr> | None \<Rightarrow> a)
      else if key = ''rtcp'' then (case rtcp_port v of Some p \<Rightarrow> a\<lparr>RTCPPort := p\<rparr> | None \<Rightarrow> a)
      else a)"

definition parseAttributes :: "unicode \<Rightarrow> attributes \<Rightarrow> attributes \<Rightarrow> audio \<Rightarrow> audio" where
  "parseAttributes u sd_attrs md_attrs a = fold (apply_attr u) md_attrs (fold (apply_attr u) sd_attrs a)"

text \<open>The walk over the sections: the first live audio section, and whether one was declined.\<close>

fun pick_audio :: "nat \<Rightarrow> pion_media list \<Rightarrow> (nat \<times> pion_media) option \<times> bool" where
  "pick_audio i [] = (None, False)"
| "pick_audio i (m # ms) =
     (if md_Media m = ''audio'' then
        (if md_Port m = 0 then (let (r, d) = pick_audio (i + 1) ms in (r, r = None \<or> d)) else (Some (i, m), False))
      else pick_audio (i + 1) ms)"

definition ParseWithOptions :: "unicode \<Rightarrow> (string \<Rightarrow> pion_sd option) \<Rightarrow> string \<Rightarrow> bool \<Rightarrow> sdp_error + sdp_session" where
  "ParseWithOptions u unmarshal body allow_loopback =
     (if body = [] then Inl SdpEmpty
      else if length body > MaxSize then Inl SdpTooLarge
      else case unmarshal body of
        None \<Rightarrow> Inl SdpUnparsed
      | Some sd \<Rightarrow>
         if length (sd_Medias sd) > MaxMediaDescriptions then Inl SdpTooLarge
         else if length (sd_Attributes sd) > MaxAttributes then Inl SdpTooLarge
         else if list_ex (\<lambda>m. length (md_Attributes m) > MaxAttributes) (sd_Medias sd) then Inl SdpTooLarge
         else (case pick_audio 0 (sd_Medias sd) of
             (None, declined) \<Rightarrow> Inl (if declined then SdpAudioDeclined else SdpNoAudio)
           | (Some (i, md), _) \<Rightarrow>
               if length (md_Formats md) > MaxCodecs then Inl SdpTooLarge
               else (case parseConnection sd md allow_loopback of
                   Inl e \<Rightarrow> Inl e
                 | Inr (ip, hold) \<Rightarrow>
                     (let a = parseAttributes u (sd_Attributes sd) (md_Attributes md)
                            \<lparr>au_Port = md_Port md, au_Proto = md_Protos md, au_Address = ip, Hold = hold, au_Codecs = [],
                             au_Direction = SendRecv, RTCPPort = 0, au_RTCPMux = False, au_ICEUfrag = [], au_ICEPwd = [],
                             au_Fingerprint = None, au_Setup = [], au_Crypto = []\<rparr>;
                          a1 = a\<lparr>au_Crypto := parseCryptoAttrs (map snd (filter (\<lambda>at. fst at = ''crypto'') (md_Attributes md)))\<rparr>
                      in case parseCodecs u (md_Attributes md) (md_Formats md) of
                          None \<Rightarrow> Inl SdpBadPayload
                        | Some [] \<Rightarrow> Inl SdpNoCodecs
                        | Some cs \<Rightarrow> Inr \<lparr>ss_Audio = a1\<lparr>au_Codecs := cs\<rparr>, MediaCount = length (sd_Medias sd),
                                          AudioIndex = i, Sections = map (section_of u) (sd_Medias sd)\<rparr>))))"

definition WebRTC :: "audio \<Rightarrow> bool" where
  "WebRTC a \<longleftrightarrow> ''TLS'' \<in> set (au_Proto a) \<and> au_Fingerprint a \<noteq> None \<and> au_ICEUfrag a \<noteq> [] \<and> au_ICEPwd a \<noteq> []"

section \<open>Building\<close>

record build =
  Address :: addr
  b_Port :: int
  b_Codecs :: "codec list"
  b_Direction :: "direction option"
  SessionID :: "64 word"
  SessionVersion :: "64 word"
  DTLS :: bool
  b_RTCPMux :: bool
  b_ICEUfrag :: string
  b_ICEPwd :: string
  b_Fingerprint :: "fingerprint option"
  b_Setup :: string
  b_Crypto :: "crypto list"

datatype build_error =
    BuildNoAddress | BuildBadPort | BuildNoCodecs | BuildDTLSIncomplete | BuildSDESAndDTLS | BuildTooManyCrypto
  | BuildCrypto crypto_error

definition crlf :: string where
  "crlf = [char_of (13 :: nat), char_of (10 :: nat)]"

definition AddrType :: "addr \<Rightarrow> string" where
  "AddrType ip = (if addr_is6 ip then ''IP6'' else ''IP4'')"

definition dir_text :: "direction \<Rightarrow> string" where
  "dir_text d = (case d of SendRecv \<Rightarrow> ''sendrecv'' | SendOnly \<Rightarrow> ''sendonly'' | RecvOnly \<Rightarrow> ''recvonly'' | Inactive \<Rightarrow> ''inactive'')"

definition iceLitePriority :: nat where
  "iceLitePriority = 126 * 2 ^ 24 + 65535 * 2 ^ 8 + (256 - 1)"

definition build_proto :: "build \<Rightarrow> string" where
  "build_proto b = (if DTLS b then ''UDP/TLS/RTP/SAVPF'' else if b_Crypto b \<noteq> [] then ''RTP/SAVP'' else ''RTP/AVP'')"

definition placeholderFormat :: "string list \<Rightarrow> string" where
  "placeholderFormat proto = (let p = join ''/'' proto in
     if p = ''UDP/DTLS/SCTP'' \<or> p = ''TCP/DTLS/SCTP'' then ''webrtc-datachannel''
     else if p = ''DTLS/SCTP'' then ''5000'' else if p = ''udptl'' then ''t38''
     else if p \<in> {''TCP/MSRP'', ''TCP/TLS/MSRP'', ''UDP/BFCP'', ''TCP/BFCP'', ''TCP/TLS/BFCP'', ''TCP'', ''UDP''} then ''*''
     else ''0'')"

definition appendDeclined :: "string \<Rightarrow> sdp_section \<Rightarrow> string" where
  "appendDeclined buf sec =
     buf @ ''m='' @ sec_Media sec @ '' 0 '' @ join ''/'' (sec_Proto sec) @ '' '' @ placeholderFormat (sec_Proto sec) @ crlf"

definition appendAttr :: "string \<Rightarrow> string \<Rightarrow> string \<Rightarrow> string" where
  "appendAttr buf key value = buf @ ''a='' @ key @ (if value \<noteq> [] then '':'' @ value else []) @ crlf"

definition codec_lines :: "unicode \<Rightarrow> codec \<Rightarrow> string" where
  "codec_lines u c =
     ''a=rtpmap:'' @ show_nat (unat (PayloadType c)) @ '' '' @ cd_Name c @ ''/'' @ show_nat (unat (ClockRate c)) @
     (if Channels c > 1 then ''/'' @ show_int (Channels c) else []) @ crlf @
     (let f = canonicalFMTP u (cd_Name c) (FMTP c) in
      if f \<noteq> [] then ''a=fmtp:'' @ show_nat (unat (PayloadType c)) @ '' '' @ f @ crlf else [])"

definition dtls_lines :: "build \<Rightarrow> fingerprint \<Rightarrow> string" where
  "dtls_lines b fp =
     appendAttr (appendAttr (''a=ice-lite'' @ crlf) ''ice-ufrag'' (b_ICEUfrag b)) ''ice-pwd'' (b_ICEPwd b) @
     ''a=candidate:1 1 UDP '' @ show_nat iceLitePriority @ '' '' @ addr_text (Address b) @ '' '' @ show_int (b_Port b) @
     '' typ host'' @ crlf @ ''a=end-of-candidates'' @ crlf @ ''a=fingerprint:'' @ Hash fp @ '' '' @ FPValue fp @ crlf @
     appendAttr [] ''setup'' (b_Setup b)"

definition appendAudio :: "unicode \<Rightarrow> build \<Rightarrow> string \<Rightarrow> string \<Rightarrow> string" where
  "appendAudio u b buf dir =
     buf @ ''m=audio '' @ show_int (b_Port b) @ '' '' @ build_proto b @ '' '' @
     join '' '' (map (\<lambda>c. show_nat (unat (PayloadType c))) (b_Codecs b)) @ crlf @
     (case b_Fingerprint b of Some fp \<Rightarrow> if DTLS b then dtls_lines b fp else [] | None \<Rightarrow> []) @
     concat (map (codec_lines u) (b_Codecs b)) @
     concat (map (\<lambda>c. ''a=crypto:'' @ crypto_Value c @ crlf) (b_Crypto b)) @
     appendAttr [] dir [] @ (if b_RTCPMux b then ''a=rtcp-mux'' @ crlf else [])"

definition build_header :: "build \<Rightarrow> string" where
  "build_header b =
     ''v=0'' @ crlf @ ''o=FreeSBC '' @ show_nat (unat (SessionID b)) @ '' '' @ show_nat (unat (SessionVersion b)) @ '' IN '' @
     AddrType (Address b) @ '' '' @ addr_text (Address b) @ crlf @ ''s=FreeSBC'' @ crlf @ ''c=IN '' @
     AddrType (Address b) @ '' '' @ addr_text (Address b) @ crlf @ ''t=0 0'' @ crlf"

text \<open>The checks of \<^verbatim>\<open>marshal\<close>, in order.\<close>

definition build_check :: "build \<Rightarrow> build_error option" where
  "build_check b =
     (if \<not> addr_valid (Address b) then Some BuildNoAddress
      else if b_Port b \<le> 0 \<or> b_Port b > 65535 then Some BuildBadPort
      else if b_Codecs b = [] then Some BuildNoCodecs
      else if DTLS b \<and> (b_Fingerprint b = None \<or> b_ICEUfrag b = [] \<or> b_ICEPwd b = []) then Some BuildDTLSIncomplete
      else if b_Crypto b \<noteq> [] then
        (if DTLS b then Some BuildSDESAndDTLS
         else if length (b_Crypto b) > MaxCrypto then Some BuildTooManyCrypto
         else (case find (\<lambda>c. crypto_Validate c \<noteq> None) (b_Crypto b) of
             Some c \<Rightarrow> Some (BuildCrypto (the (crypto_Validate c))) | None \<Rightarrow> None))
      else None)"

fun append_sections :: "unicode \<Rightarrow> build \<Rightarrow> string \<Rightarrow> nat \<Rightarrow> nat \<Rightarrow> sdp_section list \<Rightarrow> string \<Rightarrow> string" where
  "append_sections u b dir at i [] buf = buf"
| "append_sections u b dir at i (sec # secs) buf =
     append_sections u b dir at (i + 1) secs
       (if i = at then appendAudio u b buf dir else appendDeclined buf sec)"

definition marshal :: "unicode \<Rightarrow> build \<Rightarrow> (nat \<times> sdp_section list) option \<Rightarrow> build_error + string" where
  "marshal u b offer = (case build_check b of
       Some e \<Rightarrow> Inl e
     | None \<Rightarrow>
        (let dir = dir_text (case b_Direction b of None \<Rightarrow> SendRecv | Some d \<Rightarrow> d); buf = build_header b in
         case offer of
           None \<Rightarrow> Inr (appendAudio u b buf dir)
         | Some (at, secs) \<Rightarrow> Inr (append_sections u b dir at 0 secs buf)))"

definition MarshalDeclining :: "unicode \<Rightarrow> build \<Rightarrow> sdp_session option \<Rightarrow> build_error + string" where
  "MarshalDeclining u b offer = (case offer of
       None \<Rightarrow> marshal u b None
     | Some s \<Rightarrow>
        (let (at, secs) = (if Sections s = [] \<and> MediaCount s > 1
               then (0, replicate (MediaCount s) \<lparr>sec_Media = ''audio'', sec_Proto = [''RTP'', ''AVP'']\<rparr>)
               else (AudioIndex s, Sections s)) in
         if length secs \<le> 1 \<or> at \<ge> length secs then marshal u b None else marshal u b (Some (at, secs))))"

end
