(* ===== verification/Sdp_Body_Props.thy ===== *)
theory Sdp_Body_Props
  imports Sdp_Body
begin

text \<open>
  What the SDP code guarantees end to end: the lines of an emitted body are exactly the intended
  ones, none of them carries a line break, and its sections answer the offer's one by one
  (\<open>hostile_sdp_cannot_inject\<close>); what the parser accepts is well formed (\<open>parsed_session_wellformed\<close>).
\<close>

section \<open>The lines of a body\<close>

definition render :: "string list \<Rightarrow> string" where
  "render ls = concat (map (\<lambda>l. l @ crlf) ls)"

lemma render_simps [simp]:
  "render [] = []" "render (l # ls) = l @ crlf @ render ls" "render (xs @ ys) = render xs @ render ys"
  by (simp_all add: render_def)

definition attr_line :: "string \<Rightarrow> string \<Rightarrow> string" where
  "attr_line key value = ''a='' @ key @ (if value \<noteq> [] then '':'' @ value else [])"

definition codec_line_list :: "unicode \<Rightarrow> codec \<Rightarrow> string list" where
  "codec_line_list u c =
     [''a=rtpmap:'' @ show_nat (unat (PayloadType c)) @ '' '' @ cd_Name c @ ''/'' @ show_nat (unat (ClockRate c)) @
       (if Channels c > 1 then ''/'' @ show_int (Channels c) else [])] @
     (let f = canonicalFMTP u (cd_Name c) (FMTP c) in
      if f \<noteq> [] then [''a=fmtp:'' @ show_nat (unat (PayloadType c)) @ '' '' @ f] else [])"

definition dtls_line_list :: "build \<Rightarrow> fingerprint \<Rightarrow> string list" where
  "dtls_line_list b fp =
     [''a=ice-lite'', attr_line ''ice-ufrag'' (b_ICEUfrag b), attr_line ''ice-pwd'' (b_ICEPwd b),
      ''a=candidate:1 1 UDP '' @ show_nat iceLitePriority @ '' '' @ addr_text (Address b) @ '' '' @ show_int (b_Port b) @ '' typ host'',
      ''a=end-of-candidates'', ''a=fingerprint:'' @ Hash fp @ '' '' @ FPValue fp, attr_line ''setup'' (b_Setup b)]"

definition m_line :: "build \<Rightarrow> string" where
  "m_line b = ''m=audio '' @ show_int (b_Port b) @ '' '' @ build_proto b @ '' '' @
     join '' '' (map (\<lambda>c. show_nat (unat (PayloadType c))) (b_Codecs b))"

definition audio_attrs :: "unicode \<Rightarrow> build \<Rightarrow> string \<Rightarrow> string list" where
  "audio_attrs u b dir =
     (case b_Fingerprint b of Some fp \<Rightarrow> if DTLS b then dtls_line_list b fp else [] | None \<Rightarrow> []) @
     concat (map (codec_line_list u) (b_Codecs b)) @ map (\<lambda>c. ''a=crypto:'' @ crypto_Value c) (b_Crypto b) @
     [attr_line dir []] @ (if b_RTCPMux b then [''a=rtcp-mux''] else [])"

definition declined_line :: "sdp_section \<Rightarrow> string" where
  "declined_line sec = ''m='' @ sec_Media sec @ '' 0 '' @ join ''/'' (sec_Proto sec) @ '' '' @ placeholderFormat (sec_Proto sec)"

definition header_lines :: "build \<Rightarrow> string list" where
  "header_lines b =
     [''v=0'', ''o=FreeSBC '' @ show_nat (unat (SessionID b)) @ '' '' @ show_nat (unat (SessionVersion b)) @ '' IN '' @
       AddrType (Address b) @ '' '' @ addr_text (Address b), ''s=FreeSBC'',
      ''c=IN '' @ AddrType (Address b) @ '' '' @ addr_text (Address b), ''t=0 0'']"

definition section_lines :: "unicode \<Rightarrow> build \<Rightarrow> string \<Rightarrow> nat \<Rightarrow> nat \<Rightarrow> sdp_section \<Rightarrow> string list" where
  "section_lines u b dir at i sec = (if i = at then m_line b # audio_attrs u b dir else [declined_line sec])"

lemma appendAttr_render: "appendAttr buf key value = buf @ render [attr_line key value]"
  by (simp add: appendAttr_def attr_line_def)

lemma codec_lines_render: "codec_lines u c = render (codec_line_list u c)"
  by (simp add: codec_lines_def codec_line_list_def Let_def)

lemma dtls_lines_render: "dtls_lines b fp = render (dtls_line_list b fp)"
  by (simp add: dtls_lines_def dtls_line_list_def appendAttr_render)

lemma codecs_render: "concat (map (codec_lines u) cs) = render (concat (map (codec_line_list u) cs))"
  by (induction cs) (simp_all add: codec_lines_render)

lemma render_map: "concat (map (\<lambda>c. f c @ crlf) xs) = render (map f xs)"
  by (induction xs) simp_all

lemma appendAudio_render: "appendAudio u b buf dir = buf @ render (m_line b # audio_attrs u b dir)"
  by (simp add: appendAudio_def m_line_def audio_attrs_def appendAttr_render codecs_render dtls_lines_render
      render_map [of "\<lambda>c. ''a=crypto:'' @ crypto_Value c", simplified] split: option.splits)

lemma appendDeclined_render: "appendDeclined buf sec = buf @ render [declined_line sec]"
  by (simp add: appendDeclined_def declined_line_def)

lemma header_render: "build_header b = render (header_lines b)"
  by (simp add: build_header_def header_lines_def)

fun all_section_lines :: "unicode \<Rightarrow> build \<Rightarrow> string \<Rightarrow> nat \<Rightarrow> nat \<Rightarrow> sdp_section list \<Rightarrow> string list" where
  "all_section_lines u b dir at i [] = []"
| "all_section_lines u b dir at i (sec # secs) = section_lines u b dir at i sec @ all_section_lines u b dir at (i + 1) secs"

lemma append_sections_render:
  "append_sections u b dir at i secs buf = buf @ render (all_section_lines u b dir at i secs)"
  by (induction u b dir at i secs buf rule: append_sections.induct)
    (simp_all add: section_lines_def appendAudio_render appendDeclined_render)

section \<open>No line breaks\<close>

definition no_break :: "string \<Rightarrow> bool" where
  "no_break s = list_all (\<lambda>c. byte c \<noteq> 13 \<and> byte c \<noteq> 10) s"

lemma no_break_append [simp]: "no_break (a @ b) \<longleftrightarrow> no_break a \<and> no_break b"
  by (simp add: no_break_def)

lemma no_break_Cons [simp]: "no_break (c # s) \<longleftrightarrow> byte c \<noteq> 13 \<and> byte c \<noteq> 10 \<and> no_break s"
  by (simp add: no_break_def)

lemma no_break_Nil [simp]: "no_break []"
  by (simp add: no_break_def)

lemma no_break_all: "list_all p s \<Longrightarrow> (\<And>c. p c \<Longrightarrow> byte c \<noteq> 13 \<and> byte c \<noteq> 10) \<Longrightarrow> no_break s"
  by (auto simp: no_break_def list_all_iff)

lemma no_break_join: "no_break sep \<Longrightarrow> \<forall>s \<in> set ss. no_break s \<Longrightarrow> no_break (join sep ss)"
  unfolding no_break_def by (rule list_all_join)

lemma no_break_show [simp]: "no_break (show_nat n)"
  by (rule no_break_all [OF show_nat_digits]) (auto simp: is_digit_def)

lemma no_break_show_int [simp]: "no_break (show_int i)"
  by (simp add: show_int_def byte_def)

lemma no_break_addr [simp]: "no_zone a = a \<Longrightarrow> no_break (addr_text a)"
  by (rule no_break_all [OF addr_text_chars]) (auto simp: addr_char_def hex_val_def byte_def Let_def split: if_splits)

lemma no_break_name: "validEncodingName n \<Longrightarrow> no_break n"
  by (auto simp: validEncodingName_def name_char_def is_lower_def is_upper_def is_digit_def no_break_def list_all_iff byte_def
      split: if_splits)

lemma no_break_fmtp [simp]: "no_break (canonicalFMTP u name raw)"
  by (rule no_break_all [OF fmtp_clean_lemma])
    (auto simp: fmtp_char_def value_char_def is_lower_def is_digit_def byte_def)

lemma no_break_b64 [simp]: "no_break (b64_encode bs)"
  by (rule no_break_all [OF b64_encode_alphabet]) (auto dest: alphabet_bytes)

lemma no_break_plain: "plain_word s \<Longrightarrow> no_break s"
  by (auto simp: plain_word_def no_break_def list_all_iff is_ascii_space_def)

lemma no_break_crypto: "crypto_Validate c = None \<Longrightarrow> no_break (crypto_Value c)"
  using plain_suite [of "cr_Suite c"] no_break_plain
  by (auto simp: crypto_Value_def crypto_Validate_def byte_def split: option.splits)

lemma no_break_codec: "validEncodingName (cd_Name c) \<Longrightarrow> l \<in> set (codec_line_list u c) \<Longrightarrow> no_break l \<and> has_prefix l ''a=''"
  by (auto simp: codec_line_list_def Let_def no_break_name byte_def split: if_splits)

text \<open>The fields of a \<^verbatim>\<open>Build\<close> that are the proxy's own or come out of the parser's checks.\<close>

definition own_fields_clean :: "build \<Rightarrow> bool" where
  "own_fields_clean b \<longleftrightarrow> no_zone (Address b) = Address b \<and> list_all ice_char (b_ICEUfrag b) \<and> list_all ice_char (b_ICEPwd b) \<and>
     list_all is_lower (b_Setup b) \<and>
     (case b_Fingerprint b of None \<Rightarrow> True | Some fp \<Rightarrow> plain_word (Hash fp) \<and> plain_word (FPValue fp))"

lemma no_break_ice: "list_all ice_char s \<Longrightarrow> no_break s"
  by (auto simp: no_break_def list_all_iff ice_char_def is_lower_def is_upper_def is_digit_def byte_def)

lemma no_break_lower: "list_all is_lower s \<Longrightarrow> no_break s"
  by (auto simp: no_break_def list_all_iff is_lower_def)

lemma no_break_attr: "no_break key \<Longrightarrow> no_break value \<Longrightarrow> no_break (attr_line key value) \<and> has_prefix (attr_line key value) ''a=''"
  by (simp add: attr_line_def byte_def)

lemma no_break_dtls:
  assumes "own_fields_clean b" "b_Fingerprint b = Some fp" "l \<in> set (dtls_line_list b fp)"
  shows "no_break l \<and> has_prefix l ''a=''"
  using assms no_break_ice [of "b_ICEUfrag b"] no_break_ice [of "b_ICEPwd b"] no_break_lower [of "b_Setup b"]
    no_break_plain [of "Hash fp"] no_break_plain [of "FPValue fp"]
  by (auto simp: dtls_line_list_def own_fields_clean_def attr_line_def byte_def)

lemma no_break_dir: "no_break (dir_text d)"
  by (cases d) (simp_all add: dir_text_def byte_def)

lemma audio_attrs_clean:
  assumes "own_fields_clean b" "\<forall>c \<in> set (b_Codecs b). validEncodingName (cd_Name c)"
    "\<forall>c \<in> set (b_Crypto b). crypto_Validate c = None" "l \<in> set (audio_attrs u b (dir_text d))"
  shows "no_break l \<and> has_prefix l ''a=''"
proof -
  consider (dtls) fp where "b_Fingerprint b = Some fp" "l \<in> set (dtls_line_list b fp)"
    | (codec) c where "c \<in> set (b_Codecs b)" "l \<in> set (codec_line_list u c)"
    | (crypto) c where "c \<in> set (b_Crypto b)" "l = ''a=crypto:'' @ crypto_Value c"
    | (dir) "l = attr_line (dir_text d) []" | (mux) "l = ''a=rtcp-mux''"
    using assms(4) by (cases "b_Fingerprint b") (auto simp: audio_attrs_def split: if_splits)
  then show ?thesis
  proof cases
    case dtls
    then show ?thesis using no_break_dtls assms(1) by blast
  next
    case codec
    then show ?thesis using no_break_codec assms(2) by blast
  next
    case crypto
    then show ?thesis using no_break_crypto assms(3) by (simp add: byte_def)
  next
    case dir
    then show ?thesis using no_break_attr [OF no_break_dir no_break_Nil] by blast
  next
    case mux
    then show ?thesis by (simp add: byte_def)
  qed
qed

lemma no_break_proto: "no_break (build_proto b)"
  by (simp add: build_proto_def byte_def)

lemma m_line_clean: "no_break (m_line b) \<and> has_prefix (m_line b) ''m=''"
  using no_break_proto [of b] by (simp add: m_line_def byte_def no_break_join)

definition section_clean :: "sdp_section \<Rightarrow> bool" where
  "section_clean sec \<longleftrightarrow> list_all is_lower (sec_Media sec) \<and> join ''/'' (sec_Proto sec) \<in> set knownProtos"

lemma section_of_clean: "section_clean (section_of u m)"
  by (auto simp: section_clean_def section_of_def Let_def knownProtos_def is_lower_def byte_def)

lemma known_no_break: "p \<in> set knownProtos \<Longrightarrow> no_break p"
  by (auto simp: knownProtos_def byte_def)

lemma declined_line_clean: "section_clean sec \<Longrightarrow> no_break (declined_line sec) \<and> has_prefix (declined_line sec) ''m=''"
  using no_break_lower [of "sec_Media sec"] known_no_break [of "join ''/'' (sec_Proto sec)"]
  by (simp add: declined_line_def section_clean_def placeholderFormat_def Let_def byte_def)

lemma header_clean:
  assumes "own_fields_clean b" "l \<in> set (header_lines b)"
  shows "no_break l \<and> \<not> has_prefix l ''m=''"
  using assms by (auto simp: header_lines_def own_fields_clean_def AddrType_def byte_def)

section \<open>What the parser accepts\<close>

lemma pick_audio_ok:
  "pick_audio i ms = (Some (k, m), d) \<Longrightarrow> i \<le> k \<and> k < i + length ms \<and> ms ! (k - i) = m \<and> md_Media m = ''audio'' \<and> md_Port m \<noteq> 0"
proof (induction i ms arbitrary: d rule: pick_audio.induct)
  case (2 i m' ms)
  show ?case
  proof (cases "md_Media m' = ''audio'' \<and> md_Port m' \<noteq> 0")
    case True
    then show ?thesis using 2(3) by auto
  next
    case False
    then have "\<exists>d. pick_audio (i + 1) ms = (Some (k, m), d)"
      using 2(3) by (auto simp: Let_def split: if_splits prod.splits)
    then have "i + 1 \<le> k \<and> k < i + 1 + length ms \<and> ms ! (k - (i + 1)) = m \<and> md_Media m = ''audio'' \<and> md_Port m \<noteq> 0"
      using 2 False by (auto split: if_splits)
    then show ?thesis by (auto simp: nth_Cons')
  qed
qed simp

definition attrs_ok :: "audio \<Rightarrow> bool" where
  "attrs_ok a \<longleftrightarrow> list_all ice_char (au_ICEUfrag a) \<and> list_all ice_char (au_ICEPwd a) \<and> list_all is_lower (au_Setup a) \<and>
     0 \<le> RTCPPort a \<and> RTCPPort a < 65536 \<and>
     (case au_Fingerprint a of None \<Rightarrow> True | Some fp \<Rightarrow> plain_word (Hash fp) \<and> plain_word (FPValue fp))"

lemma hex_plain:
  assumes "\<not> list_ex (\<lambda>p. length p \<noteq> 2 \<or> \<not> list_all is_hex p) (split_on (CHR '':'') val)"
  shows "plain_word (map upper_ascii val)"
proof -
  have "list_all is_hex p" if "p \<in> set (split_on (CHR '':'') val)" for p
    using assms that by (auto simp: list_ex_iff)
  then have "list_all (\<lambda>c. is_hex c \<or> c = CHR '':'') (join '':'' (split_on (CHR '':'') val))"
    by (intro list_all_join) (auto simp: list_all_iff)
  then have "list_all (\<lambda>c. is_hex c \<or> c = CHR '':'') val" by (simp add: join_split)
  then show ?thesis
    by (auto simp: plain_word_def list_all_iff is_hex_def is_digit_def upper_ascii_def is_lower_def is_ascii_space_def byte_def)
qed

lemma parseFingerprint_ok: "parseFingerprint u v = Some fp \<Longrightarrow> plain_word (Hash fp) \<and> plain_word (FPValue fp)"
  using hex_plain
  by (auto simp: parseFingerprint_def Let_def fingerprint_len_def plain_word_def is_ascii_space_def byte_def
      split: prod.splits if_splits option.splits)

lemma sanitize_ok: "list_all ice_char (sanitizeICEToken v n)"
  by (simp add: sanitizeICEToken_def)

lemma attrs_ok_updates:
  "attrs_ok a \<Longrightarrow> attrs_ok (a\<lparr>au_Direction := dn\<rparr>)"
  "attrs_ok a \<Longrightarrow> attrs_ok (a\<lparr>au_RTCPMux := True\<rparr>)"
  "attrs_ok a \<Longrightarrow> list_all ice_char t \<Longrightarrow> attrs_ok (a\<lparr>au_ICEUfrag := t\<rparr>)"
  "attrs_ok a \<Longrightarrow> list_all ice_char t \<Longrightarrow> attrs_ok (a\<lparr>au_ICEPwd := t\<rparr>)"
  "attrs_ok a \<Longrightarrow> list_all is_lower t \<Longrightarrow> attrs_ok (a\<lparr>au_Setup := t\<rparr>)"
  "attrs_ok a \<Longrightarrow> 0 < p \<Longrightarrow> p < 65536 \<Longrightarrow> attrs_ok (a\<lparr>RTCPPort := p\<rparr>)"
  "attrs_ok a \<Longrightarrow> plain_word (Hash fp) \<and> plain_word (FPValue fp) \<Longrightarrow> attrs_ok (a\<lparr>au_Fingerprint := Some fp\<rparr>)"
  by (simp_all add: attrs_ok_def)

lemma rtcp_port_ok: "rtcp_port v = Some p \<Longrightarrow> 0 < p \<and> p < 65536"
  by (auto simp: rtcp_port_def split: list.splits option.splits if_splits)

lemma setup_ok: "v \<in> {''active'', ''passive'', ''actpass'', ''holdconn''} \<Longrightarrow> list_all is_lower v"
  by (auto simp: is_lower_def byte_def)

lemma attrs_ok_if: "attrs_ok x \<Longrightarrow> attrs_ok y \<Longrightarrow> attrs_ok (if c then x else y)"
  by simp

lemma attrs_ok_setup:
  "attrs_ok a \<Longrightarrow> attrs_ok (if v \<in> {''active'', ''passive'', ''actpass'', ''holdconn''} then a\<lparr>au_Setup := v\<rparr> else a)"
  using attrs_ok_updates(5) [of a v] setup_ok [of v] by (cases "v \<in> {''active'', ''passive'', ''actpass'', ''holdconn''}") auto

lemma attrs_ok_fp:
  "attrs_ok a \<Longrightarrow> attrs_ok (case parseFingerprint u v of None \<Rightarrow> a | Some fp \<Rightarrow> a\<lparr>au_Fingerprint := Some fp\<rparr>)"
  using attrs_ok_updates(7) [of a] parseFingerprint_ok [of u v] by (cases "parseFingerprint u v") auto

lemma attrs_ok_rtcp:
  "attrs_ok a \<Longrightarrow> attrs_ok (case rtcp_port v of None \<Rightarrow> a | Some p \<Rightarrow> a\<lparr>RTCPPort := p\<rparr>)"
  using attrs_ok_updates(6) [of a] rtcp_port_ok [of v] by (cases "rtcp_port v") auto

lemma apply_attr_ok: "attrs_ok a \<Longrightarrow> attrs_ok (apply_attr u at a)"
  unfolding apply_attr_def Let_def
  by (rule attrs_ok_if attrs_ok_updates attrs_ok_setup attrs_ok_fp attrs_ok_rtcp sanitize_ok | assumption)+

definition same_core :: "audio \<Rightarrow> audio \<Rightarrow> bool" where
  "same_core a b \<longleftrightarrow> au_Address b = au_Address a \<and> Hold b = Hold a \<and> au_Port b = au_Port a"

lemma same_core_intros:
  "same_core a a" "same_core a (a\<lparr>au_Direction := dn\<rparr>)" "same_core a (a\<lparr>au_ICEUfrag := t\<rparr>)" "same_core a (a\<lparr>au_ICEPwd := t\<rparr>)"
  "same_core a (a\<lparr>au_RTCPMux := m\<rparr>)" "same_core a (a\<lparr>au_Setup := t\<rparr>)" "same_core a (a\<lparr>au_Fingerprint := fp\<rparr>)"
  "same_core a (a\<lparr>RTCPPort := p\<rparr>)"
  by (simp_all add: same_core_def)

lemma same_core_if: "same_core a x \<Longrightarrow> same_core a y \<Longrightarrow> same_core a (if c then x else y)"
  by simp

lemma same_core_option: "same_core a x \<Longrightarrow> (\<And>y. same_core a (g y)) \<Longrightarrow> same_core a (case z of None \<Rightarrow> x | Some y \<Rightarrow> g y)"
  by (cases z) simp_all

lemma apply_attr_core: "same_core a (apply_attr u at a)"
  unfolding apply_attr_def Let_def by (rule same_core_intros same_core_if same_core_option)+

lemma apply_attr_keeps:
  "au_Address (apply_attr u at a) = au_Address a" "Hold (apply_attr u at a) = Hold a" "au_Port (apply_attr u at a) = au_Port a"
  using apply_attr_core [of a u at] by (simp_all add: same_core_def)

lemma parseAttributes_ok:
  "attrs_ok a \<Longrightarrow> attrs_ok (parseAttributes u xs ys a) \<and> au_Address (parseAttributes u xs ys a) = au_Address a \<and>
    Hold (parseAttributes u xs ys a) = Hold a \<and> au_Port (parseAttributes u xs ys a) = au_Port a"
proof -
  have "attrs_ok a \<Longrightarrow> attrs_ok (fold (apply_attr u) zs a) \<and> au_Address (fold (apply_attr u) zs a) = au_Address a \<and>
    Hold (fold (apply_attr u) zs a) = Hold a \<and> au_Port (fold (apply_attr u) zs a) = au_Port a" for zs a
    by (induction zs arbitrary: a) (auto simp: apply_attr_ok apply_attr_keeps)
  then show "attrs_ok a \<Longrightarrow> ?thesis" by (simp add: parseAttributes_def)
qed

lemma parse_shape:
  assumes "ParseWithOptions u unmarshal body allow = Inr s"
  obtains sd i md d ip hold a cs where "unmarshal body = Some sd" "length body \<le> MaxSize"
    "length (sd_Medias sd) \<le> MaxMediaDescriptions" "pick_audio 0 (sd_Medias sd) = (Some (i, md), d)"
    "length (md_Formats md) \<le> MaxCodecs" "parseConnection sd md allow = Inr (ip, hold)"
    "attrs_ok a" "au_Address a = ip" "Hold a = hold" "au_Port a = md_Port md"
    "parseCodecs u (md_Attributes md) (md_Formats md) = Some cs" "cs \<noteq> []"
    "s = \<lparr>ss_Audio = a\<lparr>au_Crypto := parseCryptoAttrs (map snd (filter (\<lambda>at. fst at = ''crypto'') (md_Attributes md))),
       au_Codecs := cs\<rparr>, MediaCount = length (sd_Medias sd), AudioIndex = i, Sections = map (section_of u) (sd_Medias sd)\<rparr>"
proof -
  obtain sd where sd: "unmarshal body = Some sd" "length body \<le> MaxSize" "length (sd_Medias sd) \<le> MaxMediaDescriptions"
    using assms by (auto simp: ParseWithOptions_def Let_def split: if_splits option.splits)
  obtain r d where pick: "pick_audio 0 (sd_Medias sd) = (r, d)" by force
  then obtain i md where r: "r = Some (i, md)" "length (md_Formats md) \<le> MaxCodecs"
    using assms sd by (cases r) (auto simp: ParseWithOptions_def split: if_splits)
  obtain ip hold where c: "parseConnection sd md allow = Inr (ip, hold)"
    using assms sd(1) pick r by (cases "parseConnection sd md allow") (auto simp: ParseWithOptions_def split: if_splits)
  let ?base = "\<lparr>au_Port = md_Port md, au_Proto = md_Protos md, au_Address = ip, Hold = hold, au_Codecs = [],
      au_Direction = SendRecv, RTCPPort = 0, au_RTCPMux = False, au_ICEUfrag = [], au_ICEPwd = [],
      au_Fingerprint = None, au_Setup = [], au_Crypto = []\<rparr>"
  obtain cs where cs: "parseCodecs u (md_Attributes md) (md_Formats md) = Some cs" "cs \<noteq> []"
    using assms sd(1) pick r c
    by (cases "parseCodecs u (md_Attributes md) (md_Formats md)") (auto simp: ParseWithOptions_def Let_def split: if_splits list.splits)
  let ?a = "parseAttributes u (sd_Attributes sd) (md_Attributes md) ?base"
  have "attrs_ok ?base" by (simp add: attrs_ok_def)
  note a = parseAttributes_ok [OF this, of u "sd_Attributes sd" "md_Attributes md"]
  have s: "s = \<lparr>ss_Audio = ?a\<lparr>au_Crypto := parseCryptoAttrs (map snd (filter (\<lambda>at. fst at = ''crypto'') (md_Attributes md))),
       au_Codecs := cs\<rparr>, MediaCount = length (sd_Medias sd), AudioIndex = i, Sections = map (section_of u) (sd_Medias sd)\<rparr>"
    using assms sd(1) pick r c cs by (auto simp: ParseWithOptions_def Let_def split: if_splits list.splits)
  have "attrs_ok ?a" using a by blast
  moreover have "au_Address ?a = ip" "Hold ?a = hold" "au_Port ?a = md_Port md" using a by simp_all
  ultimately show thesis using that [OF sd pick [unfolded r(1)] r(2) c _ _ _ _ cs s] by blast
qed

section \<open>The sections of a body\<close>

definition m_lines :: "string list \<Rightarrow> string list" where
  "m_lines ls = filter (\<lambda>l. has_prefix l ''m='') ls"

lemma m_lines_simps [simp]:
  "m_lines [] = []" "m_lines (xs @ ys) = m_lines xs @ m_lines ys"
  "m_lines (l # ls) = (if has_prefix l ''m='' then l # m_lines ls else m_lines ls)"
  by (simp_all add: m_lines_def)

lemma attr_not_m: "has_prefix l ''a='' \<Longrightarrow> \<not> has_prefix l ''m=''"
  by (cases l) auto

text \<open>What the three parts of a body need to be clean.\<close>

definition build_clean :: "build \<Rightarrow> bool" where
  "build_clean b \<longleftrightarrow> own_fields_clean b \<and> (\<forall>c \<in> set (b_Codecs b). validEncodingName (cd_Name c)) \<and>
     (\<forall>c \<in> set (b_Crypto b). crypto_Validate c = None)"

lemma audio_attrs_no_m:
  assumes "build_clean b"
  shows "m_lines (audio_attrs u b (dir_text d)) = []"
proof -
  have "\<not> has_prefix l ''m=''" if "l \<in> set (audio_attrs u b (dir_text d))" for l
    using audio_attrs_clean [OF _ _ _ that] assms attr_not_m by (auto simp: build_clean_def)
  then show ?thesis by (simp add: m_lines_def)
qed

lemma section_lines_clean:
  assumes "build_clean b" "section_clean sec"
  shows "(\<forall>l \<in> set (section_lines u b (dir_text d) at i sec). no_break l) \<and>
    m_lines (section_lines u b (dir_text d) at i sec) = [if i = at then m_line b else declined_line sec]"
  using assms audio_attrs_clean [of b _ u d] m_line_clean [of b] declined_line_clean [of sec] audio_attrs_no_m [of b u d]
  by (auto simp: section_lines_def build_clean_def)

lemma all_section_lines_clean:
  assumes "build_clean b" "\<forall>sec \<in> set secs. section_clean sec"
  shows "(\<forall>l \<in> set (all_section_lines u b (dir_text d) at i secs). no_break l) \<and>
    m_lines (all_section_lines u b (dir_text d) at i secs) =
      map (\<lambda>j. if i + j = at then m_line b else declined_line (secs ! j)) [0..<length secs]"
  using assms(2)
proof (induction secs arbitrary: i)
  case (Cons sec secs)
  have "map (\<lambda>j. if i + j = at then m_line b else declined_line ((sec # secs) ! j)) [0..<length (sec # secs)] =
      (if i = at then m_line b else declined_line sec) #
      map (\<lambda>j. if i + 1 + j = at then m_line b else declined_line (secs ! j)) [0..<length secs]"
    by (simp add: upt_conv_Cons map_Suc_upt [symmetric] del: upt_Suc)
  then show ?case using Cons section_lines_clean [OF assms(1), of sec u d at i] by auto
qed simp

lemma header_no_m:
  assumes "own_fields_clean b"
  shows "m_lines (header_lines b) = []"
  using header_clean [OF assms] by (simp add: m_lines_def)

lemma build_check_crypto: "build_check b = None \<Longrightarrow> c \<in> set (b_Crypto b) \<Longrightarrow> crypto_Validate c = None"
  by (auto simp: build_check_def find_None_iff split: if_splits option.splits)

lemma marshal_alone:
  assumes "build_clean b" "marshal u b None = Inr body"
  shows "\<exists>ls. body = render ls \<and> (\<forall>l \<in> set ls. no_break l) \<and> m_lines ls = [m_line b]"
proof -
  define d where "d = (case b_Direction b of None \<Rightarrow> SendRecv | Some d \<Rightarrow> d)"
  let ?ls = "header_lines b @ m_line b # audio_attrs u b (dir_text d)"
  have "body = render ?ls"
    using assms(2) by (simp add: marshal_def header_render appendAudio_render d_def Let_def split: option.splits)
  moreover have "(\<forall>l \<in> set ?ls. no_break l) \<and> m_lines ?ls = [m_line b]"
    using assms(1) audio_attrs_clean [of b _ u d] audio_attrs_no_m [OF assms(1), of u d] header_clean [of b] header_no_m [of b] m_line_clean [of b]
    by (auto simp: build_clean_def)
  ultimately show ?thesis by blast
qed

lemma marshal_offer:
  assumes "build_clean b" "\<forall>sec \<in> set secs. section_clean sec" "marshal u b (Some (at, secs)) = Inr body"
  shows "\<exists>ls. body = render ls \<and> (\<forall>l \<in> set ls. no_break l) \<and>
    m_lines ls = map (\<lambda>j. if j = at then m_line b else declined_line (secs ! j)) [0..<length secs]"
proof -
  define d where "d = (case b_Direction b of None \<Rightarrow> SendRecv | Some d \<Rightarrow> d)"
  let ?ls = "header_lines b @ all_section_lines u b (dir_text d) at 0 secs"
  have "body = render ?ls"
    using assms(3) by (simp add: marshal_def header_render append_sections_render d_def Let_def split: option.splits)
  moreover have "(\<forall>l \<in> set ?ls. no_break l) \<and>
      m_lines ?ls = map (\<lambda>j. if j = at then m_line b else declined_line (secs ! j)) [0..<length secs]"
    using assms(1) all_section_lines_clean [OF assms(1,2), of u d at 0] header_clean [of b] header_no_m [of b]
    by (auto simp: build_clean_def)
  ultimately show ?thesis by blast
qed

lemma negotiated_names:
  assumes "Negotiate u offer answer = Inr cs" "\<forall>c \<in> set offer. codec_ok c" "c \<in> set cs"
  shows "validEncodingName (cd_Name c)"
proof -
  obtain byPT o1 where "o1 \<in> set offer" "common u answer byPT o1 = Some c"
    using assms(1,3) by (auto simp: Negotiate_def Let_def map_filter_def split: sum.splits prod.splits if_splits)
  then show ?thesis using assms(2) by (auto simp: common_def codec_ok_def split: option.splits if_splits)
qed

section \<open>The two guarantees\<close>

lemma ParseAddr_valid: "ParseAddr s = Some ip \<Longrightarrow> addr_valid (unmap ip)"
  by (auto simp: ParseAddr_def parseIPv4_def parseIPv6_def split: if_splits prod.splits)

lemma parseConnection_ok:
  assumes "parseConnection sd md allow = Inr (ip, hold)"
  shows "hold \<and> ip = AddrZero \<or>
    \<not> hold \<and> addr_valid ip \<and> unmap ip = ip \<and> \<not> is_unspecified ip \<and> \<not> is_multicast ip \<and>
    \<not> is_link_local_unicast ip \<and> ip \<noteq> broadcast4 \<and> (is_loopback ip \<longrightarrow> allow)"
  using assms ParseAddr_valid by (auto simp: parseConnection_def Let_def split: option.splits if_splits)

text \<open>
  C15: an accepted session description is well formed, whatever the peer sent. The media address is
  absent exactly when the stream is on hold and is otherwise a unicast address (loopback only where
  the caller allows it); the chosen section is one of at most sixteen and its port is not zero; the
  codecs are not empty and carry distinct numbers; every crypto line is valid; the ICE tokens, the
  setup role and the fingerprint are over their alphabets; and every section is summarised by a media
  word and a transport that are safe to send back.
\<close>

theorem parsed_session_wellformed:
  assumes "ParseWithOptions u unmarshal body allow = Inr s"
  shows "(au_Address (ss_Audio s) = AddrZero \<longleftrightarrow> Hold (ss_Audio s)) \<and>
    (\<not> Hold (ss_Audio s) \<longrightarrow> (let ip = au_Address (ss_Audio s) in
       unmap ip = ip \<and> \<not> is_unspecified ip \<and> \<not> is_multicast ip \<and> \<not> is_link_local_unicast ip \<and> ip \<noteq> broadcast4 \<and>
       (is_loopback ip \<longrightarrow> allow))) \<and>
    AudioIndex s < MediaCount s \<and> MediaCount s \<le> 16 \<and> length (Sections s) = MediaCount s \<and> au_Port (ss_Audio s) \<noteq> 0 \<and>
    au_Codecs (ss_Audio s) \<noteq> [] \<and> distinct (map PayloadType (au_Codecs (ss_Audio s))) \<and>
    (\<forall>c \<in> set (au_Codecs (ss_Audio s)). codec_ok c) \<and> (\<forall>c \<in> set (au_Crypto (ss_Audio s)). crypto_Validate c = None) \<and>
    attrs_ok (ss_Audio s) \<and> (\<forall>sec \<in> set (Sections s). section_clean sec)"
proof -
  obtain sd i md d ip hold a cs where sd: "length (sd_Medias sd) \<le> MaxMediaDescriptions"
    and pick: "pick_audio 0 (sd_Medias sd) = (Some (i, md), d)"
    and conn: "parseConnection sd md allow = Inr (ip, hold)"
    and a: "attrs_ok a" "au_Address a = ip" "Hold a = hold" "au_Port a = md_Port md"
    and cs: "parseCodecs u (md_Attributes md) (md_Formats md) = Some cs" "cs \<noteq> []"
    and s: "s = \<lparr>ss_Audio = a\<lparr>au_Crypto := parseCryptoAttrs (map snd (filter (\<lambda>at. fst at = ''crypto'') (md_Attributes md))),
       au_Codecs := cs\<rparr>, MediaCount = length (sd_Medias sd), AudioIndex = i, Sections = map (section_of u) (sd_Medias sd)\<rparr>"
    by (rule parse_shape [OF assms]) (rule that; assumption)
  have c: "distinct (map PayloadType cs)" "\<forall>c \<in> set cs. codec_ok c"
    using codec_loop_ok [OF cs(1) [unfolded parseCodecs_def]] by auto
  have cr: "\<forall>c \<in> set (parseCryptoAttrs vs). crypto_Validate c = None" for vs
    using parse_attrs_ok [of "{}" "[]" "set vs" vs] by (simp add: parseCryptoAttrs_def Let_def MaxCrypto_def)
  have ok: "attrs_ok (a\<lparr>au_Crypto := x, au_Codecs := y\<rparr>)" for x y
    using a(1) by (simp add: attrs_ok_def)
  have p: "i < length (sd_Medias sd)" "md_Port md \<noteq> 0" using pick_audio_ok [OF pick] by auto
  have ad: "(ip = AddrZero \<longleftrightarrow> hold) \<and> (\<not> hold \<longrightarrow> unmap ip = ip \<and> \<not> is_unspecified ip \<and> \<not> is_multicast ip \<and>
      \<not> is_link_local_unicast ip \<and> ip \<noteq> broadcast4 \<and> (is_loopback ip \<longrightarrow> allow))"
    using parseConnection_ok [OF conn] by auto
  show ?thesis
    using sd c cr ok p ad a(2,3,4) cs(2) section_of_clean by (simp add: s MaxMediaDescriptions_def Let_def)
qed

text \<open>
  C2: hostile session descriptions inject nothing. Take any offer the parser accepted, any codec list
  negotiated from it against any answer, and a body built with those codecs and fields that are the
  proxy's own or passed the parser's checks. The body is a sequence of lines ended by CRLF, none of
  which contains a CR or an LF; its sections are exactly as many as the offer's and in its order; the
  one at the audio index is the live section and every other is declined with port 0 and known words.
\<close>

theorem hostile_sdp_cannot_inject:
  assumes "ParseWithOptions u unmarshal text allow = Inr offer"
    and "Negotiate u (au_Codecs (ss_Audio offer)) answer = Inr (b_Codecs b)" and "own_fields_clean b"
    and "MarshalDeclining u b (Some offer) = Inr body"
  shows "\<exists>ls. body = render ls \<and> (\<forall>l \<in> set ls. no_break l) \<and>
    m_lines ls = map (\<lambda>j. if j = AudioIndex offer then m_line b else declined_line (Sections offer ! j)) [0..<MediaCount offer]"
proof -
  obtain sd :: pion_sd and i and md :: pion_media and d and a :: audio and cs where pick: "pick_audio 0 (sd_Medias sd) = (Some (i, md), d)"
    and cs: "parseCodecs u (md_Attributes md) (md_Formats md) = Some cs"
    and s: "offer = \<lparr>ss_Audio = a\<lparr>au_Crypto := parseCryptoAttrs (map snd (filter (\<lambda>at. fst at = ''crypto'') (md_Attributes md))),
       au_Codecs := cs\<rparr>, MediaCount = length (sd_Medias sd), AudioIndex = i, Sections = map (section_of u) (sd_Medias sd)\<rparr>"
    by (rule parse_shape [OF assms(1)]) blast
  have i: "i < length (sd_Medias sd)" using pick_audio_ok [OF pick] by auto
  have secs: "\<forall>sec \<in> set (Sections offer). section_clean sec" using section_of_clean by (auto simp: s)
  have "build_check b = None" using assms(4) by (auto simp: MarshalDeclining_def marshal_def Let_def split: option.splits prod.splits if_splits)
  moreover have "\<forall>c \<in> set cs. codec_ok c" using codec_loop_ok [OF cs [unfolded parseCodecs_def]] by auto
  ultimately have clean: "build_clean b"
    using assms(2,3) negotiated_names build_check_crypto by (fastforce simp: build_clean_def s)
  show ?thesis
  proof (cases "length (Sections offer) \<le> 1")
    case True
    then have "length (sd_Medias sd) = 1" "i = 0" using i by (auto simp: s)
    then show ?thesis using marshal_alone [OF clean] assms(4) i by (auto simp: MarshalDeclining_def s split: if_splits)
  next
    case False
    then have "marshal u b (Some (i, Sections offer)) = Inr body"
      using assms(4) i by (auto simp: MarshalDeclining_def s split: if_splits)
    then show ?thesis using marshal_offer [OF clean secs] by (simp add: s)
  qed
qed

section \<open>A concrete offer\<close>

text \<open>An audio section with payload 0 beside a video section the proxy declines.\<close>

definition sample_sd :: pion_sd where
  "sample_sd = \<lparr>sd_Conn = Some (Some ''10.0.0.1''), sd_Attributes = [], sd_Medias =
     [\<lparr>md_Media = ''audio'', md_Port = 4000, md_Protos = [''RTP'', ''AVP''], md_Formats = [''0''], md_Conn = None, md_Attributes = []\<rparr>,
      \<lparr>md_Media = ''video'', md_Port = 5000, md_Protos = [''RTP'', ''AVP''], md_Formats = [''31''], md_Conn = None, md_Attributes = []\<rparr>]\<rparr>"

definition sample_codec :: codec where
  "sample_codec = \<lparr>PayloadType = 0, cd_Name = ''PCMU'', ClockRate = 8000, Channels = 1, FMTP = []\<rparr>"

lemma sample_addr: "ParseAddr ''10.0.0.1'' = Some (V4 0x0a000001)"
  by (simp add: ParseAddr_def parseIPv4_def parse_quad_def parse_octet_def octets_val_def digits_val_def digit_val_def is_digit_def byte_def Let_def)

lemma sample_conn: "parseConnection sample_sd (sd_Medias sample_sd ! 0) False = Inr (V4 0x0a000001, False)"
  by (simp add: parseConnection_def sample_sd_def sample_addr plain_word_def is_ascii_space_def byte_def is_multicast_def
      is_link_local_unicast_def broadcast4_def is_loopback_def Let_def)

lemma sample_codecs: "parseCodecs ascii_tables [] [''0''] = Some [sample_codec]"
  by (simp add: parseCodecs_def codec_for_def staticPayload_def sample_codec_def parse_uint_def plain_word_def is_ascii_space_def
      byte_def is_digit_def digits_val_def digit_val_def canonicalFMTP_def Let_def)

lemma sample_parse:
  "\<exists>s. ParseWithOptions ascii_tables (\<lambda>_. Some sample_sd) ''v'' False = Inr s \<and> au_Codecs (ss_Audio s) = [sample_codec] \<and>
    AudioIndex s = 0 \<and> MediaCount s = 2 \<and> Hold (ss_Audio s) = False \<and> length (Sections s) = 2"
  using sample_conn sample_codecs
  by (simp add: ParseWithOptions_def MaxSize_def MaxMediaDescriptions_def MaxAttributes_def MaxCodecs_def sample_sd_def
      parseAttributes_def)

lemma sample_negotiation: "Negotiate ascii_tables [sample_codec] [sample_codec] = Inr [sample_codec]"
  by (simp add: Negotiate_def offered_def sample_codec_def sameEncoding_def sameName_def channels_def is_ascii_def lower_ascii_def is_upper_def
      byte_def acceptedOn_def common_def IsTelephoneEvent_def equal_fold_def lower_str_def Let_def)

theorem parsed_session_wellformed_witness:
  "\<exists>s. ParseWithOptions ascii_tables (\<lambda>_. Some sample_sd) ''v'' False = Inr s \<and> AudioIndex s < MediaCount s \<and>
    \<not> Hold (ss_Audio s) \<and> \<not> is_loopback (au_Address (ss_Audio s))"
proof -
  obtain s where s: "ParseWithOptions ascii_tables (\<lambda>_. Some sample_sd) ''v'' False = Inr s" "Hold (ss_Audio s) = False"
    using sample_parse by blast
  then show ?thesis using parsed_session_wellformed [OF s(1)] by (auto simp: Let_def)
qed

definition sample_build :: build where
  "sample_build = \<lparr>Address = V4 0xc0000201, b_Port = 30000, b_Codecs = [sample_codec], b_Direction = None, SessionID = 1,
     SessionVersion = 1, DTLS = False, b_RTCPMux = False, b_ICEUfrag = [], b_ICEPwd = [], b_Fingerprint = None,
     b_Setup = [], b_Crypto = []\<rparr>"

theorem hostile_sdp_cannot_inject_witness:
  "\<exists>offer body ls. ParseWithOptions ascii_tables (\<lambda>_. Some sample_sd) ''v'' False = Inr offer \<and>
    MarshalDeclining ascii_tables sample_build (Some offer) = Inr body \<and> body = render ls \<and>
    m_lines ls = [m_line sample_build, declined_line (Sections offer ! 1)]"
proof -
  obtain s where s: "ParseWithOptions ascii_tables (\<lambda>_. Some sample_sd) ''v'' False = Inr s"
    "au_Codecs (ss_Audio s) = [sample_codec]" "AudioIndex s = 0" "MediaCount s = 2" "length (Sections s) = 2"
    using sample_parse by blast
  have n: "Negotiate ascii_tables (au_Codecs (ss_Audio s)) [sample_codec] = Inr (b_Codecs sample_build)"
    using sample_negotiation by (simp add: s(2) sample_build_def)
  have o: "own_fields_clean sample_build" by (simp add: own_fields_clean_def sample_build_def)
  have check: "build_check sample_build = None" by (simp add: build_check_def sample_build_def)
  obtain body where b: "MarshalDeclining ascii_tables sample_build (Some s) = Inr body"
  proof -
    from check obtain body where "marshal ascii_tables sample_build (Some (0, Sections s)) = Inr body" by (auto simp: marshal_def Let_def)
    moreover have "Sections s \<noteq> []" using s(5) by auto
    ultimately show thesis using that s(3-5) by (simp add: MarshalDeclining_def)
  qed
  show ?thesis
    using hostile_sdp_cannot_inject [OF s(1) n o b] s b by (auto simp: upt_conv_Cons eval_nat_numeral)
qed

section \<open>A zone passes the checks\<close>

text \<open>
  The connection address \<^verbatim>\<open>::%1\<close> is the unspecified address with a zone: it neither puts the stream
  on hold nor is it refused, because the checks compare whole addresses.
\<close>

lemma zoned_unspecified_accepted:
  "parseConnection \<lparr>sd_Conn = Some (Some ''::%1''), sd_Attributes = [], sd_Medias = []\<rparr>
     \<lparr>md_Media = ''audio'', md_Port = 4000, md_Protos = [], md_Formats = [], md_Conn = None, md_Attributes = []\<rparr> False
   = Inr (V6 0 ''1'', False)"
proof -
  have "trim_space ''::%1'' = ''::%1''" by (rule trim_space_plain) (simp add: plain_word_def is_ascii_space_def byte_def)
  moreover have "ParseAddr ''::%1'' = Some (V6 0 ''1'')"
    by (simp add: ParseAddr_def parseIPv6_def parse_v6_groups_def octets_val_def eval_nat_numeral)
  ultimately show ?thesis
    by (simp add: parseConnection_def is_multicast_def is_link_local_unicast_def broadcast4_def is_loopback_def Let_def)
qed

end
