(* ===== verification/Admission.thy ===== *)
theory Admission
  imports Location
begin

text \<open>
  The tables of \<^verbatim>\<open>src/internal/edge/admission.go\<close>: the REGISTER enumeration limit, the drop
  summary and the once-per-source warning. The verdicts themselves (\<^verbatim>\<open>admitPublicInvite\<close> and the
  others) are in the theory \<open>Register\<close>, which has the whole edge state.
\<close>

section \<open>Model: drop reasons\<close>

datatype drop_reason =
    dropInviteNotAdmitted | dropRegisterEnumeration | dropSubscribeNotAdmitted | dropMessageNotAdmitted
  | dropDialogless | dropRegisterAORLocked | dropOptions

fun drop_label :: "drop_reason \<Rightarrow> string" where
  "drop_label dropInviteNotAdmitted = ''invite_not_admitted''"
| "drop_label dropRegisterEnumeration = ''register_enumeration''"
| "drop_label dropSubscribeNotAdmitted = ''subscribe_not_admitted''"
| "drop_label dropMessageNotAdmitted = ''message_not_admitted''"
| "drop_label dropDialogless = ''dialogless_not_admitted''"
| "drop_label dropRegisterAORLocked = ''register_aor_locked''"
| "drop_label dropOptions = ''options_not_admitted''"

section \<open>Model: the enumeration limit\<close>

definition enumWindow :: dur where
  "enumWindow = 10 * minute"

definition enumMaxAORs :: nat where
  "enumMaxAORs = 10"

definition enumMaxSources :: nat where
  "enumMaxSources = 4096"

definition enumKey :: "addr \<Rightarrow> addr" where
  "enumKey ip0 = (let ip = no_zone (unmap ip0) in case ip of V6 w z \<Rightarrow> V6 (mask64 w) [] | _ \<Rightarrow> ip)"

record enum_entry =
  ee_start :: gtime
  ee_aors :: "string list"

record enum_limiter =
  el_lru :: "(addr, enum_entry) lru"
  el_max :: nat

definition newEnumLimiter :: enum_limiter where
  "newEnumLimiter = \<lparr>el_lru = lru_empty, el_max = enumMaxSources\<rparr>"

definition enum_blocked :: "gtime \<Rightarrow> addr \<Rightarrow> enum_limiter \<Rightarrow> bool" where
  "enum_blocked now ip l = (case lru_get (el_lru l) (enumKey ip) of
       None \<Rightarrow> False
     | Some e \<Rightarrow> t_sub now (ee_start e) < enumWindow \<and> length (ee_aors e) \<ge> enumMaxAORs)"

text \<open>The entry a rejection finds, reset when its window is over, or creates.\<close>

definition enum_entry_for :: "gtime \<Rightarrow> addr \<Rightarrow> enum_limiter \<Rightarrow> enum_limiter \<times> enum_entry" where
  "enum_entry_for now key l = (case lru_get (el_lru l) key of
       Some e \<Rightarrow> (l\<lparr>el_lru := lru_front key (el_lru l)\<rparr>,
         if t_sub now (ee_start e) \<ge> enumWindow then \<lparr>ee_start = now, ee_aors = []\<rparr> else e)
     | None \<Rightarrow> (let e = \<lparr>ee_start = now, ee_aors = []\<rparr> in
         (l\<lparr>el_lru := lru_push key e (lru_make_room (el_max l) (el_lru l))\<rparr>, e)))"

definition enum_rejected :: "gtime \<Rightarrow> addr \<Rightarrow> string \<Rightarrow> enum_limiter \<Rightarrow> enum_limiter \<times> bool" where
  "enum_rejected now ip aor l =
     (let key = enumKey ip; (l1, e) = enum_entry_for now key l;
          put = (\<lambda>e. l1\<lparr>el_lru := lru_write key e (el_lru l1)\<rparr>)
      in if length (ee_aors e) \<ge> enumMaxAORs then (put e, False)
         else if aor \<in> set (ee_aors e) then (put e, False)
         else let e1 = e\<lparr>ee_aors := ee_aors e @ [aor]\<rparr>
           in (put e1, length (ee_aors e1) = enumMaxAORs))"

definition countsAsEnumeration :: "int \<Rightarrow> bool" where
  "countsAsEnumeration code \<longleftrightarrow> code = 403 \<or> code = 404"

section \<open>Model: drop summary\<close>

definition maxSummarySources :: nat where
  "maxSummarySources = 1024"

record summary_count =
  sc_admission :: nat
  sc_malformed :: nat

record drop_summary =
  ds_admission :: nat
  ds_malformed :: nat
  ds_bySrc :: "(addr, summary_count) gomap"
  ds_overflow :: bool

definition new_summary :: drop_summary where
  "new_summary = \<lparr>ds_admission = 0, ds_malformed = 0, ds_bySrc = [], ds_overflow = False\<rparr>"

definition summary_add :: "addr \<Rightarrow> bool \<Rightarrow> drop_summary \<Rightarrow> drop_summary" where
  "summary_add ip0 malformed d =
     (let ip = no_zone (unmap ip0);
          d1 = (if malformed then d\<lparr>ds_malformed := ds_malformed d + 1\<rparr> else d\<lparr>ds_admission := ds_admission d + 1\<rparr>)
      in if m_get (ds_bySrc d1) ip = None \<and> length (ds_bySrc d1) \<ge> maxSummarySources then d1\<lparr>ds_overflow := True\<rparr>
         else let c = m_get0 \<lparr>sc_admission = 0, sc_malformed = 0\<rparr> (ds_bySrc d1) ip;
                  c1 = (if malformed then c\<lparr>sc_malformed := sc_malformed c + 1\<rparr> else c\<lparr>sc_admission := sc_admission c + 1\<rparr>)
           in d1\<lparr>ds_bySrc := m_set ip c1 (ds_bySrc d1)\<rparr>)"

definition combined :: "summary_count \<Rightarrow> nat" where
  "combined c = sc_admission c + sc_malformed c"

section \<open>Model: one warning per source\<close>

definition maxWarnedSources :: nat where
  "maxWarnedSources = 4096"

type_synonym warn_key = "drop_reason \<times> addr"

record warn_once =
  w_seen :: "(warn_key, unit) gomap"
  w_ring :: "warn_key list"
  w_next :: nat
  w_max :: nat

definition newWarnOnce :: "nat \<Rightarrow> warn_once" where
  "newWarnOnce cap = \<lparr>w_seen = [], w_ring = [], w_next = 0, w_max = cap\<rparr>"

definition warn_first :: "drop_reason \<Rightarrow> addr \<Rightarrow> warn_once \<Rightarrow> warn_once \<times> bool" where
  "warn_first reason ip w =
     (let k = (reason, no_zone (unmap ip)) in
      if m_get (w_seen w) k \<noteq> None then (w, False)
      else let w1 = (if length (w_ring w) < w_max w then w\<lparr>w_ring := w_ring w @ [k]\<rparr>
             else w\<lparr>w_seen := m_del (w_ring w ! w_next w) (w_seen w), w_ring := (w_ring w)[w_next w := k],
                    w_next := (w_next w + 1) mod w_max w\<rparr>)
        in (w1\<lparr>w_seen := m_set k () (w_seen w1)\<rparr>, True))"

section \<open>The enumeration table stays well formed\<close>

definition enum_ok :: "enum_limiter \<Rightarrow> bool" where
  "enum_ok l \<longleftrightarrow> el_max l = enumMaxSources \<and> lru_ok enumMaxSources (el_lru l) \<and>
     (\<forall>k e. lru_get (el_lru l) k = Some e \<longrightarrow> length (ee_aors e) \<le> enumMaxAORs \<and> distinct (ee_aors e))"

type_synonym rejection = "gtime \<times> addr \<times> string"

fun enum_step :: "rejection \<Rightarrow> enum_limiter \<Rightarrow> enum_limiter" where
  "enum_step (now, ip, aor) l = fst (enum_rejected now ip aor l)"

lemma enum_caps: "0 < enumMaxSources" "0 < enumMaxAORs"
  by (simp_all add: enumMaxSources_def enumMaxAORs_def)

lemma enum_entry_for_ok:
  assumes "enum_ok l"
  shows "let (l1, e) = enum_entry_for now key l in
    el_max l1 = enumMaxSources \<and> lru_ok enumMaxSources (el_lru l1) \<and> (\<exists>u. lru_get (el_lru l1) key = Some u) \<and>
    length (ee_aors e) \<le> enumMaxAORs \<and> distinct (ee_aors e) \<and>
    (\<forall>k. k \<noteq> key \<longrightarrow> lru_get (el_lru l1) k = None \<or> lru_get (el_lru l1) k = lru_get (el_lru l) k)"
proof (cases "lru_get (el_lru l) key")
  case None
  then have "lru_ok enumMaxSources (lru_push key e (lru_make_room enumMaxSources (el_lru l)))" for e
    using assms enum_caps by (intro lru_insert_ok) (auto simp: enum_ok_def)
  then show ?thesis
    using assms None
    by (auto simp: enum_entry_for_def enum_ok_def lru_defs lru_make_room_def lru_evict_back_def Let_def split: list.splits)
next
  case (Some e)
  then show ?thesis
    using assms lru_ok_front [of enumMaxSources "el_lru l" key e]
    by (auto simp: enum_entry_for_def enum_ok_def lru_defs Let_def)
qed

text \<open>What one rejection does to the entry of its own key.\<close>

definition enum_upd :: "gtime \<Rightarrow> string \<Rightarrow> enum_entry option \<Rightarrow> enum_entry" where
  "enum_upd now aor eo =
     (let e = (case eo of None \<Rightarrow> \<lparr>ee_start = now, ee_aors = []\<rparr>
            | Some e \<Rightarrow> if t_sub now (ee_start e) \<ge> enumWindow then \<lparr>ee_start = now, ee_aors = []\<rparr> else e)
      in if length (ee_aors e) \<ge> enumMaxAORs \<or> aor \<in> set (ee_aors e) then e else e\<lparr>ee_aors := ee_aors e @ [aor]\<rparr>)"

lemma enum_entry_for_snd:
  "snd (enum_entry_for now key l) = (case lru_get (el_lru l) key of None \<Rightarrow> \<lparr>ee_start = now, ee_aors = []\<rparr>
     | Some e \<Rightarrow> if t_sub now (ee_start e) \<ge> enumWindow then \<lparr>ee_start = now, ee_aors = []\<rparr> else e)"
  by (simp add: enum_entry_for_def Let_def split: option.splits)

lemma enum_step_eq:
  "enum_step (now, ip, aor) l =
     (let l1 = fst (enum_entry_for now (enumKey ip) l) in
      l1\<lparr>el_lru := lru_write (enumKey ip) (enum_upd now aor (lru_get (el_lru l) (enumKey ip))) (el_lru l1)\<rparr>)"
  by (auto simp: enum_rejected_def enum_upd_def Let_def case_prod_beta enum_entry_for_snd [symmetric])

declare enum_step.simps [simp del]

lemma enum_step_own:
  "lru_get (el_lru (enum_step (now, ip, aor) l)) (enumKey ip) = Some (enum_upd now aor (lru_get (el_lru l) (enumKey ip)))"
  by (simp add: enum_step_eq Let_def lru_write_def lru_get_def)

lemma enum_step_other:
  assumes "enum_ok l" "k \<noteq> enumKey ip"
  shows "lru_get (el_lru (enum_step (now, ip, aor) l)) k = None \<or>
    lru_get (el_lru (enum_step (now, ip, aor) l)) k = lru_get (el_lru l) k"
  using enum_entry_for_ok [OF assms(1), of now "enumKey ip"] assms(2)
  by (auto simp: enum_step_eq Let_def lru_write_def lru_get_def case_prod_beta)

lemma enum_upd_ok:
  "case eo of None \<Rightarrow> True | Some e \<Rightarrow> length (ee_aors e) \<le> enumMaxAORs \<and> distinct (ee_aors e) \<Longrightarrow>
   length (ee_aors (enum_upd now aor eo)) \<le> enumMaxAORs \<and> distinct (ee_aors (enum_upd now aor eo))"
  by (auto simp: enum_upd_def Let_def split: option.splits)

lemma enum_step_ok: "enum_ok l \<Longrightarrow> enum_ok (enum_step x l)"
proof -
  assume ok: "enum_ok l"
  obtain now ip aor where x: "x = (now, ip, aor)" by (cases x)
  let ?l1 = "fst (enum_entry_for now (enumKey ip) l)"
  have l1: "el_max ?l1 = enumMaxSources" "lru_ok enumMaxSources (el_lru ?l1)" "\<exists>u. lru_get (el_lru ?l1) (enumKey ip) = Some u"
    using enum_entry_for_ok [OF ok, of now "enumKey ip"] by (auto simp: case_prod_beta)
  have upd: "length (ee_aors e) \<le> enumMaxAORs \<and> distinct (ee_aors e)"
    if "e = enum_upd now aor (lru_get (el_lru l) (enumKey ip))" for e
    using that enum_upd_ok [of "lru_get (el_lru l) (enumKey ip)"] ok by (auto simp: enum_ok_def split: option.splits)
  have "length (ee_aors e) \<le> enumMaxAORs \<and> distinct (ee_aors e)" if "lru_get (el_lru (enum_step x l)) k = Some e" for k e
    using that upd ok enum_step_own [of now ip aor l] enum_step_other [OF ok, of k ip now aor]
    by (cases "k = enumKey ip") (auto simp: x enum_ok_def)
  moreover have "lru_ok enumMaxSources (el_lru (enum_step x l))" "el_max (enum_step x l) = enumMaxSources"
    using l1 lru_ok_write by (auto simp: x enum_step_eq Let_def)
  ultimately show ?thesis by (simp add: enum_ok_def)
qed

definition enum_size :: "enum_limiter \<Rightarrow> nat" where
  "enum_size l = length (entries (el_lru l))"

interpretation en: bounded_machine enum_step newEnumLimiter enum_ok enum_size enumMaxSources
proof (unfold_locales, goal_cases)
  case 1
  show ?case by (simp add: enum_ok_def newEnumLimiter_def) (simp add: lru_empty_def lru_get_def)
next
  case (2 s x)
  then show ?case by (rule enum_step_ok)
next
  case (3 s)
  then show ?case using lru_ok_size [of enumMaxSources "el_lru s"] by (simp add: enum_ok_def enum_size_def lru_ok_def)
qed

section \<open>Who is cut off\<close>

text \<open>The rejections of one source key, and the AoRs among them.\<close>

definition own :: "addr \<Rightarrow> rejection list \<Rightarrow> rejection list" where
  "own k xs = filter (\<lambda>(now, ip, aor). enumKey ip = k) xs"

definition own_aors :: "addr \<Rightarrow> rejection list \<Rightarrow> string set" where
  "own_aors k xs = (\<lambda>(now, ip, aor). aor) ` set (own k xs)"

lemma enum_run_aors:
  "enum_ok l \<Longrightarrow> lru_get (el_lru (run_ops enum_step xs l)) k = Some e \<Longrightarrow>
    set (ee_aors e) \<subseteq> own_aors k xs \<union> (case lru_get (el_lru l) k of None \<Rightarrow> {} | Some e0 \<Rightarrow> set (ee_aors e0))"
proof (induction xs arbitrary: l)
  case (Cons x xs)
  obtain now ip aor where x: "x = (now, ip, aor)" by (cases x)
  have "set (ee_aors e) \<subseteq> own_aors k xs \<union>
      (case lru_get (el_lru (enum_step x l)) k of None \<Rightarrow> {} | Some e0 \<Rightarrow> set (ee_aors e0))"
    using Cons.IH [OF enum_step_ok [OF Cons.prems(1)], of x] Cons.prems(2) by simp
  moreover have "(case lru_get (el_lru (enum_step x l)) k of None \<Rightarrow> {} | Some e0 \<Rightarrow> set (ee_aors e0)) \<subseteq>
      own_aors k [x] \<union> (case lru_get (el_lru l) k of None \<Rightarrow> {} | Some e0 \<Rightarrow> set (ee_aors e0))"
  proof (cases "k = enumKey ip")
    case True
    then show ?thesis
      using enum_step_own [of now ip aor l] by (auto simp: x own_aors_def own_def enum_upd_def Let_def split: option.splits if_splits)
  next
    case False
    then show ?thesis
      using enum_step_other [OF Cons.prems(1) False, of now aor] by (auto simp: x split: option.splits)
  qed
  moreover have "own_aors k (x # xs) = own_aors k [x] \<union> own_aors k xs" by (auto simp: own_aors_def own_def)
  ultimately show ?case by blast
qed (auto split: option.splits)

text \<open>
  An ordinary source is never cut off. Whatever other sources do, REGISTERs from a source for
  which the registrar has rejected fewer than ten distinct AoRs are not dropped.
\<close>

theorem enum_spares_normal:
  assumes "card (own_aors (enumKey ip) xs) < enumMaxAORs"
  shows "\<not> enum_blocked now ip (run_ops enum_step xs newEnumLimiter)"
proof
  assume "enum_blocked now ip (run_ops enum_step xs newEnumLimiter)"
  then obtain e where e: "lru_get (el_lru (run_ops enum_step xs newEnumLimiter)) (enumKey ip) = Some e" "length (ee_aors e) \<ge> enumMaxAORs"
    by (auto simp: enum_blocked_def split: option.splits)
  have "distinct (ee_aors e)" using e(1) en.reach_inv [of xs] by (auto simp: enum_ok_def)
  moreover have "set (ee_aors e) \<subseteq> own_aors (enumKey ip) xs"
    using enum_run_aors [OF en.inv_init e(1)] by (simp add: newEnumLimiter_def lru_empty_def lru_get_def)
  moreover have "finite (own_aors (enumKey ip) xs)" by (simp add: own_aors_def own_def)
  ultimately show False using e(2) assms by (metis card_mono distinct_card le_trans not_le)
qed

theorem enum_spares_normal_witness:
  "\<not> enum_blocked 0 (V4 1) (run_ops enum_step [(0, V4 1, ''a''), (0, V4 2, ''b'')] newEnumLimiter)"
  by (rule enum_spares_normal) (simp add: own_aors_def own_def enumKey_def enumMaxAORs_def)

text \<open>
  The specification: the window opens at the first rejection and at the first one after it is over;
  within it the distinct AoRs count, without a cap.
\<close>

definition win_step :: "(gtime \<times> string set) option \<Rightarrow> rejection \<Rightarrow> (gtime \<times> string set) option" where
  "win_step w x = (let (now, ip, aor) = x in
     case w of None \<Rightarrow> Some (now, {aor})
     | Some (start, as) \<Rightarrow> if t_sub now start \<ge> enumWindow then Some (now, {aor}) else Some (start, insert aor as))"

definition enum_window :: "rejection list \<Rightarrow> (gtime \<times> string set) option" where
  "enum_window xs = foldl win_step None xs"

definition win_rel :: "enum_entry option \<Rightarrow> (gtime \<times> string set) option \<Rightarrow> bool" where
  "win_rel eo w = (case (eo, w) of (None, None) \<Rightarrow> True
     | (Some e, Some (start, as)) \<Rightarrow> ee_start e = start \<and> finite as \<and> distinct (ee_aors e) \<and> set (ee_aors e) \<subseteq> as \<and>
         (length (ee_aors e) < enumMaxAORs \<longrightarrow> set (ee_aors e) = as) \<and> length (ee_aors e) \<le> enumMaxAORs
     | _ \<Rightarrow> False)"

lemma win_rel_step:
  assumes "win_rel eo w"
  shows "win_rel (Some (enum_upd now aor eo)) (win_step w (now, ip, aor))"
  using assms enum_caps
  by (cases eo; cases w) (auto simp: win_rel_def win_step_def enum_upd_def Let_def split: prod.splits)

lemma enum_step_keeps:
  assumes "enum_ok l" "k \<noteq> enumKey ip" "lru_get (el_lru l) (enumKey ip) \<noteq> None \<or> length (order (el_lru l)) < enumMaxSources"
  shows "lru_get (el_lru (enum_step (now, ip, aor) l)) k = lru_get (el_lru l) k"
  using assms by (auto simp: enum_step_eq Let_def enum_entry_for_def lru_defs lru_make_room_def enum_ok_def split: option.splits)

lemma enum_keys_step:
  assumes "enum_ok l"
  shows "keys (entries (el_lru (enum_step (now, ip, aor) l))) \<subseteq> insert (enumKey ip) (keys (entries (el_lru l)))"
proof
  fix k
  assume k: "k \<in> keys (entries (el_lru (enum_step (now, ip, aor) l)))"
  show "k \<in> insert (enumKey ip) (keys (entries (el_lru l)))"
  proof (cases "k = enumKey ip")
    case False
    then show ?thesis using enum_step_other [OF assms False, of now aor] k m_get_None by (metis insertCI lru_get_def)
  qed simp
qed

lemma enum_run_window:
  assumes "enum_ok l" "keys (entries (el_lru l)) \<union> (\<lambda>(now, ip, aor). enumKey ip) ` set xs \<subseteq> K" "finite K" "card K \<le> enumMaxSources"
    and "win_rel (lru_get (el_lru l) k) w"
  shows "win_rel (lru_get (el_lru (run_ops enum_step xs l)) k) (foldl win_step w (own k xs))"
  using assms(1,2,5)
proof (induction xs arbitrary: l w)
  case (Cons x xs)
  obtain now ip aor where x: "x = (now, ip, aor)" by (cases x)
  let ?l = "enum_step x l"
  have keys: "keys (entries (el_lru ?l)) \<union> (\<lambda>(now, ip, aor). enumKey ip) ` set xs \<subseteq> K"
  proof -
    have "enumKey ip \<in> K" "keys (entries (el_lru l)) \<subseteq> K" "(\<lambda>(now, ip, aor). enumKey ip) ` set xs \<subseteq> K"
      using Cons.prems(2) by (simp_all add: x)
    moreover from this have "keys (entries (el_lru ?l)) \<subseteq> K"
      unfolding x by (intro subset_trans [OF enum_keys_step [OF Cons.prems(1)]]) (rule insert_subsetI)
    ultimately show ?thesis by (intro Un_least)
  qed
  have room: "lru_get (el_lru l) (enumKey ip) \<noteq> None \<or> length (order (el_lru l)) < enumMaxSources"
  proof (cases "lru_get (el_lru l) (enumKey ip)")
    case None
    then have "enumKey ip \<notin> keys (entries (el_lru l))" by (simp add: lru_get_def m_get_None)
    then have "keys (entries (el_lru l)) \<subset> K" using Cons.prems(2) by (auto simp: x)
    then have "card (keys (entries (el_lru l))) < card K" by (rule psubset_card_mono [OF assms(3)])
    moreover have "card (keys (entries (el_lru l))) = length (order (el_lru l))"
      using Cons.prems(1) by (simp add: enum_ok_def lru_ok_def) (metis distinct_card)
    ultimately show ?thesis using assms(4) by simp
  qed simp
  have "win_rel (lru_get (el_lru ?l) k) (foldl win_step w (own k [x]))"
  proof (cases "k = enumKey ip")
    case True
    then show ?thesis using win_rel_step [OF Cons.prems(3)] enum_step_own [of now ip aor l] by (simp add: x own_def)
  next
    case False
    then show ?thesis using Cons.prems(3) enum_step_keeps [OF Cons.prems(1) False room, of now aor] by (simp add: x own_def)
  qed
  then show ?case
    using Cons.IH [OF enum_step_ok [OF Cons.prems(1)] keys] by (simp add: own_def split: if_splits)
qed (simp add: own_def)

text \<open>
  C37: A scanner is cut off, exactly then. As long as at most 4096 source keys occur, REGISTERs from a
  source are dropped exactly while its window is open and the distinct AoRs rejected in it are at least
  ten; other sources do not matter.
\<close>

theorem enum_block_exact:
  assumes "card ((\<lambda>(t, ip, aor). enumKey ip) ` set xs) \<le> enumMaxSources"
  shows "enum_blocked now ip (run_ops enum_step xs newEnumLimiter) \<longleftrightarrow>
    (case enum_window (own (enumKey ip) xs) of None \<Rightarrow> False
     | Some (start, as) \<Rightarrow> t_sub now start < enumWindow \<and> enumMaxAORs \<le> card as)"
proof -
  let ?eo = "lru_get (el_lru (run_ops enum_step xs newEnumLimiter)) (enumKey ip)"
  let ?w = "enum_window (own (enumKey ip) xs)"
  have "win_rel ?eo ?w"
    unfolding enum_window_def
    by (rule enum_run_window [OF en.inv_init _ _ assms]) (auto simp: newEnumLimiter_def lru_empty_def lru_get_def win_rel_def)
  then have rel: "?eo = None \<and> ?w = None \<or> (\<exists>e start as. ?eo = Some e \<and> ?w = Some (start, as) \<and> ee_start e = start \<and> finite as \<and>
      distinct (ee_aors e) \<and> set (ee_aors e) \<subseteq> as \<and> (length (ee_aors e) < enumMaxAORs \<longrightarrow> set (ee_aors e) = as))"
    by (auto simp: win_rel_def split: option.splits prod.splits)
  have len: "enumMaxAORs \<le> length (ee_aors e) \<longleftrightarrow> enumMaxAORs \<le> card as"
    if "finite as" "distinct (ee_aors e)" "set (ee_aors e) \<subseteq> as" "length (ee_aors e) < enumMaxAORs \<longrightarrow> set (ee_aors e) = as" for e as
    using that card_mono [OF that(1,3)] distinct_card [OF that(2)] by (metis le_trans not_le)
  from rel show ?thesis
  proof (elim disjE exE conjE)
    fix e start as
    assume e: "?eo = Some e" "?w = Some (start, as)" "ee_start e = start" "finite as" "distinct (ee_aors e)"
      "set (ee_aors e) \<subseteq> as" "length (ee_aors e) < enumMaxAORs \<longrightarrow> set (ee_aors e) = as"
    show ?thesis using e(1,2,3) len [OF e(4-7)] by (simp add: enum_blocked_def)
  qed (simp add: enum_blocked_def)
qed

lemma enum_window_same:
  "foldl win_step (Some (t, as)) (map (\<lambda>a. (t, ip, a)) bs) = Some (t, as \<union> set bs)"
  by (induction bs arbitrary: as) (auto simp: win_step_def enumWindow_def time_defs)

lemma enum_key_v4 [simp]: "enumKey (V4 w) = V4 w"
  by (simp add: enumKey_def)

definition ten_names :: "string list" where
  "ten_names = map (\<lambda>i. replicate i CHR ''x'') [0..<10]"

theorem enum_block_exact_witness:
  "enum_blocked 5 (V4 7) (run_ops enum_step (map (\<lambda>a. (0, V4 7, a)) ten_names) newEnumLimiter)"
proof -
  let ?xs = "map (\<lambda>a. (0 :: gtime, V4 7, a)) ten_names"
  have names: "distinct ten_names" "length ten_names = 10"
    by (simp_all add: ten_names_def distinct_map inj_on_def)
  then obtain n ns where n: "ten_names = n # ns" by (cases ten_names) auto
  have "(\<lambda>(t, ip, aor). enumKey ip) ` set ?xs \<subseteq> {V4 7}" by auto
  then have "card ((\<lambda>(t, ip, aor). enumKey ip) ` set ?xs) \<le> 1"
    using card_mono [of "{V4 7}"] by fastforce
  then have one: "card ((\<lambda>(t, ip, aor). enumKey ip) ` set ?xs) \<le> enumMaxSources"
    by (simp add: enumMaxSources_def)
  have own: "own (V4 7) ?xs = ?xs" by (auto simp: own_def filter_map o_def)
  have "enum_window ?xs = Some (0, set ten_names)"
    using enum_window_same [of 0 "{n}" "V4 7" ns] by (simp add: enum_window_def n win_step_def)
  moreover have "card (set ten_names) = 10" using names distinct_card by metis
  ultimately show ?thesis
    using enum_block_exact [OF one, of 5 "V4 7"] own by (simp add: enumWindow_def enumMaxAORs_def time_defs)
qed

section \<open>One warning per source\<close>

text \<open>The ring of warned sources and the set agree.\<close>

definition warn_ok :: "warn_once \<Rightarrow> bool" where
  "warn_ok w \<longleftrightarrow> 0 < w_max w \<and> length (w_ring w) \<le> w_max w \<and> w_next w < w_max w \<and> distinct (w_ring w) \<and>
     set (w_ring w) = keys (w_seen w) \<and> wf_map (w_seen w)"

lemma warn_first_ok: "warn_ok w \<Longrightarrow> warn_ok (fst (warn_first reason ip w))"
proof -
  assume ok: "warn_ok w"
  let ?k = "(reason, no_zone (unmap ip))"
  show ?thesis
  proof (cases "m_get (w_seen w) ?k")
    case None
    then have new: "?k \<notin> set (w_ring w)" using ok by (simp add: warn_ok_def m_get_None)
    show ?thesis
    proof (cases "length (w_ring w) < w_max w")
      case True
      then show ?thesis using ok None new by (auto simp: warn_first_def warn_ok_def Let_def)
    next
      case False
      then have n: "w_next w < length (w_ring w)" using ok by (simp add: warn_ok_def)
      then have "set ((w_ring w)[w_next w := ?k]) = insert ?k (set (w_ring w) - {w_ring w ! w_next w})"
        using ok set_update_distinct [of "w_ring w" "w_next w" ?k] by (simp add: warn_ok_def)
      then show ?thesis
        using ok None new False n by (auto simp: warn_first_def warn_ok_def Let_def distinct_list_update)
    qed
  qed (use ok in \<open>simp add: warn_first_def Let_def\<close>)
qed

end
