(* ===== verification/Sip_Message.thy ===== *)
theory Sip_Message
  imports Netip_Text
begin

text \<open>
  What the front door decides on raw bytes and header values before or beside the SIP parser:
  the structural check \<^verbatim>\<open>Malformed\<close> (\<^verbatim>\<open>src/internal/sip/malformed.go\<close>), the read filter
  (\<^verbatim>\<open>readfilter.go\<close>), listener addresses (\<^verbatim>\<open>addr.go\<close>) and the lifetimes of a registration
  (\<^verbatim>\<open>register.go\<close>). \<open>malformed_exact\<close> gives the structural check a declarative reading and
  \<open>wellformed_never_flagged\<close> its contract; \<open>expiry_bounds\<close> keeps lifetimes clear of overflow.
\<close>

section \<open>Malformed messages\<close>

definition cr :: char where
  "cr = char_of (13 :: nat)"

definition lf :: char where
  "lf = char_of (10 :: nat)"

definition isSIP :: "string \<Rightarrow> bool" where
  "isSIP b \<longleftrightarrow> b = ''SIP'' \<or> b = ''sip''"

definition requestOrStatusLine :: "string \<Rightarrow> bool" where
  "requestOrStatusLine line =
     (let (p0, rest, ok) = cut (CHR '' '') line in
      if \<not> ok then False
      else let (p1, p2, ok2) = cut (CHR '' '') rest in
        if \<not> ok2 then False
        else if length p2 \<ge> 3 \<and> CHR '' '' \<notin> set p2 \<and> isSIP (take 3 p2) then True
        else length p0 \<ge> 3 \<and> isSIP (take 3 p0))"

text \<open>The first CRLF: the text before it, the text after it, whether there is one.\<close>

fun crlf_cut :: "string \<Rightarrow> string \<times> string \<times> bool" where
  "crlf_cut [] = ([], [], False)"
| "crlf_cut [c] = ([c], [], False)"
| "crlf_cut (c # d # s) = (if c = cr \<and> d = lf then ([], s, True)
     else (let (a, b, f) = crlf_cut (d # s) in (c # a, b, f)))"

lemma crlf_cut_length: "crlf_cut s = (a, b, True) \<Longrightarrow> length b < length s"
proof (induction s arbitrary: a b rule: crlf_cut.induct)
  case (3 c d s)
  then show ?case by (cases "crlf_cut (d # s)") (fastforce split: if_splits)
qed simp_all

text \<open>The lines that end in CRLF.\<close>

function crlf_lines :: "string \<Rightarrow> string list" where
  "crlf_lines s = (case crlf_cut s of (line, rest, f) \<Rightarrow> if f then line # crlf_lines rest else [])"
  by pat_completeness auto
termination
  by (relation "measure length") (auto dest!: crlf_cut_length [OF sym])

declare crlf_lines.simps [simp del]

definition continuation :: "string \<Rightarrow> bool" where
  "continuation line \<longleftrightarrow> line \<noteq> [] \<and> (hd line = CHR '' '' \<or> byte (hd line) = 9)"

definition has_colon :: "string \<Rightarrow> bool" where
  "has_colon line \<longleftrightarrow> CHR '':'' \<in> set line"

text \<open>The loop over the header lines: \<open>first\<close> and \<open>colon\<close> are the code's variables.\<close>

fun header_loop :: "bool \<Rightarrow> bool \<Rightarrow> string list \<Rightarrow> bool" where
  "header_loop first colon [] = False"
| "header_loop first colon (line # ls) =
     (if \<not> first \<and> continuation line then header_loop first (colon \<or> has_colon line) ls
      else if \<not> colon then True
      else if line = [] then False
      else header_loop False (has_colon line) ls)"

definition ignorable :: "string \<Rightarrow> bool" where
  "ignorable s \<longleftrightarrow> list_all (\<lambda>c. byte c = 0 \<or> c = cr \<or> c = lf) s"

definition Malformed :: "string \<Rightarrow> bool" where
  "Malformed s =
     (if ignorable s then False
      else let (line, after, ok) = cut cr s in
        if \<not> ok \<or> after = [] \<or> hd after \<noteq> lf then True
        else if \<not> requestOrStatusLine line then True
        else if \<not> contains (cr # after) [cr, lf, cr, lf] then True
        else header_loop True True (crlf_lines (tl after)))"

section \<open>Read filter\<close>

definition MaxReadSize :: nat where
  "MaxReadSize = 24 * 1024"

definition IsByteStream :: "unicode \<Rightarrow> string \<Rightarrow> bool" where
  "IsByteStream u transport \<longleftrightarrow> equal_fold u transport ''tcp'' \<or> equal_fold u transport ''tls''"

text \<open>An empty result tells the library to discard the read.\<close>

definition ReadFilter :: "unicode \<Rightarrow> nat \<Rightarrow> (string \<Rightarrow> bool) \<Rightarrow> string \<Rightarrow> string \<Rightarrow> string" where
  "ReadFilter u maxSize accept transport s =
     (if maxSize > 0 \<and> length s > maxSize \<and> \<not> IsByteStream u transport then []
      else if \<not> accept transport then [] else s)"

section \<open>Listener addresses\<close>

text \<open>\<^verbatim>\<open>net.SplitHostPort\<close>\<close>

definition last_cut :: "char \<Rightarrow> string \<Rightarrow> (string \<times> string) option" where
  "last_cut c s = (if c \<in> set s
     then Some (rev (drop 1 (dropWhile (\<lambda>x. x \<noteq> c) (rev s))), rev (takeWhile (\<lambda>x. x \<noteq> c) (rev s))) else None)"

definition SplitHostPort :: "string \<Rightarrow> (string \<times> string) option" where
  "SplitHostPort s = (case last_cut (CHR '':'') s of
       None \<Rightarrow> None
     | Some (before, port) \<Rightarrow>
         if hd s = CHR ''['' then
           (let (host, after, ok) = cut (CHR '']'') (tl s) in
            if \<not> ok \<or> after \<noteq> CHR '':'' # port then None
            else if CHR ''['' \<in> set (tl s) \<or> CHR '']'' \<in> set after then None
            else Some (host, port))
         else if CHR '':'' \<in> set before then None
         else if CHR ''['' \<in> set s \<or> CHR '']'' \<in> set s then None
         else Some (before, port))"

definition parseHostPortAddr :: "string \<Rightarrow> addr option" where
  "parseHostPortAddr hp = (case SplitHostPort hp of None \<Rightarrow> None
     | Some (host, _) \<Rightarrow> map_option unmap (ParseAddr host))"

definition SourceAddrPort :: "string \<Rightarrow> addrport option" where
  "SourceAddrPort source = (case SplitHostPort source of None \<Rightarrow> None
     | Some (host, port) \<Rightarrow> (case ParseAddr host of None \<Rightarrow> None
         | Some ip \<Rightarrow> (case atoi port of None \<Rightarrow> None | Some p \<Rightarrow> Some (unmap ip, of_int p))))"

definition wildcard_host :: "string \<Rightarrow> bool" where
  "wildcard_host h = (case ParseAddr h of None \<Rightarrow> False | Some ip \<Rightarrow> is_unspecified ip)"

definition sameAddr :: "string \<Rightarrow> string \<Rightarrow> bool" where
  "sameAddr a b = (case (SplitHostPort a, SplitHostPort b) of
       (Some (ah, ap), Some (bh, bp)) \<Rightarrow>
         if ap \<noteq> bp then False else if ah = bh then True else wildcard_host ah \<or> wildcard_host bh
     | _ \<Rightarrow> a = b)"

definition SameListener :: "unicode \<Rightarrow> string \<Rightarrow> string \<Rightarrow> string \<Rightarrow> string \<Rightarrow> bool" where
  "SameListener u transport loc bindTransport bind0 =
     (if \<not> equal_fold u transport bindTransport then False else sameAddr loc bind0)"

definition DefaultPort :: "unicode \<Rightarrow> string \<Rightarrow> nat" where
  "DefaultPort u transport = (let t = to_lower u transport in
     if t = ''tls'' then 5061 else if t = ''ws'' then 80 else if t = ''wss'' then 443 else 5060)"

section \<open>Lifetimes\<close>

definition maxDeltaSeconds :: nat where
  "maxDeltaSeconds = 2 ^ 32 - 1"

definition DeltaSeconds :: "string \<Rightarrow> dur option" where
  "DeltaSeconds v0 =
     (let v = trim_space v0 in
      if v = [] then None
      else if \<not> list_all is_digit v then None
      else let n = (case parse_uint 64 v of None \<Rightarrow> maxDeltaSeconds
                | Some n \<Rightarrow> if n > maxDeltaSeconds then maxDeltaSeconds else n)
        in Some (int n * second))"

text \<open>A Contact header, as the code reads it: the binding token and the parameters of its header.\<close>

record contact =
  c_Token :: "string option"
  c_Params :: bool
  c_Expires :: "string option"
  c_Wildcard :: bool

text \<open>The loop over the Contacts of \<^verbatim>\<open>GrantedExpires\<close>.\<close>

fun contact_expires :: "(contact \<Rightarrow> bool) \<Rightarrow> contact list \<Rightarrow> dur option" where
  "contact_expires match [] = None"
| "contact_expires match (c # cs) =
     (if \<not> c_Params c \<or> \<not> match c then contact_expires match cs
      else case c_Expires c of None \<Rightarrow> contact_expires match cs
        | Some v \<Rightarrow> (case DeltaSeconds v of None \<Rightarrow> contact_expires match cs | Some d \<Rightarrow> Some d))"

definition header_expires :: "string option \<Rightarrow> dur option" where
  "header_expires h = (case h of None \<Rightarrow> None | Some v \<Rightarrow> DeltaSeconds v)"

definition GrantedExpires :: "contact list \<Rightarrow> string option \<Rightarrow> dur \<Rightarrow> (contact \<Rightarrow> bool) \<Rightarrow> dur" where
  "GrantedExpires contacts expires requested match = (case contact_expires match contacts of
       Some d \<Rightarrow> d
     | None \<Rightarrow> (case header_expires expires of Some d \<Rightarrow> d
         | None \<Rightarrow> if requested < 0 then 0 else requested))"

text \<open>\<^verbatim>\<open>requestedExpires\<close> of \<^verbatim>\<open>src/internal/edge/register.go\<close>: the lifetime and whether it is an un-REGISTER.\<close>

definition requestedExpires :: "contact list \<Rightarrow> string option \<Rightarrow> dur \<times> bool" where
  "requestedExpires contacts expires =
     (let first = (case contacts of [] \<Rightarrow> None
            | c # _ \<Rightarrow> if c_Params c then (case c_Expires c of None \<Rightarrow> None | Some v \<Rightarrow> DeltaSeconds v) else None)
      in case first of
           Some d \<Rightarrow> (d, d = 0)
         | None \<Rightarrow> (case header_expires expires of Some d \<Rightarrow> (d, d = 0) | None \<Rightarrow> (0, False)))"

section \<open>What the structural check flags\<close>

text \<open>A header is its first line and the continuation lines after it.\<close>

function headers :: "string list \<Rightarrow> string list list" where
  "headers [] = []"
| "headers (l # ls) = (l # takeWhile continuation ls) # headers (dropWhile continuation ls)"
  by pat_completeness auto
termination
  by (relation "measure length") (auto simp: le_imp_less_Suc length_dropWhile_le)

definition block_lines :: "string \<Rightarrow> string list" where
  "block_lines s = takeWhile (\<lambda>l. l \<noteq> []) (crlf_lines s)"

definition blank_line :: string where
  "blank_line = [cr, lf, cr, lf]"

lemma cr_lf [simp]: "cr \<noteq> lf" "lf \<noteq> cr" "byte cr = 13" "byte lf = 10"
  by (simp_all add: cr_def lf_def byte_def)

lemma cr_iff: "cr = c \<longleftrightarrow> byte c = 13" "c = cr \<longleftrightarrow> byte c = 13" "lf = c \<longleftrightarrow> byte c = 10" "c = lf \<longleftrightarrow> byte c = 10"
  using byte_inj [of c cr] byte_inj [of c lf] by auto

lemma continuation_Nil [simp]: "\<not> continuation []"
  by (simp add: continuation_def)

lemma header_loop_spec:
  "[] \<in> set ls \<Longrightarrow> header_loop False c ls \<longleftrightarrow>
     (let hs = takeWhile (\<lambda>l. l \<noteq> []) ls in
      \<not> (c \<or> list_ex has_colon (takeWhile continuation hs)) \<or>
      (\<exists>h \<in> set (headers (dropWhile continuation hs)). \<not> list_ex has_colon h))"
proof (induction ls arbitrary: c)
  case (Cons l ls)
  show ?case
  proof (cases "l = []")
    case False
    then have ls: "[] \<in> set ls" using Cons.prems by auto
    show ?thesis using False Cons.IH [OF ls] by (simp add: Let_def)
  qed (simp add: Let_def)
qed simp

lemma header_loop_start:
  assumes "[] \<in> set ls"
  shows "header_loop True True ls \<longleftrightarrow> (\<exists>h \<in> set (headers (takeWhile (\<lambda>l. l \<noteq> []) ls)). \<not> list_ex has_colon h)"
proof (cases ls)
  case (Cons l ls')
  then show ?thesis
    using assms header_loop_spec [of ls' "has_colon l"] by (cases "l = []") (auto simp: Let_def)
qed (use assms in simp)

lemma crlf_cut_blank:
  "contains s [cr, lf, cr, lf] \<Longrightarrow> crlf_cut s = (a, b, f) \<Longrightarrow> f \<and> (contains b [cr, lf, cr, lf] \<or> has_prefix b [cr, lf])"
proof (induction s arbitrary: a b f rule: crlf_cut.induct)
  case (3 c d s)
  show ?case
  proof (cases "c = cr \<and> d = lf")
    case True
    then show ?thesis using "3.prems" by auto
  next
    case False
    obtain a' b' f' where cut: "crlf_cut (d # s) = (a', b', f')" by (cases "crlf_cut (d # s)") auto
    moreover have "contains (d # s) [cr, lf, cr, lf]" using "3.prems"(1) False by auto
    ultimately show ?thesis using "3.IH" [OF False, of a' b' f'] "3.prems"(2) False by auto
  qed
qed auto

lemma crlf_lines_prefix: "has_prefix s [cr, lf] \<Longrightarrow> [] \<in> set (crlf_lines s)"
proof -
  assume "has_prefix s [cr, lf]"
  then obtain t where "s = cr # lf # t" by (cases s rule: crlf_cut.cases) auto
  then show ?thesis using crlf_lines.simps [of "cr # lf # t"] by simp
qed

lemma crlf_lines_blank: "contains s [cr, lf, cr, lf] \<Longrightarrow> [] \<in> set (crlf_lines s)"
proof (induction s rule: crlf_lines.induct)
  case (1 s)
  obtain a b f where cut: "crlf_cut s = (a, b, f)" by (cases "crlf_cut s") auto
  have "f" and cases: "contains b [cr, lf, cr, lf] \<or> has_prefix b [cr, lf]"
    using crlf_cut_blank [OF 1(2) cut] by auto
  then have "[] \<in> set (crlf_lines b)" using 1(1) [OF cut [symmetric] refl] crlf_lines_prefix by auto
  then show ?case using cut \<open>f\<close> by (simp add: crlf_lines.simps [of s])
qed

lemma cut_decomp: "cut c s = (a, b, True) \<longleftrightarrow> s = a @ c # b \<and> c \<notin> set a"
proof (induction s arbitrary: a b)
  case (Cons x s)
  then show ?case by (cases "cut c s"; cases a) auto
qed simp

lemma contains_start: "contains (cr # lf # s) blank_line \<Longrightarrow> [] \<in> set (crlf_lines s)"
  using crlf_lines_blank [of s] crlf_lines_prefix [of s] by (auto simp: blank_line_def)

text \<open>
  Exactly what the check flags. A read is flagged unless it is only NUL, CR and LF, or it starts
  with a request or status line ended by CRLF, has an empty line, and every header before it, taken
  with its continuation lines, has a colon.
\<close>

theorem malformed_exact:
  "Malformed s \<longleftrightarrow> \<not> ignorable s \<and>
    (\<forall>line rest. s = line @ cr # lf # rest \<longrightarrow> cr \<notin> set line \<longrightarrow>
      \<not> requestOrStatusLine line \<or> \<not> contains (cr # lf # rest) blank_line \<or>
      (\<exists>h \<in> set (headers (block_lines rest)). \<forall>l \<in> set h. \<not> has_colon l))"
proof (cases "ignorable s")
  case False
  obtain a b f where cut: "cut cr s = (a, b, f)" by (cases "cut cr s") auto
  show ?thesis
  proof (cases "f \<and> b \<noteq> [] \<and> hd b = lf")
    case True
    then obtain rest where b: "b = lf # rest" by (cases b) auto
    then have s: "s = a @ cr # lf # rest" "cr \<notin> set a" using cut True cut_decomp [of cr s a b] by auto
    have uniq: "s = line @ cr # lf # r \<and> cr \<notin> set line \<longleftrightarrow> line = a \<and> r = rest" for line r
      using cut_decomp [of cr s line "lf # r"] cut True b by auto
    have "Malformed s \<longleftrightarrow> \<not> requestOrStatusLine a \<or> \<not> contains (cr # lf # rest) blank_line \<or> header_loop True True (crlf_lines rest)"
      using False cut True b by (simp add: Malformed_def blank_line_def)
    moreover have "contains (cr # lf # rest) blank_line \<Longrightarrow> header_loop True True (crlf_lines rest) \<longleftrightarrow>
        (\<exists>h \<in> set (headers (block_lines rest)). \<forall>l \<in> set h. \<not> has_colon l)"
      using header_loop_start [OF contains_start] by (simp add: block_lines_def list_ex_iff)
    ultimately have "Malformed s \<longleftrightarrow> \<not> requestOrStatusLine a \<or> \<not> contains (cr # lf # rest) blank_line \<or>
        (\<exists>h \<in> set (headers (block_lines rest)). \<forall>l \<in> set h. \<not> has_colon l)" by blast
    then show ?thesis using False uniq by metis
  next
    case bad: False
    have "Malformed s" using False cut bad by (auto simp: Malformed_def)
    moreover have "\<not> (s = line @ cr # lf # rest \<and> cr \<notin> set line)" for line rest
      using bad cut cut_decomp [of cr s line "lf # rest"] by auto
    ultimately show ?thesis using False by blast
  qed
qed (simp add: Malformed_def)

section \<open>A well-formed message passes\<close>

definition message :: "string \<Rightarrow> string list \<Rightarrow> string \<Rightarrow> string" where
  "message start hs body = start @ cr # lf # concat (map (\<lambda>h. h @ [cr, lf]) hs) @ cr # lf # body"

lemma crlf_cut_line: "cr \<notin> set h \<Longrightarrow> crlf_cut (h @ cr # lf # t) = (h, t, True)"
proof (induction h)
  case (Cons c h)
  then show ?case by (cases h) auto
qed simp

lemma crlf_lines_headers:
  "\<forall>h \<in> set hs. cr \<notin> set h \<Longrightarrow> crlf_lines (concat (map (\<lambda>h. h @ [cr, lf]) hs) @ t) = hs @ crlf_lines t"
proof (induction hs)
  case (Cons h hs)
  then show ?case using crlf_cut_line [of h] by (subst crlf_lines.simps) simp
qed simp

lemma block_lines_message:
  assumes "\<forall>h \<in> set hs. cr \<notin> set h \<and> h \<noteq> []"
  shows "block_lines (concat (map (\<lambda>h. h @ [cr, lf]) hs) @ cr # lf # body) = hs"
proof -
  have "crlf_lines (cr # lf # body) = [] # crlf_lines body" by (subst crlf_lines.simps) simp
  then show ?thesis using assms crlf_lines_headers [of hs "cr # lf # body"] by (simp add: block_lines_def takeWhile_append)
qed

lemma contains_append: "contains (a @ b) s \<longleftrightarrow> contains b s \<or> (\<exists>x y. a = x @ y \<and> y \<noteq> [] \<and> has_prefix (y @ b) s)"
proof (induction a)
  case (Cons c a)
  then show ?case by (auto simp: Cons_eq_append_conv) (metis append_Cons list.discI)
qed simp

lemma has_prefix_iff: "has_prefix s p \<longleftrightarrow> (\<exists>t. s = p @ t)"
  by (induction s p rule: has_prefix.induct) auto

lemma contains_intro: "contains (a @ p @ b) p"
proof -
  have "has_prefix (p @ b) p" by (auto simp: has_prefix_iff)
  then have "contains (p @ b) p" by (cases "p @ b") auto
  then show ?thesis by (simp add: contains_append)
qed

lemma message_blank:
  assumes "\<forall>h \<in> set hs. h \<noteq> []"
  shows "contains (cr # lf # concat (map (\<lambda>h. h @ [cr, lf]) hs) @ cr # lf # body) blank_line"
proof (cases hs rule: rev_cases)
  case Nil
  then show ?thesis using contains_intro [of "[]" blank_line body] by (simp add: blank_line_def)
next
  case (snoc hs' h)
  then have "cr # lf # concat (map (\<lambda>h. h @ [cr, lf]) hs) @ cr # lf # body =
      (cr # lf # concat (map (\<lambda>h. h @ [cr, lf]) hs') @ h) @ blank_line @ body" by (simp add: blank_line_def)
  then show ?thesis using contains_intro by metis
qed

lemma headers_parts: "g \<in> set (headers ls) \<Longrightarrow> \<exists>l \<in> set g. l \<in> set ls"
proof (induction ls rule: headers.induct)
  case (2 l ls)
  then show ?case by (auto dest: set_dropWhileD)
qed simp

text \<open>
  The contract of the check: a valid message is never struck. A message made of a request or
  status line, header lines that each have a colon, an empty line and any body is not flagged.
\<close>

theorem wellformed_never_flagged:
  assumes "requestOrStatusLine start" "cr \<notin> set start" "\<forall>h \<in> set hs. h \<noteq> [] \<and> cr \<notin> set h \<and> has_colon h"
  shows "\<not> Malformed (message start hs body)"
proof -
  let ?rest = "concat (map (\<lambda>h. h @ [cr, lf]) hs) @ cr # lf # body"
  have m: "message start hs body = start @ cr # lf # ?rest" by (simp add: message_def)
  have lines: "block_lines ?rest = hs" using assms(3) by (intro block_lines_message) auto
  have blank: "contains (cr # lf # ?rest) blank_line" using assms(3) by (intro message_blank) auto
  have colon: "\<not> (\<exists>h \<in> set (headers (block_lines ?rest)). \<forall>l \<in> set h. \<not> has_colon l)"
    unfolding lines using assms(3) headers_parts by blast
  have "cut cr (message start hs body) = (start, lf # ?rest, True)" using assms(2) by (simp add: cut_decomp m)
  then show ?thesis
    using assms(1) blank colon header_loop_start [OF contains_start [OF blank]]
    by (auto simp: Malformed_def blank_line_def block_lines_def list_ex_iff)
qed

definition options_line :: string where
  "options_line = ''OPTIONS sip:a SIP/2.0''"

lemma options_line_ok: "requestOrStatusLine options_line" "cr \<notin> set options_line"
  by (simp_all add: requestOrStatusLine_def options_line_def isSIP_def cr_iff byte_def)

theorem wellformed_never_flagged_witness:
  "\<not> Malformed (message options_line [''Via: x'', '' folded: y''] ''body'') \<and>
   Malformed (message options_line [''Via x''] [])"
proof
  show "\<not> Malformed (message options_line [''Via: x'', '' folded: y''] ''body'')"
    by (rule wellformed_never_flagged) (use options_line_ok in \<open>auto simp: has_colon_def cr_iff byte_def\<close>)
  have cut: "cut cr (message options_line [''Via x''] []) = (options_line, lf # ''Via x'' @ [cr, lf, cr, lf], True)"
    using options_line_ok(2) by (simp add: message_def cut_decomp)
  have start: "Malformed m = header_loop True True (crlf_lines rest)"
    if "\<not> ignorable m" "cut cr m = (options_line, lf # rest, True)" "contains (cr # lf # rest) [cr, lf, cr, lf]" for m rest
    using that options_line_ok(1) by (simp add: Malformed_def)
  have "crlf_lines (''Via x'' @ [cr, lf, cr, lf]) = [''Via x'', []]"
    using crlf_lines_headers [of "[''Via x'']" "[cr, lf]"] crlf_lines.simps [of "[cr, lf]"] crlf_lines.simps [of "[]"]
    by (simp add: cr_iff byte_def)
  moreover have "\<not> ignorable (message options_line [''Via x''] [])"
    by (simp add: ignorable_def message_def options_line_def cr_iff byte_def)
  moreover have "\<not> has_colon ''Via x''" by (simp add: has_colon_def)
  ultimately show "Malformed (message options_line [''Via x''] [])"
    using start [OF _ cut] by simp
qed

theorem malformed_exact_witness: "Malformed ''no message''"
proof -
  have "\<not> (''no message'' = line @ cr # lf # rest)" for line rest
  proof
    assume "''no message'' = line @ cr # lf # rest"
    then have "cr \<in> set ''no message''" by (metis in_set_conv_decomp)
    then show False by (simp add: cr_iff byte_def)
  qed
  moreover have "\<not> ignorable ''no message''" by (simp add: ignorable_def cr_iff byte_def)
  ultimately show ?thesis using malformed_exact by blast
qed

section \<open>Lifetimes are bounded\<close>

lemma DeltaSeconds_bounds: "DeltaSeconds v = Some d \<Longrightarrow> 0 \<le> d \<and> d \<le> int maxDeltaSeconds * second"
  by (auto simp: DeltaSeconds_def Let_def second_def split: if_splits option.splits)

lemma contact_expires_bounds: "contact_expires m cs = Some d \<Longrightarrow> 0 \<le> d \<and> d \<le> int maxDeltaSeconds * second"
  by (induction m cs rule: contact_expires.induct) (auto simp: DeltaSeconds_bounds split: if_splits option.splits)

lemma expiry_bounds:
  "0 \<le> GrantedExpires cs e req m \<and> GrantedExpires cs e req m \<le> max req (int maxDeltaSeconds * second) \<and>
    int maxDeltaSeconds * second < 2 ^ 63"
  using contact_expires_bounds [of m cs] DeltaSeconds_bounds
  by (auto simp: GrantedExpires_def header_expires_def second_def maxDeltaSeconds_def le_max_iff_disj split: option.splits)

lemma requestedExpires_nonneg: "0 \<le> fst (requestedExpires cs e) \<and> (snd (requestedExpires cs e) \<longrightarrow> fst (requestedExpires cs e) = 0)"
  using DeltaSeconds_bounds
  by (auto simp: requestedExpires_def header_expires_def Let_def split: option.splits list.splits)

end
