(* ===== verification/Regscan.thy ===== *)
theory Regscan
  imports Sip_Message
begin

text \<open>
  \<^verbatim>\<open>src/internal/sip/regscan.go\<close>: what the read filter reads off the raw bytes of a REGISTER, and
  the digest parameters it and the handlers share. \<open>digest_params_roundtrip\<close> shows that a credential
  is read back exactly, whatever its values contain; \<open>attempt_key_canonical\<close> that two writings of one
  attempt have one key.
\<close>

section \<open>FNV-1a\<close>

definition fnv_offset :: "64 word" where
  "fnv_offset = 14695981039346656037"

definition fnv_prime :: "64 word" where
  "fnv_prime = 1099511628211"

definition fnv64a :: "string \<Rightarrow> 64 word" where
  "fnv64a s = foldl (\<lambda>h c. (h XOR of_nat (byte c)) * fnv_prime) fnv_offset s"

section \<open>Digest parameters\<close>

definition trim_left_of :: "char set \<Rightarrow> string \<Rightarrow> string" where
  "trim_left_of cs s = dropWhile (\<lambda>c. c \<in> cs) s"

definition tab :: char where
  "tab = char_of (9 :: nat)"

text \<open>The part of a quoted value after the opening quote: the value, and the text after the closing quote.\<close>

fun quoted :: "string \<Rightarrow> string \<times> string" where
  "quoted [] = ([], [])"
| "quoted [c] = (if c = CHR 0x22 then ([], []) else ([c], []))"
| "quoted (c # d # s) =
     (if c = CHR 0x5C then (let (v, r) = quoted s in (d # v, r))
      else if c = CHR 0x22 then ([], d # s)
      else (let (v, r) = quoted (d # s) in (c # v, r)))"

lemma quoted_length: "length (snd (quoted s)) \<le> length s"
  by (induction s rule: quoted.induct) (auto split: prod.splits)

text \<open>After the comma, nothing without one.\<close>

definition after_comma :: "string \<Rightarrow> string" where
  "after_comma s = (case cut (CHR '','') s of (a, b, f) \<Rightarrow> if f then b else [])"

lemma cut_parts_length: "cut c s = (a, b, f) \<Longrightarrow> length a \<le> length s \<and> length b \<le> length s \<and> (f \<longrightarrow> length b < length s)"
proof (induction s arbitrary: a b f)
  case (Cons x s)
  obtain a' b' f' where "cut c s = (a', b', f')" by (cases "cut c s")
  then show ?case using Cons.IH [of a' b' f'] Cons.prems by (auto split: if_splits)
qed simp

lemma after_comma_length: "length (after_comma s) \<le> length s"
  by (auto simp: after_comma_def split: prod.splits dest: cut_parts_length)

lemma trim_left_of_length: "length (trim_left_of cs s) \<le> length s"
  by (simp add: trim_left_of_def length_dropWhile_le)

text \<open>The loop of \<^verbatim>\<open>eachDigestParam\<close>: all pairs, in order.\<close>

function digest_loop :: "string \<Rightarrow> (string \<times> string) list" where
  "digest_loop s0 =
     (if s0 = [] then []
      else case cut (CHR ''='') (trim_left_of {CHR '' '', tab, CHR '',''} s0) of (k0, after, ok) \<Rightarrow>
        if \<not> ok then []
        else let s = trim_left_of {CHR '' '', tab} after in
          if s \<noteq> [] \<and> hd s = CHR 0x22
          then (trim_space k0, fst (quoted (tl s))) # digest_loop (after_comma (snd (quoted (tl s))))
          else (trim_space k0, trim_space (fst (cut (CHR '','') s))) # digest_loop (after_comma s))"
  by pat_completeness auto

lemma digest_loop_decreases:
  assumes "s0 \<noteq> []" "(k0, after, True) = cut (CHR ''='') (trim_left_of cs s0)"
  shows "length (after_comma (trim_left_of ds after)) < length s0"
    "length (after_comma (snd (quoted (tl (trim_left_of ds after))))) < length s0"
proof -
  have "length after < length (trim_left_of cs s0)" using cut_parts_length [OF assms(2) [symmetric]] by simp
  then have a: "length (trim_left_of ds after) < length s0"
    using trim_left_of_length [of cs s0] trim_left_of_length [of ds after] by simp
  then show "length (after_comma (trim_left_of ds after)) < length s0"
    using after_comma_length le_less_trans by blast
  have "length (after_comma (snd (quoted (tl (trim_left_of ds after))))) \<le> length (tl (trim_left_of ds after))"
    using after_comma_length quoted_length le_trans by blast
  then show "length (after_comma (snd (quoted (tl (trim_left_of ds after))))) < length s0" using a by simp
qed

termination digest_loop
  by (relation "measure length") (auto intro: digest_loop_decreases)

declare digest_loop.simps [simp del]

text \<open>The scheme is the first token unless the text starts with a parameter.\<close>

definition after_scheme :: "string \<Rightarrow> string" where
  "after_scheme value =
     (let s = trim_space value; tok = takeWhile (\<lambda>c. c \<noteq> CHR '' '' \<and> c \<noteq> tab) s in
      if length tok < length s \<and> CHR ''='' \<notin> set tok then drop (length tok + 1) s else s)"

definition eachDigestParam :: "string \<Rightarrow> (string \<times> string) list" where
  "eachDigestParam value = digest_loop (after_scheme value)"

definition DigestParam :: "unicode \<Rightarrow> string \<Rightarrow> string \<Rightarrow> string option" where
  "DigestParam u value name = map_option snd (find (\<lambda>(k, v). equal_fold u k name) (eachDigestParam value))"

definition digest_fields :: "string list" where
  "digest_fields = [''username'', ''realm'', ''nonce'', ''uri'', ''response'', ''cnonce'', ''nc'']"

text \<open>The first value of a field that is not empty.\<close>

definition digest_val :: "unicode \<Rightarrow> (string \<times> string) list \<Rightarrow> string \<Rightarrow> string" where
  "digest_val u ps f = (case find (\<lambda>(k, v). equal_fold u k f \<and> v \<noteq> []) ps of None \<Rightarrow> [] | Some (k, v) \<Rightarrow> v)"

definition nul :: char where
  "nul = char_of (0 :: nat)"

definition DigestIdentity :: "unicode \<Rightarrow> string \<Rightarrow> string \<times> string \<times> 64 word" where
  "DigestIdentity u value =
     (let ps = eachDigestParam value; vals = map (digest_val u ps) digest_fields in
      (vals ! 0, vals ! 2,
       if vals ! 4 = [] then fnv64a (trim_space value) else fnv64a (concat (map (\<lambda>v. v @ [nul]) vals))))"

section \<open>Addresses of record\<close>

definition contains_any :: "string \<Rightarrow> string \<Rightarrow> bool" where
  "contains_any s chars = list_ex (\<lambda>c. c \<in> set chars) s"

definition host_bad :: string where
  "host_bad = [CHR '' '', tab, cr, lf, CHR ''<'', CHR ''>'', CHR '';'', CHR '','', CHR 0x22]"

definition NormalizeAOR :: "unicode \<Rightarrow> string \<Rightarrow> string \<Rightarrow> string option" where
  "NormalizeAOR u user host =
     (if user = [] \<or> host = [] then None
      else if contains_any user (CHR ''@'' # host_bad) \<or> length user > 128 then None
      else if contains_any host host_bad \<or> length host > 255 then None
      else Some (to_lower u (user @ ''@'' @ host)))"

text \<open>The text between the angle brackets, the text before a semicolon, or all of it.\<close>

definition to_uri :: "string \<Rightarrow> string option" where
  "to_uri v = (case cut (CHR ''<'') v of (a, inner, lt) \<Rightarrow>
     if lt then (case cut (CHR ''>'') inner of (uri, b, gt) \<Rightarrow> if gt then Some uri else None)
     else Some (fst (cut (CHR '';'') v)))"

definition aorOfToValue :: "unicode \<Rightarrow> string \<Rightarrow> string" where
  "aorOfToValue u v0 = (case to_uri v0 of None \<Rightarrow> []
     | Some v1 \<Rightarrow> (case cut (CHR '':'') (trim_space v1) of (scheme, rest, ok) \<Rightarrow>
         if \<not> ok \<or> \<not> (equal_fold u scheme ''sip'' \<or> equal_fold u scheme ''sips'') then []
         else case last_cut (CHR ''@'') rest of
             None \<Rightarrow> []
           | Some (user0, host0) \<Rightarrow>
               (let user = fst (cut (CHR '':'') user0);
                    host1 = takeWhile (\<lambda>c. c \<noteq> CHR '';'' \<and> c \<noteq> CHR ''?'') host0;
                    host = (if has_prefix host1 ''['' then
                        (case cut (CHR '']'') host1 of (h, r, f) \<Rightarrow> if f then h @ '']'' else host1)
                      else fst (cut (CHR '':'') host1))
                in case NormalizeAOR u user host of None \<Rightarrow> [] | Some a \<Rightarrow> a)))"

section \<open>The scan\<close>

record register_head =
  Branch :: string
  rh_CallID :: string
  rh_AOR :: string
  Auth :: bool
  rh_User :: string
  Nonce :: string
  AuthKey :: "64 word"

definition head_zero :: register_head where
  "head_zero = \<lparr>Branch = [], rh_CallID = [], rh_AOR = [], Auth = False, rh_User = [], Nonce = [], AuthKey = 0\<rparr>"

definition headerIs :: "unicode \<Rightarrow> string \<Rightarrow> string \<Rightarrow> string \<Rightarrow> bool" where
  "headerIs u name long compact \<longleftrightarrow> equal_fold u name long \<or> compact \<noteq> [] \<and> equal_fold u name compact"

definition interesting :: "unicode \<Rightarrow> string \<Rightarrow> bool" where
  "interesting u name \<longleftrightarrow> headerIs u name ''via'' ''v'' \<or> headerIs u name ''call-id'' ''i'' \<or> headerIs u name ''to'' ''t'' \<or>
     headerIs u name ''authorization'' [] \<or> headerIs u name ''proxy-authorization'' []"

definition paramOf :: "unicode \<Rightarrow> string \<Rightarrow> string \<Rightarrow> string option" where
  "paramOf u v name = (case cut (CHR '';'') v of (a, params, ok) \<Rightarrow>
     if \<not> ok then None
     else map_option (\<lambda>p. trim_space (fst (snd (cut (CHR ''='') p))))
       (find (\<lambda>p. equal_fold u (trim_space (fst (cut (CHR ''='') p))) name) (split_on (CHR '';'') params)))"

text \<open>The loop's variables. An empty \<open>sn_name\<close> is the code's nil.\<close>

record scan_state =
  sn_head :: register_head
  sn_via :: bool
  sn_name :: string
  sn_value :: string

definition flush :: "unicode \<Rightarrow> scan_state \<Rightarrow> scan_state" where
  "flush u st =
     (if sn_name st = [] then st
      else let v = trim_space (sn_value st); name = sn_name st; h = sn_head st;
             st1 = (if headerIs u name ''via'' ''v'' then
                 (if \<not> sn_via st
                  then st\<lparr>sn_via := True, sn_head := h\<lparr>Branch := (case paramOf u (fst (cut (CHR '','') v)) ''branch'' of
                       None \<Rightarrow> [] | Some b \<Rightarrow> b)\<rparr>\<rparr>
                  else st)
               else if headerIs u name ''call-id'' ''i'' then
                 (if rh_CallID h = [] then st\<lparr>sn_head := h\<lparr>rh_CallID := v\<rparr>\<rparr> else st)
               else if headerIs u name ''to'' ''t'' then
                 (if rh_AOR h = [] then st\<lparr>sn_head := h\<lparr>rh_AOR := aorOfToValue u v\<rparr>\<rparr> else st)
               else if headerIs u name ''authorization'' [] \<or> headerIs u name ''proxy-authorization'' [] then
                 (if \<not> Auth h then (case DigestIdentity u v of (usr, n, k) \<Rightarrow>
                    st\<lparr>sn_head := h\<lparr>Auth := True, rh_User := usr, Nonce := n, AuthKey := k\<rparr>\<rparr>) else st)
               else st)
        in st1\<lparr>sn_name := [], sn_value := []\<rparr>)"

definition trim_cr :: "string \<Rightarrow> string" where
  "trim_cr line = (if line \<noteq> [] \<and> last line = cr then butlast line else line)"

fun scan_lines :: "unicode \<Rightarrow> string list \<Rightarrow> scan_state \<Rightarrow> scan_state" where
  "scan_lines u [] st = st"
| "scan_lines u (line0 # ls) st =
     (let line = trim_cr line0 in
      if line = [] then st
      else if hd line = CHR '' '' \<or> hd line = tab then
        scan_lines u ls (if sn_name st \<noteq> [] \<and> interesting u (sn_name st)
          then st\<lparr>sn_value := sn_value st @ '' '' @ trim_space line\<rparr> else st)
      else let st1 = flush u st in
        case cut (CHR '':'') line of (n, v, ok) \<Rightarrow>
          if \<not> ok then scan_lines u ls st1
          else let name = trim_space n; st2 = st1\<lparr>sn_name := name\<rparr> in
            scan_lines u ls (if interesting u name then st2\<lparr>sn_value := v\<rparr> else st2))"

definition ScanRegister :: "unicode \<Rightarrow> string \<Rightarrow> register_head \<times> bool" where
  "ScanRegister u msg =
     (if \<not> has_prefix msg ''REGISTER '' then (head_zero, False)
      else case cut lf msg of (a, rest, ok) \<Rightarrow>
        if \<not> ok then (head_zero, True)
        else (sn_head (flush u (scan_lines u (split_on lf rest)
          \<lparr>sn_head = head_zero, sn_via = False, sn_name = [], sn_value = []\<rparr>)), True))"

section \<open>A credential is read back exactly\<close>

definition escape :: "string \<Rightarrow> string" where
  "escape v = concat (map (\<lambda>c. if c = CHR 0x22 \<or> c = CHR 0x5C then [CHR 0x5C, c] else [c]) v)"

definition render_digest :: "string \<times> string \<Rightarrow> string" where
  "render_digest p = fst p @ CHR ''='' # CHR 0x22 # escape (snd p) @ [CHR 0x22]"

definition digest_value :: "(string \<times> string) list \<Rightarrow> string" where
  "digest_value ps = ''Digest '' @ join '', '' (map render_digest ps)"

text \<open>A parameter name: ASCII without spaces, commas and equals signs.\<close>

definition param_name :: "string \<Rightarrow> bool" where
  "param_name k \<longleftrightarrow> k \<noteq> [] \<and> plain_word k \<and> CHR ''='' \<notin> set k \<and> CHR '','' \<notin> set k"

lemma tab_byte [simp]: "byte tab = 9"
  by (simp add: tab_def byte_def)

lemma tab_iff: "tab = c \<longleftrightarrow> byte c = 9" "c = tab \<longleftrightarrow> byte c = 9"
  using byte_inj [of c tab] by auto

lemma plain_not_space: "plain_word k \<Longrightarrow> CHR '' '' \<notin> set k \<and> tab \<notin> set k"
  by (auto simp: plain_word_def list_all_iff is_ascii_space_def byte_def tab_def)

lemma quoted_escape: "quoted (escape v @ CHR 0x22 # t) = (v, t)"
proof (induction v)
  case Nil
  then show ?case by (cases t) (simp_all add: escape_def)
next
  case (Cons c v)
  obtain d r where tail: "escape v @ CHR 0x22 # t = d # r" by (cases "escape v @ CHR 0x22 # t") auto
  have split: "escape (c # v) @ CHR 0x22 # t =
      (if c = CHR 0x22 \<or> c = CHR 0x5C then CHR 0x5C # c # (escape v @ CHR 0x22 # t) else c # (escape v @ CHR 0x22 # t))"
    by (simp add: escape_def)
  show ?case
  proof (cases "c = CHR 0x22 \<or> c = CHR 0x5C")
    case True
    then show ?thesis using Cons by (simp only: split) auto
  next
    case False
    then show ?thesis using Cons by (simp add: split tail)
  qed
qed

lemma trim_left_param:
  assumes "param_name k" "set pre \<subseteq> {CHR '' '', tab, CHR '',''}" "cs = {CHR '' '', tab, CHR '',''}"
  shows "trim_left_of cs (pre @ k @ t) = k @ t"
proof -
  obtain c k' where k: "k = c # k'" using assms(1) by (cases k) (auto simp: param_name_def)
  then have "c \<notin> cs" using assms(1,3) plain_not_space [of k] by (auto simp: param_name_def)
  moreover have "dropWhile (\<lambda>x. x \<in> cs) (pre @ y) = dropWhile (\<lambda>x. x \<in> cs) y" for y
    using assms(2,3) by (induction pre) auto
  ultimately show ?thesis by (simp add: trim_left_of_def k)
qed

lemma digest_loop_param:
  assumes "param_name k" "set pre \<subseteq> {CHR '' '', tab, CHR '',''}"
  shows "digest_loop (pre @ render_digest (k, v) @ t) = (k, v) # digest_loop (after_comma t)"
proof -
  let ?s = "pre @ render_digest (k, v) @ t"
  have s: "?s = pre @ k @ CHR ''='' # CHR 0x22 # escape v @ CHR 0x22 # t" by (simp add: render_digest_def)
  have ne: "?s \<noteq> []" using assms(1) by (simp add: s param_name_def)
  have cut: "cut (CHR ''='') (trim_left_of {CHR '' '', tab, CHR '',''} ?s) = (k, CHR 0x22 # escape v @ CHR 0x22 # t, True)"
    unfolding s trim_left_param [OF assms refl] using assms(1) by (simp add: cut_first param_name_def)
  have quote: "trim_left_of {CHR '' '', tab} (CHR 0x22 # r) = CHR 0x22 # r" for r
    by (simp add: trim_left_of_def tab_iff byte_def)
  have "trim_space k = k" using assms(1) by (simp add: param_name_def)
  then show ?thesis using ne cut quote quoted_escape by (subst digest_loop.simps) simp
qed

lemma after_comma_simps: "after_comma [] = []" "after_comma ('', '' @ t) = '' '' @ t"
  by (simp_all add: after_comma_def)

lemma digest_loop_params:
  "ps \<noteq> [] \<Longrightarrow> \<forall>p \<in> set ps. param_name (fst p) \<Longrightarrow> pre = [] \<or> pre = '' '' \<Longrightarrow>
    digest_loop (pre @ join '', '' (map render_digest ps)) = ps"
proof (induction ps arbitrary: pre)
  case (Cons p ps)
  obtain k v where p: "p = (k, v)" by (cases p)
  have pre: "set pre \<subseteq> {CHR '' '', tab, CHR '',''}" and k: "param_name k" using Cons.prems p by auto
  show ?case
  proof (cases ps)
    case Nil
    have "digest_loop [] = []" by (simp add: digest_loop.simps)
    then show ?thesis using digest_loop_param [OF k pre, of v "[]"] by (simp add: p Nil after_comma_simps)
  next
    case (Cons q qs)
    have "digest_loop ('' '' @ join '', '' (map render_digest ps)) = ps"
      using Cons.IH [of "'' ''"] Cons.prems Cons by simp
    then show ?thesis
      using digest_loop_param [OF k pre, of v "'', '' @ join '', '' (map render_digest ps)"] after_comma_simps(2)
      by (simp add: p Cons)
  qed
qed simp

lemma trim_space_ends:
  assumes "byte c < 128" "\<not> is_ascii_space c" "byte d < 128" "\<not> is_ascii_space d"
  shows "trim_space (c # s @ [d]) = c # s @ [d]"
proof -
  have "trim_start unicode_spaces (c # s @ [d]) = c # s @ [d]"
    by (rule trim_start_noop) (simp add: space_len_plain assms)
  moreover have "trim_start (map rev unicode_spaces) (d # rev s @ [c]) = d # rev s @ [c]"
    by (rule trim_start_noop) (simp add: space_len_plain assms)
  ultimately show ?thesis by (simp add: trim_space_def trim_left_space_def trim_right_space_def)
qed

lemma join_last: "ps \<noteq> [] \<Longrightarrow> \<exists>r. join '', '' (map render_digest ps) = r @ [CHR 0x22]"
proof (induction ps)
  case (Cons p ps)
  show ?case
  proof (cases ps)
    case Nil
    then show ?thesis by (simp add: render_digest_def)
  next
    case (Cons q qs)
    then show ?thesis using Cons.IH by auto
  qed
qed simp

lemma digest_value_scheme:
  assumes "ps \<noteq> []"
  shows "after_scheme (digest_value ps) = join '', '' (map render_digest ps)" "trim_space (digest_value ps) = digest_value ps"
proof -
  obtain r where r: "join '', '' (map render_digest ps) = r @ [CHR 0x22]" using join_last [OF assms] by blast
  have v: "digest_value ps = CHR ''D'' # (''igest '' @ r) @ [CHR 0x22]" by (simp add: digest_value_def r)
  show trim: "trim_space (digest_value ps) = digest_value ps"
    unfolding v by (rule trim_space_ends) (simp_all add: byte_def is_ascii_space_def)
  have "takeWhile (\<lambda>c. c \<noteq> CHR '' '' \<and> c \<noteq> tab) (digest_value ps) = ''Digest''"
    by (simp add: digest_value_def tab_iff byte_def)
  then show "after_scheme (digest_value ps) = join '', '' (map render_digest ps)"
    using trim by (simp add: after_scheme_def digest_value_def Let_def)
qed

lemma digest_params_lemma:
  "ps \<noteq> [] \<Longrightarrow> \<forall>p \<in> set ps. param_name (fst p) \<Longrightarrow> eachDigestParam (digest_value ps) = ps"
  using digest_loop_params [of ps "[]"] digest_value_scheme(1) [of ps] by (simp add: eachDigestParam_def)

text \<open>
  A credential is read back exactly. For any parameters, whatever their values contain (commas,
  quotes, backslashes, any byte), reading the rendered header gives the same parameters in the same order.
\<close>

theorem digest_params_roundtrip:
  assumes "ps \<noteq> []" "\<forall>p \<in> set ps. param_name (fst p)"
  shows "eachDigestParam (digest_value ps) = ps"
  by (rule digest_params_lemma [OF assms])

definition sample_credential :: "(string \<times> string) list" where
  "sample_credential = [(''username'', ''a,b''), (''response'', [CHR 0x22, CHR 0x5C])]"

lemma sample_names: "\<forall>p \<in> set sample_credential. param_name (fst p)"
  by (simp add: sample_credential_def param_name_def plain_word_def is_ascii_space_def byte_def)

theorem digest_params_roundtrip_witness:
  "eachDigestParam (digest_value sample_credential) = sample_credential \<and> length sample_credential = 2"
  using digest_params_roundtrip [OF _ sample_names] by (simp add: sample_credential_def)

section \<open>One attempt, one key\<close>

text \<open>
  The strike table remembers an attempt by this key, so a replay that changes spacing, quoting or the
  order of the parameters must not get a new one. \<open>dressed\<close> says that two credentials have the same
  value for every field of the identity.
\<close>

definition dressed :: "unicode \<Rightarrow> (string \<times> string) list \<Rightarrow> (string \<times> string) list \<Rightarrow> bool" where
  "dressed u ps qs \<longleftrightarrow> (\<forall>f \<in> set digest_fields. digest_val u ps f = digest_val u qs f)"

text \<open>
  One attempt has one identity. Two writings of a credential that agree on the digest fields, with
  a response, have the same user, nonce and key: extra parameters, case of the names and order do not
  matter, and without a nonce field in either the nonce is empty.
\<close>

theorem attempt_key_canonical:
  assumes "ps \<noteq> []" "qs \<noteq> []" "\<forall>p \<in> set ps \<union> set qs. param_name (fst p)" "dressed u ps qs"
    and "digest_val u ps ''response'' \<noteq> []"
  shows "DigestIdentity u (digest_value ps) = DigestIdentity u (digest_value qs) \<and>
    fst (snd (DigestIdentity u (digest_value ps))) = digest_val u ps ''nonce''"
proof -
  have "eachDigestParam (digest_value ps) = ps" "eachDigestParam (digest_value qs) = qs"
    using assms(1-3) digest_params_lemma by auto
  then show ?thesis
    using assms(4,5) by (simp add: DigestIdentity_def dressed_def digest_fields_def)
qed

theorem attempt_key_canonical_witness:
  "DigestIdentity ascii_tables (digest_value [(''username'', ''a''), (''response'', ''r'')]) =
   DigestIdentity ascii_tables (digest_value [(''response'', ''r''), (''opaque'', ''x''), (''username'', ''a'')])"
proof -
  let ?ps = "[(''username'', ''a''), (''response'', ''r'')]"
  let ?qs = "[(''response'', ''r''), (''opaque'', ''x''), (''username'', ''a'')]"
  have names: "\<forall>p \<in> set ?ps \<union> set ?qs. param_name (fst p)"
    by (simp add: param_name_def plain_word_def is_ascii_space_def byte_def)
  have "dressed ascii_tables ?ps ?qs"
    by (simp add: dressed_def digest_fields_def digest_val_def equal_fold_def is_ascii_def lower_str_def lower_ascii_def is_upper_def byte_def)
  moreover have "digest_val ascii_tables ?ps ''response'' \<noteq> []"
    by (simp add: digest_val_def equal_fold_def is_ascii_def lower_str_def lower_ascii_def is_upper_def byte_def)
  ultimately show ?thesis using attempt_key_canonical [OF _ _ names] by simp
qed

end
