(* ===== verification/Regguard.thy ===== *)
theory Regguard
  imports Admission Regscan
begin

text \<open>
  The REGISTER credential guard's table (\<^verbatim>\<open>regGuard\<close> of \<^verbatim>\<open>src/internal/edge/regguard.go\<close>): per
  source key, the nonces and branches of the challenges relayed to it and the attempts already
  counted, each in a small ring, under an LRU cap. \<open>counted_was_challenged\<close> is the protection
  against forged sources, \<open>counted_once\<close> the one against replays.
\<close>

section \<open>Model\<close>

definition regGuardSources :: nat where
  "regGuardSources = 16384"

definition regNonceTTL :: dur where
  "regNonceTTL = 15 * minute"

definition regReplayWindow :: dur where
  "regReplayWindow = 40 * second"

definition regNoncesPerSource :: nat where
  "regNoncesPerSource = 4"

definition regBranchesPerSource :: nat where
  "regBranchesPerSource = 8"

definition regStruckPerSource :: nat where
  "regStruckPerSource = 16"

record reg_stamp =
  st_h :: "64 word"
  st_at :: gtime

definition stamp_zero :: reg_stamp where
  "stamp_zero = \<lparr>st_h = 0, st_at = t_zero\<rparr>"

text \<open>The fixed arrays are lists of their length.\<close>

record reg_record =
  rr_nonces :: "reg_stamp list"
  rr_ni :: nat
  rr_branches :: "reg_stamp list"
  rr_bi :: nat
  rr_struck :: "64 word list"
  rr_si :: nat

definition new_record :: reg_record where
  "new_record = \<lparr>rr_nonces = replicate regNoncesPerSource stamp_zero, rr_ni = 0,
     rr_branches = replicate regBranchesPerSource stamp_zero, rr_bi = 0,
     rr_struck = replicate regStruckPerSource 0, rr_si = 0\<rparr>"

record reg_guard =
  rg_lru :: "(addr, reg_record) lru"
  rg_max :: nat

definition newRegGuard :: reg_guard where
  "newRegGuard = \<lparr>rg_lru = lru_empty, rg_max = regGuardSources\<rparr>"

definition regHash :: "string \<Rightarrow> 64 word" where
  "regHash s = fnv64a s"

definition add_nonce :: "gtime \<Rightarrow> string \<Rightarrow> reg_record \<Rightarrow> reg_record" where
  "add_nonce now n r = r\<lparr>rr_nonces := (rr_nonces r)[rr_ni r := \<lparr>st_h = regHash n, st_at = now\<rparr>],
     rr_ni := (rr_ni r + 1) mod length (rr_nonces r)\<rparr>"

definition add_branch :: "gtime \<Rightarrow> string \<Rightarrow> reg_record \<Rightarrow> reg_record" where
  "add_branch now b r = r\<lparr>rr_branches := (rr_branches r)[rr_bi r := \<lparr>st_h = regHash b, st_at = now\<rparr>],
     rr_bi := (rr_bi r + 1) mod length (rr_branches r)\<rparr>"

text \<open>The record a challenge finds or creates, and the table with it at the front.\<close>

definition record_for :: "addr \<Rightarrow> reg_guard \<Rightarrow> reg_guard \<times> reg_record" where
  "record_for key g = (case lru_get (rg_lru g) key of
       Some r \<Rightarrow> (g\<lparr>rg_lru := lru_front key (rg_lru g)\<rparr>, r)
     | None \<Rightarrow> (g\<lparr>rg_lru := lru_push key new_record (lru_make_room (rg_max g) (rg_lru g))\<rparr>, new_record))"

definition challenged :: "gtime \<Rightarrow> addr \<Rightarrow> string \<Rightarrow> string list \<Rightarrow> reg_guard \<Rightarrow> reg_guard" where
  "challenged now src branch nonces g =
     (if nonces = [] then g
      else let key = enumKey src; (g1, r) = record_for key g; r1 = fold (add_nonce now) nonces r;
               r2 = (if branch \<noteq> [] then add_branch now branch r1 else r1)
        in g1\<lparr>rg_lru := lru_write key r2 (rg_lru g1)\<rparr>)"

definition recent :: "reg_stamp list \<Rightarrow> 64 word \<Rightarrow> gtime \<Rightarrow> dur \<Rightarrow> bool" where
  "recent ring h now ttl = list_ex (\<lambda>s. st_h s = h \<and> \<not> t_is_zero (st_at s) \<and> t_sub now (st_at s) < ttl) ring"

definition attempt_id :: "string \<Rightarrow> 64 word \<Rightarrow> 64 word" where
  "attempt_id branch attempt = regHash branch XOR (attempt * 0x9e3779b97f4a7c15)"

definition countable :: "gtime \<Rightarrow> addr \<Rightarrow> string \<Rightarrow> string \<Rightarrow> 64 word \<Rightarrow> bool \<Rightarrow> reg_guard \<Rightarrow> reg_guard \<times> bool" where
  "countable now src branch nonce attempt replay g =
     (if nonce = [] then (g, False)
      else case lru_get (rg_lru g) (enumKey src) of
        None \<Rightarrow> (g, False)
      | Some r \<Rightarrow>
          if \<not> recent (rr_nonces r) (regHash nonce) now regNonceTTL then (g, False)
          else if replay \<and> (branch = [] \<or> \<not> recent (rr_branches r) (regHash branch) now regReplayWindow) then (g, False)
          else if attempt_id branch attempt \<in> set (rr_struck r) then (g, False)
          else (g\<lparr>rg_lru := lru_write (enumKey src) (r\<lparr>rr_struck := (rr_struck r)[rr_si r := attempt_id branch attempt],
                    rr_si := (rr_si r + 1) mod length (rr_struck r)\<rparr>) (rg_lru g)\<rparr>, True))"

definition guard_size :: "reg_guard \<Rightarrow> nat" where
  "guard_size g = length (entries (rg_lru g))"

section \<open>The table stays well formed\<close>

definition record_ok :: "reg_record \<Rightarrow> bool" where
  "record_ok r \<longleftrightarrow> length (rr_nonces r) = regNoncesPerSource \<and> rr_ni r < regNoncesPerSource \<and>
     length (rr_branches r) = regBranchesPerSource \<and> rr_bi r < regBranchesPerSource \<and>
     length (rr_struck r) = regStruckPerSource \<and> rr_si r < regStruckPerSource"

definition guard_ok :: "reg_guard \<Rightarrow> bool" where
  "guard_ok g \<longleftrightarrow> rg_max g = regGuardSources \<and> lru_ok regGuardSources (rg_lru g) \<and>
     (\<forall>k r. lru_get (rg_lru g) k = Some r \<longrightarrow> record_ok r)"

lemmas ring_caps = regNoncesPerSource_def regBranchesPerSource_def regStruckPerSource_def regGuardSources_def

lemma new_record_ok [simp]: "record_ok new_record"
  by (simp add: record_ok_def new_record_def ring_caps)

lemma add_ok [simp]: "record_ok r \<Longrightarrow> record_ok (add_nonce now n r)" "record_ok r \<Longrightarrow> record_ok (add_branch now b r)"
  by (auto simp: record_ok_def add_nonce_def add_branch_def ring_caps)

lemma add_nonces_ok: "record_ok r \<Longrightarrow> record_ok (fold (add_nonce now) ns r)"
  by (induction ns arbitrary: r) auto

lemma record_for_ok:
  assumes "guard_ok g"
  shows "let (g1, r) = record_for key g in rg_max g1 = regGuardSources \<and> lru_ok regGuardSources (rg_lru g1) \<and>
    lru_get (rg_lru g1) key = Some r \<and> record_ok r \<and> (r = new_record \<or> lru_get (rg_lru g) key = Some r) \<and>
    (\<forall>k. k \<noteq> key \<longrightarrow> lru_get (rg_lru g1) k = None \<or> lru_get (rg_lru g1) k = lru_get (rg_lru g) k)"
proof (cases "lru_get (rg_lru g) key")
  case None
  then have "lru_ok regGuardSources (lru_push key new_record (lru_make_room regGuardSources (rg_lru g)))"
    using assms by (intro lru_insert_ok) (auto simp: guard_ok_def ring_caps)
  then show ?thesis
    using assms None
    by (auto simp: record_for_def guard_ok_def lru_defs lru_make_room_def lru_evict_back_def Let_def split: list.splits)
next
  case (Some r)
  then show ?thesis
    using assms lru_ok_front [of regGuardSources "rg_lru g" key r] by (auto simp: record_for_def guard_ok_def lru_defs)
qed

text \<open>What a challenge leaves for each key.\<close>

lemma challenged_get:
  assumes "guard_ok g" "nonces \<noteq> []"
  shows "\<exists>r. (r = new_record \<or> lru_get (rg_lru g) (enumKey src) = Some r) \<and> record_ok r \<and>
      lru_get (rg_lru (challenged now src branch nonces g)) (enumKey src) =
        Some (let r1 = fold (add_nonce now) nonces r in if branch \<noteq> [] then add_branch now branch r1 else r1)"
    "k \<noteq> enumKey src \<Longrightarrow> lru_get (rg_lru (challenged now src branch nonces g)) k = None \<or>
      lru_get (rg_lru (challenged now src branch nonces g)) k = lru_get (rg_lru g) k"
proof -
  obtain g1 r where gr: "record_for (enumKey src) g = (g1, r)" by (cases "record_for (enumKey src) g")
  note facts = record_for_ok [OF assms(1), of "enumKey src", unfolded gr, simplified]
  have eq: "challenged now src branch nonces g = g1\<lparr>rg_lru := lru_write (enumKey src)
      (let r1 = fold (add_nonce now) nonces r in if branch \<noteq> [] then add_branch now branch r1 else r1) (rg_lru g1)\<rparr>"
    using assms(2) gr by (simp add: challenged_def Let_def)
  show "\<exists>r. (r = new_record \<or> lru_get (rg_lru g) (enumKey src) = Some r) \<and> record_ok r \<and>
      lru_get (rg_lru (challenged now src branch nonces g)) (enumKey src) =
        Some (let r1 = fold (add_nonce now) nonces r in if branch \<noteq> [] then add_branch now branch r1 else r1)"
    unfolding eq using facts by (intro exI [of _ r]) (simp add: lru_write_def lru_get_def)
  show "k \<noteq> enumKey src \<Longrightarrow> lru_get (rg_lru (challenged now src branch nonces g)) k = None \<or>
      lru_get (rg_lru (challenged now src branch nonces g)) k = lru_get (rg_lru g) k"
    unfolding eq using facts by (simp add: lru_write_def lru_get_def)
qed

lemma challenged_ok:
  assumes "guard_ok g"
  shows "guard_ok (challenged now src branch nonces g)"
proof (cases "nonces = []")
  case False
  obtain g1 r where gr: "record_for (enumKey src) g = (g1, r)" by (cases "record_for (enumKey src) g")
  note facts = record_for_ok [OF assms, of "enumKey src", unfolded gr, simplified]
  have "rg_max (challenged now src branch nonces g) = regGuardSources"
    "lru_ok regGuardSources (rg_lru (challenged now src branch nonces g))"
    using False gr facts lru_ok_write by (auto simp: challenged_def Let_def)
  moreover have "record_ok r'" if r': "lru_get (rg_lru (challenged now src branch nonces g)) k = Some r'" for k r'
  proof (cases "k = enumKey src")
    case True
    then show ?thesis
      using r' challenged_get(1) [OF assms False, where src = src and now = now and branch = branch] add_nonces_ok
      by (auto simp: Let_def split: if_splits)
  next
    case other: False
    then have "lru_get (rg_lru g) k = Some r'"
      using r' challenged_get(2) [OF assms False other, where now = now and branch = branch] by simp
    then show ?thesis using assms by (simp add: guard_ok_def)
  qed
  ultimately show ?thesis by (simp add: guard_ok_def)
qed (use assms in \<open>simp add: challenged_def\<close>)

lemma countable_ok:
  assumes "guard_ok g"
  shows "guard_ok (fst (countable now src branch nonce attempt replay g))"
proof -
  have "record_ok (r\<lparr>rr_struck := (rr_struck r)[rr_si r := x], rr_si := (rr_si r + 1) mod length (rr_struck r)\<rparr>)"
    if "record_ok r" for r x
    using that by (simp add: record_ok_def ring_caps)
  then show ?thesis
    using assms lru_ok_write
    by (auto simp: countable_def guard_ok_def lru_write_def lru_get_def split: option.splits)
qed

text \<open>The guard's two operations as events.\<close>

datatype guard_ev = GChallenge gtime addr string "string list" | GCount gtime addr string string "64 word" bool

fun guard_step :: "guard_ev \<Rightarrow> reg_guard \<Rightarrow> reg_guard" where
  "guard_step (GChallenge now src branch nonces) g = challenged now src branch nonces g"
| "guard_step (GCount now src branch nonce attempt replay) g = fst (countable now src branch nonce attempt replay g)"

interpretation gm: bounded_machine guard_step newRegGuard guard_ok guard_size regGuardSources
proof (unfold_locales, goal_cases)
  case 1
  show ?case by (simp add: guard_ok_def newRegGuard_def) (simp add: lru_empty_def lru_get_def)
next
  case (2 s x)
  then show ?case by (cases x) (auto simp: challenged_ok countable_ok)
next
  case (3 s)
  then show ?case using lru_ok_size [of regGuardSources "rg_lru s"] by (simp add: guard_ok_def guard_size_def lru_ok_def)
qed

section \<open>A counted attempt was challenged\<close>

text \<open>The stamps of a key come from challenges relayed to it.\<close>

definition nonce_challenged :: "guard_ev list \<Rightarrow> addr \<Rightarrow> 64 word \<Rightarrow> gtime \<Rightarrow> bool" where
  "nonce_challenged es key h t \<longleftrightarrow>
     (\<exists>src branch nonces. GChallenge t src branch nonces \<in> set es \<and> enumKey src = key \<and> h \<in> regHash ` set nonces)"

definition branch_challenged :: "guard_ev list \<Rightarrow> addr \<Rightarrow> 64 word \<Rightarrow> gtime \<Rightarrow> bool" where
  "branch_challenged es key h t \<longleftrightarrow>
     (\<exists>src branch nonces. GChallenge t src branch nonces \<in> set es \<and> enumKey src = key \<and> branch \<noteq> [] \<and> h = regHash branch)"

definition traced :: "guard_ev list \<Rightarrow> addr \<Rightarrow> reg_record \<Rightarrow> bool" where
  "traced es key r \<longleftrightarrow>
     (\<forall>s \<in> set (rr_nonces r). st_at s = t_zero \<or> nonce_challenged es key (st_h s) (st_at s)) \<and>
     (\<forall>s \<in> set (rr_branches r). st_at s = t_zero \<or> branch_challenged es key (st_h s) (st_at s))"

definition guard_traced :: "guard_ev list \<Rightarrow> reg_guard \<Rightarrow> bool" where
  "guard_traced es g \<longleftrightarrow> (\<forall>k r. lru_get (rg_lru g) k = Some r \<longrightarrow> traced es k r)"

lemma traced_mono: "traced es k r \<Longrightarrow> set es \<subseteq> set fs \<Longrightarrow> traced fs k r"
  by (fastforce simp: traced_def nonce_challenged_def branch_challenged_def)

lemma traced_new [simp]: "traced es k new_record"
  by (auto simp: traced_def new_record_def stamp_zero_def)

lemma traced_add_nonce:
  "traced es k r \<Longrightarrow> nonce_challenged es k (regHash n) now \<Longrightarrow> traced es k (add_nonce now n r)"
  by (auto simp: traced_def add_nonce_def dest!: set_update_subset_insert [THEN subsetD])

lemma traced_add_branch:
  "traced es k r \<Longrightarrow> branch_challenged es k (regHash b) now \<Longrightarrow> traced es k (add_branch now b r)"
  by (auto simp: traced_def add_branch_def dest!: set_update_subset_insert [THEN subsetD])

lemma traced_add_nonces:
  "traced es k r \<Longrightarrow> \<forall>n \<in> set ns. nonce_challenged es k (regHash n) now \<Longrightarrow> traced es k (fold (add_nonce now) ns r)"
  by (induction ns arbitrary: r) (auto simp: traced_add_nonce)

lemma guard_traced_step:
  assumes "guard_ok g" "guard_traced es g"
  shows "guard_traced (es @ [x]) (guard_step x g)"
proof (cases x)
  case (GChallenge now src branch nonces)
  show ?thesis
  proof (cases "nonces = []")
    case True
    then show ?thesis
      using assms(2) traced_mono [of es _ _ "es @ [x]"] by (auto simp: GChallenge challenged_def guard_traced_def)
  next
    case False
    have old: "traced (es @ [x]) k r" if "lru_get (rg_lru g) k = Some r" for k r
      using assms(2) that traced_mono [of es k r "es @ [x]"] by (auto simp: guard_traced_def)
    have n: "\<forall>n \<in> set nonces. nonce_challenged (es @ [x]) (enumKey src) (regHash n) now"
      by (auto simp: nonce_challenged_def GChallenge)
    have b: "branch \<noteq> [] \<Longrightarrow> branch_challenged (es @ [x]) (enumKey src) (regHash branch) now"
      by (auto simp: branch_challenged_def GChallenge)
    have "traced (es @ [x]) k r" if r: "lru_get (rg_lru (challenged now src branch nonces g)) k = Some r" for k r
    proof (cases "k = enumKey src")
      case True
      obtain r0 where r0: "r0 = new_record \<or> lru_get (rg_lru g) (enumKey src) = Some r0"
        "r = (let r1 = fold (add_nonce now) nonces r0 in if branch \<noteq> [] then add_branch now branch r1 else r1)"
        using challenged_get(1) [OF assms(1) False, where src = src and now = now and branch = branch] r True by auto
      then have "traced (es @ [x]) k r0" using old True by auto
      then show ?thesis using r0(2) n b traced_add_nonces traced_add_branch True by (auto simp: Let_def)
    next
      case other: False
      then show ?thesis
        using r old challenged_get(2) [OF assms(1) False other, where now = now and branch = branch] by simp
    qed
    then show ?thesis by (simp add: guard_traced_def GChallenge)
  qed
next
  case (GCount now src branch nonce attempt replay)
  have "traced (es @ [x]) k r" if "lru_get (rg_lru (guard_step x g)) k = Some r" for k r
  proof -
    have "\<exists>r0. lru_get (rg_lru g) k = Some r0 \<and> rr_nonces r = rr_nonces r0 \<and> rr_branches r = rr_branches r0"
      using that by (auto simp: GCount countable_def lru_write_def lru_get_def split: option.splits if_splits)
    then obtain r0 where "lru_get (rg_lru g) k = Some r0" "rr_nonces r = rr_nonces r0" "rr_branches r = rr_branches r0" by blast
    then have "traced es k r" using assms(2) by (auto simp: guard_traced_def traced_def)
    then show ?thesis by (rule traced_mono) auto
  qed
  then show ?thesis by (simp add: guard_traced_def)
qed

lemma guard_run_traced: "guard_ok g \<Longrightarrow> guard_traced es g \<Longrightarrow> guard_traced (es @ xs) (run_ops guard_step xs g)"
proof (induction xs arbitrary: es g)
  case (Cons x xs)
  then show ?case using Cons.IH [OF gm.inv_step guard_traced_step, of g es x] by simp
qed simp

lemma guard_reach_traced: "guard_traced es (run_ops guard_step es newRegGuard)"
  using guard_run_traced [OF gm.inv_init, of "[]" es] by (simp add: guard_traced_def newRegGuard_def lru_empty_def lru_get_def)

lemma countable_needs_challenge:
  assumes "guard_traced es g" "snd (countable now src branch nonce attempt replay g)"
  shows "\<exists>t. nonce_challenged es (enumKey src) (regHash nonce) t \<and> t_sub now t < regNonceTTL"
    "replay \<Longrightarrow> branch \<noteq> [] \<and> (\<exists>t. branch_challenged es (enumKey src) (regHash branch) t \<and> t_sub now t < regReplayWindow)"
proof -
  obtain r where r: "lru_get (rg_lru g) (enumKey src) = Some r" "recent (rr_nonces r) (regHash nonce) now regNonceTTL"
    "replay \<longrightarrow> branch \<noteq> [] \<and> recent (rr_branches r) (regHash branch) now regReplayWindow"
    using assms(2) by (auto simp: countable_def split: if_splits option.splits)
  have tr: "traced es (enumKey src) r" using assms(1) r(1) by (auto simp: guard_traced_def)
  show "\<exists>t. nonce_challenged es (enumKey src) (regHash nonce) t \<and> t_sub now t < regNonceTTL"
    using tr r(2) by (fastforce simp: traced_def recent_def list_ex_iff t_is_zero_def)
  show "replay \<Longrightarrow> branch \<noteq> [] \<and> (\<exists>t. branch_challenged es (enumKey src) (regHash branch) t \<and> t_sub now t < regReplayWindow)"
    using tr r(3) by (fastforce simp: traced_def recent_def list_ex_iff t_is_zero_def)
qed

text \<open>
  A forged source is never counted. In any history of the guard, an attempt counts only if, within
  the last 15 minutes, a challenge with its nonce (up to its 64-bit hash) was relayed to that same
  source key; a replay counts only if moreover its branch was challenged there within 40 seconds.
\<close>

theorem counted_was_challenged:
  assumes "snd (countable now src branch nonce attempt replay (run_ops guard_step es newRegGuard))"
  shows "(\<exists>t. nonce_challenged es (enumKey src) (regHash nonce) t \<and> t_sub now t < regNonceTTL) \<and>
    (replay \<longrightarrow> branch \<noteq> [] \<and> (\<exists>t. branch_challenged es (enumKey src) (regHash branch) t \<and> t_sub now t < regReplayWindow))"
  using countable_needs_challenge [OF guard_reach_traced assms] by blast

text \<open>A history in which a source was challenged.\<close>

definition sample_challenge :: "guard_ev list" where
  "sample_challenge = [GChallenge 1 (V4 7) ''z9hG4bK'' [''nonce'']]"

lemma sample_record:
  "\<exists>r. lru_get (rg_lru (run_ops guard_step sample_challenge newRegGuard)) (V4 7) = Some r \<and>
    recent (rr_nonces r) (regHash ''nonce'') 2 regNonceTTL \<and> rr_struck r = replicate 16 0"
proof -
  let ?r = "add_branch 1 ''z9hG4bK'' (add_nonce 1 ''nonce'' new_record)"
  have get: "lru_get (rg_lru (run_ops guard_step sample_challenge newRegGuard)) (V4 7) = Some ?r"
    by (simp add: sample_challenge_def newRegGuard_def challenged_def record_for_def lru_empty_def lru_get_def lru_push_def
        lru_write_def lru_make_room_def ring_caps Let_def)
  have "\<lparr>st_h = regHash ''nonce'', st_at = 1\<rparr> \<in> set (rr_nonces ?r)"
    by (simp add: add_branch_def add_nonce_def new_record_def ring_caps set_update_memI)
  then have "recent (rr_nonces ?r) (regHash ''nonce'') 2 regNonceTTL"
    by (force simp: recent_def list_ex_iff regNonceTTL_def time_defs)
  moreover have "rr_struck ?r = replicate 16 0" by (simp add: add_branch_def add_nonce_def new_record_def ring_caps)
  ultimately show ?thesis using get by blast
qed

lemma sample_counted:
  assumes "attempt_id [] attempt \<noteq> 0"
  shows "snd (countable 2 (V4 7) [] ''nonce'' attempt False (run_ops guard_step sample_challenge newRegGuard))"
  using sample_record assms by (auto simp: countable_def)

lemma sample_id: "attempt_id [] 0 \<noteq> 0"
  by (simp add: attempt_id_def regHash_def fnv64a_def fnv_offset_def)

theorem counted_was_challenged_witness:
  "\<exists>t. nonce_challenged sample_challenge (V4 7) (regHash ''nonce'') t \<and> t_sub 2 t < regNonceTTL"
  using counted_was_challenged [OF sample_counted [OF sample_id]] by simp

section \<open>An attempt counts once\<close>

text \<open>The identity sits in the ring at a place the next fifteen writes do not reach.\<close>

definition struck_at :: "64 word \<Rightarrow> nat \<Rightarrow> reg_record \<Rightarrow> bool" where
  "struck_at i n r \<longleftrightarrow> record_ok r \<and> (\<exists>p < regStruckPerSource. \<exists>j \<le> n. rr_struck r ! p = i \<and> rr_si r = (p + 1 + j) mod regStruckPerSource)"

lemma struck_at_mono: "struck_at i n r \<Longrightarrow> n \<le> m \<Longrightarrow> struck_at i m r"
  unfolding struck_at_def using le_trans by blast

lemma struck_at_in: "struck_at i n r \<Longrightarrow> i \<in> set (rr_struck r)"
  by (auto simp: struck_at_def record_ok_def)

lemma struck_at_write:
  assumes "struck_at i n r" "n < regStruckPerSource - 1"
  shows "struck_at i (n + 1) (r\<lparr>rr_struck := (rr_struck r)[rr_si r := x], rr_si := (rr_si r + 1) mod length (rr_struck r)\<rparr>)"
proof -
  obtain p j where p: "p < 16" "j \<le> n" "rr_struck r ! p = i" "rr_si r = (p + 1 + j) mod 16" "record_ok r"
    using assms(1) by (auto simp: struck_at_def ring_caps)
  have ne: "(p + 1 + j) mod 16 \<noteq> p"
  proof (cases "p + 1 + j < 16")
    case False
    then have "(p + 1 + j) mod 16 = p + 1 + j - 16" using p(1,2) assms(2) by (simp add: ring_caps mod_if)
    then show ?thesis using p(2) assms(2) False by (simp add: ring_caps)
  qed simp
  let ?r = "r\<lparr>rr_struck := (rr_struck r)[rr_si r := x], rr_si := (rr_si r + 1) mod length (rr_struck r)\<rparr>"
  have "record_ok ?r" using p(5) by (simp add: record_ok_def ring_caps)
  moreover have "rr_struck ?r ! p = i" using p(3,4) ne by simp
  moreover have "rr_si ?r = (p + 1 + (j + 1)) mod regStruckPerSource"
    using p(4,5) by (simp add: record_ok_def ring_caps mod_Suc_eq)
  moreover have "p < regStruckPerSource" "j + 1 \<le> n + 1" using p(1,2) by (simp_all add: ring_caps)
  ultimately show ?thesis unfolding struck_at_def by blast
qed

lemma fold_nonce_struck: "rr_struck (fold (add_nonce now) ns r) = rr_struck r \<and> rr_si (fold (add_nonce now) ns r) = rr_si r"
  by (induction ns arbitrary: r) (simp_all add: add_nonce_def)

lemma struck_at_challenge:
  assumes "struck_at i n r"
  shows "struck_at i n (let r1 = fold (add_nonce now) ns r in if b \<noteq> [] then add_branch now b r1 else r1)"
proof -
  have "record_ok (fold (add_nonce now) ns r)" using assms add_nonces_ok by (auto simp: struck_at_def)
  then show ?thesis
    using assms fold_nonce_struck [of now ns r] add_ok(2) by (auto simp: struck_at_def Let_def add_branch_def)
qed

lemma struck_at_step:
  assumes "guard_ok g" "lru_get (rg_lru g) k = Some r" "struck_at i n r" "n < regStruckPerSource - 1"
    and "lru_get (rg_lru (guard_step x g)) k = Some r'"
  shows "struck_at i (n + 1) r'"
proof (cases x)
  case (GChallenge now src branch nonces)
  show ?thesis
  proof (cases "k = enumKey src \<and> nonces \<noteq> []")
    case True
    then have ne: "nonces \<noteq> []" and k: "k = enumKey src" by auto
    obtain g1 r0 where gr: "record_for k g = (g1, r0)" by (cases "record_for k g")
    have "r0 = r" using gr assms(2) by (auto simp: record_for_def)
    then have "r' = (let r1 = fold (add_nonce now) nonces r in if branch \<noteq> [] then add_branch now branch r1 else r1)"
      using assms(5) ne gr by (auto simp: GChallenge challenged_def k Let_def lru_write_def lru_get_def split: if_splits)
    then show ?thesis using struck_at_challenge [OF assms(3)] struck_at_mono le_add1 by metis
  next
    case False
    then have "lru_get (rg_lru (guard_step x g)) k = None \<or> lru_get (rg_lru (guard_step x g)) k = lru_get (rg_lru g) k"
      using challenged_get(2) [OF assms(1), where k = k and src = src and now = now and branch = branch and nonces = nonces]
      by (cases "nonces = []") (auto simp: GChallenge challenged_def)
    then have "r' = r" using assms(2,5) by auto
    then show ?thesis using assms(3) struck_at_mono le_add1 by blast
  qed
next
  case (GCount now src branch nonce attempt replay)
  have "r' = r \<or> r' = r\<lparr>rr_struck := (rr_struck r)[rr_si r := attempt_id branch attempt], rr_si := (rr_si r + 1) mod length (rr_struck r)\<rparr>"
    using assms(2,5) by (auto simp: GCount countable_def lru_write_def lru_get_def split: option.splits if_splits)
  then show ?thesis using assms(3,4) struck_at_write struck_at_mono le_add1 by metis
qed

lemma struck_at_run:
  assumes "guard_ok g" "lru_get (rg_lru g) k = Some r" "struck_at i n r" "n + length es < regStruckPerSource"
    and "\<forall>m \<le> length es. lru_get (rg_lru (run_ops guard_step (take m es) g)) k \<noteq> None"
  shows "\<exists>r'. lru_get (rg_lru (run_ops guard_step es g)) k = Some r' \<and> struck_at i (n + length es) r'"
  using assms
proof (induction es arbitrary: g r n)
  case (Cons x es)
  obtain r1 where r1: "lru_get (rg_lru (guard_step x g)) k = Some r1"
    using Cons.prems(5) [rule_format, of 1] by auto
  have s: "struck_at i (n + 1) r1" using struck_at_step [OF Cons.prems(1-3) _ r1] Cons.prems(4) by simp
  have "\<forall>m \<le> length es. lru_get (rg_lru (run_ops guard_step (take m es) (guard_step x g))) k \<noteq> None"
    using Cons.prems(5) by (metis Suc_le_mono length_Cons run_ops.simps(2) take_Suc_Cons)
  then show ?case using Cons.IH [OF gm.inv_step [OF Cons.prems(1)] r1 s] Cons.prems(4) by auto
qed auto

text \<open>
  An attempt counts once. After an attempt has been counted, the same branch and credential from
  the same source key is not counted again through the next fifteen events of the guard, a
  retransmission or a replay the registrar judges too included, as long as the source's record is kept.
\<close>

theorem counted_once:
  assumes "countable now src branch nonce attempt replay (run_ops guard_step hist newRegGuard) = (g1, True)"
    and "length es < regStruckPerSource" "enumKey src' = enumKey src"
    and "\<forall>m \<le> length es. lru_get (rg_lru (run_ops guard_step (take m es) g1)) (enumKey src) \<noteq> None"
  shows "\<not> snd (countable now' src' branch nonce' attempt replay' (run_ops guard_step es g1))"
proof -
  let ?g = "run_ops guard_step hist newRegGuard"
  have ok: "guard_ok ?g" "guard_ok g1"
    using gm.reach_inv countable_ok [OF gm.reach_inv [of hist], of now src branch nonce attempt replay] assms(1) by auto
  obtain r where r: "lru_get (rg_lru ?g) (enumKey src) = Some r" "record_ok r"
    "lru_get (rg_lru g1) (enumKey src) = Some (r\<lparr>rr_struck := (rr_struck r)[rr_si r := attempt_id branch attempt],
      rr_si := (rr_si r + 1) mod length (rr_struck r)\<rparr>)"
    using assms(1) ok(1) by (auto simp: countable_def guard_ok_def lru_write_def lru_get_def split: option.splits if_splits)
  have "struck_at (attempt_id branch attempt) 0 (r\<lparr>rr_struck := (rr_struck r)[rr_si r := attempt_id branch attempt],
      rr_si := (rr_si r + 1) mod length (rr_struck r)\<rparr>)"
    using r(2) by (auto simp: struck_at_def record_ok_def ring_caps intro!: exI [of _ "rr_si r"])
  then obtain r' where "lru_get (rg_lru (run_ops guard_step es g1)) (enumKey src) = Some r'" "attempt_id branch attempt \<in> set (rr_struck r')"
    using struck_at_run [OF ok(2) r(3) _ _ assms(4)] assms(2) struck_at_in by fastforce
  then show ?thesis by (simp add: countable_def assms(3))
qed

theorem counted_once_witness:
  "\<not> snd (countable 3 (V4 7) [] ''nonce'' 0 False
     (fst (countable 2 (V4 7) [] ''nonce'' 0 False (run_ops guard_step sample_challenge newRegGuard))))"
proof -
  let ?c = "countable 2 (V4 7) [] ''nonce'' 0 False (run_ops guard_step sample_challenge newRegGuard)"
  have c: "?c = (fst ?c, True)" using sample_counted [OF sample_id] by (metis prod.collapse)
  obtain r where "lru_get (rg_lru (run_ops guard_step sample_challenge newRegGuard)) (V4 7) = Some r"
    using sample_record by blast
  then have "lru_get (rg_lru (fst ?c)) (enumKey (V4 7)) \<noteq> None"
    by (auto simp: countable_def lru_write_def lru_get_def)
  then show ?thesis using counted_once [OF c, of "[]" "V4 7" 3 "''nonce''" False] by (simp add: ring_caps)
qed

end
