(* ===== verification/Carrier_Dir.thy ===== *)
theory Carrier_Dir
  imports Netip_Prefix
begin

text \<open>
  The carrier directory of \<^verbatim>\<open>src/internal/edge/carrierdns.go\<close>: what \<^verbatim>\<open>edge.carriers\<close> resolves
  to and which public sources are carriers. The DNS answers (\<open>dns\<close>), the random numbers
  (\<open>rnd\<close>, call by call) and the printing of addresses are parameters; \<open>clk\<close> is the clock as
  each carrier's refresh reads it. An \<open>Inl\<close> is a lookup error with its text.
\<close>

section \<open>Model: carriers and the published snapshot\<close>

record carrier =
  cf_Name :: string
  cf_Host :: string
  cf_Port :: int
  cf_ExplicitPort :: bool
  cf_Addr :: addr
  cf_Transport :: string
  cf_SRTP :: string

definition DialPort :: "carrier \<Rightarrow> int" where
  "DialPort c = (if \<not> cf_ExplicitPort c \<and> cf_Transport c = ''tls'' then 5061 else cf_Port c)"

definition Literal :: "carrier \<Rightarrow> bool" where
  "Literal c = addr_valid (cf_Addr c)"

definition carrierDNSTTL :: dur where
  "carrierDNSTTL = 300 * second"

definition carrierDNSNegTTL :: dur where
  "carrierDNSNegTTL = 10 * second"

definition carrierUnknown :: string where
  "carrierUnknown = ''unknown''"

record carrier_snapshot =
  cs_names :: "string list"
  cs_addrs :: "(string, addrport list) gomap"
  cs_nets :: "prefix list"
  cs_extra :: "prefix list"
  cs_transports :: "(string, string) gomap"

definition isSource :: "addr \<Rightarrow> carrier_snapshot \<Rightarrow> bool" where
  "isSource ip0 c = (let ip = no_zone (unmap ip0) in list_ex (\<lambda>p. prefix_contains p ip) (cs_nets c))"

definition plain_ap :: "addrport \<Rightarrow> addrport" where
  "plain_ap ap = (no_zone (unmap (fst ap)), snd ap)"

text \<open>The names whose transport is the request's, in order.\<close>

definition on_transport :: "string \<Rightarrow> carrier_snapshot \<Rightarrow> string list" where
  "on_transport network c = filter (\<lambda>n. m_get0 [] (cs_transports c) n = network) (cs_names c)"

definition isAddress :: "unicode \<Rightarrow> addrport \<Rightarrow> string \<Rightarrow> carrier_snapshot \<Rightarrow> bool" where
  "isAddress u src network c =
     list_ex (\<lambda>n. plain_ap src \<in> set (m_get0 [] (cs_addrs c) n)) (on_transport (to_lower u network) c)"

text \<open>The loops of \<^verbatim>\<open>carrierFor\<close>: \<open>Inl\<close> is the exact match it returns, \<open>Inr\<close> the value of \<^verbatim>\<open>byIP\<close>.\<close>

fun scan_addrs :: "addrport \<Rightarrow> string \<Rightarrow> string \<Rightarrow> addrport list \<Rightarrow> string + string" where
  "scan_addrs src n byIP [] = Inr byIP"
| "scan_addrs src n byIP (a # as) =
     (if a = src then Inl n
      else scan_addrs src n (if byIP = [] \<and> fst a = fst src then n else byIP) as)"

fun scan_names :: "carrier_snapshot \<Rightarrow> addrport \<Rightarrow> string \<Rightarrow> string \<Rightarrow> string list \<Rightarrow> string + string" where
  "scan_names c src network byIP [] = Inr byIP"
| "scan_names c src network byIP (n # ns) =
     (if m_get0 [] (cs_transports c) n \<noteq> network then scan_names c src network byIP ns
      else case scan_addrs src n byIP (m_get0 [] (cs_addrs c) n) of
          Inl n \<Rightarrow> Inl n
        | Inr byIP' \<Rightarrow> scan_names c src network byIP' ns)"

definition carrierFor :: "addrport \<Rightarrow> string \<Rightarrow> carrier_snapshot \<Rightarrow> string option" where
  "carrierFor src0 network c =
     (let src = plain_ap src0 in
      case scan_names c src network [] (cs_names c) of
        Inl n \<Rightarrow> Some n
      | Inr byIP \<Rightarrow>
          if byIP \<noteq> [] then Some byIP
          else if list_ex (\<lambda>p. prefix_contains p (fst src)) (cs_extra c) then Some carrierUnknown
          else None)"

section \<open>Model: the directory\<close>

definition carrierModeLiteral :: string where
  "carrierModeLiteral = ''literal''"

definition carrierModeSRV :: string where
  "carrierModeSRV = ''srv''"

definition carrierModeA :: string where
  "carrierModeA = ''a''"

record carrier_entry =
  ce_addrs :: "addrport list"
  ce_expiry :: gtime
  ce_failing :: bool
  ce_resolvedAt :: gtime
  ce_mode :: string
  ce_lastErr :: string

definition entry_zero :: carrier_entry where
  "entry_zero = \<lparr>ce_addrs = [], ce_expiry = t_zero, ce_failing = False, ce_resolvedAt = t_zero, ce_mode = [],
     ce_lastErr = []\<rparr>"

record carrier_directory =
  dir_carriers :: "carrier list"
  dir_static :: "prefix list"
  dir_extra :: "prefix list"
  dir_entries :: "(string, carrier_entry) gomap"
  dir_snap :: carrier_snapshot

text \<open>\<^verbatim>\<open>seen\<close>-guarded appending: the first occurrences, in order.\<close>

fun first_seen :: "'a list \<Rightarrow> 'a list \<Rightarrow> 'a list" where
  "first_seen acc [] = acc"
| "first_seen acc (x # xs) = first_seen (if x \<in> set acc then acc else acc @ [x]) xs"

definition carrier_prefixes :: "(string, carrier_entry) gomap \<Rightarrow> carrier \<Rightarrow> prefix list" where
  "carrier_prefixes es c =
     (if Literal c then [host_prefix (cf_Addr c)]
      else case m_get es (cf_Name c) of None \<Rightarrow> [] | Some e \<Rightarrow> map (\<lambda>a. host_prefix (fst a)) (ce_addrs e))"

definition publish_addrs :: "(string, carrier_entry) gomap \<Rightarrow> carrier \<Rightarrow> (string, addrport list) gomap \<Rightarrow>
    (string, addrport list) gomap" where
  "publish_addrs es c m =
     (if Literal c then m_set (cf_Name c) [(cf_Addr c, word_of_int (DialPort c))] m
      else case m_get es (cf_Name c) of None \<Rightarrow> m | Some e \<Rightarrow> m_set (cf_Name c) (ce_addrs e) m)"

definition prefix_less :: "prefix \<Rightarrow> prefix \<Rightarrow> bool" where
  "prefix_less a b = (if fst a \<noteq> fst b then addr_less (fst a) (fst b) else snd a < snd b)"

definition publish :: "carrier_directory \<Rightarrow> carrier_directory" where
  "publish d = d\<lparr>dir_snap :=
     \<lparr>cs_names = sort_slice str_less (map cf_Name (dir_carriers d)),
      cs_addrs = fold (publish_addrs (dir_entries d)) (dir_carriers d) [],
      cs_nets = sort_slice prefix_less
        (first_seen [] (dir_static d @ concat (map (carrier_prefixes (dir_entries d)) (dir_carriers d)))),
      cs_extra = dir_extra d,
      cs_transports = fold (\<lambda>c. m_set (cf_Name c) (if cf_Transport c \<noteq> [] then cf_Transport c else ''udp''))
        (dir_carriers d) []\<rparr>\<rparr>"

definition empty_snapshot :: carrier_snapshot where
  "empty_snapshot = \<lparr>cs_names = [], cs_addrs = [], cs_nets = [], cs_extra = [], cs_transports = []\<rparr>"

text \<open>\<open>static\<close> and \<open>extra\<close> are \<^verbatim>\<open>CarrierNets()\<close> and \<^verbatim>\<open>CarrierSourceNets()\<close>.\<close>

definition CarrierNets :: "prefix list \<Rightarrow> carrier list \<Rightarrow> prefix list" where
  "CarrierNets sources carriers = sources @ map (\<lambda>k. host_prefix (cf_Addr k)) (filter Literal carriers)"

definition newCarrierDirectory :: "carrier list \<Rightarrow> prefix list \<Rightarrow> carrier_directory" where
  "newCarrierDirectory carriers sources = publish
     \<lparr>dir_carriers = carriers, dir_static = CarrierNets sources carriers, dir_extra = sources, dir_entries = [],
      dir_snap = empty_snapshot\<rparr>"

section \<open>Model: resolving one carrier\<close>

record srv =
  srv_Target :: string
  srv_Port :: "16 word"
  srv_Priority :: "16 word"
  srv_Weight :: "16 word"

datatype srv_answer = SrvFound "srv list" | SrvNotFound | SrvError string

record dns =
  dns_srv :: "string \<Rightarrow> string \<Rightarrow> string \<Rightarrow> srv_answer"
  dns_ip :: "nat \<Rightarrow> string \<Rightarrow> string + addr list"
  dns_rnd :: "nat \<Rightarrow> nat \<Rightarrow> nat"

definition srvName :: "string \<Rightarrow> string \<times> string" where
  "srvName transport = (if transport = ''tls'' then (''sips'', ''tcp'')
     else if transport = ''tcp'' then (''sip'', ''tcp'') else (''sip'', ''udp''))"

text \<open>The \<open>k\<close>-th A/AAAA lookup of a resolution.\<close>

definition hostAddrs :: "dns \<Rightarrow> nat \<Rightarrow> string \<Rightarrow> 16 word \<Rightarrow> string + addrport list" where
  "hostAddrs net k host port = (case dns_ip net k host of
       Inl e \<Rightarrow> Inl (''lookup '' @ host @ '': '' @ e)
     | Inr ips \<Rightarrow> (let out = map (\<lambda>ip. (ip, port)) (filter (\<lambda>ip. \<not> is_unspecified ip) (map (\<lambda>ip. no_zone (unmap ip)) ips))
         in if out = [] then Inl (''lookup '' @ host @ '': no addresses'') else Inr out))"

definition usable_srv :: "srv \<Rightarrow> bool" where
  "usable_srv r \<longleftrightarrow> \<not> (srv_Target r = ''.'' \<or> srv_Port r = 0)"

definition weight :: "srv \<Rightarrow> nat" where
  "weight r = unat (srv_Weight r)"

text \<open>The scan for the record whose running weight reaches the target; 0 when none does.\<close>

fun pick_at :: "nat \<Rightarrow> nat \<Rightarrow> nat \<Rightarrow> srv list \<Rightarrow> nat" where
  "pick_at target acc i [] = 0"
| "pick_at target acc i (r # rs) =
     (let acc' = acc + weight r in if acc' \<ge> target then i else pick_at target acc' (i + 1) rs)"

definition srv_pick :: "(nat \<Rightarrow> nat \<Rightarrow> nat) \<Rightarrow> nat \<Rightarrow> srv list \<Rightarrow> nat" where
  "srv_pick rnd k g = (let total = sum_list (map weight g) in
     if total = 0 then rnd k (length g) else pick_at (rnd k (total + 1)) 0 0 g)"

text \<open>The selection loop: each turn takes one record out, so as many turns as records.\<close>

fun srv_draw :: "(nat \<Rightarrow> nat \<Rightarrow> nat) \<Rightarrow> nat \<Rightarrow> nat \<Rightarrow> srv list \<Rightarrow> srv list" where
  "srv_draw rnd k 0 g = []"
| "srv_draw rnd k (Suc n) g = (let i = srv_pick rnd k g in
     g ! i # srv_draw rnd (k + 1) n (take i g @ drop (i + 1) g))"

definition srv_group :: "16 word \<Rightarrow> srv list \<Rightarrow> srv list" where
  "srv_group p recs = (let g = filter (\<lambda>r. srv_Priority r = p) recs in
     filter (\<lambda>r. srv_Weight r = 0) g @ filter (\<lambda>r. srv_Weight r \<noteq> 0) g)"

fun draw_groups :: "(nat \<Rightarrow> nat \<Rightarrow> nat) \<Rightarrow> nat \<Rightarrow> srv list \<Rightarrow> 16 word list \<Rightarrow> srv list" where
  "draw_groups rnd k recs [] = []"
| "draw_groups rnd k recs (p # ps) = (let g = srv_group p recs in
     srv_draw rnd k (length g) g @ draw_groups rnd (k + length g) recs ps)"

definition trim_dot :: "string \<Rightarrow> string" where
  "trim_dot s = (if s \<noteq> [] \<and> last s = CHR ''.'' then butlast s else s)"

definition srv_target :: "srv \<Rightarrow> string \<times> 16 word" where
  "srv_target r = (trim_dot (srv_Target r), srv_Port r)"

definition orderSRV_recs :: "(nat \<Rightarrow> nat \<Rightarrow> nat) \<Rightarrow> srv list \<Rightarrow> srv list" where
  "orderSRV_recs rnd recs = (let us = filter usable_srv recs in
     draw_groups rnd 0 us (sort_slice (<) (first_seen [] (map srv_Priority us))))"

definition orderSRV :: "(nat \<Rightarrow> nat \<Rightarrow> nat) \<Rightarrow> srv list \<Rightarrow> (string \<times> 16 word) list" where
  "orderSRV rnd recs = map srv_target (orderSRV_recs rnd recs)"

text \<open>The loop over the targets: the addresses found and the last error.\<close>

fun srv_hosts :: "dns \<Rightarrow> nat \<Rightarrow> (string \<times> 16 word) list \<Rightarrow> addrport list \<times> string option" where
  "srv_hosts net k [] = ([], None)"
| "srv_hosts net k ((host, port) # ts) = (let (out, err) = srv_hosts net (k + 1) ts in
     case hostAddrs net k host port of
       Inl e \<Rightarrow> (out, case err of None \<Rightarrow> Some e | Some e' \<Rightarrow> Some e')
     | Inr as \<Rightarrow> (as @ out, err))"

definition with_mode :: "string \<Rightarrow> string + addrport list \<Rightarrow> string + addrport list \<times> string" where
  "with_mode m r = (case r of Inl e \<Rightarrow> Inl e | Inr as \<Rightarrow> Inr (as, m))"

text \<open>The part of \<^verbatim>\<open>resolve\<close> after the SRV lookup.\<close>

definition resolve_srv :: "dns \<Rightarrow> carrier \<Rightarrow> srv list \<Rightarrow> string + addrport list \<times> string" where
  "resolve_srv net c recs =
     (let ts = orderSRV (dns_rnd net) recs; (out, lastErr) = srv_hosts net 0 ts in
      if out \<noteq> [] then Inr (first_seen [] out, carrierModeSRV)
      else if recs \<noteq> [] \<and> lastErr \<noteq> None then Inl (the lastErr)
      else with_mode carrierModeA (hostAddrs net (length ts) (cf_Host c) (word_of_int (DialPort c))))"

definition resolve :: "dns \<Rightarrow> carrier \<Rightarrow> string + addrport list \<times> string" where
  "resolve net c =
     (if cf_ExplicitPort c then with_mode carrierModeA (hostAddrs net 0 (cf_Host c) (word_of_int (cf_Port c)))
      else let (service, proto) = srvName (cf_Transport c) in
        case dns_srv net service proto (cf_Host c) of
          SrvError e \<Rightarrow> Inl (''srv lookup: '' @ e)
        | SrvNotFound \<Rightarrow> resolve_srv net c []
        | SrvFound recs \<Rightarrow> resolve_srv net c recs)"

section \<open>Model: refreshing\<close>

definition dir_apply :: "carrier \<Rightarrow> gtime \<Rightarrow> string + addrport list \<times> string \<Rightarrow> carrier_directory \<Rightarrow>
    carrier_directory \<times> bool" where
  "dir_apply c now r d =
     (let e = m_get0 entry_zero (dir_entries d) (cf_Name c);
          failed = (\<lambda>err. (d\<lparr>dir_entries := m_set (cf_Name c) (e\<lparr>ce_expiry := t_add now carrierDNSNegTTL,
             ce_failing := True, ce_lastErr := err\<rparr>) (dir_entries d)\<rparr>, False))
      in case r of
           Inl err \<Rightarrow> failed err
         | Inr (addrs, mode) \<Rightarrow>
             if addrs = [] then failed ''no addresses''
             else (d\<lparr>dir_entries := m_set (cf_Name c) \<lparr>ce_addrs = addrs, ce_expiry = t_add now carrierDNSTTL,
                 ce_failing = False, ce_resolvedAt = now, ce_mode = mode, ce_lastErr = []\<rparr> (dir_entries d)\<rparr>, True))"

definition refresh_one :: "(string \<Rightarrow> dns) \<Rightarrow> (string \<Rightarrow> gtime) \<Rightarrow> carrier \<Rightarrow> carrier_directory \<times> bool \<Rightarrow>
    carrier_directory \<times> bool" where
  "refresh_one net clk c dc =
     (let d = fst dc; now = clk (cf_Name c) in
      if Literal c then dc
      else case m_get (dir_entries d) (cf_Name c) of
          Some e \<Rightarrow> if t_before now (ce_expiry e) then dc
                    else (let (d', ch) = dir_apply c now (resolve (net (cf_Name c)) c) d in (d', ch \<or> snd dc))
        | None \<Rightarrow> (let (d', ch) = dir_apply c now (resolve (net (cf_Name c)) c) d in (d', ch \<or> snd dc)))"

definition refresh :: "(string \<Rightarrow> dns) \<Rightarrow> (string \<Rightarrow> gtime) \<Rightarrow> carrier_directory \<Rightarrow> carrier_directory" where
  "refresh net clk d = (let (d', changed) = fold (refresh_one net clk) (dir_carriers d) (d, False) in
     if changed then publish d' else d')"

section \<open>Model: the operator's view\<close>

record carrier_info =
  ci_Name :: string
  ci_Host :: string
  ci_Transport :: string
  ci_Mode :: string
  ci_Addresses :: "(string \<times> bool) list"
  ci_ResolvedAt :: gtime
  ci_ExpiresAt :: gtime
  ci_Failing :: bool
  ci_LastError :: string

text \<open>\<^verbatim>\<open>net.JoinHostPort(host, strconv.Itoa(port))\<close>\<close>

definition join_host_port :: "string \<Rightarrow> int \<Rightarrow> string" where
  "join_host_port host port =
     (if CHR '':'' \<in> set host \<or> CHR ''%'' \<in> set host then ''['' @ host @ '']:'' @ show_int port
      else host @ '':'' @ show_int port)"

definition carrier_info :: "(addrport \<Rightarrow> string) \<Rightarrow> carrier_directory \<Rightarrow> carrier \<Rightarrow> carrier_info" where
  "carrier_info sh d c =
     (let host = (if cf_ExplicitPort c then join_host_port (cf_Host c) (cf_Port c) else cf_Host c);
          base = \<lparr>ci_Name = cf_Name c, ci_Host = host,
            ci_Transport = (if cf_Transport c = [] then ''udp'' else cf_Transport c), ci_Mode = [], ci_Addresses = [],
            ci_ResolvedAt = t_zero, ci_ExpiresAt = t_zero, ci_Failing = False, ci_LastError = []\<rparr>;
          (info, addrs) = (if Literal c then (base\<lparr>ci_Mode := carrierModeLiteral\<rparr>, [(cf_Addr c, word_of_int (DialPort c))])
            else case m_get (dir_entries d) (cf_Name c) of
                None \<Rightarrow> (base, [])
              | Some e \<Rightarrow> (base\<lparr>ci_Mode := ce_mode e, ci_ResolvedAt := ce_resolvedAt e, ci_ExpiresAt := ce_expiry e,
                  ci_Failing := ce_failing e, ci_LastError := ce_lastErr e\<rparr>, ce_addrs e))
      in info\<lparr>ci_Addresses := map (\<lambda>(i, a). (sh a, i = 0)) (enumerate 0 addrs)\<rparr>)"

definition snapshotInfo :: "(addrport \<Rightarrow> string) \<Rightarrow> carrier_directory \<Rightarrow> carrier_info list" where
  "snapshotInfo sh d =
     sort_slice (\<lambda>a b. str_less (ci_Name a) (ci_Name b)) (map (carrier_info sh d) (dir_carriers d))"

end
