(* ===== verification/Config.thy ===== *)
theory Config
  imports Config_Types Carrier_Dir Sip_Message
begin

text \<open>
  The configuration, \<^verbatim>\<open>src/internal/config/schema.go\<close> and \<^verbatim>\<open>validate.go\<close>: the records of the
  file, the defaults, and every check of \<^verbatim>\<open>validate\<close>. A failed check is the key its message
  starts with; the rest of the text is not modelled. Parameters: \<open>ff\<close> the floating-point product
  of \<^verbatim>\<open>time.ParseDuration\<close>, \<open>bcrypt\<close> the cost of a bcrypt hash (third party), \<open>u\<close> the letter case
  tables. The YAML decoding and the expansion of \<^verbatim>\<open>${VAR}\<close> come before; a path is only kept.
\<close>

section \<open>Model: the file\<close>

record listen_ports =
  lp_UDP :: int
  lp_TCP :: int
  lp_TLS :: int
  lp_WS :: int
  lp_WSS :: int

definition Transports :: "string list" where
  "Transports = [''udp'', ''tcp'', ''tls'', ''ws'', ''wss'']"

definition Port :: "listen_ports \<Rightarrow> string \<Rightarrow> int" where
  "Port l transport = (if transport = ''udp'' then lp_UDP l else if transport = ''tcp'' then lp_TCP l
     else if transport = ''tls'' then lp_TLS l else if transport = ''ws'' then lp_WS l
     else if transport = ''wss'' then lp_WSS l else 0)"

record tls_config =
  tc_Cert :: string
  tc_Key :: string

record carrier_config =
  cc_Host :: string
  cc_Transport :: string
  cc_CAFile :: string
  cc_ClientCert :: string
  cc_ClientKey :: string
  cc_SRTP :: string

record edge_config =
  ec_Switch :: "string list"
  ec_SwitchCarrierPort :: int
  ec_Listen :: listen_ports
  ec_Advertise :: listen_ports
  ec_Carriers :: "(string, carrier_config) gomap"
  ec_CarrierSources :: "string list"
  ec_SRTP :: string
  ec_AllowInsecureSDES :: bool
  ec_AllowRegisterAuthMismatch :: bool
  ec_switches :: "addrport list"
  ec_carrierNets :: "prefix list"
  ec_carriers :: "carrier list"

record shield_config =
  sf_RateLimit :: string
  sf_CarrierRateLimit :: string
  sf_Ban :: dur
  sf_MaxSessions :: int
  sf_InviteRateLimit :: string
  sf_RegisterBan :: string
  sf_RegisterBanAOR :: string
  sf_AdmissionBan :: string

record admin_config =
  ad_Listen :: string
  ad_PasswordHash :: string
  ad_AllowRemote :: bool
  ad_AllowedHosts :: "string list"

record hep_config =
  hc_Address :: string
  hc_Transport :: string
  hc_TLS :: "tls_config option"
  hc_NodeName :: string
  hc_RedactAuth :: "bool option"

record config =
  cfg_PublicIP :: string
  cfg_PublicBind :: string
  cfg_PrivateIP :: string
  cfg_RTP :: port_range
  cfg_TLS :: "tls_config option"
  cfg_Edge :: edge_config
  cfg_Shield :: shield_config
  cfg_Admin :: "admin_config option"
  cfg_HEP :: "hep_config option"

definition SRTPOff :: string where
  "SRTPOff = ''off''"

definition SRTPOptional :: string where
  "SRTPOptional = ''optional''"

definition SRTPRequired :: string where
  "SRTPRequired = ''required''"

definition DefaultCarrierPort :: int where
  "DefaultCarrierPort = 5060"

definition PrivateSIPPort :: "16 word" where
  "PrivateSIPPort = 5060"

section \<open>Model: defaults and derived values\<close>

definition or_default :: "string \<Rightarrow> string \<Rightarrow> string" where
  "or_default s d = (if s = [] then d else s)"

definition DefaultRTP :: port_range where
  "DefaultRTP = \<lparr>pr_min = 20000, pr_max = 29999\<rparr>"

definition hep_defaults :: "hep_config \<Rightarrow> hep_config" where
  "hep_defaults h = h\<lparr>hc_Transport := or_default (hc_Transport h) ''udp'',
     hc_RedactAuth := (case hc_RedactAuth h of None \<Rightarrow> Some True | Some b \<Rightarrow> Some b)\<rparr>"

definition withDefaults :: "config \<Rightarrow> config" where
  "withDefaults c =
     (let rtp = (if cfg_RTP c = \<lparr>pr_min = 0, pr_max = 0\<rparr> then DefaultRTP else cfg_RTP c); s = cfg_Shield c in
      c\<lparr>cfg_PublicBind := or_default (cfg_PublicBind c) (cfg_PublicIP c),
        cfg_RTP := rtp,
        cfg_Edge := (cfg_Edge c)\<lparr>ec_SRTP := or_default (ec_SRTP (cfg_Edge c)) SRTPOff\<rparr>,
        cfg_Shield := s\<lparr>sf_MaxSessions := (if sf_MaxSessions s = 0 then pairs rtp else sf_MaxSessions s),
          sf_RateLimit := or_default (sf_RateLimit s) ''20/s per_ip'',
          sf_CarrierRateLimit := or_default (sf_CarrierRateLimit s) ''200/s per_ip'',
          sf_Ban := (if sf_Ban s = 0 then hour else sf_Ban s),
          sf_RegisterBan := or_default (sf_RegisterBan s) ''10/10m'',
          sf_RegisterBanAOR := or_default (sf_RegisterBanAOR s) ''10/10m'',
          sf_AdmissionBan := or_default (sf_AdmissionBan s) ''50/5m''\<rparr>,
        cfg_HEP := map_option hep_defaults (cfg_HEP c)\<rparr>)"

definition HEPRedact :: "config \<Rightarrow> bool" where
  "HEPRedact c = (case cfg_HEP c of None \<Rightarrow> True
     | Some h \<Rightarrow> (case hc_RedactAuth h of None \<Rightarrow> True | Some b \<Rightarrow> b))"

definition mustAddr :: "string \<Rightarrow> addr" where
  "mustAddr s = (case ParseAddr s of None \<Rightarrow> AddrZero | Some a \<Rightarrow> unmap a)"

definition PublicIP :: "config \<Rightarrow> addr" where
  "PublicIP c = mustAddr (cfg_PublicIP c)"

definition PublicBind :: "config \<Rightarrow> addr" where
  "PublicBind c = mustAddr (cfg_PublicBind c)"

definition PrivateIP :: "config \<Rightarrow> addr" where
  "PrivateIP c = mustAddr (cfg_PrivateIP c)"

definition PrivateAddr :: "config \<Rightarrow> addrport" where
  "PrivateAddr c = (PrivateIP c, PrivateSIPPort)"

definition AdvertisedPort :: "config \<Rightarrow> string \<Rightarrow> int" where
  "AdvertisedPort c transport =
     (let listen = Port (ec_Listen (cfg_Edge c)) transport; adv = Port (ec_Advertise (cfg_Edge c)) transport in
      if listen = 0 then 0 else if adv \<noteq> 0 then adv else listen)"

definition PortTranslated :: "config \<Rightarrow> bool" where
  "PortTranslated c = list_ex (\<lambda>tr. AdvertisedPort c tr \<noteq> Port (ec_Listen (cfg_Edge c)) tr) Transports"

definition WebRTC :: "config \<Rightarrow> bool" where
  "WebRTC c \<longleftrightarrow> lp_WS (ec_Listen (cfg_Edge c)) \<noteq> 0 \<or> lp_WSS (ec_Listen (cfg_Edge c)) \<noteq> 0"

section \<open>Model: port forwards behind NAT (\<^verbatim>\<open>nat.go\<close>)\<close>

record nat_forward =
  nf_Proto :: string
  nf_Ports :: string
  nf_To :: int
  nf_Label :: string

definition nat_forward_text :: "nat_forward \<Rightarrow> string" where
  "nat_forward_text f = nf_Proto f @ ''/'' @ nf_Ports f @ (if nf_To f \<noteq> 0 then ''->'' @ show_int (nf_To f) else []) @
     (if nf_Label f \<noteq> [] \<and> nf_Label f \<noteq> nf_Proto f then '' ('' @ nf_Label f @ '')'' else [])"

definition NATMode :: "config \<Rightarrow> bool" where
  "NATMode c \<longleftrightarrow> PublicBind c \<noteq> PublicIP c \<or> PortTranslated c"

definition nat_forward_of :: "config \<Rightarrow> string \<Rightarrow> nat_forward" where
  "nat_forward_of c tr = (let port = Port (ec_Listen (cfg_Edge c)) tr; adv = AdvertisedPort c tr in
     \<lparr>nf_Proto = (if tr = ''udp'' then ''udp'' else ''tcp''), nf_Ports = show_int adv,
      nf_To = (if adv \<noteq> port then port else 0), nf_Label = tr\<rparr>)"

definition NATForwards :: "config \<Rightarrow> nat_forward list" where
  "NATForwards c =
     (if \<not> NATMode c then []
      else map (nat_forward_of c) (filter (\<lambda>tr. Port (ec_Listen (cfg_Edge c)) tr \<noteq> 0) Transports) @
        [\<lparr>nf_Proto = ''udp'', nf_Ports = show_nat (pr_min (cfg_RTP c)) @ ''-'' @ show_nat (pr_max (cfg_RTP c)),
          nf_To = 0, nf_Label = ''rtp''\<rparr>])"

section \<open>Model: reading the values\<close>

text \<open>\<^verbatim>\<open>netip.ParsePrefix\<close> and \<^verbatim>\<open>netip.ParseAddrPort\<close>.\<close>

definition ParsePrefix :: "string \<Rightarrow> prefix option" where
  "ParsePrefix s = (case last_cut (CHR ''/'') s of
       None \<Rightarrow> None
     | Some (a, b) \<Rightarrow> (case ParseAddr a of
           None \<Rightarrow> None
         | Some ip \<Rightarrow>
             if no_zone ip \<noteq> ip then None
             else if length b > 1 \<and> (\<not> is_digit (hd b) \<or> hd b = CHR ''0'') then None
             else (case atoi b of None \<Rightarrow> None
                 | Some n \<Rightarrow> if n < 0 \<or> n > int (bit_len ip) then None else Some (prefix_from ip (nat n)))))"

definition ParseAddrPort :: "string \<Rightarrow> addrport option" where
  "ParseAddrPort s = (case last_cut (CHR '':'') s of
       None \<Rightarrow> None
     | Some (ip, port) \<Rightarrow>
         if ip = [] \<or> port = [] then None
         else if hd ip = CHR ''['' \<and> (length ip < 2 \<or> last ip \<noteq> CHR '']'') then None
         else let v6 = (hd ip = CHR ''[''); a = (if v6 then butlast (tl ip) else ip) in
           (case parse_uint 16 port of None \<Rightarrow> None
            | Some p \<Rightarrow> (case ParseAddr a of None \<Rightarrow> None
                | Some x \<Rightarrow> if v6 \<and> addr_is4 x \<or> \<not> v6 \<and> addr_is6 x then None else Some (x, of_nat p))))"

definition specificIP :: "string \<Rightarrow> addr option" where
  "specificIP v = (if v = [] then None
     else case ParseAddr v of None \<Rightarrow> None | Some ip \<Rightarrow> if is_unspecified ip then None else Some (unmap ip))"

definition parseIPPort :: "string \<Rightarrow> addrport option" where
  "parseIPPort s = (case SplitHostPort s of
       None \<Rightarrow> None
     | Some (host, port) \<Rightarrow> (case ParseAddr host of
           None \<Rightarrow> None
         | Some ip \<Rightarrow> (case atoi port of
               None \<Rightarrow> None
             | Some p \<Rightarrow> if p < 1 \<or> p > 65535 then None else if is_unspecified ip then None
                 else Some (unmap ip, word_of_int p))))"

definition parsePrefixOrAddr :: "string \<Rightarrow> prefix option" where
  "parsePrefixOrAddr s = (case ParsePrefix s of Some p \<Rightarrow> Some p
     | None \<Rightarrow> (case ParseAddr s of None \<Rightarrow> None | Some a \<Rightarrow> Some (host_prefix a)))"

definition is_4in6 :: "addr \<Rightarrow> bool" where
  "is_4in6 a \<longleftrightarrow> addr_is6 a \<and> addr_is4 (unmap a)"

definition allowedPrefix :: "string \<Rightarrow> prefix option" where
  "allowedPrefix s = (case parsePrefixOrAddr s of
       None \<Rightarrow> None
     | Some p0 \<Rightarrow>
         if is_4in6 (fst p0) \<and> snd p0 < 96 then None
         else let p = (if is_4in6 (fst p0) then prefix_from (unmap (fst p0)) (snd p0 - 96) else p0);
                  minBits = (if addr_is6 (fst p) then 32 else 8)
           in if snd p < minBits then None else Some (prefix_masked p))"

definition is_alnum :: "char \<Rightarrow> bool" where
  "is_alnum c \<longleftrightarrow> is_digit c \<or> is_lower c \<or> is_upper c"

text \<open>The regular expressions \<^verbatim>\<open>dnsLabel\<close>, \<^verbatim>\<open>carrierName\<close> and \<^verbatim>\<open>hostNameRE\<close>.\<close>

definition dnsLabel :: "string \<Rightarrow> bool" where
  "dnsLabel s \<longleftrightarrow> s \<noteq> [] \<and> length s \<le> 63 \<and> is_alnum (hd s) \<and> is_alnum (last s) \<and>
     list_all (\<lambda>c. is_alnum c \<or> c = CHR ''-'') s"

definition carrierName :: "string \<Rightarrow> bool" where
  "carrierName s \<longleftrightarrow> s \<noteq> [] \<and> list_all (\<lambda>c. is_alnum c \<or> c \<in> set ''._-'') s"

definition host_label :: "string \<Rightarrow> bool" where
  "host_label s \<longleftrightarrow> s \<noteq> [] \<and> (is_alnum (hd s) \<or> hd s = CHR ''_'') \<and> (is_alnum (last s) \<or> last s = CHR ''_'') \<and>
     list_all (\<lambda>c. is_alnum c \<or> c \<in> set ''_-'') s"

definition hostNameRE :: "string \<Rightarrow> bool" where
  "hostNameRE s = list_all host_label (split_on (CHR ''.'') (trim_dot s))"

definition finishCarrierHost :: "unicode \<Rightarrow> string \<Rightarrow> int \<Rightarrow> (string \<times> int \<times> addr) option" where
  "finishCarrierHost u h0 port = (case ParseAddr h0 of
       Some a0 \<Rightarrow> (let a = unmap a0 in if is_unspecified a then None else Some (addr_text a, port, a))
     | None \<Rightarrow> (let h = to_lower u (trim_dot h0) in
         if h = [] \<or> length h > 253 then None
         else if list_all dnsLabel (split_on (CHR ''.'') h) then Some (h, port, AddrZero) else None))"

definition count_of :: "char \<Rightarrow> string \<Rightarrow> nat" where
  "count_of c s = length (filter (\<lambda>x. x = c) s)"

definition ParseCarrierHost :: "unicode \<Rightarrow> string \<Rightarrow> (string \<times> int \<times> addr) option" where
  "ParseCarrierHost u s0 =
     (let s = trim_space s0 in
      if s = [] then None
      else case ParseAddr s of
          Some a \<Rightarrow> finishCarrierHost u (addr_text (unmap a)) DefaultCarrierPort
        | None \<Rightarrow>
            if has_prefix s ''['' \<or> count_of (CHR '':'') s = 1 then
              (case SplitHostPort s of None \<Rightarrow> None
               | Some (hh, ps) \<Rightarrow> (case atoi ps of None \<Rightarrow> None
                   | Some p \<Rightarrow> if p < 1 \<or> p > 65535 then None else finishCarrierHost u hh p))
            else if CHR '':'' \<in> set s then None
            else finishCarrierHost u s DefaultCarrierPort)"

definition carrierHasPort :: "string \<Rightarrow> bool" where
  "carrierHasPort s0 = (let s = trim_space s0 in
     if ParseAddr s \<noteq> None then False else has_prefix s ''['' \<or> count_of (CHR '':'') s = 1)"

text \<open>A small configuration for the examples: one switch node, one carrier, UDP only.\<close>

definition sample_config :: config where
  "sample_config = \<lparr>cfg_PublicIP = ''1.2.3.4'', cfg_PublicBind = [], cfg_PrivateIP = ''10.0.0.1'',
     cfg_RTP = \<lparr>pr_min = 0, pr_max = 0\<rparr>, cfg_TLS = None,
     cfg_Edge = \<lparr>ec_Switch = [''10.0.0.2:9''], ec_SwitchCarrierPort = 0, ec_Listen = \<lparr>lp_UDP = 5060, lp_TCP = 5060, lp_TLS = 0, lp_WS = 0, lp_WSS = 0\<rparr>,
       ec_Advertise = \<lparr>lp_UDP = 16060, lp_TCP = 0, lp_TLS = 0, lp_WS = 0, lp_WSS = 0\<rparr>,
       ec_Carriers = [(''acme'', \<lparr>cc_Host = ''a.b'', cc_Transport = [], cc_CAFile = [], cc_ClientCert = [], cc_ClientKey = [], cc_SRTP = []\<rparr>)],
       ec_CarrierSources = [''10.0.0.1''], ec_SRTP = [], ec_AllowInsecureSDES = False, ec_AllowRegisterAuthMismatch = False,
       ec_switches = [], ec_carrierNets = [], ec_carriers = []\<rparr>,
     cfg_Shield = \<lparr>sf_RateLimit = ''1/s'', sf_CarrierRateLimit = ''1/s'', sf_Ban = 0, sf_MaxSessions = 0, sf_InviteRateLimit = [],
       sf_RegisterBan = ''off'', sf_RegisterBanAOR = ''off'', sf_AdmissionBan = ''off''\<rparr>,
     cfg_Admin = None, cfg_HEP = None\<rparr>"

end
