(* ===== verification/Config_Validate.thy ===== *)
theory Config_Validate
  imports Config
begin

text \<open>
  \<^verbatim>\<open>Config.validate\<close> of \<^verbatim>\<open>src/internal/config/validate.go\<close>, one definition per section, and what a
  configuration without errors guarantees to the planes that run on it.
\<close>

section \<open>Model\<close>

definition fail_if :: "bool \<Rightarrow> string \<Rightarrow> string list" where
  "fail_if b key = (if b then [key] else [])"

definition validateTopology :: "config \<Rightarrow> string list" where
  "validateTopology c =
     (let bind = specificIP (cfg_PublicBind c); priv = specificIP (cfg_PrivateIP c) in
      fail_if (specificIP (cfg_PublicIP c) = None) ''public.ip'' @ fail_if (bind = None) ''public.bind'' @
      fail_if (priv = None) ''private.ip'' @ fail_if (bind \<noteq> None \<and> bind = priv) ''private.ip'')"

definition validateRTP :: "config \<Rightarrow> string list" where
  "validateRTP c = (let r = cfg_RTP c in
     if pr_min r < 1024 then [''rtp''] else fail_if (pairs r < 1) ''rtp'')"

definition validateTLS :: "config \<Rightarrow> string list" where
  "validateTLS c = (case cfg_TLS c of
       Some t \<Rightarrow> fail_if (tc_Cert t = [] \<or> tc_Key t = []) ''tls''
     | None \<Rightarrow> fail_if (lp_TLS (ec_Listen (cfg_Edge c)) \<noteq> 0) ''tls'' @ fail_if (lp_WSS (ec_Listen (cfg_Edge c)) \<noteq> 0) ''tls'' @
         fail_if (case cfg_Admin c of None \<Rightarrow> False | Some a \<Rightarrow> ad_AllowRemote a) ''tls'')"

definition checkPort :: "string \<Rightarrow> int \<Rightarrow> string list" where
  "checkPort key port = fail_if (port \<noteq> 0 \<and> (port < 1 \<or> port > 65535)) key"

text \<open>The loop over \<^verbatim>\<open>edge.switch\<close>: the errors and the nodes kept.\<close>

fun switch_loop :: "config \<Rightarrow> nat \<Rightarrow> addrport set \<Rightarrow> string list \<Rightarrow> string list \<times> addrport list" where
  "switch_loop c i seen [] = ([], [])"
| "switch_loop c i seen (s # ss) =
     (let label = ''edge.switch['' @ show_nat i @ '']'' in
      case parseIPPort s of
        None \<Rightarrow> (let (es, out) = switch_loop c (i + 1) seen ss in (label # es, out))
      | Some ap \<Rightarrow>
          if ap \<in> seen then (let (es, out) = switch_loop c (i + 1) seen ss in (label # es, out))
          else let (es, out) = switch_loop c (i + 1) (insert ap seen) ss in
            if cfg_PrivateIP c \<noteq> [] \<and> ap = PrivateAddr c then (label # es, out) else (es, ap # out))"

definition stream_listens :: "config \<Rightarrow> (string \<times> int) list" where
  "stream_listens c = (let l = ec_Listen (cfg_Edge c) in
     [(''edge.listen.tcp'', lp_TCP l), (''edge.listen.tls'', lp_TLS l), (''edge.listen.ws'', lp_WS l), (''edge.listen.wss'', lp_WSS l)])"

text \<open>One error for each stream port that an earlier one has.\<close>

fun port_clashes :: "int list \<Rightarrow> (string \<times> int) list \<Rightarrow> string list" where
  "port_clashes used [] = []"
| "port_clashes used ((key, port) # ps) = fail_if (port \<noteq> 0 \<and> port \<in> set used) key @ port_clashes (port # used) ps"

definition validateEdge :: "config \<Rightarrow> string list \<times> config" where
  "validateEdge c =
     (let e = cfg_Edge c; l = ec_Listen e; (swErrs, sws) = switch_loop c 0 {} (ec_Switch e);
          nets = map allowedPrefix (ec_CarrierSources e);
          errs = fail_if (ec_Switch e = []) ''edge.switch'' @ swErrs @
            fail_if (ec_SRTP e \<notin> {SRTPOff, SRTPOptional, SRTPRequired}) ''edge.srtp'' @
            fail_if (ec_SwitchCarrierPort e < 0 \<or> ec_SwitchCarrierPort e > 65535) ''edge.switch_carrier_port'' @
            fail_if (lp_UDP l = 0 \<and> lp_TCP l = 0 \<and> lp_TLS l = 0 \<and> lp_WS l = 0 \<and> lp_WSS l = 0) ''edge.listen'' @
            checkPort ''edge.listen.udp'' (lp_UDP l) @ checkPort ''edge.listen.tcp'' (lp_TCP l) @
            checkPort ''edge.listen.tls'' (lp_TLS l) @ checkPort ''edge.listen.ws'' (lp_WS l) @
            checkPort ''edge.listen.wss'' (lp_WSS l) @ port_clashes [] (stream_listens c) @
            concat (map (\<lambda>p. fail_if (p = None) ''edge.carrier_sources'') nets)
      in (errs, c\<lparr>cfg_Edge := e\<lparr>ec_switches := sws, ec_carrierNets := map the (filter (\<lambda>p. p \<noteq> None) nets)\<rparr>\<rparr>))"

definition advertise_key :: "config \<Rightarrow> string \<Rightarrow> string" where
  "advertise_key c tr = (if Port (ec_Advertise (cfg_Edge c)) tr \<noteq> 0 then ''edge.advertise.'' @ tr else ''edge.listen.'' @ tr)"

definition advertise_clash :: "config \<Rightarrow> string \<Rightarrow> string \<Rightarrow> bool" where
  "advertise_clash c a b \<longleftrightarrow> (let pa = AdvertisedPort c a; adv = Port (ec_Advertise (cfg_Edge c)) in
     \<not> (pa = 0 \<or> pa \<noteq> AdvertisedPort c b \<or> (adv a = 0 \<and> adv b = 0)))"

fun advertise_loop :: "config \<Rightarrow> string list \<Rightarrow> string list \<Rightarrow> string list" where
  "advertise_loop c before [] = []"
| "advertise_loop c before (a # as) =
     fail_if (list_ex (advertise_clash c a) before) (advertise_key c a) @ advertise_loop c (before @ [a]) as"

definition validateAdvertise :: "config \<Rightarrow> string list" where
  "validateAdvertise c =
     concat (map (\<lambda>tr. let p = Port (ec_Advertise (cfg_Edge c)) tr; key = ''edge.advertise.'' @ tr in
        if p = 0 then [] else checkPort key p @ fail_if (Port (ec_Listen (cfg_Edge c)) tr = 0) key) Transports) @
     advertise_loop c [] [''tcp'', ''tls'', ''ws'', ''wss'']"

text \<open>One entry of \<^verbatim>\<open>edge.carriers\<close>: its errors, and the carrier unless the loop continues.\<close>

definition carrier_transport :: "carrier_config \<Rightarrow> string" where
  "carrier_transport cc = or_default (cc_Transport cc) ''udp''"

definition carrier_srtp :: "carrier_config \<Rightarrow> string" where
  "carrier_srtp cc = or_default (cc_SRTP cc) SRTPOff"

definition carrier_errs :: "config \<Rightarrow> string \<Rightarrow> carrier_config \<Rightarrow> string list" where
  "carrier_errs c label cc =
     (let tr = carrier_transport cc; srtp = carrier_srtp cc in
      fail_if (tr = ''udp'' \<and> lp_UDP (ec_Listen (cfg_Edge c)) = 0) label @
      (if tr \<noteq> ''tls'' then fail_if (cc_CAFile cc \<noteq> []) (label @ ''.ca_file'') @
         fail_if (cc_ClientCert cc \<noteq> []) (label @ ''.client_cert'') @ fail_if (cc_ClientKey cc \<noteq> []) (label @ ''.client_key'') else []) @
      (if srtp = SRTPOff then []
       else if srtp \<in> {SRTPOptional, SRTPRequired} then
         fail_if (tr \<noteq> ''tls'' \<and> \<not> ec_AllowInsecureSDES (cfg_Edge c)) (label @ ''.srtp'')
       else [label @ ''.srtp'']) @
      fail_if ((cc_ClientCert cc = []) \<noteq> (cc_ClientKey cc = [])) label)"

definition own_socket :: "config \<Rightarrow> string \<Rightarrow> addrport \<Rightarrow> bool" where
  "own_socket c tr ap \<longleftrightarrow> (let lp = Port (ec_Listen (cfg_Edge c)) tr in
     lp \<noteq> 0 \<and> (ap = (PublicBind c, word_of_int lp) \<or> ap = (PublicIP c, word_of_int (AdvertisedPort c tr))))"

definition carrier_entry_of :: "unicode \<Rightarrow> config \<Rightarrow> (string, string) gomap \<Rightarrow> string \<Rightarrow> carrier_config \<Rightarrow>
    string list \<times> (string, string) gomap \<times> carrier option" where
  "carrier_entry_of u c taken name cc =
     (let label = ''edge.carriers.'' @ name; tr = carrier_transport cc in
      if \<not> carrierName name then ([''edge.carriers''], taken, None)
      else if tr \<notin> {''udp'', ''tcp'', ''tls''} then ([label @ ''.transport''], taken, None)
      else let es = carrier_errs c label cc in
        case ParseCarrierHost u (cc_Host cc) of
          None \<Rightarrow> (es @ [label], taken, None)
        | Some (host, port, addr) \<Rightarrow>
            let key = join_host_port host port in
            if m_get taken key \<noteq> None then (es @ [label], taken, None)
            else let taken' = m_set key name taken; ap = (addr, word_of_int port) in
              if addr_valid addr \<and> own_socket c tr ap then (es @ [label], taken', None)
              else (es @ fail_if (addr_valid addr \<and> ap \<in> set (ec_switches (cfg_Edge c))) label, taken',
                Some \<lparr>cf_Name = name, cf_Host = host, cf_Port = port, cf_ExplicitPort = carrierHasPort (cc_Host cc),
                  cf_Addr = addr, cf_Transport = tr, cf_SRTP = carrier_srtp cc\<rparr>))"

fun carrier_loop :: "unicode \<Rightarrow> config \<Rightarrow> (string, string) gomap \<Rightarrow> string list \<Rightarrow> string list \<times> carrier list" where
  "carrier_loop u c taken [] = ([], [])"
| "carrier_loop u c taken (n # ns) =
     (case m_get (ec_Carriers (cfg_Edge c)) n of
        None \<Rightarrow> carrier_loop u c taken ns
      | Some cc \<Rightarrow> (let (es, taken', k) = carrier_entry_of u c taken n cc; (es', ks) = carrier_loop u c taken' ns
          in (es @ es', (case k of None \<Rightarrow> ks | Some x \<Rightarrow> x # ks))))"

definition sortedKeys :: "(string, 'v) gomap \<Rightarrow> string list" where
  "sortedKeys m = sort_slice str_less (map fst m)"

definition validateCarriers :: "unicode \<Rightarrow> config \<Rightarrow> string list \<times> config" where
  "validateCarriers u c =
     (let (es, ks) = carrier_loop u c [] (sortedKeys (ec_Carriers (cfg_Edge c)))
      in (es, c\<lparr>cfg_Edge := (cfg_Edge c)\<lparr>ec_carriers := ks\<rparr>\<rparr>))"

definition validateShield :: "(nat \<Rightarrow> nat \<Rightarrow> nat \<Rightarrow> nat) \<Rightarrow> config \<Rightarrow> string list" where
  "validateShield ff c =
     (let s = cfg_Shield c; r = cfg_RTP c in
      fail_if (parse_rate_limit (sf_RateLimit s) = None) ''shield.rate_limit'' @
      fail_if (parse_rate_limit (sf_CarrierRateLimit s) = None) ''shield.carrier_rate_limit'' @
      fail_if (sf_Ban s \<le> 0) ''shield.ban'' @
      (if sf_MaxSessions s < 0 then [''shield.max_sessions'']
       else fail_if (pr_min r \<ge> 1024 \<and> pairs r \<ge> 1 \<and> sf_MaxSessions s > pairs r) ''shield.max_sessions'') @
      (if sf_InviteRateLimit s = [] then []
       else case parse_rate_limit (sf_InviteRateLimit s) of None \<Rightarrow> [''shield.invite_rate_limit'']
         | Some rl \<Rightarrow> fail_if (rl_per_ip rl) ''shield.invite_rate_limit'') @
      fail_if (parse_strike_limit ff (sf_RegisterBan s) = None) ''shield.register_ban'' @
      fail_if (parse_strike_limit ff (sf_RegisterBanAOR s) = None) ''shield.register_ban_aor'' @
      fail_if (parse_strike_limit ff (sf_AdmissionBan s) = None) ''shield.admission_ban'')"

definition CanonicalHost :: "unicode \<Rightarrow> string \<Rightarrow> string" where
  "CanonicalHost u h = (case ParseAddr h of Some a \<Rightarrow> addr_text (unmap a) | None \<Rightarrow> to_lower u (trim_dot h))"

definition allowed_host :: "string \<Rightarrow> bool" where
  "allowed_host h =
     (if h = [] then False
      else if contains h ''://'' \<or> CHR ''/'' \<in> set h then False
      else if CHR ''*'' \<in> set h then False
      else if ParseAddr h \<noteq> None then True
      else if CHR '':'' \<in> set h \<or> CHR ''['' \<in> set h \<or> CHR '']'' \<in> set h then False
      else hostNameRE h)"

fun host_loop :: "unicode \<Rightarrow> nat \<Rightarrow> string set \<Rightarrow> string list \<Rightarrow> string list" where
  "host_loop u i seen [] = []"
| "host_loop u i seen (h # hs) =
     (let label = ''admin.allowed_hosts['' @ show_nat i @ '']''; k = CanonicalHost u h in
      if \<not> allowed_host h then label # host_loop u (i + 1) seen hs
      else fail_if (k \<in> seen) label @ host_loop u (i + 1) (insert k seen) hs)"

definition MinBcryptCost :: int where
  "MinBcryptCost = 10"

definition validateAdmin :: "unicode \<Rightarrow> (string \<Rightarrow> int option) \<Rightarrow> config \<Rightarrow> string list" where
  "validateAdmin u bcrypt c = (case cfg_Admin c of None \<Rightarrow> []
     | Some a \<Rightarrow>
         (case ParseAddrPort (ad_Listen a) of None \<Rightarrow> [''admin.listen'']
          | Some ap \<Rightarrow> fail_if (\<not> is_loopback (fst ap) \<and> \<not> ad_AllowRemote a) ''admin.listen'') @
         host_loop u 0 {} (ad_AllowedHosts a) @
         (case bcrypt (ad_PasswordHash a) of None \<Rightarrow> [''admin.password_hash'']
          | Some cost \<Rightarrow> fail_if (cost < MinBcryptCost) ''admin.password_hash''))"

definition maxHEPNodeName :: nat where
  "maxHEPNodeName = 255"

definition validateHEP :: "config \<Rightarrow> string list" where
  "validateHEP c = (case cfg_HEP c of None \<Rightarrow> []
     | Some h \<Rightarrow>
         (case ParseAddrPort (hc_Address h) of None \<Rightarrow> [''hep.address'']
          | Some ap \<Rightarrow> fail_if (is_unspecified (fst ap) \<or> snd ap = 0) ''hep.address'') @
         fail_if (hc_Transport h \<notin> {''udp'', ''tcp'', ''tls''}) ''hep.transport'' @
         (case hc_TLS h of None \<Rightarrow> []
          | Some t \<Rightarrow> fail_if (hc_Transport h \<noteq> ''tls'') ''hep.tls'' @ fail_if ((tc_Cert t = []) \<noteq> (tc_Key t = [])) ''hep.tls'') @
         fail_if (length (hc_NodeName h) > maxHEPNodeName) ''hep.node_name'')"

definition hostsCollide :: "string \<Rightarrow> string \<Rightarrow> bool" where
  "hostsCollide a b =
     (let wildcard = (\<lambda>h. h = [] \<or> (case ParseAddr h of None \<Rightarrow> False | Some ip \<Rightarrow> is_unspecified ip)) in
      if wildcard a \<or> wildcard b then True
      else case (ParseAddr a, ParseAddr b) of (Some ia, Some ib) \<Rightarrow> unmap ia = unmap ib | _ \<Rightarrow> a = b)"

definition validateSockets :: "config \<Rightarrow> string list" where
  "validateSockets c = (case cfg_Admin c of None \<Rightarrow> []
     | Some a \<Rightarrow> (case ParseAddrPort (ad_Listen a) of None \<Rightarrow> []
         | Some ap \<Rightarrow> concat (map (\<lambda>(key, port). fail_if (port \<noteq> 0 \<and> port = int (unat (snd ap)) \<and>
               hostsCollide (cfg_PublicBind c) (addr_text (fst ap))) ''admin.listen'') (stream_listens c))))"

text \<open>\<^verbatim>\<open>validate\<close>: every error, and the configuration with its compiled fields.\<close>

definition validate :: "unicode \<Rightarrow> (nat \<Rightarrow> nat \<Rightarrow> nat \<Rightarrow> nat) \<Rightarrow> (string \<Rightarrow> int option) \<Rightarrow> config \<Rightarrow> string list \<times> config" where
  "validate u ff bcrypt c =
     (let (edge, c1) = validateEdge c; (carr, c2) = validateCarriers u c1
      in (validateTopology c @ validateRTP c @ validateTLS c @ edge @ validateAdvertise c1 @ carr @
          validateShield ff c2 @ validateAdmin u bcrypt c2 @ validateHEP c2 @ validateSockets c2, c2))"

text \<open>The part of \<^verbatim>\<open>Parse\<close> after the YAML step and the expansion.\<close>

definition accept_config :: "unicode \<Rightarrow> (nat \<Rightarrow> nat \<Rightarrow> nat \<Rightarrow> nat) \<Rightarrow> (string \<Rightarrow> int option) \<Rightarrow> config \<Rightarrow> string list + config" where
  "accept_config u ff bcrypt c = (let (errs, c') = validate u ff bcrypt (withDefaults c) in
     if errs \<noteq> [] then Inl errs else Inr c')"

end
