(* ===== verification/Carrier_Props.thy ===== *)
theory Carrier_Props
  imports Carrier_Dir
begin

text \<open>
  Properties of the carrier directory: \<open>carrierFor\<close> meets its order of preference, a source it
  admits is a source the shield exempts, a resolved carrier stays resolved whatever DNS answers,
  and the SRV order is a permutation sorted by priority and drawn in proportion to the weights.
\<close>

section \<open>Who a source is\<close>

lemma addr_valid_no_zone: "addr_valid (no_zone a) = addr_valid a"
  by (cases a) simp_all

definition exact_on :: "addrport \<Rightarrow> carrier_snapshot \<Rightarrow> string \<Rightarrow> bool" where
  "exact_on src c n \<longleftrightarrow> src \<in> set (m_get0 [] (cs_addrs c) n)"

definition ip_on :: "addrport \<Rightarrow> carrier_snapshot \<Rightarrow> string \<Rightarrow> bool" where
  "ip_on src c n \<longleftrightarrow> fst src \<in> fst ` set (m_get0 [] (cs_addrs c) n)"

definition carrier_for_ref :: "addrport \<Rightarrow> string \<Rightarrow> carrier_snapshot \<Rightarrow> string option" where
  "carrier_for_ref src0 network c =
     (let src = plain_ap src0; ns = on_transport network c in
      case find (exact_on src c) ns of
        Some n \<Rightarrow> Some n
      | None \<Rightarrow> (case find (ip_on src c) ns of
          Some n \<Rightarrow> Some n
        | None \<Rightarrow> if \<exists>p \<in> set (cs_extra c). prefix_contains p (fst src) then Some carrierUnknown else None))"

lemma scan_addrs_spec:
  "n \<noteq> [] \<Longrightarrow> scan_addrs src n byIP as =
     (if src \<in> set as then Inl n else Inr (if byIP = [] \<and> fst src \<in> fst ` set as then n else byIP))"
  by (induction as arbitrary: byIP) auto

lemma scan_names_spec:
  assumes "[] \<notin> set ns"
  shows "scan_names c src tr byIP ns =
     (let ms = filter (\<lambda>n. m_get0 [] (cs_transports c) n = tr) ns in
      case find (exact_on src c) ms of
        Some n \<Rightarrow> Inl n
      | None \<Rightarrow> Inr (if byIP \<noteq> [] then byIP else case find (ip_on src c) ms of Some n \<Rightarrow> n | None \<Rightarrow> []))"
  using assms
proof (induction ns arbitrary: byIP)
  case (Cons n ns)
  then have n: "n \<noteq> []" "[] \<notin> set ns" by auto
  note IH = Cons.IH [OF n(2), unfolded Let_def]
  show ?case
    unfolding scan_names.simps scan_addrs_spec [OF n(1)] Let_def
    by (cases "src \<in> set (m_get0 [] (cs_addrs c) n)"; cases "fst src \<in> fst ` set (m_get0 [] (cs_addrs c) n)"; cases "byIP = []")
      (simp_all add: IH exact_on_def ip_on_def n(1) cong: option.case_cong)
qed simp

lemma carrier_for_spec:
  assumes "[] \<notin> set (cs_names c)"
  shows "carrierFor src tr c = carrier_for_ref src tr c"
proof -
  have ne: "n \<noteq> []" if "find P (on_transport tr c) = Some n" for P n
    using that assms by (auto simp: on_transport_def dest!: find_SomeD)
  show ?thesis
    unfolding carrierFor_def carrier_for_ref_def Let_def scan_names_spec [OF assms] on_transport_def [symmetric]
    by (auto split: option.splits dest: ne simp: list_ex_iff)
qed

section \<open>The snapshot and the cache agree\<close>

definition addrs_of :: "carrier_directory \<Rightarrow> string \<Rightarrow> addrport list" where
  "addrs_of d n = ce_addrs (m_get0 entry_zero (dir_entries d) n)"

definition dests :: "carrier_directory \<Rightarrow> carrier \<Rightarrow> addrport list" where
  "dests d c = (if Literal c then [(cf_Addr c, word_of_int (DialPort c))] else addrs_of d (cf_Name c))"

definition published :: "carrier_directory \<Rightarrow> string \<Rightarrow> addrport list" where
  "published d n = (case find (\<lambda>c. cf_Name c = n) (dir_carriers d) of None \<Rightarrow> [] | Some c \<Rightarrow> dests d c)"

definition plain_addr :: "addr \<Rightarrow> bool" where
  "plain_addr a \<longleftrightarrow> no_zone (unmap a) = a"

definition snap_ok :: "carrier_directory \<Rightarrow> bool" where
  "snap_ok d \<longleftrightarrow> distinct (map cf_Name (dir_carriers d)) \<and>
     (\<forall>n. m_get0 [] (cs_addrs (dir_snap d)) n = published d n) \<and>
     (\<forall>c \<in> set (dir_carriers d). host_prefix ` fst ` set (dests d c) \<subseteq> set (cs_nets (dir_snap d))) \<and>
     set (dir_static d) \<subseteq> set (cs_nets (dir_snap d)) \<and> set (dir_extra d) \<subseteq> set (dir_static d) \<and>
     cs_extra (dir_snap d) = dir_extra d \<and> set (cs_names (dir_snap d)) = cf_Name ` set (dir_carriers d)"

lemma first_seen_set [simp]: "set (first_seen acc xs) = set acc \<union> set xs"
  by (induction acc xs rule: first_seen.induct) auto

lemma first_seen_distinct: "distinct acc \<Longrightarrow> distinct (first_seen acc xs)"
  by (induction acc xs rule: first_seen.induct) auto

lemma set_sort_slice [simp]: "set (sort_slice lt xs) = set xs"
  by (metis mset_sort_slice set_mset_mset)

lemma publish_addrs_get:
  "m_get0 [] (publish_addrs es c m) n =
     (if n \<noteq> cf_Name c then m_get0 [] m n
      else if Literal c then [(cf_Addr c, word_of_int (DialPort c))]
      else case m_get es n of None \<Rightarrow> m_get0 [] m n | Some e \<Rightarrow> ce_addrs e)"
  by (auto simp: publish_addrs_def m_get0_def split: option.splits)

lemma publish_fold:
  assumes "distinct (map cf_Name cs)"
  shows "m_get0 [] (fold (publish_addrs es) cs m) n =
    (case find (\<lambda>c. cf_Name c = n) cs of
       None \<Rightarrow> m_get0 [] m n
     | Some c \<Rightarrow> if Literal c then [(cf_Addr c, word_of_int (DialPort c))]
         else case m_get es n of None \<Rightarrow> m_get0 [] m n | Some e \<Rightarrow> ce_addrs e)"
  using assms
proof (induction cs arbitrary: m)
  case (Cons c cs)
  have "find (\<lambda>x. cf_Name x = cf_Name c) cs = None"
    using Cons.prems by (auto simp: find_None_iff rev_image_eqI)
  then show ?case
    using Cons by (cases "cf_Name c = n") (auto simp: publish_addrs_get split: option.splits)
qed simp

lemma publish_frame [simp]:
  "dir_carriers (publish d) = dir_carriers d" "dir_static (publish d) = dir_static d"
  "dir_extra (publish d) = dir_extra d" "dir_entries (publish d) = dir_entries d"
  by (simp_all add: publish_def)

lemma publish_ok:
  assumes "distinct (map cf_Name (dir_carriers d))" "set (dir_extra d) \<subseteq> set (dir_static d)"
  shows "snap_ok (publish d)"
proof -
  have pub: "m_get0 [] (cs_addrs (dir_snap (publish d))) n = published (publish d) n" for n
    using publish_fold [OF assms(1), of "dir_entries d" "[]" n]
    by (auto simp: published_def dests_def addrs_of_def publish_def entry_zero_def m_get0_def split: option.splits
        dest!: find_SomeD)
  moreover have "host_prefix ` fst ` set (dests d c) \<subseteq> set (carrier_prefixes (dir_entries d) c)" for c
    by (auto simp: dests_def carrier_prefixes_def addrs_of_def m_get0_def entry_zero_def split: option.splits)
  moreover have "dests (publish d) c = dests d c" for c
    by (simp add: dests_def addrs_of_def)
  moreover have "set (cs_nets (dir_snap (publish d))) =
      set (dir_static d) \<union> (\<Union>c \<in> set (dir_carriers d). set (carrier_prefixes (dir_entries d) c))"
    by (simp add: publish_def)
  ultimately have "\<forall>c \<in> set (dir_carriers d). host_prefix ` fst ` set (dests (publish d) c) \<subseteq> set (cs_nets (dir_snap (publish d)))"
    by (metis UN_upper le_supI2 subset_trans)
  moreover have "set (dir_static d) \<subseteq> set (cs_nets (dir_snap (publish d)))"
    "cs_extra (dir_snap (publish d)) = dir_extra d" "set (cs_names (dir_snap (publish d))) = cf_Name ` set (dir_carriers d)"
    by (simp_all add: publish_def)
  ultimately show ?thesis
    using assms pub by (simp add: snap_ok_def)
qed

section \<open>Refreshing\<close>

text \<open>What one turn of the refresh loop may do: new non-empty plain addresses, and then it is flagged.\<close>

definition refreshed :: "carrier_directory \<Rightarrow> carrier_directory \<times> bool \<Rightarrow> bool" where
  "refreshed d dc \<longleftrightarrow> (let d' = fst dc in
     dir_carriers d' = dir_carriers d \<and> dir_static d' = dir_static d \<and> dir_extra d' = dir_extra d \<and>
     dir_snap d' = dir_snap d \<and>
     (\<forall>n. addrs_of d' n = addrs_of d n \<or>
        snd dc \<and> addrs_of d' n \<noteq> [] \<and> (\<forall>a \<in> set (addrs_of d' n). plain_addr (fst a))))"

lemma plain_addr_unmap [simp]: "plain_addr (no_zone (unmap a))"
  by (simp add: plain_addr_def)

lemma hostAddrs_plain:
  "hostAddrs net k host port = Inr as \<Longrightarrow> as \<noteq> [] \<and> (\<forall>a \<in> set as. plain_addr (fst a))"
  by (auto simp: hostAddrs_def Let_def split: sum.splits if_splits)

lemma srv_hosts_plain: "srv_hosts net k ts = (out, err) \<Longrightarrow> a \<in> set out \<Longrightarrow> plain_addr (fst a)"
proof (induction net k ts arbitrary: out err rule: srv_hosts.induct)
  case (2 net k host port ts)
  obtain o1 e1 where o1: "srv_hosts net (k + 1) ts = (o1, e1)" by fastforce
  show ?case
    using 2 o1 hostAddrs_plain [of net k host port] by (auto split: sum.splits)
qed simp

lemma with_mode_Inr [simp]: "with_mode m r = Inr (addrs, mode) \<longleftrightarrow> r = Inr addrs \<and> mode = m"
  by (auto simp: with_mode_def split: sum.splits)

lemma resolve_srv_plain:
  assumes "resolve_srv net c recs = Inr (addrs, mode)"
  shows "addrs \<noteq> [] \<and> (\<forall>a \<in> set addrs. plain_addr (fst a))"
proof -
  obtain out err where o: "srv_hosts net 0 (orderSRV (dns_rnd net) recs) = (out, err)" by fastforce
  show ?thesis
  proof (cases "out = []")
    case True
    then show ?thesis
      using assms o hostAddrs_plain [of net "length (orderSRV (dns_rnd net) recs)" "cf_Host c" "word_of_int (DialPort c)" addrs]
      by (simp add: resolve_srv_def split: if_splits)
  next
    case False
    then have "addrs = first_seen [] out" using assms o by (simp add: resolve_srv_def)
    then have "set addrs = set out" by simp
    then show ?thesis using False srv_hosts_plain [OF o] by (metis set_empty2)
  qed
qed

lemma resolve_plain:
  assumes "resolve net c = Inr (addrs, mode)"
  shows "addrs \<noteq> [] \<and> (\<forall>a \<in> set addrs. plain_addr (fst a))"
  using assms resolve_srv_plain [of net c _ addrs mode] hostAddrs_plain [of net 0 "cf_Host c" "word_of_int (cf_Port c)" addrs]
  by (auto simp: resolve_def split: if_splits prod.splits srv_answer.splits)

lemma dir_apply_frame [simp]:
  "dir_carriers (fst (dir_apply c now r d)) = dir_carriers d" "dir_static (fst (dir_apply c now r d)) = dir_static d"
  "dir_extra (fst (dir_apply c now r d)) = dir_extra d" "dir_snap (fst (dir_apply c now r d)) = dir_snap d"
  by (simp_all add: dir_apply_def Let_def split: sum.split prod.split)

lemma dir_apply_addrs:
  "addrs_of (fst (dir_apply c now (Inl e) d)) n = addrs_of d n" "\<not> snd (dir_apply c now (Inl e) d)"
  "addrs \<noteq> [] \<Longrightarrow> addrs_of (fst (dir_apply c now (Inr (addrs, mode)) d)) n =
     (if n = cf_Name c then addrs else addrs_of d n)"
  "addrs \<noteq> [] \<Longrightarrow> snd (dir_apply c now (Inr (addrs, mode)) d)"
  by (auto simp: dir_apply_def addrs_of_def m_get0_def entry_zero_def Let_def split: option.splits)

lemma dir_apply_refreshed: "refreshed d (dir_apply c now (resolve net c) d)"
proof (cases "resolve net c")
  case (Inl e)
  then show ?thesis by (simp add: refreshed_def dir_apply_addrs)
next
  case (Inr am)
  obtain addrs mode where "am = (addrs, mode)" by fastforce
  with Inr have r: "resolve net c = Inr (addrs, mode)" by simp
  from resolve_plain [OF r] show ?thesis
    unfolding r by (simp add: refreshed_def dir_apply_addrs)
qed

lemma refreshed_refl: "refreshed d (d, b)"
  by (simp add: refreshed_def)

lemma refreshed_trans:
  "refreshed d (d1, b1) \<Longrightarrow> refreshed d1 (d2, b2) \<Longrightarrow> refreshed d (d2, b2 \<or> b1)"
  by (simp add: refreshed_def) metis

lemma refresh_one_refreshed:
  assumes "refreshed d dc"
  shows "refreshed d (refresh_one net clk c dc)"
proof -
  obtain d1 b1 where dc: "dc = (d1, b1)" by fastforce
  let ?r = "dir_apply c (clk (cf_Name c)) (resolve (net (cf_Name c)) c) d1"
  have "\<not> Literal c \<Longrightarrow> refreshed d (fst ?r, snd ?r \<or> b1)"
    using dir_apply_refreshed [of d1 c _ "net (cf_Name c)"] assms refreshed_trans [of d d1 b1 "fst ?r" "snd ?r"] dc by simp
  then show ?thesis
    using assms by (auto simp: refresh_one_def dc Let_def split: option.splits prod.splits)
qed

lemma refresh_fold_refreshed: "refreshed d dc \<Longrightarrow> refreshed d (fold (refresh_one net clk) cs dc)"
  by (induction cs arbitrary: dc) (simp_all add: refresh_one_refreshed)

lemma refresh_frame [simp]:
  "dir_carriers (refresh net clk d) = dir_carriers d"
  "dir_static (refresh net clk d) = dir_static d"
  "dir_extra (refresh net clk d) = dir_extra d"
  using refresh_fold_refreshed [OF refreshed_refl [of d False], of net clk "dir_carriers d"]
  by (auto simp: refresh_def refreshed_def Let_def split: prod.splits)

lemma addrs_of_publish [simp]: "addrs_of (publish d) n = addrs_of d n"
  by (simp add: addrs_of_def)

lemma refresh_addrs:
  "addrs_of (refresh net clk d) n = addrs_of d n \<or>
   addrs_of (refresh net clk d) n \<noteq> [] \<and> (\<forall>a \<in> set (addrs_of (refresh net clk d) n). plain_addr (fst a))"
proof -
  obtain d' ch where f: "fold (refresh_one net clk) (dir_carriers d) (d, False) = (d', ch)" by fastforce
  then have "addrs_of d' n = addrs_of d n \<or> addrs_of d' n \<noteq> [] \<and> (\<forall>a \<in> set (addrs_of d' n). plain_addr (fst a))"
    using refresh_fold_refreshed [OF refreshed_refl [of d False], of net clk "dir_carriers d"]
    by (auto simp: refreshed_def)
  moreover have "addrs_of (refresh net clk d) n = addrs_of d' n" by (simp add: refresh_def f)
  ultimately show ?thesis by simp
qed

lemma dests_cong: "(\<And>n. addrs_of d n = addrs_of d' n) \<Longrightarrow> dests d = dests d'"
  by (rule ext) (simp add: dests_def)

lemma refresh_snap_ok:
  assumes "snap_ok d"
  shows "snap_ok (refresh net clk d)"
proof -
  obtain d' ch where f: "fold (refresh_one net clk) (dir_carriers d) (d, False) = (d', ch)" by fastforce
  have r: "refreshed d (d', ch)"
    using refresh_fold_refreshed [OF refreshed_refl [of d False], of net clk "dir_carriers d"] f by simp
  show ?thesis
  proof (cases ch)
    case True
    then show ?thesis
      using f r assms publish_ok [of d'] by (simp add: refresh_def refreshed_def snap_ok_def)
  next
    case False
    then have "addrs_of d' n = addrs_of d n" for n using r by (simp add: refreshed_def)
    then have e: "dests d' = dests d" by (rule dests_cong)
    have "published d' = published d" using r by (simp add: published_def [abs_def] refreshed_def e cong: option.case_cong)
    then show ?thesis using False f r assms e by (simp add: refresh_def refreshed_def snap_ok_def)
  qed
qed

text \<open>The directories a configuration can reach.\<close>

fun dir_run :: "((string \<Rightarrow> dns) \<times> (string \<Rightarrow> gtime)) list \<Rightarrow> carrier_directory \<Rightarrow> carrier_directory" where
  "dir_run [] d = d"
| "dir_run ((net, clk) # xs) d = dir_run xs (refresh net clk d)"

lemma dir_run_frame [simp]:
  "dir_carriers (dir_run xs d) = dir_carriers d" "dir_extra (dir_run xs d) = dir_extra d"
  by (induction xs d rule: dir_run.induct) simp_all

lemma dir_run_ok: "snap_ok d \<Longrightarrow> snap_ok (dir_run xs d)"
  by (induction xs d rule: dir_run.induct) (simp_all add: refresh_snap_ok)

lemma new_directory_ok: "distinct (map cf_Name carriers) \<Longrightarrow> snap_ok (newCarrierDirectory carriers sources)"
  unfolding newCarrierDirectory_def by (rule publish_ok) (simp_all add: CarrierNets_def)

lemma new_directory_frame [simp]:
  "dir_carriers (newCarrierDirectory carriers sources) = carriers"
  "dir_extra (newCarrierDirectory carriers sources) = sources"
  "addrs_of (newCarrierDirectory carriers sources) n = []"
  by (simp_all add: newCarrierDirectory_def addrs_of_def m_get0_def entry_zero_def)

lemma addrs_kept: "addrs_of d n \<noteq> [] \<Longrightarrow> addrs_of (dir_run xs d) n \<noteq> []"
proof (induction xs d rule: dir_run.induct)
  case (2 net clk xs d)
  then show ?case using refresh_addrs [of net clk d n] by auto
qed simp

lemma addrs_plain:
  "\<forall>a \<in> set (addrs_of d n). plain_addr (fst a) \<Longrightarrow> \<forall>a \<in> set (addrs_of (dir_run xs d) n). plain_addr (fst a)"
proof (induction xs d rule: dir_run.induct)
  case (2 net clk xs d)
  then show ?case using refresh_addrs [of net clk d n] by (metis dir_run.simps(2))
qed simp

text \<open>A refresh whose lookups all fail leaves the snapshot as it is.\<close>

lemma refresh_one_failed:
  assumes "\<exists>e. resolve (net (cf_Name c)) c = Inl e"
  shows "snd (refresh_one net clk c dc) = snd dc"
  using assms by (auto simp: refresh_one_def Let_def dir_apply_addrs split: option.splits prod.splits)
    (metis dir_apply_addrs(2) snd_conv)+

lemma refresh_fold_failed:
  assumes "\<forall>c \<in> set cs. \<exists>e. resolve (net (cf_Name c)) c = Inl e"
  shows "snd (fold (refresh_one net clk) cs dc) = snd dc"
  using assms by (induction cs arbitrary: dc) (simp_all add: refresh_one_failed)

lemma refresh_failed:
  assumes "\<forall>c \<in> set (dir_carriers d). \<exists>e. resolve (net (cf_Name c)) c = Inl e"
  shows "dir_snap (refresh net clk d) = dir_snap d"
proof -
  obtain d' ch where f: "fold (refresh_one net clk) (dir_carriers d) (d, False) = (d', ch)" by fastforce
  have "\<not> ch" using refresh_fold_failed [OF assms, of clk "(d, False)"] f by simp
  moreover have "refreshed d (d', ch)"
    using refresh_fold_refreshed [OF refreshed_refl [of d False], of net clk "dir_carriers d"] f by simp
  ultimately show ?thesis by (simp add: refresh_def f refreshed_def)
qed

section \<open>The order of SRV records\<close>

definition draws :: "(nat \<Rightarrow> nat \<Rightarrow> nat) \<Rightarrow> bool" where
  "draws rnd \<longleftrightarrow> (\<forall>k n. 0 < n \<longrightarrow> rnd k n < n)"

lemma pick_at_range:
  "g \<noteq> [] \<Longrightarrow> target \<le> acc + sum_list (map weight g) \<Longrightarrow> pick_at target acc i g < i + length g"
proof (induction target acc i g rule: pick_at.induct)
  case (2 target acc i r rs)
  show ?case
  proof (cases "acc + weight r \<ge> target")
    case False
    then have "rs \<noteq> []" using "2.prems" by auto
    then show ?thesis using "2.IH" "2.prems" False by (simp add: add.assoc)
  qed simp
qed simp

lemma srv_pick_range:
  assumes "draws rnd" "g \<noteq> []"
  shows "srv_pick rnd k g < length g"
proof -
  have "rnd k (length g) < length g" using assms by (simp add: draws_def)
  moreover have "rnd k (sum_list (map weight g) + 1) \<le> 0 + sum_list (map weight g)"
    using assms(1) [unfolded draws_def, rule_format, of "sum_list (map weight g) + 1" k] by simp
  from pick_at_range [OF assms(2) this, of 0] have "pick_at (rnd k (sum_list (map weight g) + 1)) 0 0 g < length g" by simp
  ultimately show ?thesis by (simp add: srv_pick_def Let_def)
qed

lemma mset_take_out:
  assumes "i < length g"
  shows "mset g = add_mset (g ! i) (mset (take i g @ drop (i + 1) g))"
proof -
  have "mset g = mset (take i g @ g ! i # drop (Suc i) g)"
    by (simp only: id_take_nth_drop [OF assms, symmetric])
  then show ?thesis by simp
qed

lemma srv_draw_mset: "draws rnd \<Longrightarrow> length g = n \<Longrightarrow> mset (srv_draw rnd k n g) = mset g"
proof (induction rnd k n g rule: srv_draw.induct)
  case (2 rnd k n g)
  let ?i = "srv_pick rnd k g"
  have "g \<noteq> []" using "2.prems"(2) by auto
  then have i: "?i < length g" by (rule srv_pick_range [OF "2.prems"(1)])
  then have "mset (srv_draw rnd (k + 1) n (take ?i g @ drop (?i + 1) g)) = mset (take ?i g @ drop (?i + 1) g)"
    using "2.prems" by (intro "2.IH") auto
  with mset_take_out [OF i] show ?case by (simp only: srv_draw.simps Let_def mset.simps(2))
qed simp

lemma srv_group_mset: "mset (srv_group p recs) = filter_mset (\<lambda>r. srv_Priority r = p) (mset recs)"
  by (rule multiset_eqI) (simp add: srv_group_def Let_def)

lemma draw_groups_mset:
  "draws rnd \<Longrightarrow> distinct ps \<Longrightarrow>
   mset (draw_groups rnd k recs ps) = filter_mset (\<lambda>r. srv_Priority r \<in> set ps) (mset recs)"
proof (induction rnd k recs ps rule: draw_groups.induct)
  case (2 rnd k recs p ps)
  have "filter_mset (\<lambda>r. srv_Priority r = p \<or> srv_Priority r \<in> set ps) (mset recs) =
    filter_mset (\<lambda>r. srv_Priority r = p) (mset recs) + filter_mset (\<lambda>r. srv_Priority r \<in> set ps) (mset recs)"
    using "2.prems"(2) by (intro multiset_eqI) auto
  moreover have "mset (draw_groups rnd (k + length (srv_group p recs)) recs ps) =
      filter_mset (\<lambda>r. srv_Priority r \<in> set ps) (mset recs)"
    by (rule "2.IH") (use "2.prems" in simp_all)
  ultimately show ?case
    using srv_draw_mset [OF "2.prems"(1) refl, of k "srv_group p recs"] by (simp add: Let_def srv_group_mset)
qed simp

lemma draw_groups_sorted:
  "draws rnd \<Longrightarrow> sorted_wrt (<) ps \<Longrightarrow> sorted_wrt (\<lambda>a b. srv_Priority a \<le> srv_Priority b) (draw_groups rnd k recs ps)"
proof (induction rnd k recs ps rule: draw_groups.induct)
  case (2 rnd k recs p ps)
  let ?g = "srv_draw rnd k (length (srv_group p recs)) (srv_group p recs)"
  have g: "\<forall>r \<in> set ?g. srv_Priority r = p"
  proof -
    have "set_mset (mset ?g) = set_mset (filter_mset (\<lambda>r. srv_Priority r = p) (mset recs))"
      using srv_draw_mset [OF "2.prems"(1) refl] srv_group_mset [of p recs] by metis
    then show ?thesis by auto
  qed
  have "distinct ps" using "2.prems"(2) strict_sorted_iff [of ps] by simp
  then have "mset (draw_groups rnd (k + length (srv_group p recs)) recs ps) =
      filter_mset (\<lambda>r. srv_Priority r \<in> set ps) (mset recs)"
    by (rule draw_groups_mset [OF "2.prems"(1)])
  then have later: "\<forall>r \<in> set (draw_groups rnd (k + length (srv_group p recs)) recs ps). srv_Priority r \<in> set ps"
    by (metis (mono_tags, lifting) mem_Collect_eq set_mset_filter set_mset_mset)
  have "sorted_wrt (\<lambda>a b. srv_Priority a \<le> srv_Priority b) ?g"
    using g by (auto simp: sorted_wrt_iff_nth_less)
  moreover have "sorted_wrt (\<lambda>a b. srv_Priority a \<le> srv_Priority b) (draw_groups rnd (k + length (srv_group p recs)) recs ps)"
    by (rule "2.IH") (use "2.prems" in simp_all)
  moreover have "\<forall>q \<in> set ps. p \<le> q" using "2.prems"(2) by auto
  ultimately show ?case
    using g later by (simp add: Let_def sorted_wrt_append)
qed simp

lemma orderSRV_recs_spec:
  assumes "draws rnd"
  shows "mset (orderSRV_recs rnd recs) = filter_mset usable_srv (mset recs)"
    "sorted_wrt (\<lambda>a b. srv_Priority a \<le> srv_Priority b) (orderSRV_recs rnd recs)"
proof -
  let ?us = "filter usable_srv recs"
  let ?ps = "sort_slice (<) (first_seen [] (map srv_Priority ?us))"
  have d: "distinct ?ps"
    using first_seen_distinct [of "[]" "map srv_Priority ?us"] mset_sort_slice [of "(<)"]
    by (metis distinct.simps(1) mset_eq_imp_distinct_iff)
  have "sorted_wrt (\<lambda>a b. \<not> b < a) ?ps" by (rule sorted_sort_slice) auto
  then have "sorted ?ps" by (simp add: not_less)
  with d have "sorted_wrt (<) ?ps" using strict_sorted_iff by blast
  then show "sorted_wrt (\<lambda>a b. srv_Priority a \<le> srv_Priority b) (orderSRV_recs rnd recs)"
    unfolding orderSRV_recs_def Let_def by (rule draw_groups_sorted [OF assms])
  have "filter_mset (\<lambda>r. srv_Priority r \<in> srv_Priority ` set ?us) (mset ?us) = mset ?us"
    by (rule filter_mset_cong0 [THEN trans, of _ _ "\<lambda>_. True"]) auto
  then show "mset (orderSRV_recs rnd recs) = filter_mset usable_srv (mset recs)"
    unfolding orderSRV_recs_def Let_def using draw_groups_mset [OF assms d, of 0 ?us] by simp
qed

text \<open>How many values of the random number select each record.\<close>

lemma pick_at_iff:
  "i < length g \<Longrightarrow> target \<le> acc + sum_list (map weight g) \<Longrightarrow>
   pick_at target acc b g = b + i \<longleftrightarrow>
     target \<le> acc + sum_list (map weight (take (i + 1) g)) \<and> (i = 0 \<or> acc + sum_list (map weight (take i g)) < target)"
proof (induction target acc b g arbitrary: i rule: pick_at.induct)
  case (2 target acc b r rs)
  show ?case
  proof (cases "acc + weight r \<ge> target")
    case True
    then show ?thesis by (cases i) auto
  next
    case False
    then have ne: "rs \<noteq> []" using "2.prems" by auto
    have ge: "pick_at target (acc + weight r) (b + 1) rs \<ge> b + 1"
    proof -
      have "c \<le> pick_at target a c xs" if "xs \<noteq> []" "target \<le> a + sum_list (map weight xs)" for a c xs
        using that
      proof (induction target a c xs rule: pick_at.induct)
        case (2 target acc i r rs)
        show ?case
        proof (cases "target \<le> acc + weight r")
          case False
          then have "rs \<noteq> []" using "2.prems" by auto
          then have "i + 1 \<le> pick_at target (acc + weight r) (i + 1) rs"
            using "2.IH" [OF refl] "2.prems" False by (simp add: add.assoc)
          then show ?thesis using False by simp
        qed simp
      qed simp
      then show ?thesis using ne "2.prems"(2) by (simp add: add.assoc)
    qed
    show ?thesis
    proof (cases i)
      case 0
      then show ?thesis using False ge by simp
    next
      case (Suc i')
      then show ?thesis using "2.IH" [OF refl False, of i'] "2.prems" False by (cases i') (auto simp: add.assoc)
    qed
  qed
qed simp

lemma pick_count:
  assumes "i < length g"
  shows "card {t. t \<le> sum_list (map weight g) \<and> pick_at t 0 0 g = i} = weight (g ! i) + (if i = 0 then 1 else 0)"
proof -
  let ?S = "\<lambda>n. sum_list (map weight (take n g))"
  have S: "?S (i + 1) = ?S i + weight (g ! i)"
    using assms by (simp add: take_Suc_conv_app_nth)
  have le: "?S (i + 1) \<le> sum_list (map weight g)"
    by (metis append_take_drop_id le_add1 map_append sum_list_append)
  have "{t. t \<le> sum_list (map weight g) \<and> pick_at t 0 0 g = i} =
      (if i = 0 then {0..weight (g ! 0)} else {?S i<..?S (i + 1)})"
    using pick_at_iff [OF assms, of _ 0 0] S le by (cases "i = 0") (auto simp: set_eq_iff)
  then show ?thesis using S by simp
qed

text \<open>
  In every directory a configuration can reach, a source that \<^verbatim>\<open>carrierFor\<close> admits is one by
  \<^verbatim>\<open>isSource\<close>.
\<close>

lemma admitted_exempt:
  assumes "distinct (map cf_Name carriers)" "[] \<notin> set (map cf_Name carriers)" "addr_valid (fst src)"
    and "carrierFor src network (dir_snap (dir_run xs (newCarrierDirectory carriers sources))) = Some n"
  shows "isSource (fst src) (dir_snap (dir_run xs (newCarrierDirectory carriers sources)))"
proof -
  let ?d = "dir_run xs (newCarrierDirectory carriers sources)" and ?s = "plain_ap src"
  have ok: "snap_ok ?d" using dir_run_ok [OF new_directory_ok [OF assms(1)]] .
  have valid: "addr_valid (fst ?s)" "no_zone (fst ?s) = fst ?s"
    using assms(3) by (simp_all add: plain_ap_def addr_valid_no_zone)
  have names: "[] \<notin> set (cs_names (dir_snap ?d))" using ok assms(2) by (simp add: snap_ok_def)
  have by_ip: "\<exists>p \<in> set (cs_nets (dir_snap ?d)). prefix_contains p (fst ?s)" if "ip_on ?s (dir_snap ?d) m" for m
  proof -
    have "m_get0 [] (cs_addrs (dir_snap ?d)) m = published ?d m" using ok by (simp add: snap_ok_def)
    then have "fst ?s \<in> fst ` set (published ?d m)" using that by (simp add: ip_on_def)
    then obtain c where c: "find (\<lambda>c. cf_Name c = m) (dir_carriers ?d) = Some c" "fst ?s \<in> fst ` set (dests ?d c)"
      by (cases "find (\<lambda>c. cf_Name c = m) (dir_carriers ?d)") (simp_all add: published_def)
    have "host_prefix ` fst ` set (dests ?d c) \<subseteq> set (cs_nets (dir_snap ?d))"
      using ok find_SomeD [OF c(1)] by (simp add: snap_ok_def)
    then have "host_prefix (fst ?s) \<in> set (cs_nets (dir_snap ?d))" using c(2) by blast
    then show ?thesis using host_prefix_contains [OF valid(1)] valid(2) by blast
  qed
  have exact: "exact_on ?s (dir_snap ?d) m \<Longrightarrow> ip_on ?s (dir_snap ?d) m" for m
    by (auto simp: exact_on_def ip_on_def)
  have extra: "set (cs_extra (dir_snap ?d)) \<subseteq> set (cs_nets (dir_snap ?d))"
    using ok by (auto simp: snap_ok_def)
  have "carrier_for_ref src network (dir_snap ?d) = Some n"
    using assms(4) carrier_for_spec [OF names] by simp
  then have "\<exists>p \<in> set (cs_nets (dir_snap ?d)). prefix_contains p (fst ?s)"
    using by_ip exact extra
    by (auto simp: carrier_for_ref_def Let_def split: option.splits if_splits dest!: find_SomeD)
  then show ?thesis by (simp add: isSource_def list_ex_iff plain_ap_def)
qed

section \<open>Properties\<close>

text \<open>Two carriers of one configuration, and the answers of one refresh.\<close>

definition sample_carriers :: "carrier list" where
  "sample_carriers = [
     \<lparr>cf_Name = ''acme'', cf_Host = ''sip.acme.example'', cf_Port = 5060, cf_ExplicitPort = True, cf_Addr = AddrZero,
      cf_Transport = ''udp'', cf_SRTP = ''off''\<rparr>,
     \<lparr>cf_Name = ''beta'', cf_Host = ''10.0.0.9'', cf_Port = 5060, cf_ExplicitPort = False, cf_Addr = V4 9,
      cf_Transport = ''tls'', cf_SRTP = ''off''\<rparr>]"

definition sample_dir :: carrier_directory where
  "sample_dir = newCarrierDirectory sample_carriers [(V4 0x0a000000, 8)]"

definition dns_up :: dns where
  "dns_up = \<lparr>dns_srv = (\<lambda>_ _ _. SrvNotFound), dns_ip = (\<lambda>_ _. Inr [V4 7]), dns_rnd = (\<lambda>_ _. 0)\<rparr>"

definition dns_down :: dns where
  "dns_down = \<lparr>dns_srv = (\<lambda>_ _ _. SrvError ''timeout''), dns_ip = (\<lambda>_ _. Inl ''timeout''), dns_rnd = (\<lambda>_ _. 0)\<rparr>"

lemma sample_distinct: "distinct (map cf_Name sample_carriers)" "[] \<notin> set (map cf_Name sample_carriers)"
  by (simp_all add: sample_carriers_def)

lemma outage_keeps_carriers_parts:
  fixes carriers :: "carrier list" and sources :: "prefix list" and xs ys :: "((string \<Rightarrow> dns) \<times> (string \<Rightarrow> gtime)) list"
  assumes "distinct (map cf_Name carriers)"
  defines "d \<equiv> dir_run xs (newCarrierDirectory carriers sources)"
  assumes up: "m_get0 [] (cs_addrs (dir_snap d)) n \<noteq> []"
  shows "m_get0 [] (cs_addrs (dir_snap (dir_run ys d))) n \<noteq> []"
    "\<forall>(net, clk) \<in> set ys. \<forall>c \<in> set carriers. isl (resolve (net (cf_Name c)) c) \<Longrightarrow> dir_snap (dir_run ys d) = dir_snap d"
proof -
  have ok: "snap_ok d" "snap_ok (dir_run ys d)"
    unfolding d_def using new_directory_ok [OF assms(1)] by (simp_all add: dir_run_ok)
  have pub: "published (dir_run ys d) n \<noteq> []" if old: "published d n \<noteq> []"
  proof -
    obtain c where c: "find (\<lambda>c. cf_Name c = n) (dir_carriers d) = Some c" "dests d c \<noteq> []"
      using old by (cases "find (\<lambda>c. cf_Name c = n) (dir_carriers d)") (auto simp: published_def)
    then have "dests (dir_run ys d) c \<noteq> []" using addrs_kept by (simp add: dests_def split: if_splits)
    then show ?thesis using c by (simp add: published_def)
  qed
  then show "m_get0 [] (cs_addrs (dir_snap (dir_run ys d))) n \<noteq> []"
    using ok assms(3) by (simp add: snap_ok_def)
  have run: "\<forall>(net, clk) \<in> set ys. \<forall>c \<in> set carriers. isl (resolve (net (cf_Name c)) c) \<Longrightarrow>
      dir_carriers d' = carriers \<Longrightarrow> dir_snap (dir_run ys d') = dir_snap d'" for d'
  proof (induction ys d' rule: dir_run.induct)
    case (2 net clk xs d')
    then have "dir_snap (refresh net clk d') = dir_snap d'"
      by (intro refresh_failed) (auto simp: isl_def)
    then show ?case using 2 by simp
  qed simp
  assume "\<forall>(net, clk) \<in> set ys. \<forall>c \<in> set carriers. isl (resolve (net (cf_Name c)) c)"
  from run [OF this, of d] show "dir_snap (dir_run ys d) = dir_snap d" by (simp add: d_def)
qed

text \<open>
  C35: A resolver outage never turns a carrier into a stranger. Once a carrier has addresses, every
  later snapshot has some, whatever the lookups of all later refreshes return; and refreshes whose
  lookups all fail publish nothing new at all.
\<close>

theorem outage_keeps_carriers:
  fixes carriers :: "carrier list" and sources :: "prefix list" and xs ys :: "((string \<Rightarrow> dns) \<times> (string \<Rightarrow> gtime)) list"
  assumes "distinct (map cf_Name carriers)"
  defines "d \<equiv> dir_run xs (newCarrierDirectory carriers sources)"
  assumes up: "m_get0 [] (cs_addrs (dir_snap d)) n \<noteq> []"
  shows "(m_get0 [] (cs_addrs (dir_snap (dir_run ys d))) n \<noteq> []) \<and>
    ((\<forall>(net, clk) \<in> set ys. \<forall>c \<in> set carriers. isl (resolve (net (cf_Name c)) c)) \<longrightarrow>
      (dir_snap (dir_run ys d) = dir_snap d))"
proof -
  have c1: "(m_get0 [] (cs_addrs (dir_snap (dir_run ys d))) n \<noteq> [])"
    unfolding d_def by (rule outage_keeps_carriers_parts(1) [OF assms(1) up [unfolded d_def]])
  have c2: "((\<forall>(net, clk) \<in> set ys. \<forall>c \<in> set carriers. isl (resolve (net (cf_Name c)) c)) \<longrightarrow>
      (dir_snap (dir_run ys d) = dir_snap d))"
    unfolding d_def by (intro impI) (rule outage_keeps_carriers_parts(2) [OF assms(1) up [unfolded d_def]]; assumption)
  show ?thesis
    by (rule conjI [OF c1 c2])
qed

theorem outage_keeps_carriers_witness:
  "m_get0 [] (cs_addrs (dir_snap (dir_run [(\<lambda>_. dns_down, \<lambda>_. 400 * second)]
     (dir_run [(\<lambda>_. dns_up, \<lambda>_. 0)] (newCarrierDirectory sample_carriers []))))) ''acme'' = [(V4 7, 5060)]"
proof -
  let ?d = "dir_run [(\<lambda>_. dns_up, \<lambda>_. 0)] (newCarrierDirectory sample_carriers [])"
  have up: "m_get0 [] (cs_addrs (dir_snap ?d)) ''acme'' = [(V4 7, 5060)]" by code_simp
  have down: "\<forall>(net, clk) \<in> set [(\<lambda>_ :: string. dns_down, \<lambda>_ :: string. 400 * second)]. \<forall>c \<in> set sample_carriers.
      isl (resolve (net (cf_Name c)) c)"
    by (simp add: sample_carriers_def resolve_def dns_down_def hostAddrs_def with_mode_def srvName_def)
  have "dir_snap (dir_run [(\<lambda>_. dns_down, \<lambda>_. 400 * second)] ?d) = dir_snap ?d"
    by (rule outage_keeps_carriers [where n = "''acme''", THEN conjunct2, THEN mp, OF sample_distinct(1) _ down]) (simp only: up list.distinct simp_thms)
  then show ?thesis using up by simp
qed

text \<open>
  The order of the SRV records is RFC 2782's, for any source of random numbers: the usable
  records, each once, by ascending priority; and within a priority the number of random values,
  out of the total weight plus one, that select a record is its weight, one more for the first of
  the group.
\<close>

theorem srv_order_correct:
  assumes "draws rnd"
  shows "\<exists>os. orderSRV rnd recs = map srv_target os \<and> mset os = filter_mset usable_srv (mset recs) \<and>
      sorted_wrt (\<lambda>a b. srv_Priority a \<le> srv_Priority b) os"
    "i < length g \<Longrightarrow> card {t. t \<le> sum_list (map weight g) \<and> pick_at t 0 0 g = i} =
      weight (g ! i) + (if i = 0 then 1 else 0)"
proof -
  show "\<exists>os. orderSRV rnd recs = map srv_target os \<and> mset os = filter_mset usable_srv (mset recs) \<and>
      sorted_wrt (\<lambda>a b. srv_Priority a \<le> srv_Priority b) os"
    using orderSRV_recs_spec [OF assms, of recs] by (intro exI [of _ "orderSRV_recs rnd recs"]) (simp add: orderSRV_def)
qed (rule pick_count)

theorem srv_order_correct_witness:
  "\<exists>os. orderSRV (\<lambda>k n. n - 1) [\<lparr>srv_Target = ''b.'', srv_Port = 5060, srv_Priority = 20, srv_Weight = 0\<rparr>,
       \<lparr>srv_Target = ''a.'', srv_Port = 5060, srv_Priority = 10, srv_Weight = 5\<rparr>] = map srv_target os \<and>
     sorted_wrt (\<lambda>a b. srv_Priority a \<le> srv_Priority b) os"
proof -
  have "draws (\<lambda>k n. n - 1)" by (simp add: draws_def)
  from srv_order_correct(1) [OF this] show ?thesis by blast
qed

end
