(* ===== verification/Topology.thy ===== *)
theory Topology
  imports Config Regscan
begin

text \<open>
  The network model of \<^verbatim>\<open>src/internal/edge/topology.go\<close>: the sides FreeSBC stands on, the switch
  nodes, and which node a user's requests start on. \<^verbatim>\<open>parseIPHost\<close> is proved equal to the library's
  parser it avoids, the dial order to be a permutation of the nodes with the available ones first,
  and the addresses the edge writes into its own headers to be exactly the ones it recognises.
\<close>

section \<open>Model: sides\<close>

datatype plane = planePublic | planePrivate

fun plane_label :: "plane \<Rightarrow> string" where
  "plane_label planePrivate = ''private''"
| "plane_label planePublic = ''public''"

record uri =
  u_User :: string
  u_Host :: string
  u_Port :: int
  u_Params :: "(string \<times> string) list"

record via_header =
  v_Transport :: string
  v_Host :: string
  v_Port :: int
  v_Params :: "(string \<times> string) list"

text \<open>A local address pin is \<open>None\<close> where the code leaves it zero.\<close>

record side =
  sd_plane :: plane
  sd_transport :: string
  advIP :: addr
  advPort :: int
  laddr :: "(addr \<times> int) option"
  outbound :: bool
  advHost :: string
  upTransport :: string

text \<open>\<^verbatim>\<open>strings.ToUpper\<close> on the transport names, which are ASCII.\<close>

definition upper_str :: "string \<Rightarrow> string" where
  "upper_str s = map upper_ascii s"

definition withNames :: "side \<Rightarrow> side" where
  "withNames s = s\<lparr>advHost := addr_text (advIP s), upTransport := upper_str (sd_transport s)\<rparr>"

definition side_host :: "side \<Rightarrow> string" where
  "side_host s = (if advHost s \<noteq> [] then advHost s else addr_text (advIP s))"

definition upperTransport :: "side \<Rightarrow> string" where
  "upperTransport s = (if upTransport s \<noteq> [] then upTransport s else upper_str (sd_transport s))"

definition side_uri :: "side \<Rightarrow> uri" where
  "side_uri s = \<lparr>u_User = [], u_Host = side_host s, u_Port = advPort s,
     u_Params = (if sd_transport s \<noteq> ''udp'' then [(''transport'', sd_transport s)] else [])\<rparr>"

definition recordRoute :: "side \<Rightarrow> uri" where
  "recordRoute s = \<lparr>u_User = [], u_Host = side_host s, u_Port = advPort s,
     u_Params = (if sd_transport s \<noteq> ''udp'' then [(''transport'', sd_transport s)] else []) @ [(''lr'', [])]\<rparr>"

definition side_via :: "side \<Rightarrow> string \<Rightarrow> via_header" where
  "side_via s branch = \<lparr>v_Transport = upperTransport s, v_Host = side_host s, v_Port = advPort s,
     v_Params = (''branch'', branch) # (if sd_transport s = ''udp'' then [(''rport'', [])] else []) @
       (if outbound s then [(''alias'', [])] else [])\<rparr>"

section \<open>Model: the topology\<close>

record endpoint =
  ep_addr :: addrport
  ep_host :: string
  ep_carrierPort :: "16 word"

definition carrierAddr :: "endpoint \<Rightarrow> addrport" where
  "carrierAddr e = (fst (ep_addr e), ep_carrierPort e)"

record topology =
  tp_public :: "(string, side) gomap"
  tp_private :: side
  tp_upstreams :: "(string, endpoint) gomap"
  upstreamNames :: "string list"
  publicMediaIP :: addr
  privateMediaIP :: addr
  publicHost :: string

definition hostOf :: "topology \<Rightarrow> addr \<Rightarrow> string" where
  "hostOf t ip = (if publicHost t \<noteq> [] \<and> ip = publicMediaIP t then publicHost t else addr_text ip)"

text \<open>The scan of \<^verbatim>\<open>parseIPHost\<close> over the rest of the host.\<close>

fun host_scan :: "string \<Rightarrow> string \<Rightarrow> addr option" where
  "host_scan host [] = None"
| "host_scan host (c # s) =
     (if c = CHR '':'' then ParseAddr host
      else if c = CHR ''.'' then
        (if list_ex (\<lambda>c. c \<noteq> CHR ''.'' \<and> \<not> is_digit c) host then None else ParseAddr host)
      else if c = CHR ''%'' then None
      else host_scan host s)"

definition parseIPHost :: "string \<Rightarrow> addr option" where
  "parseIPHost host = host_scan host host"

text \<open>\<^verbatim>\<open>AddrPort.String\<close>\<close>

definition ap_text :: "addrport \<Rightarrow> string" where
  "ap_text ap = (case fst ap of
       AddrZero \<Rightarrow> ''invalid AddrPort''
     | V4 w \<Rightarrow> quad_text w @ '':'' @ show_nat (unat (snd ap))
     | V6 w z \<Rightarrow> ''['' @ addr_text (V6 w z) @ '']:'' @ show_nat (unat (snd ap)))"

definition switch_endpoint :: "config \<Rightarrow> addrport \<Rightarrow> endpoint" where
  "switch_endpoint c ap = (let cp = word_of_int (ec_SwitchCarrierPort (cfg_Edge c)) in
     \<lparr>ep_addr = ap, ep_host = ap_text ap, ep_carrierPort = (if cp = 0 then snd ap else cp)\<rparr>)"

definition side_zero :: side where
  "side_zero = \<lparr>sd_plane = planePublic, sd_transport = [], advIP = AddrZero, advPort = 0, laddr = None, outbound = False,
     advHost = [], upTransport = []\<rparr>"

definition listen_side :: "config \<Rightarrow> string \<Rightarrow> side" where
  "listen_side c tr = withNames (side_zero\<lparr>sd_transport := tr, advIP := PublicIP c, advPort := AdvertisedPort c tr,
     laddr := (if tr = ''udp'' then Some (PublicBind c, Port (ec_Listen (cfg_Edge c)) tr) else None)\<rparr>)"

definition carrier_side :: "config \<Rightarrow> string \<Rightarrow> side" where
  "carrier_side c tr = withNames (side_zero\<lparr>sd_transport := tr, advIP := PublicIP c,
     advPort := (if tr = ''tls'' then 5061 else 5060), outbound := True\<rparr>)"

definition listen_sides :: "config \<Rightarrow> (string, side) gomap" where
  "listen_sides c = fold (\<lambda>tr m. if Port (ec_Listen (cfg_Edge c)) tr = 0 then m else m_set tr (listen_side c tr) m) Transports []"

definition add_carrier_side :: "config \<Rightarrow> carrier \<Rightarrow> (string, side) gomap \<Rightarrow> (string, side) gomap" where
  "add_carrier_side c k m = (if m_get m (cf_Transport k) \<noteq> None \<or> cf_Transport k = ''udp'' then m
     else m_set (cf_Transport k) (carrier_side c (cf_Transport k)) m)"

definition buildTopology :: "config \<Rightarrow> addrport \<Rightarrow> topology" where
  "buildTopology c priv =
     (let ups = fold (\<lambda>ap. m_set (ap_text ap) (switch_endpoint c ap)) (ec_switches (cfg_Edge c)) [] in
      \<lparr>tp_public = fold (add_carrier_side c) (ec_carriers (cfg_Edge c)) (listen_sides c),
       tp_private = withNames (side_zero\<lparr>sd_plane := planePrivate, sd_transport := ''udp'', advIP := fst priv,
         advPort := int (unat (snd priv)), laddr := Some (fst priv, int (unat (snd priv)))\<rparr>),
       tp_upstreams = ups, upstreamNames = sort_slice str_less (map fst ups),
       publicMediaIP = PublicIP c, privateMediaIP = fst priv, publicHost = addr_text (PublicIP c)\<rparr>)"

definition publicSide :: "unicode \<Rightarrow> topology \<Rightarrow> string \<Rightarrow> side option" where
  "publicSide u t transport = m_get (tp_public t) (to_lower u transport)"

section \<open>Model: what is ours\<close>

definition same_side :: "addr \<Rightarrow> int \<Rightarrow> side \<Rightarrow> bool" where
  "same_side ip port s \<longleftrightarrow> advIP s = ip \<and> advPort s = port"

definition is_self_at :: "topology \<Rightarrow> addr \<Rightarrow> int \<Rightarrow> bool" where
  "is_self_at t ip port \<longleftrightarrow> same_side ip port (tp_private t) \<or> list_ex (\<lambda>e. same_side ip port (snd e)) (tp_public t)"

definition isSelf :: "topology \<Rightarrow> uri \<Rightarrow> bool" where
  "isSelf t x = (case parseIPHost (u_Host x) of None \<Rightarrow> False
     | Some ip \<Rightarrow> is_self_at t (unmap ip) (if u_Port x = 0 then 5060 else u_Port x))"

definition isSelfVia :: "unicode \<Rightarrow> topology \<Rightarrow> via_header option \<Rightarrow> bool" where
  "isSelfVia u t v0 = (case v0 of None \<Rightarrow> False
     | Some v \<Rightarrow> (case parseIPHost (v_Host v) of None \<Rightarrow> False
         | Some ip \<Rightarrow> is_self_at t (unmap ip) (if v_Port v = 0 then int (DefaultPort u (v_Transport v)) else v_Port v)))"

text \<open>\<^verbatim>\<open>t.upstreams[name]\<close> of an unknown name is the zero endpoint.\<close>

definition endpoint_zero :: endpoint where
  "endpoint_zero = \<lparr>ep_addr = ap_zero, ep_host = [], ep_carrierPort = 0\<rparr>"

definition upstreamEntryFor :: "topology \<Rightarrow> string \<Rightarrow> endpoint" where
  "upstreamEntryFor t name = m_get0 endpoint_zero (tp_upstreams t) name"

definition fromUpstream :: "topology \<Rightarrow> addr \<Rightarrow> bool" where
  "fromUpstream t src = list_ex (\<lambda>name. unmap (fst (ep_addr (upstreamEntryFor t name))) = unmap src) (upstreamNames t)"

section \<open>Model: the dial order\<close>

definition hashUpstreamUser :: "unicode \<Rightarrow> string \<Rightarrow> 64 word" where
  "hashUpstreamUser u user = fnv64a (to_lower u user)"

definition orderByAvailability :: "string list \<Rightarrow> (string \<Rightarrow> bool) \<Rightarrow> string list \<times> string list" where
  "orderByAvailability names available =
     (let pool = filter available names; cooled = filter (\<lambda>n. \<not> available n) names
      in if pool = [] then (names, []) else (pool, cooled))"

definition upstreamDialOrder :: "unicode \<Rightarrow> topology \<Rightarrow> string \<Rightarrow> (string \<Rightarrow> bool) \<Rightarrow> string list" where
  "upstreamDialOrder u t user available =
     (if upstreamNames t = [] then []
      else let (pool, cooled) = orderByAvailability (upstreamNames t) available;
               idx = unat (hashUpstreamUser u user) mod length pool
        in drop idx pool @ take idx pool @ cooled)"

definition selectUpstream :: "unicode \<Rightarrow> topology \<Rightarrow> string \<Rightarrow> (string \<Rightarrow> bool) \<Rightarrow> (string \<times> endpoint) option" where
  "selectUpstream u t user available = (case upstreamDialOrder u t user available of
       [] \<Rightarrow> None | n # _ \<Rightarrow> Some (n, upstreamEntryFor t n))"

section \<open>Addresses read back what was written\<close>

lemma split_on_chars: "set s \<subseteq> insert c (\<Union>p \<in> set (split_on c s). set p)"
proof (induction s)
  case (Cons x s)
  then show ?case by (cases "split_on c s") auto
qed simp

lemma parse_octet_digits: "parse_octet p \<noteq> None \<Longrightarrow> list_all is_digit p"
  by (auto simp: parse_octet_def split: if_splits)

lemma parseIPv4_chars:
  assumes "parseIPv4 s \<noteq> None"
  shows "list_all (\<lambda>c. c = CHR ''.'' \<or> is_digit c) s"
proof -
  have "\<forall>p \<in> set (split_on (CHR ''.'') s). list_all is_digit p"
    using assms parse_octet_digits by (auto simp: parseIPv4_def parse_quad_def Let_def list_ex_iff split: if_splits)
  then show ?thesis using split_on_chars [of s "CHR ''.''"] by (auto simp: list_all_iff)
qed

lemma host_scan_eq:
  "host_scan h s = (case find_sep s of None \<Rightarrow> None
     | Some c \<Rightarrow> if c = CHR '':'' then ParseAddr h
         else if c = CHR ''.'' then (if list_all (\<lambda>c. c = CHR ''.'' \<or> is_digit c) h then ParseAddr h else None) else None)"
proof (induction s)
  case (Cons c s)
  then show ?case by (simp add: list_ex_iff list_all_iff) blast
qed simp

lemma parseIPHost_eq: "parseIPHost h = ParseAddr h"
proof (cases "find_sep h = Some (CHR ''.'')")
  case True
  then have "ParseAddr h = parseIPv4 h" by (simp add: ParseAddr_def)
  then show ?thesis
    using parseIPv4_chars [of h] True by (cases "parseIPv4 h") (simp_all add: parseIPHost_def host_scan_eq)
next
  case False
  then show ?thesis by (auto simp: parseIPHost_def host_scan_eq ParseAddr_def split: option.split)
qed

lemma show_nat_lead: "n > 0 \<Longrightarrow> hd (show_nat n) \<noteq> CHR ''0''"
proof (induction n rule: show_nat.induct)
  case (1 n)
  then show ?case
  proof (cases "n < 10")
    case True
    have "digit_char n \<noteq> CHR ''0''" using True 1(2) byte_digit_char [of n] by (auto simp: byte_def)
    then show ?thesis using True by (simp add: show_nat.simps)
  next
    case False
    then have "hd (show_nat (n div 10)) \<noteq> CHR ''0''" using 1 by simp
    moreover have "show_nat n = show_nat (n div 10) @ [digit_char (n mod 10)]" using False by (simp add: show_nat.simps)
    ultimately show ?thesis by (simp add: hd_append)
  qed
qed

lemma parse_octet_show: "n < 256 \<Longrightarrow> parse_octet (show_nat n) = Some n"
proof -
  assume n: "n < 256"
  have "\<not> (length (show_nat n) > 1 \<and> hd (show_nat n) = CHR ''0'')"
    using show_nat_lead [of n] by (cases "n = 0") (auto simp: show_nat.simps)
  then show ?thesis using n by (simp add: parse_octet_def)
qed

lemma show_nat_no_dot: "CHR ''.'' \<notin> set (show_nat n)"
proof
  assume "CHR ''.'' \<in> set (show_nat n)"
  then have "is_digit (CHR ''.'')" using show_nat_digits [of n] unfolding list_all_iff by (rule bspec [rotated])
  then show False by (simp add: is_digit_def byte_def)
qed

lemma quad_of_32:
  fixes n :: nat
  assumes "n < 2 ^ 32"
  shows "256 * (256 * (256 * (n div 2 ^ 24 mod 256) + n div 2 ^ 16 mod 256) + n div 2 ^ 8 mod 256) + n mod 256 = n"
proof -
  have "n div 2 ^ 24 mod 256 = n div 2 ^ 24" using assms by simp
  moreover have "256 * (n div 2 ^ 24) + n div 2 ^ 16 mod 256 = n div 2 ^ 16"
    using mult_div_mod_eq [of 256 "n div 2 ^ 16"] by (simp add: div_mult2_eq [symmetric])
  moreover have "256 * (n div 2 ^ 16) + n div 2 ^ 8 mod 256 = n div 2 ^ 8"
    using mult_div_mod_eq [of 256 "n div 2 ^ 8"] by (simp add: div_mult2_eq [symmetric])
  ultimately show ?thesis using mult_div_mod_eq [of 256 n] by simp
qed

definition octet :: "32 word \<Rightarrow> nat \<Rightarrow> nat" where
  "octet w k = unat w div 2 ^ k mod 256"

lemma quad_text_eq: "quad_text w = join ''.'' [show_nat (octet w 24), show_nat (octet w 16), show_nat (octet w 8), show_nat (octet w 0)]"
proof -
  have l: "[0..<4] = [0, 1, 2, 3::nat]" by code_simp
  have o: "unat (drop_bit (8 * (3 - i)) w) mod 256 = octet w (8 * (3 - i))" for i
    unfolding octet_def by (subst unat_drop_bit_eq) (simp only: drop_bit_eq_div)
  show ?thesis unfolding quad_text_def l o by simp
qed

lemma octet_less: "octet w k < 256"
  by (simp add: octet_def)

lemma parseIPv4_quad: "parseIPv4 (quad_text w) = Some (V4 w)"
proof -
  have sp: "split_on (CHR ''.'') (quad_text w) =
      [show_nat (octet w 24), show_nat (octet w 16), show_nat (octet w 8), show_nat (octet w 0)]"
    unfolding quad_text_eq by (rule split_on_join) (simp_all add: show_nat_no_dot)
  have "parse_quad (quad_text w) = Some [octet w 24, octet w 16, octet w 8, octet w 0]"
    unfolding parse_quad_def sp Let_def by (simp add: parse_octet_show octet_less)
  moreover have "unat w < 2 ^ LENGTH(32)" by (rule unsigned_less)
  then have "octets_val [octet w 24, octet w 16, octet w 8, octet w 0] = unat w"
    using quad_of_32 [of "unat w"] by (simp add: octets_val_def octet_def)
  ultimately show ?thesis by (simp add: parseIPv4_def)
qed

lemma find_sep_quad: "find_sep (quad_text w) = Some (CHR ''.'')"
proof -
  have d: "find_sep (ds @ s) = find_sep s" if "list_all is_digit ds" for ds s
    using that by (induction ds) (auto simp: is_digit_def byte_def)
  show ?thesis by (simp add: quad_text_eq d)
qed

lemma ParseAddr_v4: "ParseAddr (addr_text (V4 w)) = Some (V4 w)"
  by (simp add: ParseAddr_def find_sep_quad parseIPv4_quad)

section \<open>The tables of a topology\<close>

lemma fold_set_get:
  "m_get (fold (\<lambda>x. m_set (f x) (g x)) xs m) k = (case find (\<lambda>x. f x = k) (rev xs) of None \<Rightarrow> m_get m k | Some x \<Rightarrow> Some (g x))"
proof (induction xs arbitrary: m)
  case (Cons a xs)
  then show ?case by (cases "find (\<lambda>x. f x = k) (rev xs)") (auto simp: find_append)
qed simp

lemma find_append_none: "find P xs = None \<longleftrightarrow> (\<forall>x \<in> set xs. \<not> P x)"
  by (induction xs) auto

lemma ups_names: "keys (fold (\<lambda>x. m_set (f x) (g x)) xs m) = f ` set xs \<union> keys m"
  by (induction xs arbitrary: m) (auto simp: keys_set)

lemma ups_wf: "wf_map m \<Longrightarrow> wf_map (fold (\<lambda>x. m_set (f x) (g x)) xs m)"
  by (induction xs arbitrary: m) auto

lemma build_names:
  "set (upstreamNames (buildTopology c priv)) = ap_text ` set (ec_switches (cfg_Edge c))"
  "distinct (upstreamNames (buildTopology c priv))"
  "sorted_wrt (\<lambda>a b. \<not> str_less b a) (upstreamNames (buildTopology c priv))"
proof -
  let ?ups = "fold (\<lambda>ap. m_set (ap_text ap) (switch_endpoint c ap)) (ec_switches (cfg_Edge c)) []"
  have n: "upstreamNames (buildTopology c priv) = sort_slice str_less (map fst ?ups)"
    by (simp add: buildTopology_def Let_def)
  have m: "mset (upstreamNames (buildTopology c priv)) = mset (map fst ?ups)" unfolding n by (rule mset_sort_slice)
  show "set (upstreamNames (buildTopology c priv)) = ap_text ` set (ec_switches (cfg_Edge c))"
    using mset_eq_setD [OF m] ups_names [of ap_text "switch_endpoint c" "ec_switches (cfg_Edge c)" "[]"] by simp
  show "distinct (upstreamNames (buildTopology c priv))"
    using mset_eq_imp_distinct_iff [OF m] ups_wf [of "[]" ap_text "switch_endpoint c" "ec_switches (cfg_Edge c)"]
    by (simp add: wf_map_def)
  show "sorted_wrt (\<lambda>a b. \<not> str_less b a) (upstreamNames (buildTopology c priv))"
    unfolding n by (rule sorted_sort_slice) (use str_less_asym str_less_weak in blast)+
qed

lemma build_entry:
  assumes "n \<in> set (upstreamNames (buildTopology c priv))"
  shows "\<exists>ap \<in> set (ec_switches (cfg_Edge c)). ap_text ap = n \<and> upstreamEntryFor (buildTopology c priv) n = switch_endpoint c ap"
proof -
  let ?P = "\<lambda>x. ap_text x = n"
  obtain ap where "ap \<in> set (ec_switches (cfg_Edge c))" "?P ap" using assms by (auto simp: build_names)
  then obtain b where b: "find ?P (rev (ec_switches (cfg_Edge c))) = Some b"
    using find_append_none [of ?P "rev (ec_switches (cfg_Edge c))"] by fastforce
  have "upstreamEntryFor (buildTopology c priv) n = switch_endpoint c b"
    by (simp add: upstreamEntryFor_def buildTopology_def Let_def m_get0_def fold_set_get b)
  then show ?thesis using find_SomeD [OF b] by auto
qed

lemma dial_order_eq:
  fixes av :: "string \<Rightarrow> bool" and t :: topology
  assumes "upstreamNames t \<noteq> []"
  defines "pool \<equiv> fst (orderByAvailability (upstreamNames t) av)"
  shows "upstreamDialOrder u t user av = rotate (unat (hashUpstreamUser u user) mod length pool) pool @
      snd (orderByAvailability (upstreamNames t) av)" "pool \<noteq> []"
proof -
  show "pool \<noteq> []" using assms by (auto simp: pool_def orderByAvailability_def Let_def)
  then show "upstreamDialOrder u t user av = rotate (unat (hashUpstreamUser u user) mod length pool) pool @
      snd (orderByAvailability (upstreamNames t) av)"
    using assms(1) by (simp add: upstreamDialOrder_def pool_def case_prod_beta Let_def rotate_drop_take)
qed

lemma order_parts: "mset (fst (orderByAvailability ns av)) + mset (snd (orderByAvailability ns av)) = mset ns"
  by (simp add: orderByAvailability_def Let_def)

section \<open>The public sides\<close>

definition side_ok :: "config \<Rightarrow> string \<times> side \<Rightarrow> bool" where
  "side_ok c e \<longleftrightarrow> advIP (snd e) = PublicIP c \<and> advPort (snd e) \<noteq> 0 \<and> sd_transport (snd e) = fst e \<and>
     side_host (snd e) = addr_text (PublicIP c) \<and>
     (outbound (snd e) \<longrightarrow> Port (ec_Listen (cfg_Edge c)) (fst e) = 0 \<or> fst e \<notin> set Transports) \<and>
     (\<not> outbound (snd e) \<longrightarrow> fst e \<in> set Transports \<and> advPort (snd e) = AdvertisedPort c (fst e))"

lemma set_m_set: "set (m_set k v m) \<subseteq> insert (k, v) (set m)"
  by (induction m) auto

lemma listen_side_ok: "Port (ec_Listen (cfg_Edge c)) tr \<noteq> 0 \<Longrightarrow> tr \<in> set Transports \<Longrightarrow> side_ok c (tr, listen_side c tr)"
  by (auto simp: side_ok_def listen_side_def withNames_def side_zero_def AdvertisedPort_def Let_def side_host_def)

lemma listen_fold:
  assumes "set trs \<subseteq> set Transports" "\<forall>e \<in> set m. side_ok c e"
  defines "m' \<equiv> fold (\<lambda>tr m. if Port (ec_Listen (cfg_Edge c)) tr = 0 then m else m_set tr (listen_side c tr) m) trs m"
  shows "(\<forall>e \<in> set m'. side_ok c e) \<and> keys m' = keys m \<union> {tr \<in> set trs. Port (ec_Listen (cfg_Edge c)) tr \<noteq> 0}"
  using assms(1,2) unfolding m'_def
proof (induction trs arbitrary: m)
  case (Cons tr trs)
  show ?case
  proof (cases "Port (ec_Listen (cfg_Edge c)) tr = 0")
    case True
    then show ?thesis using Cons.IH [of m] Cons.prems by auto
  next
    case False
    then have "\<forall>e \<in> set (m_set tr (listen_side c tr) m). side_ok c e"
      using Cons.prems listen_side_ok set_m_set [of tr "listen_side c tr" m] by auto
    then show ?thesis using Cons.IH [of "m_set tr (listen_side c tr) m"] Cons.prems False by (auto simp: keys_set)
  qed
qed simp

lemma carrier_fold:
  assumes "\<forall>e \<in> set m. side_ok c e" "\<forall>tr \<in> set Transports. Port (ec_Listen (cfg_Edge c)) tr \<noteq> 0 \<longrightarrow> tr \<in> keys m"
  shows "(\<forall>e \<in> set (fold (add_carrier_side c) ks m). side_ok c e) \<and> keys m \<subseteq> keys (fold (add_carrier_side c) ks m)"
  using assms
proof (induction ks arbitrary: m)
  case (Cons k ks)
  let ?tr = "cf_Transport k" and ?s = "carrier_side c (cf_Transport k)"
  show ?case
  proof (cases "m_get m ?tr \<noteq> None \<or> ?tr = ''udp''")
    case True
    then show ?thesis using Cons.IH [of m] Cons.prems by (simp add: add_carrier_side_def)
  next
    case False
    then have nk: "?tr \<notin> keys m" by (simp add: m_get_None)
    then have "side_ok c (?tr, ?s)"
      using Cons.prems(2) by (auto simp: side_ok_def carrier_side_def withNames_def side_zero_def side_host_def)
    then have "\<forall>e \<in> set (m_set ?tr ?s m). side_ok c e" using Cons.prems(1) set_m_set [of ?tr ?s m] by blast
    moreover have "\<forall>tr \<in> set Transports. Port (ec_Listen (cfg_Edge c)) tr \<noteq> 0 \<longrightarrow> tr \<in> keys (m_set ?tr ?s m)"
      using Cons.prems(2) by (simp add: keys_set)
    ultimately have "(\<forall>e \<in> set (fold (add_carrier_side c) ks (m_set ?tr ?s m)). side_ok c e) \<and>
        keys (m_set ?tr ?s m) \<subseteq> keys (fold (add_carrier_side c) ks (m_set ?tr ?s m))" by (rule Cons.IH)
    moreover have "fold (add_carrier_side c) (k # ks) m = fold (add_carrier_side c) ks (m_set ?tr ?s m)"
      using False by (simp add: add_carrier_side_def)
    moreover have "keys m \<subseteq> keys (m_set ?tr ?s m)" by (auto simp: keys_set)
    ultimately show ?thesis by (simp only:) blast
  qed
qed simp

lemma public_sides:
  "\<forall>e \<in> set (tp_public (buildTopology c priv)). side_ok c e"
  "tr \<in> set Transports \<Longrightarrow> Port (ec_Listen (cfg_Edge c)) tr \<noteq> 0 \<Longrightarrow> tr \<in> keys (tp_public (buildTopology c priv))"
proof -
  have l: "(\<forall>e \<in> set (listen_sides c). side_ok c e) \<and> keys (listen_sides c) = {tr \<in> set Transports. Port (ec_Listen (cfg_Edge c)) tr \<noteq> 0}"
    using listen_fold [of Transports "[]" c] unfolding listen_sides_def by simp
  have p: "tp_public (buildTopology c priv) = fold (add_carrier_side c) (ec_carriers (cfg_Edge c)) (listen_sides c)"
    by (simp add: buildTopology_def Let_def)
  have "(\<forall>e \<in> set (tp_public (buildTopology c priv)). side_ok c e) \<and> keys (listen_sides c) \<subseteq> keys (tp_public (buildTopology c priv))"
    unfolding p by (rule carrier_fold) (use l in auto)
  then show "\<forall>e \<in> set (tp_public (buildTopology c priv)). side_ok c e"
    "tr \<in> set Transports \<Longrightarrow> Port (ec_Listen (cfg_Edge c)) tr \<noteq> 0 \<Longrightarrow> tr \<in> keys (tp_public (buildTopology c priv))"
    using l by auto
qed

section \<open>Properties\<close>

lemma mset_rotated: "mset (rotate n xs) = mset xs"
  by (simp add: rotate_drop_take) (metis append_take_drop_id mset_append union_commute)

lemma pool_head:
  assumes "\<exists>n \<in> set names. av n"
  shows "fst (orderByAvailability names av) = filter av names" "snd (orderByAvailability names av) = filter (\<lambda>n. \<not> av n) names"
  using assms by (auto simp: orderByAvailability_def Let_def filter_empty_conv)

lemma upstream_dial_order_parts:
  fixes c :: config and av :: "string \<Rightarrow> bool" and u :: unicode and user :: string and priv :: addrport
  assumes nodes: "ec_switches (cfg_Edge c) \<noteq> []"
  defines "t \<equiv> buildTopology c priv" and "dial \<equiv> upstreamDialOrder u (buildTopology c priv) user av"
    and "k \<equiv> \<lambda>ns. unat (hashUpstreamUser u user) mod length ns"
  shows "distinct dial" "set dial = ap_text ` set (ec_switches (cfg_Edge c))"
    and "\<exists>n \<in> set dial. av n \<Longrightarrow> dial = rotate (k (filter av (upstreamNames t))) (filter av (upstreamNames t)) @
      filter (\<lambda>n. \<not> av n) (upstreamNames t) \<and> av (hd dial)"
    and "\<forall>n \<in> set dial. \<not> av n \<Longrightarrow> dial = rotate (k (upstreamNames t)) (upstreamNames t)"
    and "to_lower u user' = to_lower u user \<Longrightarrow> upstreamDialOrder u t user' av = dial"
    and "\<exists>ap \<in> set (ec_switches (cfg_Edge c)). ap_text ap = hd dial \<and>
      selectUpstream u t user av = Some (hd dial, switch_endpoint c ap)"
    and "fromUpstream t src \<Longrightarrow> unmap src \<in> unmap ` fst ` set (ec_switches (cfg_Edge c))"
proof -
  note names = build_names [where c = c and priv = priv, folded t_def]
  have ne: "upstreamNames t \<noteq> []" using nodes names(1) by auto
  note eq = dial_order_eq(1) [OF ne, where u = u and user = user and av = av] dial_order_eq(2) [OF ne, where av = av]
  let ?pool = "fst (orderByAvailability (upstreamNames t) av)" and ?cold = "snd (orderByAvailability (upstreamNames t) av)"
  have o: "dial = rotate (k ?pool) ?pool @ ?cold" using eq(1) by (simp add: dial_def t_def k_def)
  have m: "mset dial = mset (upstreamNames t)" unfolding o using order_parts [of "upstreamNames t" av] by (simp add: mset_rotated)
  show d: "distinct dial" using mset_eq_imp_distinct_iff [OF m] names(2) by simp
  have so: "set dial = set (upstreamNames t)" using mset_eq_setD [OF m] .
  then show "set dial = ap_text ` set (ec_switches (cfg_Edge c))" using names(1) by simp
  show "dial = rotate (k (filter av (upstreamNames t))) (filter av (upstreamNames t)) @
      filter (\<lambda>n. \<not> av n) (upstreamNames t) \<and> av (hd dial)" if "\<exists>n \<in> set dial. av n"
  proof -
    note ph = pool_head [OF that [unfolded so]]
    have "hd dial = hd (rotate (k ?pool) ?pool)" using eq(2) unfolding o by simp
    also have "\<dots> \<in> set ?pool" using eq(2) by (metis hd_in_set rotate_is_Nil_conv set_rotate)
    finally have "av (hd dial)" using ph(1) by simp
    then show ?thesis using o ph by simp
  qed
  show "dial = rotate (k (upstreamNames t)) (upstreamNames t)" if "\<forall>n \<in> set dial. \<not> av n"
  proof -
    have "filter av (upstreamNames t) = []" using that so by (simp add: filter_empty_conv)
    then show ?thesis using o by (simp add: orderByAvailability_def)
  qed
  show "upstreamDialOrder u t user' av = dial" if "to_lower u user' = to_lower u user"
    using that by (simp add: dial_def t_def upstreamDialOrder_def hashUpstreamUser_def)
  have one: "dial \<noteq> []" using so ne by auto
  then have "hd dial \<in> set (upstreamNames t)" using so hd_in_set by blast
  then obtain ap where ap: "ap \<in> set (ec_switches (cfg_Edge c))" "ap_text ap = hd dial"
      "upstreamEntryFor t (hd dial) = switch_endpoint c ap"
    using build_entry [of "hd dial" c priv] by (auto simp: t_def)
  moreover have "selectUpstream u t user av = Some (hd dial, upstreamEntryFor t (hd dial))"
    using one by (cases dial) (simp_all add: selectUpstream_def dial_def t_def)
  ultimately show "\<exists>ap \<in> set (ec_switches (cfg_Edge c)). ap_text ap = hd dial \<and>
      selectUpstream u t user av = Some (hd dial, switch_endpoint c ap)" by auto
  show "unmap src \<in> unmap ` fst ` set (ec_switches (cfg_Edge c))" if "fromUpstream t src"
  proof -
    obtain n where n: "n \<in> set (upstreamNames t)" "unmap (fst (ep_addr (upstreamEntryFor t n))) = unmap src"
      using \<open>fromUpstream t src\<close> by (auto simp: fromUpstream_def list_ex_iff)
    then obtain ap where "ap \<in> set (ec_switches (cfg_Edge c))" "upstreamEntryFor t n = switch_endpoint c ap"
      using build_entry [of n c priv] by (auto simp: t_def)
    then have "unmap src = unmap (fst ap)" "fst ap \<in> fst ` set (ec_switches (cfg_Edge c))"
      using n(2) by (simp_all add: switch_endpoint_def Let_def)
    then show ?thesis by (rule image_eqI)
  qed
qed

text \<open>
  C36: Every request a user causes starts on the same node, and cooling nodes are only ever tried last.
  The dial order of a topology built from a configuration with switch nodes lists each node once;
  while some node is available, it is a rotation of the available nodes, the start fixed by the
  hash of the lower-cased user, and after them the cooling ones in order; when none is, it is a
  rotation of them all. \<^verbatim>\<open>selectUpstream\<close> takes its head, and the endpoint is that of a
  configured node of this name. Only the IP of a switch node counts as upstream.
\<close>

theorem upstream_dial_order:
  fixes c :: config and av :: "string \<Rightarrow> bool" and u :: unicode and user :: string and priv :: addrport
  assumes nodes: "ec_switches (cfg_Edge c) \<noteq> []"
  defines "t \<equiv> buildTopology c priv" and "dial \<equiv> upstreamDialOrder u (buildTopology c priv) user av"
    and "k \<equiv> \<lambda>ns. unat (hashUpstreamUser u user) mod length ns"
  shows "(distinct dial) \<and>
    (set dial = ap_text ` set (ec_switches (cfg_Edge c))) \<and>
    ((\<exists>n \<in> set dial. av n) \<longrightarrow>
      (dial = rotate (k (filter av (upstreamNames t))) (filter av (upstreamNames t)) @
      filter (\<lambda>n. \<not> av n) (upstreamNames t) \<and> av (hd dial))) \<and>
    ((\<forall>n \<in> set dial. \<not> av n) \<longrightarrow>
      (dial = rotate (k (upstreamNames t)) (upstreamNames t))) \<and>
    (to_lower u user' = to_lower u user \<longrightarrow>
      (upstreamDialOrder u t user' av = dial)) \<and>
    (\<exists>ap \<in> set (ec_switches (cfg_Edge c)). ap_text ap = hd dial \<and>
      selectUpstream u t user av = Some (hd dial, switch_endpoint c ap)) \<and>
    (fromUpstream t src \<longrightarrow>
      (unmap src \<in> unmap ` fst ` set (ec_switches (cfg_Edge c))))"
proof -
  have c1: "(distinct dial)"
    unfolding t_def dial_def k_def by (rule upstream_dial_order_parts(1) [OF nodes])
  have c2: "(set dial = ap_text ` set (ec_switches (cfg_Edge c)))"
    unfolding t_def dial_def k_def by (rule upstream_dial_order_parts(2) [OF nodes])
  have c3: "((\<exists>n \<in> set dial. av n) \<longrightarrow>
      (dial = rotate (k (filter av (upstreamNames t))) (filter av (upstreamNames t)) @
      filter (\<lambda>n. \<not> av n) (upstreamNames t) \<and> av (hd dial)))"
    unfolding t_def dial_def k_def by (intro impI) (rule upstream_dial_order_parts(3) [OF nodes]; assumption)
  have c4: "((\<forall>n \<in> set dial. \<not> av n) \<longrightarrow>
      (dial = rotate (k (upstreamNames t)) (upstreamNames t)))"
    unfolding t_def dial_def k_def by (intro impI) (rule upstream_dial_order_parts(4) [OF nodes]; assumption)
  have c5: "(to_lower u user' = to_lower u user \<longrightarrow>
      (upstreamDialOrder u t user' av = dial))"
    unfolding t_def dial_def k_def by (intro impI) (rule upstream_dial_order_parts(5) [OF nodes]; assumption)
  have c6: "(\<exists>ap \<in> set (ec_switches (cfg_Edge c)). ap_text ap = hd dial \<and>
      selectUpstream u t user av = Some (hd dial, switch_endpoint c ap))"
    unfolding t_def dial_def k_def by (rule upstream_dial_order_parts(6) [OF nodes])
  have c7: "(fromUpstream t src \<longrightarrow>
      (unmap src \<in> unmap ` fst ` set (ec_switches (cfg_Edge c))))"
    unfolding t_def dial_def k_def by (intro impI) (rule upstream_dial_order_parts(7) [OF nodes]; assumption)
  show ?thesis
    by (rule conjI [OF c1 conjI [OF c2 conjI [OF c3 conjI [OF c4 conjI [OF c5 conjI [OF c6 c7]]]]]])
qed

definition two_switches :: config where
  "two_switches = sample_config\<lparr>cfg_Edge := (cfg_Edge sample_config)\<lparr>ec_switches := [(V4 1, 9), (V4 2, 9)]\<rparr>\<rparr>"

theorem upstream_dial_order_witness:
  "distinct (upstreamDialOrder ascii_tables (buildTopology two_switches (V4 7, 9)) ''Bob'' (\<lambda>n. n = ''0.0.0.2:9'')) \<and>
   hd (upstreamDialOrder ascii_tables (buildTopology two_switches (V4 7, 9)) ''Bob'' (\<lambda>n. n = ''0.0.0.2:9'')) = ''0.0.0.2:9'' \<and>
   upstreamDialOrder ascii_tables (buildTopology two_switches (V4 7, 9)) ''BOB'' (\<lambda>n. n = ''0.0.0.2:9'') =
   upstreamDialOrder ascii_tables (buildTopology two_switches (V4 7, 9)) ''Bob'' (\<lambda>n. n = ''0.0.0.2:9'')"
proof -
  have sw: "ec_switches (cfg_Edge two_switches) = [(V4 1, 9), (V4 2, 9)]" by (simp add: two_switches_def)
  then have ne: "ec_switches (cfg_Edge two_switches) \<noteq> []" by simp
  have l: "to_lower ascii_tables ''BOB'' = to_lower ascii_tables ''Bob''" by code_simp
  have t: "ap_text (V4 2, 9) = ''0.0.0.2:9''" by code_simp
  note all = upstream_dial_order [OF ne, where u = ascii_tables and priv = "(V4 7, 9)" and user = "''Bob''" and av = "\<lambda>n. n = ''0.0.0.2:9''"]
  note main = all [THEN conjunct1] all [THEN conjunct2, THEN conjunct1] all [THEN conjunct2, THEN conjunct2, THEN conjunct1, THEN mp] all [THEN conjunct2, THEN conjunct2, THEN conjunct2, THEN conjunct2, THEN conjunct1, THEN mp]
  have "\<exists>n \<in> set (upstreamDialOrder ascii_tables (buildTopology two_switches (V4 7, 9)) ''Bob'' (\<lambda>n. n = ''0.0.0.2:9'')). n = ''0.0.0.2:9''"
    unfolding main(2) sw using t by simp
  from main(1) conjunct2 [OF main(3) [OF this]] main(4) [OF l] show ?thesis by (simp only: simp_thms)
qed

lemma own_sides:
  fixes c :: config
  assumes pub: "PublicIP c = V4 a" and priv: "priv = (V4 b, p)" "p \<noteq> 0"
  defines "t \<equiv> buildTopology c priv"
  assumes s: "s \<in> insert (tp_private t) (snd ` set (tp_public t))"
  shows "isSelf t (side_uri s) \<and> isSelf t (recordRoute s) \<and> isSelfVia u t (Some (side_via s branch))"
    and "\<exists>w. advIP s = V4 w \<and> advPort s \<noteq> 0 \<and> side_host s = addr_text (V4 w)"
proof -
  have at: "is_self_at t ip port \<longleftrightarrow> (\<exists>s \<in> insert (tp_private t) (snd ` set (tp_public t)). advIP s = ip \<and> advPort s = port)" for ip port
    by (auto simp: is_self_at_def same_side_def list_ex_iff)
  have prv: "advIP (tp_private t) = V4 b \<and> advPort (tp_private t) \<noteq> 0 \<and> side_host (tp_private t) = addr_text (V4 b)"
    using priv unsigned_eq_0_iff [of p] by (auto simp: t_def buildTopology_def Let_def withNames_def side_zero_def side_host_def)
  note ok = public_sides [where c = c and priv = priv, folded t_def]
  show w: "\<exists>w. advIP s = V4 w \<and> advPort s \<noteq> 0 \<and> side_host s = addr_text (V4 w)"
    using s prv ok(1) pub by (auto simp: side_ok_def)
  then obtain w where w: "advIP s = V4 w" "advPort s \<noteq> 0" "side_host s = addr_text (V4 w)" by blast
  have p: "parseIPHost (side_host s) = Some (V4 w)" unfolding w(3) parseIPHost_eq by (rule ParseAddr_v4)
  have "is_self_at t (V4 w) (advPort s)" unfolding at using s w by blast
  then show "isSelf t (side_uri s) \<and> isSelf t (recordRoute s) \<and> isSelfVia u t (Some (side_via s branch))"
    using w(2) p by (simp add: isSelf_def isSelfVia_def side_uri_def recordRoute_def side_via_def)
qed

lemma is_self_at_sides: "is_self_at t ip port \<longleftrightarrow> (\<exists>s \<in> insert (tp_private t) (snd ` set (tp_public t)). advIP s = ip \<and> advPort s = port)"
  by (auto simp: is_self_at_def same_side_def list_ex_iff)

lemma isSelf_exact: "isSelf t x \<longleftrightarrow> (\<exists>ip. ParseAddr (u_Host x) = Some ip \<and>
    (\<exists>s \<in> insert (tp_private t) (snd ` set (tp_public t)). advIP s = unmap ip \<and> advPort s = (if u_Port x = 0 then 5060 else u_Port x)))"
  by (simp add: isSelf_def parseIPHost_eq is_self_at_sides split: option.split)

lemma isSelfVia_exact: "isSelfVia u t (Some v) \<longleftrightarrow> (\<exists>ip. ParseAddr (v_Host v) = Some ip \<and>
    (\<exists>s \<in> insert (tp_private t) (snd ` set (tp_public t)). advIP s = unmap ip \<and>
      advPort s = (if v_Port v = 0 then int (DefaultPort u (v_Transport v)) else v_Port v)))"
  by (simp add: isSelfVia_def parseIPHost_eq is_self_at_sides split: option.split)

lemma sides_exact:
  assumes "tr \<in> set Transports" "Port (ec_Listen (cfg_Edge c)) tr \<noteq> 0"
  shows "\<exists>s. m_get (tp_public (buildTopology c priv)) tr = Some s \<and> advIP s = PublicIP c \<and> advPort s = AdvertisedPort c tr"
proof -
  note ok = public_sides [where c = c and priv = priv]
  have "m_get (tp_public (buildTopology c priv)) tr \<noteq> None" using ok(2) [OF assms] m_get_None by metis
  then obtain s where s: "m_get (tp_public (buildTopology c priv)) tr = Some s" by blast
  have "side_ok c (tr, s)" using ok(1) map_of_SomeD [OF s] by blast
  then show ?thesis using s assms by (auto simp: side_ok_def)
qed

text \<open>
  C30: FreeSBC recognises exactly the addresses it writes. Where its public and private addresses are
  IPv4 literals (the whole statement is for such a deployment), the URI, the Record-Route and the Via
  of every side are its own when they come back. A URI or a Via is its own only where the host parses
  to the address of a side and the port, or the default of a URI or of the Via's transport where none
  is written, is that same side's advertised port; an absent Via never is. So the public address with a
  port that is no side's is not claimed. The sides are the private one, at the private socket, one
  for each listener that is on, at the public address and its advertised port, and, at the public
  address, the outbound ones of carrier transports that have no listener.
\<close>

theorem own_addresses_exact:
  fixes c :: config
  assumes pub: "PublicIP c = V4 a" and priv: "priv = (V4 b, p)" "p \<noteq> 0"
  defines "t \<equiv> buildTopology c priv"
  defines "sides \<equiv> insert (tp_private t) (snd ` set (tp_public t))"
  shows "(\<forall>s \<in> sides. isSelf t (side_uri s) \<and> isSelf t (recordRoute s) \<and> isSelfVia u t (Some (side_via s branch))) \<and>
    (isSelf t x \<longleftrightarrow> (\<exists>ip. ParseAddr (u_Host x) = Some ip \<and>
      (\<exists>s \<in> sides. advIP s = unmap ip \<and> advPort s = (if u_Port x = 0 then 5060 else u_Port x)))) \<and>
    (isSelfVia u t (Some v) \<longleftrightarrow> (\<exists>ip. ParseAddr (v_Host v) = Some ip \<and>
      (\<exists>s \<in> sides. advIP s = unmap ip \<and>
        advPort s = (if v_Port v = 0 then int (DefaultPort u (v_Transport v)) else v_Port v)))) \<and>
    (\<not> isSelfVia u t None) \<and>
    (advIP (tp_private t) = V4 b \<and> advPort (tp_private t) = int (unat p)) \<and>
    (\<forall>e \<in> set (tp_public t). advIP (snd e) = PublicIP c \<and>
      (\<not> outbound (snd e) \<longrightarrow> fst e \<in> set Transports \<and> advPort (snd e) = AdvertisedPort c (fst e))) \<and>
    (tr \<in> set Transports \<longrightarrow>
      Port (ec_Listen (cfg_Edge c)) tr \<noteq> 0 \<longrightarrow>
      (\<exists>s. m_get (tp_public t) tr = Some s \<and> advIP s = PublicIP c \<and> advPort s = AdvertisedPort c tr))"
proof -
  have c1: "\<forall>s \<in> sides. isSelf t (side_uri s) \<and> isSelf t (recordRoute s) \<and> isSelfVia u t (Some (side_via s branch))"
    unfolding sides_def t_def using own_sides(1) [OF pub priv] by blast
  have c4: "\<not> isSelfVia u t None" by (simp add: isSelfVia_def)
  have c5: "advIP (tp_private t) = V4 b \<and> advPort (tp_private t) = int (unat p)"
    using priv by (simp add: t_def buildTopology_def Let_def withNames_def side_zero_def)
  have c6: "\<forall>e \<in> set (tp_public t). advIP (snd e) = PublicIP c \<and>
      (\<not> outbound (snd e) \<longrightarrow> fst e \<in> set Transports \<and> advPort (snd e) = AdvertisedPort c (fst e))"
    using public_sides(1) [where c = c and priv = priv, folded t_def] unfolding side_ok_def by blast
  have c7: "tr \<in> set Transports \<longrightarrow> Port (ec_Listen (cfg_Edge c)) tr \<noteq> 0 \<longrightarrow>
      (\<exists>s. m_get (tp_public t) tr = Some s \<and> advIP s = PublicIP c \<and> advPort s = AdvertisedPort c tr)"
    unfolding t_def by (intro impI) (rule sides_exact)
  show ?thesis
    by (rule conjI [OF c1 conjI [OF isSelf_exact [of t x, folded sides_def]
      conjI [OF isSelfVia_exact [of u t v, folded sides_def] conjI [OF c4 conjI [OF c5 conjI [OF c6 c7]]]]]])
qed

definition two_switches_public :: config where
  "two_switches_public = two_switches\<lparr>cfg_PublicIP := ''0.0.0.3''\<rparr>"

lemma two_public: "PublicIP two_switches_public = V4 3"
proof -
  have "addr_text (V4 3) = ''0.0.0.3''" by code_simp
  then have "ParseAddr ''0.0.0.3'' = Some (V4 3)" using ParseAddr_v4 [of 3] by simp
  then show ?thesis by (simp add: PublicIP_def mustAddr_def two_switches_public_def)
qed

theorem own_addresses_exact_witness:
  "isSelf (buildTopology two_switches_public (V4 7, 9)) (side_uri (tp_private (buildTopology two_switches_public (V4 7, 9))))"
  using own_addresses_exact [THEN conjunct1, OF two_public refl, of 9] by (simp add: two_public)

end
