(* ===== verification/Config_Props.thy ===== *)
theory Config_Props
  imports Config_Validate Carrier_Props Topology
begin

text \<open>
  What an accepted configuration guarantees to the planes that run on it, section by section:
  the addresses and sockets, the media range and the limits, the carriers and their sources.
\<close>

section \<open>Reading the checks\<close>

lemma fail_if_Nil [simp]: "fail_if b k = [] \<longleftrightarrow> \<not> b"
  by (simp add: fail_if_def)

lemma checkPort_Nil [simp]: "checkPort k p = [] \<longleftrightarrow> 0 \<le> p \<and> p \<le> 65535"
  by (auto simp: checkPort_def)

text \<open>The sections of an accepted configuration all passed, on the defaults and the compiled fields.\<close>

definition compiled :: "config \<Rightarrow> config \<Rightarrow> bool" where
  "compiled c c' \<longleftrightarrow> (\<exists>sw nets ks. c' = c\<lparr>cfg_Edge := (cfg_Edge c)\<lparr>ec_switches := sw, ec_carrierNets := nets, ec_carriers := ks\<rparr>\<rparr>)"

lemma compiledD:
  assumes "compiled c c'"
  shows "cfg_PublicIP c' = cfg_PublicIP c" "cfg_PublicBind c' = cfg_PublicBind c" "cfg_PrivateIP c' = cfg_PrivateIP c"
    "cfg_RTP c' = cfg_RTP c" "cfg_TLS c' = cfg_TLS c" "cfg_Shield c' = cfg_Shield c" "cfg_Admin c' = cfg_Admin c"
    "cfg_HEP c' = cfg_HEP c" "ec_Listen (cfg_Edge c') = ec_Listen (cfg_Edge c)"
    "ec_Advertise (cfg_Edge c') = ec_Advertise (cfg_Edge c)" "ec_Switch (cfg_Edge c') = ec_Switch (cfg_Edge c)"
    "ec_SRTP (cfg_Edge c') = ec_SRTP (cfg_Edge c)" "ec_Carriers (cfg_Edge c') = ec_Carriers (cfg_Edge c)"
    "ec_AllowInsecureSDES (cfg_Edge c') = ec_AllowInsecureSDES (cfg_Edge c)"
    "ec_CarrierSources (cfg_Edge c') = ec_CarrierSources (cfg_Edge c)"
    "ec_SwitchCarrierPort (cfg_Edge c') = ec_SwitchCarrierPort (cfg_Edge c)"
  using assms by (auto simp: compiled_def)

lemma compiled_addrs:
  assumes "compiled c c'"
  shows "PublicIP c' = PublicIP c" "PublicBind c' = PublicBind c" "PrivateIP c' = PrivateIP c"
    "PrivateAddr c' = PrivateAddr c" "AdvertisedPort c' = AdvertisedPort c" "stream_listens c' = stream_listens c"
  by (simp_all add: PublicIP_def PublicBind_def PrivateIP_def PrivateAddr_def AdvertisedPort_def stream_listens_def
      fun_eq_iff compiledD [OF assms])

definition accepted :: "unicode \<Rightarrow> (nat \<Rightarrow> nat \<Rightarrow> nat \<Rightarrow> nat) \<Rightarrow> (string \<Rightarrow> int option) \<Rightarrow> config \<Rightarrow> config \<Rightarrow> bool" where
  "accepted u ff bcrypt c0 c \<longleftrightarrow> (let d = withDefaults c0; c1 = snd (validateEdge d) in
     compiled d c \<and> validateTopology c = [] \<and> validateRTP c = [] \<and> validateTLS c = [] \<and>
     fst (validateEdge d) = [] \<and> validateAdvertise c = [] \<and> fst (validateCarriers u c1) = [] \<and>
     snd (validateCarriers u c1) = c \<and> validateShield ff c = [] \<and> validateAdmin u bcrypt c = [] \<and> validateSockets c = [])"

lemma validateEdge_compiled: "compiled c (snd (validateEdge c))"
proof -
  have "snd (validateEdge c) = c\<lparr>cfg_Edge := (cfg_Edge c)\<lparr>ec_switches := ec_switches (cfg_Edge (snd (validateEdge c))),
      ec_carrierNets := ec_carrierNets (cfg_Edge (snd (validateEdge c))), ec_carriers := ec_carriers (cfg_Edge c)\<rparr>\<rparr>"
    by (cases "switch_loop c 0 {} (ec_Switch (cfg_Edge c))") (simp add: validateEdge_def Let_def)
  then show ?thesis unfolding compiled_def by blast
qed

lemma validateCarriers_compiled:
  assumes "compiled c c1"
  shows "compiled c (snd (validateCarriers u c1))"
proof -
  obtain sw nets ks where c1: "c1 = c\<lparr>cfg_Edge := (cfg_Edge c)\<lparr>ec_switches := sw, ec_carrierNets := nets, ec_carriers := ks\<rparr>\<rparr>"
    using assms by (auto simp: compiled_def)
  obtain es ks' where l: "carrier_loop u c1 [] (sortedKeys (ec_Carriers (cfg_Edge c1))) = (es, ks')" by fastforce
  have "snd (validateCarriers u c1) = c\<lparr>cfg_Edge := (cfg_Edge c)\<lparr>ec_switches := sw, ec_carrierNets := nets, ec_carriers := ks'\<rparr>\<rparr>"
    by (simp add: validateCarriers_def l) (simp add: c1)
  then show ?thesis unfolding compiled_def by blast
qed

lemma validate_cong:
  assumes "compiled c c'"
  shows "validateTopology c' = validateTopology c" "validateRTP c' = validateRTP c" "validateTLS c' = validateTLS c"
    "validateAdvertise c' = validateAdvertise c"
proof -
  have key: "advertise_key c' = advertise_key c" "advertise_clash c' = advertise_clash c"
    by (simp_all add: advertise_key_def advertise_clash_def fun_eq_iff compiledD [OF assms] compiled_addrs [OF assms])
  have "advertise_loop c' bs as = advertise_loop c bs as" for bs as
    by (induction as arbitrary: bs) (simp_all add: key)
  then show "validateAdvertise c' = validateAdvertise c"
    by (simp only: validateAdvertise_def compiledD [OF assms])
  show "validateTopology c' = validateTopology c" "validateRTP c' = validateRTP c" "validateTLS c' = validateTLS c"
    by (simp_all only: validateTopology_def validateRTP_def validateTLS_def compiledD [OF assms])
qed

lemma accept_configD:
  assumes "accept_config u ff bcrypt c0 = Inr c"
  shows "accepted u ff bcrypt c0 c"
proof -
  let ?d = "withDefaults c0"
  obtain edge c1 where 1: "validateEdge ?d = (edge, c1)" by fastforce
  obtain carr c2 where 2: "validateCarriers u c1 = (carr, c2)" by fastforce
  have k1: "compiled ?d c1" using validateEdge_compiled [of ?d] 1 by simp
  have k2: "compiled ?d c2" using validateCarriers_compiled [OF k1, of u] 2 by simp
  have c: "c = c2" and errs: "fst (validate u ff bcrypt ?d) = []"
    using assms by (auto simp: accept_config_def validate_def 1 2 split: if_splits)
  have adv: "validateAdvertise c1 = validateAdvertise c2"
    using validate_cong(4) [OF k1] validate_cong(4) [OF k2] by simp
  show ?thesis
    using errs by (simp add: accepted_def Let_def validate_def 1 2 c k2 adv validate_cong(1-3) [OF k2])
qed

section \<open>Sockets\<close>

lemma switch_loop_ok:
  "switch_loop c i seen ss = ([], out) \<Longrightarrow>
   map parseIPPort ss = map Some out \<and> distinct out \<and> set out \<inter> seen = {} \<and>
   (\<forall>ap \<in> set out. cfg_PrivateIP c = [] \<or> ap \<noteq> PrivateAddr c)"
proof (induction c i seen ss arbitrary: out rule: switch_loop.induct)
  case (2 c i seen s ss)
  obtain ap where ap: "parseIPPort s = Some ap" "ap \<notin> seen"
    using "2.prems" by (auto simp: Let_def split: option.splits if_splits prod.splits)
  obtain es out' where rec: "switch_loop c (i + 1) (insert ap seen) ss = (es, out')" by fastforce
  have es: "es = []" "out = ap # out'" "cfg_PrivateIP c = [] \<or> ap \<noteq> PrivateAddr c"
    using "2.prems" ap rec by (auto simp: Let_def split: if_splits)
  have "map parseIPPort ss = map Some out' \<and> distinct out' \<and> set out' \<inter> insert ap seen = {} \<and>
      (\<forall>ap \<in> set out'. cfg_PrivateIP c = [] \<or> ap \<noteq> PrivateAddr c)"
    by (rule "2.IH"(3)) (use ap rec es in simp_all)
  then show ?case using ap es by auto
qed simp

lemma port_clashes_ok:
  "port_clashes used ps = [] \<Longrightarrow> (\<forall>(k, p) \<in> set ps. p \<noteq> 0 \<longrightarrow> p \<notin> set used) \<and>
   (\<forall>i < length ps. \<forall>j < i. snd (ps ! i) \<noteq> 0 \<longrightarrow> snd (ps ! i) \<noteq> snd (ps ! j))"
proof (induction used ps rule: port_clashes.induct)
  case (2 used key port ps)
  then have IH: "\<forall>(k, p) \<in> set ps. p \<noteq> 0 \<longrightarrow> p \<notin> set (port # used)"
    "\<forall>i < length ps. \<forall>j < i. snd (ps ! i) \<noteq> 0 \<longrightarrow> snd (ps ! i) \<noteq> snd (ps ! j)" by auto
  have "snd (((key, port) # ps) ! i) \<noteq> snd (((key, port) # ps) ! j)"
    if "i < length ((key, port) # ps)" "j < i" "snd (((key, port) # ps) ! i) \<noteq> 0" for i j
  proof (cases i)
    case (Suc k)
    then show ?thesis
      using that IH nth_mem [of k ps] by (cases j) (auto simp: case_prod_beta)
  qed (use that in simp)
  then show ?case using 2 IH(1) by auto
qed simp

text \<open>Distinct non-zero ports of the four stream transports.\<close>

definition streams_distinct :: "(string \<Rightarrow> int) \<Rightarrow> bool" where
  "streams_distinct p \<longleftrightarrow> (\<forall>a \<in> {''tcp'', ''tls'', ''ws'', ''wss''}. \<forall>b \<in> {''tcp'', ''tls'', ''ws'', ''wss''}.
     a \<noteq> b \<longrightarrow> p a = 0 \<or> p a \<noteq> p b)"

lemma stream_listens_ok:
  assumes "port_clashes [] (stream_listens c) = []"
  shows "streams_distinct (Port (ec_Listen (cfg_Edge c)))"
  using assms by (auto simp: stream_listens_def streams_distinct_def Port_def Let_def)

lemma advertise_pair:
  assumes "\<not> advertise_clash c a b" "streams_distinct (Port (ec_Listen (cfg_Edge c)))" "a \<noteq> b"
    and "a \<in> {''tcp'', ''tls'', ''ws'', ''wss''}" "b \<in> {''tcp'', ''tls'', ''ws'', ''wss''}"
  shows "AdvertisedPort c a = 0 \<or> AdvertisedPort c a \<noteq> AdvertisedPort c b"
proof -
  have "Port (ec_Listen (cfg_Edge c)) a = 0 \<or> Port (ec_Listen (cfg_Edge c)) a \<noteq> Port (ec_Listen (cfg_Edge c)) b"
    using assms(2) [unfolded streams_distinct_def, rule_format, OF assms(4,5,3)] .
  moreover have "AdvertisedPort c a = 0 \<or> AdvertisedPort c a \<noteq> AdvertisedPort c b \<or>
      (Port (ec_Advertise (cfg_Edge c)) a = 0 \<and> Port (ec_Advertise (cfg_Edge c)) b = 0)"
    using assms(1) by (simp only: advertise_clash_def Let_def not_not)
  moreover have "AdvertisedPort c x = Port (ec_Listen (cfg_Edge c)) x" if "Port (ec_Advertise (cfg_Edge c)) x = 0" for x
    using that by (simp add: AdvertisedPort_def Let_def)
  ultimately show ?thesis by metis
qed

lemma advertise_ok:
  assumes "validateAdvertise c = []" "streams_distinct (Port (ec_Listen (cfg_Edge c)))"
  shows "streams_distinct (AdvertisedPort c)"
proof -
  have loop: "advertise_loop c [] [''tcp'', ''tls'', ''ws'', ''wss''] = []"
    using assms(1) unfolding validateAdvertise_def by (rule append_is_Nil_conv [THEN iffD1, THEN conjunct2])
  have no: "\<not> advertise_clash c ''tls'' ''tcp''" "\<not> advertise_clash c ''ws'' ''tcp''" "\<not> advertise_clash c ''ws'' ''tls''"
    "\<not> advertise_clash c ''wss'' ''tcp''" "\<not> advertise_clash c ''wss'' ''tls''" "\<not> advertise_clash c ''wss'' ''ws''"
    using loop by (simp_all only: advertise_loop.simps append_is_Nil_conv fail_if_Nil append.simps list_ex_iff list.set
        bex_simps de_Morgan_disj simp_thms)
  note ok = no [THEN advertise_pair [OF _ assms(2)]]
  have "AdvertisedPort c ''tls'' = 0 \<or> AdvertisedPort c ''tls'' \<noteq> AdvertisedPort c ''tcp''"
    "AdvertisedPort c ''ws'' = 0 \<or> AdvertisedPort c ''ws'' \<noteq> AdvertisedPort c ''tcp''"
    "AdvertisedPort c ''ws'' = 0 \<or> AdvertisedPort c ''ws'' \<noteq> AdvertisedPort c ''tls''"
    "AdvertisedPort c ''wss'' = 0 \<or> AdvertisedPort c ''wss'' \<noteq> AdvertisedPort c ''tcp''"
    "AdvertisedPort c ''wss'' = 0 \<or> AdvertisedPort c ''wss'' \<noteq> AdvertisedPort c ''tls''"
    "AdvertisedPort c ''wss'' = 0 \<or> AdvertisedPort c ''wss'' \<noteq> AdvertisedPort c ''ws''"
    by (rule ok; simp)+
  then have "\<forall>a \<in> {''tcp'', ''tls'', ''ws'', ''wss''}. \<forall>b \<in> {''tcp'', ''tls'', ''ws'', ''wss''}.
     a \<noteq> b \<longrightarrow> AdvertisedPort c a = 0 \<or> AdvertisedPort c a \<noteq> AdvertisedPort c b"
    by (intro ballI) (elim insertE emptyE; simp; linarith)
  then show ?thesis unfolding streams_distinct_def .
qed

section \<open>Carriers and their sources\<close>

lemma is_4in6_masked:
  assumes "prefix_valid p" "is_4in6 (fst p) \<Longrightarrow> snd p < 96" "\<not> is_4in6 (fst p)"
  shows "bit_len (fst (prefix_masked p)) = bit_len (fst p)"
  by (cases "fst p") (simp_all add: prefix_masked_def)

lemma prefix_masked_idem [simp]: "prefix_masked (prefix_masked p) = prefix_masked p"
proof -
  have xb: "drop_bit n (push_bit n (drop_bit n a)) = drop_bit n a" for n and a :: "'a::len word"
    by (rule bit_word_eqI) (auto simp: bit_simps dest: bit_imp_le_length)
  show ?thesis by (cases "fst p") (simp_all add: prefix_masked_def xb)
qed

lemma prefix_masked_snd [simp]: "snd (prefix_masked p) = snd p" "addr_is6 (fst (prefix_masked p)) = addr_is6 (fst p)"
  by (cases "fst p"; simp add: prefix_masked_def)+

lemma parsePrefixOrAddr_valid: "parsePrefixOrAddr s = Some p \<Longrightarrow> prefix_valid p"
proof -
  have zone: "addr_valid (no_zone a) = addr_valid a" "bit_len (no_zone a) = bit_len a" for a by (cases a; simp)+
  have valid: "ParseAddr x = Some a \<Longrightarrow> addr_valid a" for x a
    by (auto simp: ParseAddr_def parseIPv4_def parseIPv6_def Let_def split: if_splits prod.splits)
  have "ParsePrefix s = Some p \<Longrightarrow> prefix_valid p"
    by (auto simp: ParsePrefix_def prefix_from_def prefix_valid_def zone dest: valid split: option.splits prod.splits if_splits)
  moreover have "ParseAddr s = Some a \<Longrightarrow> prefix_valid (host_prefix a)" for a
    by (simp add: host_prefix_def prefix_from_def prefix_valid_def zone valid)
  ultimately show "parsePrefixOrAddr s = Some p \<Longrightarrow> prefix_valid p"
    by (auto simp: parsePrefixOrAddr_def split: option.splits)
qed

text \<open>A source prefix as the configuration keeps it: canonical, narrow enough, never IPv4-mapped.\<close>

definition source_ok :: "prefix \<Rightarrow> bool" where
  "source_ok p \<longleftrightarrow> prefix_valid p \<and> prefix_masked p = p \<and> (if addr_is6 (fst p) then 32 else 8) \<le> snd p"

lemma prefix_valid_masked [simp]: "prefix_valid (prefix_masked p) = prefix_valid p"
  by (cases "fst p") (simp_all add: prefix_masked_def prefix_valid_def)

lemma allowedPrefix_ok: "allowedPrefix s = Some p \<Longrightarrow> source_ok p"
proof -
  assume a: "allowedPrefix s = Some p"
  then obtain p0 where p0: "parsePrefixOrAddr s = Some p0" by (auto simp: allowedPrefix_def split: option.splits)
  note v = parsePrefixOrAddr_valid [OF p0]
  have un: "prefix_valid (prefix_from (unmap (fst p0)) (snd p0 - 96))" if "is_4in6 (fst p0)"
    using that v by (cases "fst p0") (auto simp: is_4in6_def prefix_valid_def prefix_from_def split: if_splits)
  show ?thesis
    using a p0 v un by (auto simp: allowedPrefix_def source_ok_def Let_def split: if_splits)
qed

text \<open>What each accepted entry of \<^verbatim>\<open>edge.carriers\<close> is.\<close>

definition carrier_ok :: "config \<Rightarrow> carrier \<Rightarrow> bool" where
  "carrier_ok c k \<longleftrightarrow> carrierName (cf_Name k) \<and> cf_Transport k \<in> {''udp'', ''tcp'', ''tls''} \<and>
     1 \<le> cf_Port k \<and> cf_Port k \<le> 65535 \<and> \<not> is_unspecified (cf_Addr k) \<and>
     (cf_Transport k = ''udp'' \<longrightarrow> lp_UDP (ec_Listen (cfg_Edge c)) \<noteq> 0) \<and>
     cf_SRTP k \<in> {SRTPOff, SRTPOptional, SRTPRequired} \<and>
     (cf_SRTP k \<noteq> SRTPOff \<longrightarrow> cf_Transport k = ''tls'' \<or> ec_AllowInsecureSDES (cfg_Edge c)) \<and>
     (Literal k \<longrightarrow> \<not> own_socket c (cf_Transport k) (cf_Addr k, word_of_int (cf_Port k)) \<and>
        (cf_Addr k, word_of_int (cf_Port k)) \<notin> set (ec_switches (cfg_Edge c)))"

definition carrier_key :: "carrier \<Rightarrow> string" where
  "carrier_key k = join_host_port (cf_Host k) (cf_Port k)"

lemma ParseCarrierHost_ok:
  "ParseCarrierHost u s = Some (h, p, a) \<Longrightarrow> 1 \<le> p \<and> p \<le> 65535 \<and> \<not> is_unspecified a"
  by (auto simp: ParseCarrierHost_def finishCarrierHost_def DefaultCarrierPort_def Let_def split: if_splits option.splits prod.splits)

lemma carrier_entry_of_ok:
  assumes "carrier_entry_of u c taken name cc = ([], taken', k)"
  shows "\<exists>x. k = Some x \<and> carrier_ok c x \<and> cf_Name x = name \<and> taken' = m_set (carrier_key x) name taken \<and>
    m_get taken (carrier_key x) = None"
proof -
  let ?label = "''edge.carriers.'' @ name"
  have n: "carrierName name" and tr: "carrier_transport cc \<in> {''udp'', ''tcp'', ''tls''}"
    using assms by (auto simp: carrier_entry_of_def Let_def split: if_splits)
  obtain h p a where h: "ParseCarrierHost u (cc_Host cc) = Some (h, p, a)"
    using assms n tr by (auto simp: carrier_entry_of_def Let_def split: option.splits)
  have free: "m_get taken (join_host_port h p) = None"
    using assms n tr h by (auto simp: carrier_entry_of_def Let_def split: if_splits)
  have own: "\<not> (addr_valid a \<and> own_socket c (carrier_transport cc) (a, word_of_int p))"
    using assms n tr h free by (auto simp: carrier_entry_of_def Let_def split: if_splits)
  have rest: "carrier_errs c ?label cc = []" "\<not> (addr_valid a \<and> (a, word_of_int p) \<in> set (ec_switches (cfg_Edge c)))"
    "taken' = m_set (join_host_port h p) name taken"
    "k = Some \<lparr>cf_Name = name, cf_Host = h, cf_Port = p, cf_ExplicitPort = carrierHasPort (cc_Host cc),
       cf_Addr = a, cf_Transport = carrier_transport cc, cf_SRTP = carrier_srtp cc\<rparr>"
    using assms n tr h free own by (simp_all add: carrier_entry_of_def Let_def del: insert_iff)
  have "carrier_srtp cc = SRTPOff \<or> carrier_srtp cc \<in> {SRTPOptional, SRTPRequired} \<and>
      (carrier_transport cc = ''tls'' \<or> ec_AllowInsecureSDES (cfg_Edge c))"
    "carrier_transport cc = ''udp'' \<longrightarrow> lp_UDP (ec_Listen (cfg_Edge c)) \<noteq> 0"
    using rest(1) by (auto simp: carrier_errs_def Let_def split: if_splits)
  then show ?thesis
    using n tr own rest free ParseCarrierHost_ok [OF h] by (auto simp: carrier_ok_def carrier_key_def Literal_def)
qed

lemma carrier_loop_ok:
  "carrier_loop u c taken ns = ([], ks) \<Longrightarrow> \<forall>n \<in> set ns. m_get (ec_Carriers (cfg_Edge c)) n \<noteq> None \<Longrightarrow>
   map cf_Name ks = ns \<and> (\<forall>k \<in> set ks. carrier_ok c k) \<and> distinct (map carrier_key ks) \<and>
   (\<forall>k \<in> set ks. m_get taken (carrier_key k) = None)"
proof (induction u c taken ns arbitrary: ks rule: carrier_loop.induct)
  case (2 u c taken n ns)
  obtain cc where cc: "m_get (ec_Carriers (cfg_Edge c)) n = Some cc" using "2.prems"(2) by auto
  obtain es taken' k where e: "carrier_entry_of u c taken n cc = (es, taken', k)" by (metis prod_cases3)
  obtain es' ks' where l: "carrier_loop u c taken' ns = (es', ks')" by fastforce
  have es: "es = []" "es' = []" "ks = (case k of None \<Rightarrow> ks' | Some x \<Rightarrow> x # ks')"
    using "2.prems"(1) cc e l by simp_all
  obtain x where x: "k = Some x" "carrier_ok c x" "cf_Name x = n" "taken' = m_set (carrier_key x) n taken"
      "m_get taken (carrier_key x) = None"
    using carrier_entry_of_ok e es(1) by blast
  have "map cf_Name ks' = ns \<and> (\<forall>k \<in> set ks'. carrier_ok c k) \<and> distinct (map carrier_key ks') \<and>
      (\<forall>k \<in> set ks'. m_get taken' (carrier_key k) = None)"
    by (rule "2.IH"(2) [OF cc e [symmetric] refl refl]) (use l es "2.prems"(2) in auto)
  then show ?case using x es(3) by (auto split: if_splits)
qed simp

lemma sortedKeys_set: "set (sortedKeys m) = keys m" "wf_map m \<Longrightarrow> distinct (sortedKeys m)"
  unfolding sortedKeys_def wf_map_def by simp (metis mset_eq_imp_distinct_iff mset_sort_slice)

lemma accepted_carriers:
  assumes "accept_config u ff bcrypt c0 = Inr c" "wf_map (ec_Carriers (cfg_Edge c0))"
  shows "map cf_Name (ec_carriers (cfg_Edge c)) = sortedKeys (ec_Carriers (cfg_Edge c)) \<and>
    distinct (sortedKeys (ec_Carriers (cfg_Edge c))) \<and> (\<forall>k \<in> set (ec_carriers (cfg_Edge c)). carrier_ok c k) \<and>
    distinct (map carrier_key (ec_carriers (cfg_Edge c)))"
proof -
  let ?d = "withDefaults c0"
  note acc = accept_configD [OF assms(1), unfolded accepted_def Let_def]
  obtain c1 where c1: "c1 = snd (validateEdge ?d)" by simp
  have k1: "compiled ?d c1" unfolding c1 by (rule validateEdge_compiled)
  have k: "compiled ?d c" and es: "fst (validateCarriers u c1) = []" "snd (validateCarriers u c1) = c"
    using acc by (simp_all add: c1)
  obtain ks where l: "carrier_loop u c1 [] (sortedKeys (ec_Carriers (cfg_Edge c1))) = ([], ks)"
    using es(1) by (cases "carrier_loop u c1 [] (sortedKeys (ec_Carriers (cfg_Edge c1)))") (simp add: validateCarriers_def)
  have c: "c = c1\<lparr>cfg_Edge := (cfg_Edge c1)\<lparr>ec_carriers := ks\<rparr>\<rparr>"
    using es(2) by (simp add: validateCarriers_def l)
  have loop: "map cf_Name ks = sortedKeys (ec_Carriers (cfg_Edge c1)) \<and> (\<forall>k \<in> set ks. carrier_ok c1 k) \<and> distinct (map carrier_key ks)"
  proof -
    have "\<forall>n \<in> set (sortedKeys (ec_Carriers (cfg_Edge c1))). m_get (ec_Carriers (cfg_Edge c1)) n \<noteq> None"
      unfolding sortedKeys_set(1) by (metis m_get_None)
    from carrier_loop_ok [OF l this] show ?thesis by blast
  qed
  have own: "own_socket c = own_socket c1"
    by (simp add: fun_eq_iff own_socket_def compiledD [OF k] compiledD [OF k1] compiled_addrs [OF k] compiled_addrs [OF k1])
  have "carrier_ok c = carrier_ok c1"
    unfolding carrier_ok_def own by (simp add: c)
  moreover have "ec_carriers (cfg_Edge c) = ks" "ec_Carriers (cfg_Edge c) = ec_Carriers (cfg_Edge c1)"
    by (simp_all add: c)
  moreover have "ec_Carriers (cfg_Edge c1) = ec_Carriers (cfg_Edge c0)"
    unfolding compiledD [OF k1] by (simp add: withDefaults_def Let_def)
  ultimately show ?thesis using loop sortedKeys_set(2) assms(2) by simp
qed

lemma accepted_nets:
  assumes "accept_config u ff bcrypt c0 = Inr c"
  shows "length (ec_carrierNets (cfg_Edge c)) = length (ec_CarrierSources (cfg_Edge c)) \<and>
    (\<forall>p \<in> set (ec_carrierNets (cfg_Edge c)). source_ok p)"
proof -
  let ?d = "withDefaults c0"
  let ?nets = "map allowedPrefix (ec_CarrierSources (cfg_Edge ?d))"
  note acc = accept_configD [OF assms, unfolded accepted_def Let_def]
  have k: "compiled ?d c" using acc by simp
  have ne: "None \<notin> set ?nets"
    using acc by (auto simp: validateEdge_def Let_def case_prod_beta)
  have "ec_carrierNets (cfg_Edge (snd (validateEdge ?d))) = map the (filter (\<lambda>p. p \<noteq> None) ?nets)"
    by (simp add: validateEdge_def Let_def case_prod_beta)
  also have "filter (\<lambda>p. p \<noteq> None) ?nets = ?nets" using ne by (metis (mono_tags, lifting) filter_True)
  finally have n1: "ec_carrierNets (cfg_Edge (snd (validateEdge ?d))) = map the ?nets" .
  have "ec_carrierNets (cfg_Edge (snd (validateCarriers u c1))) = ec_carrierNets (cfg_Edge c1)" for c1
    by (simp add: validateCarriers_def case_prod_beta)
  then have n: "ec_carrierNets (cfg_Edge c) = map the ?nets" using n1 acc by metis
  have "source_ok (the q)" if q: "q \<in> set ?nets" for q
  proof -
    have "x \<in> S \<Longrightarrow> None \<notin> S \<Longrightarrow> x \<noteq> None" for x and S by metis
    from this [OF q ne] have "q \<noteq> None" .
    moreover obtain s where "q = allowedPrefix s" using q unfolding set_map by (rule imageE)
    ultimately show ?thesis using allowedPrefix_ok [of s] by (cases q) simp_all
  qed
  then show ?thesis unfolding n compiledD [OF k] by auto
qed

section \<open>A sample configuration\<close>

lemmas addr_eval = ParseAddr_def parseIPv4_def parse_quad_def parse_octet_def octets_val_def digits_val_def digit_val_def
  is_digit_def byte_def Let_def

lemma sample_addrs: "ParseAddr ''1.2.3.4'' = Some (V4 0x01020304)" "ParseAddr ''10.0.0.1'' = Some (V4 0x0a000001)"
  "ParseAddr ''10.0.0.2'' = Some (V4 0x0a000002)" "ParseAddr ''a.b'' = None"
  by (simp_all add: addr_eval)

lemma sample_switch: "parseIPPort ''10.0.0.2:9'' = Some (V4 0x0a000002, 9)"
  by (simp add: parseIPPort_def SplitHostPort_def last_cut_def sample_addrs atoi_def digits_val_def digit_val_def is_digit_def byte_def)

lemma sample_prefix: "allowedPrefix ''10.0.0.1'' = Some (V4 0x0a000001, 32)"
  by (simp add: allowedPrefix_def parsePrefixOrAddr_def ParsePrefix_def last_cut_def sample_addrs host_prefix_def prefix_from_def
      is_4in6_def prefix_masked_def)

lemma sample_limits: "parse_rate_limit ''1/s'' = Some \<lparr>rl_rate = 1, rl_interval = second, rl_per_ip = False\<rparr>"
  "parse_strike_limit ff ''off'' = Some sl_disabled"
proof -
  have "str_fields_from [] (''1/s'' @ []) = [''1/s'']"
    by (subst fields_word) (simp_all add: plain_word_def is_ascii_space_def byte_def fields_end)
  then have "str_fields ''1/s'' = [''1/s'']" by (simp add: str_fields_def)
  then show "parse_rate_limit ''1/s'' = Some \<lparr>rl_rate = 1, rl_interval = second, rl_per_ip = False\<rparr>"
    by (simp add: parse_rate_limit_def atoi_def digits_val_def digit_val_def is_digit_def byte_def Let_def)
  have "trim_space ''off'' = ''off''" by (rule trim_space_plain) (simp add: plain_word_def is_ascii_space_def byte_def)
  then show "parse_strike_limit ff ''off'' = Some sl_disabled" by (simp add: parse_strike_limit_def)
qed

lemma sample_carrier: "ParseCarrierHost u ''a.b'' = Some (''a.b'', 5060, AddrZero)" "\<not> carrierHasPort ''a.b''"
proof -
  have [simp]: "trim_space ''a.b'' = ''a.b''" by (rule trim_space_plain) (simp add: plain_word_def is_ascii_space_def byte_def)
  have "to_lower u ''a.b'' = ''a.b''"
    by (simp add: to_lower_def is_ascii_def lower_str_def lower_ascii_def is_upper_def byte_def)
  then show "ParseCarrierHost u ''a.b'' = Some (''a.b'', 5060, AddrZero)"
    by (simp add: ParseCarrierHost_def finishCarrierHost_def sample_addrs count_of_def trim_dot_def dnsLabel_def is_alnum_def
        is_digit_def is_lower_def is_upper_def byte_def DefaultCarrierPort_def)
  show "\<not> carrierHasPort ''a.b''" by (simp add: carrierHasPort_def sample_addrs count_of_def)
qed

text \<open>What the sample becomes.\<close>

definition sample_accepted :: config where
  "sample_accepted = (withDefaults sample_config)\<lparr>cfg_Edge := (cfg_Edge (withDefaults sample_config))\<lparr>
     ec_switches := [(V4 0x0a000002, 9)], ec_carrierNets := [(V4 0x0a000001, 32)],
     ec_carriers := [\<lparr>cf_Name = ''acme'', cf_Host = ''a.b'', cf_Port = 5060, cf_ExplicitPort = False, cf_Addr = AddrZero,
       cf_Transport = ''udp'', cf_SRTP = ''off''\<rparr>]\<rparr>\<rparr>"

lemmas sample_eval = withDefaults_def sample_config_def or_default_def DefaultRTP_def SRTPOff_def SRTPOptional_def
  SRTPRequired_def pairs_def fail_if_def

lemma sample_edge: "validateEdge (withDefaults sample_config) = ([], (withDefaults sample_config)\<lparr>cfg_Edge :=
    (cfg_Edge (withDefaults sample_config))\<lparr>ec_switches := [(V4 0x0a000002, 9)], ec_carrierNets := [(V4 0x0a000001, 32)]\<rparr>\<rparr>)"
  by (simp add: validateEdge_def sample_eval sample_switch sample_prefix PrivateAddr_def PrivateIP_def mustAddr_def sample_addrs
      PrivateSIPPort_def checkPort_def stream_listens_def)

lemma sample_carriers_ok: "validateCarriers u (snd (validateEdge (withDefaults sample_config))) = ([], sample_accepted)"
  by (simp add: sample_edge validateCarriers_def sortedKeys_def sort_slice_def sample_accepted_def)
    (simp add: sample_eval carrier_entry_of_def carrierName_def is_alnum_def is_digit_def is_lower_def byte_def
      carrier_transport_def carrier_srtp_def carrier_errs_def sample_carrier)

lemma sample_accepts: "accept_config u ff bcrypt sample_config = Inr sample_accepted"
proof -
  have c: "compiled (withDefaults sample_config) sample_accepted" "compiled (withDefaults sample_config) (snd (validateEdge (withDefaults sample_config)))"
    using validateCarriers_compiled [OF validateEdge_compiled [of "withDefaults sample_config"], of u]
      validateEdge_compiled [of "withDefaults sample_config"]
    by (simp_all only: sample_carriers_ok snd_conv)
  have "validateTopology (withDefaults sample_config) = []" "validateRTP (withDefaults sample_config) = []"
    "validateTLS (withDefaults sample_config) = []" "validateAdvertise (withDefaults sample_config) = []"
    by (simp_all add: sample_eval validateTopology_def specificIP_def sample_addrs validateRTP_def validateTLS_def
        validateAdvertise_def Transports_def Port_def checkPort_def advertise_clash_def AdvertisedPort_def Let_def)
  moreover have "validateShield ff sample_accepted = []" "validateAdmin u bcrypt sample_accepted = []"
    "validateHEP sample_accepted = []" "validateSockets sample_accepted = []"
    by (simp_all add: sample_accepted_def sample_eval validateShield_def sample_limits validateAdmin_def validateHEP_def
        validateSockets_def hour_def minute_def second_def)
  moreover obtain c1 where e: "validateEdge (withDefaults sample_config) = ([], c1)"
    "validateCarriers u c1 = ([], sample_accepted)"
    using sample_carriers_ok [of u] by (simp add: sample_edge)
  ultimately show ?thesis
    using validate_cong [OF c(2)] by (simp add: accept_config_def validate_def e)
qed

text \<open>
  \<^verbatim>\<open>specificIP\<close> and \<^verbatim>\<open>parseIPPort\<close> test the address before they unmap it, so the 4-in-6 form of
  the wildcard passes a check that is there to refuse every wildcard.
\<close>

lemma specificIP_wildcard:
  assumes "s \<noteq> []" "ParseAddr s = Some (V6 (push_bit 32 0xffff) [])"
  shows "specificIP s = Some (V4 0)" "is_unspecified (V4 0)"
  using assms by (simp_all add: specificIP_def is_4in6_def)

section \<open>Properties\<close>

lemma stream_listens_mem:
  "tr \<in> {''tcp'', ''tls'', ''ws'', ''wss''} \<Longrightarrow> (''edge.listen.'' @ tr, Port (ec_Listen (cfg_Edge c)) tr) \<in> set (stream_listens c)"
  by (auto simp: stream_listens_def Port_def Let_def)

lemma validateSockets_ok:
  assumes "validateSockets c = []" "cfg_Admin c = Some a" "ParseAddrPort (ad_Listen a) = Some ap"
    and "e \<in> set (stream_listens c)" "snd e \<noteq> 0" "snd e = int (unat (snd ap))"
  shows "\<not> hostsCollide (cfg_PublicBind c) (addr_text (fst ap))"
  using assms by (cases e) (auto simp: validateSockets_def fail_if_def split: if_splits)

lemma hostsCollide_v4:
  assumes "\<not> hostsCollide h (addr_text (V4 w))" "ParseAddr h = Some ib"
  shows "w \<noteq> 0" "mustAddr h \<noteq> V4 w"
  using assms ParseAddr_v4 [of w] by (auto simp: hostsCollide_def Let_def mustAddr_def split: if_splits)

lemma accepted_config_sockets_parts:
  assumes "accept_config u ff bcrypt c0 = Inr c"
  shows "\<forall>s \<in> {cfg_PublicIP c, cfg_PublicBind c, cfg_PrivateIP c}. \<exists>a. ParseAddr s = Some a \<and> \<not> is_unspecified a"
    and "PublicBind c \<noteq> PrivateIP c"
    and "ec_switches (cfg_Edge c) \<noteq> []" "distinct (ec_switches (cfg_Edge c))" "PrivateAddr c \<notin> set (ec_switches (cfg_Edge c))"
    and "map parseIPPort (ec_Switch (cfg_Edge c)) = map Some (ec_switches (cfg_Edge c))"
    and "\<exists>tr \<in> set Transports. Port (ec_Listen (cfg_Edge c)) tr \<noteq> 0"
    and "\<forall>tr \<in> set Transports. 0 \<le> Port (ec_Listen (cfg_Edge c)) tr \<and> Port (ec_Listen (cfg_Edge c)) tr \<le> 65535"
    and "streams_distinct (Port (ec_Listen (cfg_Edge c)))" "streams_distinct (AdvertisedPort c)"
    and "Port (ec_Listen (cfg_Edge c)) ''tls'' \<noteq> 0 \<or> Port (ec_Listen (cfg_Edge c)) ''wss'' \<noteq> 0 \<Longrightarrow>
      \<exists>t. cfg_TLS c = Some t \<and> tc_Cert t \<noteq> [] \<and> tc_Key t \<noteq> []"
    and "cfg_Admin c = Some a \<Longrightarrow> \<exists>ap. ParseAddrPort (ad_Listen a) = Some ap \<and>
      (is_loopback (fst ap) \<or> ad_AllowRemote a \<and> cfg_TLS c \<noteq> None) \<and>
      (\<forall>tr \<in> {''tcp'', ''tls'', ''ws'', ''wss''}. Port (ec_Listen (cfg_Edge c)) tr \<noteq> 0 \<longrightarrow>
        Port (ec_Listen (cfg_Edge c)) tr = int (unat (snd ap)) \<longrightarrow>
        \<not> hostsCollide (cfg_PublicBind c) (addr_text (fst ap)) \<and>
        (\<forall>w. fst ap = V4 w \<longrightarrow> w \<noteq> 0 \<and> PublicBind c \<noteq> V4 w))"
proof -
  let ?d = "withDefaults c0"
  note acc = accept_configD [OF assms, unfolded accepted_def Let_def]
  have k: "compiled ?d c" and topo: "validateTopology c = []" and tls: "validateTLS c = []"
    and edge: "fst (validateEdge ?d) = []" and adv: "validateAdvertise c = []" and adm: "validateAdmin u bcrypt c = []"
    and sock: "validateSockets c = []"
    using acc by simp_all
  note kd = compiledD [OF k] compiled_addrs [OF k]
  have sp: "specificIP s = Some b \<Longrightarrow> mustAddr s = b \<and> (\<exists>a. ParseAddr s = Some a \<and> \<not> is_unspecified a)" for s b
    by (auto simp: specificIP_def mustAddr_def split: if_splits option.splits)
  obtain x y z where xyz: "specificIP (cfg_PublicIP c) = Some x" "specificIP (cfg_PublicBind c) = Some y"
      "specificIP (cfg_PrivateIP c) = Some z" "y \<noteq> z"
    using topo by (auto simp: validateTopology_def Let_def)
  show "\<forall>s \<in> {cfg_PublicIP c, cfg_PublicBind c, cfg_PrivateIP c}. \<exists>a. ParseAddr s = Some a \<and> \<not> is_unspecified a"
    using sp xyz by blast
  show "PublicBind c \<noteq> PrivateIP c" using sp xyz by (auto simp: PublicBind_def PrivateIP_def)
  obtain sws where sw: "switch_loop ?d 0 {} (ec_Switch (cfg_Edge ?d)) = ([], sws)" and ne: "ec_Switch (cfg_Edge ?d) \<noteq> []"
    and clash: "port_clashes [] (stream_listens ?d) = []" and ports: "\<forall>tr \<in> set Transports. 0 \<le> Port (ec_Listen (cfg_Edge ?d)) tr \<and>
      Port (ec_Listen (cfg_Edge ?d)) tr \<le> 65535" "\<exists>tr \<in> set Transports. Port (ec_Listen (cfg_Edge ?d)) tr \<noteq> 0"
    using edge by (cases "switch_loop ?d 0 {} (ec_Switch (cfg_Edge ?d))")
      (simp add: validateEdge_def Let_def Transports_def Port_def)
  have "ec_switches (cfg_Edge (snd (validateEdge ?d))) = sws" by (simp add: validateEdge_def sw Let_def)
  moreover have "ec_switches (cfg_Edge (snd (validateCarriers u c1))) = ec_switches (cfg_Edge c1)" for c1
    by (simp add: validateCarriers_def case_prod_beta)
  ultimately have sws: "ec_switches (cfg_Edge c) = sws" using acc by metis
  note ok = switch_loop_ok [OF sw]
  have priv: "cfg_PrivateIP ?d \<noteq> []" using xyz(3) kd by (auto simp: specificIP_def split: if_splits)
  show "map parseIPPort (ec_Switch (cfg_Edge c)) = map Some (ec_switches (cfg_Edge c))" "distinct (ec_switches (cfg_Edge c))"
    "PrivateAddr c \<notin> set (ec_switches (cfg_Edge c))" "ec_switches (cfg_Edge c) \<noteq> []"
    using ok priv ne by (auto simp: sws kd)
  show "\<exists>tr \<in> set Transports. Port (ec_Listen (cfg_Edge c)) tr \<noteq> 0"
    "\<forall>tr \<in> set Transports. 0 \<le> Port (ec_Listen (cfg_Edge c)) tr \<and> Port (ec_Listen (cfg_Edge c)) tr \<le> 65535"
    using ports by (simp_all only: kd)
  show str: "streams_distinct (Port (ec_Listen (cfg_Edge c)))" using stream_listens_ok [OF clash] by (simp only: kd)
  show "streams_distinct (AdvertisedPort c)" by (rule advertise_ok [OF adv str])
  show "\<exists>t. cfg_TLS c = Some t \<and> tc_Cert t \<noteq> [] \<and> tc_Key t \<noteq> []"
    if "Port (ec_Listen (cfg_Edge c)) ''tls'' \<noteq> 0 \<or> Port (ec_Listen (cfg_Edge c)) ''wss'' \<noteq> 0"
    using tls that by (auto simp: validateTLS_def Port_def split: option.splits)
  show "\<exists>ap. ParseAddrPort (ad_Listen a) = Some ap \<and> (is_loopback (fst ap) \<or> ad_AllowRemote a \<and> cfg_TLS c \<noteq> None) \<and>
      (\<forall>tr \<in> {''tcp'', ''tls'', ''ws'', ''wss''}. Port (ec_Listen (cfg_Edge c)) tr \<noteq> 0 \<longrightarrow>
        Port (ec_Listen (cfg_Edge c)) tr = int (unat (snd ap)) \<longrightarrow>
        \<not> hostsCollide (cfg_PublicBind c) (addr_text (fst ap)) \<and>
        (\<forall>w. fst ap = V4 w \<longrightarrow> w \<noteq> 0 \<and> PublicBind c \<noteq> V4 w))"
    if a: "cfg_Admin c = Some a"
  proof -
    obtain ap where ap: "ParseAddrPort (ad_Listen a) = Some ap" "is_loopback (fst ap) \<or> ad_AllowRemote a \<and> cfg_TLS c \<noteq> None"
      using tls adm a by (auto simp: validateTLS_def validateAdmin_def split: option.splits)
    have no: "\<not> hostsCollide (cfg_PublicBind c) (addr_text (fst ap))"
      if "tr \<in> {''tcp'', ''tls'', ''ws'', ''wss''}" "Port (ec_Listen (cfg_Edge c)) tr \<noteq> 0"
        "Port (ec_Listen (cfg_Edge c)) tr = int (unat (snd ap))" for tr
      using validateSockets_ok [OF sock a ap(1) stream_listens_mem [OF that(1)]] that by simp
    obtain ib where "ParseAddr (cfg_PublicBind c) = Some ib" using sp [OF xyz(2)] by blast
    then show ?thesis using ap no hostsCollide_v4 unfolding PublicBind_def by metis
  qed
qed



text \<open>
  An accepted configuration never promises more calls than the media range can anchor, and its
  limits parse. The range starts at an unprivileged port and holds at least one RTP/RTCP pair;
  the session cap is at least one and at most the number of pairs; the rate limits are positive
  rates per second, minute or hour; the strike limits are off or within bounds; the ban is
  positive; and a global INVITE limit is never per source.
\<close>

theorem accepted_config_limits:
  assumes "accept_config u ff bcrypt c0 = Inr c"
  shows "1024 \<le> pr_min (cfg_RTP c)" "1 \<le> pairs (cfg_RTP c)"
    and "1 \<le> sf_MaxSessions (cfg_Shield c)" "sf_MaxSessions (cfg_Shield c) \<le> pairs (cfg_RTP c)"
    and "\<forall>s \<in> {sf_RateLimit (cfg_Shield c), sf_CarrierRateLimit (cfg_Shield c)}. \<exists>rl. parse_rate_limit s = Some rl \<and>
      0 < rl_rate rl \<and> rl_interval rl \<in> {second, minute, hour}"
    and "0 < sf_Ban (cfg_Shield c)"
    and "\<forall>s \<in> {sf_RegisterBan (cfg_Shield c), sf_RegisterBanAOR (cfg_Shield c), sf_AdmissionBan (cfg_Shield c)}.
      \<exists>l. parse_strike_limit ff s = Some l \<and> (sl_off l \<or> 1 \<le> sl_n l \<and> sl_n l \<le> max_strike_n \<and>
        second \<le> sl_window l \<and> sl_window l \<le> max_strike_window)"
    and "sf_InviteRateLimit (cfg_Shield c) \<noteq> [] \<Longrightarrow> \<exists>rl. parse_rate_limit (sf_InviteRateLimit (cfg_Shield c)) = Some rl \<and> \<not> rl_per_ip rl"
proof -
  note acc = accept_configD [OF assms, unfolded accepted_def Let_def]
  have k: "compiled (withDefaults c0) c" and rtp: "validateRTP c = []" and sh: "validateShield ff c = []"
    using acc by simp_all
  show min: "1024 \<le> pr_min (cfg_RTP c)" and prs: "1 \<le> pairs (cfg_RTP c)"
    using rtp by (auto simp: validateRTP_def Let_def split: if_splits)
  have nz: "sf_MaxSessions (cfg_Shield c) = 0 \<Longrightarrow> pairs (cfg_RTP c) = 0"
    unfolding compiledD [OF k] by (simp add: withDefaults_def Let_def split: if_splits)
  have nz': "sf_MaxSessions (cfg_Shield c) \<noteq> 0" using nz prs by linarith
  show "1 \<le> sf_MaxSessions (cfg_Shield c)" "sf_MaxSessions (cfg_Shield c) \<le> pairs (cfg_RTP c)"
    using sh prs nz' min by (simp_all add: validateShield_def Let_def split: if_splits)
  show "0 < sf_Ban (cfg_Shield c)" using sh by (auto simp: validateShield_def Let_def)
  have "parse_rate_limit (sf_RateLimit (cfg_Shield c)) \<noteq> None" "parse_rate_limit (sf_CarrierRateLimit (cfg_Shield c)) \<noteq> None"
    using sh by (auto simp: validateShield_def Let_def)
  then show "\<forall>s \<in> {sf_RateLimit (cfg_Shield c), sf_CarrierRateLimit (cfg_Shield c)}. \<exists>rl. parse_rate_limit s = Some rl \<and>
      0 < rl_rate rl \<and> rl_interval rl \<in> {second, minute, hour}"
    using parse_rate_limit_ok by fastforce
  have "parse_strike_limit ff (sf_RegisterBan (cfg_Shield c)) \<noteq> None" "parse_strike_limit ff (sf_RegisterBanAOR (cfg_Shield c)) \<noteq> None"
    "parse_strike_limit ff (sf_AdmissionBan (cfg_Shield c)) \<noteq> None"
    using sh by (auto simp: validateShield_def Let_def)
  then show "\<forall>s \<in> {sf_RegisterBan (cfg_Shield c), sf_RegisterBanAOR (cfg_Shield c), sf_AdmissionBan (cfg_Shield c)}.
      \<exists>l. parse_strike_limit ff s = Some l \<and> (sl_off l \<or> 1 \<le> sl_n l \<and> sl_n l \<le> max_strike_n \<and>
        second \<le> sl_window l \<and> sl_window l \<le> max_strike_window)"
    using parse_strike_limit_ok by blast
  show "\<exists>rl. parse_rate_limit (sf_InviteRateLimit (cfg_Shield c)) = Some rl \<and> \<not> rl_per_ip rl"
    if "sf_InviteRateLimit (cfg_Shield c) \<noteq> []"
    using sh that by (auto simp: validateShield_def Let_def split: option.splits)
qed

theorem accepted_config_limits_witness:
  "sf_MaxSessions (cfg_Shield sample_accepted) \<le> 5000 \<and> 1 \<le> sf_MaxSessions (cfg_Shield sample_accepted)"
  using accepted_config_limits(3,4) [OF sample_accepts [of ascii_tables "\<lambda>_ _ _. 0" "\<lambda>_. None"]]
  by (simp add: sample_accepted_def sample_eval)

text \<open>
  The carriers of an accepted configuration are exactly its entries, each well formed, and only
  they are trusted. There is one carrier per entry, in name order; each has a legal name and
  transport, a port, an address that is not unspecified, and SDES only where its keys are
  encrypted or the operator allowed otherwise; no two share a destination, and a literal one is
  neither one of FreeSBC's own sockets nor a switch node. Every \<^verbatim>\<open>carrier_sources\<close> prefix is
  canonical and at most a /8 (IPv4) or /32 (IPv6). So, in every directory that grows from it,
  whatever DNS answers, a source admitted as a carrier is exempt from the shield, and the
  order of preference of \<^verbatim>\<open>carrierFor\<close> is the documented one.
\<close>

theorem accepted_config_carriers:
  fixes c c0 :: config and xs :: "((string \<Rightarrow> dns) \<times> (string \<Rightarrow> gtime)) list"
  assumes "accept_config u ff bcrypt c0 = Inr c" and "wf_map (ec_Carriers (cfg_Edge c0))"
  defines "d \<equiv> dir_run xs (newCarrierDirectory (ec_carriers (cfg_Edge c)) (ec_carrierNets (cfg_Edge c)))"
  shows "map cf_Name (ec_carriers (cfg_Edge c)) = sortedKeys (ec_Carriers (cfg_Edge c))"
    and "\<forall>k \<in> set (ec_carriers (cfg_Edge c)). carrier_ok c k" "distinct (map carrier_key (ec_carriers (cfg_Edge c)))"
    and "length (ec_carrierNets (cfg_Edge c)) = length (ec_CarrierSources (cfg_Edge c))"
    and "\<forall>p \<in> set (ec_carrierNets (cfg_Edge c)). source_ok p"
    and "carrierFor src network (dir_snap d) = carrier_for_ref src network (dir_snap d)"
    and "addr_valid (fst src) \<Longrightarrow> carrierFor src network (dir_snap d) = Some n \<Longrightarrow> isSource (fst src) (dir_snap d)"
proof -
  note cc = accepted_carriers [OF assms(1,2)]
  show "map cf_Name (ec_carriers (cfg_Edge c)) = sortedKeys (ec_Carriers (cfg_Edge c))"
    "\<forall>k \<in> set (ec_carriers (cfg_Edge c)). carrier_ok c k" "distinct (map carrier_key (ec_carriers (cfg_Edge c)))"
    using cc by auto
  show "length (ec_carrierNets (cfg_Edge c)) = length (ec_CarrierSources (cfg_Edge c))"
    "\<forall>p \<in> set (ec_carrierNets (cfg_Edge c)). source_ok p"
    using accepted_nets [OF assms(1)] by auto
  have dist: "distinct (map cf_Name (ec_carriers (cfg_Edge c)))" using cc by simp
  have ne: "[] \<notin> set (map cf_Name (ec_carriers (cfg_Edge c)))"
  proof
    assume "[] \<in> set (map cf_Name (ec_carriers (cfg_Edge c)))"
    then obtain k where "k \<in> set (ec_carriers (cfg_Edge c))" "cf_Name k = []" by (metis imageE set_map)
    then have "carrierName []" using cc by (metis carrier_ok_def)
    then show False by (simp add: carrierName_def)
  qed
  have "snap_ok d" unfolding d_def by (rule dir_run_ok [OF new_directory_ok [OF dist]])
  then have "[] \<notin> set (cs_names (dir_snap d))" using ne by (simp add: snap_ok_def d_def)
  then show "carrierFor src network (dir_snap d) = carrier_for_ref src network (dir_snap d)" by (rule carrier_for_spec)
  show "isSource (fst src) (dir_snap d)" if "addr_valid (fst src)" "carrierFor src network (dir_snap d) = Some n"
    using admitted_exempt [OF dist ne that(1)] that(2) unfolding d_def .
qed

theorem accepted_config_carriers_witness:
  "isSource (V4 7) (dir_snap (dir_run [(\<lambda>_. dns_up, \<lambda>_. 0)]
     (newCarrierDirectory (ec_carriers (cfg_Edge sample_accepted)) (ec_carrierNets (cfg_Edge sample_accepted)))))"
proof -
  have wf: "wf_map (ec_Carriers (cfg_Edge sample_config))" by (simp add: sample_config_def wf_map_def)
  have e: "ec_carrierNets (cfg_Edge sample_accepted) = [(V4 0x0a000001, 32)]"
    "ec_carriers (cfg_Edge sample_accepted) = [\<lparr>cf_Name = ''acme'', cf_Host = ''a.b'', cf_Port = 5060, cf_ExplicitPort = False, cf_Addr = AddrZero,
       cf_Transport = ''udp'', cf_SRTP = ''off''\<rparr>]"
    by (simp_all add: sample_accepted_def)
  have "carrierFor (V4 7, 9) ''udp'' (dir_snap (dir_run [(\<lambda>_. dns_up, \<lambda>_. 0)]
     (newCarrierDirectory (ec_carriers (cfg_Edge sample_accepted)) (ec_carrierNets (cfg_Edge sample_accepted))))) = Some ''acme''"
    unfolding e by code_simp
  from accepted_config_carriers(7) [OF sample_accepts [of ascii_tables "\<lambda>_ _ _. 0" "\<lambda>_. None"] wf _ this] show ?thesis by simp
qed

end
