(* ===== verification/Arrival.thy ===== *)
theory Arrival
  imports Sip_Message
begin

text \<open>
  The trust key of the edge plane, \<^verbatim>\<open>src/internal/edge/arrival.go\<close>: the read filter stamps a request
  that reached the private socket with a header only this process can write, and \<^verbatim>\<open>take\<close> reads the
  stamp and strips every header of its kind. Headers are pairs of name and value, in order. Removing
  a header from a message is sipgo's \<^verbatim>\<open>RemoveHeader\<close>, the parameter \<open>rem\<close>; reading the headers off
  the bytes is its parser, the parameter \<open>parse\<close> of the property. \<open>arrival_exact\<close> shows that a
  request is private exactly when its first marker carries the secret, that what is stamped is
  private, and that no handler ever sees an internal header.
\<close>

section \<open>Model\<close>

datatype arrival = arrPublic | arrPrivate

type_synonym 'v sip_headers = "(string \<times> 'v) list"

definition arrivalHeader :: string where
  "arrivalHeader = ''X-FreeSBC-Arrival''"

record arrival_marker =
  am_private :: string

text \<open>\<open>secret\<close> is the random part, in hexadecimal.\<close>

definition newArrivalMarker :: "string \<Rightarrow> arrival_marker" where
  "newArrivalMarker secret = \<lparr>am_private = secret @ '';private''\<rparr>"

fun marker_value :: "arrival_marker \<Rightarrow> arrival \<Rightarrow> string option" where
  "marker_value m arrPrivate = Some (am_private m)"
| "marker_value m arrPublic = None"

definition line_break :: "char \<Rightarrow> bool" where
  "line_break c \<longleftrightarrow> c = cr \<or> c = lf"

definition stamp :: "arrival_marker \<Rightarrow> arrival \<Rightarrow> string \<Rightarrow> string" where
  "stamp m a data = (case marker_value m a of
       None \<Rightarrow> data
     | Some v \<Rightarrow>
         (let start = length (takeWhile line_break data); rest = drop start data in
          if lf \<notin> set rest then data
          else let nl = length (takeWhile (\<lambda>c. c \<noteq> lf) rest); line = take nl rest;
                   term = (if line \<noteq> [] \<and> last line = cr then [cr, lf] else [lf])
            in if has_prefix line ''SIP/'' then data
               else let insertAt = start + nl + 1 in
                 take insertAt data @ arrivalHeader @ '': '' @ v @ term @ drop insertAt data))"

definition internalHeaderPrefix :: string where
  "internalHeaderPrefix = ''x-freesbc-''"

definition asciiEqualFold :: "string \<Rightarrow> string \<Rightarrow> bool" where
  "asciiEqualFold a b \<longleftrightarrow> length a = length b \<and> list_all2 (\<lambda>x y. x = y \<or> lower_ascii x = lower_ascii y) a b"

definition asciiHasPrefixFold :: "string \<Rightarrow> string \<Rightarrow> bool" where
  "asciiHasPrefixFold s prefix \<longleftrightarrow> length s \<ge> length prefix \<and> asciiEqualFold (take (length prefix) s) prefix"

definition isInternalHeader :: "string \<Rightarrow> bool" where
  "isInternalHeader name = asciiHasPrefixFold name internalHeaderPrefix"

definition internalHeaderNames :: "'v sip_headers \<Rightarrow> string list" where
  "internalHeaderNames hs = map fst (filter (\<lambda>h. isInternalHeader (fst h)) hs)"

definition stripInternalHeaders :: "(string \<Rightarrow> 'v sip_headers \<Rightarrow> 'v sip_headers) \<Rightarrow> 'v sip_headers \<Rightarrow> 'v sip_headers" where
  "stripInternalHeaders rem hs = fold rem (internalHeaderNames hs) hs"

text \<open>The scan of \<^verbatim>\<open>take\<close>: whether there is anything to strip, and the first marker.\<close>

fun take_scan :: "string sip_headers \<Rightarrow> bool \<Rightarrow> string option \<Rightarrow> bool \<times> string option" where
  "take_scan [] internal marker = (internal, marker)"
| "take_scan ((name, value) # hs) internal marker =
     (if \<not> isInternalHeader name then take_scan hs internal marker
      else take_scan hs True (if marker = None \<and> asciiEqualFold name arrivalHeader then Some value else marker))"

definition take_arrival :: "(string \<Rightarrow> string sip_headers \<Rightarrow> string sip_headers) \<Rightarrow> arrival_marker \<Rightarrow> string sip_headers \<Rightarrow> string sip_headers \<times> arrival" where
  "take_arrival rem m hs =
     (let (internal, marker) = take_scan hs False None;
          result = (if marker = Some (am_private m) then arrPrivate else arrPublic)
      in if \<not> internal then (hs, result) else (stripInternalHeaders rem hs, result))"

section \<open>Stripping\<close>

text \<open>What sipgo documents of \<^verbatim>\<open>RemoveHeader\<close>: the exact name, one header per call.\<close>

fun remove_first :: "string \<Rightarrow> 'v sip_headers \<Rightarrow> 'v sip_headers" where
  "remove_first n [] = []"
| "remove_first n (h # hs) = (if fst h = n then hs else h # remove_first n hs)"

lemma remove_first_names:
  "map fst (filter (\<lambda>h. P (fst h)) (remove_first n hs)) =
     (if P n then remove1 n (map fst (filter (\<lambda>h. P (fst h)) hs)) else map fst (filter (\<lambda>h. P (fst h)) hs))"
  by (induction hs) auto

lemma remove_first_keeps: "P n \<Longrightarrow> filter (\<lambda>h. \<not> P (fst h)) (remove_first n hs) = filter (\<lambda>h. \<not> P (fst h)) hs"
  by (induction hs) auto

lemma fold_remove_first:
  "list_all P ns \<Longrightarrow> filter (\<lambda>h. \<not> P (fst h)) (fold remove_first ns hs) = filter (\<lambda>h. \<not> P (fst h)) hs \<and>
     map fst (filter (\<lambda>h. P (fst h)) (fold remove_first ns hs)) = fold remove1 ns (map fst (filter (\<lambda>h. P (fst h)) hs))"
  by (induction ns arbitrary: hs) (auto simp: remove_first_names remove_first_keeps)

lemma fold_remove1_self: "fold remove1 xs (xs @ ys) = ys"
  by (induction xs) auto

lemma filter_rest: "filter P xs = [] \<Longrightarrow> filter (\<lambda>x. \<not> P x) xs = xs"
  by (induction xs) (auto split: if_splits)

lemma fold_remove_all: "fold remove_first (map fst (filter (\<lambda>h. P (fst h)) hs)) hs = filter (\<lambda>h. \<not> P (fst h)) hs"
proof -
  let ?ns = "map fst (filter (\<lambda>h. P (fst h)) hs)"
  let ?out = "fold remove_first ?ns hs"
  have "list_all P ?ns" by (simp add: list_all_iff)
  note f = fold_remove_first [OF this, of hs]
  have "map fst (filter (\<lambda>h. P (fst h)) ?out) = fold remove1 ?ns (?ns @ [])" unfolding append_Nil2 by (rule conjunct2 [OF f])
  then have "filter (\<lambda>h. P (fst h)) ?out = []" unfolding fold_remove1_self by simp
  then have "filter (\<lambda>h. \<not> P (fst h)) ?out = ?out" by (rule filter_rest)
  with conjunct1 [OF f] show ?thesis by (rule trans [OF sym, rotated])
qed

lemma strip_exact: "stripInternalHeaders remove_first hs = filter (\<lambda>h. \<not> isInternalHeader (fst h)) hs"
  unfolding stripInternalHeaders_def internalHeaderNames_def by (rule fold_remove_all)

lemma arrival_internal: "asciiEqualFold n arrivalHeader \<Longrightarrow> isInternalHeader n"
proof -
  assume a: "asciiEqualFold n arrivalHeader"
  have "take 10 arrivalHeader = ''X-FreeSBC-''" by (simp add: arrivalHeader_def)
  then have l1: "list_all2 (\<lambda>x y. x = y \<or> lower_ascii x = lower_ascii y) (take 10 n) ''X-FreeSBC-''"
    using a list_all2_takeI [of "\<lambda>x y. x = y \<or> lower_ascii x = lower_ascii y" n arrivalHeader 10]
    by (simp add: asciiEqualFold_def)
  have l2: "list_all2 (\<lambda>x y. x = y \<or> lower_ascii x = lower_ascii y) ''X-FreeSBC-'' internalHeaderPrefix"
    by code_simp
  have "list_all2 (\<lambda>x y. x = y \<or> lower_ascii x = lower_ascii y) (take 10 n) internalHeaderPrefix"
    by (rule list_all2_trans [OF _ l1 l2]) auto
  moreover have "length n = 17" "length internalHeaderPrefix = 10"
    using a by (simp_all add: asciiEqualFold_def arrivalHeader_def internalHeaderPrefix_def)
  ultimately show ?thesis by (simp add: isInternalHeader_def asciiHasPrefixFold_def asciiEqualFold_def)
qed

lemma take_scan_spec:
  "take_scan hs i mk = (i \<or> list_ex (\<lambda>h. isInternalHeader (fst h)) hs,
     case mk of Some v \<Rightarrow> Some v | None \<Rightarrow> map_option snd (find (\<lambda>h. asciiEqualFold (fst h) arrivalHeader) hs))"
  by (induction hs i mk rule: take_scan.induct) (auto simp: arrival_internal split: option.splits)

lemma take_exact:
  "take_arrival remove_first m hs = (filter (\<lambda>h. \<not> isInternalHeader (fst h)) hs,
     if map_option snd (find (\<lambda>h. asciiEqualFold (fst h) arrivalHeader) hs) = Some (am_private m) then arrPrivate else arrPublic)"
proof -
  have "\<not> list_ex (\<lambda>h. isInternalHeader (fst h)) hs \<Longrightarrow> filter (\<lambda>h. \<not> isInternalHeader (fst h)) hs = hs"
    by (induction hs) auto
  then show ?thesis by (simp add: take_arrival_def take_scan_spec strip_exact)
qed

section \<open>Properties\<close>

text \<open>What a SIP parser does with the bytes: a header line after the request line is the first header.\<close>

definition reads_lines :: "(string \<Rightarrow> string sip_headers) \<Rightarrow> bool" where
  "reads_lines parse \<longleftrightarrow> (\<forall>pre line term n v rest.
     list_all line_break pre \<and> line \<noteq> [] \<and> \<not> line_break (hd line) \<and> lf \<notin> set line \<and>
       n = arrivalHeader \<and> list_ex line_break v = False \<and> term = (if last line = cr then [cr, lf] else [lf]) \<longrightarrow>
     parse (pre @ line @ [lf] @ n @ '': '' @ v @ term @ rest) = (n, v) # parse (pre @ line @ [lf] @ rest))"

lemma stamp_shape:
  assumes "data = pre @ line @ lf # rest" "list_all line_break pre" "line \<noteq> []" "\<not> line_break (hd line)" "lf \<notin> set line"
    "\<not> has_prefix line ''SIP/''"
  shows "stamp m arrPrivate data = pre @ line @ [lf] @ arrivalHeader @ '': '' @ am_private m @
    (if last line = cr then [cr, lf] else [lf]) @ rest"
proof -
  have "takeWhile line_break (line @ lf # rest) = []" using assms(3,4) by (cases line) auto
  then have tw: "takeWhile line_break data = pre" using assms(1,2) by (simp add: takeWhile_append2 list_all_iff)
  have nl: "takeWhile (\<lambda>c. c \<noteq> lf) (line @ lf # rest) = line" using assms(5) by (subst takeWhile_append2) auto
  show ?thesis
    unfolding stamp_def Let_def tw
    using assms(1,3,6) nl by simp
qed

lemma arrival_exact_parts:
  assumes rem: "\<forall>n hs. rem n hs = remove_first n hs" and parse: "reads_lines parse"
    and m: "\<not> list_ex line_break (am_private m)"
  shows "snd (take_arrival rem m hs) = arrPrivate \<longleftrightarrow>
      (\<exists>h. find (\<lambda>h. asciiEqualFold (fst h) arrivalHeader) hs = Some h \<and> snd h = am_private m)"
    and "fst (take_arrival rem m hs) = filter (\<lambda>h. \<not> isInternalHeader (fst h)) hs"
    and "stamp m arrPublic data = data" "has_prefix line ''SIP/'' \<Longrightarrow> list_all line_break pre \<Longrightarrow> lf \<notin> set line \<Longrightarrow>
      stamp m arrPrivate (pre @ line @ lf # rest) = pre @ line @ lf # rest"
    and "list_all line_break pre \<Longrightarrow> line \<noteq> [] \<Longrightarrow> \<not> line_break (hd line) \<Longrightarrow> lf \<notin> set line \<Longrightarrow>
      \<not> has_prefix line ''SIP/'' \<Longrightarrow>
      take_arrival rem m (parse (stamp m arrPrivate (pre @ line @ lf # rest))) =
        (fst (take_arrival rem m (parse (pre @ line @ lf # rest))), arrPrivate)"
proof -
  have "rem = remove_first" using rem by (intro ext) simp
  note ex = take_exact [of m, folded this]
  show "snd (take_arrival rem m hs) = arrPrivate \<longleftrightarrow>
      (\<exists>h. find (\<lambda>h. asciiEqualFold (fst h) arrivalHeader) hs = Some h \<and> snd h = am_private m)"
    by (auto simp: ex)
  show "fst (take_arrival rem m hs) = filter (\<lambda>h. \<not> isInternalHeader (fst h)) hs" by (simp add: ex)
  show "stamp m arrPublic data = data" by (simp add: stamp_def)
  show "stamp m arrPrivate (pre @ line @ lf # rest) = pre @ line @ lf # rest"
    if l: "has_prefix line ''SIP/''" "list_all line_break pre" "lf \<notin> set line"
  proof -
    obtain line' where line: "line = CHR ''S'' # line'" using l(1) by (cases line) auto
    have "\<not> line_break (CHR ''S'')" by code_simp
    then have tw: "takeWhile line_break (pre @ line @ lf # rest) = pre" using l(2) line by (simp add: takeWhile_append2 list_all_iff)
    have nl: "takeWhile (\<lambda>c. c \<noteq> lf) (line @ lf # rest) = line" using l(3) by (subst takeWhile_append2) auto
    show ?thesis unfolding stamp_def Let_def tw using nl l(1) by simp
  qed
  show "take_arrival rem m (parse (stamp m arrPrivate (pre @ line @ lf # rest))) =
        (fst (take_arrival rem m (parse (pre @ line @ lf # rest))), arrPrivate)"
    if l: "list_all line_break pre" "line \<noteq> []" "\<not> line_break (hd line)" "lf \<notin> set line" "\<not> has_prefix line ''SIP/''"
  proof -
    have "parse (stamp m arrPrivate (pre @ line @ lf # rest)) = (arrivalHeader, am_private m) # parse (pre @ line @ [lf] @ rest)"
      unfolding stamp_shape [OF refl l] using parse l(1-4) m unfolding reads_lines_def by blast
    moreover have "asciiEqualFold arrivalHeader arrivalHeader" "isInternalHeader arrivalHeader" by code_simp+
    ultimately show ?thesis by (simp add: ex)
  qed
qed

text \<open>
  C29: Private is what the private socket stamped, and nothing else. Whatever headers a request has, it
  is private exactly when the first header named like the marker has the secret value; what the
  handler sees has no internal header, and every other header in order. A request stamped on
  the private socket is private, and the stamp leaves no other trace; a read that is not stamped is
  as the sender wrote it, so it is private only if the sender wrote the secret. A response is
  never stamped.
\<close>

theorem arrival_exact:
  assumes rem: "\<forall>n hs. rem n hs = remove_first n hs" and parse: "reads_lines parse"
    and m: "\<not> list_ex line_break (am_private m)"
  shows "(snd (take_arrival rem m hs) = arrPrivate \<longleftrightarrow>
      (\<exists>h. find (\<lambda>h. asciiEqualFold (fst h) arrivalHeader) hs = Some h \<and> snd h = am_private m)) \<and>
    (fst (take_arrival rem m hs) = filter (\<lambda>h. \<not> isInternalHeader (fst h)) hs) \<and>
    (stamp m arrPublic data = data) \<and>
    (has_prefix line ''SIP/'' \<longrightarrow>
      list_all line_break pre \<longrightarrow>
      lf \<notin> set line \<longrightarrow>
      (stamp m arrPrivate (pre @ line @ lf # rest) = pre @ line @ lf # rest)) \<and>
    (list_all line_break pre \<longrightarrow>
      line \<noteq> [] \<longrightarrow>
      \<not> line_break (hd line) \<longrightarrow>
      lf \<notin> set line \<longrightarrow>
      \<not> has_prefix line ''SIP/'' \<longrightarrow>
      (take_arrival rem m (parse (stamp m arrPrivate (pre @ line @ lf # rest))) =
        (fst (take_arrival rem m (parse (pre @ line @ lf # rest))), arrPrivate)))"
proof -
  have c1: "(snd (take_arrival rem m hs) = arrPrivate \<longleftrightarrow>
      (\<exists>h. find (\<lambda>h. asciiEqualFold (fst h) arrivalHeader) hs = Some h \<and> snd h = am_private m))"
    by (rule arrival_exact_parts(1) [OF assms])
  have c2: "(fst (take_arrival rem m hs) = filter (\<lambda>h. \<not> isInternalHeader (fst h)) hs)"
    by (rule arrival_exact_parts(2) [OF assms])
  have c3: "(stamp m arrPublic data = data)"
    by (rule arrival_exact_parts(3) [OF assms])
  have c4: "(has_prefix line ''SIP/'' \<longrightarrow>
      list_all line_break pre \<longrightarrow>
      lf \<notin> set line \<longrightarrow>
      (stamp m arrPrivate (pre @ line @ lf # rest) = pre @ line @ lf # rest))"
    by (intro impI) (rule arrival_exact_parts(4) [OF assms]; assumption)
  have c5: "(list_all line_break pre \<longrightarrow>
      line \<noteq> [] \<longrightarrow>
      \<not> line_break (hd line) \<longrightarrow>
      lf \<notin> set line \<longrightarrow>
      \<not> has_prefix line ''SIP/'' \<longrightarrow>
      (take_arrival rem m (parse (stamp m arrPrivate (pre @ line @ lf # rest))) =
        (fst (take_arrival rem m (parse (pre @ line @ lf # rest))), arrPrivate)))"
    by (intro impI) (rule arrival_exact_parts(5) [OF assms]; assumption)
  show ?thesis
    by (rule conjI [OF c1 conjI [OF c2 conjI [OF c3 conjI [OF c4 c5]]]])
qed

text \<open>A parser that splits lines, and the secret of an example.\<close>

definition line_header :: "string \<Rightarrow> string \<times> string" where
  "line_header l = (let l' = (if l \<noteq> [] \<and> last l = cr then butlast l else l); (a, b, f) = cut (CHR '':'') l' in (a, drop 1 b))"

definition line_parser :: "string \<Rightarrow> string sip_headers" where
  "line_parser s = (case cut lf (dropWhile line_break s) of (a, b, f) \<Rightarrow> map line_header (split_on lf b))"

lemma line_parser_reads: "reads_lines line_parser"
proof -
  have "line_parser (pre @ line @ [lf] @ n @ '': '' @ v @ term @ rest) = (n, v) # line_parser (pre @ line @ [lf] @ rest)"
    if a: "list_all line_break pre" "line \<noteq> []" "\<not> line_break (hd line)" "lf \<notin> set line" "n = arrivalHeader"
      "\<not> list_ex line_break v" "term = (if last line = cr then [cr, lf] else [lf])" for pre line "term" n v rest
  proof -
    have dw: "dropWhile line_break (pre @ line @ lf # r) = line @ lf # r" for r
      using a(1-3) by (cases line) (simp_all add: dropWhile_append2 list_all_iff)
    have body: "line_parser (pre @ line @ lf # r) = map line_header (split_on lf r)" for r
      unfolding line_parser_def dw using cut_first [OF a(4)] by simp
    define l where "l = n @ '': '' @ v"
    have v: "lf \<notin> set v" "cr \<notin> set v" using a(6) by (auto simp: line_break_def list_ex_iff)
    have "lf \<notin> set (n @ '': '')" "cr \<notin> set (n @ '': '')" unfolding a(5) by code_simp+
    then have lfl: "lf \<notin> set l" "cr \<notin> set l" "l \<noteq> []" using v by (simp_all add: l_def)
    then have lfl: "lf \<notin> set l" "cr \<notin> set l" "l \<noteq> []" "last l \<noteq> cr" by (simp_all, metis last_in_set)
    have "CHR '':'' \<notin> set n" using a(5) by (simp add: arrivalHeader_def)
    from cut_first [OF this, of "CHR '' '' # v"] have c: "cut (CHR '':'') l = (n, CHR '' '' # v, True)" by (simp add: l_def)
    have h: "line_header l = (n, v)" "line_header (l @ [cr]) = (n, v)" using lfl c by (simp_all add: line_header_def)
    show ?thesis
    proof (cases "last line = cr")
      case True
      have "lf \<notin> set (l @ [cr])" using lfl by simp
      from split_on_first [OF this, of rest] show ?thesis
        using body [of "l @ [cr, lf] @ rest"] body [of rest] True a(7) h by (simp add: l_def)
    next
      case False
      from split_on_first [OF lfl(1), of rest] show ?thesis
        using body [of "l @ lf # rest"] body [of rest] False a(7) h by (simp add: l_def)
    qed
  qed
  then show ?thesis unfolding reads_lines_def by blast
qed

theorem arrival_exact_witness:
  "snd (take_arrival remove_first (newArrivalMarker ''0f'') (line_parser (stamp (newArrivalMarker ''0f'') arrPrivate
     (''BYE sip:a SIP/2.0'' @ lf # ''X-FreeSBC-Arrival: forged'')))) = arrPrivate \<and>
   snd (take_arrival remove_first (newArrivalMarker ''0f'') (line_parser
     (''BYE sip:a SIP/2.0'' @ lf # ''X-FreeSBC-Arrival: forged''))) = arrPublic"
proof -
  have m: "\<not> list_ex line_break (am_private (newArrivalMarker ''0f''))" by code_simp
  have l: "list_all line_break []" "''BYE sip:a SIP/2.0'' \<noteq> []" "\<not> line_break (hd ''BYE sip:a SIP/2.0'')"
    "lf \<notin> set ''BYE sip:a SIP/2.0''" "\<not> has_prefix ''BYE sip:a SIP/2.0'' ''SIP/''" by code_simp+
  have "snd (take_arrival remove_first (newArrivalMarker ''0f'') (line_parser (''BYE sip:a SIP/2.0'' @ lf # ''X-FreeSBC-Arrival: forged'')))
      = arrPublic" by code_simp
  then show ?thesis
    using arrival_exact [THEN conjunct2, THEN conjunct2, THEN conjunct2, THEN conjunct2, THEN mp, THEN mp, THEN mp, THEN mp, THEN mp, OF _ line_parser_reads m l, of remove_first "''X-FreeSBC-Arrival: forged''"] by simp
qed

end
