(* ===== verification/Edge_Routing.thy ===== *)
theory Edge_Routing
  imports Topology Location
begin

text \<open>
  Who a request is for: the routing decisions of \<^verbatim>\<open>carrier.go\<close>, \<^verbatim>\<open>carrierreg.go\<close> and \<^verbatim>\<open>invite.go\<close> in
  \<^verbatim>\<open>src/internal/edge\<close>, and the table of the switch's registrations at carriers.

  A message is a record of what these functions read of sipgo's message: header values as its parser
  delivers them, \<open>None\<close> or \<open>[]\<close> for an absent header. A Contact is its URI and the \<open>contact\<close> record
  of its parameters, whose \<open>c_Token\<close> is the URI parameter \<^verbatim>\<open>fsbc\<close>. The Call-ID of a message without
  one is empty, as \<^verbatim>\<open>fsip.CallID\<close> reads it.
\<close>

section \<open>Model: messages\<close>

record sip_request =
  rq_Method :: string
  rq_Recipient :: uri
  rq_Transport :: string
  rq_Source :: string
  rq_From :: "uri option"
  rq_To :: "uri option"
  rq_ToTag :: string
  rq_CallID :: string
  rq_Branch :: "string option"
  rq_Contacts :: "(uri \<times> contact) list"
  rq_Routes :: "uri list"
  rq_Expires :: "string option"
  rq_Authorization :: "string option"
  rq_ProxyAuthorization :: "string option"
  rq_MaxForwards :: "nat option"

definition ContactURI :: "sip_request \<Rightarrow> uri option" where
  "ContactURI req = (case rq_Contacts req of [] \<Rightarrow> None | c # _ \<Rightarrow> Some (fst c))"

definition isInDialog :: "sip_request \<Rightarrow> bool" where
  "isInDialog req \<longleftrightarrow> rq_ToTag req \<noteq> []"

definition user_of :: "uri option \<Rightarrow> string" where
  "user_of x = (case x of None \<Rightarrow> [] | Some y \<Rightarrow> u_User y)"

section \<open>Model: tokens\<close>

definition contactTokenParam :: string where
  "contactTokenParam = ''fsbc''"

definition tokenOf :: "uri \<Rightarrow> string option" where
  "tokenOf x = (case m_get (u_Params x) contactTokenParam of
       None \<Rightarrow> None | Some v \<Rightarrow> if v = [] \<or> length v > 64 then None else Some v)"

definition registeredContact :: "topology \<Rightarrow> string \<Rightarrow> string \<Rightarrow> uri" where
  "registeredContact t user token = \<lparr>u_User = user, u_Host = side_host (tp_private t), u_Port = advPort (tp_private t),
     u_Params = [(''transport'', ''udp''), (contactTokenParam, token)]\<rparr>"

definition clientRequestURI :: "binding \<Rightarrow> uri" where
  "clientRequestURI b = \<lparr>u_User = b_User b, u_Host = addr_text (fst (b_Source b)), u_Port = int (unat (snd (b_Source b))),
     u_Params = (if b_Transport b \<noteq> ''udp'' then [(''transport'', b_Transport b)] else [])\<rparr>"

definition firstForeignRoute :: "topology \<Rightarrow> sip_request \<Rightarrow> uri option" where
  "firstForeignRoute t req = find (\<lambda>r. \<not> isSelf t r) (rq_Routes req)"

definition route_token :: "topology \<Rightarrow> sip_request \<Rightarrow> string option" where
  "route_token t req = (case firstForeignRoute t req of None \<Rightarrow> None | Some r \<Rightarrow> tokenOf r)"

definition bindingForRequest :: "gtime \<Rightarrow> gtime \<Rightarrow> topology \<Rightarrow> location \<Rightarrow> sip_request \<Rightarrow> binding option" where
  "bindingForRequest now now' t l req =
     (let first = (case tokenOf (rq_Recipient req) of None \<Rightarrow> None | Some tok \<Rightarrow> ByToken now tok l) in
      case first of Some b \<Rightarrow> Some b
      | None \<Rightarrow> (case route_token t req of None \<Rightarrow> None | Some tok \<Rightarrow> ByToken now' tok l))"

section \<open>Model: carriers by URI\<close>

definition carrierKey :: "unicode \<Rightarrow> string \<Rightarrow> int \<Rightarrow> string" where
  "carrierKey u host0 port =
     (let h = to_lower u (trim_dot host0);
          host = (case ParseAddr h of Some a \<Rightarrow> addr_text (unmap a) | None \<Rightarrow> h)
      in join_host_port host (if port = 0 then DefaultCarrierPort else port))"

definition carrierURIsOf :: "unicode \<Rightarrow> config \<Rightarrow> (string, string) gomap" where
  "carrierURIsOf u c = fold (\<lambda>k. m_set (carrierKey u (cf_Host k) (cf_Port k)) (cf_Name k)) (ec_carriers (cfg_Edge c)) []"

datatype switch_target = targetNotFound | targetClient | targetCarrier | targetSelf

definition classifySwitchRequest :: "unicode \<Rightarrow> topology \<Rightarrow> (string, string) gomap \<Rightarrow> sip_request \<Rightarrow> switch_target \<times> string" where
  "classifySwitchRequest u t uris req =
     (if tokenOf (rq_Recipient req) \<noteq> None then (targetClient, [])
      else if route_token t req \<noteq> None then (targetClient, [])
      else case m_get uris (carrierKey u (u_Host (rq_Recipient req)) (u_Port (rq_Recipient req))) of
          Some name \<Rightarrow> (targetCarrier, name)
        | None \<Rightarrow> if isSelf t (rq_Recipient req) then (targetSelf, []) else (targetNotFound, []))"

definition carrierHashUser :: "unicode \<Rightarrow> sip_request \<Rightarrow> string" where
  "carrierHashUser u req =
     (if u_User (rq_Recipient req) \<noteq> [] then to_lower u (u_User (rq_Recipient req))
      else if user_of (rq_To req) \<noteq> [] then to_lower u (user_of (rq_To req))
      else rq_CallID req)"

definition carrierDest :: "carrier_snapshot \<Rightarrow> string \<Rightarrow> string option" where
  "carrierDest s name = (case m_get0 [] (cs_addrs s) name of [] \<Rightarrow> None | a # _ \<Rightarrow> Some (ap_text a))"

text \<open>\<^verbatim>\<open>carrierByName\<close> is the list of carriers by name.\<close>

definition carrierSide :: "unicode \<Rightarrow> topology \<Rightarrow> (string, carrier) gomap \<Rightarrow> string \<Rightarrow> side option" where
  "carrierSide u t byName name = (case m_get byName name of None \<Rightarrow> None | Some k \<Rightarrow> publicSide u t (cf_Transport k))"

fun node_scan :: "topology \<Rightarrow> addrport \<Rightarrow> string \<Rightarrow> string list \<Rightarrow> string" where
  "node_scan t src first [] = first"
| "node_scan t src first (n # ns) =
     (let a = ep_addr (upstreamEntryFor t n) in
      if unmap (fst a) \<noteq> unmap (fst src) then node_scan t src first ns
      else if snd a = snd src then n
      else node_scan t src (if first = [] then n else first) ns)"

definition switchNodeFor :: "topology \<Rightarrow> addrport \<Rightarrow> string option" where
  "switchNodeFor t src = (case node_scan t src [] (upstreamNames t) of [] \<Rightarrow> None | n # ns \<Rightarrow> Some (n # ns))"

definition carrierContactURI :: "side \<Rightarrow> string \<Rightarrow> string \<Rightarrow> uri" where
  "carrierContactURI pub user token = \<lparr>u_User = user, u_Host = side_host pub, u_Port = advPort pub,
     u_Params = (contactTokenParam, token) # (if sd_transport pub \<noteq> ''udp'' then [(''transport'', sd_transport pub)] else [])\<rparr>"

section \<open>Model: the switch's registrations at carriers\<close>

record carrier_binding =
  cb_token :: string
  cb_carrier :: string
  cb_node :: string
  cb_contact :: uri
  cb_expires :: gtime

type_synonym carrier_reg_table = "(string, carrier_binding) gomap"

definition creg_put :: "carrier_binding \<Rightarrow> carrier_reg_table \<Rightarrow> carrier_reg_table" where
  "creg_put b t = m_set (cb_token b) b t"

definition creg_remove :: "string \<Rightarrow> carrier_reg_table \<Rightarrow> carrier_reg_table" where
  "creg_remove token t = m_del token t"

definition creg_removeNode :: "string \<Rightarrow> string \<Rightarrow> carrier_reg_table \<Rightarrow> carrier_reg_table" where
  "creg_removeNode carrier node t = m_drop_if (\<lambda>b. cb_carrier b = carrier \<and> cb_node b = node) t"

definition creg_lookup :: "gtime \<Rightarrow> string \<Rightarrow> carrier_reg_table \<Rightarrow> carrier_binding option" where
  "creg_lookup now token t = (case m_get t token of None \<Rightarrow> None
     | Some b \<Rightarrow> if \<not> t_before now (cb_expires b) then None else Some b)"

definition creg_prune :: "gtime \<Rightarrow> carrier_reg_table \<Rightarrow> carrier_reg_table \<times> nat" where
  "creg_prune now t = (let t' = m_drop_if (\<lambda>b. \<not> t_before now (cb_expires b)) t in (t', length t - length t'))"

definition creg_counts :: "gtime \<Rightarrow> string list \<Rightarrow> carrier_reg_table \<Rightarrow> (string, nat) gomap" where
  "creg_counts now names t = fold (\<lambda>e out. if t_before now (cb_expires (snd e))
       then m_set (cb_carrier (snd e)) (m_get0 0 out (cb_carrier (snd e)) + 1) out else out) t
     (fold (\<lambda>n. m_set n 0) names [])"

section \<open>Where a request of the switch may go\<close>

lemma carrierURIs_from:
  assumes "m_get (fold (\<lambda>k. m_set (carrierKey u (cf_Host k) (cf_Port k)) (cf_Name k)) ks m) key = Some name"
  shows "m_get m key = Some name \<or> (\<exists>k \<in> set ks. carrierKey u (cf_Host k) (cf_Port k) = key \<and> cf_Name k = name)"
  using assms
proof (induction ks arbitrary: m)
  case (Cons k ks)
  from Cons.IH [of "m_set (carrierKey u (cf_Host k) (cf_Port k)) (cf_Name k) m"] Cons.prems show ?case
    by (auto split: if_splits)
qed simp

lemma carrierURIs_complete:
  "(\<exists>k \<in> set ks. carrierKey u (cf_Host k) (cf_Port k) = key) \<or> m_get m key \<noteq> None \<Longrightarrow>
    m_get (fold (\<lambda>k. m_set (carrierKey u (cf_Host k) (cf_Port k)) (cf_Name k)) ks m) key \<noteq> None"
proof (induction ks arbitrary: m)
  case (Cons k ks)
  show ?case using Cons.prems Cons.IH [of "m_set (carrierKey u (cf_Host k) (cf_Port k)) (cf_Name k) m"] by auto
qed simp

lemma registeredContact_token:
  "tok \<noteq> [] \<Longrightarrow> length tok \<le> 64 \<Longrightarrow> tokenOf (registeredContact t user tok) = Some tok"
  by (simp add: tokenOf_def registeredContact_def contactTokenParam_def)

lemma tokenOf_Some: "tokenOf x = Some k \<longleftrightarrow> m_get (u_Params x) ''fsbc'' = Some k \<and> k \<noteq> [] \<and> length k \<le> 64"
  by (auto simp: tokenOf_def contactTokenParam_def split: option.splits)

lemma find_skip: "(\<forall>x \<in> set pre. \<not> P x) \<Longrightarrow> find P (pre @ ys) = find P ys"
  by (induction pre) simp_all

lemma find_first: "find P xs = Some y \<longleftrightarrow> (\<exists>pre post. xs = pre @ y # post \<and> (\<forall>x \<in> set pre. \<not> P x) \<and> P y)" (is "?l \<longleftrightarrow> ?r")
proof
  assume ?l
  then have "\<exists>x \<in> set xs. P x" by (auto simp: find_Some_iff)
  from split_list_first_prop [OF this] obtain pre z post where xs: "xs = pre @ z # post" "P z" "\<forall>x \<in> set pre. \<not> P x" by blast
  with \<open>?l\<close> have "z = y" by (simp add: find_skip)
  with xs show ?r by blast
next
  assume ?r
  then show ?l by (auto simp: find_skip)
qed

lemma route_token_Some:
  "route_token t req = Some k \<longleftrightarrow> (\<exists>pre r post. rq_Routes req = pre @ r # post \<and> (\<forall>x \<in> set pre. isSelf t x) \<and>
     \<not> isSelf t r \<and> tokenOf r = Some k)"
proof -
  have "route_token t req = Some k \<longleftrightarrow> (\<exists>r. find (\<lambda>r. \<not> isSelf t r) (rq_Routes req) = Some r \<and> tokenOf r = Some k)"
    by (simp add: route_token_def firstForeignRoute_def split: option.split)
  then show ?thesis unfolding find_first by (simp only: not_not ex_simps conj_assoc) blast
qed

lemma carrierURIs_None:
  "m_get (carrierURIsOf u c) x = None \<longleftrightarrow> \<not> (\<exists>k \<in> set (ec_carriers (cfg_Edge c)). carrierKey u (cf_Host k) (cf_Port k) = x)"
  using carrierURIs_from [of u "ec_carriers (cfg_Edge c)" "[]" x] carrierURIs_complete [of "ec_carriers (cfg_Edge c)" u x "[]"]
  by (cases "m_get (carrierURIsOf u c) x") (auto simp: carrierURIsOf_def)

lemma classify_cases:
  fixes c :: config and u :: unicode and t :: topology
  defines "r \<equiv> classifySwitchRequest u t (carrierURIsOf u c)"
  defines "client \<equiv> \<lambda>req. \<exists>k. tokenOf (rq_Recipient req) = Some k \<or> route_token t req = Some k"
  defines "carrier \<equiv> \<lambda>req k. k \<in> set (ec_carriers (cfg_Edge c)) \<and>
    carrierKey u (cf_Host k) (cf_Port k) = carrierKey u (u_Host (rq_Recipient req)) (u_Port (rq_Recipient req))"
  shows "r req = (targetClient, []) \<longleftrightarrow> client req"
    and "fst (r req) = targetCarrier \<longleftrightarrow> \<not> client req \<and> (\<exists>k. carrier req k)"
    and "r req = (targetCarrier, name) \<Longrightarrow> \<exists>k. carrier req k \<and> cf_Name k = name"
    and "fst (r req) = targetSelf \<longleftrightarrow> \<not> client req \<and> \<not> (\<exists>k. carrier req k) \<and> isSelf t (rq_Recipient req)"
proof -
  have cl: "client req \<longleftrightarrow> tokenOf (rq_Recipient req) \<noteq> None \<or> route_token t req \<noteq> None" by (auto simp: client_def)
  have ca: "(\<exists>k. carrier req k) \<longleftrightarrow> m_get (carrierURIsOf u c) (carrierKey u (u_Host (rq_Recipient req)) (u_Port (rq_Recipient req))) \<noteq> None"
    unfolding carrierURIs_None by (auto simp: carrier_def)
  note d = r_def classifySwitchRequest_def
  show "r req = (targetClient, []) \<longleftrightarrow> client req" unfolding cl d by (auto split: option.split)
  show "fst (r req) = targetCarrier \<longleftrightarrow> \<not> client req \<and> (\<exists>k. carrier req k)" unfolding cl ca d by (auto split: option.split)
  show "fst (r req) = targetSelf \<longleftrightarrow> \<not> client req \<and> \<not> (\<exists>k. carrier req k) \<and> isSelf t (rq_Recipient req)"
    unfolding cl ca d by (auto split: option.split)
  show "\<exists>k. carrier req k \<and> cf_Name k = name" if "r req = (targetCarrier, name)"
  proof -
    have "m_get (carrierURIsOf u c) (carrierKey u (u_Host (rq_Recipient req)) (u_Port (rq_Recipient req))) = Some name"
      using that unfolding d by (auto split: if_splits option.splits)
    from carrierURIs_from [OF this [unfolded carrierURIsOf_def]] show ?thesis by (auto simp: carrier_def)
  qed
qed

lemma bindingForRequest_Some:
  "bindingForRequest now now' t l req = Some b \<longleftrightarrow>
     (\<exists>k. tokenOf (rq_Recipient req) = Some k \<and> ByToken now k l = Some b) \<or>
     (\<forall>k. tokenOf (rq_Recipient req) = Some k \<longrightarrow> ByToken now k l = None) \<and>
     (\<exists>k. route_token t req = Some k \<and> ByToken now' k l = Some b)"
  by (auto simp: bindingForRequest_def split: option.splits)

text \<open>
  C25: The switch reaches clients and configured carriers only, and a client by its token only. A
  request from the switch is a client's exactly when its Request-URI, or the first of its Routes that
  is not FreeSBC's own, carries a registration token (the parameter \<^verbatim>\<open>fsbc\<close>, of 1 to 64 bytes).
  Otherwise it leaves for a carrier exactly when its Request-URI names, host and port, an entry of the
  carrier list, and then for an entry so named: FreeSBC is not an open relay. What is left is for
  FreeSBC itself or for nobody. A client's request finds exactly the registration that the
  Request-URI's token was given to, or, where that is not live, the one of the Route's token; in
  particular the Contact that FreeSBC registers at the switch, used as a Request-URI, leads back
  to the registration it was made for.
\<close>

theorem switch_requests_routed:
  fixes c :: config and u :: unicode and t :: topology
  defines "r \<equiv> classifySwitchRequest u t (carrierURIsOf u c)"
  defines "token \<equiv> \<lambda>x k. m_get (u_Params x) ''fsbc'' = Some k \<and> k \<noteq> [] \<and> length k \<le> 64"
  defines "route \<equiv> \<lambda>req k. \<exists>pre x post. rq_Routes req = pre @ x # post \<and> (\<forall>y \<in> set pre. isSelf t y) \<and> \<not> isSelf t x \<and> token x k"
  defines "client \<equiv> \<lambda>req. \<exists>k. token (rq_Recipient req) k \<or> route req k"
  defines "carrier \<equiv> \<lambda>req k. k \<in> set (ec_carriers (cfg_Edge c)) \<and>
    carrierKey u (cf_Host k) (cf_Port k) = carrierKey u (u_Host (rq_Recipient req)) (u_Port (rq_Recipient req))"
  shows "(r req = (targetClient, []) \<longleftrightarrow> client req) \<and>
    (fst (r req) = targetCarrier \<longleftrightarrow> \<not> client req \<and> (\<exists>k. carrier req k)) \<and>
    (r req = (targetCarrier, name) \<longrightarrow> (\<exists>k. carrier req k \<and> cf_Name k = name)) \<and>
    (fst (r req) = targetSelf \<longleftrightarrow> \<not> client req \<and> \<not> (\<exists>k. carrier req k) \<and> isSelf t (rq_Recipient req)) \<and>
    (bindingForRequest now now' t l req = Some b \<longleftrightarrow>
      (\<exists>k. token (rq_Recipient req) k \<and> ByToken now k l = Some b) \<or>
      (\<forall>k. token (rq_Recipient req) k \<longrightarrow> ByToken now k l = None) \<and> (\<exists>k. route req k \<and> ByToken now' k l = Some b)) \<and>
    (tok \<noteq> [] \<longrightarrow> length tok \<le> 64 \<longrightarrow> rq_Recipient req = registeredContact t user tok \<longrightarrow>
      r req = (targetClient, []) \<and> (ByToken now tok l = Some b \<longrightarrow> bindingForRequest now now' t l req = Some b))"
proof -
  have tok: "token x k \<longleftrightarrow> tokenOf x = Some k" for x k unfolding token_def tokenOf_Some ..
  have rt: "route req k \<longleftrightarrow> route_token t req = Some k" for req k unfolding route_def route_token_Some tok ..
  have c1: "r req = (targetClient, []) \<longleftrightarrow> client req" unfolding client_def tok rt r_def by (rule classify_cases(1))
  have c2: "fst (r req) = targetCarrier \<longleftrightarrow> \<not> client req \<and> (\<exists>k. carrier req k)"
    unfolding client_def tok rt r_def carrier_def by (rule classify_cases(2))
  have c3: "r req = (targetCarrier, name) \<longrightarrow> (\<exists>k. carrier req k \<and> cf_Name k = name)"
    unfolding r_def carrier_def by (intro impI) (rule classify_cases(3))
  have c4: "fst (r req) = targetSelf \<longleftrightarrow> \<not> client req \<and> \<not> (\<exists>k. carrier req k) \<and> isSelf t (rq_Recipient req)"
    unfolding client_def tok rt r_def carrier_def by (rule classify_cases(4))
  have c5: "bindingForRequest now now' t l req = Some b \<longleftrightarrow>
      (\<exists>k. token (rq_Recipient req) k \<and> ByToken now k l = Some b) \<or>
      (\<forall>k. token (rq_Recipient req) k \<longrightarrow> ByToken now k l = None) \<and> (\<exists>k. route req k \<and> ByToken now' k l = Some b)"
    unfolding tok rt by (rule bindingForRequest_Some)
  have c6: "tok \<noteq> [] \<longrightarrow> length tok \<le> 64 \<longrightarrow> rq_Recipient req = registeredContact t user tok \<longrightarrow>
      r req = (targetClient, []) \<and> (ByToken now tok l = Some b \<longrightarrow> bindingForRequest now now' t l req = Some b)"
    using registeredContact_token [of tok t user] by (auto simp: c1 c5 client_def tok)
  show ?thesis by (rule conjI [OF c1 conjI [OF c2 conjI [OF c3 conjI [OF c4 conjI [OF c5 c6]]]]])
qed

text \<open>The witness: a request whose Request-URI is FreeSBC's own and whose second Route carries the token.\<close>

theorem switch_requests_routed_witness:
  "let t = buildTopology two_switches_public (V4 7, 9);
       own = side_uri (tp_private t);
       far = \<lparr>u_User = ''bob'', u_Host = ''0.0.0.9'', u_Port = 5060, u_Params = [(''fsbc'', ''tok'')]\<rparr>;
       req = undefined\<lparr>rq_Recipient := own, rq_Routes := [own, far]\<rparr>
   in classifySwitchRequest ascii_tables t (carrierURIsOf ascii_tables two_switches_public) req = (targetClient, [])"
proof -
  define t where "t = buildTopology two_switches_public (V4 7, 9)"
  define far where "far = \<lparr>u_User = ''bob'', u_Host = ''0.0.0.9'', u_Port = 5060, u_Params = [(''fsbc'', ''tok'')]\<rparr>"
  define req :: sip_request where "req = undefined\<lparr>rq_Recipient := side_uri (tp_private t), rq_Routes := [side_uri (tp_private t), far]\<rparr>"
  have own: "isSelf t (side_uri (tp_private t))"
    unfolding t_def using own_sides(1) [OF two_public refl, of 9 "tp_private (buildTopology two_switches_public (V4 7, 9))"] by simp
  have far: "\<not> isSelf t far" unfolding t_def far_def by code_simp
  have "rq_Routes req = [side_uri (tp_private t)] @ far # []" by (simp add: req_def)
  then have "\<exists>pre x post. rq_Routes req = pre @ x # post \<and> (\<forall>y \<in> set pre. isSelf t y) \<and> \<not> isSelf t x \<and>
      (m_get (u_Params x) ''fsbc'' = Some ''tok'' \<and> ''tok'' \<noteq> [] \<and> length ''tok'' \<le> 64)"
    using own far by (intro exI [of _ "[side_uri (tp_private t)]"] exI [of _ far] exI [of _ "[]"]) (simp add: far_def)
  then show ?thesis
    using switch_requests_routed [THEN conjunct1, of ascii_tables t two_switches_public req]
    unfolding Let_def t_def [symmetric] far_def [symmetric] req_def [symmetric] by blast
qed

section \<open>A registered Contact among the Routes\<close>

text \<open>
  A Contact that FreeSBC registered names its private address, whatever its token. As a Route it is
  therefore taken for FreeSBC's own and skipped: the token is not read, and the request is not a
  client's by it. Only a Contact with another host and port, such as that of another FreeSBC, is
  found among the Routes, so the case that \<^verbatim>\<open>bindingForRequest\<close>'s comment gives for looking there, a
  strict router that moved the Contact into a Route, does not work.
\<close>

lemma isSelf_host_port: "u_Host x = u_Host y \<Longrightarrow> u_Port x = u_Port y \<Longrightarrow> isSelf t x = isSelf t y"
  by (simp add: isSelf_def cong: option.case_cong)

theorem contact_in_route_skipped:
  fixes c :: config
  assumes "PublicIP c = V4 a" and "priv = (V4 b, p)" "p \<noteq> 0"
    and "rq_Routes req = map (registeredContact (buildTopology c priv) user) toks"
  shows "route_token (buildTopology c priv) req = None"
proof -
  let ?t = "buildTopology c priv"
  have "isSelf ?t (side_uri (tp_private ?t))" using own_sides(1) [OF assms(1-3), of "tp_private ?t"] by simp
  moreover have "isSelf ?t (side_uri (tp_private ?t)) = isSelf ?t (registeredContact ?t user tok)" for tok
    by (rule isSelf_host_port) (simp_all add: side_uri_def registeredContact_def)
  ultimately have "isSelf ?t (registeredContact ?t user tok)" for tok by simp
  then have "find (\<lambda>r. \<not> isSelf ?t r) (rq_Routes req) = None" unfolding assms(4) by (simp add: find_None_iff)
  then show ?thesis by (simp add: route_token_def firstForeignRoute_def)
qed

theorem contact_in_route_skipped_witness:
  "let t = buildTopology two_switches_public (V4 7, 9)
   in route_token t (undefined\<lparr>rq_Routes := [registeredContact t ''bob'' ''tok'']\<rparr>) = None"
  using contact_in_route_skipped [OF two_public refl, of 9 "undefined\<lparr>rq_Routes :=
    [registeredContact (buildTopology two_switches_public (V4 7, 9)) ''bob'' ''tok'']\<rparr>" 7 "''bob''" "[''tok'']"]
  by (simp add: Let_def)

end
