(* ===== verification/Register.thy ===== *)
theory Register
  imports Edge_Routing Regguard Cooldown Shield
begin

text \<open>
  Admission and registration at the edge: \<^verbatim>\<open>src/internal/edge/register.go\<close>, \<^verbatim>\<open>registerproof.go\<close>, the
  verdicts of \<^verbatim>\<open>admission.go\<close> and the credential guard of \<^verbatim>\<open>regguard.go\<close> over the whole state they
  touch: the registration table, the shield, the guard, the enumeration limit, the cooldown table
  and the drop counters.

  \<open>edge_env\<close> is what a handler reads and does not change: the configuration snapshot, the topology,
  the published carrier snapshot. \<open>ee_carrierToken\<close> is \<^verbatim>\<open>carrierToken\<close>, a hash of the node name and the
  printed Contact; nothing here depends on its value. Each clock reading of a call is a different index of \<open>ck\<close>. What
  the network does to one attempt of \<^verbatim>\<open>onRegister\<close> is the record \<open>attempt\<close>: whether the shared budget
  was spent when the attempt began, whether the request got out, and the responses that arrived
  before the transaction or the budget ended. What a handler sends is its list of \<open>sent\<close>.
\<close>

section \<open>Model: environment and state\<close>

record edge_env =
  ee_u :: unicode
  ee_shield_env :: shield_env
  ee_cfg :: shield_cfg
  ee_carriers :: carrier_snapshot
  ee_topo :: topology
  ee_uris :: "(string, string) gomap"
  ee_byName :: "(string, carrier) gomap"
  ee_AllowRegisterAuthMismatch :: bool
  ee_carrierToken :: "string \<Rightarrow> uri \<Rightarrow> string"

record edge =
  ed_loc :: location
  ed_shield :: "shield option"
  ed_guard :: reg_guard
  ed_enum :: enum_limiter
  ed_cooldown :: cooldown_table
  ed_drops :: drop_summary
  ed_warned :: warn_once
  ed_carrierRegs :: carrier_reg_table

text \<open>The predicates the edge builds its shield with.\<close>

definition edge_shield_env :: "edge_env \<Rightarrow> clock \<Rightarrow> edge \<Rightarrow> shield_env" where
  "edge_shield_env env ck e = (ee_shield_env env)
     \<lparr>isCarrier := (\<lambda>ip. isSource ip (ee_carriers env)),
      vouched := (\<lambda>tr src. HasSource (ee_u env) (ck 0) tr src (ed_loc e) \<or> isAddress (ee_u env) src tr (ee_carriers env))\<rparr>"

text \<open>\<^verbatim>\<open>sip.NetworkToLower(req.Transport())\<close>\<close>

definition rq_network :: "edge_env \<Rightarrow> sip_request \<Rightarrow> string" where
  "rq_network env req = to_lower (ee_u env) (rq_Transport req)"

section \<open>Model: admission\<close>

datatype invite_source = srcDrop | srcClient | srcCarrier

definition admitPublicInvite :: "edge_env \<Rightarrow> gtime \<Rightarrow> sip_request \<Rightarrow> addrport \<Rightarrow> edge \<Rightarrow> invite_source \<times> string" where
  "admitPublicInvite env now req src e =
     (if HasSource (ee_u env) now (rq_network env req) src (ed_loc e) then (srcClient, [])
      else case carrierFor src (rq_network env req) (ee_carriers env) of
          Some name \<Rightarrow> (srcCarrier, name)
        | None \<Rightarrow> (srcDrop, []))"

definition admissionStrike :: "edge_env \<Rightarrow> clock \<Rightarrow> addr \<Rightarrow> string \<Rightarrow> edge \<Rightarrow> edge" where
  "admissionStrike env ck ip0 transport e = (case ed_shield e of
       None \<Rightarrow> e
     | Some sh \<Rightarrow> (let ip = unmap ip0 in
         if isSource ip (ee_carriers env) \<or> HasIP ip (ed_loc e) then e
         else e\<lparr>ed_shield := Some (fst (StrikeOn (edge_shield_env env ck e) ck (ee_cfg env) ip StrikeAdmission transport sh))\<rparr>))"

definition dropSilently :: "edge_env \<Rightarrow> clock \<Rightarrow> drop_reason \<Rightarrow> sip_request \<Rightarrow> addrport \<Rightarrow> edge \<Rightarrow> edge" where
  "dropSilently env ck reason req src e =
     (let e1 = e\<lparr>ed_drops := summary_add (fst src) False (ed_drops e)\<rparr>;
          e2 = (if reason \<noteq> dropRegisterAORLocked then admissionStrike env ck (fst src) (rq_network env req) e1 else e1)
      in e2\<lparr>ed_warned := fst (warn_first reason (fst src) (ed_warned e2))\<rparr>)"

datatype ood_verdict = oodAdmitted binding | oodCarrier | oodDropped

definition admitPublicOutOfDialog :: "edge_env \<Rightarrow> clock \<Rightarrow> sip_request \<Rightarrow> addrport \<Rightarrow> drop_reason \<Rightarrow> edge \<Rightarrow> edge \<times> ood_verdict" where
  "admitPublicOutOfDialog env ck req src reason e =
     (case SourceBinding (ee_u env) (ck 0) (rq_network env req) src (user_of (rq_From req)) (ed_loc e) of
        Some b \<Rightarrow> (e, oodAdmitted b)
      | None \<Rightarrow>
          if carrierFor src (rq_network env req) (ee_carriers env) \<noteq> None then (e, oodCarrier)
          else (dropSilently env (\<lambda>i. ck (1 + i)) reason req src e, oodDropped))"

definition admitDialogless :: "edge_env \<Rightarrow> clock \<Rightarrow> sip_request \<Rightarrow> addrport \<Rightarrow> edge \<Rightarrow> edge \<times> bool" where
  "admitDialogless env ck req src e =
     (if fst (admitPublicInvite env (ck 0) req src e) \<noteq> srcDrop then (e, True)
      else (dropSilently env (\<lambda>i. ck (1 + i)) dropDialogless req src e, False))"

text \<open>\<open>remote\<close> is the text of the read's remote address.\<close>

definition malformedStrike :: "edge_env \<Rightarrow> clock \<Rightarrow> string \<Rightarrow> string \<Rightarrow> edge \<Rightarrow> edge" where
  "malformedStrike env ck transport remote e = (case ed_shield e of
       None \<Rightarrow> e
     | Some sh \<Rightarrow> (case ParseAddrPort remote of
         None \<Rightarrow> e
       | Some ap \<Rightarrow> (let ip = unmap (fst ap) in
           if isSource ip (ee_carriers env) \<or> HasIP ip (ed_loc e) then e
           else e\<lparr>ed_drops := summary_add ip True (ed_drops e),
                  ed_shield := Some (fst (StrikeOn (edge_shield_env env ck e) ck (ee_cfg env) ip StrikeMalformed transport sh))\<rparr>)))"

section \<open>Model: the credential guard\<close>

definition registerHead :: "edge_env \<Rightarrow> sip_request \<Rightarrow> string \<Rightarrow> register_head" where
  "registerHead env req aor =
     (let h = head_zero\<lparr>rh_AOR := aor, rh_CallID := rq_CallID req,
            Branch := (case rq_Branch req of None \<Rightarrow> [] | Some b \<Rightarrow> b)\<rparr>;
          auth = (case rq_Authorization req of Some v \<Rightarrow> Some v | None \<Rightarrow> rq_ProxyAuthorization req)
      in case auth of None \<Rightarrow> h
         | Some v \<Rightarrow> (let (user, nonce, key) = DigestIdentity (ee_u env) v in
             h\<lparr>Auth := True, rh_User := user, Nonce := nonce, AuthKey := key\<rparr>))"

definition refreshesBinding :: "edge_env \<Rightarrow> gtime \<Rightarrow> addr \<Rightarrow> string \<Rightarrow> string \<Rightarrow> location \<Rightarrow> bool" where
  "refreshesBinding env now ip aor callID l \<longleftrightarrow>
     aor \<noteq> [] \<and> callID \<noteq> [] \<and>
     list_ex (\<lambda>b. b_CallID b = callID \<and> enumKey (fst (b_Source b)) = enumKey ip) (ByAOR (ee_u env) now aor l)"

definition registerStrike :: "edge_env \<Rightarrow> clock \<Rightarrow> addrport \<Rightarrow> register_head \<Rightarrow> bool \<Rightarrow> edge \<Rightarrow> edge \<times> bool" where
  "registerStrike env ck src head replay e = (case ed_shield e of
       None \<Rightarrow> (e, False)
     | Some sh \<Rightarrow>
         if \<not> Auth head then (e, False)
         else let ip = unmap (fst src) in
           if isSource ip (ee_carriers env) \<or> refreshesBinding env (ck 0) ip (rh_AOR head) (rh_CallID head) (ed_loc e)
           then (e, False)
           else let (g, ok) = countable (ck 1) ip (Branch head) (Nonce head) (AuthKey head) replay (ed_guard e);
                    e1 = e\<lparr>ed_guard := g\<rparr>
             in if \<not> ok then (e1, False)
                else let senv = edge_shield_env env ck e;
                         sh1 = fst (StrikeAOR senv (\<lambda>i. ck (2 + i)) (ee_cfg env) (rh_AOR head) sh);
                         (sh2, banned) = Strike_src senv (\<lambda>i. ck (3 + i)) (ee_cfg env) ip StrikeRegister sh1
                  in (e1\<lparr>ed_shield := Some sh2\<rparr>, banned))"

definition registerLine :: string where
  "registerLine = ''REGISTER ''"

text \<open>\<open>remote\<close> is \<open>None\<close> where the read has no remote address.\<close>

definition registerReplayRead :: "edge_env \<Rightarrow> clock \<Rightarrow> string \<Rightarrow> string option \<Rightarrow> string \<Rightarrow> edge \<Rightarrow> edge \<times> bool" where
  "registerReplayRead env ck transport remote data e =
     (if \<not> has_prefix data registerLine \<or> \<not> equal_fold (ee_u env) transport ''udp'' then (e, False)
      else case remote of
          None \<Rightarrow> (e, False)
        | Some r \<Rightarrow> (let (head, ok) = ScanRegister (ee_u env) data in
            if \<not> ok \<or> \<not> Auth head then (e, False)
            else case ParseAddrPort r of None \<Rightarrow> (e, False)
              | Some src \<Rightarrow> registerStrike env ck src head True e))"

definition aorLockedFor :: "edge_env \<Rightarrow> clock \<Rightarrow> addr \<Rightarrow> string \<Rightarrow> edge \<Rightarrow> edge \<times> bool" where
  "aorLockedFor env ck src aor e = (case ed_shield e of
       None \<Rightarrow> (e, False)
     | Some sh \<Rightarrow> (let (sh1, locked) = AORLocked (edge_shield_env env ck e) ck (ee_cfg env) aor sh;
                     e1 = e\<lparr>ed_shield := Some sh1\<rparr>
         in if \<not> locked then (e1, False)
            else if isSource (unmap src) (ee_carriers env) then (e1, False)
            else (e1, \<not> list_ex (\<lambda>b. enumKey (fst (b_Source b)) = enumKey (unmap src)) (ByAOR (ee_u env) (ck 1) aor (ed_loc e1)))))"

section \<open>Model: responses\<close>

record sip_response =
  rs_Status :: int
  rs_Contacts :: "contact list"
  rs_Expires :: "string option"
  rs_WWWAuthenticate :: "string list"
  rs_ProxyAuthenticate :: "string list"
  rs_Routable :: bool

definition Forwardable :: "sip_response \<Rightarrow> bool" where
  "Forwardable res \<longleftrightarrow> rs_Status res \<noteq> 100"

definition is_2xx :: "sip_response \<Rightarrow> bool" where
  "is_2xx res \<longleftrightarrow> rs_Status res div 100 = 2"

definition challengeNonces :: "unicode \<Rightarrow> sip_response \<Rightarrow> string list \<times> bool" where
  "challengeNonces u res =
     (let vs = rs_WWWAuthenticate res @ rs_ProxyAuthenticate res
      in (concat (map (\<lambda>v. case DigestParam u v ''nonce'' of Some n \<Rightarrow> if n \<noteq> [] then [n] else [] | None \<Rightarrow> []) vs),
          list_ex (\<lambda>v. case DigestParam u v ''stale'' of Some st \<Rightarrow> equal_fold u st ''true'' | None \<Rightarrow> False) vs))"

section \<open>Model: what a 2xx proves\<close>

record binding_input =
  bi_token :: string
  bi_aor :: string
  bi_user :: string
  bi_callID :: string
  bi_transport :: string
  bi_src :: addrport
  bi_requested :: dur
  bi_unregister :: bool
  bi_clientContact :: "uri option"
  bi_wildcard :: bool
  bi_head :: register_head

definition bi_hasContact :: "binding_input \<Rightarrow> bool" where
  "bi_hasContact inp \<longleftrightarrow> bi_clientContact inp \<noteq> None"

datatype binding_reject = rejectBindingNoContact | rejectBindingNoAuth | rejectBindingAuthMismatch

fun binding_reject_label :: "binding_reject \<Rightarrow> string" where
  "binding_reject_label rejectBindingNoContact = ''no_contact''"
| "binding_reject_label rejectBindingNoAuth = ''no_auth''"
| "binding_reject_label rejectBindingAuthMismatch = ''auth_aor_mismatch''"

definition credentialMatches :: "edge_env \<Rightarrow> binding_input \<Rightarrow> bool" where
  "credentialMatches env inp \<longleftrightarrow>
     (if \<not> Auth (bi_head inp) then False
      else if ee_AllowRegisterAuthMismatch env then True
      else rh_User (bi_head inp) \<noteq> [] \<and> equal_fold (ee_u env) (rh_User (bi_head inp)) (bi_user inp))"

text \<open>\<open>None\<close> is a proof.\<close>

definition bindingProof :: "edge_env \<Rightarrow> gtime \<Rightarrow> binding_input \<Rightarrow> location \<Rightarrow> binding_reject option" where
  "bindingProof env now inp l =
     (if \<not> bi_hasContact inp then Some rejectBindingNoContact
      else if credentialMatches env inp then None
      else if refreshesBinding env now (unmap (fst (bi_src inp))) (bi_aor inp) (bi_callID inp) l then None
      else if Auth (bi_head inp) then Some rejectBindingAuthMismatch
      else Some rejectBindingNoAuth)"

definition registerOutcome :: "edge_env \<Rightarrow> clock \<Rightarrow> binding_input \<Rightarrow> sip_response \<Rightarrow> edge \<Rightarrow> edge" where
  "registerOutcome env ck inp res e =
     (let code = rs_Status res; src = fst (bi_src inp) in
      if is_2xx res then
        (case ed_shield e of
           None \<Rightarrow> e
         | Some sh \<Rightarrow>
             if credentialMatches env inp then
               e\<lparr>ed_shield := Some (ClearAOR (bi_aor inp) (ClearStrikes src StrikeAdmission (ClearStrikes src StrikeRegister sh)))\<rparr>
             else e)
      else
        (let (nonces, stale) = challengeNonces (ee_u env) res;
             e1 = (if code \<in> {401, 403, 404, 407} \<and> \<not> stale
               then fst (registerStrike env ck (bi_src inp) (bi_head inp) False e) else e)
         in if code = 401 \<or> code = 407
            then e1\<lparr>ed_guard := challenged (ck 7) src (Branch (bi_head inp)) nonces (ed_guard e1)\<rparr> else e1))"

section \<open>Model: recording a binding\<close>

definition remove_all :: "string \<Rightarrow> binding list \<Rightarrow> location \<Rightarrow> location" where
  "remove_all aor bs l = fold (\<lambda>b l. fst (Remove aor (b_CallID b) l)) bs l"

text \<open>The new table and the seconds the registrar granted. \<open>tok\<close> is what \<^verbatim>\<open>NewToken\<close> returns inside \<^verbatim>\<open>Put\<close>.\<close>

definition recordBinding :: "edge_env \<Rightarrow> clock \<Rightarrow> string \<Rightarrow> sip_response \<Rightarrow> binding_input \<Rightarrow> location \<Rightarrow> location \<times> int" where
  "recordBinding env ck tok res inp l =
     (if bi_wildcard inp then (remove_all (bi_aor inp) (ByAOR (ee_u env) (ck 0) (bi_aor inp) l) l, 0)
      else if \<not> bi_hasContact inp then
        (l, GrantedExpires (rs_Contacts res) (rs_Expires res) (bi_requested inp) (\<lambda>_. False) div second)
      else let granted = GrantedExpires (rs_Contacts res) (rs_Expires res) (bi_requested inp) (\<lambda>c. c_Token c = Some (bi_token inp)) in
        if bi_unregister inp \<or> granted \<le> 0 then (fst (Remove (bi_aor inp) (bi_callID inp) l), 0)
        else if bindingProof env (ck 1) inp l \<noteq> None then (l, granted div second)
        else let b = \<lparr>b_Token = bi_token inp, b_AOR = bi_aor inp, b_User = bi_user inp, b_Transport = bi_transport inp,
               b_Source = bi_src inp, b_ExpiresAt = t_add (ck 2) granted, b_CallID = bi_callID inp\<rparr>
          in (fst (Put (ck 3) tok b l), granted div second))"

definition existingToken :: "edge_env \<Rightarrow> gtime \<Rightarrow> string \<Rightarrow> string \<Rightarrow> location \<Rightarrow> string" where
  "existingToken env now aor callID l =
     (case find (\<lambda>b. b_CallID b = callID) (ByAOR (ee_u env) now aor l) of None \<Rightarrow> [] | Some b \<Rightarrow> b_Token b)"

definition aorOf :: "unicode \<Rightarrow> sip_request \<Rightarrow> (string \<times> string) option" where
  "aorOf u req = (case rq_To req of
       None \<Rightarrow> None
     | Some t \<Rightarrow> if u_User t = [] \<or> u_Host t = [] then None
         else (case NormalizeAOR u (u_User t) (u_Host t) of None \<Rightarrow> None | Some aor \<Rightarrow> Some (aor, u_User t)))"

definition hasWildcardContact :: "sip_request \<Rightarrow> bool" where
  "hasWildcardContact req = list_ex (\<lambda>c. c_Wildcard (snd c)) (rq_Contacts req)"

section \<open>Model: the REGISTER handler\<close>

definition registerTimeout :: dur where
  "registerTimeout = 32 * second"

definition registerRetryAfter :: int where
  "registerRetryAfter = 30"

definition switchCooldown :: dur where
  "switchCooldown = 30 * second"

text \<open>What becomes of the Contacts of a relayed response: as they came, none, or the client's own.\<close>

datatype contact_rewrite = KeepContacts | NoContacts | OwnContact uri int

text \<open>A forward to a node with its new Contact, a relayed response, an answer of FreeSBC's own with its Retry-After.\<close>

datatype sent = Forward string "uri option" | Relay int contact_rewrite | Reply int "int option"

text \<open>The responses of one exchange, with the clock of each.\<close>

type_synonym arrivals = "(clock \<times> sip_response) list"

definition relay_2xx :: "edge_env \<Rightarrow> clock \<Rightarrow> string \<Rightarrow> sip_response \<Rightarrow> binding_input \<Rightarrow> edge \<Rightarrow> edge \<times> contact_rewrite" where
  "relay_2xx env ck tok res inp e =
     (let (l, granted) = recordBinding env ck tok res inp (ed_loc e); e1 = e\<lparr>ed_loc := l\<rparr> in
      if bi_wildcard inp then (e1, NoContacts)
      else case bi_clientContact inp of Some c \<Rightarrow> (e1, OwnContact c granted) | None \<Rightarrow> (e1, KeepContacts))"

definition judge_final :: "edge_env \<Rightarrow> clock \<Rightarrow> binding_input \<Rightarrow> sip_response \<Rightarrow> edge \<Rightarrow> edge" where
  "judge_final env ck inp res e =
     (let e1 = (if countsAsEnumeration (rs_Status res)
            then e\<lparr>ed_enum := fst (enum_rejected (ck 0) (fst (bi_src inp)) (bi_aor inp) (ed_enum e))\<rparr> else e)
      in registerOutcome env (\<lambda>i. ck (1 + i)) inp res e1)"

text \<open>\<^verbatim>\<open>pumpRegister\<close>: the final response relayed, if any, and whether the node responded.\<close>

fun pumpRegister :: "edge_env \<Rightarrow> string \<Rightarrow> binding_input \<Rightarrow> arrivals \<Rightarrow> edge \<Rightarrow> edge \<times> sent list \<times> sip_response option \<times> bool" where
  "pumpRegister env tok inp [] e = (e, [], None, False)"
| "pumpRegister env tok inp ((ck, res) # rs) e =
     (if \<not> Forwardable res then pumpRegister env tok inp rs e
      else let final = rs_Status res \<ge> 200; e1 = (if final then judge_final env ck inp res e else e) in
        if \<not> rs_Routable res then
          (let (e2, outs, fin, _) = pumpRegister env tok inp rs e1 in (e2, outs, fin, True))
        else let (e2, rw) = (if final \<and> is_2xx res then relay_2xx env (\<lambda>i. ck (10 + i)) tok res inp e1 else (e1, KeepContacts)) in
          if final then (e2, [Relay (rs_Status res) rw], Some res, True)
          else let (e3, outs, fin, _) = pumpRegister env tok inp rs e2 in (e3, Relay (rs_Status res) rw # outs, fin, True))"

record attempt =
  at_expired :: bool
  at_clock :: clock
  at_send_failed :: bool
  at_expired_sending :: bool
  at_arrivals :: arrivals
  at_end_error :: bool

definition node_unanswered :: "clock \<Rightarrow> string \<Rightarrow> bool \<Rightarrow> edge \<Rightarrow> edge" where
  "node_unanswered ck name probe e =
     e\<lparr>ed_cooldown := fst (RegisterUnanswered (ck 2) name probe (Penalize (ck 1) name switchCooldown (ed_cooldown e)))\<rparr>"

definition release_probe :: "string \<Rightarrow> bool \<Rightarrow> edge \<Rightarrow> edge" where
  "release_probe name probe e = (if probe then e\<lparr>ed_cooldown := RegisterRelease name (ed_cooldown e)\<rparr> else e)"

text \<open>
  The series over the nodes. \<open>None\<close> is a handler that has answered; \<open>Some (tried, spent)\<close> a series
  that ended, with whether a node was tried and whether the budget ended it.
\<close>

fun dial_nodes :: "edge_env \<Rightarrow> string \<Rightarrow> sip_request \<Rightarrow> binding_input \<Rightarrow> (nat \<Rightarrow> attempt) \<Rightarrow> nat \<Rightarrow> string list \<Rightarrow> bool \<Rightarrow> edge \<Rightarrow>
    edge \<times> sent list \<times> (bool \<times> bool) option" where
  "dial_nodes env tok req inp atts i [] tried e = (e, [], Some (tried, False))"
| "dial_nodes env tok req inp atts i (name # names) tried e =
     (let a = atts i in
      if at_expired a then (e, [], Some (tried, True))
      else let (cd, allow, probe) = RegisterAllow (at_clock a 0) name registerTimeout (ed_cooldown e); e1 = e\<lparr>ed_cooldown := cd\<rparr> in
        if \<not> allow then dial_nodes env tok req inp atts (i + 1) names tried e1
        else if rq_MaxForwards req = Some 0 then (release_probe name probe e1, [Reply 483 None], None)
        else if at_send_failed a then
          (if at_expired_sending a then (release_probe name probe e1, [], Some (True, True))
           else dial_nodes env tok req inp atts (i + 1) names True (node_unanswered (at_clock a) name probe e1))
        else let fwd = Forward name (if bi_hasContact inp \<and> \<not> bi_wildcard inp
                     then Some (registeredContact (ee_topo env) (bi_user inp) (bi_token inp)) else None);
                 (e2, outs, fin, responded) = pumpRegister env tok inp (at_arrivals a) e1
          in if fin \<noteq> None then
               (e2\<lparr>ed_cooldown := RegisterAnswered name (Recover name (ed_cooldown e2))\<rparr>, fwd # outs, None)
             else let e3 = (if responded then e2\<lparr>ed_cooldown := RegisterAnswered name (ed_cooldown e2)\<rparr>
                        else node_unanswered (at_clock a) name probe e2);
                      (e4, outs', r) = dial_nodes env tok req inp atts (i + 1) names True e3
               in (e4, fwd # outs @ outs', r))"

text \<open>\<open>newtok\<close> is what \<^verbatim>\<open>NewToken\<close> returns for a new registration.\<close>

definition register_input :: "edge_env \<Rightarrow> gtime \<Rightarrow> string \<Rightarrow> sip_request \<Rightarrow> addrport \<Rightarrow> side \<Rightarrow> string \<Rightarrow> string \<Rightarrow> location \<Rightarrow> binding_input" where
  "register_input env now newtok req src from aor user l =
     (let old = existingToken env now aor (rq_CallID req) l;
          (expires, unregister) = requestedExpires (map snd (rq_Contacts req)) (rq_Expires req)
      in \<lparr>bi_token = (if old = [] then newtok else old), bi_aor = aor, bi_user = user, bi_callID = rq_CallID req,
          bi_transport = sd_transport from, bi_src = src, bi_requested = expires, bi_unregister = unregister,
          bi_clientContact = ContactURI req, bi_wildcard = hasWildcardContact req, bi_head = registerHead env req aor\<rparr>)"

text \<open>The checks before the series: what ends the handler, or the state and the binding input to go on with.\<close>

definition register_admit :: "edge_env \<Rightarrow> clock \<Rightarrow> string \<Rightarrow> sip_request \<Rightarrow> addrport \<Rightarrow> edge \<Rightarrow>
    (edge \<times> sent list) + (edge \<times> binding_input)" where
  "register_admit env ck newtok req src e =
     (if enum_blocked (ck 0) (fst src) (ed_enum e)
      then Inl (dropSilently env (\<lambda>i. ck (10 + i)) dropRegisterEnumeration req src e, [])
      else case publicSide (ee_u env) (ee_topo env) (rq_network env req) of
          None \<Rightarrow> Inl (e, [Reply 488 None])
        | Some from \<Rightarrow> (case aorOf (ee_u env) req of
              None \<Rightarrow> Inl (e, [Reply 400 None])
            | Some (aor, user) \<Rightarrow>
                (let (e1, locked) = aorLockedFor env (\<lambda>i. ck (1 + i)) (fst src) aor e in
                 if locked then Inl (dropSilently env (\<lambda>i. ck (10 + i)) dropRegisterAORLocked req src e1, [])
                 else if hasWildcardContact req \<and> (\<not> snd (requestedExpires (map snd (rq_Contacts req)) (rq_Expires req)) \<or>
                     length (rq_Contacts req) \<noteq> 1)
                 then Inl (e1, [Reply 400 None])
                 else Inr (e1, register_input env (ck 4) newtok req src from aor user (ed_loc e1)))))"

definition register_series :: "edge_env \<Rightarrow> clock \<Rightarrow> string \<Rightarrow> sip_request \<Rightarrow> binding_input \<Rightarrow> (nat \<Rightarrow> attempt) \<Rightarrow> bool \<Rightarrow> edge \<Rightarrow>
    edge \<times> sent list" where
  "register_series env ck tok req inp atts expired e =
     (let names = upstreamDialOrder (ee_u env) (ee_topo env) (bi_user inp) (\<lambda>n. Available (ck 5) n (ed_cooldown e));
          (e1, outs, r) = dial_nodes env tok req inp atts 0 names False e
      in case r of
           None \<Rightarrow> (e1, outs)
         | Some (tried, spent) \<Rightarrow> (let err = (spent \<or> expired) in
             if \<not> tried \<and> \<not> err then (e1, outs @ [Reply 503 (Some registerRetryAfter)])
             else if err then (e1, outs @ [Reply 504 None])
             else (e1, outs @ [Reply 503 None])))"

text \<open>A REGISTER of the switch for a carrier: one exchange, as \<^verbatim>\<open>forwardAndRelay\<close> runs it.\<close>

definition carrier_adapt :: "clock \<Rightarrow> string \<Rightarrow> string \<Rightarrow> string \<Rightarrow> sip_request \<Rightarrow> sip_response \<Rightarrow> carrier_reg_table \<Rightarrow>
    carrier_reg_table \<times> contact_rewrite" where
  "carrier_adapt ck carrier node token req res t =
     (let (requested, unregister) = requestedExpires (map snd (rq_Contacts req)) (rq_Expires req) in
      if \<not> is_2xx res then (t, KeepContacts)
      else if hasWildcardContact req then (creg_removeNode carrier node t, NoContacts)
      else case ContactURI req of
          None \<Rightarrow> (t, KeepContacts)
        | Some orig \<Rightarrow> (let granted = GrantedExpires (rs_Contacts res) (rs_Expires res) requested (\<lambda>c. c_Token c = Some token) in
            if unregister \<or> granted \<le> 0 then (creg_remove token t, OwnContact orig 0)
            else (creg_put \<lparr>cb_token = token, cb_carrier = carrier, cb_node = node, cb_contact = orig,
                cb_expires = t_add (ck 0) granted\<rparr> t, OwnContact orig (granted div second))))"

fun carrier_pump :: "string \<Rightarrow> string \<Rightarrow> string \<Rightarrow> sip_request \<Rightarrow> arrivals \<Rightarrow> carrier_reg_table \<Rightarrow> carrier_reg_table \<times> sent list \<times> bool" where
  "carrier_pump carrier node token req [] t = (t, [], False)"
| "carrier_pump carrier node token req ((ck, res) # rs) t =
     (if \<not> Forwardable res then carrier_pump carrier node token req rs t
      else let (t1, outs) = (if rs_Routable res
             then (let (t1, rw) = carrier_adapt ck carrier node token req res t in (t1, [Relay (rs_Status res) rw])) else (t, []))
        in if rs_Status res \<ge> 200 then (t1, outs, True)
           else let (t2, outs', fin) = carrier_pump carrier node token req rs t1 in (t2, outs @ outs', fin))"

definition registerToCarrier :: "edge_env \<Rightarrow> sip_request \<Rightarrow> addrport \<Rightarrow> string \<Rightarrow> attempt \<Rightarrow> edge \<Rightarrow> edge \<times> sent list" where
  "registerToCarrier env req src carrier a e =
     (case (carrierDest (ee_carriers env) carrier, carrierSide (ee_u env) (ee_topo env) (ee_byName env) carrier,
            switchNodeFor (ee_topo env) src) of
        (Some dest, Some pub, Some node) \<Rightarrow>
          (let wildcard = hasWildcardContact req;
               unregister = snd (requestedExpires (map snd (rq_Contacts req)) (rq_Expires req)) in
           if wildcard \<and> (\<not> unregister \<or> length (rq_Contacts req) \<noteq> 1) then (e, [Reply 400 None])
           else if rq_MaxForwards req = Some 0 then (e, [Reply 483 None])
           else let token = (case ContactURI req of Some orig \<Rightarrow> if \<not> wildcard then ee_carrierToken env node orig else [] | None \<Rightarrow> []);
                    fwd = Forward dest (case ContactURI req of
                        Some orig \<Rightarrow> if \<not> wildcard then Some (carrierContactURI pub (u_User orig) token) else None | None \<Rightarrow> None);
                    failed = Reply (if at_expired a then 504 else 503) None
             in if at_send_failed a then (e, [failed])
                else let (t, outs, fin) = carrier_pump carrier node token req (at_arrivals a) (ed_carrierRegs e)
                  in (e\<lparr>ed_carrierRegs := t\<rparr>, fwd # outs @ (if fin \<or> \<not> at_end_error a then [] else [failed])))
      | _ \<Rightarrow> (e, [Reply 503 None]))"

definition onRegister :: "edge_env \<Rightarrow> clock \<Rightarrow> string \<Rightarrow> string \<Rightarrow> bool \<Rightarrow> sip_request \<Rightarrow> addrport \<Rightarrow> (nat \<Rightarrow> attempt) \<Rightarrow> bool \<Rightarrow> edge \<Rightarrow>
    edge \<times> sent list" where
  "onRegister env ck newtok tok private req src atts expired e =
     (if private then
        (case classifySwitchRequest (ee_u env) (ee_topo env) (ee_uris env) req of
           (targetCarrier, name) \<Rightarrow> registerToCarrier env req src name (atts 0) e
         | _ \<Rightarrow> (e, [Reply 404 None]))
      else case register_admit env ck newtok req src e of
          Inl r \<Rightarrow> r
        | Inr (e1, inp) \<Rightarrow> register_series env ck tok req inp atts expired e1)"

end
