(* ===== verification/Register_Sample.thy ===== *)
theory Register_Sample
  imports Register "HOL-Library.Code_Target_Numeral"
begin

text \<open>
  A run of the REGISTER handler, evaluated. One public UDP side, one upstream node, no carrier; a phone at 0.0.0.7 registers, without a credential, and the node answers 100 and 200.
\<close>

definition sample_side :: side where
  "sample_side = \<lparr>sd_plane = planePublic, sd_transport = ''udp'', advIP = V4 1, advPort = 5060, laddr = None, outbound = True,
     advHost = ''h'', upTransport = ''UDP''\<rparr>"

definition sample_topology :: topology where
  "sample_topology = \<lparr>tp_public = [(''udp'', sample_side)], tp_private = sample_side\<lparr>sd_plane := planePrivate\<rparr>,
     tp_upstreams = [], upstreamNames = [''sw''], publicMediaIP = V4 1, privateMediaIP = V4 2, publicHost = ''h''\<rparr>"

definition sample_env :: edge_env where
  "sample_env = \<lparr>ee_u = ascii_tables,
     ee_shield_env = \<lparr>env_u = ascii_tables, env_fl = id, env_ffrac = (\<lambda>_ _ _. 0), isCarrier = (\<lambda>_. False), vouched = (\<lambda>_ _. False),
       show_addr = (\<lambda>_. []), show_addrport = (\<lambda>_. [])\<rparr>,
     ee_cfg = \<lparr>sc_rate_limit = [], sc_carrier_rate_limit = [], sc_ban = 0, sc_register_ban = [], sc_admission_ban = [],
       sc_register_ban_aor = []\<rparr>,
     ee_carriers = \<lparr>cs_names = [], cs_addrs = [], cs_nets = [], cs_extra = [], cs_transports = []\<rparr>,
     ee_topo = sample_topology, ee_uris = [], ee_byName = [], ee_AllowRegisterAuthMismatch = False, ee_carrierToken = (\<lambda>_ _. [])\<rparr>"

definition sample_edge :: edge where
  "sample_edge = \<lparr>ed_loc = (NewLocation False)\<lparr>maxTotal := 4, maxPerAOR := 2\<rparr>, ed_shield = None, ed_guard = newRegGuard, ed_enum = newEnumLimiter,
     ed_cooldown = newCooldownTable, ed_drops = new_summary, ed_warned = newWarnOnce 4, ed_carrierRegs = []\<rparr>"

definition sample_uri :: uri where
  "sample_uri = \<lparr>u_User = ''bob'', u_Host = ''x'', u_Port = 0, u_Params = []\<rparr>"

definition sample_request :: sip_request where
  "sample_request = \<lparr>rq_Method = ''REGISTER'', rq_Recipient = sample_uri, rq_Transport = ''UDP'', rq_Source = [],
     rq_From = Some sample_uri, rq_To = Some sample_uri, rq_ToTag = [], rq_CallID = ''c'', rq_Branch = None,
     rq_Contacts = [(sample_uri, \<lparr>c_Token = None, c_Params = True, c_Expires = Some ''60'', c_Wildcard = False\<rparr>)], rq_Routes = [],
     rq_Expires = None, rq_Authorization = None, rq_ProxyAuthorization = None, rq_MaxForwards = None\<rparr>"

definition sample_200 :: sip_response where
  "sample_200 = \<lparr>rs_Status = 200, rs_Contacts = [\<lparr>c_Token = Some ''t'', c_Params = True, c_Expires = Some ''60'', c_Wildcard = False\<rparr>],
     rs_Expires = None, rs_WWWAuthenticate = [], rs_ProxyAuthenticate = [], rs_Routable = True\<rparr>"

definition sample_attempts :: "nat \<Rightarrow> attempt" where
  "sample_attempts _ = \<lparr>at_expired = False, at_clock = (\<lambda>_. 1), at_send_failed = False, at_expired_sending = False,
     at_arrivals = [(\<lambda>_. 1, sample_200\<lparr>rs_Status := 100\<rparr>), (\<lambda>_. 1, sample_200)], at_end_error = False\<rparr>"
lemma sample_run: "snd (onRegister sample_env (\<lambda>_. 1) ''t'' ''s'' False sample_request (V4 7, 9) sample_attempts False sample_edge) = 
  [Forward ''sw'' (Some (registeredContact sample_topology ''bob'' ''t'')), Relay 200 (OwnContact sample_uri 60)]"
  by code_simp

text \<open>The table after a REGISTER of the same phone with a credential, and the INVITE that follows it.\<close>

definition sample_auth :: sip_request where
  "sample_auth = sample_request\<lparr>rq_Authorization := Some ''Digest username=\"bob\", nonce=\"n\", response=\"r\"''\<rparr>"

definition sample_registered :: edge where
  "sample_registered = fst (onRegister sample_env (\<lambda>_. 1) ''t'' ''s'' False sample_auth (V4 7, 9) sample_attempts False
     (sample_edge\<lparr>ed_loc := NewLocation False\<rparr>))"

lemma sample_invite:
  "admitPublicInvite sample_env 2 sample_request (V4 7, 9) sample_registered = (srcClient, [])"
  by code_simp

text \<open>A wrong password: the second REGISTER of a source that was challenged, on a server that counts three in a minute.\<close>

definition strike_env :: edge_env where
  "strike_env = sample_env\<lparr>ee_cfg := (ee_cfg sample_env)\<lparr>sc_register_ban := ''3/60s''\<rparr>\<rparr>"

definition strike_head :: register_head where
  "strike_head = head_zero\<lparr>Auth := True, Nonce := ''nonce'', AuthKey := 5\<rparr>"

definition strike_edge :: edge where
  "strike_edge = sample_edge\<lparr>ed_shield := Some new_shield, ed_guard := run_ops guard_step sample_challenge newRegGuard\<rparr>"

lemma sample_strike:
  "map_option (\<lambda>s. sh_offenders s = sh_offenders new_shield)
     (ed_shield (fst (registerStrike strike_env (\<lambda>_. 2) (V4 7, 9) strike_head False strike_edge))) = Some False"
  by code_simp

end
