(* ===== verification/Register_Props.thy ===== *)
theory Register_Props
  imports Register_Sample Location_Props Shield_Props "HOL-Library.Sublist"
begin

text \<open>
  What registration at the edge guarantees. \<open>reg_reach\<close> is every registration table that any
  interleaving of accepted REGISTERs, lost connections and prunes can build, the specification that
  the handler refines; \<open>edge_reach\<close> is what runs of the handler itself build, with the answers the
  nodes sent, and a binding, and with it the right to place calls, always traces back to one. The rest is about
  one run of the handler: it answers once, decides every probe it was allowed, and strikes only for a cause.
\<close>

section \<open>Where bindings come from\<close>

lemma enumKey_unmap [simp]: "enumKey (unmap a) = enumKey a"
  by (simp add: enumKey_def)

text \<open>The binding a successful REGISTER writes, whatever its token and lifetime.\<close>

definition flow_of :: "binding_input \<Rightarrow> string \<times> string \<times> addr" where
  "flow_of inp = (bi_aor inp, bi_callID inp, enumKey (fst (bi_src inp)))"

definition binding_flow :: "binding \<Rightarrow> string \<times> string \<times> addr" where
  "binding_flow b = (b_AOR b, b_CallID b, enumKey (fst (b_Source b)))"

text \<open>
  What the handler gives \<^verbatim>\<open>recordBinding\<close>: a normalised AoR, and a token that is not another flow's.
\<close>

definition input_ok :: "edge_env \<Rightarrow> string \<Rightarrow> binding_input \<Rightarrow> location \<Rightarrow> bool" where
  "input_ok env tok inp l \<longleftrightarrow> to_lower (ee_u env) (bi_aor inp) = bi_aor inp \<and>
     (let t = (if bi_token inp = [] then tok else bi_token inp) in
      case lookup l t of None \<Rightarrow> True | Some c \<Rightarrow> b_AOR c = bi_aor inp \<and> b_CallID c = bi_callID inp)"

inductive reg_reach :: "edge_env \<Rightarrow> location \<Rightarrow> binding_input set \<Rightarrow> bool" for env where
  rr_new: "reg_reach env (NewLocation hook) {}"
| rr_2xx: "reg_reach env l S \<Longrightarrow> input_ok env tok inp l \<Longrightarrow> is_2xx res \<Longrightarrow> rs_Routable res \<Longrightarrow>
    reg_reach env (fst (recordBinding env ck tok res inp l)) (if credentialMatches env inp then insert inp S else S)"
| rr_close: "reg_reach env l S \<Longrightarrow> reg_reach env (fst (removeBySource (ee_u env) tr src l)) S"
| rr_prune: "reg_reach env l S \<Longrightarrow> reg_reach env (fst (Location.Prune now l)) S"

text \<open>Every binding of the table is of a flow that \<open>P\<close> admits.\<close>

definition flows_ok :: "(string \<times> string \<times> addr \<Rightarrow> bool) \<Rightarrow> location \<Rightarrow> bool" where
  "flows_ok P l \<longleftrightarrow> loc_inv l \<and> (\<forall>t b. lookup l t = Some b \<longrightarrow> P (binding_flow b))"

lemma flows_new: "flows_ok P (NewLocation hook)"
  by (simp add: flows_ok_def loc_inv_def NewLocation_def [of hook] loc_ok_new [of hook, unfolded NewLocation_def] lookup_def)

lemma flows_dropped: "flows_ok P l \<Longrightarrow> dropped D l l' toks \<Longrightarrow> flows_ok P l'"
  by (force simp: flows_ok_def dropped_def split: option.splits if_splits)

lemma flows_mono: "flows_ok P l \<Longrightarrow> (\<And>f. P f \<Longrightarrow> Q f) \<Longrightarrow> flows_ok Q l"
  unfolding flows_ok_def by blast

lemma flows_close: "flows_ok P l \<Longrightarrow> flows_ok P (fst (removeBySource u tr src l))"
  using flows_dropped conjunct1 [OF removeBySource_dropped] unfolding flows_ok_def by blast

lemma flows_prune: "flows_ok P l \<Longrightarrow> flows_ok P (fst (Location.Prune now l))"
  using flows_dropped conjunct1 [OF Prune_dropped] unfolding flows_ok_def by blast

lemma flows_remove_all: "flows_ok P l \<Longrightarrow> flows_ok P (remove_all aor bs l)"
proof (induction bs arbitrary: l)
  case (Cons b bs)
  have "loc_inv l" using Cons.prems by (simp add: flows_ok_def)
  from flows_dropped [OF Cons.prems Remove_dropped [OF this]] show ?case
    using Cons.IH [of "fst (Remove aor (b_CallID b) l)"] by (simp add: remove_all_def)
qed (simp add: remove_all_def)

lemma flows_refresh:
  assumes "flows_ok P l" "refreshesBinding env now ip (bi_aor inp) (bi_callID inp) l" "to_lower (ee_u env) (bi_aor inp) = bi_aor inp"
    "enumKey ip = enumKey (fst (bi_src inp))"
  shows "P (flow_of inp)"
proof -
  have ok: "loc_ok l" using assms(1) by (simp add: flows_ok_def loc_inv_def)
  obtain b where b: "b \<in> set (ByAOR (ee_u env) now (bi_aor inp) l)" "b_CallID b = bi_callID inp"
      "enumKey (fst (b_Source b)) = enumKey ip"
    using assms(2) by (auto simp: refreshesBinding_def list_ex_iff)
  then obtain t where t: "lookup l t = Some b" "b_AOR b = bi_aor inp" using ByAOR_set(1) [OF ok] assms(3) by auto
  then have "P (binding_flow b)" using assms(1) unfolding flows_ok_def by blast
  moreover have "binding_flow b = flow_of inp" using b t assms(4) by (simp add: flow_of_def binding_flow_def)
  ultimately show ?thesis by simp
qed

lemma flows_put:
  assumes l: "flows_ok P l" and b: "fresh_put tok b l" and p: "P (binding_flow b)"
  shows "flows_ok P (fst (Put now tok b l))"
proof -
  let ?l1 = "fst (put_locked now tok b l)" and ?sw = "swept now b l"
  have ok: "loc_ok l" using l by (simp add: flows_ok_def loc_inv_def)
  note sp = put_locked_spec [OF ok b, of now]
  have inv: "loc_inv (fst (Put now tok b l))" using Put_inv [OF _ b] l by (simp add: flows_ok_def)
  have lk: "lookup (fst (Put now tok b l)) = lookup ?l1"
    by (simp add: Put_def Let_def case_prod_beta flushRemoved_def)
  have sw: "lookup ?sw t = Some c \<Longrightarrow> lookup l t = Some c" for t c
    using dropsD(7) [OF pruneAOR_drops(1) [OF ok, of "b_AOR b" now], of t] by (auto split: option.splits if_splits)
  have "P (binding_flow c)" if c: "lookup ?l1 t = Some c" for t c
  proof (cases "snd (put_locked now tok b l)")
    case (Inl s)
    then have "lookup l t = Some c" using sp c sw by auto
    then show ?thesis using l by (auto simp: flows_ok_def)
  next
    case (Inr q)
    then obtain t' where "lookup ?l1 = (lookup ?sw)(t' \<mapsto> b\<lparr>b_Token := t'\<rparr>)" using sp by auto
    then have "c = b\<lparr>b_Token := t'\<rparr> \<or> lookup l t = Some c" using c sw by (auto split: if_splits)
    then show ?thesis using l p by (auto simp: flows_ok_def binding_flow_def)
  qed
  then show ?thesis using inv lk by (simp add: flows_ok_def)
qed

lemma flows_record:
  assumes l: "flows_ok P l" and ok: "input_ok env tok inp l"
    and new: "credentialMatches env inp \<Longrightarrow> bi_hasContact inp \<Longrightarrow> P (flow_of inp)"
  shows "flows_ok P (fst (recordBinding env ck tok res inp l))"
proof -
  have inv: "loc_inv l" using l by (simp add: flows_ok_def)
  show ?thesis
  proof (cases "bi_wildcard inp \<or> \<not> bi_hasContact inp")
    case True
    then show ?thesis using l flows_remove_all [OF l] by (auto simp: recordBinding_def)
  next
    case False
    let ?g = "GrantedExpires (rs_Contacts res) (rs_Expires res) (bi_requested inp) (\<lambda>c. c_Token c = Some (bi_token inp))"
    let ?b = "\<lparr>b_Token = bi_token inp, b_AOR = bi_aor inp, b_User = bi_user inp, b_Transport = bi_transport inp,
      b_Source = bi_src inp, b_ExpiresAt = t_add (ck 2) ?g, b_CallID = bi_callID inp\<rparr>"
    have "flows_ok P (fst (Remove (bi_aor inp) (bi_callID inp) l))"
      using flows_dropped [OF l Remove_dropped [OF inv]] .
    moreover have "flows_ok P (fst (Put (ck 3) tok ?b l))" if pr: "bindingProof env (ck 1) inp l = None"
    proof (rule flows_put [OF l])
      show "fresh_put tok ?b l" using ok by (auto simp: fresh_put_def input_ok_def Let_def split: option.splits)
      have "binding_flow ?b = flow_of inp" by (simp add: binding_flow_def flow_of_def)
      moreover have "P (flow_of inp)"
      proof (cases "credentialMatches env inp")
        case True
        then show ?thesis using new False by simp
      next
        case c: False
        then have "refreshesBinding env (ck 1) (unmap (fst (bi_src inp))) (bi_aor inp) (bi_callID inp) l"
          using pr by (auto simp: bindingProof_def split: if_splits)
        then show ?thesis using flows_refresh [OF l] ok by (auto simp: input_ok_def)
      qed
      ultimately show "P (binding_flow ?b)" by simp
    qed
    ultimately show ?thesis using False l by (simp add: recordBinding_def Let_def)
  qed
qed

definition proven :: "edge_env \<Rightarrow> binding_input set \<Rightarrow> location \<Rightarrow> bool" where
  "proven env S = flows_ok (\<lambda>f. \<exists>inp \<in> S. credentialMatches env inp \<and> bi_hasContact inp \<and> flow_of inp = f)"

lemma reg_reach_proven: "reg_reach env l S \<Longrightarrow> proven env S l"
proof (induction rule: reg_reach.induct)
  case (rr_2xx l S tok inp res ck)
  let ?T = "if credentialMatches env inp then insert inp S else S"
  have "flows_ok (\<lambda>f. \<exists>inp \<in> ?T. credentialMatches env inp \<and> bi_hasContact inp \<and> flow_of inp = f) l"
    using rr_2xx.IH unfolding proven_def by (rule flows_mono) (auto split: if_splits)
  from flows_record [OF this rr_2xx.hyps(2)] show ?case unfolding proven_def by auto
qed (auto simp: proven_def flows_new flows_close flows_prune)

section \<open>One run of the handler\<close>

lemma registerStrike_frame [simp]:
  "ed_loc (fst (registerStrike env ck src head replay e)) = ed_loc e"
  "ed_cooldown (fst (registerStrike env ck src head replay e)) = ed_cooldown e"
  "ed_enum (fst (registerStrike env ck src head replay e)) = ed_enum e"
  "ed_drops (fst (registerStrike env ck src head replay e)) = ed_drops e"
  "ed_carrierRegs (fst (registerStrike env ck src head replay e)) = ed_carrierRegs e"
  by (simp_all add: registerStrike_def Let_def case_prod_beta split: option.split)

lemma registerOutcome_frame [simp]:
  "ed_loc (registerOutcome env ck inp res e) = ed_loc e"
  "ed_cooldown (registerOutcome env ck inp res e) = ed_cooldown e"
  "ed_drops (registerOutcome env ck inp res e) = ed_drops e"
  by (simp_all add: registerOutcome_def Let_def case_prod_beta split: option.split)

lemma judge_final_frame [simp]:
  "ed_loc (judge_final env ck inp res e) = ed_loc e" "ed_cooldown (judge_final env ck inp res e) = ed_cooldown e"
  by (simp_all add: judge_final_def Let_def)

lemma relay_2xx_frame [simp]:
  "ed_loc (fst (relay_2xx env ck tok res inp e)) = fst (recordBinding env ck tok res inp (ed_loc e))"
  "ed_cooldown (fst (relay_2xx env ck tok res inp e)) = ed_cooldown e"
  by (simp_all add: relay_2xx_def Let_def case_prod_beta split: option.split)

lemma aorLockedFor_frame [simp]:
  "ed_loc (fst (aorLockedFor env ck src aor e)) = ed_loc e" "ed_cooldown (fst (aorLockedFor env ck src aor e)) = ed_cooldown e"
  by (simp_all add: aorLockedFor_def Let_def case_prod_beta split: option.split)

lemma admissionStrike_frame [simp]:
  "ed_loc (admissionStrike env ck ip tr e) = ed_loc e" "ed_cooldown (admissionStrike env ck ip tr e) = ed_cooldown e"
  "ed_drops (admissionStrike env ck ip tr e) = ed_drops e" "ed_guard (admissionStrike env ck ip tr e) = ed_guard e"
  by (simp_all add: admissionStrike_def Let_def split: option.split)

lemma dropSilently_frame [simp]:
  "ed_loc (dropSilently env ck r req src e) = ed_loc e" "ed_cooldown (dropSilently env ck r req src e) = ed_cooldown e"
  "ed_guard (dropSilently env ck r req src e) = ed_guard e"
  by (simp_all add: dropSilently_def Let_def)

text \<open>What a handler sends that answers the request.\<close>

fun is_final :: "sent \<Rightarrow> bool" where
  "is_final (Relay code _) = (code \<ge> 200)"
| "is_final (Reply _ _) = True"
| "is_final (Forward _ _) = False"

fun is_forward :: "sent \<Rightarrow> bool" where
  "is_forward (Forward _ _) = True"
| "is_forward _ = False"

text \<open>The registration table changes at most by the record of one routable 2xx of the exchange.\<close>

definition recorded :: "edge_env \<Rightarrow> string \<Rightarrow> binding_input \<Rightarrow> arrivals \<Rightarrow> location \<Rightarrow> location \<Rightarrow> bool" where
  "recorded env tok inp rs l l' \<longleftrightarrow> l' = l \<or>
     (\<exists>ck res. (ck, res) \<in> set rs \<and> is_2xx res \<and> rs_Routable res \<and> l' = fst (recordBinding env (\<lambda>i. ck (10 + i)) tok res inp l))"

lemma recorded_cons: "recorded env tok inp rs l l' \<Longrightarrow> recorded env tok inp (r # rs) l l'"
  unfolding recorded_def by auto

lemma pumpRegister_spec:
  assumes "pumpRegister env tok inp rs e = (e', outs, fin, resp)"
  shows "ed_cooldown e' = ed_cooldown e \<and> recorded env tok inp rs (ed_loc e) (ed_loc e') \<and> filter is_forward outs = [] \<and>
    (case fin of None \<Rightarrow> filter is_final outs = [] \<and> ed_loc e' = ed_loc e
     | Some res \<Rightarrow> resp \<and> rs_Status res \<ge> 200 \<and> rs_Routable res \<and> res \<in> snd ` set rs \<and>
         (\<exists>rw pre. outs = pre @ [Relay (rs_Status res) rw] \<and> filter is_final pre = []))"
  using assms
proof (induction env tok inp rs e arbitrary: e' outs fin resp rule: pumpRegister.induct)
  case (2 env tok inp ck res rs e)
  let ?final = "rs_Status res \<ge> 200"
  let ?e1 = "if ?final then judge_final env ck inp res e else e"
  have e1: "ed_cooldown ?e1 = ed_cooldown e" "ed_loc ?e1 = ed_loc e" by simp_all
  consider (skip) "\<not> Forwardable res" | (unroutable) "Forwardable res" "\<not> rs_Routable res"
    | (final) "Forwardable res" "rs_Routable res" ?final | (provisional) "Forwardable res" "rs_Routable res" "\<not> ?final" by blast
  then show ?case
  proof cases
    case skip
    then have "pumpRegister env tok inp rs e = (e', outs, fin, resp)" using 2(4) by simp
    from 2(1) [OF skip this] show ?thesis by (auto simp: recorded_cons split: option.splits)
  next
    case unroutable
    obtain e2 o2 f2 r2 where p: "pumpRegister env tok inp rs ?e1 = (e2, o2, f2, r2)" by (metis prod_cases4)
    have "(e', outs, fin, resp) = (e2, o2, f2, True)" using 2(4) unroutable p by (simp add: Let_def)
    then show ?thesis using 2(2) [OF _ refl refl unroutable(2) p] unroutable e1 by (auto simp: recorded_cons split: option.splits)
  next
    case final
    show ?thesis
    proof (cases "is_2xx res")
      case True
      obtain e2 rw where p: "relay_2xx env (\<lambda>i. ck (10 + i)) tok res inp (judge_final env ck inp res e) = (e2, rw)"
        by (metis surj_pair)
      have eq: "(e', outs, fin, resp) = (e2, [Relay (rs_Status res) rw], Some res, True)"
        using 2(4) final True p by simp
      have "e2 = fst (relay_2xx env (\<lambda>i. ck (10 + i)) tok res inp (judge_final env ck inp res e))" using p by simp
      then have "ed_cooldown e2 = ed_cooldown e \<and> recorded env tok inp ((ck, res) # rs) (ed_loc e) (ed_loc e2)"
        using True final unfolding recorded_def by auto
      then show ?thesis using eq final by auto
    next
      case False
      have "(e', outs, fin, resp) = (judge_final env ck inp res e, [Relay (rs_Status res) KeepContacts], Some res, True)"
        using 2(4) final False by simp
      then show ?thesis using final by (auto simp: recorded_def)
    qed
  next
    case provisional
    obtain e3 o3 f3 r3 where p: "pumpRegister env tok inp rs e = (e3, o3, f3, r3)" by (metis prod_cases4)
    have eq: "(e', outs, fin, resp) = (e3, Relay (rs_Status res) KeepContacts # o3, f3, True)"
      using 2(4) provisional p by (simp add: Let_def)
    from 2(3) [where x = False and xa = e and xb = "(e, KeepContacts)" and xaa = e and y = KeepContacts and e' = e3
        and outs = o3 and fin = f3 and resp = r3] provisional p
    have ih: "ed_cooldown e3 = ed_cooldown e \<and> recorded env tok inp rs (ed_loc e) (ed_loc e3) \<and> filter is_forward o3 = [] \<and>
      (case f3 of None \<Rightarrow> filter is_final o3 = [] \<and> ed_loc e3 = ed_loc e
       | Some res \<Rightarrow> r3 \<and> rs_Status res \<ge> 200 \<and> rs_Routable res \<and> res \<in> snd ` set rs \<and>
         (\<exists>rw pre. o3 = pre @ [Relay (rs_Status res) rw] \<and> filter is_final pre = []))" by simp
    show ?thesis
    proof (cases f3)
      case None
      then show ?thesis using eq ih provisional by (simp add: recorded_def)
    next
      case (Some r)
      then obtain rw pre where pre: "o3 = pre @ [Relay (rs_Status r) rw]" "filter is_final pre = []" using ih by auto
      then have "Relay (rs_Status res) KeepContacts # o3 = (Relay (rs_Status res) KeepContacts # pre) @ [Relay (rs_Status r) rw]"
        "filter is_final (Relay (rs_Status res) KeepContacts # pre) = []" using provisional by simp_all
      then show ?thesis using eq ih Some by (auto simp: recorded_cons)
    qed
  qed
qed (auto simp: recorded_def)

text \<open>Every probe a run was allowed is decided: no breaker waits for it any more.\<close>

definition settled :: "cooldown_table \<Rightarrow> cooldown_table \<Rightarrow> bool" where
  "settled h h' \<longleftrightarrow> (\<forall>n b'. m_get (cd_reg h') n = Some b' \<longrightarrow>
     rb_probeBy b' = t_zero \<or> (\<exists>b. m_get (cd_reg h) n = Some b \<and> rb_probeBy b' = rb_probeBy b))"

lemma settled_refl [simp]: "settled h h"
  by (simp add: settled_def)

lemma settled_trans: "settled h h1 \<Longrightarrow> settled h1 h2 \<Longrightarrow> settled h h2"
  unfolding settled_def by metis

lemma allow_settled:
  assumes "RegisterAllow now name d h = (h1, True, probe)"
  shows "settled h (RegisterAnswered name h1)" "settled h (RegisterAnswered name (Recover name h1))"
    "settled h (fst (RegisterUnanswered t name probe (Penalize t' name c h1)))"
    "settled h (if probe then RegisterRelease name h1 else h1)"
  using assms
  by (auto simp: settled_def RegisterAllow_def RegisterAnswered_def RegisterRelease_def RegisterUnanswered_def Recover_def Penalize_def
      Let_def new_breaker_def registerBreakerThreshold_def split: option.splits if_splits)

lemma refused_same: "RegisterAllow now name d h = (h1, False, probe) \<Longrightarrow> h1 = h"
  by (auto simp: RegisterAllow_def split: option.splits if_splits)

definition forward_contact :: "edge_env \<Rightarrow> binding_input \<Rightarrow> uri option" where
  "forward_contact env inp = (if bi_hasContact inp \<and> \<not> bi_wildcard inp
     then Some (registeredContact (ee_topo env) (bi_user inp) (bi_token inp)) else None)"

text \<open>What one node does to the series.\<close>

lemma dial_cases:
  assumes "dial_nodes env tok req inp atts i (n # ns) tried e = (e', outs, r)"
  obtains (spent) "at_expired (atts i)" "e' = e" "outs = []" "r = Some (tried, True)"
  | (refused) "\<not> fst (snd (RegisterAllow (at_clock (atts i) 0) n registerTimeout (ed_cooldown e)))"
      "dial_nodes env tok req inp atts (i + 1) ns tried e = (e', outs, r)"
  | (stopped) "ed_loc e' = ed_loc e" "settled (ed_cooldown e) (ed_cooldown e')"
      "outs = [] \<and> r = Some (True, True) \<or> outs = [Reply 483 None] \<and> r = None"
  | (answered) pre x where "outs = Forward n (forward_contact env inp) # pre @ [x]" "is_final x" "\<forall>c s. x \<noteq> Reply c (Some s)" "filter is_final pre = []"
      "filter is_forward (pre @ [x]) = []" "r = None" "recorded env tok inp (at_arrivals (atts i)) (ed_loc e) (ed_loc e')"
      "settled (ed_cooldown e) (ed_cooldown e')"
  | (failed) e1 outs1 outs2 where "outs = outs1 @ outs2" "filter is_final outs1 = []"
      "filter is_forward outs1 = [] \<or> filter is_forward outs1 = [Forward n (forward_contact env inp)]"
      "ed_loc e1 = ed_loc e" "settled (ed_cooldown e) (ed_cooldown e1)"
      "dial_nodes env tok req inp atts (i + 1) ns True e1 = (e', outs2, r)"
proof -
  let ?a = "atts i"
  obtain h1 allow probe where al: "RegisterAllow (at_clock ?a 0) n registerTimeout (ed_cooldown e) = (h1, allow, probe)"
    by (metis prod_cases3)
  let ?e1 = "e\<lparr>ed_cooldown := h1\<rparr>"
  consider "at_expired ?a" | (r) "\<not> at_expired ?a" "\<not> allow" | (go) "\<not> at_expired ?a" allow by blast
  then show ?thesis
  proof cases
    case 1
    then show ?thesis using assms spent by simp
  next
    case r
    then have "h1 = ed_cooldown e" using al refused_same by simp
    then have "?e1 = e" by simp
    then show ?thesis using assms r refused al by simp
  next
    case go
    note st = allow_settled [OF al [unfolded eqTrueI [OF go(2)]]]
    show ?thesis
    proof (cases "rq_MaxForwards req = Some 0")
      case True
      then have "e' = release_probe n probe ?e1" "outs = [Reply 483 None]" "r = None" using assms go al by simp_all
      then show ?thesis using stopped st(4) by (simp add: release_probe_def split: if_splits)
    next
      case mf: False
      show ?thesis
      proof (cases "at_send_failed ?a")
        case True
        show ?thesis
        proof (cases "at_expired_sending ?a")
          case exp: True
          then have "e' = release_probe n probe ?e1" "outs = []" "r = Some (True, True)" using assms go al mf True by simp_all
          then show ?thesis using stopped st(4) by (simp add: release_probe_def split: if_splits)
        next
          case False
          then have "dial_nodes env tok req inp atts (i + 1) ns True (node_unanswered (at_clock ?a) n probe ?e1) = (e', outs, r)"
            using assms go al mf True by simp
          then show ?thesis using st(3) by (intro failed [of "[]" outs "node_unanswered (at_clock ?a) n probe ?e1"])
              (simp_all add: node_unanswered_def)
        qed
      next
        case sent: False
        obtain e2 o2 fin resp where p: "pumpRegister env tok inp (at_arrivals ?a) ?e1 = (e2, o2, fin, resp)" by (metis prod_cases4)
        note sp = pumpRegister_spec [OF p]
        show ?thesis
        proof (cases fin)
          case (Some res)
          then obtain rw pre where pre: "o2 = pre @ [Relay (rs_Status res) rw]" "filter is_final pre = []" "rs_Status res \<ge> 200"
            using sp by auto
          have "e' = e2\<lparr>ed_cooldown := RegisterAnswered n (Recover n (ed_cooldown e2))\<rparr>"
            "outs = Forward n (forward_contact env inp) # o2" "r = None"
            using assms go al mf sent p Some by (simp_all add: forward_contact_def)
          then show ?thesis using answered [of pre "Relay (rs_Status res) rw"] pre sp st(2) by simp
        next
          case None
          let ?e3 = "if resp then e2\<lparr>ed_cooldown := RegisterAnswered n (ed_cooldown e2)\<rparr> else node_unanswered (at_clock ?a) n probe e2"
          obtain e4 o4 r4 where d: "dial_nodes env tok req inp atts (i + 1) ns True ?e3 = (e4, o4, r4)" by (metis prod_cases3)
          have eq: "(e', outs, r) = (e4, (Forward n (forward_contact env inp) # o2) @ o4, r4)"
            using assms go al mf sent p None d by (simp add: forward_contact_def)
          have "settled (ed_cooldown e) (ed_cooldown ?e3)" using sp st(1,3) by (simp add: node_unanswered_def)
          moreover have "ed_loc ?e3 = ed_loc e" using sp None by (simp add: node_unanswered_def)
          ultimately show ?thesis
            using failed [of "Forward n (forward_contact env inp) # o2" o4 ?e3] eq d sp None by simp
        qed
      qed
    qed
  qed
qed

text \<open>The whole series: the nodes tried are some of the dial order, in its order, and the first final answer ends it.\<close>

lemma dial_spec:
  assumes "dial_nodes env tok req inp atts i ns tried e = (e', outs, r)"
  shows "\<exists>ms. subseq ms ns \<and> filter is_forward outs = map (\<lambda>n. Forward n (forward_contact env inp)) ms"
    and "settled (ed_cooldown e) (ed_cooldown e')"
    and "ed_loc e' = ed_loc e \<or> (\<exists>k. recorded env tok inp (at_arrivals (atts k)) (ed_loc e) (ed_loc e'))"
    and "case r of None \<Rightarrow> \<exists>pre x. outs = pre @ [x] \<and> is_final x \<and> (\<forall>c s. x \<noteq> Reply c (Some s)) \<and> filter is_final pre = []
      | Some _ \<Rightarrow> filter is_final outs = []"
  using assms
proof (induction ns arbitrary: i tried e e' outs r)
  case Nil
  {
    case 1
    then show ?case by simp
  next
    case 2
    then show ?case by simp
  next
    case 3
    then show ?case by simp
  next
    case 4
    then show ?case by auto
  }
next
  case (Cons n ns)
  have mono: "subseq ms ns \<Longrightarrow> subseq ms (n # ns)" for ms by (rule subseq_order.order_trans [OF _ subseq_Cons']) auto
  {
    case 1
    then show ?case
    proof (cases rule: dial_cases)
      case refused
      then show ?thesis using Cons.IH(1) mono by blast
    next
      case (failed e1 outs1 outs2)
      obtain ms where ms: "subseq ms ns" "filter is_forward outs2 = map (\<lambda>n. Forward n (forward_contact env inp)) ms"
        using Cons.IH(1) [OF failed(6)] by blast
      then show ?thesis using failed(1,3) mono [OF ms(1)]
        by (elim disjE) (force intro: exI [of _ ms], force intro: exI [of _ "n # ms"])
    qed (auto intro: exI [of _ "[]"] exI [of _ "[n]"])
  next
    case 2
    then show ?case
    proof (cases rule: dial_cases)
      case refused
      then show ?thesis using Cons.IH(2) by blast
    next
      case failed
      then show ?thesis using Cons.IH(2) settled_trans by blast
    qed auto
  next
    case 3
    then show ?case
    proof (cases rule: dial_cases)
      case refused
      then show ?thesis using Cons.IH(3) by blast
    next
      case failed
      then show ?thesis using Cons.IH(3) by metis
    qed auto
  next
    case 4
    then show ?case
    proof (cases rule: dial_cases)
      case refused
      then show ?thesis using Cons.IH(4) by blast
    next
      case (answered pre x)
      then show ?thesis by (auto intro!: exI [of _ "Forward n (forward_contact env inp) # pre"])
    next
      case (failed e1 outs1 outs2)
      have "case r of None \<Rightarrow> \<exists>pre x. outs2 = pre @ [x] \<and> is_final x \<and> (\<forall>c s. x \<noteq> Reply c (Some s)) \<and> filter is_final pre = []
          | Some _ \<Rightarrow> filter is_final outs2 = []"
        by (rule Cons.IH(4) [OF failed(6)])
      then show ?thesis using failed(1,2)
        by (auto split: option.splits)
    qed auto
  }
qed

lemma dial_untried:
  assumes "dial_nodes env tok req inp atts i ns tried e = (e', outs, Some (False, sp))"
  shows "outs = [] \<and> e' = e \<and> \<not> tried \<and> (\<not> sp \<longrightarrow> (\<forall>j < length ns.
    \<not> fst (snd (RegisterAllow (at_clock (atts (i + j)) 0) (ns ! j) registerTimeout (ed_cooldown e)))))"
  using assms
proof (induction ns arbitrary: i)
  case (Cons n ns)
  obtain h1 allow probe where al: "RegisterAllow (at_clock (atts i) 0) n registerTimeout (ed_cooldown e) = (h1, allow, probe)"
    by (metis prod_cases3)
  have tr: "dial_nodes env tok req inp atts i ns True e = (e', outs, Some (False, sp)) \<Longrightarrow> False" for i ns e outs
  proof (induction ns arbitrary: i e outs)
    case (Cons n ns)
    from Cons.prems show ?case by (cases rule: dial_cases) (use Cons.IH in \<open>auto\<close>)
  qed simp
  from Cons.prems show ?case
  proof (cases rule: dial_cases)
    case refused
    then show ?thesis using Cons.IH [OF refused(2)] by (auto simp: nth_Cons split: nat.splits)
  next
    case failed
    then show ?thesis using tr by blast
  qed auto
qed simp

section \<open>The handler keeps the registration table reachable\<close>

lemma existing_token_ok:
  assumes l: "loc_ok l" and low: "to_lower (ee_u env) aor = aor" and old: "existingToken env now aor callID l = t" "t \<noteq> []"
  shows "\<exists>b. lookup l t = Some b \<and> b_AOR b = aor \<and> b_CallID b = callID"
proof -
  obtain b where b: "find (\<lambda>b. b_CallID b = callID) (ByAOR (ee_u env) now aor l) = Some b" "b_Token b = t"
    using old by (auto simp: existingToken_def split: option.splits)
  then have "b \<in> set (ByAOR (ee_u env) now aor l)" "b_CallID b = callID" by (auto simp: find_Some_iff)
  then obtain t' where t': "lookup l t' = Some b" "b_AOR b = aor" using ByAOR_set(1) [OF l] low by auto
  then have "b_Token b = t'" by (auto simp: lookup_Some [OF l])
  then have "t' = t" using b(2) by simp
  then show ?thesis using t' \<open>b_CallID b = callID\<close> by blast
qed

lemma register_input_ok:
  assumes l: "loc_ok l" and low: "to_lower (ee_u env) aor = aor" and fresh: "lookup l newtok = None" "lookup l tok = None"
  shows "input_ok env tok (register_input env now newtok req src frm aor user l) l"
proof -
  let ?old = "existingToken env now aor (rq_CallID req) l"
  have "?old \<noteq> [] \<Longrightarrow> \<exists>b. lookup l ?old = Some b \<and> b_AOR b = aor \<and> b_CallID b = rq_CallID req"
    using existing_token_ok [OF l low] by simp
  then show ?thesis using low fresh by (auto simp: input_ok_def register_input_def Let_def case_prod_beta split: option.split)
qed

lemma register_admit_loc:
  "register_admit env ck newtok req src e = Inl (e', outs) \<Longrightarrow> ed_loc e' = ed_loc e"
  "register_admit env ck newtok req src e = Inr (e', inp) \<Longrightarrow> ed_loc e' = ed_loc e \<and>
     (\<exists>frm aor user. aorOf (ee_u env) req = Some (aor, user) \<and> inp = register_input env (ck 4) newtok req src frm aor user (ed_loc e))"
  by (auto simp: register_admit_def case_prod_beta Let_def split: if_splits option.splits)

lemma register_series_loc:
  assumes "register_series env ck tok req inp atts expired e = (e', outs)"
  shows "ed_loc e' = ed_loc e \<or> (\<exists>k. recorded env tok inp (at_arrivals (atts k)) (ed_loc e) (ed_loc e'))"
proof -
  let ?ns = "upstreamDialOrder (ee_u env) (ee_topo env) (bi_user inp) (\<lambda>n. Available (ck 5) n (ed_cooldown e))"
  obtain e2 outs2 r where d: "dial_nodes env tok req inp atts 0 ?ns False e = (e2, outs2, r)" by (metis prod_cases3)
  have "e' = e2" using assms d by (auto simp: register_series_def Let_def split: option.splits prod.splits if_splits)
  then show ?thesis using dial_spec(3) [OF d] by simp
qed

lemma registerToCarrier_loc: "ed_loc (fst (registerToCarrier env req src name a e)) = ed_loc e"
  by (simp add: registerToCarrier_def Let_def case_prod_beta split: option.split)

text \<open>A handler run writes the table at most by recording one routable 2xx that a public REGISTER was answered with.\<close>

lemma onRegister_record:
  assumes run: "onRegister env ck newtok tok private req src atts expired e = (e', outs)" and changed: "ed_loc e' \<noteq> ed_loc e"
  obtains k ck' res frm aor user where "\<not> private" "(ck', res) \<in> set (at_arrivals (atts k))" "is_2xx res" "rs_Routable res"
    "aorOf (ee_u env) req = Some (aor, user)"
    "ed_loc e' = fst (recordBinding env (\<lambda>i. ck' (10 + i)) tok res (register_input env (ck 4) newtok req src frm aor user (ed_loc e)) (ed_loc e))"
proof -
  have pub: "\<not> private"
  proof
    assume "private"
    then have "ed_loc (fst (onRegister env ck newtok tok private req src atts expired e)) = ed_loc e"
      using registerToCarrier_loc by (simp add: onRegister_def case_prod_beta split: switch_target.split)
    then show False using run changed by simp
  qed
  show thesis
  proof (cases "register_admit env ck newtok req src e")
    case (Inl r)
    then have "register_admit env ck newtok req src e = Inl (e', outs)" using pub run by (simp add: onRegister_def)
    from register_admit_loc(1) [OF this] show ?thesis using changed by simp
  next
    case (Inr r)
    then obtain e1 inp where ad: "register_admit env ck newtok req src e = Inr (e1, inp)" by (cases r) simp
    obtain frm aor user where a: "ed_loc e1 = ed_loc e" "aorOf (ee_u env) req = Some (aor, user)"
        "inp = register_input env (ck 4) newtok req src frm aor user (ed_loc e)"
      using register_admit_loc(2) [OF ad] by blast
    have "register_series env ck tok req inp atts expired e1 = (e', outs)" using run ad pub by (simp add: onRegister_def)
    from register_series_loc [OF this] show ?thesis
      using changed pub a that unfolding recorded_def by metis
  qed
qed

lemma aorOf_lower:
  "aorOf (ee_u env) req = Some (aor, user) \<Longrightarrow> (\<And>s. to_lower (ee_u env) (to_lower (ee_u env) s) = to_lower (ee_u env) s) \<Longrightarrow>
    to_lower (ee_u env) aor = aor"
  by (auto simp: aorOf_def NormalizeAOR_def split: option.splits if_splits)

lemma register_input_fields [simp]:
  "bi_src (register_input env now newtok req src frm aor user l) = src"
  "bi_callID (register_input env now newtok req src frm aor user l) = rq_CallID req"
  "bi_aor (register_input env now newtok req src frm aor user l) = aor"
  "bi_user (register_input env now newtok req src frm aor user l) = user"
  "bi_clientContact (register_input env now newtok req src frm aor user l) = ContactURI req"
  "bi_head (register_input env now newtok req src frm aor user l) = registerHead env req aor"
  by (simp_all add: register_input_def Let_def case_prod_beta)

section \<open>Every table the edge can build\<close>

text \<open>What a public REGISTER was, and what it was answered: the environment, the request, its source, a response.\<close>

type_synonym answer = "edge_env \<times> sip_request \<times> addrport \<times> sip_response"

definition heard :: "edge_env \<Rightarrow> sip_request \<Rightarrow> addrport \<Rightarrow> (nat \<Rightarrow> attempt) \<Rightarrow> answer set" where
  "heard env req src atts = {(env, req, src, res) | ck res k. (ck, res) \<in> set (at_arrivals (atts k))}"

text \<open>
  The tables that runs of the handler, lost connections and prunes build in any order, with every answer
  the nodes sent to a public REGISTER. Configuration, carriers and topology may change between runs.
\<close>

inductive edge_reach :: "unicode \<Rightarrow> location \<Rightarrow> answer set \<Rightarrow> bool" for u where
  er_new: "edge_reach u (NewLocation hook) {}"
| er_register: "edge_reach u (ed_loc e) A \<Longrightarrow> ee_u env = u \<Longrightarrow> lookup (ed_loc e) newtok = None \<Longrightarrow> lookup (ed_loc e) tok = None \<Longrightarrow>
    edge_reach u (ed_loc (fst (onRegister env ck newtok tok priv req src atts expired e))) (if priv then A else A \<union> heard env req src atts)"
| er_close: "edge_reach u l A \<Longrightarrow> edge_reach u (fst (removeBySource u tr src l)) A"
| er_prune: "edge_reach u l A \<Longrightarrow> edge_reach u (fst (Location.Prune now l)) A"

text \<open>An answer that accepts a REGISTER of \<open>aor\<close> with a credential of that very user.\<close>

definition accepts :: "answer \<Rightarrow> string \<Rightarrow> bool" where
  "accepts x aor \<longleftrightarrow> (case x of (env, req, src, res) \<Rightarrow> is_2xx res \<and> rs_Routable res \<and> ContactURI req \<noteq> None \<and>
     (\<exists>user. aorOf (ee_u env) req = Some (aor, user) \<and> (let h = registerHead env req aor in
        Auth h \<and> (ee_AllowRegisterAuthMismatch env \<or> rh_User h \<noteq> [] \<and> equal_fold (ee_u env) (rh_User h) user))))"

definition vouched_flow :: "answer set \<Rightarrow> string \<times> string \<times> addr \<Rightarrow> bool" where
  "vouched_flow A f \<longleftrightarrow> (\<exists>env req src res. (env, req, src, res) \<in> A \<and> accepts (env, req, src, res) (fst f) \<and>
     f = (fst f, rq_CallID req, enumKey (fst src)))"

lemma vouched_mono: "vouched_flow A f \<Longrightarrow> A \<subseteq> B \<Longrightarrow> vouched_flow B f"
  unfolding vouched_flow_def by blast

lemma edge_reach_vouched:
  assumes "edge_reach u l A" and idem: "\<And>s. to_lower u (to_lower u s) = to_lower u s"
  shows "flows_ok (vouched_flow A) l"
  using assms(1)
proof (induction rule: edge_reach.induct)
  case (er_register e A env newtok tok ck priv req src atts expired)
  let ?A = "if priv then A else A \<union> heard env req src atts"
  obtain e' outs where run: "onRegister env ck newtok tok priv req src atts expired e = (e', outs)" by fastforce
  have old: "flows_ok (vouched_flow ?A) (ed_loc e)"
    by (rule flows_mono [OF er_register.IH]) (erule vouched_mono, simp)
  have "flows_ok (vouched_flow ?A) (ed_loc e')"
  proof (cases "ed_loc e' = ed_loc e")
    case False
    from run False show ?thesis
    proof (rule onRegister_record)
      fix k ck' res frm aor user
      let ?inp = "register_input env (ck 4) newtok req src frm aor user (ed_loc e)"
      assume h: "\<not> priv" "(ck', res) \<in> set (at_arrivals (atts k))" "is_2xx res" "rs_Routable res"
        "aorOf (ee_u env) req = Some (aor, user)" "ed_loc e' = fst (recordBinding env (\<lambda>i. ck' (10 + i)) tok res ?inp (ed_loc e))"
      have ok: "loc_ok (ed_loc e)" using old by (simp add: flows_ok_def loc_inv_def)
      have low: "to_lower (ee_u env) aor = aor" using aorOf_lower [OF h(5)] idem er_register.hyps(2) by simp
      have "vouched_flow ?A (flow_of ?inp)" if "credentialMatches env ?inp" "bi_hasContact ?inp"
      proof -
        have "(env, req, src, res) \<in> ?A" using h(1,2) by (auto simp: heard_def)
        moreover have "accepts (env, req, src, res) aor"
          using that h by (auto simp: accepts_def credentialMatches_def bi_hasContact_def Let_def split: if_splits)
        ultimately show ?thesis unfolding vouched_flow_def
          by (intro exI [of _ env] exI [of _ req] exI [of _ src] exI [of _ res]) (simp add: flow_of_def)
      qed
      from flows_record [OF old register_input_ok [OF ok low er_register.hyps(3,4)] this] show ?thesis by (simp add: h(6))
    qed
  qed (simp add: old)
  then show ?case using run by simp
qed (auto simp: flows_new flows_close flows_prune)

text \<open>A REGISTER without a Contact, a query, gets the registrar's own list of Contacts back.\<close>

lemma query_keeps_contacts:
  "bi_clientContact inp = None \<Longrightarrow> \<not> bi_wildcard inp \<Longrightarrow> snd (relay_2xx env ck tok res inp e) = KeepContacts"
  by (simp add: relay_2xx_def case_prod_beta)

section \<open>Properties\<close>

lemma register_answered_once_parts:
  assumes "onRegister env ck newtok tok False req src atts expired e = (e', outs)"
  shows "outs = [] \<longleftrightarrow> enum_blocked (ck 0) (fst src) (ed_enum e) \<or> publicSide (ee_u env) (ee_topo env) (rq_network env req) \<noteq> None \<and>
      (\<exists>aor user. aorOf (ee_u env) req = Some (aor, user) \<and> snd (aorLockedFor env (\<lambda>i. ck (1 + i)) (fst src) aor e))"
    and "outs \<noteq> [] \<Longrightarrow> \<exists>pre x. outs = pre @ [x] \<and> is_final x \<and> filter is_final pre = []"
    and "aorOf (ee_u env) req = Some (aor, user) \<Longrightarrow>
      \<exists>ms token. subseq ms (upstreamDialOrder (ee_u env) (ee_topo env) user (\<lambda>n. Available (ck 5) n (ed_cooldown e))) \<and>
        filter is_forward outs = map (\<lambda>n. Forward n (if ContactURI req \<noteq> None \<and> \<not> hasWildcardContact req
          then Some (registeredContact (ee_topo env) user token) else None)) ms"
    and "settled (ed_cooldown e) (ed_cooldown e')"
    and "Reply 503 (Some s) \<in> set outs \<Longrightarrow> s = 30 \<and> outs = [Reply 503 (Some s)] \<and> (\<forall>aor user. aorOf (ee_u env) req = Some (aor, user) \<longrightarrow>
      (let ns = upstreamDialOrder (ee_u env) (ee_topo env) user (\<lambda>n. Available (ck 5) n (ed_cooldown e)) in
       \<forall>j < length ns. \<not> fst (snd (RegisterAllow (at_clock (atts j) 0) (ns ! j) registerTimeout (ed_cooldown e)))))"
proof -
  let ?C1 = "enum_blocked (ck 0) (fst src) (ed_enum e) \<or> publicSide (ee_u env) (ee_topo env) (rq_network env req) \<noteq> None \<and>
      (\<exists>aor user. aorOf (ee_u env) req = Some (aor, user) \<and> snd (aorLockedFor env (\<lambda>i. ck (1 + i)) (fst src) aor e))"
  let ?names = "\<lambda>user. upstreamDialOrder (ee_u env) (ee_topo env) user (\<lambda>n. Available (ck 5) n (ed_cooldown e))"
  let ?fwd = "\<lambda>user token n. Forward n (if ContactURI req \<noteq> None \<and> \<not> hasWildcardContact req
          then Some (registeredContact (ee_topo env) user token) else None)"
  have "(outs = [] \<longleftrightarrow> ?C1) \<and> (outs \<noteq> [] \<longrightarrow> (\<exists>pre x. outs = pre @ [x] \<and> is_final x \<and> filter is_final pre = [])) \<and>
    settled (ed_cooldown e) (ed_cooldown e') \<and>
    (\<forall>aor user. aorOf (ee_u env) req = Some (aor, user) \<longrightarrow>
      (\<exists>ms token. subseq ms (?names user) \<and> filter is_forward outs = map (?fwd user token) ms)) \<and>
    (Reply 503 (Some s) \<in> set outs \<longrightarrow> s = 30 \<and> outs = [Reply 503 (Some s)] \<and> (\<forall>aor user. aorOf (ee_u env) req = Some (aor, user) \<longrightarrow>
      (\<forall>j < length (?names user). \<not> fst (snd (RegisterAllow (at_clock (atts j) 0) (?names user ! j) registerTimeout (ed_cooldown e))))))"
  proof (cases "register_admit env ck newtok req src e")
    case (Inl r)
    then have r: "r = (e', outs)" using assms by (simp add: onRegister_def)
    have "ed_cooldown e' = ed_cooldown e \<and> (outs = [] \<longleftrightarrow> ?C1) \<and> (outs = [] \<or> outs = [Reply 488 None] \<or> outs = [Reply 400 None])"
      using Inl r by (auto simp: register_admit_def case_prod_beta Let_def split: if_splits option.splits)
    then show ?thesis by (elim conjE disjE) (auto intro: exI [of _ "[]"])
  next
    case (Inr p)
    obtain e1 inp where p: "p = (e1, inp)" by (cases p)
    then have series: "register_series env ck tok req inp atts expired e1 = (e', outs)" using Inr assms by (simp add: onRegister_def)
    obtain aor user frm where a: "aorOf (ee_u env) req = Some (aor, user)" "\<not> ?C1" "ed_cooldown e1 = ed_cooldown e"
        "inp = register_input env (ck 4) newtok req src frm aor user (ed_loc e1)"
      using Inr p by (auto simp: register_admit_def case_prod_beta Let_def split: if_splits option.splits)
    have inp: "bi_user inp = user" "forward_contact env inp = (if ContactURI req \<noteq> None \<and> \<not> hasWildcardContact req
        then Some (registeredContact (ee_topo env) user (bi_token inp)) else None)"
      using a(4) by (simp_all add: register_input_def Let_def case_prod_beta forward_contact_def bi_hasContact_def)
    obtain e2 outs2 r where d: "dial_nodes env tok req inp atts 0 (?names user) False e1 = (e2, outs2, r)" by (metis prod_cases3)
    note sp = dial_spec [OF d]
    have st: "settled (ed_cooldown e) (ed_cooldown e2)" using sp(2) a(3) by simp
    obtain ms where ms: "subseq ms (?names user)" "filter is_forward outs2 = map (?fwd user (bi_token inp)) ms"
      using sp(1) inp(2) by auto
    have ser: "(e', outs) = (case r of None \<Rightarrow> (e2, outs2)
         | Some (tried, spent) \<Rightarrow> if \<not> tried \<and> \<not> (spent \<or> expired) then (e2, outs2 @ [Reply 503 (Some registerRetryAfter)])
             else if spent \<or> expired then (e2, outs2 @ [Reply 504 None]) else (e2, outs2 @ [Reply 503 None]))"
      unfolding series [symmetric] using d inp(1) a(3) by (simp add: register_series_def Let_def split: option.split prod.split)
    show ?thesis
    proof (cases r)
      case None
      then obtain pre x where x: "outs2 = pre @ [x]" "is_final x" "\<forall>c s. x \<noteq> Reply c (Some s)" "filter is_final pre = []"
        using sp(4) by auto
      have eq: "e' = e2" "outs = outs2" using ser None by simp_all
      have "Reply 503 (Some s) \<notin> set outs2" using x by (auto simp: filter_empty_conv)
      then show ?thesis using eq x a(1,2) st ms by auto
    next
      case (Some q)
      obtain tried spent where q: "q = (tried, spent)" by (cases q)
      then have nf: "filter is_final outs2 = []" using sp(4) Some by simp
      obtain x where x: "e' = e2" "outs = outs2 @ [x]" "is_final x" "\<not> is_forward x"
          "x = Reply 503 (Some s) \<Longrightarrow> s = 30 \<and> \<not> tried \<and> \<not> spent"
        using ser Some q by (auto simp: Let_def registerRetryAfter_def split: if_splits)
      have "Reply 503 (Some s) \<notin> set outs2" using nf by (auto simp: filter_empty_conv)
      then have retry: "Reply 503 (Some s) \<in> set outs \<Longrightarrow> s = 30 \<and> outs = [Reply 503 (Some s)] \<and>
          (\<forall>j < length (?names user). \<not> fst (snd (RegisterAllow (at_clock (atts j) 0) (?names user ! j) registerTimeout (ed_cooldown e))))"
        using x dial_untried [of env tok req inp atts 0 "?names user" False e1 e2 outs2 spent] d Some q a(3) by auto
      have "outs = [] \<longleftrightarrow> ?C1" using x(2) a(2) by simp
      moreover have "outs \<noteq> [] \<longrightarrow> (\<exists>pre x. outs = pre @ [x] \<and> is_final x \<and> filter is_final pre = [])"
        using x(2,3) nf by blast
      moreover have "filter is_forward outs = map (?fwd user (bi_token inp)) ms" using x(2,4) ms(2) by simp
      then have "\<forall>aor user. aorOf (ee_u env) req = Some (aor, user) \<longrightarrow>
          (\<exists>ms token. subseq ms (?names user) \<and> filter is_forward outs = map (?fwd user token) ms)"
        using a(1) ms(1) by fastforce
      moreover have "Reply 503 (Some s) \<in> set outs \<longrightarrow> s = 30 \<and> outs = [Reply 503 (Some s)] \<and>
          (\<forall>aor user. aorOf (ee_u env) req = Some (aor, user) \<longrightarrow> (\<forall>j < length (?names user).
            \<not> fst (snd (RegisterAllow (at_clock (atts j) 0) (?names user ! j) registerTimeout (ed_cooldown e)))))"
        using retry a(1) by simp
      ultimately show ?thesis using st x(1) by blast
    qed
  qed
  note all = this
  show "outs = [] \<longleftrightarrow> ?C1" "outs \<noteq> [] \<Longrightarrow> \<exists>pre x. outs = pre @ [x] \<and> is_final x \<and> filter is_final pre = []"
    "settled (ed_cooldown e) (ed_cooldown e')" using all by blast+
  show "aorOf (ee_u env) req = Some (aor, user) \<Longrightarrow> \<exists>ms token. subseq ms (?names user) \<and> filter is_forward outs = map (?fwd user token) ms"
    using all by blast
  show "Reply 503 (Some s) \<in> set outs \<Longrightarrow> s = 30 \<and> outs = [Reply 503 (Some s)] \<and> (\<forall>aor user. aorOf (ee_u env) req = Some (aor, user) \<longrightarrow>
      (let ns = ?names user in \<forall>j < length ns. \<not> fst (snd (RegisterAllow (at_clock (atts j) 0) (ns ! j) registerTimeout (ed_cooldown e)))))"
    using all unfolding Let_def by blast
qed

text \<open>
  C11: One answer, to the right place. A REGISTER on a public side is answered with exactly one final
  response, the last thing sent, unless it is dropped without a word, which happens exactly when its
  source enumerates or its AoR is locked against it. It is forwarded only to upstream nodes, in their
  dial order, each at most once, with the client's Contact replaced by FreeSBC's own. Every probe the
  run was allowed is decided. 503 with a Retry-After is sent only when nothing was, to no node,
  because the breaker of each one refused it.
\<close>

theorem register_answered_once:
  assumes "onRegister env ck newtok tok False req src atts expired e = (e', outs)"
  shows "(outs = [] \<longleftrightarrow> enum_blocked (ck 0) (fst src) (ed_enum e) \<or> publicSide (ee_u env) (ee_topo env) (rq_network env req) \<noteq> None \<and>
      (\<exists>aor user. aorOf (ee_u env) req = Some (aor, user) \<and> snd (aorLockedFor env (\<lambda>i. ck (1 + i)) (fst src) aor e))) \<and>
    (outs \<noteq> [] \<longrightarrow>
      (\<exists>pre x. outs = pre @ [x] \<and> is_final x \<and> filter is_final pre = [])) \<and>
    (aorOf (ee_u env) req = Some (aor, user) \<longrightarrow>
      (\<exists>ms token. subseq ms (upstreamDialOrder (ee_u env) (ee_topo env) user (\<lambda>n. Available (ck 5) n (ed_cooldown e))) \<and>
        filter is_forward outs = map (\<lambda>n. Forward n (if ContactURI req \<noteq> None \<and> \<not> hasWildcardContact req
          then Some (registeredContact (ee_topo env) user token) else None)) ms)) \<and>
    (settled (ed_cooldown e) (ed_cooldown e')) \<and>
    (Reply 503 (Some s) \<in> set outs \<longrightarrow>
      (s = 30 \<and> outs = [Reply 503 (Some s)] \<and> (\<forall>aor user. aorOf (ee_u env) req = Some (aor, user) \<longrightarrow>
      (let ns = upstreamDialOrder (ee_u env) (ee_topo env) user (\<lambda>n. Available (ck 5) n (ed_cooldown e)) in
       \<forall>j < length ns. \<not> fst (snd (RegisterAllow (at_clock (atts j) 0) (ns ! j) registerTimeout (ed_cooldown e)))))))"
proof -
  have c1: "(outs = [] \<longleftrightarrow> enum_blocked (ck 0) (fst src) (ed_enum e) \<or> publicSide (ee_u env) (ee_topo env) (rq_network env req) \<noteq> None \<and>
      (\<exists>aor user. aorOf (ee_u env) req = Some (aor, user) \<and> snd (aorLockedFor env (\<lambda>i. ck (1 + i)) (fst src) aor e)))"
    by (rule register_answered_once_parts(1) [OF assms])
  have c2: "(outs \<noteq> [] \<longrightarrow>
      (\<exists>pre x. outs = pre @ [x] \<and> is_final x \<and> filter is_final pre = []))"
    by (intro impI) (rule register_answered_once_parts(2) [OF assms]; assumption)
  have c3: "(aorOf (ee_u env) req = Some (aor, user) \<longrightarrow>
      (\<exists>ms token. subseq ms (upstreamDialOrder (ee_u env) (ee_topo env) user (\<lambda>n. Available (ck 5) n (ed_cooldown e))) \<and>
        filter is_forward outs = map (\<lambda>n. Forward n (if ContactURI req \<noteq> None \<and> \<not> hasWildcardContact req
          then Some (registeredContact (ee_topo env) user token) else None)) ms))"
    by (intro impI) (rule register_answered_once_parts(3) [OF assms]; assumption)
  have c4: "(settled (ed_cooldown e) (ed_cooldown e'))"
    by (rule register_answered_once_parts(4) [OF assms])
  have c5: "(Reply 503 (Some s) \<in> set outs \<longrightarrow>
      (s = 30 \<and> outs = [Reply 503 (Some s)] \<and> (\<forall>aor user. aorOf (ee_u env) req = Some (aor, user) \<longrightarrow>
      (let ns = upstreamDialOrder (ee_u env) (ee_topo env) user (\<lambda>n. Available (ck 5) n (ed_cooldown e)) in
       \<forall>j < length ns. \<not> fst (snd (RegisterAllow (at_clock (atts j) 0) (ns ! j) registerTimeout (ed_cooldown e)))))))"
    by (intro impI) (rule register_answered_once_parts(5) [OF assms]; assumption)
  show ?thesis
    by (rule conjI [OF c1 conjI [OF c2 conjI [OF c3 conjI [OF c4 c5]]]])
qed

theorem register_answered_once_witness:
  "(\<exists>pre x. [Forward ''sw'' (Some (registeredContact sample_topology ''bob'' ''t'')), Relay 200 (OwnContact sample_uri 60)] = pre @ [x] \<and>
     is_final x \<and> filter is_final pre = []) \<and> \<not> enum_blocked 1 (V4 7) newEnumLimiter"
proof -
  let ?r = "onRegister sample_env (\<lambda>_. 1) ''t'' ''s'' False sample_request (V4 7, 9) sample_attempts False sample_edge"
  have run: "?r = (fst ?r, [Forward ''sw'' (Some (registeredContact sample_topology ''bob'' ''t'')), Relay 200 (OwnContact sample_uri 60)])"
    using sample_run by (metis prod.collapse)
  from register_answered_once [OF run, THEN conjunct1] register_answered_once [OF run, THEN conjunct2, THEN conjunct1] show ?thesis
    by (simp add: sample_edge_def)
qed

text \<open>
  C19: The handler is a step of the registration table's transition system. Whatever a REGISTER does,
  whoever sends it and whatever the nodes answer, the table it leaves is one \<open>reg_reach\<close> builds, and
  the only request it can add to the proofs is this one, from its own source, with a credential for
  its AoR and a routable 2xx among the answers. Go's lower-casing is idempotent, and a new token is one no binding has.
\<close>

theorem register_refines_table:
  assumes reach: "reg_reach env (ed_loc e) S"
    and idem: "\<And>s. to_lower (ee_u env) (to_lower (ee_u env) s) = to_lower (ee_u env) s"
    and fresh: "lookup (ed_loc e) newtok = None" "lookup (ed_loc e) tok = None"
    and run: "onRegister env ck newtok tok private req src atts expired e = (e', outs)"
  shows "\<exists>T. reg_reach env (ed_loc e') T \<and> S \<subseteq> T \<and> (\<forall>inp \<in> T - S. credentialMatches env inp \<and> bi_src inp = src \<and>
    bi_callID inp = rq_CallID req \<and> \<not> private \<and> (\<exists>user. aorOf (ee_u env) req = Some (bi_aor inp, user)) \<and>
    (\<exists>k. \<exists>(ck', res) \<in> set (at_arrivals (atts k)). is_2xx res \<and> rs_Routable res))"
proof (cases "ed_loc e' = ed_loc e")
  case True
  then show ?thesis using reach by (intro exI [of _ S]) simp
next
  case False
  from run False show ?thesis
  proof (rule onRegister_record)
    fix k ck' res frm aor user
    let ?inp = "register_input env (ck 4) newtok req src frm aor user (ed_loc e)"
    assume h: "\<not> private" "(ck', res) \<in> set (at_arrivals (atts k))" "is_2xx res" "rs_Routable res"
      "aorOf (ee_u env) req = Some (aor, user)" "ed_loc e' = fst (recordBinding env (\<lambda>i. ck' (10 + i)) tok res ?inp (ed_loc e))"
    have ok: "loc_ok (ed_loc e)" using reg_reach_proven [OF reach] by (simp add: proven_def flows_ok_def loc_inv_def)
    have "input_ok env tok ?inp (ed_loc e)" by (rule register_input_ok [OF ok aorOf_lower [OF h(5) idem] fresh])
    from rr_2xx [OF reach this h(3,4), of "\<lambda>i. ck' (10 + i)"] h(6)
    have "reg_reach env (ed_loc e') (if credentialMatches env ?inp then insert ?inp S else S)" by simp
    then show ?thesis using h(1-5)
      by (intro exI [of _ "if credentialMatches env ?inp then insert ?inp S else S"]) (auto intro!: exI [of _ k] bexI [of _ "(ck', res)"])
  qed
qed

lemma ascii_lower_idem: "to_lower ascii_tables (to_lower ascii_tables s) = to_lower ascii_tables s"
  by (cases "is_ascii s") (simp_all add: to_lower_idem_ascii, simp add: to_lower_def ascii_tables_def)

theorem register_refines_table_witness:
  "\<exists>T. reg_reach sample_env (ed_loc (fst (onRegister sample_env (\<lambda>_. 1) ''t'' ''s'' False sample_request (V4 7, 9)
     sample_attempts False (sample_edge\<lparr>ed_loc := NewLocation False\<rparr>)))) T"
proof -
  let ?e = "sample_edge\<lparr>ed_loc := NewLocation False\<rparr>"
  have reach: "reg_reach sample_env (ed_loc ?e) {}" using rr_new [of sample_env False] by simp
  have idem: "to_lower (ee_u sample_env) (to_lower (ee_u sample_env) s) = to_lower (ee_u sample_env) s" for s
    by (simp add: sample_env_def ascii_lower_idem)
  have "lookup (ed_loc ?e) t = None" for t by (simp add: lookup_def NewLocation_def)
  from register_refines_table [OF reach idem this this prod.collapse [symmetric]] show ?thesis by blast
qed

text \<open>
  C5: Only proven sources place calls. In every registration table that runs of the REGISTER handler,
  closed connections and prunes can build in any order, each binding goes back to an answer that a
  node really sent: a routable 2xx to a public REGISTER with a Contact, for the same AoR and Call-ID, from the
  same source (an IPv4 address, an IPv6 /64), that carried a credential whose user is the AoR's own
  (unless the operator allowed otherwise). So an INVITE that admission lets through as a client's
  comes from a source with such an answer; one it lets through as a carrier's comes from a carrier
  source on a transport that counts for it; and any other is dropped. Go's lower-casing is
  idempotent, and a new token is one no binding has.
\<close>

theorem invite_admission_provenance:
  assumes reach: "edge_reach u (ed_loc e) A" and idem: "\<And>s. to_lower u (to_lower u s) = to_lower u s" and "ee_u env = u"
  shows "(lookup (ed_loc e) t = Some b \<longrightarrow>
      (\<exists>env' req' src' res. (env', req', src', res) \<in> A \<and> accepts (env', req', src', res) (b_AOR b) \<and>
        rq_CallID req' = b_CallID b \<and> enumKey (fst src') = enumKey (fst (b_Source b)))) \<and>
    (admitPublicInvite env now req src e = (srcClient, n) \<longrightarrow>
      (\<exists>env' req' src' res aor. (env', req', src', res) \<in> A \<and> accepts (env', req', src', res) aor \<and>
        enumKey (fst src') = enumKey (fst src))) \<and>
    (admitPublicInvite env now req src e = (srcCarrier, n) \<longrightarrow>
      carrierFor src (rq_network env req) (ee_carriers env) = Some n) \<and>
    (fst (admitPublicInvite env now req src e) = srcDrop \<longleftrightarrow>
      \<not> HasSource (ee_u env) now (rq_network env req) src (ed_loc e) \<and> carrierFor src (rq_network env req) (ee_carriers env) = None)"
proof -
  note ok = edge_reach_vouched [OF reach idem]
  have b: "\<exists>env' req' src' res. (env', req', src', res) \<in> A \<and> accepts (env', req', src', res) (b_AOR b) \<and>
        rq_CallID req' = b_CallID b \<and> enumKey (fst src') = enumKey (fst (b_Source b))" if "lookup (ed_loc e) t = Some b" for t b
    using ok that unfolding flows_ok_def vouched_flow_def binding_flow_def by fastforce
  have "\<exists>t b. lookup (ed_loc e) t = Some b \<and> b_Source b = src" if "admitPublicInvite env now req src e = (srcClient, n)"
  proof -
    have "HasSource (ee_u env) now (rq_network env req) src (ed_loc e)"
      using that by (auto simp: admitPublicInvite_def split: if_splits option.splits)
    then show ?thesis using HasSource_iff [of "ed_loc e"] ok unfolding flows_ok_def loc_inv_def by blast
  qed
  then show ?thesis using b by (auto simp: admitPublicInvite_def split: if_splits option.splits) blast+
qed

theorem invite_admission_provenance_witness:
  "\<exists>A. edge_reach ascii_tables (ed_loc sample_registered) A \<and>
     (\<exists>env' req' src' res aor. (env', req', src', res) \<in> A \<and> accepts (env', req', src', res) aor \<and> enumKey (fst src') = enumKey (V4 7))"
proof -
  have idem: "to_lower ascii_tables (to_lower ascii_tables s) = to_lower ascii_tables s" for s by (rule ascii_lower_idem)
  let ?e = "sample_edge\<lparr>ed_loc := NewLocation False\<rparr>"
  have fresh: "lookup (ed_loc ?e) t = None" for t by (simp add: lookup_def NewLocation_def)
  have "edge_reach ascii_tables (ed_loc ?e) {}" using er_new [of ascii_tables False] by simp
  from er_register [OF this _ fresh fresh, where env = sample_env and ck = "\<lambda>_. 1" and priv = False and req = sample_auth
      and src = "(V4 7, 9)" and atts = sample_attempts and expired = False and newtok = "''t''" and tok = "''s''"]
  have r: "edge_reach ascii_tables (ed_loc sample_registered) (heard sample_env sample_auth (V4 7, 9) sample_attempts)"
    by (simp add: sample_registered_def sample_env_def)
  have "ee_u sample_env = ascii_tables" by (simp add: sample_env_def)
  from invite_admission_provenance [OF r idem this, THEN conjunct2, THEN conjunct1, THEN mp, OF sample_invite] r show ?thesis by (simp only: fst_conv) blast
qed

lemma strikes_need_cause_parts:
  assumes "ed_guard e = run_ops guard_step es newRegGuard"
  shows "ed_shield (fst (registerStrike env ck src head replay e)) \<noteq> ed_shield e \<Longrightarrow>
      Auth head \<and> \<not> isSource (unmap (fst src)) (ee_carriers env) \<and>
      \<not> refreshesBinding env (ck 0) (unmap (fst src)) (rh_AOR head) (rh_CallID head) (ed_loc e) \<and>
      (\<exists>t. nonce_challenged es (enumKey (fst src)) (regHash (Nonce head)) t \<and> t_sub (ck 1) t < 15 * minute) \<and>
      (replay \<longrightarrow> (\<exists>t. branch_challenged es (enumKey (fst src)) (regHash (Branch head)) t \<and> t_sub (ck 1) t < 40 * second))"
    and "ed_shield (fst (registerReplayRead env ck tr remote d e)) \<noteq> ed_shield e \<Longrightarrow> equal_fold (ee_u env) tr ''udp'' \<and>
      (\<exists>h b src t. ScanRegister (ee_u env) d = (h, b) \<and> remote \<noteq> None \<and> ParseAddrPort (the remote) = Some src \<and>
        branch_challenged es (enumKey (fst src)) (regHash (Branch h)) t \<and> t_sub (ck 1) t < 40 * second)"
    and "ed_shield (dropSilently env ck reason req src e) \<noteq> ed_shield e \<Longrightarrow> reason \<noteq> dropRegisterAORLocked \<and>
      \<not> isSource (unmap (fst src)) (ee_carriers env) \<and> \<not> HasIP (unmap (fst src)) (ed_loc e)"
    and "ed_shield (malformedStrike env ck tr text e) \<noteq> ed_shield e \<Longrightarrow> \<exists>ap. ParseAddrPort text = Some ap \<and>
      \<not> isSource (unmap (fst ap)) (ee_carriers env) \<and> \<not> HasIP (unmap (fst ap)) (ed_loc e)"
proof -
  have ttl: "regNonceTTL = 15 * minute" "regReplayWindow = 40 * second" by (simp_all add: regNonceTTL_def regReplayWindow_def)
  show st: "Auth head \<and> \<not> isSource (unmap (fst src)) (ee_carriers env) \<and>
      \<not> refreshesBinding env (ck 0) (unmap (fst src)) (rh_AOR head) (rh_CallID head) (ed_loc e) \<and>
      (\<exists>t. nonce_challenged es (enumKey (fst src)) (regHash (Nonce head)) t \<and> t_sub (ck 1) t < 15 * minute) \<and>
      (replay \<longrightarrow> (\<exists>t. branch_challenged es (enumKey (fst src)) (regHash (Branch head)) t \<and> t_sub (ck 1) t < 40 * second))"
    if c: "ed_shield (fst (registerStrike env ck src head replay e)) \<noteq> ed_shield e" for src head replay
  proof -
    have g: "Auth head" "\<not> isSource (unmap (fst src)) (ee_carriers env)"
        "\<not> refreshesBinding env (ck 0) (unmap (fst src)) (rh_AOR head) (rh_CallID head) (ed_loc e)"
        "snd (countable (ck 1) (unmap (fst src)) (Branch head) (Nonce head) (AuthKey head) replay (ed_guard e))"
      using c by (auto simp: registerStrike_def Let_def case_prod_beta split: option.splits if_splits)
    have tr: "guard_traced es (ed_guard e)" unfolding assms by (rule guard_reach_traced)
    from countable_needs_challenge [OF tr g(4)] show ?thesis unfolding ttl enumKey_unmap using g(1,2,3) by blast
  qed
  show "equal_fold (ee_u env) tr ''udp'' \<and>
      (\<exists>h b src t. ScanRegister (ee_u env) d = (h, b) \<and> remote \<noteq> None \<and> ParseAddrPort (the remote) = Some src \<and>
        branch_challenged es (enumKey (fst src)) (regHash (Branch h)) t \<and> t_sub (ck 1) t < 40 * second)"
    if c: "ed_shield (fst (registerReplayRead env ck tr remote d e)) \<noteq> ed_shield e"
  proof -
    obtain h b r src where g: "equal_fold (ee_u env) tr ''udp''" "ScanRegister (ee_u env) d = (h, b)" "remote = Some r"
        "ParseAddrPort r = Some src" "ed_shield (fst (registerStrike env ck src h True e)) \<noteq> ed_shield e"
      using c by (simp add: registerReplayRead_def case_prod_beta split: option.splits if_splits) (metis surj_pair prod.collapse)
    show ?thesis using st [OF g(5)] g by auto
  qed
  show "reason \<noteq> dropRegisterAORLocked \<and> \<not> isSource (unmap (fst src)) (ee_carriers env) \<and> \<not> HasIP (unmap (fst src)) (ed_loc e)"
    if "ed_shield (dropSilently env ck reason req src e) \<noteq> ed_shield e"
    using that by (auto simp: dropSilently_def admissionStrike_def Let_def split: option.splits if_splits)
  show "\<exists>ap. ParseAddrPort text = Some ap \<and> \<not> isSource (unmap (fst ap)) (ee_carriers env) \<and> \<not> HasIP (unmap (fst ap)) (ed_loc e)"
    if "ed_shield (malformedStrike env ck tr text e) \<noteq> ed_shield e"
    using that by (auto simp: malformedStrike_def Let_def split: option.splits if_splits)
qed

text \<open>
  C24: What it takes to be struck. The shield's counts change against a source only for a cause the
  handlers can name. A REGISTER counts only if it carries a credential, its source is no carrier, it is
  no refresh (a binding of the same AoR and Call-ID from the same source), and its nonce is one that
  FreeSBC handed to that very source within the last fifteen minutes; a resent UDP one only on a
  branch the source was challenged on within the last forty seconds. A refused request or a malformed
  read counts only if neither a carrier nor any live registration is at its address, a
  REGISTER refused because its AoR is locked never does, and over UDP neither touches the bans that
  hold on every transport. What the theorem leaves open is meant: a registered source can be struck for
  another AoR or Call-ID, and a forged datagram can strike an unregistered address, on UDP only.
\<close>

theorem strikes_need_cause:
  assumes "ed_guard e = run_ops guard_step es newRegGuard"
  shows "(ed_shield (fst (registerStrike env ck src head replay e)) \<noteq> ed_shield e \<longrightarrow>
      (Auth head \<and> \<not> isSource (unmap (fst src)) (ee_carriers env) \<and>
      \<not> refreshesBinding env (ck 0) (unmap (fst src)) (rh_AOR head) (rh_CallID head) (ed_loc e) \<and>
      (\<exists>t. nonce_challenged es (enumKey (fst src)) (regHash (Nonce head)) t \<and> t_sub (ck 1) t < 15 * minute) \<and>
      (replay \<longrightarrow> (\<exists>t. branch_challenged es (enumKey (fst src)) (regHash (Branch head)) t \<and> t_sub (ck 1) t < 40 * second)))) \<and>
    (ed_shield (fst (registerReplayRead env ck tr remote d e)) \<noteq> ed_shield e \<longrightarrow>
      (equal_fold (ee_u env) tr ''udp'' \<and>
      (\<exists>h b src t. ScanRegister (ee_u env) d = (h, b) \<and> remote \<noteq> None \<and> ParseAddrPort (the remote) = Some src \<and>
        branch_challenged es (enumKey (fst src)) (regHash (Branch h)) t \<and> t_sub (ck 1) t < 40 * second))) \<and>
    (ed_shield (dropSilently env ck reason req src e) \<noteq> ed_shield e \<longrightarrow>
      (reason \<noteq> dropRegisterAORLocked \<and>
      \<not> isSource (unmap (fst src)) (ee_carriers env) \<and> \<not> HasIP (unmap (fst src)) (ed_loc e))) \<and>
    (ed_shield (malformedStrike env ck tr text e) \<noteq> ed_shield e \<longrightarrow>
      (\<exists>ap. ParseAddrPort text = Some ap \<and>
      \<not> isSource (unmap (fst ap)) (ee_carriers env) \<and> \<not> HasIP (unmap (fst ap)) (ed_loc e))) \<and>
    (\<not> bannableTransport (env_u (ee_shield_env env)) (rq_network env req) \<longrightarrow>
      map_option sh_bans (ed_shield (dropSilently env ck reason req src e)) = map_option sh_bans (ed_shield e)) \<and>
    (\<not> bannableTransport (env_u (ee_shield_env env)) tr \<longrightarrow>
      map_option sh_bans (ed_shield (malformedStrike env ck tr text e)) = map_option sh_bans (ed_shield e))"
proof -
  have c1: "(ed_shield (fst (registerStrike env ck src head replay e)) \<noteq> ed_shield e \<longrightarrow>
      (Auth head \<and> \<not> isSource (unmap (fst src)) (ee_carriers env) \<and>
      \<not> refreshesBinding env (ck 0) (unmap (fst src)) (rh_AOR head) (rh_CallID head) (ed_loc e) \<and>
      (\<exists>t. nonce_challenged es (enumKey (fst src)) (regHash (Nonce head)) t \<and> t_sub (ck 1) t < 15 * minute) \<and>
      (replay \<longrightarrow> (\<exists>t. branch_challenged es (enumKey (fst src)) (regHash (Branch head)) t \<and> t_sub (ck 1) t < 40 * second))))"
    by (intro impI) (rule strikes_need_cause_parts(1) [OF assms]; assumption)
  have c2: "(ed_shield (fst (registerReplayRead env ck tr remote d e)) \<noteq> ed_shield e \<longrightarrow>
      (equal_fold (ee_u env) tr ''udp'' \<and>
      (\<exists>h b src t. ScanRegister (ee_u env) d = (h, b) \<and> remote \<noteq> None \<and> ParseAddrPort (the remote) = Some src \<and>
        branch_challenged es (enumKey (fst src)) (regHash (Branch h)) t \<and> t_sub (ck 1) t < 40 * second)))"
    by (intro impI) (rule strikes_need_cause_parts(2) [OF assms]; assumption)
  have c3: "(ed_shield (dropSilently env ck reason req src e) \<noteq> ed_shield e \<longrightarrow>
      (reason \<noteq> dropRegisterAORLocked \<and>
      \<not> isSource (unmap (fst src)) (ee_carriers env) \<and> \<not> HasIP (unmap (fst src)) (ed_loc e)))"
    by (intro impI) (rule strikes_need_cause_parts(3) [OF assms]; assumption)
  have c4: "(ed_shield (malformedStrike env ck tr text e) \<noteq> ed_shield e \<longrightarrow>
      (\<exists>ap. ParseAddrPort text = Some ap \<and>
      \<not> isSource (unmap (fst ap)) (ee_carriers env) \<and> \<not> HasIP (unmap (fst ap)) (ed_loc e)))"
    by (intro impI) (rule strikes_need_cause_parts(4) [OF assms]; assumption)
  have c5: "\<not> bannableTransport (env_u (ee_shield_env env)) (rq_network env req) \<longrightarrow>
      map_option sh_bans (ed_shield (dropSilently env ck reason req src e)) = map_option sh_bans (ed_shield e)"
    by (simp add: dropSilently_def admissionStrike_def StrikeOn_def edge_shield_env_def Let_def split: option.split)
  have c6: "\<not> bannableTransport (env_u (ee_shield_env env)) tr \<longrightarrow>
      map_option sh_bans (ed_shield (malformedStrike env ck tr text e)) = map_option sh_bans (ed_shield e)"
    by (simp add: malformedStrike_def StrikeOn_def edge_shield_env_def Let_def split: option.split)
  show ?thesis
    by (rule conjI [OF c1 conjI [OF c2 conjI [OF c3 conjI [OF c4 conjI [OF c5 c6]]]]])
qed

theorem strikes_need_cause_witness:
  "\<exists>t. nonce_challenged sample_challenge (enumKey (V4 7)) (regHash ''nonce'') t \<and> t_sub 2 t < 15 * minute"
proof -
  have "ed_shield (fst (registerStrike strike_env (\<lambda>_. 2) (V4 7, 9) strike_head False strike_edge)) \<noteq> ed_shield strike_edge"
    using sample_strike by (auto simp: strike_edge_def)
  from strikes_need_cause [THEN conjunct1, THEN mp, OF _ this, of sample_challenge] show ?thesis by (simp add: strike_edge_def strike_head_def)
qed

end
