(* ===== verification/Sdes_Leg.thy ===== *)
theory Sdes_Leg
  imports Media_Session Sdp_Body Config
begin

text \<open>
  SDES-SRTP on the public leg of a call, \<^verbatim>\<open>src/internal/edge/sdes.go\<close>: the policy of a leg, what is
  offered, how an offer or an answer becomes a plan, and how a plan is committed to the relay.

  \<open>media_leg\<close> is what \<^verbatim>\<open>mediaSession\<close> holds of it: the SDES state, absent for the policy off, and the plain
  RTP relay, absent on a browser leg. A body built or read before a plan is committed changes
  nothing else, so the run \<open>leg_step\<close> keeps the plans that were made and commits any of them at any
  time, as forks and re-INVITEs do. \<open>rnd\<close> is the random source of one call, \<open>mk\<close> the SRTP context of
  the third-party library for a key.

  \<open>commit\<close> installs the remote and the local key in one step; the source makes two calls on the relay,
  and a packet may be forwarded between them. \<open>answerSet\<close> is \<open>[]\<close> on a leg without SDES state, where
  the source would dereference a nil pointer; its callers reach it only with one.
\<close>

section \<open>Model: policy\<close>

datatype srtp_policy = srtpOff | srtpOptional | srtpRequired | srtpImpossible

datatype sdes_error = errSDESInsecure | errSDESRequired | errSDESDowngrade | errSDESNoCrypto | errSDESAnswer
  | SDESKeyGen crypto_error | SDESNoRelay | SDESPeerKey | SDESLocalKey

definition legSRTPPolicy :: "config \<Rightarrow> string \<Rightarrow> string \<Rightarrow> srtp_policy" where
  "legSRTPPolicy cfg k transport =
     (let (name, secure) = (if k = [] then (ec_SRTP (cfg_Edge cfg), transport = ''tls'' \<or> transport = ''wss'')
            else case find (\<lambda>c. cf_Name c = k) (ec_carriers (cfg_Edge cfg)) of
                None \<Rightarrow> (SRTPOff, False)
              | Some c \<Rightarrow> (cf_SRTP c, cf_Transport c = ''tls''))
      in if secure \<or> ec_AllowInsecureSDES (cfg_Edge cfg) then
           (if name = SRTPOptional then srtpOptional else if name = SRTPRequired then srtpRequired else srtpOff)
         else if name = SRTPRequired then srtpImpossible else srtpOff)"

text \<open>\<^verbatim>\<open>Audio.SDES\<close>; \<open>up\<close> is \<^verbatim>\<open>strings.ToUpper\<close> beyond ASCII.\<close>

definition audio_SDES :: "unicode \<Rightarrow> (string \<Rightarrow> string) \<Rightarrow> audio \<Rightarrow> bool" where
  "audio_SDES u up a = (case au_Proto a of
       [p, q] \<Rightarrow> equal_fold u p ''RTP'' \<and>
         (let q' = (if is_ascii q then map upper_ascii q else up q) in q' = ''SAVP'' \<or> q' = ''SAVPF'')
     | _ \<Rightarrow> False)"

section \<open>Model: the state of a leg\<close>

record sdes_state =
  sd_policy :: srtp_policy
  sd_offered :: "crypto list option"
  sd_on :: bool
  sd_plain :: bool
  sd_local :: crypto
  sd_peer :: crypto

definition crypto_zero :: crypto where
  "crypto_zero = \<lparr>cr_Tag = 0, cr_Suite = [], cr_Key = [], cr_Salt = []\<rparr>"

record sdes_plan =
  pl_sdes :: bool
  pl_plain :: bool
  pl_local :: crypto
  pl_peer :: crypto

definition plan_zero :: sdes_plan where
  "plan_zero = \<lparr>pl_sdes = False, pl_plain = False, pl_local = crypto_zero, pl_peer = crypto_zero\<rparr>"

definition plan_plain :: sdes_plan where
  "plan_plain = plan_zero\<lparr>pl_plain := True\<rparr>"

record 'c media_leg =
  ml_sdes :: "sdes_state option"
  ml_rtp :: "'c relay option"

definition newSDESLeg :: "srtp_policy \<Rightarrow> sdes_state option" where
  "newSDESLeg p = (if p = srtpOff then None
     else Some \<lparr>sd_policy = p, sd_offered = None, sd_on = False, sd_plain = False, sd_local = crypto_zero, sd_peer = crypto_zero\<rparr>)"

definition leg_SDES :: "'c media_leg \<Rightarrow> bool" where
  "leg_SDES m = (case ml_sdes m of None \<Rightarrow> False | Some st \<Rightarrow> sd_on st)"

section \<open>Model: offers\<close>

definition initialOffer :: "(nat \<Rightarrow> nat \<Rightarrow> octets option) \<Rightarrow> sdes_state \<Rightarrow> sdes_state \<times> (sdes_error + crypto list)" where
  "initialOffer rnd st = (case sd_offered st of
       Some lines \<Rightarrow> (st, Inr lines)
     | None \<Rightarrow> (case OfferCrypto rnd [] of
           Inl e \<Rightarrow> (st, Inl (SDESKeyGen e))
         | Inr lines \<Rightarrow> (st\<lparr>sd_offered := Some lines\<rparr>, Inr lines)))"

definition sdesOffer :: "(nat \<Rightarrow> nat \<Rightarrow> octets option) \<Rightarrow> 'c media_leg \<Rightarrow> 'c media_leg \<times> (sdes_error + crypto list)" where
  "sdesOffer rnd m = (case ml_sdes m of
       None \<Rightarrow> (m, Inr [])
     | Some st \<Rightarrow>
         if sd_policy st = srtpImpossible then (m, Inl errSDESInsecure)
         else if sd_on st then (m, Inr [sd_local st])
         else if sd_plain st then (m, Inr [])
         else let (st', r) = initialOffer rnd st in (m\<lparr>ml_sdes := Some st'\<rparr>, r))"

text \<open>The initial set is asked for only where there is SDES state.\<close>

definition answerSet :: "(nat \<Rightarrow> nat \<Rightarrow> octets option) \<Rightarrow> bool \<Rightarrow> 'c media_leg \<Rightarrow> 'c media_leg \<times> (sdes_error + crypto list)" where
  "answerSet rnd initial m =
     (if initial then (case ml_sdes m of
          None \<Rightarrow> (m, Inr [])
        | Some st \<Rightarrow> (let (st', r) = initialOffer rnd st in (m\<lparr>ml_sdes := Some st'\<rparr>, r)))
      else sdesOffer rnd m)"

section \<open>Model: plans\<close>

definition planAnswer :: "unicode \<Rightarrow> (string \<Rightarrow> string) \<Rightarrow> (nat \<Rightarrow> octets option) \<Rightarrow> audio \<Rightarrow> 'c media_leg \<Rightarrow> sdes_error + sdes_plan" where
  "planAnswer u up rnd a m = (case ml_sdes m of
       None \<Rightarrow> Inr plan_zero
     | Some st \<Rightarrow>
         if sd_policy st = srtpImpossible then Inl errSDESInsecure
         else if \<not> audio_SDES u up a then
           (if sd_on st then Inl errSDESDowngrade
            else if sd_policy st = srtpRequired then Inl errSDESRequired
            else Inr plan_plain)
         else (case SelectCrypto (au_Crypto a) [] of
             None \<Rightarrow> Inl errSDESNoCrypto
           | Some peer \<Rightarrow>
               (case (if \<not> sd_on st \<or> cr_Suite (sd_local st) \<noteq> cr_Suite peer
                      then NewCrypto rnd (cr_Tag peer) (cr_Suite peer) else Inr (sd_local st)) of
                  Inl e \<Rightarrow> Inl (SDESKeyGen e)
                | Inr c \<Rightarrow> Inr \<lparr>pl_sdes = True, pl_plain = False, pl_local = c\<lparr>cr_Tag := cr_Tag peer\<rparr>, pl_peer = peer\<rparr>)))"

definition matching_offer :: "crypto list \<Rightarrow> crypto \<Rightarrow> crypto option" where
  "matching_offer offs c = find (\<lambda>o1. cr_Tag c = cr_Tag o1 \<and> cr_Suite c = cr_Suite o1) offs"

fun match_lines :: "crypto list \<Rightarrow> crypto list \<Rightarrow> (crypto \<times> crypto) option" where
  "match_lines [] offs = None"
| "match_lines (c # cs) offs = (case matching_offer offs c of Some o1 \<Rightarrow> Some (o1, c) | None \<Rightarrow> match_lines cs offs)"

definition checkAnswer :: "unicode \<Rightarrow> (string \<Rightarrow> string) \<Rightarrow> audio \<Rightarrow> crypto list \<Rightarrow> 'c media_leg \<Rightarrow> sdes_error + sdes_plan" where
  "checkAnswer u up a offs m = (case ml_sdes m of
       None \<Rightarrow> Inr plan_zero
     | Some st \<Rightarrow>
         if sd_policy st = srtpImpossible then Inl errSDESInsecure
         else if offs = [] then (if audio_SDES u up a then Inl errSDESAnswer else Inr plan_plain)
         else if \<not> audio_SDES u up a then
           (if sd_on st then Inl errSDESDowngrade
            else if sd_policy st = srtpRequired then Inl errSDESRequired
            else Inr plan_plain)
         else (case match_lines (au_Crypto a) offs of
             Some (o1, c) \<Rightarrow> Inr \<lparr>pl_sdes = True, pl_plain = False, pl_local = o1, pl_peer = c\<rparr>
           | None \<Rightarrow> if au_Crypto a = [] then Inl errSDESNoCrypto else Inl errSDESAnswer))"

section \<open>Model: commit\<close>

definition mediaKey :: "crypto \<Rightarrow> sdes_key" where
  "mediaKey c = \<lparr>Suite = cr_Suite c, Key = map (\<lambda>b. char_of (unat b)) (cr_Key c), Salt = map (\<lambda>b. char_of (unat b)) (cr_Salt c)\<rparr>"

definition answerLines :: "sdes_plan \<Rightarrow> crypto list" where
  "answerLines p = (if pl_sdes p then [pl_local p] else [])"

text \<open>\<open>None\<close> is a nil error.\<close>

definition commit :: "(sdes_key \<Rightarrow> 'c option) \<Rightarrow> sdes_plan \<Rightarrow> 'c media_leg \<Rightarrow> 'c media_leg \<times> sdes_error option" where
  "commit mk p m = (case ml_sdes m of
       None \<Rightarrow> (m, None)
     | Some st \<Rightarrow>
         if \<not> pl_sdes p \<and> \<not> pl_plain p then (m, None)
         else if pl_plain p then
           (if \<not> sd_on st then (m\<lparr>ml_sdes := Some (st\<lparr>sd_plain := True\<rparr>)\<rparr>, None) else (m, None))
         else (case ml_rtp m of
             None \<Rightarrow> (m, Some SDESNoRelay)
           | Some r \<Rightarrow>
               (let (r1, ok1) = SetSDESRemote mk SideA (mediaKey (pl_peer p)) r in
                if \<not> ok1 then (m\<lparr>ml_rtp := Some r1\<rparr>, Some SDESPeerKey)
                else let (r2, ok2) = SetSDESLocal mk SideA (mediaKey (pl_local p)) r1 in
                  if \<not> ok2 then (m\<lparr>ml_rtp := Some r2\<rparr>, Some SDESLocalKey)
                  else (m\<lparr>ml_rtp := Some r2,
                          ml_sdes := Some (st\<lparr>sd_on := True, sd_plain := False, sd_local := pl_local p, sd_peer := pl_peer p\<rparr>)\<rparr>, None))))"

end
