(* ===== verification/Sdes_Props.thy ===== *)
theory Sdes_Props
  imports Sdes_Leg
begin

text \<open>
  What a run of offers, answers and commits keeps true of an SDES leg. \<open>leg_reach\<close> is every state the
  operations of \<^verbatim>\<open>sdes.go\<close> reach in any order: line sets issued (\<open>I\<close>), plans made from the far end's
  offers and answers (\<open>P\<close>), any of them committed at any later time, and packets relayed in between.
\<close>

section \<open>Runs\<close>

definition rnd_ok :: "(nat \<Rightarrow> octets option) \<Rightarrow> bool" where
  "rnd_ok rnd \<longleftrightarrow> (\<forall>n mat. rnd n = Some mat \<longrightarrow> length mat = n)"

definition lines_ok :: "crypto list \<Rightarrow> bool" where
  "lines_ok cs \<longleftrightarrow> (\<forall>c \<in> set cs. crypto_Validate c = None)"

text \<open>The keys in force on the public side: the peer's and FreeSBC's own.\<close>

definition keys_of :: "'c relay \<Rightarrow> (sdes_key \<times> bool \<times> sdes_key \<times> bool) option" where
  "keys_of r = map_option (\<lambda>l. (dir_key (leg_in l), ctx (leg_in l) \<noteq> None, dir_key (leg_out l), ctx (leg_out l) \<noteq> None)) (sdes r SideA)"

definition issued :: "sdes_error + crypto list \<Rightarrow> crypto list set \<Rightarrow> crypto list set" where
  "issued r I = (case r of Inl _ \<Rightarrow> I | Inr ls \<Rightarrow> insert ls I)"

inductive leg_reach ::
  "unicode \<Rightarrow> (string \<Rightarrow> string) \<Rightarrow> (sdes_key \<Rightarrow> 'c option) \<Rightarrow> srtp_policy \<Rightarrow> 'c media_leg \<Rightarrow> sdes_plan set \<Rightarrow> crypto list set \<Rightarrow> bool"
  for u up mk pol where
  lr_new: "leg_reach u up mk pol \<lparr>ml_sdes = newSDESLeg pol, ml_rtp = rl0\<rparr> {} {}"
| lr_offer: "leg_reach u up mk pol m P I \<Longrightarrow> \<forall>i. rnd_ok (rnd i) \<Longrightarrow> sdesOffer rnd m = (m', r) \<Longrightarrow>
    leg_reach u up mk pol m' P (issued r I)"
| lr_set: "leg_reach u up mk pol m P I \<Longrightarrow> \<forall>i. rnd_ok (rnd i) \<Longrightarrow> answerSet rnd True m = (m', r) \<Longrightarrow> ml_sdes m \<noteq> None \<Longrightarrow>
    leg_reach u up mk pol m' P (issued r I)"
| lr_plan: "leg_reach u up mk pol m P I \<Longrightarrow> rnd_ok rnd' \<Longrightarrow> planAnswer u up rnd' a m = Inr p \<Longrightarrow> leg_reach u up mk pol m (insert p P) I"
| lr_check: "leg_reach u up mk pol m P I \<Longrightarrow> lines_ok (au_Crypto a) \<Longrightarrow> ls \<in> I \<Longrightarrow> checkAnswer u up a ls m = Inr p \<Longrightarrow>
    leg_reach u up mk pol m (insert p P) I"
| lr_commit: "leg_reach u up mk pol m P I \<Longrightarrow> p \<in> P \<Longrightarrow> commit mk p m = (m', e) \<Longrightarrow> leg_reach u up mk pol m' P I"
| lr_packet: "leg_reach u up mk pol m P I \<Longrightarrow> ml_rtp m = Some rl \<Longrightarrow> keys_of rl' = keys_of rl \<Longrightarrow>
    leg_reach u up mk pol (m\<lparr>ml_rtp := Some rl'\<rparr>) P I"

section \<open>Keys and lines\<close>

lemma NewCrypto_valid:
  assumes "rnd_ok rnd" "NewCrypto rnd tag suite = Inr c"
  shows "crypto_Validate c = None" "cr_Tag c = tag" "cr_Suite c = suite"
proof -
  obtain kl sl mat where c: "suite_lengths suite = Some (kl, sl)" "1 \<le> tag" "tag \<le> maxCryptoTag" "rnd (kl + sl) = Some mat"
      "c = \<lparr>cr_Tag = tag, cr_Suite = suite, cr_Key = take kl mat, cr_Salt = drop kl mat\<rparr>"
    using assms(2) by (cases "suite_lengths suite") (auto simp: NewCrypto_def split: option.splits if_splits prod.splits)
  then have "length mat = kl + sl" using assms(1) by (simp add: rnd_ok_def)
  then show "crypto_Validate c = None" "cr_Tag c = tag" "cr_Suite c = suite" using c by (simp_all add: crypto_Validate_def)
qed

lemma offer_lines_valid: "\<forall>i. rnd_ok (rnd i) \<Longrightarrow> offer_lines rnd i ss = Inr ls \<Longrightarrow> lines_ok ls \<and> length ls = length ss"
proof (induction ss arbitrary: i ls)
  case (Cons s ss)
  then show ?case using NewCrypto_valid(1) [of "rnd i"] by (fastforce simp: lines_ok_def split: sum.splits)
qed (simp add: lines_ok_def)

lemma OfferCrypto_valid: "\<forall>i. rnd_ok (rnd i) \<Longrightarrow> OfferCrypto rnd [] = Inr ls \<Longrightarrow> lines_ok ls \<and> ls \<noteq> []"
  using offer_lines_valid [of rnd 0 SupportedSuites ls] by (auto simp: OfferCrypto_def SupportedSuites_def)

lemma SelectCrypto_valid: "SelectCrypto cs [] = Some c \<Longrightarrow> crypto_Validate c = None \<and> c \<in> set cs"
  by (induction cs) (auto split: if_splits)

lemma matching_offer_Some: "matching_offer ls c = Some d \<Longrightarrow> d \<in> set ls \<and> cr_Tag c = cr_Tag d \<and> cr_Suite c = cr_Suite d"
  by (auto simp: matching_offer_def find_Some_iff)

lemma match_lines_Some:
  "match_lines cs ls = Some (d, c) \<Longrightarrow> d \<in> set ls \<and> c \<in> set cs \<and> cr_Tag c = cr_Tag d \<and> cr_Suite c = cr_Suite d"
  by (induction cs) (auto split: option.splits dest: matching_offer_Some)

lemma retag_valid:
  "crypto_Validate c = None \<Longrightarrow> crypto_Validate d = None \<Longrightarrow> cr_Suite c = cr_Suite d \<Longrightarrow> crypto_Validate (c\<lparr>cr_Tag := cr_Tag d\<rparr>) = None"
  by (auto simp: crypto_Validate_def split: option.splits if_splits)

definition plan_ok :: "sdes_plan \<Rightarrow> bool" where
  "plan_ok p \<longleftrightarrow> (pl_sdes p \<longrightarrow> \<not> pl_plain p \<and> crypto_Validate (pl_local p) = None \<and> crypto_Validate (pl_peer p) = None \<and>
     cr_Tag (pl_local p) = cr_Tag (pl_peer p) \<and> cr_Suite (pl_local p) = cr_Suite (pl_peer p))"

text \<open>The third-party library makes a context for every key of a supported suite and of its lengths.\<close>

definition mk_ok :: "(sdes_key \<Rightarrow> 'c option) \<Rightarrow> bool" where
  "mk_ok mk \<longleftrightarrow> (\<forall>c. crypto_Validate c = None \<longrightarrow> mk (mediaKey c) \<noteq> None)"

lemma dir_set_valid:
  assumes "mk_ok mk" "crypto_Validate c = None"
  shows "\<exists>d'. dir_set mk (mediaKey c) d = (d', True) \<and> dir_key d' = mediaKey c \<and> ctx d' \<noteq> None"
proof -
  have "sdes_profile (mediaKey c)"
    using assms(2) by (auto simp: crypto_Validate_def suite_lengths_def sdes_profile_def mediaKey_def SuiteAESCM128HMACSHA180_def
        SuiteAESCM128HMACSHA132_def SuiteAEADAES128GCM_def split: option.splits if_splits)
  moreover obtain c' where "mk (mediaKey c) = Some c'" using assms by (auto simp: mk_ok_def)
  ultimately show ?thesis by (cases "ctx d \<noteq> None \<and> dir_key d = mediaKey c") (simp_all add: dir_set_def)
qed

lemma commit_keys:
  assumes "mk_ok mk" "plan_ok p" "pl_sdes p" "ml_sdes m = Some st" "ml_rtp m = Some r"
  shows "\<exists>r'. commit mk p m = (m\<lparr>ml_rtp := Some r',
      ml_sdes := Some (st\<lparr>sd_on := True, sd_plain := False, sd_local := pl_local p, sd_peer := pl_peer p\<rparr>)\<rparr>, None) \<and>
    keys_of r' = Some (mediaKey (pl_peer p), True, mediaKey (pl_local p), True)"
proof -
  let ?leg = "case sdes r SideA of Some l \<Rightarrow> l | None \<Rightarrow> \<lparr>leg_in = no_dir, leg_out = no_dir\<rparr>"
  have v: "crypto_Validate (pl_peer p) = None" "crypto_Validate (pl_local p) = None" "\<not> pl_plain p" using assms(2,3) by (auto simp: plan_ok_def)
  obtain d where d: "dir_set mk (mediaKey (pl_peer p)) (leg_in ?leg) = (d, True)" "dir_key d = mediaKey (pl_peer p)" "ctx d \<noteq> None"
    using dir_set_valid [OF assms(1) v(1)] by blast
  obtain d' where d': "dir_set mk (mediaKey (pl_local p)) (leg_out ?leg) = (d', True)" "dir_key d' = mediaKey (pl_local p)" "ctx d' \<noteq> None"
    using dir_set_valid [OF assms(1) v(2)] by blast
  show ?thesis using assms(3-5) v(3) d d'
    by (intro exI [of _ "r\<lparr>sdes := (sdes r)(SideA \<mapsto> ?leg\<lparr>leg_in := d, leg_out := d'\<rparr>)\<rparr>"])
      (simp add: commit_def SetSDESRemote_def SetSDESLocal_def Let_def keys_of_def)
qed

section \<open>The invariant\<close>

definition leg_inv :: "srtp_policy \<Rightarrow> 'c media_leg \<Rightarrow> sdes_plan set \<Rightarrow> crypto list set \<Rightarrow> bool" where
  "leg_inv pol m P I \<longleftrightarrow> (\<forall>p \<in> P. plan_ok p) \<and> (\<forall>ls \<in> I. lines_ok ls) \<and>
     (pol = srtpRequired \<longrightarrow> [] \<notin> I \<and> (\<forall>p \<in> P. \<not> pl_plain p)) \<and> (pol = srtpImpossible \<longrightarrow> P = {}) \<and>
     (case ml_sdes m of None \<Rightarrow> pol = srtpOff
      | Some st \<Rightarrow> pol \<noteq> srtpOff \<and> sd_policy st = pol \<and> (pol = srtpRequired \<longrightarrow> \<not> sd_plain st) \<and> (pol = srtpImpossible \<longrightarrow> \<not> sd_on st) \<and>
          (\<forall>ls. sd_offered st = Some ls \<longrightarrow> ls \<noteq> [] \<and> lines_ok ls) \<and>
          (sd_on st \<longrightarrow> plan_ok \<lparr>pl_sdes = True, pl_plain = sd_plain st, pl_local = sd_local st, pl_peer = sd_peer st\<rparr> \<and>
             (\<exists>r. ml_rtp m = Some r \<and> keys_of r = Some (mediaKey (sd_peer st), True, mediaKey (sd_local st), True))))"

lemma initialOffer_inv:
  assumes "\<forall>i. rnd_ok (rnd i)" "initialOffer rnd st = (st', r)" "\<forall>ls. sd_offered st = Some ls \<longrightarrow> ls \<noteq> [] \<and> lines_ok ls"
  shows "\<exists>o'. st' = st\<lparr>sd_offered := o'\<rparr> \<and> (\<forall>ls. o' = Some ls \<longrightarrow> ls \<noteq> [] \<and> lines_ok ls) \<and> (\<forall>ls. r = Inr ls \<longrightarrow> ls \<noteq> [] \<and> lines_ok ls)"
proof (cases "sd_offered st")
  case None
  show ?thesis
  proof (cases "OfferCrypto rnd []")
    case (Inl e)
    then have "st' = st\<lparr>sd_offered := None\<rparr>" "r = Inl (SDESKeyGen e)" using assms(2) None by (auto simp: initialOffer_def)
    then show ?thesis by blast
  next
    case (Inr ls)
    then have "st' = st\<lparr>sd_offered := Some ls\<rparr>" "r = Inr ls" using assms(2) None by (auto simp: initialOffer_def)
    then show ?thesis using OfferCrypto_valid [OF assms(1) Inr] by auto
  qed
next
  case (Some ls)
  then have "st' = st\<lparr>sd_offered := Some ls\<rparr>" "r = Inr ls" using assms(2) by (auto simp: initialOffer_def)
  then show ?thesis using assms(3) Some by auto
qed

lemma inv_offered:
  assumes "leg_inv pol m P I" "ml_sdes m = Some st" "\<forall>ls. o' = Some ls \<longrightarrow> ls \<noteq> [] \<and> lines_ok ls" "\<forall>ls. r = Inr ls \<longrightarrow> ls \<noteq> [] \<and> lines_ok ls"
  shows "leg_inv pol (m\<lparr>ml_sdes := Some (st\<lparr>sd_offered := o'\<rparr>)\<rparr>) P (issued r I)"
  using assms by (auto simp: leg_inv_def issued_def split: sum.splits)

lemma offer_inv:
  assumes inv: "leg_inv pol m P I" and rnd: "\<forall>i. rnd_ok (rnd i)" and run: "sdesOffer rnd m = (m', r)"
  shows "leg_inv pol m' P (issued r I)"
proof (cases "ml_sdes m")
  case None
  then show ?thesis using inv run by (auto simp: sdesOffer_def leg_inv_def issued_def lines_ok_def)
next
  case (Some st)
  consider (a) "sd_policy st = srtpImpossible" | (b) "sd_on st" | (c) "sd_plain st" "\<not> sd_on st"
    | (d) "sd_policy st \<noteq> srtpImpossible" "\<not> sd_on st" "\<not> sd_plain st" by blast
  then show ?thesis
  proof cases
    case d
    obtain st' where i: "initialOffer rnd st = (st', r)" "m' = m\<lparr>ml_sdes := Some st'\<rparr>"
      using d run Some by (cases "initialOffer rnd st") (auto simp: sdesOffer_def)
    have "\<forall>ls. sd_offered st = Some ls \<longrightarrow> ls \<noteq> [] \<and> lines_ok ls" using inv Some by (auto simp: leg_inv_def)
    from initialOffer_inv [OF rnd i(1) this] inv_offered [OF inv Some] show ?thesis unfolding i(2) by blast
  qed (use inv run Some in \<open>auto simp: sdesOffer_def leg_inv_def issued_def lines_ok_def plan_ok_def split: if_splits\<close>)
qed

lemma plan_inv:
  assumes inv: "leg_inv pol m P I" and rnd: "rnd_ok rnd" and run: "planAnswer u up rnd a m = Inr p"
  shows "leg_inv pol m (insert p P) I"
proof (cases "ml_sdes m")
  case None
  then show ?thesis using inv run by (auto simp: planAnswer_def leg_inv_def plan_ok_def plan_zero_def)
next
  case (Some st)
  have pol: "sd_policy st = pol" using inv Some by (simp add: leg_inv_def)
  show ?thesis
  proof (cases "audio_SDES u up a")
    case False
    then have "p = plan_plain" "pol \<noteq> srtpRequired" "pol \<noteq> srtpImpossible" using run Some pol by (auto simp: planAnswer_def split: if_splits)
    then show ?thesis using inv by (auto simp: leg_inv_def plan_ok_def plan_plain_def plan_zero_def)
  next
    case True
    then obtain peer c where pc: "SelectCrypto (au_Crypto a) [] = Some peer" "pol \<noteq> srtpImpossible"
        "(if \<not> sd_on st \<or> cr_Suite (sd_local st) \<noteq> cr_Suite peer
          then NewCrypto rnd (cr_Tag peer) (cr_Suite peer) else Inr (sd_local st)) = Inr c"
        "p = \<lparr>pl_sdes = True, pl_plain = False, pl_local = c\<lparr>cr_Tag := cr_Tag peer\<rparr>, pl_peer = peer\<rparr>"
      using run Some pol by (auto simp: planAnswer_def split: if_splits option.splits sum.splits)
    have c: "crypto_Validate c = None \<and> cr_Suite c = cr_Suite peer"
      using pc(3) inv Some NewCrypto_valid [OF rnd] by (auto simp: leg_inv_def plan_ok_def split: if_splits)
    have "plan_ok p" using c retag_valid SelectCrypto_valid [OF pc(1)] by (simp add: pc(4) plan_ok_def)
    then show ?thesis using inv pc(2,4) by (auto simp: leg_inv_def)
  qed
qed

lemma check_inv:
  assumes inv: "leg_inv pol m P I" and a: "lines_ok (au_Crypto a)" and ls: "ls \<in> I" and run: "checkAnswer u up a ls m = Inr p"
  shows "leg_inv pol m (insert p P) I"
proof (cases "ml_sdes m")
  case None
  then show ?thesis using inv run by (auto simp: checkAnswer_def leg_inv_def plan_ok_def plan_zero_def)
next
  case (Some st)
  have pol: "sd_policy st = pol" and req: "pol = srtpRequired \<Longrightarrow> ls \<noteq> []" using inv Some ls by (auto simp: leg_inv_def)
  consider (plain) "p = plan_plain" "pol \<noteq> srtpRequired" "pol \<noteq> srtpImpossible"
    | (srtp) d c where "match_lines (au_Crypto a) ls = Some (d, c)" "pol \<noteq> srtpImpossible"
        "p = \<lparr>pl_sdes = True, pl_plain = False, pl_local = d, pl_peer = c\<rparr>"
    using run Some pol req by (auto simp: checkAnswer_def split: if_splits option.splits)
  then show ?thesis
  proof cases
    case plain
    then show ?thesis using inv by (auto simp: leg_inv_def plan_ok_def plan_plain_def plan_zero_def)
  next
    case srtp
    have "lines_ok ls" using inv ls by (simp add: leg_inv_def)
    then have "plan_ok p" using match_lines_Some [OF srtp(1)] a by (auto simp: srtp(3) plan_ok_def lines_ok_def)
    then show ?thesis using inv srtp(2,3) by (auto simp: leg_inv_def)
  qed
qed

lemma commit_inv:
  assumes mk: "mk_ok mk" and inv: "leg_inv pol m P I" and p: "p \<in> P" and run: "commit mk p m = (m', e)"
  shows "leg_inv pol m' P I \<and> (ml_rtp m \<noteq> None \<longrightarrow> e = None) \<and> (leg_SDES m \<longrightarrow> leg_SDES m')"
proof (cases "ml_sdes m")
  case None
  then show ?thesis using inv run by (auto simp: commit_def)
next
  case (Some st)
  have ok: "plan_ok p" and pol: "pol \<noteq> srtpImpossible" "pol = srtpRequired \<Longrightarrow> \<not> pl_plain p" using inv p by (auto simp: leg_inv_def)
  consider (none) "\<not> pl_sdes p" "\<not> pl_plain p" | (plain) "pl_plain p" "\<not> pl_sdes p" | (noleg) "pl_sdes p" "ml_rtp m = None"
    | (srtp) r where "pl_sdes p" "ml_rtp m = Some r" by (metis not_None_eq)
  then show ?thesis
  proof cases
    case none
    then show ?thesis using inv run Some by (simp add: commit_def)
  next
    case plain
    then show ?thesis using inv run Some pol by (auto simp: commit_def leg_inv_def leg_SDES_def split: if_splits)
  next
    case noleg
    then have "m' = m" using run Some ok by (auto simp: commit_def plan_ok_def)
    then show ?thesis using inv noleg by simp
  next
    case srtp
    obtain r' where "m' = m\<lparr>ml_rtp := Some r', ml_sdes := Some (st\<lparr>sd_on := True, sd_plain := False, sd_local := pl_local p, sd_peer := pl_peer p\<rparr>)\<rparr>"
        "e = None" "keys_of r' = Some (mediaKey (pl_peer p), True, mediaKey (pl_local p), True)"
      using commit_keys [OF mk ok srtp(1) Some srtp(2)] run by auto
    then show ?thesis using inv Some ok pol(1) srtp(1) by (auto simp: leg_inv_def leg_SDES_def plan_ok_def)
  qed
qed

lemma leg_reach_inv: "leg_reach u up mk pol m P I \<Longrightarrow> mk_ok mk \<Longrightarrow> leg_inv pol m P I"
proof (induction rule: leg_reach.induct)
  case (lr_new rl0)
  then show ?case by (cases pol) (auto simp: leg_inv_def newSDESLeg_def)
next
  case (lr_set m P I rnd m' r)
  then obtain st where s1: "ml_sdes m = Some st" by auto
  obtain st' where s: "ml_sdes m = Some st" "initialOffer rnd st = (st', r)" "m' = m\<lparr>ml_sdes := Some st'\<rparr>"
    using lr_set.hyps(3) s1 by (cases "initialOffer rnd st") (auto simp: answerSet_def)
  have inv: "leg_inv pol m P I" using lr_set by simp
  have "\<forall>ls. sd_offered st = Some ls \<longrightarrow> ls \<noteq> [] \<and> lines_ok ls" using inv s by (auto simp: leg_inv_def)
  from initialOffer_inv [OF lr_set.hyps(2) s(2) this] inv_offered [OF inv s(1)] show ?case unfolding s(3) by blast
next
  case (lr_packet m P I rl rl')
  then show ?case by (auto simp: leg_inv_def split: option.splits)
qed (blast intro: offer_inv plan_inv check_inv dest: commit_inv)+

section \<open>Properties\<close>

lemma srtp_never_weakened_parts:
  assumes "leg_reach u up mk pol m P I" and "mk_ok mk"
  shows "pol = srtpRequired \<Longrightarrow> snd (sdesOffer rnd m) \<noteq> Inr [] \<and> (\<forall>p \<in> P. \<not> pl_plain p) \<and>
      (\<not> audio_SDES u up a \<longrightarrow> planAnswer u up rnd' a m \<in> {Inl errSDESDowngrade, Inl errSDESRequired})"
    and "pol = srtpImpossible \<Longrightarrow> snd (sdesOffer rnd m) = Inl errSDESInsecure \<and> planAnswer u up rnd' a m = Inl errSDESInsecure \<and>
      checkAnswer u up a ls m = Inl errSDESInsecure \<and> \<not> leg_SDES m"
    and "leg_SDES m \<Longrightarrow> p \<in> P \<Longrightarrow> leg_SDES (fst (commit mk p m))"
    and "leg_SDES m \<Longrightarrow> (\<exists>c. sdesOffer rnd m = (m, Inr [c])) \<and>
      (\<not> audio_SDES u up a \<longrightarrow> planAnswer u up rnd' a m = Inl errSDESDowngrade \<and>
         (ls \<noteq> [] \<longrightarrow> checkAnswer u up a ls m = Inl errSDESDowngrade))"
proof -
  note inv = leg_reach_inv [OF assms]
  show "snd (sdesOffer rnd m) \<noteq> Inr [] \<and> (\<forall>p \<in> P. \<not> pl_plain p) \<and>
      (\<not> audio_SDES u up a \<longrightarrow> planAnswer u up rnd' a m \<in> {Inl errSDESDowngrade, Inl errSDESRequired})" if pol: "pol = srtpRequired"
  proof -
    obtain st where st: "ml_sdes m = Some st" using inv pol by (auto simp: leg_inv_def split: option.splits)
    have "sd_policy st = srtpRequired" "\<not> sd_plain st" "\<forall>ls. sd_offered st = Some ls \<longrightarrow> ls \<noteq> []"
      using inv pol st by (auto simp: leg_inv_def)
    moreover have "snd (initialOffer rnd st) \<noteq> Inr []" if "\<forall>ls. sd_offered st = Some ls \<longrightarrow> ls \<noteq> []"
    proof (cases "sd_offered st")
      case None
      have "length ls = 3" if "offer_lines rnd 0 SupportedSuites = Inr ls" for ls
      proof -
        have "offer_lines rnd i ss = Inr ls \<Longrightarrow> length ls = length ss" for i ss ls
          by (induction ss arbitrary: i ls) (auto split: sum.splits)
        from this [OF that] show ?thesis by (simp add: SupportedSuites_def)
      qed
      then show ?thesis using None by (auto simp: initialOffer_def OfferCrypto_def split: sum.splits)
    qed (use that in \<open>auto simp: initialOffer_def\<close>)
    ultimately show ?thesis using inv pol st
      by (auto simp: sdesOffer_def planAnswer_def leg_inv_def case_prod_beta Let_def)
  qed
  show "snd (sdesOffer rnd m) = Inl errSDESInsecure \<and> planAnswer u up rnd' a m = Inl errSDESInsecure \<and>
      checkAnswer u up a ls m = Inl errSDESInsecure \<and> \<not> leg_SDES m" if "pol = srtpImpossible"
    using inv that by (auto simp: leg_inv_def sdesOffer_def planAnswer_def checkAnswer_def leg_SDES_def split: option.splits)
  show "leg_SDES (fst (commit mk p m))" if on: "leg_SDES m" and p: "p \<in> P"
    using commit_inv [OF assms(2) inv p prod.collapse [symmetric]] on by blast
  show "(\<exists>c. sdesOffer rnd m = (m, Inr [c])) \<and>
      (\<not> audio_SDES u up a \<longrightarrow> planAnswer u up rnd' a m = Inl errSDESDowngrade \<and>
         (ls \<noteq> [] \<longrightarrow> checkAnswer u up a ls m = Inl errSDESDowngrade))" if on: "leg_SDES m"
  proof -
    obtain st where st: "ml_sdes m = Some st" "sd_on st" using on by (auto simp: leg_SDES_def split: option.splits)
    then have "sd_policy st \<noteq> srtpImpossible" using inv by (auto simp: leg_inv_def)
    then show ?thesis using st by (simp add: sdesOffer_def planAnswer_def checkAnswer_def)
  qed
qed

text \<open>
  C10: SRTP is never silently weakened. In every state a leg reaches, with plans of any forks and
  re-offers committed in any order: where SRTP is required, no offer goes out without crypto lines
  and no plan settles on plain RTP; where it is required and the signalling is not safe, every offer
  and answer is refused; and once a leg is on SRTP, nothing takes it back: its offers repeat the
  one line in force, and a plain offer or answer is an error.
\<close>

theorem srtp_never_weakened:
  assumes "leg_reach u up mk pol m P I" and "mk_ok mk"
  shows "(pol = srtpRequired \<longrightarrow>
      (snd (sdesOffer rnd m) \<noteq> Inr [] \<and> (\<forall>p \<in> P. \<not> pl_plain p) \<and>
      (\<not> audio_SDES u up a \<longrightarrow> planAnswer u up rnd' a m \<in> {Inl errSDESDowngrade, Inl errSDESRequired}))) \<and>
    (pol = srtpImpossible \<longrightarrow>
      (snd (sdesOffer rnd m) = Inl errSDESInsecure \<and> planAnswer u up rnd' a m = Inl errSDESInsecure \<and>
      checkAnswer u up a ls m = Inl errSDESInsecure \<and> \<not> leg_SDES m)) \<and>
    (leg_SDES m \<longrightarrow>
      p \<in> P \<longrightarrow>
      (leg_SDES (fst (commit mk p m)))) \<and>
    (leg_SDES m \<longrightarrow>
      ((\<exists>c. sdesOffer rnd m = (m, Inr [c])) \<and>
      (\<not> audio_SDES u up a \<longrightarrow> planAnswer u up rnd' a m = Inl errSDESDowngrade \<and>
         (ls \<noteq> [] \<longrightarrow> checkAnswer u up a ls m = Inl errSDESDowngrade))))"
proof -
  have c1: "(pol = srtpRequired \<longrightarrow>
      (snd (sdesOffer rnd m) \<noteq> Inr [] \<and> (\<forall>p \<in> P. \<not> pl_plain p) \<and>
      (\<not> audio_SDES u up a \<longrightarrow> planAnswer u up rnd' a m \<in> {Inl errSDESDowngrade, Inl errSDESRequired})))"
    by (intro impI) (rule srtp_never_weakened_parts(1) [OF assms]; assumption)
  have c2: "(pol = srtpImpossible \<longrightarrow>
      (snd (sdesOffer rnd m) = Inl errSDESInsecure \<and> planAnswer u up rnd' a m = Inl errSDESInsecure \<and>
      checkAnswer u up a ls m = Inl errSDESInsecure \<and> \<not> leg_SDES m))"
    by (intro impI) (rule srtp_never_weakened_parts(2) [OF assms]; assumption)
  have c3: "(leg_SDES m \<longrightarrow>
      p \<in> P \<longrightarrow>
      (leg_SDES (fst (commit mk p m))))"
    by (intro impI) (rule srtp_never_weakened_parts(3) [OF assms]; assumption)
  have c4: "(leg_SDES m \<longrightarrow>
      ((\<exists>c. sdesOffer rnd m = (m, Inr [c])) \<and>
      (\<not> audio_SDES u up a \<longrightarrow> planAnswer u up rnd' a m = Inl errSDESDowngrade \<and>
         (ls \<noteq> [] \<longrightarrow> checkAnswer u up a ls m = Inl errSDESDowngrade))))"
    by (intro impI) (rule srtp_never_weakened_parts(4) [OF assms]; assumption)
  show ?thesis
    by (rule conjI [OF c1 conjI [OF c2 conjI [OF c3 c4]]])
qed

lemma srtp_keys_in_force_parts:
  assumes "leg_reach u up mk pol m P I" and "mk_ok mk"
  shows "leg_SDES m \<Longrightarrow> \<exists>st r. ml_sdes m = Some st \<and> ml_rtp m = Some r \<and>
      keys_of r = Some (mediaKey (sd_peer st), True, mediaKey (sd_local st), True) \<and>
      cr_Tag (sd_local st) = cr_Tag (sd_peer st) \<and> cr_Suite (sd_local st) = cr_Suite (sd_peer st) \<and> crypto_Validate (sd_local st) = None"
    and "p \<in> P \<Longrightarrow> ml_rtp m \<noteq> None \<Longrightarrow> snd (commit mk p m) = None"
    and "p \<in> P \<Longrightarrow> pl_sdes p \<Longrightarrow> ml_rtp m = Some r \<Longrightarrow> ml_sdes m \<noteq> None \<Longrightarrow> \<exists>r'. ml_rtp (fst (commit mk p m)) = Some r' \<and>
      keys_of r' = Some (mediaKey (pl_peer p), True, mediaKey (pl_local p), True) \<and> answerLines p = [pl_local p]"
proof -
  note inv = leg_reach_inv [OF assms]
  show "\<exists>st r. ml_sdes m = Some st \<and> ml_rtp m = Some r \<and>
      keys_of r = Some (mediaKey (sd_peer st), True, mediaKey (sd_local st), True) \<and>
      cr_Tag (sd_local st) = cr_Tag (sd_peer st) \<and> cr_Suite (sd_local st) = cr_Suite (sd_peer st) \<and> crypto_Validate (sd_local st) = None"
    if "leg_SDES m"
    using inv that by (auto simp: leg_inv_def leg_SDES_def plan_ok_def split: option.splits)
  show "snd (commit mk p m) = None" if p: "p \<in> P" and r: "ml_rtp m \<noteq> None"
    using commit_inv [OF assms(2) inv p prod.collapse [symmetric]] r by blast
  show "\<exists>r'. ml_rtp (fst (commit mk p m)) = Some r' \<and>
      keys_of r' = Some (mediaKey (pl_peer p), True, mediaKey (pl_local p), True) \<and> answerLines p = [pl_local p]"
    if p: "p \<in> P" "pl_sdes p" and r: "ml_rtp m = Some r" and st: "ml_sdes m \<noteq> None"
  proof -
    obtain st' where "ml_sdes m = Some st'" using st by auto
    moreover have "plan_ok p" using inv p(1) by (simp add: leg_inv_def)
    ultimately show ?thesis using commit_keys [OF assms(2) _ p(2) _ r] p(2) by (fastforce simp: answerLines_def)
  qed
qed

text \<open>
  C23: Both ends use the same keys. While a leg is on SRTP, the relay decrypts with exactly the key of the
  far end's line and encrypts with exactly FreeSBC's own, and the two lines share tag and suite.
  Committing a plan on a leg with a plain relay never fails, and puts the plan's keys in force.
\<close>

theorem srtp_keys_in_force:
  assumes "leg_reach u up mk pol m P I" and "mk_ok mk"
  shows "(leg_SDES m \<longrightarrow>
      (\<exists>st r. ml_sdes m = Some st \<and> ml_rtp m = Some r \<and>
      keys_of r = Some (mediaKey (sd_peer st), True, mediaKey (sd_local st), True) \<and>
      cr_Tag (sd_local st) = cr_Tag (sd_peer st) \<and> cr_Suite (sd_local st) = cr_Suite (sd_peer st) \<and> crypto_Validate (sd_local st) = None)) \<and>
    (p \<in> P \<longrightarrow>
      ml_rtp m \<noteq> None \<longrightarrow>
      (snd (commit mk p m) = None)) \<and>
    (p \<in> P \<longrightarrow>
      pl_sdes p \<longrightarrow>
      ml_rtp m = Some r \<longrightarrow>
      ml_sdes m \<noteq> None \<longrightarrow>
      (\<exists>r'. ml_rtp (fst (commit mk p m)) = Some r' \<and>
      keys_of r' = Some (mediaKey (pl_peer p), True, mediaKey (pl_local p), True) \<and> answerLines p = [pl_local p]))"
proof -
  have c1: "(leg_SDES m \<longrightarrow>
      (\<exists>st r. ml_sdes m = Some st \<and> ml_rtp m = Some r \<and>
      keys_of r = Some (mediaKey (sd_peer st), True, mediaKey (sd_local st), True) \<and>
      cr_Tag (sd_local st) = cr_Tag (sd_peer st) \<and> cr_Suite (sd_local st) = cr_Suite (sd_peer st) \<and> crypto_Validate (sd_local st) = None))"
    by (intro impI) (rule srtp_keys_in_force_parts(1) [OF assms]; assumption)
  have c2: "(p \<in> P \<longrightarrow>
      ml_rtp m \<noteq> None \<longrightarrow>
      (snd (commit mk p m) = None))"
    by (intro impI) (rule srtp_keys_in_force_parts(2) [OF assms]; assumption)
  have c3: "(p \<in> P \<longrightarrow>
      pl_sdes p \<longrightarrow>
      ml_rtp m = Some r \<longrightarrow>
      ml_sdes m \<noteq> None \<longrightarrow>
      (\<exists>r'. ml_rtp (fst (commit mk p m)) = Some r' \<and>
      keys_of r' = Some (mediaKey (pl_peer p), True, mediaKey (pl_local p), True) \<and> answerLines p = [pl_local p]))"
    by (intro impI) (rule srtp_keys_in_force_parts(3) [OF assms]; assumption)
  show ?thesis
    by (rule conjI [OF c1 conjI [OF c2 c3]])
qed

text \<open>A client offers one line under a required policy; FreeSBC answers it.\<close>

definition sample_line :: crypto where
  "sample_line = \<lparr>cr_Tag = 1, cr_Suite = SuiteAEADAES128GCM, cr_Key = replicate 16 0, cr_Salt = replicate 12 0\<rparr>"

definition sample_offer :: audio where
  "sample_offer = \<lparr>au_Port = 9, au_Proto = [''RTP'', ''SAVP''], au_Address = V4 1, Hold = False, au_Codecs = [], au_Direction = SendRecv,
     RTCPPort = 0, au_RTCPMux = False, au_ICEUfrag = [], au_ICEPwd = [], au_Fingerprint = None, au_Setup = [], au_Crypto = [sample_line]\<rparr>"

definition sample_sdes_plan :: sdes_plan where
  "sample_sdes_plan = \<lparr>pl_sdes = True, pl_plain = False,
     pl_local = \<lparr>cr_Tag = 1, cr_Suite = SuiteAEADAES128GCM, cr_Key = replicate 16 1, cr_Salt = replicate 12 1\<rparr>, pl_peer = sample_line\<rparr>"

definition sample_leg :: "unit relay \<Rightarrow> unit media_leg" where
  "sample_leg r = \<lparr>ml_sdes = newSDESLeg srtpRequired, ml_rtp = Some r\<rparr>"

lemma sample_planned: "planAnswer ascii_tables id (\<lambda>n. Some (replicate n 1)) sample_offer (sample_leg r) = Inr sample_sdes_plan"
proof -
  have "audio_SDES ascii_tables id sample_offer" by code_simp
  moreover have "SelectCrypto [sample_line] [] = Some sample_line" by code_simp
  moreover have "NewCrypto (\<lambda>n. Some (replicate n 1)) 1 SuiteAEADAES128GCM = Inr (pl_local sample_sdes_plan)" by code_simp
  ultimately show ?thesis
    by (simp add: planAnswer_def sample_leg_def newSDESLeg_def sample_offer_def sample_sdes_plan_def sample_line_def)
qed

lemma sample_leg_reach: "leg_reach ascii_tables id (\<lambda>_. Some ()) srtpRequired (sample_leg r) {sample_sdes_plan} {}"
  unfolding sample_leg_def
  by (rule lr_plan [OF lr_new _ sample_planned [unfolded sample_leg_def]]) (simp add: rnd_ok_def)

theorem srtp_never_weakened_witness:
  "\<forall>r. \<not> pl_plain sample_sdes_plan \<and> snd (sdesOffer (\<lambda>_ n. Some (replicate n 1)) (sample_leg r)) \<noteq> Inr []"
proof -
  have "mk_ok (\<lambda>_. Some ())" by (simp add: mk_ok_def)
  from srtp_never_weakened [THEN conjunct1, THEN mp, OF sample_leg_reach this refl] show ?thesis by auto
qed

theorem srtp_keys_in_force_witness:
  "\<forall>r. \<exists>r'. ml_rtp (fst (commit (\<lambda>_. Some ()) sample_sdes_plan (sample_leg r))) = Some r' \<and>
     keys_of r' = Some (mediaKey sample_line, True, mediaKey (pl_local sample_sdes_plan), True)"
proof
  fix r
  have mk: "mk_ok (\<lambda>_. Some ())" by (simp add: mk_ok_def)
  have p: "sample_sdes_plan \<in> {sample_sdes_plan}" "pl_sdes sample_sdes_plan" "pl_peer sample_sdes_plan = sample_line"
    by (simp_all add: sample_sdes_plan_def)
  have "ml_rtp (sample_leg r) = Some r" "ml_sdes (sample_leg r) \<noteq> None" by (simp_all add: sample_leg_def newSDESLeg_def)
  from srtp_keys_in_force [THEN conjunct2, THEN conjunct2, THEN mp, THEN mp, THEN mp, THEN mp, OF sample_leg_reach mk p(1,2) this] p(3)
  show "\<exists>r'. ml_rtp (fst (commit (\<lambda>_. Some ()) sample_sdes_plan (sample_leg r))) = Some r' \<and>
     keys_of r' = Some (mediaKey sample_line, True, mediaKey (pl_local sample_sdes_plan), True)" by auto
qed

end
