(* ===== verification/Dialog.thy ===== *)
theory Dialog
  imports Edge_Routing Sdes_Leg
begin

text \<open>
  The calls of the proxy, \<^verbatim>\<open>src/internal/edge/dialog.go\<close>, with the answers and ACKs a dialog is owed
  (\<^verbatim>\<open>offerless.go\<close>, \<^verbatim>\<open>ack.go\<close>) and the route of a response (\<^verbatim>\<open>legRoute\<close> of \<^verbatim>\<open>invite_leg.go\<close>).

  Handlers hold pointers to records, to early forks and to INVITE attempts, and use them after the
  table has let go of them; so these live in heaps of the table and a pointer is a number. Media
  sessions and relayed responses are opaque numbers. Every operation runs under the one mutex and is
  one function; what \<^verbatim>\<open>end\<close> does after the mutex is released (closing the media session, releasing the
  hook, the log line) is part of its step, as the state transition has elected its one caller.
  \<open>dt_closes\<close> lists the sessions closed, \<open>dt_ended\<close> the log lines of calls that were up. Timers are
  flags: firing one is a call of the operation it runs.

  Four operations take the mutex more than once in the source and are one step here:
  \<open>endUnlessUp\<close> checks the state and then ends, \<open>closeAll\<close> lists the records and then ends each of
  them, and \<open>ackExpired\<close> and \<open>owedExpired\<close> check the hook, take the miss and then end. What another
  goroutine does between those steps is covered only as far as \<open>endBy\<close> itself decides again which
  caller ends the record.
\<close>

section \<open>Model: reasons\<close>

datatype dialog_state = dialogEarly | dialogConfirmed | dialogEnded

datatype end_reason = endByeCaller | endByeCallee | endByeUnanswered | endRTPSilence | endDTLSFailure | endReinviteRefused
  | endAnswerTimeout | endAnswerUnusable | endMediaFault | endShutdown | endAckTimeout

fun end_reason_label :: "end_reason \<Rightarrow> string" where
  "end_reason_label endByeCaller = ''bye_caller''"
| "end_reason_label endByeCallee = ''bye_callee''"
| "end_reason_label endByeUnanswered = ''bye_unanswered''"
| "end_reason_label endRTPSilence = ''rtp_silence''"
| "end_reason_label endDTLSFailure = ''dtls_failure''"
| "end_reason_label endReinviteRefused = ''reinvite_refused''"
| "end_reason_label endAnswerTimeout = ''answer_timeout''"
| "end_reason_label endAnswerUnusable = ''answer_unusable''"
| "end_reason_label endMediaFault = ''media_fault''"
| "end_reason_label endShutdown = ''shutdown''"
| "end_reason_label endAckTimeout = ''ack_timeout''"

datatype terminator = byCaller | byCallee | byProxy

fun reason_terminator :: "end_reason \<Rightarrow> terminator" where
  "reason_terminator endByeCaller = byCaller"
| "reason_terminator endByeCallee = byCallee"
| "reason_terminator _ = byProxy"

fun endReasonOf :: "close_cause \<Rightarrow> end_reason" where
  "endReasonOf CloseSilence = endRTPSilence"
| "endReasonOf CloseLegFailed = endDTLSFailure"
| "endReasonOf _ = endMediaFault"

section \<open>Model: records\<close>

record invite_attempt =
  ia_sent :: bool
  ia_cancelled :: bool

record dialog_route =
  publicRemote :: string
  privateRemote :: string
  dr_transport :: string
  publicContact :: uri
  privateContact :: uri

definition uri_zero :: uri where
  "uri_zero = \<lparr>u_User = [], u_Host = [], u_Port = 0, u_Params = []\<rparr>"

definition route_zero :: dialog_route where
  "route_zero = \<lparr>publicRemote = [], privateRemote = [], dr_transport = [], publicContact = uri_zero, privateContact = uri_zero\<rparr>"

record sdp_origin =
  or_id :: "64 word"
  or_version :: "64 word"

text \<open>\<open>nanos\<close> is the clock in nanoseconds.\<close>

definition newSDPOrigin :: "int \<Rightarrow> sdp_origin" where
  "newSDPOrigin nanos = \<lparr>or_id = word_of_int nanos, or_version = 0\<rparr>"

definition origin_next :: "sdp_origin \<Rightarrow> sdp_origin" where
  "origin_next o1 = o1\<lparr>or_version := or_version o1 + 1\<rparr>"

record early_fork =
  fk_answer :: "string option"
  fk_codecs :: "codec list"
  fk_remote :: addrport
  fk_rtcp :: addrport
  fk_origin :: sdp_origin
  fk_route :: dialog_route
  fk_routed :: bool
  fk_to :: uri
  fk_toSet :: bool
  fk_sdes :: sdes_plan

definition new_fork :: "int \<Rightarrow> early_fork" where
  "new_fork nanos = \<lparr>fk_answer = None, fk_codecs = [], fk_remote = ap_zero, fk_rtcp = ap_zero, fk_origin = newSDPOrigin nanos,
     fk_route = route_zero, fk_routed = False, fk_to = uri_zero, fk_toSet = False, fk_sdes = plan_zero\<rparr>"

record owed_answer =
  ow_ref :: nat
  ow_offerer :: plane
  ow_answerer :: plane
  ow_fork :: "nat option"
  ow_cseq :: "32 word"
  ow_release :: bool
  ow_timer :: bool

record ack_answer =
  aa_answerer :: plane
  aa_cseq :: "32 word"
  aa_body :: string

record ack_owed =
  ak_ref :: nat
  ak_plane :: plane
  ak_cseq :: "32 word"
  ak_timer :: bool
  ak_counted :: bool

record dialog =
  d_callID :: string
  callerTag :: string
  calleeTag :: string
  callerPlane :: plane
  d_state :: dialog_state
  inFlight :: "nat option"
  d_route :: dialog_route
  d_carrier :: string
  d_srtp :: srtp_policy
  d_cancelled :: bool
  callerGone :: bool
  callerURI :: uri
  calleeURI :: uri
  d_cseq :: "(32 word) \<times> (32 word)"
  confirmedAt :: gtime
  d_media :: "nat option"
  d_forks :: "(string, nat) gomap option"
  d_applied :: "nat option"
  d_ok :: "nat option"
  d_origin :: "plane \<Rightarrow> sdp_origin"
  updateOffers :: int
  reInviteOffers :: int
  d_owed :: "owed_answer option"
  d_ack :: "ack_owed option"
  d_lastAck :: "ack_answer option"
  relaxedNotify :: bool
  hook_live :: bool
  hook_rejected :: "string list"

record dialog_table =
  byCallID :: "(string, nat list) gomap"
  dt_closed :: bool
  dt_sessions :: int
  dt_dialogs :: "nat \<Rightarrow> dialog"
  dt_nextD :: nat
  dt_forks :: "nat \<Rightarrow> early_fork"
  dt_nextF :: nat
  dt_attempts :: "nat \<Rightarrow> invite_attempt"
  dt_nextA :: nat
  dt_nextO :: nat
  dt_closes :: "nat list"
  dt_ended :: "(nat \<times> end_reason \<times> terminator) list"

text \<open>What the table reads of a request: Call-ID, tags, addresses and the CSeq number.\<close>

record dlg_request =
  q_CallID :: string
  q_FromTag :: string
  q_ToTag :: string
  q_From :: "uri option"
  q_To :: "uri option"
  q_CSeq :: "(32 word) option"
  q_Source :: string
  q_Contact :: "uri option"

definition CSeqNumber :: "dlg_request \<Rightarrow> 32 word" where
  "CSeqNumber q = (case q_CSeq q of Some n \<Rightarrow> n | None \<Rightarrow> 1)"

definition new_dialog :: "int \<Rightarrow> int \<Rightarrow> dlg_request \<Rightarrow> plane \<Rightarrow> dialog" where
  "new_dialog nanos nanos' q p = \<lparr>d_callID = q_CallID q, callerTag = q_FromTag q, calleeTag = [], callerPlane = p, d_state = dialogEarly,
     inFlight = None, d_route = route_zero, d_carrier = [], d_srtp = srtpOff, d_cancelled = False, callerGone = False,
     callerURI = (case q_From q of Some x \<Rightarrow> x | None \<Rightarrow> uri_zero), calleeURI = (case q_To q of Some x \<Rightarrow> x | None \<Rightarrow> uri_zero),
     d_cseq = (CSeqNumber q, 0), confirmedAt = t_zero, d_media = None, d_forks = Some [], d_applied = None, d_ok = None,
     d_origin = (\<lambda>pl. case pl of planePublic \<Rightarrow> newSDPOrigin nanos | planePrivate \<Rightarrow> newSDPOrigin nanos'),
     updateOffers = 0, reInviteOffers = 0, d_owed = None, d_ack = None, d_lastAck = None, relaxedNotify = False,
     hook_live = True, hook_rejected = []\<rparr>"

definition newDialogTable :: dialog_table where
  "newDialogTable = \<lparr>byCallID = [], dt_closed = False, dt_sessions = 0, dt_dialogs = (\<lambda>_. undefined), dt_nextD = 0,
     dt_forks = (\<lambda>_. undefined), dt_nextF = 0, dt_attempts = (\<lambda>_. undefined), dt_nextA = 0, dt_nextO = 0, dt_closes = [], dt_ended = []\<rparr>"

definition on_dialog :: "nat \<Rightarrow> (dialog \<Rightarrow> dialog) \<Rightarrow> dialog_table \<Rightarrow> dialog_table" where
  "on_dialog r f t = t\<lparr>dt_dialogs := (dt_dialogs t)(r := f (dt_dialogs t r))\<rparr>"

definition on_fork :: "nat \<Rightarrow> (early_fork \<Rightarrow> early_fork) \<Rightarrow> dialog_table \<Rightarrow> dialog_table" where
  "on_fork i f t = t\<lparr>dt_forks := (dt_forks t)(i := f (dt_forks t i))\<rparr>"

definition on_attempt :: "nat \<Rightarrow> (invite_attempt \<Rightarrow> invite_attempt) \<Rightarrow> dialog_table \<Rightarrow> dialog_table" where
  "on_attempt a f t = t\<lparr>dt_attempts := (dt_attempts t)(a := f (dt_attempts t a))\<rparr>"

section \<open>Model: opening and finding\<close>

datatype begin_result = beginOK | beginMerged | beginClosed | beginFull

definition begin_dialog :: "int \<Rightarrow> int \<Rightarrow> dlg_request \<Rightarrow> plane \<Rightarrow> int \<Rightarrow> dialog_table \<Rightarrow> dialog_table \<times> nat option \<times> begin_result" where
  "begin_dialog nanos nanos' q p limit t =
     (let same = m_get0 [] (byCallID t) (q_CallID q); r = dt_nextD t in
      if dt_closed t then (t, None, beginClosed)
      else if list_ex (\<lambda>i. d_state (dt_dialogs t i) = dialogEarly \<and> callerTag (dt_dialogs t i) = q_FromTag q) same
        then (t, None, beginMerged)
      else if limit > 0 \<and> dt_sessions t \<ge> limit then (t, None, beginFull)
      else (t\<lparr>byCallID := m_set (q_CallID q) (same @ [r]) (byCallID t), dt_sessions := dt_sessions t + 1,
              dt_dialogs := (dt_dialogs t)(r := new_dialog nanos nanos' q p), dt_nextD := r + 1\<rparr>, Some r, beginOK))"

definition early :: "string \<Rightarrow> string \<Rightarrow> dialog_table \<Rightarrow> nat option" where
  "early callID tag t = find (\<lambda>i. d_state (dt_dialogs t i) = dialogEarly \<and> callerTag (dt_dialogs t i) = tag) (m_get0 [] (byCallID t) callID)"

text \<open>The flag is \<^verbatim>\<open>fromCaller\<close>.\<close>

fun lookup_scan :: "string \<Rightarrow> string \<Rightarrow> dialog_table \<Rightarrow> nat list \<Rightarrow> (nat \<times> bool) option" where
  "lookup_scan ft tt t [] = None"
| "lookup_scan ft tt t (i # is) = (let d = dt_dialogs t i in
     if d_state d \<noteq> dialogConfirmed then lookup_scan ft tt t is
     else if ft = callerTag d \<and> tt = calleeTag d then Some (i, True)
     else if ft = calleeTag d \<and> tt = callerTag d then Some (i, False)
     else lookup_scan ft tt t is)"

definition dlg_lookup :: "string \<Rightarrow> string \<Rightarrow> string \<Rightarrow> dialog_table \<Rightarrow> (nat \<times> bool) option" where
  "dlg_lookup callID ft tt t =
     (if ft = [] \<or> tt = [] then None else lookup_scan ft tt t (m_get0 [] (byCallID t) callID))"

definition fork_at :: "dialog \<Rightarrow> string \<Rightarrow> nat option" where
  "fork_at d tag = (case d_forks d of None \<Rightarrow> None | Some m \<Rightarrow> m_get m tag)"

fun early_scan :: "string \<Rightarrow> string \<Rightarrow> dialog_table \<Rightarrow> nat list \<Rightarrow> (nat \<times> dialog_route \<times> bool) option" where
  "early_scan ft tt t [] = None"
| "early_scan ft tt t (i # is) = (let d = dt_dialogs t i in
     if d_state d \<noteq> dialogEarly then early_scan ft tt t is
     else if ft = callerTag d \<or> tt = callerTag d then
       (let fromCaller = (ft = callerTag d); tag = (if fromCaller then tt else ft) in
        case fork_at d tag of
          Some f \<Rightarrow> if fk_routed (dt_forks t f) then Some (i, fk_route (dt_forks t f), fromCaller) else early_scan ft tt t is
        | None \<Rightarrow> early_scan ft tt t is)
     else early_scan ft tt t is)"

definition lookupEarly :: "string \<Rightarrow> string \<Rightarrow> string \<Rightarrow> dialog_table \<Rightarrow> (nat \<times> dialog_route \<times> bool) option" where
  "lookupEarly callID ft tt t =
     (if ft = [] \<or> tt = [] then None else early_scan ft tt t (m_get0 [] (byCallID t) callID))"

definition newestRoutedByCallID :: "string \<Rightarrow> dialog_table \<Rightarrow> (nat \<times> dialog_route) option" where
  "newestRoutedByCallID callID t =
     (case find (\<lambda>i. \<not> (d_state (dt_dialogs t i) = dialogEnded \<or> publicRemote (d_route (dt_dialogs t i)) = []))
        (rev (m_get0 [] (byCallID t) callID)) of
        None \<Rightarrow> None | Some i \<Rightarrow> Some (i, d_route (dt_dialogs t i)))"

definition in_table :: "dialog_table \<Rightarrow> nat list" where
  "in_table t = concat (map snd (byCallID t))"

definition usesRemote :: "unicode \<Rightarrow> string \<Rightarrow> string \<Rightarrow> dialog_table \<Rightarrow> bool" where
  "usesRemote u transport rem t = list_ex (\<lambda>i. let d = dt_dialogs t i in
     d_state d \<noteq> dialogEnded \<and> publicRemote (d_route d) = rem \<and> equal_fold u (dr_transport (d_route d)) transport) (in_table t)"

definition dlg_count :: "dialog_table \<Rightarrow> nat" where
  "dlg_count t = length (filter (\<lambda>i. d_state (dt_dialogs t i) = dialogConfirmed) (in_table t))"

record call_record =
  cr_ID :: string
  cr_CallID :: string
  cr_From :: string
  cr_To :: string
  cr_Start :: gtime

definition call_record_of :: "dialog \<Rightarrow> call_record" where
  "call_record_of d =
     (let edge_pub = ''edge:public''; edge_priv = ''edge:private'';
          switch = ''switch:'' @ privateRemote (d_route d); carr = ''carrier:'' @ d_carrier d;
          (from1, to1) = (if callerPlane d \<noteq> planePublic then (edge_priv, edge_pub) else (edge_pub, edge_priv));
          (from2, to2) = (if d_carrier d \<noteq> [] then
              (if callerPlane d = planePrivate then (switch, carr) else (carr, switch)) else (from1, to1))
      in \<lparr>cr_ID = ''edge:'' @ d_callID d @ '';'' @ callerTag d, cr_CallID = d_callID d, cr_From = from2, cr_To = to2,
          cr_Start = confirmedAt d\<rparr>)"

definition calls :: "dialog_table \<Rightarrow> call_record list" where
  "calls t = map (\<lambda>i. call_record_of (dt_dialogs t i)) (filter (\<lambda>i. d_state (dt_dialogs t i) = dialogConfirmed) (in_table t))"

section \<open>Model: ending\<close>

definition removeLocked :: "nat \<Rightarrow> dialog_table \<Rightarrow> dialog_table" where
  "removeLocked r t =
     (let c = d_callID (dt_dialogs t r); ds = remove1 r (m_get0 [] (byCallID t) c) in
      if ds = [] then t\<lparr>byCallID := m_del c (byCallID t)\<rparr> else t\<lparr>byCallID := m_set c ds (byCallID t)\<rparr>)"

definition endBy :: "end_reason \<Rightarrow> terminator \<Rightarrow> nat \<Rightarrow> dialog_table \<Rightarrow> dialog_table \<times> bool" where
  "endBy reason who r t =
     (let d = dt_dialogs t r in
      if d_state d = dialogEnded then (t, False)
      else let wasUp = (d_state d = dialogConfirmed);
               t1 = on_dialog r (\<lambda>d. d\<lparr>d_state := dialogEnded, inFlight := None, d_owed := None, d_ack := None, d_lastAck := None,
                 hook_live := False\<rparr>) t;
               t2 = (removeLocked r t1)\<lparr>dt_sessions := dt_sessions t - 1\<rparr>
        in case d_media d of
             None \<Rightarrow> (t2, wasUp)
           | Some s \<Rightarrow> (let t3 = t2\<lparr>dt_closes := dt_closes t2 @ [s]\<rparr> in
               if \<not> wasUp then (t3, False) else (t3\<lparr>dt_ended := dt_ended t3 @ [(r, reason, who)]\<rparr>, True)))"

definition end_dialog :: "end_reason \<Rightarrow> nat \<Rightarrow> dialog_table \<Rightarrow> dialog_table \<times> bool" where
  "end_dialog reason r t = endBy reason (reason_terminator reason) r t"

definition endUnlessUp :: "nat \<Rightarrow> dialog_table \<Rightarrow> dialog_table" where
  "endUnlessUp r t = (if d_state (dt_dialogs t r) = dialogEarly then fst (end_dialog endShutdown r t) else t)"

definition dlg_close :: "dialog_table \<Rightarrow> dialog_table" where
  "dlg_close t = t\<lparr>dt_closed := True\<rparr>"

definition closeAll :: "dialog_table \<Rightarrow> dialog_table" where
  "closeAll t = fold (\<lambda>r t. fst (end_dialog endShutdown r t)) (in_table t) t"

text \<open>The end of the media session, as the goroutine of \<^verbatim>\<open>confirm\<close> sees it; the flag says \<^verbatim>\<open>onMediaEnd\<close> is called.\<close>

definition media_done :: "close_cause \<Rightarrow> nat \<Rightarrow> dialog_table \<Rightarrow> dialog_table \<times> bool" where
  "media_done c r t = end_dialog (endReasonOf c) r t"

section \<open>Model: media and confirmation\<close>

definition attach :: "nat \<Rightarrow> nat \<Rightarrow> dialog_table \<Rightarrow> dialog_table \<times> bool" where
  "attach s r t =
     (if dt_closed t \<or> d_state (dt_dialogs t r) = dialogEnded then (t\<lparr>dt_closes := dt_closes t @ [s]\<rparr>, False)
      else (on_dialog r (\<lambda>d. d\<lparr>d_media := Some s\<rparr>) t, True))"

definition dlg_open :: "nat \<Rightarrow> dialog_table \<Rightarrow> bool" where
  "dlg_open r t \<longleftrightarrow> \<not> dt_closed t \<and> d_state (dt_dialogs t r) \<noteq> dialogEnded"

definition confirm :: "gtime \<Rightarrow> string \<Rightarrow> dialog_route \<Rightarrow> nat \<Rightarrow> dialog_table \<Rightarrow> dialog_table \<times> bool" where
  "confirm now tag route r t =
     (let d = dt_dialogs t r in
      if d_state d \<noteq> dialogEarly \<or> d_media d = None \<or> d_cancelled d then (t, False)
      else let answered = (case fork_at d tag of None \<Rightarrow> None | Some f \<Rightarrow> if fk_answer (dt_forks t f) \<noteq> None then Some f else None);
               src = (case answered of Some f \<Rightarrow> Some f | None \<Rightarrow> d_applied d);
               origins = (case src of None \<Rightarrow> d_origin d | Some f \<Rightarrow> (d_origin d)(callerPlane d := fk_origin (dt_forks t f)))
        in (on_dialog r (\<lambda>d. d\<lparr>d_state := dialogConfirmed, calleeTag := tag, confirmedAt := now, d_route := route,
              d_origin := origins, d_forks := None, d_applied := None\<rparr>) t, True))"

text \<open>\<^verbatim>\<open>legRoute\<close>: the caller's INVITE \<open>q\<close>, the callee's Contact and address.\<close>

definition legRoute :: "bool \<Rightarrow> string \<Rightarrow> string \<Rightarrow> dlg_request \<Rightarrow> uri option \<Rightarrow> dialog_route" where
  "legRoute fromPrivate transport calleeRemote q calleeContact =
     (let caller = (case q_Contact q of Some x \<Rightarrow> x | None \<Rightarrow> uri_zero); callee = (case calleeContact of Some x \<Rightarrow> x | None \<Rightarrow> uri_zero) in
      if fromPrivate then \<lparr>publicRemote = calleeRemote, privateRemote = q_Source q, dr_transport = transport,
          publicContact = callee, privateContact = caller\<rparr>
      else \<lparr>publicRemote = q_Source q, privateRemote = calleeRemote, dr_transport = transport,
          publicContact = caller, privateContact = callee\<rparr>)"

section \<open>Model: the CANCEL bridge\<close>

text \<open>\<^verbatim>\<open>track\<close> of a new attempt, which is made where it is tracked.\<close>

definition track :: "nat \<Rightarrow> dialog_table \<Rightarrow> dialog_table \<times> nat \<times> bool" where
  "track r t =
     (let a = dt_nextA t; t1 = t\<lparr>dt_attempts := (dt_attempts t)(a := \<lparr>ia_sent = False, ia_cancelled = False\<rparr>), dt_nextA := a + 1\<rparr> in
      if d_cancelled (dt_dialogs t r) then (t1, a, False)
      else (on_dialog r (\<lambda>d. d\<lparr>inFlight := Some a\<rparr>) t1, a, True))"

definition markSent :: "nat \<Rightarrow> dialog_table \<Rightarrow> dialog_table \<times> bool" where
  "markSent a t = (on_attempt a (\<lambda>x. x\<lparr>ia_sent := True\<rparr>) t, ia_cancelled (dt_attempts t a))"

definition untrack :: "nat \<Rightarrow> dialog_table \<Rightarrow> dialog_table" where
  "untrack r t = on_dialog r (\<lambda>d. d\<lparr>inFlight := None\<rparr>) t"

datatype cancel_reason = cancelByCaller | cancelOrphan | cancelBackstop

definition cancelSeries :: "cancel_reason \<Rightarrow> nat \<Rightarrow> dialog_table \<Rightarrow> dialog_table \<times> nat option \<times> bool" where
  "cancelSeries why r t =
     (let d = dt_dialogs t r in
      if inFlight d = None \<and> why = cancelOrphan then (t, None, False)
      else let t1 = on_dialog r (\<lambda>d. d\<lparr>d_cancelled := True, callerGone := (callerGone d \<or> why = cancelByCaller)\<rparr>) t in
        case inFlight d of
          None \<Rightarrow> (t1, None, False)
        | Some a \<Rightarrow> (on_attempt a (\<lambda>x. x\<lparr>ia_cancelled := True\<rparr>) (on_dialog r (\<lambda>d. d\<lparr>inFlight := None\<rparr>) t1), Some a,
            ia_sent (dt_attempts t a)))"

section \<open>Model: forks\<close>

text \<open>A write to the nil map of a confirmed record panics: \<open>None\<close>.\<close>

definition fork_new :: "int \<Rightarrow> string \<Rightarrow> nat \<Rightarrow> dialog_table \<Rightarrow> (dialog_table \<times> nat) option" where
  "fork_new nanos tag r t = (case d_forks (dt_dialogs t r) of
       None \<Rightarrow> None
     | Some m \<Rightarrow> (case m_get m tag of
           Some f \<Rightarrow> Some (t, f)
         | None \<Rightarrow> (let f = dt_nextF t in
             Some (on_dialog r (\<lambda>d. d\<lparr>d_forks := Some (m_set tag f m)\<rparr>)
               (t\<lparr>dt_forks := (dt_forks t)(f := new_fork nanos), dt_nextF := f + 1\<rparr>), f))))"

definition setForkRoute :: "int \<Rightarrow> string \<Rightarrow> dialog_route \<Rightarrow> nat \<Rightarrow> dialog_table \<Rightarrow> dialog_table" where
  "setForkRoute nanos tag route r t =
     (if d_state (dt_dialogs t r) \<noteq> dialogEarly then t
      else case fork_new nanos tag r t of None \<Rightarrow> t | Some (t1, f) \<Rightarrow> on_fork f (\<lambda>x. x\<lparr>fk_route := route, fk_routed := True\<rparr>) t1)"

definition setForkTo :: "int \<Rightarrow> string \<Rightarrow> uri \<Rightarrow> nat \<Rightarrow> dialog_table \<Rightarrow> dialog_table" where
  "setForkTo nanos tag x r t =
     (if d_state (dt_dialogs t r) \<noteq> dialogEarly then t
      else case fork_new nanos tag r t of None \<Rightarrow> t | Some (t1, f) \<Rightarrow> on_fork f (\<lambda>y. y\<lparr>fk_to := x, fk_toSet := True\<rparr>) t1)"

definition forkAnswer :: "nat \<Rightarrow> dialog_table \<Rightarrow> string option" where
  "forkAnswer f t = fk_answer (dt_forks t f)"

definition setForkAnswer :: "nat \<Rightarrow> string \<Rightarrow> codec list \<Rightarrow> addrport \<Rightarrow> addrport \<Rightarrow> dialog_table \<Rightarrow> dialog_table" where
  "setForkAnswer f body cs rem rc t =
     on_fork f (\<lambda>x. x\<lparr>fk_answer := Some body, fk_codecs := cs, fk_remote := rem, fk_rtcp := rc\<rparr>) t"

definition forkMedia :: "nat \<Rightarrow> dialog_table \<Rightarrow> addrport \<times> addrport \<times> codec list" where
  "forkMedia f t = (fk_remote (dt_forks t f), fk_rtcp (dt_forks t f), fk_codecs (dt_forks t f))"

definition setForkSDES :: "nat \<Rightarrow> sdes_plan \<Rightarrow> dialog_table \<Rightarrow> dialog_table" where
  "setForkSDES f p t = on_fork f (\<lambda>x. x\<lparr>fk_sdes := p\<rparr>) t"

definition forkSDES :: "nat \<Rightarrow> dialog_table \<Rightarrow> sdes_plan" where
  "forkSDES f t = fk_sdes (dt_forks t f)"

definition setApplied :: "nat \<Rightarrow> nat \<Rightarrow> dialog_table \<Rightarrow> dialog_table" where
  "setApplied f r t = on_dialog r (\<lambda>d. d\<lparr>d_applied := Some f\<rparr>) t"

definition forkOfLocked :: "dlg_request \<Rightarrow> dialog \<Rightarrow> nat option" where
  "forkOfLocked q d =
     (if d_state d \<noteq> dialogEarly then None
      else fork_at d (if q_ToTag q = callerTag d then q_FromTag q else q_ToTag q))"

definition routeFor :: "dlg_request \<Rightarrow> nat \<Rightarrow> dialog_table \<Rightarrow> dialog_route" where
  "routeFor q r t = (let d = dt_dialogs t r in
     if d_state d \<noteq> dialogEarly then d_route d
     else case forkOfLocked q d of
         Some f \<Rightarrow> if fk_routed (dt_forks t f) then fk_route (dt_forks t f) else route_zero
       | None \<Rightarrow> route_zero)"

text \<open>\<open>answer\<close> is the caller's last body, nil or not; an empty codec list leaves the fork's.\<close>

definition noteForkUpdate :: "nat option \<Rightarrow> string option \<Rightarrow> addrport \<Rightarrow> addrport \<Rightarrow> codec list \<Rightarrow> nat \<Rightarrow> dialog_table \<Rightarrow> dialog_table" where
  "noteForkUpdate f0 answer rem rc cs r t =
     (if d_state (dt_dialogs t r) \<noteq> dialogEarly then t
      else case f0 of None \<Rightarrow> t
        | Some f \<Rightarrow> setApplied f r (on_fork f (\<lambda>x.
            (let x1 = x\<lparr>fk_answer := answer\<rparr>;
                 x2 = (if ap_valid rem then x1\<lparr>fk_remote := rem, fk_rtcp := rc\<rparr> else x1)
             in if cs \<noteq> [] then x2\<lparr>fk_codecs := cs\<rparr> else x2)) t))"

section \<open>Model: session identities\<close>

definition nextOrigin :: "plane \<Rightarrow> nat \<Rightarrow> dialog_table \<Rightarrow> dialog_table \<times> (64 word) \<times> (64 word)" where
  "nextOrigin p r t = (let o1 = origin_next (d_origin (dt_dialogs t r) p) in
     (on_dialog r (\<lambda>d. d\<lparr>d_origin := (d_origin d)(p := o1)\<rparr>) t, or_id o1, or_version o1))"

definition nextForkOrigin :: "nat \<Rightarrow> dialog_table \<Rightarrow> dialog_table \<times> (64 word) \<times> (64 word)" where
  "nextForkOrigin f t = (let o1 = origin_next (fk_origin (dt_forks t f)) in
     (on_fork f (\<lambda>x. x\<lparr>fk_origin := o1\<rparr>) t, or_id o1, or_version o1))"

definition originFor :: "nat option \<Rightarrow> plane \<Rightarrow> nat \<Rightarrow> dialog_table \<Rightarrow> dialog_table \<times> (64 word) \<times> (64 word)" where
  "originFor f0 p r t = (let d = dt_dialogs t r in
     case f0 of Some f \<Rightarrow> if d_state d = dialogEarly \<and> p = callerPlane d then nextForkOrigin f t else nextOrigin p r t
     | None \<Rightarrow> nextOrigin p r t)"

definition adoptOrigin :: "nat \<Rightarrow> plane \<Rightarrow> nat \<Rightarrow> dialog_table \<Rightarrow> dialog_table" where
  "adoptOrigin f p r t = on_fork f (\<lambda>x. x\<lparr>fk_origin := d_origin (dt_dialogs t r) p\<rparr>) t"

section \<open>Model: offers in progress\<close>

definition beginUpdateOffer :: "nat \<Rightarrow> dialog_table \<Rightarrow> dialog_table \<times> bool" where
  "beginUpdateOffer r t = (let d = dt_dialogs t r in
     if updateOffers d > 0 \<or> reInviteOffers d > 0 \<or> d_owed d \<noteq> None then (t, False)
     else (on_dialog r (\<lambda>d. d\<lparr>d_lastAck := None, updateOffers := updateOffers d + 1\<rparr>) t, True))"

definition endUpdateOffer :: "nat \<Rightarrow> dialog_table \<Rightarrow> dialog_table" where
  "endUpdateOffer r t = on_dialog r (\<lambda>d. d\<lparr>updateOffers := updateOffers d - 1\<rparr>) t"

definition beginReInviteOffer :: "nat \<Rightarrow> dialog_table \<Rightarrow> dialog_table \<times> bool" where
  "beginReInviteOffer r t = (let d = dt_dialogs t r in
     if updateOffers d > 0 \<or> d_owed d \<noteq> None then (t, False)
     else (on_dialog r (\<lambda>d. d\<lparr>d_lastAck := None, reInviteOffers := reInviteOffers d + 1\<rparr>) t, True))"

definition endReInviteOffer :: "nat \<Rightarrow> dialog_table \<Rightarrow> dialog_table" where
  "endReInviteOffer r t = on_dialog r (\<lambda>d. d\<lparr>reInviteOffers := reInviteOffers d - 1\<rparr>) t"

text \<open>\<^verbatim>\<open>endReInviteOffer\<close> through the hook, which a timer may hold after the call.\<close>

definition hook_endReInviteOffer :: "nat \<Rightarrow> dialog_table \<Rightarrow> dialog_table" where
  "hook_endReInviteOffer r t = (if hook_live (dt_dialogs t r) then endReInviteOffer r t else t)"

section \<open>Model: what is owed\<close>

definition setOwed :: "plane \<Rightarrow> plane \<Rightarrow> nat option \<Rightarrow> 32 word \<Rightarrow> bool \<Rightarrow> nat \<Rightarrow> dialog_table \<Rightarrow> dialog_table" where
  "setOwed offerer answerer f cseq release r t =
     (on_dialog r (\<lambda>d. d\<lparr>d_owed := Some \<lparr>ow_ref = dt_nextO t, ow_offerer = offerer, ow_answerer = answerer, ow_fork = f, ow_cseq = cseq,
        ow_release = release, ow_timer = False\<rparr>, d_lastAck := None\<rparr>) t)\<lparr>dt_nextO := dt_nextO t + 1\<rparr>"

definition setAckAnswer :: "plane \<Rightarrow> 32 word \<Rightarrow> string \<Rightarrow> nat \<Rightarrow> dialog_table \<Rightarrow> dialog_table" where
  "setAckAnswer p cseq body r t = on_dialog r (\<lambda>d. d\<lparr>d_lastAck := Some \<lparr>aa_answerer = p, aa_cseq = cseq, aa_body = body\<rparr>\<rparr>) t"

definition ackAnswerFor :: "plane \<Rightarrow> 32 word \<Rightarrow> nat \<Rightarrow> dialog_table \<Rightarrow> string option" where
  "ackAnswerFor p cseq r t = (case d_lastAck (dt_dialogs t r) of
       Some a \<Rightarrow> if aa_answerer a = p \<and> aa_cseq a = cseq then Some (aa_body a) else None
     | None \<Rightarrow> None)"

definition takeOwed :: "plane \<Rightarrow> 32 word \<Rightarrow> nat \<Rightarrow> dialog_table \<Rightarrow> dialog_table \<times> owed_answer option" where
  "takeOwed p cseq r t = (case d_owed (dt_dialogs t r) of
       None \<Rightarrow> (t, None)
     | Some o1 \<Rightarrow> if ow_answerer o1 \<noteq> p \<or> ow_cseq o1 \<noteq> cseq then (t, None)
         else (on_dialog r (\<lambda>d. d\<lparr>d_owed := None\<rparr>) t, Some o1))"

definition owedForPrack :: "dlg_request \<Rightarrow> plane \<Rightarrow> nat \<Rightarrow> dialog_table \<Rightarrow> owed_answer option" where
  "owedForPrack q p r t = (let d = dt_dialogs t r in case d_owed d of
       None \<Rightarrow> None
     | Some o1 \<Rightarrow> if ow_fork o1 = None \<or> ow_answerer o1 \<noteq> p \<or> ow_fork o1 \<noteq> forkOfLocked q d then None else Some o1)"

definition dropOwed :: "nat \<Rightarrow> nat \<Rightarrow> dialog_table \<Rightarrow> dialog_table \<times> bool" where
  "dropOwed ref r t = (case d_owed (dt_dialogs t r) of
       Some o1 \<Rightarrow> if ow_ref o1 = ref then (on_dialog r (\<lambda>d. d\<lparr>d_owed := None\<rparr>) t, True) else (t, False)
     | None \<Rightarrow> (t, False))"

definition owedOnFork :: "nat \<Rightarrow> nat \<Rightarrow> dialog_table \<Rightarrow> bool" where
  "owedOnFork f r t = (case d_owed (dt_dialogs t r) of Some o1 \<Rightarrow> ow_fork o1 = Some f | None \<Rightarrow> False)"

definition armOwedTimer :: "nat \<Rightarrow> dialog_table \<Rightarrow> dialog_table" where
  "armOwedTimer r t = (let d = dt_dialogs t r in case d_owed d of
       None \<Rightarrow> t
     | Some o1 \<Rightarrow> if ow_timer o1 \<or> d_state d \<noteq> dialogConfirmed then t
         else on_dialog r (\<lambda>d. d\<lparr>d_owed := Some (o1\<lparr>ow_timer := True\<rparr>)\<rparr>) t)"

definition armAckTimer :: "32 word \<Rightarrow> nat \<Rightarrow> dialog_table \<Rightarrow> dialog_table" where
  "armAckTimer cseq r t = (let d = dt_dialogs t r in
     if d_state d \<noteq> dialogConfirmed then t
     else (on_dialog r (\<lambda>d. d\<lparr>d_ack := Some \<lparr>ak_ref = dt_nextO t, ak_plane = callerPlane d, ak_cseq = cseq,
         ak_timer = (d_owed d = None), ak_counted = False\<rparr>\<rparr>) t)\<lparr>dt_nextO := dt_nextO t + 1\<rparr>)"

definition clearAck :: "plane \<Rightarrow> 32 word \<Rightarrow> nat \<Rightarrow> dialog_table \<Rightarrow> dialog_table" where
  "clearAck p cseq r t = (case d_ack (dt_dialogs t r) of
       Some a \<Rightarrow> if ak_plane a = p \<and> ak_cseq a = cseq then on_dialog r (\<lambda>d. d\<lparr>d_ack := None\<rparr>) t else t
     | None \<Rightarrow> t)"

definition ackOwedByOther :: "plane \<Rightarrow> nat \<Rightarrow> dialog_table \<Rightarrow> bool" where
  "ackOwedByOther p r t = (case d_ack (dt_dialogs t r) of Some a \<Rightarrow> ak_plane a \<noteq> p | None \<Rightarrow> False)"

definition takeAckMiss :: "nat \<Rightarrow> dialog_table \<Rightarrow> dialog_table \<times> plane option" where
  "takeAckMiss r t = (case d_ack (dt_dialogs t r) of
       None \<Rightarrow> (t, None)
     | Some a \<Rightarrow> if ak_counted a then (t, None)
         else (on_dialog r (\<lambda>d. d\<lparr>d_ack := Some (a\<lparr>ak_counted := True\<rparr>)\<rparr>) t, Some (ak_plane a)))"

text \<open>The two backstops, run through the hook. The first flag says the miss was counted, the last that both ends get a BYE.\<close>

definition ackExpired :: "nat \<Rightarrow> nat \<Rightarrow> dialog_table \<Rightarrow> dialog_table \<times> plane option \<times> bool" where
  "ackExpired ref r t =
     (if \<not> hook_live (dt_dialogs t r) \<or> \<not> (case d_ack (dt_dialogs t r) of Some a \<Rightarrow> ak_ref a = ref | None \<Rightarrow> False) then (t, None, False)
      else let (t1, miss) = takeAckMiss r t; (t2, up) = end_dialog endAckTimeout r t1 in (t2, miss, up))"

definition owedExpired :: "nat \<Rightarrow> nat \<Rightarrow> dialog_table \<Rightarrow> dialog_table \<times> plane option \<times> bool" where
  "owedExpired ref r t =
     (if \<not> hook_live (dt_dialogs t r) then (t, None, False)
      else let release = (case d_owed (dt_dialogs t r) of Some o1 \<Rightarrow> ow_release o1 | None \<Rightarrow> False);
               (t1, dropped) = dropOwed ref r t
        in if \<not> dropped then (t1, None, False)
           else let t2 = (if release then hook_endReInviteOffer r t1 else t1);
                    (t3, miss) = takeAckMiss r t2; (t4, up) = end_dialog endAnswerTimeout r t3 in (t4, miss, up))"

section \<open>Model: the rest of a record\<close>

definition setCarrier :: "string \<Rightarrow> nat \<Rightarrow> dialog_table \<Rightarrow> dialog_table" where
  "setCarrier name r t = on_dialog r (\<lambda>d. d\<lparr>d_carrier := name\<rparr>) t"

definition setSRTP :: "srtp_policy \<Rightarrow> nat \<Rightarrow> dialog_table \<Rightarrow> dialog_table" where
  "setSRTP p r t = on_dialog r (\<lambda>d. d\<lparr>d_srtp := p\<rparr>) t"

definition setCalleeURI :: "uri \<Rightarrow> nat \<Rightarrow> dialog_table \<Rightarrow> dialog_table" where
  "setCalleeURI x r t = on_dialog r (\<lambda>d. d\<lparr>calleeURI := x\<rparr>) t"

definition noteRelaxedNotify :: "nat \<Rightarrow> dialog_table \<Rightarrow> dialog_table \<times> bool" where
  "noteRelaxedNotify r t = (on_dialog r (\<lambda>d. d\<lparr>relaxedNotify := True\<rparr>) t, \<not> relaxedNotify (dt_dialogs t r))"

definition noteCSeq :: "dlg_request \<Rightarrow> nat \<Rightarrow> dialog_table \<Rightarrow> dialog_table" where
  "noteCSeq q r t = on_dialog r (\<lambda>d. let n = CSeqNumber q; (c, e) = d_cseq d in
     if q_FromTag q = callerTag d then (if n > c then d\<lparr>d_cseq := (n, e)\<rparr> else d)
     else (if n > e then d\<lparr>d_cseq := (c, n)\<rparr> else d)) t"

definition uriForTag :: "string \<Rightarrow> nat \<Rightarrow> dialog_table \<Rightarrow> uri option" where
  "uriForTag tag r t = (let d = dt_dialogs t r in
     if tag = [] then None
     else if tag = callerTag d then Some (callerURI d)
     else case fork_at d tag of
         Some f \<Rightarrow> if fk_toSet (dt_forks t f) then Some (fk_to (dt_forks t f)) else if tag = calleeTag d then Some (calleeURI d) else None
       | None \<Rightarrow> if tag = calleeTag d then Some (calleeURI d) else None)"

definition relayed2xx :: "string \<Rightarrow> nat \<Rightarrow> dialog_table \<Rightarrow> nat option" where
  "relayed2xx tag r t = (let d = dt_dialogs t r in
     if d_state d \<noteq> dialogConfirmed \<or> calleeTag d \<noteq> tag then None else d_ok d)"

definition setRelayed2xx :: "nat \<Rightarrow> nat \<Rightarrow> dialog_table \<Rightarrow> dialog_table" where
  "setRelayed2xx res r t = on_dialog r (\<lambda>d. d\<lparr>d_ok := Some res\<rparr>) t"

fun otherPlane :: "plane \<Rightarrow> plane" where
  "otherPlane planePublic = planePrivate"
| "otherPlane planePrivate = planePublic"

record bye_info =
  by_callID :: string
  by_toward :: plane
  by_fromURI :: uri
  by_fromTag :: string
  by_toURI :: uri
  by_toTag :: string
  by_cseq :: "32 word"
  by_remote :: string
  by_contact :: uri
  by_transport :: string

definition route_toward :: "plane \<Rightarrow> dialog_route \<Rightarrow> string \<times> uri" where
  "route_toward p r = (case p of planePublic \<Rightarrow> (publicRemote r, publicContact r) | planePrivate \<Rightarrow> (privateRemote r, privateContact r))"

definition byes :: "dialog \<Rightarrow> bye_info \<times> bye_info" where
  "byes d =
     (let calleeP = otherPlane (callerPlane d); (cRemote, cContact) = route_toward (callerPlane d) (d_route d);
          (eRemote, eContact) = route_toward calleeP (d_route d) in
      (\<lparr>by_callID = d_callID d, by_toward = callerPlane d, by_fromURI = calleeURI d, by_fromTag = calleeTag d,
          by_toURI = callerURI d, by_toTag = callerTag d, by_cseq = snd (d_cseq d) + 1, by_remote = cRemote, by_contact = cContact,
          by_transport = dr_transport (d_route d)\<rparr>,
       \<lparr>by_callID = d_callID d, by_toward = calleeP, by_fromURI = callerURI d, by_fromTag = callerTag d,
          by_toURI = calleeURI d, by_toTag = calleeTag d, by_cseq = fst (d_cseq d) + 1, by_remote = eRemote, by_contact = eContact,
          by_transport = dr_transport (d_route d)\<rparr>))"

definition isRejected :: "string \<Rightarrow> nat \<Rightarrow> dialog_table \<Rightarrow> bool" where
  "isRejected tag r t \<longleftrightarrow> tag \<in> set (hook_rejected (dt_dialogs t r))"

definition reject :: "string \<Rightarrow> nat \<Rightarrow> dialog_table \<Rightarrow> dialog_table \<times> bool" where
  "reject tag r t = (if isRejected tag r t then (t, False)
     else (on_dialog r (\<lambda>d. d\<lparr>hook_rejected := tag # hook_rejected d\<rparr>) t, True))"

text \<open>\<^verbatim>\<open>onLate2xx\<close>: what a 2xx after the first one gets.\<close>

datatype late_action = RelayAgain nat | LateDrop | AckAndBye | AckOnly

definition onLate2xx :: "string \<Rightarrow> nat \<Rightarrow> dialog_table \<Rightarrow> dialog_table \<times> late_action" where
  "onLate2xx tag r t =
     (let refuse = (case reject tag r t of (t1, first) \<Rightarrow> (t1, if first then AckAndBye else AckOnly)) in
      if \<not> hook_live (dt_dialogs t r) then refuse
      else case relayed2xx tag r t of
          Some res \<Rightarrow> (t, RelayAgain res)
        | None \<Rightarrow> if d_state (dt_dialogs t r) = dialogEarly \<and> \<not> isRejected tag r t then (t, LateDrop) else refuse)"

end
