(* ===== verification/Dialog_Props.thy ===== *)
theory Dialog_Props
  imports Dialog
begin

text \<open>
  The life of calls under any interleaving of the table's operations. \<open>dlg_reach\<close> is every table that
  operations in any order build, with the history of what they reported: records opened, sessions
  attached or refused, INVITEs sent, CANCELs ordered, calls given up, confirmed and ended. An
  operation's \<open>dlg_pre\<close> is what its callers guarantee: it names records and attempts that exist, a
  session is handed over once, an INVITE is marked sent once.
\<close>

section \<open>Runs\<close>

datatype dlg_op =
    OpBegin int int dlg_request plane int | OpAttach nat nat | OpClose
  | OpTrack nat | OpMarkSent nat | OpUntrack nat | OpCancel cancel_reason nat
  | OpConfirm gtime string dialog_route nat | OpEnd end_reason terminator nat | OpEndUnlessUp nat
  | OpAckExpired nat nat | OpOwedExpired nat nat
  | OpFork int string nat | OpForkRoute int string dialog_route nat | OpForkTo int string uri nat
  | OpForkAnswer nat string "codec list" addrport addrport | OpForkSDES nat sdes_plan | OpApplied nat nat
  | OpForkUpdate "nat option" "string option" addrport addrport "codec list" nat
  | OpNextOrigin plane nat | OpNextForkOrigin nat | OpOriginFor "nat option" plane nat | OpAdoptOrigin nat plane nat
  | OpBeginUpdate nat | OpEndUpdate nat | OpBeginReInvite nat | OpEndReInvite nat | OpHookEndReInvite nat
  | OpSetOwed plane plane "nat option" "32 word" bool nat | OpAckAnswer plane "32 word" string nat | OpTakeOwed plane "32 word" nat
  | OpDropOwed nat nat | OpArmOwed nat | OpArmAck "32 word" nat | OpClearAck plane "32 word" nat | OpTakeMiss nat
  | OpCarrier string nat | OpSRTP srtp_policy nat | OpCallee uri nat | OpRelaxed nat | OpCSeq dlg_request nat | OpOk nat nat
  | OpLate2xx string nat

datatype dlg_out = Opened nat | Attached nat nat | Refused nat | SentInvite nat | OrderCancel nat | GaveUp nat | Confirmed nat | WasUp nat

definition up_out :: "nat \<Rightarrow> bool \<Rightarrow> dlg_out list" where
  "up_out r b = (if b then [WasUp r] else [])"

fun dlg_step :: "dlg_op \<Rightarrow> dialog_table \<Rightarrow> dialog_table \<times> dlg_out list" where
  "dlg_step (OpBegin n n' q p limit) t = (case begin_dialog n n' q p limit t of
     (t1, Some r, _) \<Rightarrow> (t1, [Opened r]) | (t1, None, _) \<Rightarrow> (t1, []))"
| "dlg_step (OpAttach s r) t = (case attach s r t of (t1, True) \<Rightarrow> (t1, [Attached s r]) | (t1, False) \<Rightarrow> (t1, [Refused s]))"
| "dlg_step OpClose t = (dlg_close t, [])"
| "dlg_step (OpTrack r) t = (fst (track r t), [])"
| "dlg_step (OpMarkSent a) t = (case markSent a t of (t1, b) \<Rightarrow> (t1, SentInvite a # (if b then [OrderCancel a] else [])))"
| "dlg_step (OpUntrack r) t = (untrack r t, [])"
| "dlg_step (OpCancel why r) t = (case cancelSeries why r t of (t1, a, now) \<Rightarrow>
     (t1, (if d_cancelled (dt_dialogs t1 r) then [GaveUp r] else []) @ (case a of Some a \<Rightarrow> if now then [OrderCancel a] else [] | None \<Rightarrow> [])))"
| "dlg_step (OpConfirm now tag route r) t = (case confirm now tag route r t of (t1, b) \<Rightarrow> (t1, if b then [Confirmed r] else []))"
| "dlg_step (OpEnd reason who r) t = (case endBy reason who r t of (t1, b) \<Rightarrow> (t1, up_out r b))"
| "dlg_step (OpEndUnlessUp r) t = (endUnlessUp r t, [])"
| "dlg_step (OpAckExpired ref r) t = (case ackExpired ref r t of (t1, _, b) \<Rightarrow> (t1, up_out r b))"
| "dlg_step (OpOwedExpired ref r) t = (case owedExpired ref r t of (t1, _, b) \<Rightarrow> (t1, up_out r b))"
| "dlg_step (OpFork n tag r) t = (case fork_new n tag r t of Some (t1, _) \<Rightarrow> (t1, []) | None \<Rightarrow> (t, []))"
| "dlg_step (OpForkRoute n tag x r) t = (setForkRoute n tag x r t, [])"
| "dlg_step (OpForkTo n tag x r) t = (setForkTo n tag x r t, [])"
| "dlg_step (OpForkAnswer f body cs a b) t = (setForkAnswer f body cs a b t, [])"
| "dlg_step (OpForkSDES f p) t = (setForkSDES f p t, [])"
| "dlg_step (OpApplied f r) t = (setApplied f r t, [])"
| "dlg_step (OpForkUpdate f body a b cs r) t = (noteForkUpdate f body a b cs r t, [])"
| "dlg_step (OpNextOrigin p r) t = (fst (nextOrigin p r t), [])"
| "dlg_step (OpNextForkOrigin f) t = (fst (nextForkOrigin f t), [])"
| "dlg_step (OpOriginFor f p r) t = (fst (originFor f p r t), [])"
| "dlg_step (OpAdoptOrigin f p r) t = (adoptOrigin f p r t, [])"
| "dlg_step (OpBeginUpdate r) t = (fst (beginUpdateOffer r t), [])"
| "dlg_step (OpEndUpdate r) t = (endUpdateOffer r t, [])"
| "dlg_step (OpBeginReInvite r) t = (fst (beginReInviteOffer r t), [])"
| "dlg_step (OpEndReInvite r) t = (endReInviteOffer r t, [])"
| "dlg_step (OpHookEndReInvite r) t = (hook_endReInviteOffer r t, [])"
| "dlg_step (OpSetOwed p p' f cseq rel r) t = (setOwed p p' f cseq rel r t, [])"
| "dlg_step (OpAckAnswer p cseq body r) t = (setAckAnswer p cseq body r t, [])"
| "dlg_step (OpTakeOwed p cseq r) t = (fst (takeOwed p cseq r t), [])"
| "dlg_step (OpDropOwed ref r) t = (fst (dropOwed ref r t), [])"
| "dlg_step (OpArmOwed r) t = (armOwedTimer r t, [])"
| "dlg_step (OpArmAck cseq r) t = (armAckTimer cseq r t, [])"
| "dlg_step (OpClearAck p cseq r) t = (clearAck p cseq r t, [])"
| "dlg_step (OpTakeMiss r) t = (fst (takeAckMiss r t), [])"
| "dlg_step (OpCarrier c r) t = (setCarrier c r t, [])"
| "dlg_step (OpSRTP p r) t = (setSRTP p r t, [])"
| "dlg_step (OpCallee x r) t = (setCalleeURI x r t, [])"
| "dlg_step (OpRelaxed r) t = (fst (noteRelaxedNotify r t), [])"
| "dlg_step (OpCSeq q r) t = (noteCSeq q r t, [])"
| "dlg_step (OpOk res r) t = (setRelayed2xx res r t, [])"
| "dlg_step (OpLate2xx tag r) t = (fst (onLate2xx tag r t), [])"

text \<open>A session is handed over once, before which nobody else has it; an INVITE goes out once.\<close>

fun dlg_pre :: "dlg_op \<Rightarrow> dialog_table \<Rightarrow> dlg_out list \<Rightarrow> bool" where
  "dlg_pre (OpAttach s r) t h \<longleftrightarrow> r < dt_nextD t \<and> d_media (dt_dialogs t r) = None \<and> (\<forall>e \<in> set h. e \<noteq> Refused s \<and> (case e of Attached s' r' \<Rightarrow> s' \<noteq> s | _ \<Rightarrow> True))"
| "dlg_pre (OpMarkSent a) t h \<longleftrightarrow> a < dt_nextA t \<and> SentInvite a \<notin> set h"
| "dlg_pre (OpTrack r) t h \<longleftrightarrow> r < dt_nextD t"
| "dlg_pre (OpUntrack r) t h \<longleftrightarrow> r < dt_nextD t"
| "dlg_pre (OpCancel why r) t h \<longleftrightarrow> r < dt_nextD t"
| "dlg_pre (OpConfirm now tag route r) t h \<longleftrightarrow> r < dt_nextD t"
| "dlg_pre (OpEnd reason who r) t h \<longleftrightarrow> r < dt_nextD t"
| "dlg_pre (OpEndUnlessUp r) t h \<longleftrightarrow> r < dt_nextD t"
| "dlg_pre (OpAckExpired ref r) t h \<longleftrightarrow> r < dt_nextD t"
| "dlg_pre (OpOwedExpired ref r) t h \<longleftrightarrow> r < dt_nextD t"
| "dlg_pre _ t h \<longleftrightarrow> True"

inductive dlg_reach :: "dialog_table \<Rightarrow> dlg_out list \<Rightarrow> bool" where
  dlg_new: "dlg_reach newDialogTable []"
| dlg_op: "dlg_reach t h \<Longrightarrow> dlg_pre op t h \<Longrightarrow> dlg_step op t = (t', outs) \<Longrightarrow> dlg_reach t' (h @ outs)"

section \<open>What most operations leave alone\<close>

definition core :: "dialog \<Rightarrow> string \<times> string \<times> dialog_state \<times> nat option \<times> bool \<times> nat option \<times> bool" where
  "core d = (d_callID d, callerTag d, d_state d, inFlight d, d_cancelled d, d_media d, d_forks d = None)"

definition same_core :: "dialog_table \<Rightarrow> dialog_table \<Rightarrow> bool" where
  "same_core t t' \<longleftrightarrow> byCallID t' = byCallID t \<and> dt_sessions t' = dt_sessions t \<and> dt_closed t' = dt_closed t \<and> dt_nextD t' = dt_nextD t \<and>
     dt_attempts t' = dt_attempts t \<and> dt_nextA t' = dt_nextA t \<and> dt_closes t' = dt_closes t \<and>
     (\<forall>r. core (dt_dialogs t' r) = core (dt_dialogs t r))"

lemma same_core_refl [simp]: "same_core t t"
  by (simp add: same_core_def)

lemma same_core_trans: "same_core t t1 \<Longrightarrow> same_core t1 t2 \<Longrightarrow> same_core t t2"
  by (simp add: same_core_def)

lemma on_dialog_core: "core (f (dt_dialogs t r)) = core (dt_dialogs t r) \<Longrightarrow> same_core t (on_dialog r f t)"
  by (simp add: same_core_def on_dialog_def)

lemma on_fork_core [simp]: "same_core t0 (on_fork i f t) = same_core t0 t"
  by (simp add: same_core_def on_fork_def)

lemma nextO_core [simp]: "same_core t (t'\<lparr>dt_nextO := n\<rparr>) = same_core t t'"
  by (simp add: same_core_def)

lemma fork_new_core: "fork_new n tag r t = Some (t1, f) \<Longrightarrow> same_core t t1"
  by (auto simp: fork_new_def Let_def same_core_def on_dialog_def core_def split: option.splits if_splits)

lemma setForkRoute_core: "same_core t (setForkRoute n tag x r t)"
  by (cases "fork_new n tag r t") (auto simp: setForkRoute_def dest: fork_new_core)

lemma setForkTo_core: "same_core t (setForkTo n tag y r t)"
  by (cases "fork_new n tag r t") (auto simp: setForkTo_def dest: fork_new_core)

lemma fork_step_core: "same_core t (fst (dlg_step (OpFork n tag r) t)) \<and> snd (dlg_step (OpFork n tag r) t) = []"
  by (cases "fork_new n tag r t") (auto dest: fork_new_core)

lemma setApplied_core [simp]: "same_core t0 (setApplied f r t) \<longleftrightarrow> same_core t0 t"
proof -
  have "core (dt_dialogs (setApplied f r t) x) = core (dt_dialogs t x)" for x
    by (simp add: setApplied_def on_dialog_def core_def)
  then show ?thesis
    by (simp add: same_core_def) (simp add: setApplied_def on_dialog_def)
qed

lemma fork_ops_core: "same_core t (setForkAnswer f body cs a b t)" "same_core t (setForkSDES f p t)" "same_core t (setApplied f r t)"
  by (simp_all add: setForkAnswer_def setForkSDES_def)

lemma noteForkUpdate_core: "same_core t (noteForkUpdate f body a b cs r t)"
  by (simp add: noteForkUpdate_def split: option.split)

lemma origin_ops_core: "same_core t (fst (nextOrigin p r t))" "same_core t (fst (nextForkOrigin f t))"
  "same_core t (fst (originFor f0 p r t))" "same_core t (adoptOrigin f p r t)"
  by (auto simp: nextOrigin_def nextForkOrigin_def originFor_def adoptOrigin_def Let_def core_def intro!: on_dialog_core split: option.split)

lemma offer_ops_core: "same_core t (fst (beginUpdateOffer r t))" "same_core t (endUpdateOffer r t)"
  "same_core t (fst (beginReInviteOffer r t))" "same_core t (endReInviteOffer r t)" "same_core t (hook_endReInviteOffer r t)"
  by (auto simp: beginUpdateOffer_def endUpdateOffer_def beginReInviteOffer_def endReInviteOffer_def hook_endReInviteOffer_def
    Let_def core_def intro!: on_dialog_core)

lemma owed_ops_core: "same_core t (setOwed p p' f cseq rel r t)" "same_core t (setAckAnswer p cseq body r t)"
  "same_core t (fst (takeOwed p cseq r t))" "same_core t (fst (dropOwed ref r t))" "same_core t (armOwedTimer r t)"
  "same_core t (armAckTimer cseq r t)" "same_core t (clearAck p cseq r t)" "same_core t (fst (takeAckMiss r t))"
  by (auto simp: setOwed_def setAckAnswer_def takeOwed_def dropOwed_def armOwedTimer_def armAckTimer_def clearAck_def takeAckMiss_def
    Let_def core_def intro!: on_dialog_core split: option.split)

lemma note_ops_core: "same_core t (setCarrier c r t)" "same_core t (setSRTP sp r t)" "same_core t (setCalleeURI x r t)"
  "same_core t (fst (noteRelaxedNotify r t))" "same_core t (noteCSeq q r t)" "same_core t (setRelayed2xx res r t)"
  by (auto simp: setCarrier_def setSRTP_def setCalleeURI_def noteRelaxedNotify_def noteCSeq_def setRelayed2xx_def Let_def core_def
    intro!: on_dialog_core split: prod.split)

lemma reject_core: "same_core t (fst (reject tag r t))"
  by (auto simp: reject_def core_def intro!: on_dialog_core)

lemma late_core: "same_core t (fst (onLate2xx tag r t))"
  using reject_core [of t tag r] by (simp add: onLate2xx_def Let_def case_prod_beta split: option.split)

fun inner :: "dlg_op \<Rightarrow> bool" where
  "inner (OpBegin _ _ _ _ _) = False" | "inner (OpAttach _ _) = False" | "inner OpClose = False" | "inner (OpTrack _) = False"
| "inner (OpMarkSent _) = False" | "inner (OpUntrack _) = False" | "inner (OpCancel _ _) = False" | "inner (OpConfirm _ _ _ _) = False"
| "inner (OpEnd _ _ _) = False" | "inner (OpEndUnlessUp _) = False" | "inner (OpAckExpired _ _) = False" | "inner (OpOwedExpired _ _) = False"
| "inner _ = True"

lemma inner_core: "inner op \<Longrightarrow> same_core t (fst (dlg_step op t)) \<and> snd (dlg_step op t) = []"
  by (cases op)
    (simp_all del: dlg_step.simps(13) add: fork_step_core setForkRoute_core setForkTo_core fork_ops_core noteForkUpdate_core
      origin_ops_core offer_ops_core owed_ops_core note_ops_core late_core)

section \<open>The table\<close>

definition live :: "dialog_table \<Rightarrow> nat set" where
  "live t = {r. r < dt_nextD t \<and> d_state (dt_dialogs t r) \<noteq> dialogEnded}"

definition bucket :: "dialog_table \<Rightarrow> string \<Rightarrow> nat list" where
  "bucket t c = m_get0 [] (byCallID t) c"

definition index_ok :: "dialog_table \<Rightarrow> bool" where
  "index_ok t \<longleftrightarrow> wf_map (byCallID t) \<and> (\<forall>c. m_get (byCallID t) c \<noteq> Some []) \<and>
     (\<forall>c. distinct (bucket t c) \<and> set (bucket t c) = {r \<in> live t. d_callID (dt_dialogs t r) = c})"

definition merged_ok :: "dialog_table \<Rightarrow> bool" where
  "merged_ok t \<longleftrightarrow> (\<forall>r r'. r < dt_nextD t \<longrightarrow> r' < dt_nextD t \<longrightarrow>
     d_state (dt_dialogs t r) = dialogEarly \<longrightarrow> d_state (dt_dialogs t r') = dialogEarly \<longrightarrow>
     d_callID (dt_dialogs t r) = d_callID (dt_dialogs t r') \<longrightarrow> callerTag (dt_dialogs t r) = callerTag (dt_dialogs t r') \<longrightarrow> r = r')"

definition record_ok :: "dialog \<Rightarrow> bool" where
  "record_ok d \<longleftrightarrow> (d_state d = dialogConfirmed \<longrightarrow> d_media d \<noteq> None \<and> d_forks d = None) \<and> (d_state d = dialogEarly \<longrightarrow> d_forks d \<noteq> None)"

definition table_ok :: "dialog_table \<Rightarrow> bool" where
  "table_ok t \<longleftrightarrow> index_ok t \<and> dt_sessions t = int (card (live t)) \<and> merged_ok t \<and> (\<forall>r < dt_nextD t. record_ok (dt_dialogs t r))"

lemma finite_live [simp]: "finite (live t)"
  by (simp add: live_def)

lemma bucketD: "index_ok t \<Longrightarrow> r \<in> set (bucket t c) \<longleftrightarrow> r < dt_nextD t \<and> d_state (dt_dialogs t r) \<noteq> dialogEnded \<and> d_callID (dt_dialogs t r) = c"
  by (auto simp: index_ok_def live_def)

text \<open>The table depends on few fields, and most operations keep them.\<close>

definition keeps :: "dialog_table \<Rightarrow> dialog_table \<Rightarrow> bool" where
  "keeps t t' \<longleftrightarrow> byCallID t' = byCallID t \<and> dt_sessions t' = dt_sessions t \<and> dt_nextD t' = dt_nextD t \<and>
     (\<forall>r. d_callID (dt_dialogs t' r) = d_callID (dt_dialogs t r) \<and> callerTag (dt_dialogs t' r) = callerTag (dt_dialogs t r) \<and>
       d_state (dt_dialogs t' r) = d_state (dt_dialogs t r) \<and> (d_media (dt_dialogs t r) \<noteq> None \<longrightarrow> d_media (dt_dialogs t' r) \<noteq> None) \<and>
       (d_forks (dt_dialogs t' r) = None \<longleftrightarrow> d_forks (dt_dialogs t r) = None))"

lemma same_core_keeps: "same_core t t' \<Longrightarrow> keeps t t'"
  by (simp add: same_core_def keeps_def core_def)

lemma keeps_table_ok: 
  assumes "keeps t t'" and "table_ok t" shows "table_ok t'"
proof -
  have k: "byCallID t' = byCallID t" "dt_sessions t' = dt_sessions t" "dt_nextD t' = dt_nextD t"
    "\<And>r. d_callID (dt_dialogs t' r) = d_callID (dt_dialogs t r)" "\<And>r. callerTag (dt_dialogs t' r) = callerTag (dt_dialogs t r)"
    "\<And>r. d_state (dt_dialogs t' r) = d_state (dt_dialogs t r)" "\<And>r. d_forks (dt_dialogs t' r) = None \<longleftrightarrow> d_forks (dt_dialogs t r) = None"
    "\<And>r. d_media (dt_dialogs t r) \<noteq> None \<longrightarrow> d_media (dt_dialogs t' r) \<noteq> None"
    using assms(1) by (simp_all add: keeps_def)
  have "live t' = live t" "bucket t' = bucket t" by (simp_all add: live_def bucket_def k fun_eq_iff)
  moreover have "record_ok (dt_dialogs t r) \<Longrightarrow> record_ok (dt_dialogs t' r)" for r
    using k(8) [of r] by (simp add: record_ok_def k)
  ultimately show ?thesis
    using assms(2) by (simp add: table_ok_def index_ok_def merged_ok_def k)
qed

lemma table_ok_new: "table_ok newDialogTable"
  by (simp add: table_ok_def index_ok_def merged_ok_def newDialogTable_def live_def bucket_def m_get0_def)

lemma begin_ok:
  assumes ok: "table_ok t" and b: "begin_dialog n n' q p limit t = (t', Some r, res)"
  shows "table_ok t'"
proof -
  have inv: "index_ok t" "dt_sessions t = int (card (live t))" "merged_ok t" "\<forall>r < dt_nextD t. record_ok (dt_dialogs t r)"
    using ok by (simp_all add: table_ok_def)
  let ?d = "new_dialog n n' q p" and ?c = "q_CallID q"
  have t': "t' = t\<lparr>byCallID := m_set ?c (bucket t ?c @ [dt_nextD t]) (byCallID t), dt_sessions := dt_sessions t + 1,
      dt_dialogs := (dt_dialogs t)(dt_nextD t := ?d), dt_nextD := dt_nextD t + 1\<rparr>"
    and fresh: "\<not> list_ex (\<lambda>i. d_state (dt_dialogs t i) = dialogEarly \<and> callerTag (dt_dialogs t i) = q_FromTag q) (bucket t ?c)"
    using b by (auto simp: begin_dialog_def Let_def bucket_def split: if_splits)
  have d: "d_callID ?d = ?c" "callerTag ?d = q_FromTag q" "d_state ?d = dialogEarly" "d_forks ?d = Some []"
    by (simp_all add: new_dialog_def)
  have live: "live t' = insert (dt_nextD t) (live t)"
    by (auto simp: live_def t' d)
  have notin: "dt_nextD t \<notin> live t" by (simp add: live_def)
  have bk: "bucket t' c = (if c = ?c then bucket t ?c @ [dt_nextD t] else bucket t c)" for c
    by (simp add: bucket_def t' m_get0_def)
  have id: "d_callID (dt_dialogs t' r) = (if r = dt_nextD t then ?c else d_callID (dt_dialogs t r))" for r
    by (simp add: t' d)
  have old: "distinct (bucket t c)" "set (bucket t c) = {r \<in> live t. d_callID (dt_dialogs t r) = c}" for c
    using inv(1) by (simp_all add: index_ok_def)
  have "set (bucket t' c) = {r \<in> live t'. d_callID (dt_dialogs t' r) = c} \<and> distinct (bucket t' c)" for c
    unfolding bk live id using notin by (auto simp: old)
  then have "index_ok t'"
    using inv(1) by (simp add: index_ok_def t')
  moreover have "dt_sessions t' = dt_sessions t + 1" by (simp add: t')
  then have "int (card (live t')) = dt_sessions t'"
    unfolding live using notin inv(2) by simp
  moreover have early: "\<not> (d_state (dt_dialogs t r) = dialogEarly \<and> d_callID (dt_dialogs t r) = ?c \<and> callerTag (dt_dialogs t r) = q_FromTag q)"
    if "r < dt_nextD t" for r
    using fresh that bucketD [OF inv(1), of r ?c] by (auto simp: list_ex_iff)
  have "merged_ok t'"
    unfolding merged_ok_def
  proof (intro allI impI)
    fix r r'
    assume a: "r < dt_nextD t'" "r' < dt_nextD t'" "d_state (dt_dialogs t' r) = dialogEarly" "d_state (dt_dialogs t' r') = dialogEarly"
      "d_callID (dt_dialogs t' r) = d_callID (dt_dialogs t' r')" "callerTag (dt_dialogs t' r) = callerTag (dt_dialogs t' r')"
    show "r = r'"
    proof (cases "r = dt_nextD t \<or> r' = dt_nextD t")
      case True
      then show ?thesis using a early [of r] early [of r'] by (auto simp: t' d split: if_splits)
    next
      case False
      then show ?thesis using a inv(3) by (simp add: merged_ok_def t')
    qed
  qed
  ultimately show ?thesis
    using inv(4) by (simp add: table_ok_def t' record_ok_def d less_Suc_eq)
qed

lemma attach_keeps: "keeps t (fst (attach s r t))" and track_keeps: "keeps t (fst (track r t))"
  and markSent_keeps: "keeps t (fst (markSent a t))" and untrack_keeps: "keeps t (untrack r t)"
  and cancel_keeps: "keeps t (fst (cancelSeries why r t))" and close_keeps: "keeps t (dlg_close t)"
  by (simp_all add: attach_def track_def markSent_def untrack_def cancelSeries_def dlg_close_def keeps_def on_dialog_def on_attempt_def
    Let_def split: option.split)

lemma confirm_ok: "table_ok t \<Longrightarrow> table_ok (fst (confirm now tag route r t))"
proof -
  assume ok: "table_ok t"
  let ?t = "fst (confirm now tag route r t)" and ?d = "dt_dialogs t r"
  show ?thesis
  proof (cases "d_state ?d \<noteq> dialogEarly \<or> d_media ?d = None \<or> d_cancelled ?d")
    case True
    then show ?thesis using ok by (auto simp: confirm_def)
  next
    case False
    then have e: "d_state ?d = dialogEarly" "d_media ?d \<noteq> None" by auto
    have f: "byCallID ?t = byCallID t" "dt_sessions ?t = dt_sessions t" "dt_nextD ?t = dt_nextD t"
      "\<And>i. d_callID (dt_dialogs ?t i) = d_callID (dt_dialogs t i)" "\<And>i. callerTag (dt_dialogs ?t i) = callerTag (dt_dialogs t i)"
      "\<And>i. d_state (dt_dialogs ?t i) = (if i = r then dialogConfirmed else d_state (dt_dialogs t i))"
      "\<And>i. d_media (dt_dialogs ?t i) = d_media (dt_dialogs t i)"
      "\<And>i. d_forks (dt_dialogs ?t i) = (if i = r then None else d_forks (dt_dialogs t i))"
      using e False by (auto simp: confirm_def Let_def on_dialog_def)
    have "live ?t = live t" "bucket ?t = bucket t" using e by (auto simp: live_def bucket_def f)
    moreover have "merged_ok ?t" using ok by (simp add: table_ok_def merged_ok_def f)
    moreover have "record_ok (dt_dialogs ?t i)" if "i < dt_nextD t" for i
      using ok that e by (simp add: table_ok_def record_ok_def f)
    ultimately show ?thesis using ok by (simp add: table_ok_def index_ok_def f)
  qed
qed

text \<open>Ending a record: what one successful \<^verbatim>\<open>end\<close> changes.\<close>

lemma endBy_ended: "d_state (dt_dialogs t r) = dialogEnded \<Longrightarrow> endBy reason who r t = (t, False)"
  by (simp add: endBy_def)

lemma removeLocked_fields [simp]: "dt_nextD (removeLocked r t) = dt_nextD t" "dt_dialogs (removeLocked r t) = dt_dialogs t"
  "dt_sessions (removeLocked r t) = dt_sessions t" "dt_closes (removeLocked r t) = dt_closes t" "dt_attempts (removeLocked r t) = dt_attempts t"
  "dt_nextA (removeLocked r t) = dt_nextA t" "dt_closed (removeLocked r t) = dt_closed t"
  by (simp_all add: removeLocked_def Let_def)

lemma endBy_fields:
  assumes "d_state (dt_dialogs t r) \<noteq> dialogEnded"
  shows "byCallID (fst (endBy reason who r t)) = byCallID (removeLocked r t)"
    and "dt_sessions (fst (endBy reason who r t)) = dt_sessions t - 1"
    and "dt_nextD (fst (endBy reason who r t)) = dt_nextD t"
    and "dt_attempts (fst (endBy reason who r t)) = dt_attempts t"
    and "dt_nextA (fst (endBy reason who r t)) = dt_nextA t"
    and "dt_closes (fst (endBy reason who r t)) = dt_closes t @ (case d_media (dt_dialogs t r) of None \<Rightarrow> [] | Some s \<Rightarrow> [s])"
    and "dt_dialogs (fst (endBy reason who r t)) = (dt_dialogs t)(r := (dt_dialogs t r)\<lparr>d_state := dialogEnded, inFlight := None,
           d_owed := None, d_ack := None, d_lastAck := None, hook_live := False\<rparr>)"
    and "snd (endBy reason who r t) \<longleftrightarrow> d_state (dt_dialogs t r) = dialogConfirmed"
  using assms by (auto simp: endBy_def Let_def removeLocked_def on_dialog_def split: option.split)

lemma endBy_ok:
  assumes ok: "table_ok t" and r: "r < dt_nextD t"
  shows "table_ok (fst (endBy reason who r t))"
proof (cases "d_state (dt_dialogs t r) = dialogEnded")
  case True
  then show ?thesis using ok by (simp add: endBy_ended)
next
  case False
  let ?t = "fst (endBy reason who r t)" and ?c = "d_callID (dt_dialogs t r)"
  have inv: "index_ok t" "dt_sessions t = int (card (live t))" "merged_ok t" "\<forall>r < dt_nextD t. record_ok (dt_dialogs t r)"
    using ok by (simp_all add: table_ok_def)
  have f: "d_callID (dt_dialogs ?t i) = d_callID (dt_dialogs t i)" "callerTag (dt_dialogs ?t i) = callerTag (dt_dialogs t i)"
    "d_state (dt_dialogs ?t i) = (if i = r then dialogEnded else d_state (dt_dialogs t i))"
    "d_media (dt_dialogs ?t i) = d_media (dt_dialogs t i)" "d_forks (dt_dialogs ?t i) = d_forks (dt_dialogs t i)" for i
    by (simp_all add: endBy_fields [OF False])
  have live: "live ?t = live t - {r}" by (auto simp: live_def f endBy_fields [OF False])
  have rl: "r \<in> live t" using r False by (simp add: live_def)
  have bk: "bucket ?t c = (if c = ?c then remove1 r (bucket t c) else bucket t c)" for c
    by (simp add: bucket_def endBy_fields [OF False] removeLocked_def Let_def m_get0_def)
  have old: "distinct (bucket t c)" "set (bucket t c) = {r \<in> live t. d_callID (dt_dialogs t r) = c}" for c
    using inv(1) by (simp_all add: index_ok_def)
  have sb: "set (bucket ?t c) = (if c = ?c then set (bucket t c) - {r} else set (bucket t c))" for c
    by (simp add: bk old(1))
  have "set (bucket ?t c) = {r \<in> live ?t. d_callID (dt_dialogs ?t r) = c}" for c
    unfolding sb live f old(2) by auto
  moreover have "distinct (bucket ?t c)" for c by (simp add: bk old(1))
  moreover have "m_get (byCallID ?t) c \<noteq> Some []" "wf_map (byCallID ?t)" for c
    using inv(1) by (simp_all add: index_ok_def endBy_fields [OF False] removeLocked_def Let_def)
  ultimately have "index_ok ?t" by (simp add: index_ok_def)
  moreover have "card (live t) = Suc (card (live t - {r}))" by (rule card.remove [OF finite_live rl])
  then have "dt_sessions ?t = int (card (live ?t))"
    unfolding live using inv(2) by (simp add: endBy_fields [OF False])
  moreover have "merged_ok ?t" using inv(3) by (simp add: merged_ok_def f endBy_fields [OF False])
  moreover have "record_ok (dt_dialogs ?t i)" if "i < dt_nextD t" for i
    using inv(4) that by (simp add: record_ok_def f)
  ultimately show ?thesis by (simp add: table_ok_def endBy_fields [OF False])
qed

section \<open>The history\<close>

text \<open>Attempts: each INVITE marked sent at most once, and a CANCEL ordered exactly when it was sent and is cancelled.\<close>

definition attempts_ok :: "nat \<Rightarrow> (nat \<Rightarrow> invite_attempt) \<Rightarrow> nat \<Rightarrow> (nat \<Rightarrow> nat option) \<Rightarrow> dlg_out list \<Rightarrow> bool" where
  "attempts_ok nA att nD fl h \<longleftrightarrow>
     (\<forall>a. count_list h (SentInvite a) = (if a < nA \<and> ia_sent (att a) then 1 else 0)) \<and>
     (\<forall>a. count_list h (OrderCancel a) = (if a < nA \<and> ia_sent (att a) \<and> ia_cancelled (att a) then 1 else 0)) \<and>
     (\<forall>r a. r < nD \<longrightarrow> fl r = Some a \<longrightarrow> a < nA \<and> \<not> ia_cancelled (att a)) \<and>
     (\<forall>r r' a. r < nD \<longrightarrow> r' < nD \<longrightarrow> fl r = Some a \<longrightarrow> fl r' = Some a \<longrightarrow> r = r')"

text \<open>Calls: up only after being confirmed, confirmed at most once, and reported up at their end at most once.\<close>

definition call_ok :: "bool \<Rightarrow> dialog_state \<Rightarrow> nat \<Rightarrow> nat \<Rightarrow> bool" where
  "call_ok known s c w \<longleftrightarrow> (c = 0 \<and> w = 0 \<and> \<not> (known \<and> s = dialogConfirmed)) \<or>
     (c = 1 \<and> known \<and> (s = dialogConfirmed \<and> w = 0 \<or> s = dialogEnded \<and> w = 1))"

definition calls_ok :: "nat \<Rightarrow> (nat \<Rightarrow> dialog_state) \<Rightarrow> dlg_out list \<Rightarrow> bool" where
  "calls_ok nD st h \<longleftrightarrow> (\<forall>r. call_ok (r < nD) (st r) (count_list h (Confirmed r)) (count_list h (WasUp r)))"

text \<open>Sessions: each has one owner, and is closed once, when it was refused or its call has ended.\<close>

definition media_ok :: "nat \<Rightarrow> (nat \<Rightarrow> dialog_state) \<Rightarrow> (nat \<Rightarrow> nat option) \<Rightarrow> nat list \<Rightarrow> dlg_out list \<Rightarrow> bool" where
  "media_ok nD st med cl h \<longleftrightarrow>
     (\<forall>s r. Attached s r \<in> set h \<longleftrightarrow> r < nD \<and> med r = Some s) \<and>
     (\<forall>s r r'. Attached s r \<in> set h \<longrightarrow> Attached s r' \<in> set h \<longrightarrow> r = r') \<and>
     (\<forall>s r. Attached s r \<in> set h \<longrightarrow> Refused s \<notin> set h) \<and>
     (\<forall>s. count_list cl s = (if Refused s \<in> set h \<or> (\<exists>r < nD. med r = Some s \<and> st r = dialogEnded) then 1 else 0))"

text \<open>Calls given up are never confirmed.\<close>

definition giveup_ok :: "nat \<Rightarrow> (nat \<Rightarrow> bool) \<Rightarrow> dlg_out list \<Rightarrow> bool" where
  "giveup_ok nD ca h \<longleftrightarrow> (\<forall>r. GaveUp r \<in> set h \<longleftrightarrow> r < nD \<and> ca r) \<and> (\<forall>r. Confirmed r \<notin> set (dropWhile (\<lambda>e. e \<noteq> GaveUp r) h))"

abbreviation "d_st t \<equiv> \<lambda>r. d_state (dt_dialogs t r)"
abbreviation "d_fl t \<equiv> \<lambda>r. inFlight (dt_dialogs t r)"
abbreviation "d_ca t \<equiv> \<lambda>r. d_cancelled (dt_dialogs t r)"
abbreviation "d_med t \<equiv> \<lambda>r. d_media (dt_dialogs t r)"

definition hist_ok :: "dialog_table \<Rightarrow> dlg_out list \<Rightarrow> bool" where
  "hist_ok t h \<longleftrightarrow> attempts_ok (dt_nextA t) (dt_attempts t) (dt_nextD t) (d_fl t) h \<and> calls_ok (dt_nextD t) (d_st t) h \<and>
     media_ok (dt_nextD t) (d_st t) (d_med t) (dt_closes t) h \<and> giveup_ok (dt_nextD t) (d_ca t) h"

lemma same_core_hist: "same_core t t' \<Longrightarrow> hist_ok t' h = hist_ok t h"
  by (simp add: hist_ok_def same_core_def core_def)

lemma hist_ok_new: "hist_ok newDialogTable []"
  by (simp add: hist_ok_def attempts_ok_def calls_ok_def call_ok_def media_ok_def giveup_ok_def newDialogTable_def)

text \<open>Outputs that say nothing about a part of the history.\<close>

lemma attempts_skip: "(\<And>a. SentInvite a \<notin> set os \<and> OrderCancel a \<notin> set os) \<Longrightarrow> attempts_ok nA att nD fl (h @ os) = attempts_ok nA att nD fl h"
  by (simp add: attempts_ok_def)

lemma calls_skip: "(\<And>r. Confirmed r \<notin> set os \<and> WasUp r \<notin> set os) \<Longrightarrow> calls_ok nD st (h @ os) = calls_ok nD st h"
  by (simp add: calls_ok_def)

lemma media_skip: "(\<And>s r. Attached s r \<notin> set os \<and> Refused s \<notin> set os) \<Longrightarrow> media_ok nD st med cl (h @ os) = media_ok nD st med cl h"
  by (simp add: media_ok_def)

lemma giveup_skip: 
  assumes "\<And>r. GaveUp r \<notin> set os \<and> Confirmed r \<notin> set os"
  shows "giveup_ok nD ca (h @ os) = giveup_ok nD ca h"
proof -
  have "Confirmed r \<in> set (dropWhile (\<lambda>e. e \<noteq> GaveUp r) (h @ os)) \<longleftrightarrow> Confirmed r \<in> set (dropWhile (\<lambda>e. e \<noteq> GaveUp r) h)" for r
  proof (cases "GaveUp r \<in> set h")
    case True
    then show ?thesis using assms by (auto simp: dropWhile_append)
  next
    case False
    then have "dropWhile (\<lambda>e. e \<noteq> GaveUp r) h = []" "dropWhile (\<lambda>e. e \<noteq> GaveUp r) (h @ os) = []"
      using assms [of r] by (auto simp: dropWhile_eq_Nil_conv)
    then show ?thesis by (simp only: list.set)
  qed
  then show ?thesis using assms by (simp add: giveup_ok_def)
qed

lemma attempts_weaken:
  assumes "attempts_ok nA att nD fl h" and "\<And>r a. r < nD' \<Longrightarrow> fl' r = Some a \<Longrightarrow> r < nD \<and> fl r = Some a"
  shows "attempts_ok nA att nD' fl' h"
  using assms unfolding attempts_ok_def by meson

lemma calls_alloc:
  assumes c: "calls_ok nD st h" and st': "st' = st(nD := dialogEarly)"
  shows "calls_ok (Suc nD) st' h"
  unfolding calls_ok_def
proof
  fix r
  show "call_ok (r < Suc nD) (st' r) (count_list h (Confirmed r)) (count_list h (WasUp r))"
    using c [unfolded calls_ok_def, rule_format, of r] by (cases "r = nD") (auto simp: call_ok_def st')
qed

lemma media_alloc:
  assumes m: "media_ok nD st med cl h" and "med' = med(nD := None)" and "st' = st(nD := x)"
  shows "media_ok (Suc nD) st' med' cl h"
proof -
  have "med r = Some s \<and> r < nD \<longleftrightarrow> med' r = Some s \<and> r < Suc nD" for r s using assms(2) by auto
  moreover have "(\<exists>r < nD. med r = Some s \<and> st r = dialogEnded) \<longleftrightarrow> (\<exists>r < Suc nD. med' r = Some s \<and> st' r = dialogEnded)" for s
    using assms(2,3) by (auto simp: less_Suc_eq)
  ultimately show ?thesis using m unfolding media_ok_def by (simp add: conj_commute)
qed

lemmas hist_skip = attempts_skip calls_skip media_skip giveup_skip

lemma begin_hist:
  assumes b: "begin_dialog n n' q p limit t = (t', Some r, res)" and h: "hist_ok t h"
  shows "hist_ok t' (h @ [Opened r])"
proof -
  have f: "dt_nextD t' = Suc (dt_nextD t)" "dt_nextA t' = dt_nextA t" "dt_attempts t' = dt_attempts t" "dt_closes t' = dt_closes t"
    "dt_dialogs t' = (dt_dialogs t)(dt_nextD t := new_dialog n n' q p)"
    using b by (auto simp: begin_dialog_def Let_def split: if_splits)
  have d: "d_state (new_dialog n n' q p) = dialogEarly" "inFlight (new_dialog n n' q p) = None" "\<not> d_cancelled (new_dialog n n' q p)"
    "d_media (new_dialog n n' q p) = None" by (simp_all add: new_dialog_def)
  have "attempts_ok (dt_nextA t') (dt_attempts t') (dt_nextD t') (d_fl t') h"
    using h by (auto simp: hist_ok_def f d less_Suc_eq split: if_splits intro!: attempts_weaken [where nD = "dt_nextD t" and fl = "d_fl t"])
  moreover have "calls_ok (dt_nextD t') (d_st t') h"
    using h d(1) by (auto simp: hist_ok_def f(1,5) intro!: calls_alloc [where st = "d_st t"])
  moreover have "media_ok (dt_nextD t') (d_st t') (d_med t') (dt_closes t') h"
    using h d(4) by (auto simp: hist_ok_def f intro!: media_alloc [where st = "d_st t" and med = "d_med t"])
  moreover have "giveup_ok (dt_nextD t') (d_ca t') h"
    using h by (auto simp: hist_ok_def giveup_ok_def f d less_Suc_eq)
  ultimately show ?thesis by (simp add: hist_ok_def hist_skip)
qed

lemma upd_fields: "(\<lambda>x. d_state ((f(r := d)) x)) = (\<lambda>x. d_state (f x))(r := d_state d)" "(\<lambda>x. inFlight ((f(r := d)) x)) = (\<lambda>x. inFlight (f x))(r := inFlight d)"
  "(\<lambda>x. d_cancelled ((f(r := d)) x)) = (\<lambda>x. d_cancelled (f x))(r := d_cancelled d)" "(\<lambda>x. d_media ((f(r := d)) x)) = (\<lambda>x. d_media (f x))(r := d_media d)"
  by auto

lemma upd_same: "(\<lambda>x. g (f x))(r := g (f r)) = (\<lambda>x. g (f x))"
  by auto

lemma attach_hist:
  assumes pre: "dlg_pre (OpAttach s r) t h" and h: "hist_ok t h"
  shows "hist_ok (fst (dlg_step (OpAttach s r) t)) (h @ snd (dlg_step (OpAttach s r) t))"
proof -
  have n: "Refused s \<notin> set h" "Attached s x \<notin> set h" for x
    using pre by fastforce+
  have r: "r < dt_nextD t" "d_med t r = None" using pre by simp_all
  have m: "media_ok (dt_nextD t) (d_st t) (d_med t) (dt_closes t) h" using h by (simp add: hist_ok_def)
  then have n2: "\<not> (x < dt_nextD t \<and> d_med t x = Some s)" for x using n(2) [of x] unfolding media_ok_def by blast
  show ?thesis
  proof (cases "dt_closed t \<or> d_state (dt_dialogs t r) = dialogEnded")
    case True
    have "media_ok (dt_nextD t) (d_st t) (d_med t) (dt_closes t @ [s]) (h @ [Refused s])"
      using m n n2 unfolding media_ok_def by auto
    then show ?thesis using True h by (simp add: attach_def hist_ok_def hist_skip)
  next
    case False
    let ?med = "(d_med t)(r := Some s)"
    have e: "?med x = Some y \<and> d_st t x = dialogEnded \<longleftrightarrow> d_med t x = Some y \<and> d_st t x = dialogEnded" for x y
      using r False by auto
    have a: "Attached y x \<in> set (h @ [Attached s r]) \<longleftrightarrow> x < dt_nextD t \<and> ?med x = Some y" for x y
      using m r n(2) unfolding media_ok_def by auto
    have "x = x'" if "?med x = Some y" "?med x' = Some y" "x < dt_nextD t" "x' < dt_nextD t" for x x' y
    proof -
      have "x = x'" if "d_med t x = Some y" "d_med t x' = Some y" using m that \<open>x < _\<close> \<open>x' < _\<close> unfolding media_ok_def by blast
      then show ?thesis using that n2 [of x] n2 [of x'] by (auto split: if_splits)
    qed
    moreover have "Refused y \<notin> set (h @ [Attached s r])" if "?med x = Some y" "x < dt_nextD t" for x y
    proof (cases "x = r")
      case True
      then show ?thesis using that n(1) by auto
    next
      case False
      then have "Refused y \<notin> set h" using that m unfolding media_ok_def by (metis fun_upd_other)
      then show ?thesis by simp
    qed
    moreover have "count_list (dt_closes t) y = (if Refused y \<in> set (h @ [Attached s r]) \<or> (\<exists>x < dt_nextD t. d_med t x = Some y \<and> d_st t x = dialogEnded) then 1 else 0)" for y
      using m unfolding media_ok_def by auto
    ultimately have "media_ok (dt_nextD t) (d_st t) ?med (dt_closes t) (h @ [Attached s r])"
      unfolding media_ok_def a e by blast
    then show ?thesis using False h by (simp add: attach_def on_dialog_def hist_ok_def hist_skip upd_fields upd_same del: fun_upd_apply)
  qed
qed

lemma track_hist:
  assumes r: "r < dt_nextD t" and h: "hist_ok t h"
  shows "hist_ok (fst (track r t)) h"
proof -
  have a: "attempts_ok (dt_nextA t) (dt_attempts t) (dt_nextD t) (d_fl t) h" using h by (simp add: hist_ok_def)
  have "attempts_ok (Suc (dt_nextA t)) ((dt_attempts t)(dt_nextA t := \<lparr>ia_sent = False, ia_cancelled = False\<rparr>)) (dt_nextD t) fl h"
    if "fl = d_fl t \<or> fl = (d_fl t)(r := Some (dt_nextA t))" for fl
  proof -
    let ?att = "(dt_attempts t)(dt_nextA t := \<lparr>ia_sent = False, ia_cancelled = False\<rparr>)"
    have old: "a < dt_nextA t" "\<not> ia_cancelled (dt_attempts t a)" if "x < dt_nextD t" "d_fl t x = Some a" for x a
      using a that unfolding attempts_ok_def by blast+
    have "a < Suc (dt_nextA t) \<and> \<not> ia_cancelled (?att a)" if "x < dt_nextD t" "fl x = Some a" for x a
      using that \<open>fl = _ \<or> _\<close> old [of x a] by (auto split: if_splits)
    moreover have "x = y" if "x < dt_nextD t" "y < dt_nextD t" "fl x = Some a" "fl y = Some a" for x y a
    proof -
      have "x = y" if "d_fl t x = Some a" "d_fl t y = Some a" using a that \<open>x < _\<close> \<open>y < _\<close> unfolding attempts_ok_def by blast
      then show ?thesis using that \<open>fl = _ \<or> _\<close> old [of x a] old [of y a] by (auto split: if_splits)
    qed
    moreover have "count_list h (SentInvite a) = (if a < Suc (dt_nextA t) \<and> ia_sent (?att a) then 1 else 0)"
      "count_list h (OrderCancel a) = (if a < Suc (dt_nextA t) \<and> ia_sent (?att a) \<and> ia_cancelled (?att a) then 1 else 0)" for a
      using a unfolding attempts_ok_def by (auto simp: less_Suc_eq)
    ultimately show ?thesis unfolding attempts_ok_def by blast
  qed
  then show ?thesis
    using h by (cases "d_cancelled (dt_dialogs t r)")
      (simp_all add: track_def Let_def on_dialog_def hist_ok_def upd_fields upd_same fun_upd_idem del: fun_upd_apply)
qed

lemma markSent_hist:
  assumes pre: "a < dt_nextA t" "SentInvite a \<notin> set h" and h: "hist_ok t h"
  shows "hist_ok (fst (markSent a t)) (h @ SentInvite a # (if snd (markSent a t) then [OrderCancel a] else []))"
proof -
  have a: "attempts_ok (dt_nextA t) (dt_attempts t) (dt_nextD t) (d_fl t) h" using h by (simp add: hist_ok_def)
  have "\<not> ia_sent (dt_attempts t a)"
    using a pre unfolding attempts_ok_def by (metis count_list_0_iff zero_neq_one)
  then have "attempts_ok (dt_nextA t) ((dt_attempts t)(a := (dt_attempts t a)\<lparr>ia_sent := True\<rparr>)) (dt_nextD t) (d_fl t)
      (h @ SentInvite a # (if ia_cancelled (dt_attempts t a) then [OrderCancel a] else []))"
    using a pre(1) unfolding attempts_ok_def by auto
  then show ?thesis
    using h by (auto simp: markSent_def on_attempt_def hist_ok_def calls_skip media_skip giveup_skip)
qed

lemma untrack_hist:
  assumes h: "hist_ok t h"
  shows "hist_ok (untrack r t) h"
proof -
  have "attempts_ok (dt_nextA t) (dt_attempts t) (dt_nextD t) ((d_fl t)(r := None)) h"
    using h unfolding hist_ok_def by (auto intro: attempts_weaken split: if_splits)
  then show ?thesis using h by (simp add: untrack_def on_dialog_def hist_ok_def upd_fields upd_same del: fun_upd_apply)
qed

lemma giveup_add:
  assumes g: "giveup_ok nD ca h" and r: "r < nD"
  shows "giveup_ok nD (ca(r := True)) (h @ [GaveUp r])"
proof -
  have "Confirmed x \<notin> set (dropWhile (\<lambda>e. e \<noteq> GaveUp x) (h @ [GaveUp r]))" for x
  proof (cases "GaveUp x \<in> set h")
    case True
    then show ?thesis using g by (auto simp: giveup_ok_def dropWhile_append)
  next
    case False
    then have "dropWhile (\<lambda>e. e \<noteq> GaveUp x) (h @ [GaveUp r]) = dropWhile (\<lambda>e. e \<noteq> GaveUp x) [GaveUp r]"
      by (intro dropWhile_append2) auto
    then show ?thesis by (auto split: if_splits)
  qed
  then show ?thesis using g r by (auto simp: giveup_ok_def)
qed

lemma attempts_cancel:
  assumes a: "attempts_ok nA att nD fl h" and r: "r < nD" "fl r = Some a"
  shows "attempts_ok nA (att(a := (att a)\<lparr>ia_cancelled := True\<rparr>)) nD (fl(r := None)) (h @ (if ia_sent (att a) then [OrderCancel a] else []))"
proof -
  have fresh: "a < nA" "\<not> ia_cancelled (att a)" using a r unfolding attempts_ok_def by blast+
  have other: "y < nA" "\<not> ia_cancelled (att y)" "y \<noteq> a" if "x < nD" "(fl(r := None)) x = Some y" for x y
  proof -
    have x: "x \<noteq> r" "fl x = Some y" using that(2) by (auto split: if_splits)
    show "y < nA" "\<not> ia_cancelled (att y)" using a that(1) x unfolding attempts_ok_def by blast+
    show "y \<noteq> a" using a that(1) x r unfolding attempts_ok_def by blast
  qed
  have inj: "x = y" if "x < nD" "y < nD" "(fl(r := None)) x = Some b" "(fl(r := None)) y = Some b" for x y b
  proof -
    have "fl x = Some b" "fl y = Some b" using that(3,4) by (auto split: if_splits)
    then show ?thesis using a that(1,2) unfolding attempts_ok_def by blast
  qed
  have "count_list (h @ (if ia_sent (att a) then [OrderCancel a] else [])) (SentInvite b) = (if b < nA \<and> ia_sent ((att(a := (att a)\<lparr>ia_cancelled := True\<rparr>)) b) then 1 else 0)"
    "count_list (h @ (if ia_sent (att a) then [OrderCancel a] else [])) (OrderCancel b) =
      (if b < nA \<and> ia_sent ((att(a := (att a)\<lparr>ia_cancelled := True\<rparr>)) b) \<and> ia_cancelled ((att(a := (att a)\<lparr>ia_cancelled := True\<rparr>)) b) then 1 else 0)" for b
    using a fresh unfolding attempts_ok_def by (auto simp: count_list_append)
  moreover have "y < nA \<and> \<not> ia_cancelled ((att(a := (att a)\<lparr>ia_cancelled := True\<rparr>)) y)" if "x < nD" "(fl(r := None)) x = Some y" for x y
    using other [OF that] by simp
  ultimately show ?thesis using inj unfolding attempts_ok_def by blast
qed

lemma cancel_hist:
  assumes r: "r < dt_nextD t" and h: "hist_ok t h"
  shows "hist_ok (fst (dlg_step (OpCancel why r) t)) (h @ snd (dlg_step (OpCancel why r) t))"
proof -
  have a: "attempts_ok (dt_nextA t) (dt_attempts t) (dt_nextD t) (d_fl t) h" and g: "giveup_ok (dt_nextD t) (d_ca t) h"
    using h by (simp_all add: hist_ok_def)
  have g1: "giveup_ok (dt_nextD t) ((d_ca t)(r := True)) (h @ [GaveUp r])" by (rule giveup_add [OF g r])
  have attempts1: "attempts_ok nA att nD fl (h @ GaveUp x # os) = attempts_ok nA att nD fl (h @ os)" for nA att nD fl x os
    by (simp add: attempts_ok_def)
  have giveup1: "giveup_ok nD ca (h @ [GaveUp x, OrderCancel y]) = giveup_ok nD ca (h @ [GaveUp x])" for nD ca x y
    using giveup_skip [of "[OrderCancel y]" nD ca "h @ [GaveUp x]"] by simp
  show ?thesis
  proof (cases "d_fl t r")
    case None
    have old: "giveup_ok (dt_nextD t) (d_ca t) (h @ [GaveUp r])" if "d_ca t r"
      using g1 that by (simp add: fun_upd_idem)
    show ?thesis
    proof (cases "why = cancelOrphan")
      case True
      then show ?thesis using None old h by (simp add: cancelSeries_def hist_ok_def attempts_skip calls_skip media_skip)
    next
      case False
      obtain t' where t': "cancelSeries why r t = (t', None, False)" "dt_nextD t' = dt_nextD t" "dt_nextA t' = dt_nextA t"
        "dt_attempts t' = dt_attempts t" "dt_closes t' = dt_closes t" "d_st t' = d_st t" "d_fl t' = d_fl t"
        "d_ca t' = (d_ca t)(r := True)" "d_med t' = d_med t" "d_cancelled (dt_dialogs t' r)"
        using None False by (auto simp: cancelSeries_def Let_def on_dialog_def fun_eq_iff)
      show ?thesis using h g1 by (simp add: t' hist_ok_def attempts_skip calls_skip media_skip)
    qed
  next
    case (Some b)
    obtain t' where t': "cancelSeries why r t = (t', Some b, ia_sent (dt_attempts t b))" "dt_nextD t' = dt_nextD t" "dt_nextA t' = dt_nextA t"
      "dt_attempts t' = (dt_attempts t)(b := (dt_attempts t b)\<lparr>ia_cancelled := True\<rparr>)" "dt_closes t' = dt_closes t" "d_st t' = d_st t"
      "d_fl t' = (d_fl t)(r := None)" "d_ca t' = (d_ca t)(r := True)" "d_med t' = d_med t" "d_cancelled (dt_dialogs t' r)"
      using Some by (auto simp: cancelSeries_def Let_def on_dialog_def on_attempt_def fun_eq_iff)
    show ?thesis using h g1 attempts_cancel [OF a r Some]
      by (simp add: t' hist_ok_def attempts1 giveup1 calls_skip media_skip del: fun_upd_apply)
  qed
qed

lemma confirm_hist:
  assumes r: "r < dt_nextD t" and h: "hist_ok t h"
  shows "hist_ok (fst (dlg_step (OpConfirm now tag route r) t)) (h @ snd (dlg_step (OpConfirm now tag route r) t))"
proof (cases "d_st t r \<noteq> dialogEarly \<or> d_media (dt_dialogs t r) = None \<or> d_ca t r")
  case True
  then show ?thesis using h by (auto simp: confirm_def)
next
  case False
  have ca: "calls_ok (dt_nextD t) ((d_st t)(r := dialogConfirmed)) (h @ [Confirmed r])"
    unfolding calls_ok_def
  proof
    fix x
    have "call_ok (x < dt_nextD t) (d_st t x) (count_list h (Confirmed x)) (count_list h (WasUp x))"
      using h by (simp add: hist_ok_def calls_ok_def)
    then show "call_ok (x < dt_nextD t) (((d_st t)(r := dialogConfirmed)) x) (count_list (h @ [Confirmed r]) (Confirmed x)) (count_list (h @ [Confirmed r]) (WasUp x))"
      using False r by (cases "x = r") (auto simp: call_ok_def)
  qed
  have g: "giveup_ok (dt_nextD t) (d_ca t) (h @ [Confirmed r])"
  proof -
    have g0: "giveup_ok (dt_nextD t) (d_ca t) h" using h by (simp add: hist_ok_def)
    then have "GaveUp r \<notin> set h" using False by (simp add: giveup_ok_def)
    then have "Confirmed x \<notin> set (dropWhile (\<lambda>e. e \<noteq> GaveUp x) (h @ [Confirmed r]))" for x
      using g0 by (cases "GaveUp x \<in> set h") (auto simp: giveup_ok_def dropWhile_append)
    then show ?thesis using g0 by (simp add: giveup_ok_def)
  qed
  have m: "media_ok (dt_nextD t) ((d_st t)(r := dialogConfirmed)) (d_med t) (dt_closes t) h"
  proof -
    have e: "((d_st t)(r := dialogConfirmed)) x = dialogEnded \<longleftrightarrow> d_st t x = dialogEnded" for x using False by auto
    show ?thesis using h unfolding hist_ok_def media_ok_def e by blast
  qed
  obtain t' where t': "confirm now tag route r t = (t', True)" "dt_nextD t' = dt_nextD t" "dt_nextA t' = dt_nextA t"
    "dt_attempts t' = dt_attempts t" "dt_closes t' = dt_closes t" "d_st t' = (d_st t)(r := dialogConfirmed)" "d_fl t' = d_fl t"
    "d_ca t' = d_ca t" "d_med t' = d_med t"
    using False by (auto simp: confirm_def Let_def on_dialog_def fun_eq_iff)
  show ?thesis using h ca g m by (simp add: t' hist_ok_def attempts_skip media_skip)
qed

lemma endBy_hist:
  assumes r: "r < dt_nextD t" and h: "hist_ok t h"
  shows "hist_ok (fst (endBy reason who r t)) (h @ up_out r (snd (endBy reason who r t)))"
proof (cases "d_state (dt_dialogs t r) = dialogEnded")
  case True
  then show ?thesis using h by (simp add: endBy_ended up_out_def)
next
  case False
  let ?t = "fst (endBy reason who r t)" and ?o = "up_out r (snd (endBy reason who r t))"
  have o1: "?o = (if d_st t r = dialogConfirmed then [WasUp r] else [])"
    by (simp add: up_out_def endBy_fields [OF False])
  have f: "d_st ?t = (d_st t)(r := dialogEnded)" "d_fl ?t = (d_fl t)(r := None)" "d_ca ?t = d_ca t" "d_med ?t = d_med t"
    by (auto simp: endBy_fields [OF False])
  have "attempts_ok (dt_nextA t) (dt_attempts t) (dt_nextD t) ((d_fl t)(r := None)) h"
    using h unfolding hist_ok_def by (auto intro: attempts_weaken split: if_splits)
  moreover have "calls_ok (dt_nextD t) ((d_st t)(r := dialogEnded)) (h @ ?o)"
    unfolding calls_ok_def
  proof
    fix x
    have "call_ok (x < dt_nextD t) (d_st t x) (count_list h (Confirmed x)) (count_list h (WasUp x))"
      using h by (simp add: hist_ok_def calls_ok_def)
    then show "call_ok (x < dt_nextD t) (((d_st t)(r := dialogEnded)) x) (count_list (h @ ?o) (Confirmed x)) (count_list (h @ ?o) (WasUp x))"
      unfolding o1 using False r by (cases "x = r") (auto simp: call_ok_def)
  qed
  moreover have "media_ok (dt_nextD t) ((d_st t)(r := dialogEnded)) (d_med t) (dt_closes ?t) h"
  proof -
    have m: "media_ok (dt_nextD t) (d_st t) (d_med t) (dt_closes t) h" using h by (simp add: hist_ok_def)
    have other: "(\<exists>x < dt_nextD t. d_med t x = Some s \<and> ((d_st t)(r := dialogEnded)) x = dialogEnded) \<longleftrightarrow>
      (\<exists>x < dt_nextD t. d_med t x = Some s \<and> d_st t x = dialogEnded) \<or> d_med t r = Some s" for s using r by auto
    have new: "Refused s \<notin> set h \<and> \<not> (\<exists>x < dt_nextD t. d_med t x = Some s \<and> d_st t x = dialogEnded)" if "d_med t r = Some s" for s
    proof -
      have "Attached s r \<in> set h" using m that r unfolding media_ok_def by blast
      then show ?thesis using m False unfolding media_ok_def by metis
    qed
    have "count_list (dt_closes ?t) s = (if Refused s \<in> set h \<or> (\<exists>x < dt_nextD t. d_med t x = Some s \<and> ((d_st t)(r := dialogEnded)) x = dialogEnded) then 1 else 0)" for s
      using m new [of s] unfolding other media_ok_def by (auto simp: endBy_fields [OF False] split: option.split)
    then show ?thesis using m unfolding media_ok_def by blast
  qed
  ultimately show ?thesis
    using h by (simp add: hist_ok_def f endBy_fields(3,4,5) [OF False] o1 attempts_skip media_skip giveup_skip)
qed

section \<open>Every run\<close>

lemma end_after:
  assumes c: "same_core t t1" and "table_ok t" "hist_ok t h" "r < dt_nextD t"
  shows "table_ok (fst (endBy reason who r t1)) \<and> hist_ok (fst (endBy reason who r t1)) (h @ up_out r (snd (endBy reason who r t1)))"
proof -
  have "table_ok t1" "hist_ok t1 h" "r < dt_nextD t1"
    using assms keeps_table_ok [OF same_core_keeps [OF c]] same_core_hist [OF c] by (auto simp: same_core_def)
  then show ?thesis using endBy_ok endBy_hist by blast
qed

lemma ackExpired_cases:
  obtains (idle) "ackExpired ref r t = (t, None, False)"
  | (ends) t1 miss where "same_core t t1" "ackExpired ref r t = (fst (endBy endAckTimeout byProxy r t1), miss, snd (endBy endAckTimeout byProxy r t1))"
proof (cases "hook_live (dt_dialogs t r) \<and> (case d_ack (dt_dialogs t r) of Some a \<Rightarrow> ak_ref a = ref | None \<Rightarrow> False)")
  case False
  then show ?thesis using idle by (auto simp: ackExpired_def)
next
  case True
  then have "ackExpired ref r t = (fst (endBy endAckTimeout byProxy r (fst (takeAckMiss r t))), snd (takeAckMiss r t),
      snd (endBy endAckTimeout byProxy r (fst (takeAckMiss r t))))"
    by (simp add: ackExpired_def end_dialog_def case_prod_beta Let_def)
  then show ?thesis using ends owed_ops_core(8) by blast
qed

lemma owedExpired_cases:
  obtains (idle) "fst (owedExpired ref r t) = t" "snd (snd (owedExpired ref r t)) = False"
  | (ends) t1 miss where "same_core t t1" "owedExpired ref r t = (fst (endBy endAnswerTimeout byProxy r t1), miss, snd (endBy endAnswerTimeout byProxy r t1))"
proof (cases "hook_live (dt_dialogs t r) \<and> snd (dropOwed ref r t)")
  case False
  have "snd (dropOwed ref r t) \<or> fst (dropOwed ref r t) = t" by (auto simp: dropOwed_def split: option.split)
  then show ?thesis using False idle by (auto simp: owedExpired_def case_prod_beta Let_def)
next
  case True
  let ?rel = "case d_owed (dt_dialogs t r) of Some o1 \<Rightarrow> ow_release o1 | None \<Rightarrow> False"
  let ?t1 = "fst (dropOwed ref r t)"
  let ?t2 = "if ?rel then hook_endReInviteOffer r ?t1 else ?t1"
  have "same_core t ?t2"
    using same_core_trans [OF owed_ops_core(4) offer_ops_core(5)] owed_ops_core(4) by simp
  then have c: "same_core t (fst (takeAckMiss r ?t2))" by (rule same_core_trans [OF _ owed_ops_core(8)])
  have "owedExpired ref r t = (fst (endBy endAnswerTimeout byProxy r (fst (takeAckMiss r ?t2))), snd (takeAckMiss r ?t2),
      snd (endBy endAnswerTimeout byProxy r (fst (takeAckMiss r ?t2))))"
    using True by (simp add: owedExpired_def end_dialog_def case_prod_beta Let_def)
  then show ?thesis using ends c by blast
qed

lemma dlg_inv: "dlg_reach t h \<Longrightarrow> table_ok t \<and> hist_ok t h"
proof (induction rule: dlg_reach.induct)
  case dlg_new
  then show ?case by (simp add: table_ok_new hist_ok_new)
next
  case (dlg_op t h op t' outs)
  have ok: "table_ok t" "hist_ok t h" using dlg_op.IH by auto
  have st: "t' = fst (dlg_step op t)" "outs = snd (dlg_step op t)" using dlg_op.hyps(3) by simp_all
  have pre: "dlg_pre op t h" by fact
  show ?case
  proof (cases "inner op")
    case True
    then have "same_core t t'" "outs = []" using inner_core [OF True, of t] st by auto
    then show ?thesis using ok keeps_table_ok [OF same_core_keeps] same_core_hist by auto
  next
    case False
    note up_out_def [simp]
    from False show ?thesis unfolding st
    proof (cases op)
      case (OpBegin n n' q p limit)
      show "table_ok (fst (dlg_step op t)) \<and> hist_ok (fst (dlg_step op t)) (h @ snd (dlg_step op t))"
      proof (cases "begin_dialog n n' q p limit t")
        case (fields t1 r res)
        have "r = None \<Longrightarrow> t1 = t" using fields by (auto simp: begin_dialog_def Let_def split: if_splits)
        then show ?thesis using OpBegin fields ok begin_ok [OF ok(1)] begin_hist [OF _ ok(2)] by (cases r) auto
      qed
    next
      case (OpAttach s r)
      have "fst (dlg_step (OpAttach s r) t) = fst (attach s r t)" by (simp split: prod.split bool.split)
      then show "table_ok (fst (dlg_step op t)) \<and> hist_ok (fst (dlg_step op t)) (h @ snd (dlg_step op t))"
        using OpAttach attach_hist [OF pre [unfolded OpAttach] ok(2)] keeps_table_ok [OF attach_keeps ok(1)] by metis
    next
      case OpClose
      then show "table_ok (fst (dlg_step op t)) \<and> hist_ok (fst (dlg_step op t)) (h @ snd (dlg_step op t))"
        using ok keeps_table_ok [OF close_keeps ok(1)] by (simp add: dlg_close_def hist_ok_def)
    next
      case (OpTrack r)
      then show "table_ok (fst (dlg_step op t)) \<and> hist_ok (fst (dlg_step op t)) (h @ snd (dlg_step op t))"
        using pre track_hist ok keeps_table_ok [OF track_keeps ok(1)] by simp
    next
      case (OpMarkSent a)
      then show "table_ok (fst (dlg_step op t)) \<and> hist_ok (fst (dlg_step op t)) (h @ snd (dlg_step op t))"
        using pre markSent_hist [of a t h] ok keeps_table_ok [OF markSent_keeps ok(1)] by (simp add: case_prod_beta)
    next
      case (OpUntrack r)
      then show "table_ok (fst (dlg_step op t)) \<and> hist_ok (fst (dlg_step op t)) (h @ snd (dlg_step op t))"
        using untrack_hist ok keeps_table_ok [OF untrack_keeps ok(1)] by simp
    next
      case (OpCancel why r)
      have "fst (dlg_step (OpCancel why r) t) = fst (cancelSeries why r t)" by (simp split: prod.split)
      then show "table_ok (fst (dlg_step op t)) \<and> hist_ok (fst (dlg_step op t)) (h @ snd (dlg_step op t))"
        using OpCancel pre cancel_hist [OF _ ok(2), of r why] keeps_table_ok [OF cancel_keeps ok(1)] by (metis dlg_pre.simps(5))
    next
      case (OpConfirm now tag route r)
      have "fst (dlg_step (OpConfirm now tag route r) t) = fst (confirm now tag route r t)" by (simp split: prod.split)
      then show "table_ok (fst (dlg_step op t)) \<and> hist_ok (fst (dlg_step op t)) (h @ snd (dlg_step op t))"
        using OpConfirm pre confirm_hist [OF _ ok(2), of r now tag route] confirm_ok [OF ok(1)] by (metis dlg_pre.simps(6))
    next
      case (OpEnd reason who r)
      then show "table_ok (fst (dlg_step op t)) \<and> hist_ok (fst (dlg_step op t)) (h @ snd (dlg_step op t))"
        using pre end_after [OF same_core_refl ok, of r reason who] by (simp add: case_prod_beta)
    next
      case (OpEndUnlessUp r)
      then show "table_ok (fst (dlg_step op t)) \<and> hist_ok (fst (dlg_step op t)) (h @ snd (dlg_step op t))"
        using pre ok end_after [OF same_core_refl ok, of r endShutdown byProxy] endBy_fields(8) [of t r endShutdown byProxy]
        by (auto simp: endUnlessUp_def end_dialog_def)
    next
      case (OpAckExpired ref r)
      then have r: "r < dt_nextD t" using pre by simp
      show "table_ok (fst (dlg_step op t)) \<and> hist_ok (fst (dlg_step op t)) (h @ snd (dlg_step op t))"
        using end_after [OF _ ok r, of _ endAckTimeout byProxy] ok OpAckExpired by (cases rule: ackExpired_cases [of ref r t]) auto
    next
      case (OpOwedExpired ref r)
      then have r: "r < dt_nextD t" using pre by simp
      show "table_ok (fst (dlg_step op t)) \<and> hist_ok (fst (dlg_step op t)) (h @ snd (dlg_step op t))"
        using end_after [OF _ ok r, of _ endAnswerTimeout byProxy] ok OpOwedExpired
        by (cases rule: owedExpired_cases [of ref r t]) (auto simp: case_prod_beta)
    qed simp_all
  qed
qed

section \<open>A sample run\<close>

fun dlg_run :: "dlg_op list \<Rightarrow> dialog_table \<Rightarrow> dlg_out list \<Rightarrow> (dialog_table \<times> dlg_out list) option" where
  "dlg_run [] t h = Some (t, h)"
| "dlg_run (op # ops) t h = (if dlg_pre op t h then (case dlg_step op t of (t', outs) \<Rightarrow> dlg_run ops t' (h @ outs)) else None)"

lemma dlg_run_reach: "dlg_reach t h \<Longrightarrow> dlg_run ops t h = Some (t', h') \<Longrightarrow> dlg_reach t' h'"
  by (induction ops t h rule: dlg_run.induct) (auto split: if_splits prod.splits intro: dlg_op)

text \<open>Two INVITEs: the first is answered and hung up; the second is cancelled, and its late answer confirms nothing.\<close>

definition sample_invite_1 :: dlg_request where
  "sample_invite_1 = \<lparr>q_CallID = ''c1'', q_FromTag = ''a'', q_ToTag = [], q_From = None, q_To = None, q_CSeq = Some 7, q_Source = ''s'', q_Contact = None\<rparr>"

definition sample_invite_2 :: dlg_request where
  "sample_invite_2 = \<lparr>q_CallID = ''c1'', q_FromTag = ''b'', q_ToTag = [], q_From = None, q_To = None, q_CSeq = Some 7, q_Source = ''s'', q_Contact = None\<rparr>"

definition sample_ops :: "dlg_op list" where
  "sample_ops = [OpBegin 1 2 sample_invite_1 planePublic 5, OpAttach 10 0, OpTrack 0, OpMarkSent 0, OpConfirm 3 ''t'' route_zero 0,
     OpBegin 4 5 sample_invite_2 planePublic 5, OpAttach 11 1, OpTrack 1, OpMarkSent 1, OpCancel cancelByCaller 1, OpConfirm 6 ''u'' route_zero 1]"

definition sample_end :: "dlg_op list" where
  "sample_end = [OpEnd endByeCaller byCaller 0, OpEnd endRTPSilence byProxy 0]"

definition sample_up :: "(dialog_table \<times> dlg_out list) option" where
  "sample_up = dlg_run sample_ops newDialogTable []"

definition sample_down :: "(dialog_table \<times> dlg_out list) option" where
  "sample_down = dlg_run (sample_ops @ sample_end) newDialogTable []"

lemma sample_hist:
  "map_option snd sample_up = Some [Opened 0, Attached 10 0, SentInvite 0, Confirmed 0, Opened 1, Attached 11 1, SentInvite 1, GaveUp 1, OrderCancel 1]"
  "map_option snd sample_down = Some [Opened 0, Attached 10 0, SentInvite 0, Confirmed 0, Opened 1, Attached 11 1, SentInvite 1, GaveUp 1, OrderCancel 1, WasUp 0]"
  by code_simp+

lemma sample_looks:
  "map_option (\<lambda>th. snd (snd (begin_dialog 1 2 sample_invite_2 planePublic 5 (fst th)))) sample_up = Some beginMerged"
  "map_option (\<lambda>th. dlg_lookup ''c1'' ''t'' ''a'' (fst th)) sample_up = Some (Some (0, False))"
  by code_simp+

lemma sample_reach:
  "\<exists>t. sample_up = Some (t, [Opened 0, Attached 10 0, SentInvite 0, Confirmed 0, Opened 1, Attached 11 1, SentInvite 1, GaveUp 1, OrderCancel 1]) \<and>
     dlg_reach t [Opened 0, Attached 10 0, SentInvite 0, Confirmed 0, Opened 1, Attached 11 1, SentInvite 1, GaveUp 1, OrderCancel 1]"
  "\<exists>t. sample_down = Some (t, [Opened 0, Attached 10 0, SentInvite 0, Confirmed 0, Opened 1, Attached 11 1, SentInvite 1, GaveUp 1, OrderCancel 1, WasUp 0]) \<and>
     dlg_reach t [Opened 0, Attached 10 0, SentInvite 0, Confirmed 0, Opened 1, Attached 11 1, SentInvite 1, GaveUp 1, OrderCancel 1, WasUp 0]"
  using sample_hist dlg_run_reach [OF dlg_new] unfolding sample_up_def sample_down_def by fastforce+

lemma cancel_order: "dlg_reach t h \<Longrightarrow> OrderCancel a \<notin> set (takeWhile (\<lambda>e. e \<noteq> SentInvite a) h)"
proof (induction rule: dlg_reach.induct)
  case dlg_new
  then show ?case by simp
next
  case (dlg_op t h op t' outs)
  have os: "outs = snd (dlg_step op t)" using dlg_op.hyps(3) by simp
  show ?case
  proof (cases "SentInvite a \<in> set h")
    case True
    then show ?thesis using dlg_op.IH by simp
  next
    case False
    have att: "attempts_ok (dt_nextA t) (dt_attempts t) (dt_nextD t) (d_fl t) h"
      using dlg_inv [OF dlg_op.hyps(1)] by (simp add: hist_ok_def)
    have unsent: "\<not> (a < dt_nextA t \<and> ia_sent (dt_attempts t a))"
      using att False unfolding attempts_ok_def by (metis count_list_0_iff zero_neq_one)
    have "OrderCancel a \<notin> set h" using att unsent unfolding attempts_ok_def by (metis count_list_0_iff)
    moreover have "OrderCancel a \<notin> set (takeWhile (\<lambda>e. e \<noteq> SentInvite a) outs)"
    proof (cases "inner op")
      case True
      then show ?thesis using inner_core [OF True, of t] os by simp
    next
      case False
      then show ?thesis unfolding os
      proof (cases op)
        case (OpCancel why r)
        have "r < dt_nextD t" using OpCancel dlg_op.hyps(2) by simp
        then have "a < dt_nextA t" if "d_fl t r = Some a" using att that unfolding attempts_ok_def by blast
        then have "\<not> (inFlight (dt_dialogs t r) = Some a \<and> ia_sent (dt_attempts t a))" using unsent by auto
        then have "OrderCancel a \<notin> set (snd (dlg_step (OpCancel why r) t))"
          by (auto simp: cancelSeries_def Let_def split: option.splits if_splits)
        then show "OrderCancel a \<notin> set (takeWhile (\<lambda>e. e \<noteq> SentInvite a) (snd (dlg_step op t)))"
          using OpCancel by (auto dest: set_takeWhileD)
      qed (auto simp: markSent_def up_out_def split: prod.splits option.splits bool.splits)
    qed
    ultimately show ?thesis using False by (simp add: takeWhile_append)
  qed
qed

text \<open>C12: CANCELs. On every run of the table's operations, a CANCEL is ordered for an INVITE at most once, never before the
  INVITE is sent, and it is ordered as soon as the INVITE is both sent and cancelled.\<close>

theorem cancel_once_after_invite:
  assumes "dlg_reach t h"
  shows "count_list h (OrderCancel a) \<le> 1 \<and> OrderCancel a \<notin> set (takeWhile (\<lambda>e. e \<noteq> SentInvite a) h) \<and>
    (OrderCancel a \<in> set h \<longleftrightarrow> SentInvite a \<in> set h \<and> ia_cancelled (dt_attempts t a))"
proof -
  have "attempts_ok (dt_nextA t) (dt_attempts t) (dt_nextD t) (d_fl t) h" using dlg_inv [OF assms] by (simp add: hist_ok_def)
  then have "count_list h (SentInvite a) = (if a < dt_nextA t \<and> ia_sent (dt_attempts t a) then 1 else 0)"
    "count_list h (OrderCancel a) = (if a < dt_nextA t \<and> ia_sent (dt_attempts t a) \<and> ia_cancelled (dt_attempts t a) then 1 else 0)"
    by (simp_all add: attempts_ok_def)
  moreover have "x \<in> set h \<longleftrightarrow> count_list h x \<noteq> 0" for x by (simp add: count_list_0_iff)
  ultimately show ?thesis using cancel_order [OF assms] by auto
qed

theorem cancel_once_after_invite_witness:
  "\<exists>t h. sample_up = Some (t, h) \<and> OrderCancel 1 \<in> set h \<and> count_list h (OrderCancel 1) \<le> 1 \<and> ia_cancelled (dt_attempts t 1)"
  using sample_reach(1) cancel_once_after_invite [of _ _ 1] by fastforce


text \<open>C4: Giving up is final. Once a call has been given up, by the caller's CANCEL or by the backstop, no later step confirms it.\<close>

theorem cancelled_never_confirmed:
  assumes "dlg_reach t (h1 @ GaveUp r # h2)"
  shows "Confirmed r \<notin> set h2"
proof -
  have "Confirmed r \<notin> set (dropWhile (\<lambda>e. e \<noteq> GaveUp r) (h1 @ GaveUp r # h2))"
    using dlg_inv [OF assms] by (simp add: hist_ok_def giveup_ok_def)
  moreover have "set (GaveUp r # h2) \<subseteq> set (dropWhile (\<lambda>e. e \<noteq> GaveUp r) (h1 @ GaveUp r # h2))"
    by (induction h1) auto
  ultimately show ?thesis by auto
qed

theorem cancelled_never_confirmed_witness:
  "\<exists>t h1 h2. sample_up = Some (t, h1 @ GaveUp 1 # h2) \<and> Confirmed 1 \<notin> set h2"
proof -
  obtain t where t: "sample_up = Some (t, [Opened 0, Attached 10 0, SentInvite 0, Confirmed 0, Opened 1, Attached 11 1, SentInvite 1] @ GaveUp 1 # [OrderCancel 1])"
    "dlg_reach t ([Opened 0, Attached 10 0, SentInvite 0, Confirmed 0, Opened 1, Attached 11 1, SentInvite 1] @ GaveUp 1 # [OrderCancel 1])"
    using sample_reach(1) by auto
  then show ?thesis using cancelled_never_confirmed [OF t(2)] by blast
qed


text \<open>C3: Sessions. A session attached to a call is closed exactly once, when that call ends, and not before; one handed to a call
  that is over, or to a closed table, is closed at once; nothing else is closed.\<close>

theorem session_closed_exactly_once:
  assumes "dlg_reach t h"
  shows "count_list (dt_closes t) s =
    (if Refused s \<in> set h \<or> (\<exists>r. Attached s r \<in> set h \<and> d_state (dt_dialogs t r) = dialogEnded) then 1 else 0)"
proof -
  have "media_ok (dt_nextD t) (d_st t) (d_med t) (dt_closes t) h" using dlg_inv [OF assms] by (simp add: hist_ok_def)
  then show ?thesis unfolding media_ok_def by auto
qed

theorem session_closed_exactly_once_witness:
  "\<exists>t h. sample_up = Some (t, h) \<and> Attached 11 1 \<in> set h \<and> count_list (dt_closes t) 12 = 0"
  using sample_reach(1) session_closed_exactly_once [of _ _ 12] by fastforce


text \<open>C1: The life of a call. It is confirmed at most once; its end is reported to its callers exactly when a confirmed call has
  ended, and only once, whatever teardown paths race.\<close>

theorem call_ends_once:
  assumes "dlg_reach t h"
  shows "count_list h (Confirmed r) \<le> 1 \<and>
    count_list h (WasUp r) = (if Confirmed r \<in> set h \<and> d_state (dt_dialogs t r) = dialogEnded then 1 else 0) \<and>
    (Confirmed r \<in> set h \<and> d_state (dt_dialogs t r) \<noteq> dialogEnded \<longrightarrow> d_state (dt_dialogs t r) = dialogConfirmed \<and> d_media (dt_dialogs t r) \<noteq> None)"
proof -
  have inv: "calls_ok (dt_nextD t) (d_st t) h" "table_ok t" using dlg_inv [OF assms] by (simp_all add: hist_ok_def)
  then have c: "call_ok (r < dt_nextD t) (d_st t r) (count_list h (Confirmed r)) (count_list h (WasUp r))" by (simp add: calls_ok_def)
  have "record_ok (dt_dialogs t r)" if "r < dt_nextD t" using inv(2) that by (simp add: table_ok_def)
  moreover have "Confirmed r \<in> set h \<longleftrightarrow> count_list h (Confirmed r) \<noteq> 0" by (simp add: count_list_0_iff)
  ultimately show ?thesis using c by (auto simp: call_ok_def record_ok_def)
qed

theorem call_ends_once_witness:
  "\<exists>t h. sample_down = Some (t, h) \<and> count_list h (WasUp 0) = 1 \<and> d_state (dt_dialogs t 0) = dialogEnded"
proof -
  define h where "h = [Opened 0, Attached 10 0, SentInvite 0, Confirmed 0, Opened 1, Attached 11 1, SentInvite 1, GaveUp 1, OrderCancel 1, WasUp 0]"
  have c: "count_list h (WasUp 0) = 1" by (simp add: h_def)
  obtain t where t: "sample_down = Some (t, h)" "dlg_reach t h"
    using sample_reach(2) unfolding h_def by blast
  have "count_list h (WasUp 0) = (if Confirmed 0 \<in> set h \<and> d_state (dt_dialogs t 0) = dialogEnded then 1 else 0)"
    using call_ends_once [OF t(2), of 0] by blast
  then have "d_state (dt_dialogs t 0) = dialogEnded" using c by (metis zero_neq_one)
  then show ?thesis using t(1) c by blast
qed


text \<open>C9: The table. On every run it files under each Call-ID exactly the calls that are not over, each once, counts them as its
  sessions, and never holds two early calls with the same Call-ID and caller tag.\<close>

theorem dialog_table_exact:
  assumes "dlg_reach t h"
  shows "(\<forall>c r. r \<in> set (m_get0 [] (byCallID t) c) \<longleftrightarrow>
        r < dt_nextD t \<and> d_state (dt_dialogs t r) \<noteq> dialogEnded \<and> d_callID (dt_dialogs t r) = c) \<and>
    (\<forall>c. distinct (m_get0 [] (byCallID t) c)) \<and>
    dt_sessions t = int (card {r. r < dt_nextD t \<and> d_state (dt_dialogs t r) \<noteq> dialogEnded}) \<and>
    (\<forall>r r'. r < dt_nextD t \<and> r' < dt_nextD t \<and> d_state (dt_dialogs t r) = dialogEarly \<and> d_state (dt_dialogs t r') = dialogEarly \<and>
      d_callID (dt_dialogs t r) = d_callID (dt_dialogs t r') \<and> callerTag (dt_dialogs t r) = callerTag (dt_dialogs t r') \<longrightarrow> r = r')"
proof -
  have ok: "index_ok t" "dt_sessions t = int (card (live t))" "merged_ok t" using dlg_inv [OF assms] by (simp_all add: table_ok_def)
  then show ?thesis
    using bucketD [OF ok(1)] unfolding bucket_def live_def index_ok_def merged_ok_def by blast
qed

theorem dialog_table_exact_witness:
  "\<exists>t h. sample_up = Some (t, h) \<and> dt_sessions t = int (card {r. r < dt_nextD t \<and> d_state (dt_dialogs t r) \<noteq> dialogEnded})"
  using sample_reach(1) dialog_table_exact by blast


section \<open>Lookup, opening and shutdown\<close>

definition names_dialog :: "dialog \<Rightarrow> string \<Rightarrow> string \<Rightarrow> string \<Rightarrow> bool \<Rightarrow> bool" where
  "names_dialog d c ft tt fromCaller \<longleftrightarrow> d_state d = dialogConfirmed \<and> d_callID d = c \<and>
     (if fromCaller then ft = callerTag d \<and> tt = calleeTag d else ft = calleeTag d \<and> tt = callerTag d)"

lemma lookup_scan_Some: "lookup_scan ft tt t is = Some (r, fc) \<Longrightarrow>
    r \<in> set is \<and> d_state (dt_dialogs t r) = dialogConfirmed \<and>
    (if fc then ft = callerTag (dt_dialogs t r) \<and> tt = calleeTag (dt_dialogs t r)
     else ft = calleeTag (dt_dialogs t r) \<and> tt = callerTag (dt_dialogs t r))"
  by (induction "is") (auto simp: Let_def split: if_splits)

lemma lookup_scan_None: "lookup_scan ft tt t is = None \<longleftrightarrow> (\<forall>r \<in> set is. d_state (dt_dialogs t r) = dialogConfirmed \<longrightarrow>
    \<not> (ft = callerTag (dt_dialogs t r) \<and> tt = calleeTag (dt_dialogs t r)) \<and> \<not> (ft = calleeTag (dt_dialogs t r) \<and> tt = callerTag (dt_dialogs t r)))"
  by (induction "is") (auto simp: Let_def)

text \<open>C20: In-dialog matching. A request is routed by a confirmed call exactly when its Call-ID and both tags name one, and the
  direction found is the one its tags say; a request with a tag missing matches nothing.\<close>

theorem lookup_exact:
  assumes "dlg_reach t h"
  shows "(dlg_lookup c ft tt t = None \<longleftrightarrow> ft = [] \<or> tt = [] \<or> \<not> (\<exists>r < dt_nextD t. \<exists>fc. names_dialog (dt_dialogs t r) c ft tt fc)) \<and>
    (\<forall>r fc. dlg_lookup c ft tt t = Some (r, fc) \<longrightarrow> r < dt_nextD t \<and> names_dialog (dt_dialogs t r) c ft tt fc)"
proof -
  have ok: "index_ok t" using dlg_inv [OF assms] by (simp add: table_ok_def)
  have b: "r \<in> set (m_get0 [] (byCallID t) c) \<longleftrightarrow> r < dt_nextD t \<and> d_state (dt_dialogs t r) \<noteq> dialogEnded \<and> d_callID (dt_dialogs t r) = c" for r
    using bucketD [OF ok] by (simp add: bucket_def)
  have n: "(\<exists>fc. names_dialog d c ft tt fc) \<longleftrightarrow> d_state d = dialogConfirmed \<and> d_callID d = c \<and>
     (ft = callerTag d \<and> tt = calleeTag d \<or> ft = calleeTag d \<and> tt = callerTag d)" for d
    by (auto simp: names_dialog_def ex_bool_eq)
  show ?thesis
  proof (cases "ft = [] \<or> tt = []")
    case True
    then show ?thesis by (auto simp: dlg_lookup_def)
  next
    case False
    have "dlg_lookup c ft tt t = lookup_scan ft tt t (m_get0 [] (byCallID t) c)" using False by (simp add: dlg_lookup_def)
    moreover have "lookup_scan ft tt t (m_get0 [] (byCallID t) c) = None \<longleftrightarrow> \<not> (\<exists>r < dt_nextD t. \<exists>fc. names_dialog (dt_dialogs t r) c ft tt fc)"
      unfolding lookup_scan_None n Ball_def b by (metis dialog_state.distinct(6))
    moreover have "r < dt_nextD t \<and> names_dialog (dt_dialogs t r) c ft tt fc"
      if "lookup_scan ft tt t (m_get0 [] (byCallID t) c) = Some (r, fc)" for r fc
      using lookup_scan_Some [OF that] unfolding b names_dialog_def by blast
    ultimately show ?thesis using False by simp
  qed
qed

theorem lookup_exact_witness:
  "\<exists>t h. sample_up = Some (t, h) \<and> 0 < dt_nextD t \<and> names_dialog (dt_dialogs t 0) ''c1'' ''t'' ''a'' False"
proof -
  obtain t h where t: "sample_up = Some (t, h)" "dlg_reach t h" using sample_reach(1) by blast
  have "dlg_lookup ''c1'' ''t'' ''a'' t = Some (0, False)" using sample_looks(2) unfolding t(1) by simp
  then show ?thesis using lookup_exact [OF t(2)] t(1) by blast
qed


text \<open>C21: Opening a call. On every run a new INVITE is refused as closed during shutdown, as merged exactly when an early call has
  its Call-ID and caller tag, as full exactly when the calls that are not over reach the limit, and otherwise opened.\<close>

theorem begin_exact:
  assumes "dlg_reach t h"
  shows "snd (snd (begin_dialog n n' q p limit t)) =
    (if dt_closed t then beginClosed
     else if \<exists>r < dt_nextD t. d_state (dt_dialogs t r) = dialogEarly \<and> d_callID (dt_dialogs t r) = q_CallID q \<and>
         callerTag (dt_dialogs t r) = q_FromTag q then beginMerged
     else if limit > 0 \<and> int (card {r. r < dt_nextD t \<and> d_state (dt_dialogs t r) \<noteq> dialogEnded}) \<ge> limit then beginFull
     else beginOK)"
proof -
  have ok: "index_ok t" "dt_sessions t = int (card (live t))" using dlg_inv [OF assms] by (simp_all add: table_ok_def)
  have lx: "list_ex (\<lambda>i. d_state (dt_dialogs t i) = dialogEarly \<and> callerTag (dt_dialogs t i) = q_FromTag q) (m_get0 [] (byCallID t) (q_CallID q)) \<longleftrightarrow>
    (\<exists>r < dt_nextD t. d_state (dt_dialogs t r) = dialogEarly \<and> d_callID (dt_dialogs t r) = q_CallID q \<and> callerTag (dt_dialogs t r) = q_FromTag q)"
    using bucketD [OF ok(1)] unfolding bucket_def list_ex_iff by (metis dialog_state.distinct(4))
  have shape: "snd (snd (if a then (t1, r1, x) else if b then (t2, r2, y) else if c then (t3, r3, z) else (t4, r4, w))) =
      (if a then x else if b then y else if c then z else w)" for a b c and t1 t2 t3 t4 :: dialog_table and r1 r2 r3 r4 :: "nat option" and x y z w :: begin_result
    by simp
  show ?thesis unfolding begin_dialog_def Let_def lx ok(2) live_def by (rule shape)
qed

theorem begin_exact_witness:
  "\<exists>t h. sample_up = Some (t, h) \<and> (\<exists>r < dt_nextD t. d_state (dt_dialogs t r) = dialogEarly \<and> d_callID (dt_dialogs t r) = ''c1'' \<and> callerTag (dt_dialogs t r) = ''b'')"
proof -
  obtain t h where t: "sample_up = Some (t, h)" "dlg_reach t h" using sample_reach(1) by blast
  have m: "snd (snd (begin_dialog 1 2 sample_invite_2 planePublic 5 t)) = beginMerged" using sample_looks(1) unfolding t(1) by simp
  have "\<exists>r < dt_nextD t. d_state (dt_dialogs t r) = dialogEarly \<and> d_callID (dt_dialogs t r) = q_CallID sample_invite_2 \<and>
      callerTag (dt_dialogs t r) = q_FromTag sample_invite_2"
    using m unfolding begin_exact [OF t(2)] by (metis begin_result.distinct(1,7,9))
  then show ?thesis using t(1) unfolding sample_invite_2_def by auto
qed


lemma end_fold:
  "dlg_reach t h \<Longrightarrow> \<forall>r \<in> set rs. r < dt_nextD t \<Longrightarrow>
   \<exists>os. dlg_reach (fold (\<lambda>r t. fst (end_dialog endShutdown r t)) rs t) (h @ os) \<and>
     dt_nextD (fold (\<lambda>r t. fst (end_dialog endShutdown r t)) rs t) = dt_nextD t \<and>
     (\<forall>s r. Attached s r \<in> set (h @ os) \<longleftrightarrow> Attached s r \<in> set h) \<and>
     (\<forall>r. r \<in> set rs \<or> d_state (dt_dialogs t r) = dialogEnded \<longrightarrow>
        d_state (dt_dialogs (fold (\<lambda>r t. fst (end_dialog endShutdown r t)) rs t) r) = dialogEnded)"
proof (induction rs arbitrary: t h)
  case Nil
  then show ?case by (intro exI [of _ "[]"]) simp
next
  case (Cons r rs)
  let ?t = "fst (end_dialog endShutdown r t)" and ?b = "snd (end_dialog endShutdown r t)"
  have reach: "dlg_reach ?t (h @ up_out r ?b)"
    by (rule dlg_reach.dlg_op [OF Cons.prems(1), where op = "OpEnd endShutdown byProxy r"])
      (use Cons.prems(2) in \<open>simp_all add: end_dialog_def case_prod_beta\<close>)
  have nextD: "dt_nextD ?t = dt_nextD t"
    by (cases "d_state (dt_dialogs t r) = dialogEnded") (simp_all add: end_dialog_def endBy_ended endBy_fields)
  have st: "d_state (dt_dialogs ?t x) = dialogEnded" if "x = r \<or> d_state (dt_dialogs t x) = dialogEnded" for x
    using that by (cases "d_state (dt_dialogs t r) = dialogEnded") (auto simp: end_dialog_def endBy_ended endBy_fields(7))
  obtain os where os: "dlg_reach (fold (\<lambda>r t. fst (end_dialog endShutdown r t)) rs ?t) ((h @ up_out r ?b) @ os)"
    "dt_nextD (fold (\<lambda>r t. fst (end_dialog endShutdown r t)) rs ?t) = dt_nextD ?t"
    "\<forall>s x. Attached s x \<in> set ((h @ up_out r ?b) @ os) \<longleftrightarrow> Attached s x \<in> set (h @ up_out r ?b)"
    "\<forall>x. x \<in> set rs \<or> d_state (dt_dialogs ?t x) = dialogEnded \<longrightarrow> d_state (dt_dialogs (fold (\<lambda>r t. fst (end_dialog endShutdown r t)) rs ?t) x) = dialogEnded"
    using Cons.IH [OF reach] Cons.prems(2) nextD by auto
  have up: "Attached s x \<notin> set (up_out r ?b)" for s x by (simp add: up_out_def)
  have "d_state (dt_dialogs (fold (\<lambda>r t. fst (end_dialog endShutdown r t)) rs ?t) x) = dialogEnded"
    if "x \<in> set (r # rs) \<or> d_state (dt_dialogs t x) = dialogEnded" for x
    using os(4) st [of x] that by auto
  then show ?case using os(1,2,3) up nextD by (intro exI [of _ "up_out r ?b @ os"]) simp
qed

text \<open>C22: Shutdown. Closing all calls leaves the table empty with no session slot taken, and every media session that was ever
  attached to a call closed exactly once.\<close>

theorem shutdown_ends_every_call:
  assumes "dlg_reach t h"
  shows "byCallID (closeAll t) = [] \<and> dt_sessions (closeAll t) = 0 \<and> (\<forall>s r. Attached s r \<in> set h \<longrightarrow> count_list (dt_closes (closeAll t)) s = 1)"
proof -
  have ok: "table_ok t" "index_ok t" using dlg_inv [OF assms] by (simp_all add: table_ok_def)
  have wf: "wf_map (byCallID t)" using ok(2) by (simp add: index_ok_def)
  have tab: "r \<in> set (in_table t) \<longleftrightarrow> r < dt_nextD t \<and> d_state (dt_dialogs t r) \<noteq> dialogEnded" for r
  proof
    assume "r \<in> set (in_table t)"
    then obtain c l where "(c, l) \<in> set (byCallID t)" "r \<in> set l" by (auto simp: in_table_def)
    then have "r \<in> set (bucket t c)" using wf by (simp add: bucket_def m_get0_def wf_map_def)
    then show "r < dt_nextD t \<and> d_state (dt_dialogs t r) \<noteq> dialogEnded" using bucketD [OF ok(2)] by blast
  next
    assume "r < dt_nextD t \<and> d_state (dt_dialogs t r) \<noteq> dialogEnded"
    then have "r \<in> set (bucket t (d_callID (dt_dialogs t r)))" using bucketD [OF ok(2)] by blast
    then obtain l where "m_get (byCallID t) (d_callID (dt_dialogs t r)) = Some l" "r \<in> set l"
      by (cases "m_get (byCallID t) (d_callID (dt_dialogs t r))") (auto simp: bucket_def m_get0_def)
    then have "(d_callID (dt_dialogs t r), l) \<in> set (byCallID t)" by (simp add: map_of_SomeD)
    then show "r \<in> set (in_table t)" using \<open>r \<in> set l\<close> by (force simp: in_table_def)
  qed
  obtain os where os: "dlg_reach (closeAll t) (h @ os)" "dt_nextD (closeAll t) = dt_nextD t"
    "\<forall>s r. Attached s r \<in> set (h @ os) \<longleftrightarrow> Attached s r \<in> set h"
    "\<forall>r. r \<in> set (in_table t) \<or> d_state (dt_dialogs t r) = dialogEnded \<longrightarrow> d_state (dt_dialogs (closeAll t) r) = dialogEnded"
    using end_fold [OF assms, of "in_table t"] tab unfolding closeAll_def by blast
  have ended: "d_state (dt_dialogs (closeAll t) r) = dialogEnded" if "r < dt_nextD t" for r using os(4) tab that by blast
  then have live: "live (closeAll t) = {}" using os(2) by (auto simp: live_def)
  have inv: "index_ok (closeAll t)" "dt_sessions (closeAll t) = int (card (live (closeAll t)))"
    using dlg_inv [OF os(1)] by (simp_all add: table_ok_def)
  have "m_get (byCallID (closeAll t)) c = None" for c
  proof -
    have "set (bucket (closeAll t) c) = {}" "m_get (byCallID (closeAll t)) c \<noteq> Some []" using inv(1) live by (simp_all add: index_ok_def)
    then show ?thesis by (cases "m_get (byCallID (closeAll t)) c") (simp_all add: bucket_def m_get0_def)
  qed
  then have "byCallID (closeAll t) = []" by (metis list.exhaust list.set_intros(1) map_of_eq_None_iff empty_iff image_eqI list.set(1))
  moreover have "count_list (dt_closes (closeAll t)) s = 1" if "Attached s r \<in> set h" for s r
  proof -
    have m: "media_ok (dt_nextD (closeAll t)) (d_st (closeAll t)) (d_med (closeAll t)) (dt_closes (closeAll t)) (h @ os)"
      using dlg_inv [OF os(1)] by (simp add: hist_ok_def)
    have "r < dt_nextD (closeAll t) \<and> d_med (closeAll t) r = Some s" using m os(3) that unfolding media_ok_def by blast
    then show ?thesis using m ended [of r] os(2) unfolding media_ok_def by auto
  qed
  ultimately show ?thesis using inv(2) live by simp
qed

theorem shutdown_ends_every_call_witness:
  "\<exists>t h. sample_up = Some (t, h) \<and> Attached 11 1 \<in> set h \<and> count_list (dt_closes (closeAll t)) 11 = 1"
proof -
  define h where "h = [Opened 0, Attached 10 0, SentInvite 0, Confirmed 0, Opened 1, Attached 11 1, SentInvite 1, GaveUp 1, OrderCancel 1]"
  obtain t where t: "sample_up = Some (t, h)" "dlg_reach t h" using sample_reach(1) unfolding h_def by blast
  have "Attached 11 1 \<in> set h" by (simp add: h_def)
  then show ?thesis using shutdown_ends_every_call [OF t(2)] t(1) by blast
qed


end
