(* ===== verification/Spec2Isabelle.thy ===== *)
theory Spec2Isabelle
  imports Shield_Props Cooldown Location_Props Media_Session_Props Hep Sdp_Body_Props Regguard Config_Props
    Topology Arrival Register_Props Sdes_Props Dialog_Props
begin

text \<open>
  A verification development of FreeSBC, a session border controller: a SIP proxy that stands between
  the public Internet (phones, browsers, carriers) and a private switch (FreeSWITCH, Asterisk), and
  relays the calls' media. Everything below models Go code under \<^verbatim>\<open>src/internal\<close>, by the names the
  code has; a name that HOL or Isabelle already uses carries a prefix or suffix.

  \<^bold>\<open>The program and its parts.\<close> A datagram or stream read passes the shield (bans, rate limits,
  scanner signatures) and is stamped with the side it arrived on. The edge then decides what it
  is: a REGISTER goes through the credential guard and, over a breaker per switch node, to the
  registrar, and a proven one becomes a binding; an INVITE is admitted only from a registered or a
  carrier source, opens a record in the table of calls, has its session description rebuilt, its
  SDES keys and its media ports allocated; the relay latches on the first genuine packets and forwards.
  A configuration that passed validation fixes the addresses, limits and carriers of all of it.

  \<^bold>\<open>Theories and sources.\<close>

  \<^item> \<open>FS_Prelude\<close>, \<open>Go_Strings\<close>, \<open>Go_Sort\<close>: Go maps as association lists, times and durations (a
    monotonic clock in nanoseconds), the LRU lists several tables share, byte strings and the
    functions of \<^verbatim>\<open>strings\<close>, \<^verbatim>\<open>strconv\<close> and \<^verbatim>\<open>sort\<close>. The locale \<open>bounded_machine\<close> is the
    contract of a capped table under any run of operations, interpreted on every such table.
  \<^item> \<open>Netip\<close>, \<open>Netip_Text\<close>, \<open>Netip_Prefix\<close>: what the code uses of \<^verbatim>\<open>net/netip\<close>, on machine words.
  \<^item> \<open>Banlist\<close>, \<open>Ratelimit\<close>, \<open>Offenders\<close>, \<open>Shield\<close>, \<open>Shield_Props\<close>: \<^verbatim>\<open>shield/\<close>. The record
    \<open>shield\<close> holds the three ban tables, the two limiters and the strike tables; \<open>CheckFrom\<close> is the
    gate, and \<open>CheckFrom_amid\<close> the gate with other goroutines' calls between its three steps.
  \<^item> \<open>Cooldown\<close>: \<^verbatim>\<open>edge/cooldown.go\<close>, with the breaker as an inductive state machine it refines.
  \<^item> \<open>Location\<close>, \<open>Location_Props\<close>: \<^verbatim>\<open>edge/location.go\<close>, over an explicit heap, because one binding is
    shared by four indexes and the aliasing matters.
  \<^item> \<open>Admission\<close>, \<open>Regscan\<close>, \<open>Regguard\<close>, \<open>Register\<close>, \<open>Register_Sample\<close>, \<open>Register_Props\<close>: the REGISTER
    path (\<^verbatim>\<open>edge/admission.go\<close>, \<^verbatim>\<open>regguard.go\<close>, \<^verbatim>\<open>register.go\<close>, \<^verbatim>\<open>registerproof.go\<close>, \<^verbatim>\<open>sip/regscan.go\<close>).
    The record \<open>edge\<close> is the state the handler shares; what the nodes answer, and when, is an argument.
  \<^item> \<open>Sip_Message\<close>, \<open>Arrival\<close>: checks on raw bytes (\<^verbatim>\<open>sip/malformed.go\<close>, \<^verbatim>\<open>readfilter.go\<close>, \<^verbatim>\<open>addr.go\<close>)
    and the arrival marker (\<^verbatim>\<open>edge/arrival.go\<close>).
  \<^item> \<open>Topology\<close>, \<open>Edge_Routing\<close>, \<open>Carrier_Dir\<close>, \<open>Carrier_Props\<close>: the sides and nodes
    (\<^verbatim>\<open>edge/topology.go\<close>), where a request goes (\<^verbatim>\<open>carrier.go\<close>, \<^verbatim>\<open>carrierreg.go\<close>) and the carriers'
    addresses (\<^verbatim>\<open>carrierdns.go\<close>).
  \<^item> \<open>Dialog\<close>, \<open>Dialog_Props\<close>: the table of calls (\<^verbatim>\<open>edge/dialog.go\<close>) and what a call is owed
    (\<^verbatim>\<open>offerless.go\<close>, \<^verbatim>\<open>ack.go\<close>). Records, early forks and INVITE attempts live in heaps of the table.
  \<^item> \<open>Sdp_Codec\<close>, \<open>Sdp_Crypto\<close>, \<open>Sdp_Fmtp\<close>, \<open>Sdp_Body\<close>, \<open>Sdp_Body_Props\<close>: \<^verbatim>\<open>sip/sdp/\<close>, the parser of
    session descriptions, the codec negotiation and the builder of new bodies.
  \<^item> \<open>Sdes_Leg\<close>, \<open>Sdes_Props\<close>: \<^verbatim>\<open>edge/sdes.go\<close>, on the relay of \<open>Media_Session\<close>.
  \<^item> \<open>Portpool\<close>, \<open>Latch\<close>, \<open>Latch_Props\<close>, \<open>Media_Session\<close>, \<open>Media_Session_Props\<close>: \<^verbatim>\<open>media/\<close>, the port
    pools, the symmetric-RTP latch, the session with its close protocol and the forwarding step.
  \<^item> \<open>Config_Types\<close>, \<open>Config\<close>, \<open>Config_Validate\<close>, \<open>Config_Props\<close>: \<^verbatim>\<open>config/\<close>.
  \<^item> \<open>Hep\<close>: \<^verbatim>\<open>hep/hep.go\<close>.

  \<^bold>\<open>How state is modelled.\<close> The code guards each table with one mutex, so an operation is one
  function from state to state, and concurrency is the order of operations. A handler that holds no
  lock between its operations is the composition of them; the run relations (\<open>reg_reach\<close>,
  \<open>edge_reach\<close>, \<open>dlg_reach\<close>, \<open>leg_reach\<close> and the \<open>run_ops\<close> of the tables) let them interleave
  freely. What the code reads from elsewhere while it runs (the carrier snapshot, the registrations,
  the configuration) is an environment of each single operation, so it may change from one to the
  next. The theories \<open>Dialog\<close> and \<open>Sdes_Leg\<close> name the few operations that are coarser than the source. The clock is an
  argument wherever the code reads it: a time, or a function from the number of the reading. Errors and
  early returns are values of a sum or an option type. Integers keep their width where the code's do.

  \<^bold>\<open>What the lemmas show.\<close> For each table: its invariant under every operation, its bound, and what
  each operation returns on every branch. Across them: every strike and every ban of a
  stream source has a cause the theorem names, and a carrier's address gains and loses no ban
  (\<open>Shield_Props\<close>, \<open>Register_Props\<close>); the four views of the registrations agree, and a
  binding goes back to a 2xx that a node sent to a credential (\<open>Location_Props\<close>, \<open>Register_Props\<close>); a call
  is confirmed at most once, never after its CANCEL, ends once, and closes its media once, whatever
  paths race (\<open>Dialog_Props\<close>); no session description injects a line (\<open>Sdp_Body_Props\<close>); SRTP is never
  weakened (\<open>Sdes_Props\<close>); what the relay forwards is genuine and a hijacked stream is taken back
  (\<open>Latch_Props\<close>, \<open>Media_Session_Props\<close>); the sockets, limits and carriers of an accepted
  configuration do not clash (\<open>Config_Props\<close>).

  \<^bold>\<open>Bounds and fuel.\<close> Loops are structural recursion, or \<open>function\<close> with a measure. The
  address parser of \<open>Netip_Text\<close> runs on the number of groups left, as eight is all that fit; the sweeps that count (the ports of \<open>Portpool\<close>, the eviction scan of \<open>Offenders\<close>)
  count in the code too.

  \<^bold>\<open>Parameters.\<close> Code that is not in the repository is an argument: Go's case tables beyond ASCII
  (\<open>unicode\<close>), the random source, DNS, the SRTP transforms, the session-description unmarshaller, the URI
  parser, the removal of a header from a message, the rounding of floating point. What is assumed of one is
  a hypothesis of the property that needs it, with a witness.

  \<^bold>\<open>Not modelled.\<close> Sockets, TLS files, kernel filters, metrics and log text; the admin HTTP server;
  reading YAML; ICE and DTLS of the WebRTC legs, which are library calls; the HEP sender's queue; the
  INVITE and in-dialog handlers and the rewriting of forwarded messages, which run on the transaction
  layer and the message type of a third-party library, though the state they share is modelled.
\<close>

end
